(* ===== verification/Prelude.thy ===== *)
theory Prelude
  imports Complex_Main "HOL-Library.Word" "HOL-Library.AList"
begin

text \<open>
  Shared vocabulary of the development: the failures the backend raises, the result type
  of a fallible operation with its two combinators, the outcome of a call into a library
  that is not part of the repository, and the list and dictionary lemmas that several
  components use. The named collection \<open>outcome_simps\<close> holds the rewrite rules for results.
\<close>

named_theorems outcome_simps

section \<open>Failures and results\<close>

text \<open>
  An \<^theory_text>\<open>ApplicationFailure\<close> carries a code, a public sentence and a status. The
  sentence is a fixed text per code and no decision depends on it, so the model keeps the
  code and the status. \<^theory_text>\<open>StorageFailure\<close> is the subclass that the scheduler treats
  apart from all others. The remaining constructors are the Python exceptions that the
  modelled functions raise or catch themselves.
\<close>

datatype exn =
    Application_Failure string int
  | Storage_Failure
  | Value_Error
  | OS_Error
  | Key_Error
  | Index_Error
  | Library_Error
  | Download_Stopped
  | Stop_Iteration
  | Type_Error

type_synonym 'a result = "exn + 'a"

definition failure_code :: "exn \<Rightarrow> string" where
  "failure_code e = (case e of
      Application_Failure code status \<Rightarrow> code
    | Storage_Failure \<Rightarrow> ''storage_unavailable''
    | _ \<Rightarrow> '''')"

definition is_application_failure :: "exn \<Rightarrow> bool" where
  "is_application_failure e = (case e of
      Application_Failure code status \<Rightarrow> True
    | Storage_Failure \<Rightarrow> True
    | _ \<Rightarrow> False)"

definition andThen :: "'e + 'a \<Rightarrow> ('a \<Rightarrow> 'e + 'b) \<Rightarrow> 'e + 'b" where
  "andThen m f = (case m of Inl e \<Rightarrow> Inl e | Inr x \<Rightarrow> f x)"

definition ensure :: "bool \<Rightarrow> 'e \<Rightarrow> 'e + unit" where
  "ensure b e = (if b then Inr () else Inl e)"

lemma andThen_Inl [simp, outcome_simps]: "andThen (Inl e) f = Inl e"
  by (simp add: andThen_def)

lemma andThen_Inr [simp, outcome_simps]: "andThen (Inr x) f = f x"
  by (simp add: andThen_def)

lemma andThen_eq_Inr [outcome_simps]:
  "andThen m f = Inr y \<longleftrightarrow> (\<exists>x. m = Inr x \<and> f x = Inr y)"
  by (cases m) auto

lemma andThen_eq_Inl [outcome_simps]:
  "andThen m f = Inl e \<longleftrightarrow> m = Inl e \<or> (\<exists>x. m = Inr x \<and> f x = Inl e)"
  by (cases m) auto

lemma ensure_eq_Inr [simp, outcome_simps]: "ensure b e = Inr u \<longleftrightarrow> b"
  by (simp add: ensure_def)

lemma ensure_eq_Inl [simp, outcome_simps]: "ensure b e = Inl e' \<longleftrightarrow> \<not> b \<and> e' = e"
  by (auto simp: ensure_def)

lemma ensure_True [simp]: "ensure True e = Inr ()"
  by (simp add: ensure_def)

lemma ensure_False [simp]: "ensure False e = Inl e"
  by (simp add: ensure_def)

lemma if_Inl_Inr: "(if q then Inl e else Inr x) = Inr y \<longleftrightarrow> \<not> q \<and> y = x"
  by auto

section \<open>Stateful operations that may fail\<close>

text \<open>
  An operation on a state that Python mutates in place: it returns the new state together
  with its outcome, so a failure keeps whatever was changed before it.
\<close>

type_synonym ('s, 'a) action = "'s \<Rightarrow> 's \<times> 'a result"

definition act_return :: "'a \<Rightarrow> ('s, 'a) action" where
  "act_return x s = (s, Inr x)"

definition act_raise :: "exn \<Rightarrow> ('s, 'a) action" where
  "act_raise e s = (s, Inl e)"

definition act_get :: "('s, 's) action" where
  "act_get s = (s, Inr s)"

definition act_modify :: "('s \<Rightarrow> 's) \<Rightarrow> ('s, unit) action" where
  "act_modify f s = (f s, Inr ())"

definition act_bind :: "('s, 'a) action \<Rightarrow> ('a \<Rightarrow> ('s, 'b) action) \<Rightarrow> ('s, 'b) action" where
  "act_bind m f s = (case m s of (s', Inl e) \<Rightarrow> (s', Inl e) | (s', Inr x) \<Rightarrow> f x s')"

definition act_lift :: "'a result \<Rightarrow> ('s, 'a) action" where
  "act_lift r s = (s, r)"

definition act_when :: "bool \<Rightarrow> ('s, unit) action \<Rightarrow> ('s, unit) action" where
  "act_when b m = (if b then m else act_return ())"

named_theorems action_simps

lemma act_simps [simp, action_simps]:
  "act_return x s = (s, Inr x)"
  "act_raise e s = (s, Inl e)"
  "act_get s = (s, Inr s)"
  "act_modify f s = (f s, Inr ())"
  "act_lift r s = (s, r)"
  by (simp_all add: act_return_def act_raise_def act_get_def act_modify_def act_lift_def)

lemma act_bind_step [simp, action_simps]:
  "m s = (s', Inr x) \<Longrightarrow> act_bind m f s = f x s'"
  "m s = (s', Inl e) \<Longrightarrow> act_bind m f s = (s', Inl e)"
  by (simp_all add: act_bind_def)

lemma act_bind_run [simp, action_simps]:
  "act_bind act_get g s = g s s"
  "act_bind (act_return x) f s = f x s"
  "act_bind (act_raise e) f s = (s, Inl e)"
  "act_bind (act_modify h) k s = k () (h s)"
  "act_bind (act_lift (Inr x)) f s = f x s"
  "act_bind (act_lift (Inl e)) f s = (s, Inl e)"
  "act_bind (act_bind m n) f s = act_bind m (\<lambda>y. act_bind (n y) f) s"
  "act_bind (if c then m' else m'') f s = (if c then act_bind m' f s else act_bind m'' f s)"
  by (simp_all add: act_bind_def split: prod.splits sum.splits)

lemma act_bind_Inr:
  "act_bind m f s = (t, Inr y) \<longleftrightarrow> (\<exists>s' x. m s = (s', Inr x) \<and> f x s' = (t, Inr y))"
  by (auto simp: act_bind_def split: prod.splits sum.splits)

lemma act_bind_Inl:
  "act_bind m f s = (t, Inl e) \<longleftrightarrow>
     m s = (t, Inl e) \<or> (\<exists>s' x. m s = (s', Inr x) \<and> f x s' = (t, Inl e))"
  by (auto simp: act_bind_def split: prod.splits sum.splits)

text \<open>A property of states that each part of an operation keeps is kept by the whole.\<close>

definition act_keeps :: "('s \<Rightarrow> bool) \<Rightarrow> ('s, 'a) action \<Rightarrow> bool" where
  "act_keeps I m \<longleftrightarrow> (\<forall>s. I s \<longrightarrow> I (fst (m s)))"

lemma act_keepsI: "(\<And>s. I s \<Longrightarrow> I (fst (m s))) \<Longrightarrow> act_keeps I m"
  by (simp add: act_keeps_def)

lemma act_keepsD: "act_keeps I m \<Longrightarrow> I s \<Longrightarrow> m s = (t, r) \<Longrightarrow> I t"
  by (metis act_keeps_def fst_conv)

lemma act_keeps_bind [intro]:
  "act_keeps I m \<Longrightarrow> (\<And>x. act_keeps I (f x)) \<Longrightarrow> act_keeps I (act_bind m f)"
  unfolding act_keeps_def by (auto simp: act_bind_def split: prod.splits sum.splits)

lemma act_keeps_basic [simp, intro]:
  "act_keeps I (act_return x)" "act_keeps I (act_raise e)" "act_keeps I act_get" "act_keeps I (act_lift r)"
  by (simp_all add: act_keeps_def)

section \<open>Calls into libraries outside the repository\<close>

text \<open>
  A call into a third-party package returns a value, raises the package's own error, or
  runs out of memory. The package itself is a function parameter of this result type.
\<close>

datatype 'a call = Returns 'a | Raises | Out_Of_Memory

section \<open>Lists\<close>

text \<open>A comprehension whose element may fail stops at the first failure.\<close>

fun traverse :: "('a \<Rightarrow> 'e + 'b) \<Rightarrow> 'a list \<Rightarrow> 'e + 'b list" where
  "traverse f [] = Inr []"
| "traverse f (x # xs) = andThen (f x) (\<lambda>y. andThen (traverse f xs) (\<lambda>ys. Inr (y # ys)))"

lemma traverse_Inr:
  "traverse f xs = Inr ys \<longleftrightarrow>
     length ys = length xs \<and> (\<forall>i < length xs. f (xs ! i) = Inr (ys ! i))"
proof (induction xs arbitrary: ys)
  case (Cons x xs)
  show ?case
  proof (cases ys)
    case Nil
    then show ?thesis by (auto simp: andThen_eq_Inr)
  next
    case (Cons y zs)
    then show ?thesis using Cons.IH [of zs]
      by (auto simp: andThen_eq_Inr All_less_Suc2)
  qed
qed auto

lemma concat_map_singleton: "concat (map (\<lambda>x. [f x]) xs) = map f xs"
  by (induction xs) auto

lemma ceil_div: "0 < n \<Longrightarrow> (b * n + n - Suc 0) div n = (b :: nat)"
  by (rule div_nat_eqI) (simp_all add: algebra_simps)

lemma nth_concat_uniform:
  assumes "\<And>xs. xs \<in> set xss \<Longrightarrow> length xs = n" and "i < length xss" and "j < n"
  shows "concat xss ! (i * n + j) = xss ! i ! j"
  using assms
proof (induction xss arbitrary: i)
  case Nil
  then show ?case by simp
next
  case (Cons xs xss)
  then show ?case
  proof (cases i)
    case 0
    with Cons.prems show ?thesis by (simp add: nth_append)
  next
    case (Suc k)
    with Cons.prems have "concat xss ! (k * n + j) = xss ! k ! j"
      by (intro Cons.IH) auto
    with Suc Cons.prems show ?thesis by (simp add: nth_append)
  qed
qed

lemma length_concat_uniform:
  "(\<And>xs. xs \<in> set xss \<Longrightarrow> length xs = n) \<Longrightarrow> length (concat xss) = length xss * n"
  by (induction xss) auto

lemma sum_list_map_const: "sum_list (map (\<lambda>_. c) xs) = of_nat (length xs) * (c :: 'a :: semiring_1)"
  by (induction xs) (auto simp: algebra_simps)

lemma sorted_distinct_insort:
  assumes "sorted (xs :: 'a :: linorder list)" and "distinct xs" and "x \<notin> set xs"
  shows "sorted (sort (xs @ [x]))" and "distinct (sort (xs @ [x]))"
    and "set (sort (xs @ [x])) = insert x (set xs)"
  using assms by auto

section \<open>Character classes of the identifier patterns\<close>

definition char_between :: "char \<Rightarrow> char \<Rightarrow> char \<Rightarrow> bool" where
  "char_between lo hi c \<longleftrightarrow>
     (of_char lo :: nat) \<le> of_char c \<and> (of_char c :: nat) \<le> of_char hi"

definition is_lower_char :: "char \<Rightarrow> bool" where
  "is_lower_char c \<longleftrightarrow> char_between (CHR ''a'') (CHR ''z'') c"

definition is_upper_char :: "char \<Rightarrow> bool" where
  "is_upper_char c \<longleftrightarrow> char_between (CHR ''A'') (CHR ''Z'') c"

definition is_digit_char :: "char \<Rightarrow> bool" where
  "is_digit_char c \<longleftrightarrow> char_between (CHR ''0'') (CHR ''9'') c"

definition is_hex_char :: "char \<Rightarrow> bool" where
  "is_hex_char c \<longleftrightarrow> is_digit_char c \<or> char_between (CHR ''a'') (CHR ''f'') c"

definition is_sha256 :: "string \<Rightarrow> bool" where
  "is_sha256 s \<longleftrightarrow> length s = 64 \<and> list_all is_hex_char s"

lemmas char_class_defs = char_between_def is_lower_char_def is_upper_char_def
  is_digit_char_def is_hex_char_def

section \<open>Dictionaries\<close>

text \<open>
  A Python \<^theory_text>\<open>dict\<close> is an association list in insertion order: storing under a
  known key keeps its place and storing under a new key appends, which is what
  \<^term>\<open>AList.update\<close> does; removal is \<^term>\<open>AList.delete\<close>.
\<close>

abbreviation dict_get :: "('k \<times> 'v) list \<Rightarrow> 'k \<Rightarrow> 'v option" where
  "dict_get d k \<equiv> map_of d k"

abbreviation dict_keys :: "('k \<times> 'v) list \<Rightarrow> 'k list" where
  "dict_keys d \<equiv> map fst d"

lemma dict_get_update [simp]:
  "dict_get (AList.update k v d) k' = (if k' = k then Some v else dict_get d k')"
  by (simp add: update_conv)

lemma dict_get_delete [simp]:
  "dict_get (AList.delete k d) k' = (if k' = k then None else dict_get d k')"
  by (simp add: delete_conv)

lemma dict_keys_delete_subset: "set (dict_keys (AList.delete k d)) \<subseteq> set (dict_keys d) - {k}"
  by (induction d) auto

lemma length_update_known: "k \<in> set (dict_keys d) \<Longrightarrow> length (AList.update k v d) = length d"
  by (induction d) auto

lemma length_update_new: "k \<notin> set (dict_keys d) \<Longrightarrow> length (AList.update k v d) = Suc (length d)"
  by (induction d) auto

lemma set_keys_update: "set (dict_keys (AList.update k v d)) = insert k (set (dict_keys d))"
  by (induction d) auto

lemma length_delete_le: "length (AList.delete k d) \<le> length d"
  by (induction d) auto

end
