(* ===== verification/Utf8.thy ===== *)
theory Utf8
  imports Prelude
begin

text \<open>
  Python text and its strict UTF-8 form. A \<^theory_text>\<open>str\<close> is a list of code points
  (surrogates included, which strict encoding refuses); \<^theory_text>\<open>bytes\<close> is a list of
  8-bit words. Decoding follows the strict rules of the standard library: shortest form
  only, no surrogates, nothing above 0x10FFFF.
\<close>

type_synonym byte = "8 word"
type_synonym pystr = "nat list"

definition byte_of :: "nat \<Rightarrow> byte" where
  "byte_of n = of_nat n"

lemma unat_byte_of [simp]: "unat (byte_of n) = n mod 256"
  by (simp add: byte_of_def unat_of_nat)

lemma unat_byte_less [simp]: "unat (b :: byte) < 256"
  using unsigned_less [of b] by simp

lemma byte_of_unat [simp]: "byte_of (unat b) = b"
  by (simp add: byte_of_def)

definition is_scalar :: "nat \<Rightarrow> bool" where
  "is_scalar n \<longleftrightarrow> n < 0x110000 \<and> \<not> (0xD800 \<le> n \<and> n \<le> 0xDFFF)"

definition encode_point :: "nat \<Rightarrow> byte list option" where
  "encode_point n =
    (if \<not> is_scalar n then None
     else if n < 0x80 then Some [byte_of n]
     else if n < 0x800 then Some [byte_of (0xC0 + n div 64), byte_of (0x80 + n mod 64)]
     else if n < 0x10000 then
       Some [byte_of (0xE0 + n div 4096), byte_of (0x80 + n div 64 mod 64),
             byte_of (0x80 + n mod 64)]
     else Some [byte_of (0xF0 + n div 262144), byte_of (0x80 + n div 4096 mod 64),
             byte_of (0x80 + n div 64 mod 64), byte_of (0x80 + n mod 64)])"

fun encode_utf8 :: "pystr \<Rightarrow> byte list option" where
  "encode_utf8 [] = Some []"
| "encode_utf8 (c # cs) =
    (case encode_point c of
       None \<Rightarrow> None
     | Some bs \<Rightarrow> map_option ((@) bs) (encode_utf8 cs))"

definition is_continuation :: "byte \<Rightarrow> bool" where
  "is_continuation b \<longleftrightarrow> 0x80 \<le> unat b \<and> unat b < 0xC0"

fun decode_point :: "byte list \<Rightarrow> (nat \<times> byte list) option" where
  "decode_point [] = None"
| "decode_point (b # bs) =
    (let n = unat b in
     if n < 0x80 then Some (n, bs)
     else if n < 0xC0 then None
     else if n < 0xE0 then
       (case bs of
          c1 # rest \<Rightarrow>
            (let v = (n - 0xC0) * 64 + (unat c1 - 0x80) in
             if is_continuation c1 \<and> 0x80 \<le> v then Some (v, rest) else None)
        | _ \<Rightarrow> None)
     else if n < 0xF0 then
       (case bs of
          c1 # c2 # rest \<Rightarrow>
            (let v = (n - 0xE0) * 4096 + (unat c1 - 0x80) * 64 + (unat c2 - 0x80) in
             if is_continuation c1 \<and> is_continuation c2 \<and> 0x800 \<le> v \<and> is_scalar v
             then Some (v, rest) else None)
        | _ \<Rightarrow> None)
     else if n < 0xF8 then
       (case bs of
          c1 # c2 # c3 # rest \<Rightarrow>
            (let v = (n - 0xF0) * 262144 + (unat c1 - 0x80) * 4096
                     + (unat c2 - 0x80) * 64 + (unat c3 - 0x80) in
             if is_continuation c1 \<and> is_continuation c2 \<and> is_continuation c3
                \<and> 0x10000 \<le> v \<and> is_scalar v
             then Some (v, rest) else None)
        | _ \<Rightarrow> None)
     else None)"

lemma decode_point_shorter: "decode_point bs = Some (n, rest) \<Longrightarrow> length rest < length bs"
  by (cases bs) (auto simp: Let_def split: if_splits list.splits)

function decode_utf8 :: "byte list \<Rightarrow> pystr option" where
  "decode_utf8 bs =
    (if bs = [] then Some []
     else (case decode_point bs of
             None \<Rightarrow> None
           | Some (n, rest) \<Rightarrow> map_option ((#) n) (decode_utf8 rest)))"
  by pat_completeness auto
termination
  by (relation "measure length") (auto dest: decode_point_shorter)

declare decode_utf8.simps [simp del]

lemma decode_utf8_Nil [simp]: "decode_utf8 [] = Some []"
  by (subst decode_utf8.simps) simp

lemma decode_encode_point:
  assumes "encode_point n = Some bs"
  shows "decode_point (bs @ rest) = Some (n, rest)"
proof -
  have three_bytes: "n div 4096 * 4096 + n div 64 mod 64 * 64 + n mod 64 = n" for n :: nat
  proof -
    have "n div 4096 = n div 64 div 64" by (simp add: div_mult2_eq [symmetric])
    moreover have "n = n div 64 * 64 + n mod 64"
      and "n div 64 = n div 64 div 64 * 64 + n div 64 mod 64" by simp_all
    ultimately show ?thesis by linarith
  qed
  have four_bytes: "n div 262144 * 262144 + n div 4096 mod 64 * 4096 + n div 64 mod 64 * 64 + n mod 64 = n"
  proof -
    have "n div 262144 = n div 4096 div 64" by (simp add: div_mult2_eq [symmetric])
    moreover have "n div 4096 = n div 4096 div 64 * 64 + n div 4096 mod 64" by simp
    ultimately show ?thesis using three_bytes [of n] by linarith
  qed
  from assms have ok: "is_scalar n" by (simp add: encode_point_def split: if_splits)
  consider (one) "n < 128" | (two) "128 \<le> n" "n < 2048" | (three) "2048 \<le> n" "n < 65536"
    | (four) "65536 \<le> n" by linarith
  then show ?thesis
  proof cases
    case one
    with assms ok show ?thesis by (auto simp: encode_point_def)
  next
    case two
    with assms ok have bs: "bs = [byte_of (0xC0 + n div 64), byte_of (0x80 + n mod 64)]"
      by (simp add: encode_point_def)
    define a where "a = n div 64"
    define b where "b = n mod 64"
    from two have "a < 32" and "2 \<le> a" and "b < 64" and "n = a * 64 + b"
      by (auto simp: a_def b_def)
    moreover from this have "n div 64 = a" and "n mod 64 = b" by auto
    ultimately show ?thesis by (simp add: bs is_continuation_def Let_def)
  next
    case three
    with assms ok have bs: "bs = [byte_of (0xE0 + n div 4096), byte_of (0x80 + n div 64 mod 64),
        byte_of (0x80 + n mod 64)]"
      by (simp add: encode_point_def)
    define a b c where "a = n div 4096" and "b = n div 64 mod 64" and "c = n mod 64"
    have v: "a * 4096 + b * 64 + c = n" using three_bytes [of n] by (simp add: a_def b_def c_def)
    have "a < 16" and "b < 64" and "c < 64" using three by (auto simp: a_def b_def c_def)
    with three ok v show ?thesis
      by (simp add: bs is_continuation_def Let_def flip: a_def b_def c_def)
  next
    case four
    with assms ok have bs: "bs = [byte_of (0xF0 + n div 262144), byte_of (0x80 + n div 4096 mod 64),
        byte_of (0x80 + n div 64 mod 64), byte_of (0x80 + n mod 64)]"
      by (simp add: encode_point_def)
    define a b c d where "a = n div 262144" and "b = n div 4096 mod 64"
      and "c = n div 64 mod 64" and "d = n mod 64"
    have v: "a * 262144 + b * 4096 + c * 64 + d = n"
      using four_bytes by (simp add: a_def b_def c_def d_def)
    have "a < 5" using ok by (auto simp: is_scalar_def a_def)
    moreover have "b < 64" and "c < 64" and "d < 64" by (auto simp: b_def c_def d_def)
    ultimately show ?thesis using four ok v
      by (simp add: bs is_continuation_def Let_def flip: a_def b_def c_def d_def)
  qed
qed

lemma encode_point_nonempty: "encode_point n = Some bs \<Longrightarrow> bs \<noteq> []"
  by (auto simp: encode_point_def split: if_splits)

lemma decode_encode_utf8: "encode_utf8 cs = Some bs \<Longrightarrow> decode_utf8 bs = Some cs"
proof (induction cs arbitrary: bs)
  case Nil
  then show ?case by simp
next
  case (Cons c cs)
  then obtain b1 b2 where b: "encode_point c = Some b1" "encode_utf8 cs = Some b2" "bs = b1 @ b2"
    by (auto split: option.splits)
  from b(1) have "bs \<noteq> []" using b(3) encode_point_nonempty by auto
  with b decode_encode_point [OF b(1), of b2] Cons.IH [OF b(2)] show ?case
    by (subst decode_utf8.simps) simp
qed

lemma encode_utf8_length: "encode_utf8 cs = Some bs \<Longrightarrow> length cs \<le> length bs"
proof (induction cs arbitrary: bs)
  case (Cons c cs)
  then obtain b1 b2 where b: "encode_point c = Some b1" "encode_utf8 cs = Some b2" "bs = b1 @ b2"
    by (auto split: option.splits)
  with encode_point_nonempty [OF b(1)] Cons.IH [OF b(2)] show ?case
    by (cases b1) auto
qed simp

text \<open>Strict decoding accepts one spelling only: re-encoding gives the same bytes.\<close>

lemma continuation_value:
  assumes "is_continuation c"
  obtains v where "v < 64" and "c = byte_of (0x80 + v)" and "unat c - 0x80 = v"
proof -
  from assms have u: "0x80 \<le> unat c" "unat c < 0xC0" by (simp_all add: is_continuation_def)
  have "c = byte_of (0x80 + (unat c - 0x80))" using u(1) by simp
  with u show thesis by (intro that [of "unat c - 0x80"]) linarith+
qed

lemma lead_value:
  assumes "lo \<le> unat b" and "unat b < lo + k"
  obtains u where "u < k" and "b = byte_of (lo + u)" and "unat b - lo = u"
proof -
  have "b = byte_of (lo + (unat b - lo))" using assms(1) by simp
  with assms show thesis by (intro that [of "unat b - lo"]) linarith+
qed

lemma base64_digits:
  fixes q r :: nat
  assumes "n = q * 64 + r" and "r < 64"
  shows "n div 64 = q" and "n mod 64 = r"
  using assms by simp_all

lemma encode_decode_point:
  assumes "decode_point bs = Some (n, rest)"
  shows "\<exists>b. encode_point n = Some b \<and> bs = b @ rest"
proof -
  from assms obtain b tl where bs: "bs = b # tl" by (cases bs) auto
  have "\<not> (0x80 \<le> unat b \<and> unat b < 0xC0)" and "unat b < 0xF8"
    using assms by (simp_all add: bs Let_def split: if_splits)
  then consider (one) "unat b < 0x80" | (two) "0xC0 \<le> unat b" "unat b < 0xE0"
    | (three) "0xE0 \<le> unat b" "unat b < 0xF0" | (four) "0xF0 \<le> unat b" "unat b < 0xF8"
    by linarith
  then show ?thesis
  proof cases
    case one
    with assms have "n = unat b" and "tl = rest" by (simp_all add: bs Let_def)
    with one show ?thesis by (simp add: bs encode_point_def is_scalar_def)
  next
    case two
    with assms obtain c1 where t: "tl = c1 # rest" "is_continuation c1"
        "n = (unat b - 0xC0) * 64 + (unat c1 - 0x80)" "0x80 \<le> n"
      by (auto simp: bs Let_def split: if_splits list.splits)
    obtain u where u: "u < 32" "b = byte_of (0xC0 + u)" "unat b - 0xC0 = u"
      using lead_value [of 192 b 32] two by auto
    obtain v where v: "v < 64" "c1 = byte_of (0x80 + v)" "unat c1 - 0x80 = v"
      using continuation_value [OF t(2)] .
    have n: "n = u * 64 + v" using t(3) u(3) v(3) by (simp only:)
    with u(1) v(1) have "n < 0x800" "n div 64 = u" "n mod 64 = v" by simp_all
    with t(4) show ?thesis by (simp add: bs t(1) encode_point_def is_scalar_def u(2) v(2))
  next
    case three
    with assms obtain c1 c2 where t: "tl = c1 # c2 # rest" "is_continuation c1" "is_continuation c2"
        "n = (unat b - 0xE0) * 4096 + (unat c1 - 0x80) * 64 + (unat c2 - 0x80)" "0x800 \<le> n"
        "is_scalar n"
      by (auto simp: bs Let_def split: if_splits list.splits)
    obtain u where u: "u < 16" "b = byte_of (0xE0 + u)" "unat b - 0xE0 = u"
      using lead_value [of 224 b 16] three by auto
    obtain v where v: "v < 64" "c1 = byte_of (0x80 + v)" "unat c1 - 0x80 = v"
      using continuation_value [OF t(2)] .
    obtain w where w: "w < 64" "c2 = byte_of (0x80 + w)" "unat c2 - 0x80 = w"
      using continuation_value [OF t(3)] .
    have n: "n = (u * 64 + v) * 64 + w" using t(4) unfolding u(3) v(3) w(3) by (simp add: algebra_simps)
    have d: "n div 64 = u * 64 + v" "n mod 64 = w" using base64_digits [OF n w(1)] by blast+
    have e: "n div 4096 = u" "n div 64 mod 64 = v"
      using div_mult2_eq [of n 64 64] base64_digits [OF d(1) v(1)] by simp_all
    have "n < 0x10000" unfolding n using u(1) v(1) w(1) by (simp add: algebra_simps)
    with t(5,6) show ?thesis
      by (simp add: bs t(1) encode_point_def u(2) v(2) w(2) e d(2) del: One_nat_def)
  next
    case four
    with assms obtain c1 c2 c3 where t: "tl = c1 # c2 # c3 # rest" "is_continuation c1"
        "is_continuation c2" "is_continuation c3" "0x10000 \<le> n" "is_scalar n"
        "n = (unat b - 0xF0) * 262144 + (unat c1 - 0x80) * 4096 + (unat c2 - 0x80) * 64
             + (unat c3 - 0x80)"
      by (auto simp: bs Let_def split: if_splits list.splits)
    obtain u where u: "u < 8" "b = byte_of (0xF0 + u)" "unat b - 0xF0 = u"
      using lead_value [of 240 b 8] four by auto
    obtain v where v: "v < 64" "c1 = byte_of (0x80 + v)" "unat c1 - 0x80 = v"
      using continuation_value [OF t(2)] .
    obtain w where w: "w < 64" "c2 = byte_of (0x80 + w)" "unat c2 - 0x80 = w"
      using continuation_value [OF t(3)] .
    obtain z where z: "z < 64" "c3 = byte_of (0x80 + z)" "unat c3 - 0x80 = z"
      using continuation_value [OF t(4)] .
    have n: "n = ((u * 64 + v) * 64 + w) * 64 + z"
      using t(7) unfolding u(3) v(3) w(3) z(3) by (simp add: algebra_simps)
    have d: "n div 64 = (u * 64 + v) * 64 + w" "n mod 64 = z" using base64_digits [OF n z(1)] by blast+
    have e: "n div 4096 = u * 64 + v" "n div 64 mod 64 = w"
      using div_mult2_eq [of n 64 64] base64_digits [OF d(1) w(1)] by simp_all
    have f: "n div 262144 = u" "n div 4096 mod 64 = v"
      using div_mult2_eq [of n 4096 64] base64_digits [OF e(1) v(1)] by simp_all
    from t(5,6) show ?thesis
      by (simp add: bs t(1) encode_point_def u(2) v(2) w(2) z(2) e(2) f d(2) del: One_nat_def)
  qed
qed

lemma encode_decode_utf8: "decode_utf8 bs = Some cs \<Longrightarrow> encode_utf8 cs = Some bs"
proof (induction bs arbitrary: cs rule: decode_utf8.induct)
  case (1 bs)
  show ?case
  proof (cases "bs = []")
    case True
    with "1.prems" show ?thesis by simp
  next
    case False
    with "1.prems" obtain n rest cs' where d: "decode_point bs = Some (n, rest)"
        "decode_utf8 rest = Some cs'" "cs = n # cs'"
      by (subst (asm) decode_utf8.simps) (auto split: option.splits)
    from "1.IH" [OF False d(1) refl d(2)] encode_decode_point [OF d(1)] d(3) show ?thesis
      by auto
  qed
qed

end
