(* ===== verification/Capacity.thy ===== *)
theory Capacity
  imports Utf8
begin

text \<open>
  The layout accounting of the message protocol: \<^verbatim>\<open>schemas/protocol.py\<close>,
  \<^verbatim>\<open>schemas/image_dimensions.py\<close>, \<^verbatim>\<open>backend_service/payload_capacity.py\<close> and the three
  fixed failures of \<^verbatim>\<open>backend_service/protocol_failures.py\<close>. Field constraints of the
  records are Boolean functions, and validating a record is a test of them.
\<close>

section \<open>Fixed failures\<close>

definition recovery_failure :: exn where
  "recovery_failure = Application_Failure ''message_recovery_failed'' 422"

definition invalid_protocol_input :: exn where
  "invalid_protocol_input = Application_Failure ''invalid_protocol_input'' 422"

definition protocol_resource_failure :: exn where
  "protocol_resource_failure = Application_Failure ''protocol_resources_unavailable'' 503"

section \<open>The protocol context\<close>

definition minimum_image_side :: int where "minimum_image_side = 512"
definition maximum_image_side :: int where "maximum_image_side = 4096"
definition maximum_image_area :: int where "maximum_image_area = 8850000"

definition image_dimensions_valid :: "int \<Rightarrow> int \<Rightarrow> bool" where
  "image_dimensions_valid w h \<longleftrightarrow>
     minimum_image_side \<le> w \<and> w \<le> maximum_image_side \<and>
     minimum_image_side \<le> h \<and> h \<le> maximum_image_side \<and>
     w * h \<le> maximum_image_area"

record protocol_context =
  width :: int
  height :: int
  protocol_version :: int
  profile_identifier :: string
  compatibility_identifier :: string

definition compatibility_pattern :: "string \<Rightarrow> bool" where
  "compatibility_pattern s \<longleftrightarrow>
     (case s of
        [] \<Rightarrow> False
      | c # cs \<Rightarrow> (is_lower_char c \<or> is_digit_char c) \<and> length cs \<le> 127 \<and>
          list_all (\<lambda>d. is_lower_char d \<or> is_digit_char d \<or> d \<in> set ''_.-'') cs)"

definition context_valid :: "protocol_context \<Rightarrow> bool" where
  "context_valid c \<longleftrightarrow>
     image_dimensions_valid (width c) (height c) \<and> protocol_version c = 1 \<and>
     profile_identifier c = ''test_only_v1'' \<and>
     compatibility_pattern (compatibility_identifier c)"

definition validate_context :: "protocol_context \<Rightarrow> protocol_context result" where
  "validate_context c = (if context_valid c then Inr c else Inl invalid_protocol_input)"

section \<open>Capacity accounting\<close>

record payload_capacity =
  maximum_message_bytes :: int
  padding_bytes_at_capacity :: int
  block_count :: int
  frame_bytes :: int
  correction_bytes :: int
  protected_bits :: int
  payload_map_bits :: int
  repeated_bits :: int
  minimum_repetitions :: int
  additional_repetitions :: int

definition capacity_valid :: "payload_capacity \<Rightarrow> bool" where
  "capacity_valid p \<longleftrightarrow>
     256 \<le> maximum_message_bytes p \<and> maximum_message_bytes p \<le> 1024 \<and>
     0 \<le> padding_bytes_at_capacity p \<and> padding_bytes_at_capacity p < 223 \<and>
     2 \<le> block_count p \<and> block_count p \<le> 5 \<and>
     446 \<le> frame_bytes p \<and> frame_bytes p \<le> 1115 \<and>
     64 \<le> correction_bytes p \<and> correction_bytes p \<le> 160 \<and>
     4080 \<le> protected_bits p \<and> protected_bits p \<le> 10200 \<and>
     262144 \<le> payload_map_bits p \<and> payload_map_bits p \<le> 8850000 \<and>
     0 \<le> repeated_bits p \<and> 1 \<le> minimum_repetitions p \<and> 0 \<le> additional_repetitions p"

text \<open>
  Python's floor division and remainder on these positive numbers are \<^term>\<open>(div)\<close> and
  \<^term>\<open>(mod)\<close> on integers. Building the record raises a \<^theory_text>\<open>ValidationError\<close>, a kind of
  \<^theory_text>\<open>ValueError\<close>, when a field breaks its bounds.
\<close>

definition layout_of :: "int \<Rightarrow> payload_capacity" where
  "layout_of pixels =
    (let maximum = min 1024 (pixels div 1024);
         blocks = (maximum + 63 + 222) div 223;
         bits = blocks * 255 * 8
     in \<lparr>maximum_message_bytes = maximum,
         padding_bytes_at_capacity = blocks * 223 - 63 - maximum,
         block_count = blocks,
         frame_bytes = blocks * 223,
         correction_bytes = blocks * 32,
         protected_bits = bits,
         payload_map_bits = pixels,
         repeated_bits = pixels - bits,
         minimum_repetitions = pixels div bits,
         additional_repetitions = pixels mod bits\<rparr>)"

definition calculate_capacity :: "protocol_context \<Rightarrow> payload_capacity result" where
  "calculate_capacity c0 =
    andThen (validate_context c0) (\<lambda>c.
      let pixels = width c * height c; layout = layout_of pixels in
      if protected_bits layout > pixels then Inl invalid_protocol_input
      else if capacity_valid layout then Inr layout
      else Inl Value_Error)"

section \<open>Bounds\<close>

lemma context_area:
  assumes "context_valid c"
  shows "262144 \<le> width c * height c" and "width c * height c \<le> 8850000"
proof -
  from assms have d: "512 \<le> width c" "512 \<le> height c" "width c * height c \<le> 8850000"
    by (auto simp: context_valid_def image_dimensions_valid_def minimum_image_side_def
        maximum_image_area_def)
  from mult_mono [OF d(1,2)] d(1,2) show "262144 \<le> width c * height c" by simp
  from d(3) show "width c * height c \<le> 8850000" .
qed

lemma layout_range:
  fixes pixels :: int
  assumes "262144 \<le> pixels" and "pixels \<le> 8850000"
  defines "m \<equiv> min 1024 (pixels div 1024)" and "b \<equiv> (min 1024 (pixels div 1024) + 285) div 223"
  shows "256 \<le> m" and "m \<le> 1024" and "2 \<le> b" and "b \<le> 5"
    and "m + 63 \<le> b * 223" and "b * 223 - 63 - m < 223" and "b * 2040 \<le> pixels"
proof -
  from assms(1) have "256 \<le> pixels div 1024" by simp
  then show m: "256 \<le> m" and "m \<le> 1024" by (auto simp: m_def)
  then have e: "b = (m + 285) div 223" by (simp add: b_def m_def)
  with m \<open>m \<le> 1024\<close> show "2 \<le> b" and b5: "b \<le> 5" by auto
  show "m + 63 \<le> b * 223" and "b * 223 - 63 - m < 223"
  proof -
    have "b * 223 + (m + 285) mod 223 = m + 285" by (simp add: e)
    moreover have "0 \<le> (m + 285) mod 223" and "(m + 285) mod 223 < 223" by simp_all
    ultimately show "m + 63 \<le> b * 223" and "b * 223 - 63 - m < 223" by linarith+
  qed
  from b5 assms(1) show "b * 2040 \<le> pixels" by simp
qed

lemma layout_valid:
  assumes "262144 \<le> pixels" and "pixels \<le> 8850000"
  shows "capacity_valid (layout_of pixels)" and "protected_bits (layout_of pixels) \<le> pixels"
proof -
  define m where "m = min 1024 (pixels div 1024)"
  define b where "b = (m + 285) div 223"
  have r: "256 \<le> m" "m \<le> 1024" "2 \<le> b" "b \<le> 5" "m + 63 \<le> b * 223" "b * 223 - 63 - m < 223"
    "b * 2040 \<le> pixels"
    unfolding m_def b_def by (rule layout_range [OF assms])+
  then have pos: "0 < b * 2040" by simp
  with r(7) have rep: "1 \<le> pixels div (b * 2040)"
    using pos_imp_zdiv_pos_iff [OF pos, of pixels] by linarith
  have rest: "0 \<le> pixels mod (b * 2040)" using pos by simp
  have lay: "layout_of pixels = \<lparr>maximum_message_bytes = m,
      padding_bytes_at_capacity = b * 223 - 63 - m, block_count = b, frame_bytes = b * 223,
      correction_bytes = b * 32, protected_bits = b * 2040, payload_map_bits = pixels,
      repeated_bits = pixels - b * 2040, minimum_repetitions = pixels div (b * 2040),
      additional_repetitions = pixels mod (b * 2040)\<rparr>"
    by (simp add: layout_of_def Let_def b_def m_def ac_simps)
  show "capacity_valid (layout_of pixels)"
    unfolding lay capacity_valid_def using r rep rest assms by simp
  show "protected_bits (layout_of pixels) \<le> pixels"
    unfolding lay using r(7) by simp
qed

lemma calculate_capacity_ok:
  "context_valid c \<Longrightarrow> calculate_capacity c = Inr (layout_of (width c * height c))"
  using layout_valid context_area [of c]
  by (simp add: calculate_capacity_def validate_context_def Let_def not_less)

lemma calculate_capacity_refused:
  "\<not> context_valid c \<Longrightarrow> calculate_capacity c = Inl invalid_protocol_input"
  by (simp add: calculate_capacity_def validate_context_def)

lemma calculate_capacity_Inr:
  "calculate_capacity c = Inr p \<longleftrightarrow> context_valid c \<and> p = layout_of (width c * height c)"
  by (cases "context_valid c") (auto simp: calculate_capacity_ok calculate_capacity_refused)

text \<open>The layout's derived sizes in terms of the block count, as the other components use them.\<close>

lemma layout_sizes [simp]:
  "frame_bytes (layout_of n) = block_count (layout_of n) * 223"
  "protected_bits (layout_of n) = block_count (layout_of n) * 2040"
  "payload_map_bits (layout_of n) = n"
  by (simp_all add: layout_of_def Let_def)

lemma layout_fields:
  "maximum_message_bytes (layout_of n) = min 1024 (n div 1024)"
  "block_count (layout_of n) = (min 1024 (n div 1024) + 285) div 223"
  by (simp_all add: layout_of_def Let_def add.commute)

lemma layout_block_count:
  assumes "context_valid c"
  shows "2 \<le> block_count (layout_of (width c * height c))"
    and "block_count (layout_of (width c * height c)) \<le> 5"
    and "maximum_message_bytes (layout_of (width c * height c)) + 63
           \<le> block_count (layout_of (width c * height c)) * 223"
    and "256 \<le> maximum_message_bytes (layout_of (width c * height c))"
    and "maximum_message_bytes (layout_of (width c * height c)) \<le> 1024"
    and "block_count (layout_of (width c * height c)) * 2040 \<le> width c * height c"
  unfolding layout_fields by (rule layout_range [OF context_area [OF assms]])+

lemma layout_exact:
  "minimum_repetitions (layout_of n) * protected_bits (layout_of n)
     + additional_repetitions (layout_of n) = n"
  "additional_repetitions (layout_of n) = n mod protected_bits (layout_of n)"
  "repeated_bits (layout_of n) = n - protected_bits (layout_of n)"
  "frame_bytes (layout_of n) = 45 + 2 + 16 + maximum_message_bytes (layout_of n)
     + padding_bytes_at_capacity (layout_of n)"
  "protected_bits (layout_of n) = 8 * (frame_bytes (layout_of n) + correction_bytes (layout_of n))"
  by (simp_all only: layout_of_def Let_def payload_capacity.simps div_mult_mod_eq) simp_all

text \<open>
  For every context the records accept, the capacity calculation succeeds: the guard
  against an image too small for its protected bits never fires and no field of the
  capacity record breaks its declared bounds. The accounting is exact: the map is whole
  repetitions of the protected bits plus a remainder shorter than one repetition, every
  frame byte is header, length, tag, message or padding, and a rejected context gives the
  fixed input failure.
\<close>

lemma capacity_accounting:
  "(case calculate_capacity c of
      Inl e \<Rightarrow> \<not> context_valid c \<and> e = invalid_protocol_input
    | Inr p \<Rightarrow> context_valid c \<and> capacity_valid p
        \<and> payload_map_bits p = width c * height c
        \<and> payload_map_bits p = minimum_repetitions p * protected_bits p + additional_repetitions p
        \<and> additional_repetitions p < protected_bits p
        \<and> repeated_bits p = payload_map_bits p - protected_bits p
        \<and> frame_bytes p = 45 + 2 + 16 + maximum_message_bytes p + padding_bytes_at_capacity p
        \<and> protected_bits p = 8 * (frame_bytes p + correction_bytes p))"
proof (cases "context_valid c")
  case True
  define n where "n = width c * height c"
  have v: "capacity_valid (layout_of n)"
    using layout_valid [OF context_area [OF True]] by (simp only: n_def)
  then have "0 < protected_bits (layout_of n)" by (simp add: capacity_valid_def)
  then have "n mod protected_bits (layout_of n) < protected_bits (layout_of n)" by (rule pos_mod_bound)
  with v True layout_exact [of n] show ?thesis
    unfolding calculate_capacity_ok [OF True] n_def [symmetric] sum.case
    by (simp del: layout_sizes(1,2))
next
  case False
  then show ?thesis by (simp add: calculate_capacity_refused)
qed

end
