(* ===== verification/Frame.thy ===== *)
theory Frame
  imports Capacity
begin

text \<open>
  Authenticated frames, \<^verbatim>\<open>backend_service/message_frame.py\<close>. Key derivation, authenticated
  encryption and the random source belong to PyNaCl: they are the fields of the parameter
  \<open>crypto\<close> and the two drawn values. What the code relies on is stated by \<open>aead_documented\<close>.
\<close>

section \<open>Constants and library parameters\<close>

definition bytes_of_string :: "string \<Rightarrow> byte list" where
  "bytes_of_string s = map (\<lambda>c. byte_of (of_char c)) s"

definition protocol_prefix :: "byte list" where
  "protocol_prefix = bytes_of_string ''SGLB'' @ [1]"

definition authentication_domain :: "byte list" where
  "authentication_domain = bytes_of_string ''StegoLab/message_protocol/v1'' @ [0]"

definition header_bytes :: nat where "header_bytes = 45"
definition salt_bytes :: nat where "salt_bytes = 16"
definition nonce_bytes :: nat where "nonce_bytes = 24"
definition mac_bytes :: nat where "mac_bytes = 16"

record crypto =
  kdf :: "byte list \<Rightarrow> byte list \<Rightarrow> byte list call"
  seal :: "byte list \<Rightarrow> byte list \<Rightarrow> byte list \<Rightarrow> byte list \<Rightarrow> byte list call"
  unseal :: "byte list \<Rightarrow> byte list \<Rightarrow> byte list \<Rightarrow> byte list \<Rightarrow> byte list call"

text \<open>
  The documented behaviour of the cipher, with arguments key, text, associated data and
  nonce: sealing adds a tag of fixed length and is undone by unsealing, and unsealing
  accepts nothing but the sealed form of what it returns.
\<close>

definition aead_documented :: "crypto \<Rightarrow> bool" where
  "aead_documented cr \<longleftrightarrow>
     (\<forall>k p a n c. seal cr k p a n = Returns c \<longrightarrow>
        length c = length p + mac_bytes \<and> unseal cr k c a n = Returns p) \<and>
     (\<forall>k c a n p. unseal cr k c a n = Returns p \<longrightarrow> seal cr k p a n = Returns c)"

definition draw_documented :: "nat \<Rightarrow> byte list call \<Rightarrow> bool" where
  "draw_documented n d \<longleftrightarrow> (\<forall>bs. d = Returns bs \<longrightarrow> length bs = n)"

section \<open>Fixed-width integers\<close>

definition pack_u16 :: "nat \<Rightarrow> byte list" where
  "pack_u16 n = [byte_of (n div 256), byte_of (n mod 256)]"

definition pack_u32 :: "nat \<Rightarrow> byte list" where
  "pack_u32 n = [byte_of (n div 16777216), byte_of (n div 65536 mod 256),
                 byte_of (n div 256 mod 256), byte_of (n mod 256)]"

definition unpack_big :: "byte list \<Rightarrow> nat" where
  "unpack_big bs = foldl (\<lambda>a b. a * 256 + unat b) 0 bs"

lemma unpack_pack_u16: "n < 65536 \<Longrightarrow> unpack_big (pack_u16 n) = n"
  by (simp add: unpack_big_def pack_u16_def)

lemma pack_unpack_u16:
  assumes "length bs = 2"
  shows "pack_u16 (unpack_big bs) = bs"
proof -
  obtain b c where bs: "bs = [b, c]" using assms by (auto simp: numeral_2_eq_2 length_Suc_conv)
  have "(unat b * 256 + unat c) div 256 = unat b" and "(unat b * 256 + unat c) mod 256 = unat c"
    by simp_all
  then show ?thesis by (simp add: bs unpack_big_def pack_u16_def)
qed

lemma byte_of_inject: "m < 256 \<Longrightarrow> n < 256 \<Longrightarrow> byte_of m = byte_of n \<Longrightarrow> m = n"
  by (metis mod_less unat_byte_of)

lemma pack_u32_inject:
  assumes "pack_u32 m = pack_u32 n" and "m < 65536" and "n < 65536"
  shows "m = n"
proof -
  from assms(1) have "byte_of (m div 256 mod 256) = byte_of (n div 256 mod 256)"
    and "byte_of (m mod 256) = byte_of (n mod 256)" by (simp_all add: pack_u32_def)
  then have "m div 256 mod 256 = n div 256 mod 256" and "m mod 256 = n mod 256"
    by (auto intro: byte_of_inject)
  moreover from assms(2,3) have "m div 256 mod 256 = m div 256" and "n div 256 mod 256 = n div 256"
    by auto
  ultimately show ?thesis by (metis div_mult_mod_eq)
qed

section \<open>Operations\<close>

definition invalid_password :: exn where
  "invalid_password = Application_Failure ''invalid_password'' 422"

definition password_bytes :: "pystr \<Rightarrow> byte list result" where
  "password_bytes password =
    (if \<not> (1 \<le> length password \<and> length password \<le> 1024) then Inl invalid_password
     else case encode_utf8 password of
            None \<Rightarrow> Inl invalid_password
          | Some encoded \<Rightarrow>
              if length encoded > 1024 then Inl invalid_password else Inr encoded)"

definition authenticated_context :: "byte list \<Rightarrow> protocol_context \<Rightarrow> byte list" where
  "authenticated_context header c =
    (let identity = bytes_of_string (compatibility_identifier c) in
     authentication_domain @ header @ pack_u16 (length identity) @ identity
       @ pack_u32 (nat (width c)) @ pack_u32 (nat (height c)))"

definition derive_key :: "crypto \<Rightarrow> byte list \<Rightarrow> byte list \<Rightarrow> byte list result" where
  "derive_key cr password salt =
    (case kdf cr password salt of
       Returns key \<Rightarrow> Inr key
     | Raises \<Rightarrow> Inl protocol_resource_failure
     | Out_Of_Memory \<Rightarrow> Inl protocol_resource_failure)"

definition library_call :: "exn \<Rightarrow> 'a call \<Rightarrow> 'a result" where
  "library_call raised c =
    (case c of Returns x \<Rightarrow> Inr x | Raises \<Rightarrow> Inl raised
     | Out_Of_Memory \<Rightarrow> Inl protocol_resource_failure)"

definition message_too_large :: exn where
  "message_too_large = Application_Failure ''message_too_large'' 422"

definition invalid_message :: exn where
  "invalid_message = Application_Failure ''invalid_message'' 422"

definition encode_bounded :: "int \<Rightarrow> pystr \<Rightarrow> byte list result" where
  "encode_bounded maximum message =
    (if int (length message) > maximum then Inl message_too_large
     else case encode_utf8 message of
            None \<Rightarrow> Inl invalid_message
          | Some encoded \<Rightarrow>
              if int (length encoded) > maximum then Inl message_too_large else Inr encoded)"

definition padded_body :: "nat \<Rightarrow> byte list \<Rightarrow> byte list" where
  "padded_body n encoded =
    (let body = pack_u16 (length encoded) @ encoded in body @ replicate (n - length body) 0)"

definition create_frame ::
  "crypto \<Rightarrow> byte list call \<Rightarrow> byte list call \<Rightarrow> pystr \<Rightarrow> pystr \<Rightarrow> protocol_context \<Rightarrow> byte list result"
where
  "create_frame cr salt_draw nonce_draw message password c0 =
    andThen (validate_context c0) (\<lambda>c.
    andThen (calculate_capacity c) (\<lambda>capacity.
    andThen (encode_bounded (maximum_message_bytes capacity) message) (\<lambda>encoded.
    andThen (password_bytes password) (\<lambda>password_data.
    andThen (library_call protocol_resource_failure salt_draw) (\<lambda>salt.
    andThen (library_call protocol_resource_failure nonce_draw) (\<lambda>nonce.
      let header = protocol_prefix @ salt @ nonce;
          body = padded_body (nat (frame_bytes capacity) - header_bytes - mac_bytes) encoded in
      andThen (derive_key cr password_data salt) (\<lambda>key.
      andThen (library_call protocol_resource_failure
                (seal cr key body (authenticated_context header c) nonce)) (\<lambda>ciphertext.
        Inr (header @ ciphertext)))))))))"

definition open_body :: "int \<Rightarrow> byte list \<Rightarrow> pystr result" where
  "open_body maximum body =
    (let message_length = unpack_big (take 2 body) in
     if int message_length > maximum then Inl recovery_failure
     else if list_ex (\<lambda>b. b \<noteq> 0) (drop (2 + message_length) body) then Inl recovery_failure
     else case decode_utf8 (take message_length (drop 2 body)) of
            None \<Rightarrow> Inl recovery_failure
          | Some message \<Rightarrow> Inr message)"

definition recover_frame ::
  "crypto \<Rightarrow> byte list \<Rightarrow> pystr \<Rightarrow> protocol_context \<Rightarrow> pystr result"
where
  "recover_frame cr frame password c0 =
    andThen (validate_context c0) (\<lambda>c.
    andThen (calculate_capacity c) (\<lambda>capacity.
    andThen (password_bytes password) (\<lambda>password_data.
      if int (length frame) \<noteq> frame_bytes capacity \<or> take 5 frame \<noteq> protocol_prefix
      then Inl recovery_failure
      else
        let header = take header_bytes frame;
            salt = take 16 (drop 5 header);
            nonce = take 24 (drop 21 header) in
        andThen (derive_key cr password_data salt) (\<lambda>key.
        andThen (library_call recovery_failure
                  (unseal cr key (drop header_bytes frame) (authenticated_context header c) nonce))
          (\<lambda>body. open_body (maximum_message_bytes capacity) body)))))"

section \<open>Inversion of the two operations\<close>

lemma library_call_Inr [outcome_simps]: "library_call e c = Inr x \<longleftrightarrow> c = Returns x"
  by (cases c) (auto simp: library_call_def)

lemma derive_key_Inr [outcome_simps]: "derive_key cr p s = Inr k \<longleftrightarrow> kdf cr p s = Returns k"
  by (auto simp: derive_key_def split: call.splits)

lemma encode_bounded_Inr [outcome_simps]:
  "encode_bounded n m = Inr bs \<longleftrightarrow> encode_utf8 m = Some bs \<and> int (length bs) \<le> n"
  using encode_utf8_length [of m bs] by (auto simp: encode_bounded_def split: option.splits)

lemma protocol_prefix_length [simp]: "length protocol_prefix = 5"
  by (simp add: protocol_prefix_def bytes_of_string_def)

abbreviation body_size :: "protocol_context \<Rightarrow> nat" where
  "body_size c \<equiv> nat (frame_bytes (layout_of (width c * height c))) - header_bytes - mac_bytes"

abbreviation message_limit :: "protocol_context \<Rightarrow> int" where
  "message_limit c \<equiv> maximum_message_bytes (layout_of (width c * height c))"

lemma body_size_bounds:
  assumes "context_valid c"
  shows "message_limit c + 2 \<le> int (body_size c)"
    and "int (body_size c) + 61 = frame_bytes (layout_of (width c * height c))"
    and "message_limit c \<le> 1024" and "256 \<le> message_limit c"
  using layout_block_count [OF assms]
  by (simp_all add: header_bytes_def mac_bytes_def)

lemma create_frame_iff:
  "create_frame cr sd nd m p c = Inr f \<longleftrightarrow>
     context_valid c \<and> (\<exists>enc pw salt nonce key ct.
       encode_utf8 m = Some enc \<and> int (length enc) \<le> message_limit c \<and>
       password_bytes p = Inr pw \<and> sd = Returns salt \<and> nd = Returns nonce \<and>
       kdf cr pw salt = Returns key \<and>
       seal cr key (padded_body (body_size c) enc)
         (authenticated_context (protocol_prefix @ salt @ nonce) c) nonce = Returns ct \<and>
       f = protocol_prefix @ salt @ nonce @ ct)"
  by (cases "context_valid c")
    (auto simp: create_frame_def outcome_simps validate_context_def calculate_capacity_ok Let_def
      simp del: layout_sizes)

lemma recover_frame_iff:
  "recover_frame cr f p c = Inr m \<longleftrightarrow>
     context_valid c \<and> int (length f) = frame_bytes (layout_of (width c * height c)) \<and>
     take 5 f = protocol_prefix \<and> (\<exists>pw key body.
       password_bytes p = Inr pw \<and> kdf cr pw (take 16 (drop 5 f)) = Returns key \<and>
       unseal cr key (drop header_bytes f)
         (authenticated_context (take header_bytes f) c) (take 24 (drop 21 f)) = Returns body \<and>
       open_body (message_limit c) body = Inr m)"
  by (cases "context_valid c")
    (auto simp: recover_frame_def outcome_simps validate_context_def calculate_capacity_ok Let_def
      header_bytes_def drop_take min_def simp del: layout_sizes)

section \<open>Padding\<close>

lemma padded_body_length:
  "length enc + 2 \<le> n \<Longrightarrow> length (padded_body n enc) = n"
  by (simp add: padded_body_def Let_def pack_u16_def)

lemma open_padded_body:
  assumes "encode_utf8 m = Some enc" and "int (length enc) \<le> limit" and "limit \<le> 1024"
  shows "open_body limit (padded_body n enc) = Inr m"
proof -
  have two: "length (pack_u16 k) = 2" for k by (simp add: pack_u16_def)
  have "unpack_big (take 2 (padded_body n enc)) = length enc"
    using assms(2,3) two by (simp add: padded_body_def Let_def unpack_pack_u16)
  moreover have "drop 2 (padded_body n enc) = enc @ replicate (n - length (pack_u16 (length enc) @ enc)) 0"
    using two by (simp add: padded_body_def Let_def)
  moreover from this have "drop (2 + length enc) (padded_body n enc)
      = replicate (n - length (pack_u16 (length enc) @ enc)) 0"
    by (metis add.commute append_eq_conv_conj drop_drop)
  ultimately show ?thesis
    using assms(2) decode_encode_utf8 [OF assms(1)]
    by (simp add: open_body_def Let_def list_ex_iff)
qed

lemma open_body_padded:
  assumes "open_body limit body = Inr m" and "length body = n" and "limit + 2 \<le> int n"
    and "limit \<le> 1024"
  shows "\<exists>enc. encode_utf8 m = Some enc \<and> int (length enc) \<le> limit \<and> body = padded_body n enc"
proof -
  define k where "k = unpack_big (take 2 body)"
  define enc where "enc = take k (drop 2 body)"
  from assms(1) have k: "int k \<le> limit" "list_all (\<lambda>b. b = 0) (drop (2 + k) body)"
    and d: "decode_utf8 enc = Some m"
    by (auto simp: open_body_def Let_def k_def enc_def list_ex_iff list_all_iff
        split: if_splits option.splits)
  from k(1) assms(2,3) have len: "length enc = k" by (simp add: enc_def)
  have head: "take 2 body = pack_u16 k"
    using assms(2,3) k(1) by (simp add: k_def pack_unpack_u16)
  have tail: "drop (2 + k) body = replicate (n - (2 + k)) 0"
    using k(2) assms(2) by (auto intro!: replicate_eqI simp: list_all_iff)
  have "body = take 2 body @ enc @ drop (2 + k) body"
    by (metis append_take_drop_id drop_drop add.commute enc_def)
  then have "body = pack_u16 k @ enc @ replicate (n - (2 + k)) 0" by (simp only: head tail)
  moreover have "length (pack_u16 k) = 2" by (simp add: pack_u16_def)
  ultimately have "body = padded_body n enc" by (simp add: padded_body_def Let_def len)
  with encode_decode_utf8 [OF d] k(1) len show ?thesis by auto
qed

lemma seal_length: "aead_documented cr \<Longrightarrow> seal cr k p a n = Returns c \<Longrightarrow> length c = length p + mac_bytes"
  unfolding aead_documented_def by blast

lemma unseal_sealed: "aead_documented cr \<Longrightarrow> seal cr k p a n = Returns c \<Longrightarrow> unseal cr k c a n = Returns p"
  unfolding aead_documented_def by blast

lemma sealed_unsealed: "aead_documented cr \<Longrightarrow> unseal cr k c a n = Returns p \<Longrightarrow> seal cr k p a n = Returns c"
  unfolding aead_documented_def by blast

lemma take_header_split: "take 45 f = take 5 f @ take 16 (drop 5 f) @ take 24 (drop 21 f)"
proof -
  have "take (5 + (16 + 24)) f = take 5 f @ take 16 (drop 5 f) @ take 24 (drop 16 (drop 5 f))"
    by (simp only: take_add)
  then show ?thesis by simp
qed

section \<open>The two directions\<close>

lemma recovered_was_created:
  assumes "aead_documented cr" and "recover_frame cr f p c = Inr m"
  shows "\<exists>salt nonce. length salt = salt_bytes \<and> length nonce = nonce_bytes \<and>
       create_frame cr (Returns salt) (Returns nonce) m p c = Inr f"
proof -
  from assms(2) obtain pw key body where v: "context_valid c"
    and len: "int (length f) = frame_bytes (layout_of (width c * height c))"
    and pre: "take 5 f = protocol_prefix" and pw: "password_bytes p = Inr pw"
    and key: "kdf cr pw (take 16 (drop 5 f)) = Returns key"
    and un: "unseal cr key (drop header_bytes f)
         (authenticated_context (take header_bytes f) c) (take 24 (drop 21 f)) = Returns body"
    and op: "open_body (message_limit c) body = Inr m"
    by (auto simp: recover_frame_iff)
  define salt where "salt = take 16 (drop 5 f)"
  define nonce where "nonce = take 24 (drop 21 f)"
  note b = body_size_bounds [OF v]
  from len b have lf: "length f = body_size c + 61" by simp
  have hd: "take header_bytes f = protocol_prefix @ salt @ nonce"
    using take_header_split [of f] by (simp only: header_bytes_def pre salt_def nonce_def)
  from un have sl: "seal cr key body (authenticated_context (protocol_prefix @ salt @ nonce) c)
      nonce = Returns (drop header_bytes f)"
    using sealed_unsealed [OF assms(1)] unfolding hd nonce_def by blast
  then have "length (drop header_bytes f) = length body + mac_bytes"
    by (rule seal_length [OF assms(1)])
  with lf have "length body = body_size c"
    by (simp add: header_bytes_def mac_bytes_def del: layout_sizes)
  from open_body_padded [OF op this b(1) b(3)] obtain enc where
    "encode_utf8 m = Some enc" "int (length enc) \<le> message_limit c"
    "body = padded_body (body_size c) enc" by blast
  moreover have "f = protocol_prefix @ salt @ nonce @ drop header_bytes f"
    by (metis hd append.assoc append_take_drop_id)
  ultimately have "create_frame cr (Returns salt) (Returns nonce) m p c = Inr f"
    using v pw key sl by (auto simp: create_frame_iff salt_def simp del: layout_sizes)
  moreover have "length salt = salt_bytes" "length nonce = nonce_bytes"
    using lf by (simp_all add: salt_def nonce_def salt_bytes_def nonce_bytes_def)
  ultimately show "\<exists>salt nonce. length salt = salt_bytes \<and> length nonce = nonce_bytes \<and>
       create_frame cr (Returns salt) (Returns nonce) m p c = Inr f" by blast
qed

lemma created_recovers:
  assumes "aead_documented cr" and "length salt = salt_bytes" and "length nonce = nonce_bytes"
    and "create_frame cr (Returns salt) (Returns nonce) m p c = Inr f"
  shows "recover_frame cr f p c = Inr m"
    and "int (length f) = frame_bytes (layout_of (width c * height c))"
proof -
  have l: "length salt = 16" "length nonce = 24" using assms(2,3) by (simp_all add: salt_bytes_def nonce_bytes_def)
  from assms(4) obtain enc pw key ct where v: "context_valid c"
    and enc: "encode_utf8 m = Some enc" "int (length enc) \<le> message_limit c"
    and pw: "password_bytes p = Inr pw" and key: "kdf cr pw salt = Returns key"
    and sl: "seal cr key (padded_body (body_size c) enc)
         (authenticated_context (protocol_prefix @ salt @ nonce) c) nonce = Returns ct"
    and f: "f = protocol_prefix @ salt @ nonce @ ct"
    unfolding create_frame_iff by blast
  note b = body_size_bounds [OF v]
  from enc(2) b(1) have "length enc + 2 \<le> body_size c" by linarith
  then have plen: "length (padded_body (body_size c) enc) = body_size c" by (rule padded_body_length)
  have ct: "length ct = body_size c + 16"
    using seal_length [OF assms(1) sl] plen by (simp only: mac_bytes_def)
  have un: "unseal cr key ct (authenticated_context (protocol_prefix @ salt @ nonce) c) nonce
        = Returns (padded_body (body_size c) enc)"
    by (rule unseal_sealed [OF assms(1) sl])
  have parts: "take 5 f = protocol_prefix" "take 16 (drop 5 f) = salt" "take 24 (drop 21 f) = nonce"
      "take header_bytes f = protocol_prefix @ salt @ nonce" "drop header_bytes f = ct"
    using l by (simp_all add: f header_bytes_def)
  show size: "int (length f) = frame_bytes (layout_of (width c * height c))"
    using ct l b(2) by (simp add: f del: layout_sizes)
  have "open_body (message_limit c) (padded_body (body_size c) enc) = Inr m"
    using open_padded_body [OF enc b(3)] .
  with size show "recover_frame cr f p c = Inr m"
    unfolding recover_frame_iff parts using v pw key un by blast
qed

section \<open>Properties\<close>

text \<open>
  C2: frame recovery accepts exactly the frames that frame creation makes. With a cipher
  that behaves as documented, recovering a frame gives a message if and only if creating a
  frame for that message, password and context, with the salt and nonce standing in the
  header, gives this very frame. In particular recovery returns every created message
  unchanged, and no byte string that was not sealed under the password and the context
  yields any text at all.
\<close>

theorem recover_iff_created:
  assumes "aead_documented cr"
  shows "recover_frame cr f p c = Inr m \<longleftrightarrow>
    (\<exists>salt nonce. length salt = salt_bytes \<and> length nonce = nonce_bytes \<and>
       create_frame cr (Returns salt) (Returns nonce) m p c = Inr f)"
  using recovered_was_created [OF assms] created_recovers(1) [OF assms] by blast

text \<open>A concrete cipher, context and pair of draws at which the documented behaviour holds.\<close>

definition plain_crypto :: crypto where
  "plain_crypto = \<lparr>
     kdf = (\<lambda>password salt. Returns password),
     seal = (\<lambda>key text data nonce. Returns (text @ replicate 16 0)),
     unseal = (\<lambda>key text data nonce.
       if 16 \<le> length text \<and> drop (length text - 16) text = replicate 16 0
       then Returns (take (length text - 16) text) else Raises)\<rparr>"

definition square_context :: protocol_context where
  "square_context = \<lparr>width = 512, height = 512, protocol_version = 1,
     profile_identifier = ''test_only_v1'', compatibility_identifier = ''public_fixture_v1''\<rparr>"

lemma plain_crypto_documented: "aead_documented plain_crypto"
  unfolding aead_documented_def plain_crypto_def mac_bytes_def
  by (auto split: if_splits) (metis append_take_drop_id)

lemma square_context_valid: "context_valid square_context"
  by (simp add: square_context_def context_valid_def image_dimensions_valid_def
      minimum_image_side_def maximum_image_side_def maximum_image_area_def
      compatibility_pattern_def char_class_defs)

lemma create_frame_plain:
  assumes "context_valid c" and "encode_utf8 m = Some enc" and "int (length enc) \<le> message_limit c"
    and "password_bytes p = Inr pw"
  shows "\<exists>f. create_frame plain_crypto (Returns salt) (Returns nonce) m p c = Inr f"
  using assms unfolding create_frame_iff by (simp add: plain_crypto_def)

theorem recover_iff_created_witness:
  "aead_documented plain_crypto \<and>
   (\<exists>f. create_frame plain_crypto (Returns (replicate 16 1)) (Returns (replicate 24 2))
          [104, 105] [112] square_context = Inr f \<and>
        recover_frame plain_crypto f [112] square_context = Inr [104, 105])"
proof -
  obtain f where f: "create_frame plain_crypto (Returns (replicate 16 1)) (Returns (replicate 24 2))
      [104, 105] [112] square_context = Inr f"
    using create_frame_plain [OF square_context_valid, of "[104, 105]" "[104, 105]" "[112]" "[112]"]
      layout_block_count(4) [OF square_context_valid]
    by (auto simp: encode_point_def is_scalar_def password_bytes_def byte_of_def)
  have "length (replicate 16 (1 :: byte)) = salt_bytes" and "length (replicate 24 (2 :: byte)) = nonce_bytes"
    by (simp_all add: salt_bytes_def nonce_bytes_def)
  then have "recover_frame plain_crypto f [112] square_context = Inr [104, 105]"
    unfolding recover_iff_created [OF plain_crypto_documented] using f by blast
  with f plain_crypto_documented show ?thesis by blast
qed

lemma bytes_of_string_inject: "bytes_of_string s = bytes_of_string t \<longleftrightarrow> s = t"
proof -
  have "inj (\<lambda>c. byte_of (of_char c))"
    by (rule injI) (metis byte_of_inject nat_of_char_less_256 of_char_eq_iff)
  then show ?thesis by (simp add: bytes_of_string_def inj_map_eq_map)
qed

text \<open>
  C5: the associated data binds header and context without ambiguity: two supported
  contexts with two headers give the same bytes only when both the headers and the whole
  contexts agree, although the identity has variable length. A frame can therefore be
  opened only under the dimensions and the compatibility identity it was sealed for.
\<close>

theorem authenticated_context_unambiguous:
  assumes "length h = header_bytes" and "length h' = header_bytes"
    and "context_valid c" and "context_valid c'"
  shows "authenticated_context h c = authenticated_context h' c' \<longleftrightarrow> h = h' \<and> c = c'"
proof
  let ?i = "bytes_of_string (compatibility_identifier c)"
  let ?j = "bytes_of_string (compatibility_identifier c')"
  assume "authenticated_context h c = authenticated_context h' c'"
  then have "h @ pack_u16 (length ?i) @ ?i @ pack_u32 (nat (width c)) @ pack_u32 (nat (height c))
      = h' @ pack_u16 (length ?j) @ ?j @ pack_u32 (nat (width c')) @ pack_u32 (nat (height c'))"
    by (simp add: authenticated_context_def Let_def)
  then have h: "h = h'" and r: "pack_u16 (length ?i) @ ?i @ pack_u32 (nat (width c)) @ pack_u32 (nat (height c))
      = pack_u16 (length ?j) @ ?j @ pack_u32 (nat (width c')) @ pack_u32 (nat (height c'))"
    using assms(1,2) by simp_all
  have small: "length (compatibility_identifier d) < 65536" if "context_valid d" for d
    using that by (auto simp: context_valid_def compatibility_pattern_def split: list.splits)
  have len: "length (bytes_of_string s) = length s" for s by (simp add: bytes_of_string_def)
  from r have "pack_u16 (length ?i) = pack_u16 (length ?j)"
    and r2: "?i @ pack_u32 (nat (width c)) @ pack_u32 (nat (height c))
      = ?j @ pack_u32 (nat (width c')) @ pack_u32 (nat (height c'))"
    by (simp_all add: pack_u16_def)
  from this(1) have "length ?i = length ?j"
    using unpack_pack_u16 small assms(3,4) len by metis
  with r2 have "?i = ?j" and w: "pack_u32 (nat (width c)) = pack_u32 (nat (width c'))"
    and k: "pack_u32 (nat (height c)) = pack_u32 (nat (height c'))"
    by (simp_all add: pack_u32_def)
  have dims: "512 \<le> width d \<and> width d \<le> 4096 \<and> 512 \<le> height d \<and> height d \<le> 4096"
    if "context_valid d" for d
    using that by (simp add: context_valid_def image_dimensions_valid_def minimum_image_side_def
        maximum_image_side_def)
  have "nat (width c) = nat (width c')"
    using dims [OF assms(3)] dims [OF assms(4)] by (intro pack_u32_inject [OF w]) auto
  moreover have "nat (height c) = nat (height c')"
    using dims [OF assms(3)] dims [OF assms(4)] by (intro pack_u32_inject [OF k]) auto
  ultimately have "width c = width c'" and "height c = height c'"
    using dims [OF assms(3)] dims [OF assms(4)] by auto
  with \<open>?i = ?j\<close> assms(3,4) have "c = c'"
    by (auto simp: bytes_of_string_inject context_valid_def intro: protocol_context.equality)
  with h show "h = h' \<and> c = c'" by simp
qed simp

theorem authenticated_context_unambiguous_witness:
  "authenticated_context (replicate 45 7) square_context
     \<noteq> authenticated_context (replicate 45 7) (square_context\<lparr>width := 513\<rparr>)"
proof -
  have l: "length (replicate 45 (7 :: byte)) = header_bytes" by (simp add: header_bytes_def)
  have v: "context_valid (square_context\<lparr>width := 513\<rparr>)"
    using square_context_valid
    by (simp add: square_context_def context_valid_def image_dimensions_valid_def
        minimum_image_side_def maximum_image_side_def maximum_image_area_def)
  show ?thesis
    unfolding authenticated_context_unambiguous [OF l l square_context_valid v]
    by (simp add: square_context_def)
qed

text \<open>
  C6: recovery has one public reason for failing. Under a supported context and a valid
  password, every failure of frame recovery is the fixed recovery failure, whatever was
  wrong with the bytes: length, prefix, tag, declared length, padding or text encoding. The
  only other outcome is the resource failure, and then key derivation or the cipher ran out
  of resources.
\<close>

theorem recovery_failures_uniform:
  assumes "context_valid c" and "password_bytes p = Inr pw" and "recover_frame cr f p c = Inl e"
  shows "e = recovery_failure \<or>
    e = protocol_resource_failure \<and>
      (kdf cr pw (take 16 (drop 5 f)) \<in> {Raises, Out_Of_Memory} \<or>
       (\<exists>key. unseal cr key (drop header_bytes f)
          (authenticated_context (take header_bytes f) c) (take 24 (drop 21 f)) = Out_Of_Memory))"
  using assms
  by (auto simp: recover_frame_def validate_context_def calculate_capacity_ok Let_def outcome_simps
      derive_key_def library_call_def open_body_def header_bytes_def drop_take min_def
      simp del: layout_sizes split: if_splits call.splits option.splits)

theorem recovery_failures_uniform_witness:
  "recover_frame plain_crypto [1, 2, 3] [112] square_context = Inl recovery_failure"
proof -
  have "frame_bytes (layout_of (512 * 512)) \<noteq> 3"
    using layout_block_count(1) [OF square_context_valid] by (simp add: square_context_def)
  then have r: "\<exists>e. recover_frame plain_crypto [1, 2, 3] [112] square_context = Inl e"
    using recover_frame_iff [of plain_crypto "[1, 2, 3]" "[112]" square_context]
    by (cases "recover_frame plain_crypto [1, 2, 3] [112] square_context")
      (auto simp: square_context_def)
  have p: "password_bytes [112] = Inr [112]"
    by (simp add: password_bytes_def encode_point_def is_scalar_def byte_of_def)
  have total: "kdf plain_crypto pw salt \<notin> {Raises, Out_Of_Memory}"
      "unseal plain_crypto k t d n \<noteq> Out_Of_Memory" for pw salt k t d n
    by (simp_all add: plain_crypto_def)
  from r obtain e where e: "recover_frame plain_crypto [1, 2, 3] [112] square_context = Inl e" ..
  from recovery_failures_uniform [OF square_context_valid p e] total have "e = recovery_failure"
    by blast
  with e show ?thesis by simp
qed

text \<open>
  C7: what frame creation does with every message when the libraries deliver. Text that
  fits the limit always gives a frame, and the frame has the capacity's frame size whatever
  the length of the message, so its size reveals nothing. Text above the limit is refused
  as too large, counted in UTF-8 bytes even when it has few characters, and text with no
  UTF-8 form is refused as invalid unless its character count alone already exceeds the
  limit.
\<close>

theorem create_frame_outcomes:
  assumes "aead_documented cr" and "context_valid c" and "password_bytes p = Inr pw"
    and "length salt = salt_bytes" and "length nonce = nonce_bytes"
    and "kdf cr pw salt = Returns key" and "\<And>t d. \<exists>ct. seal cr key t d nonce = Returns ct"
  shows "case create_frame cr (Returns salt) (Returns nonce) m p c of
      Inr f \<Rightarrow> (\<exists>enc. encode_utf8 m = Some enc \<and> int (length enc) \<le> message_limit c) \<and>
        int (length f) = frame_bytes (layout_of (width c * height c))
    | Inl e \<Rightarrow> (e = message_too_large \<and> (message_limit c < int (length m) \<or>
            (\<exists>enc. encode_utf8 m = Some enc \<and> message_limit c < int (length enc)))) \<or>
        (e = invalid_message \<and> encode_utf8 m = None \<and> int (length m) \<le> message_limit c)"
proof (cases "encode_bounded (message_limit c) m")
  case (Inl e)
  then have "create_frame cr (Returns salt) (Returns nonce) m p c = Inl e"
    using assms(2) by (simp add: create_frame_def validate_context_def calculate_capacity_ok)
  with Inl show ?thesis
    by (auto simp: encode_bounded_def split: if_splits option.splits)
next
  case (Inr enc)
  then have enc: "encode_utf8 m = Some enc" "int (length enc) \<le> message_limit c"
    by (simp_all add: encode_bounded_Inr)
  obtain ct where ct: "seal cr key (padded_body (body_size c) enc)
      (authenticated_context (protocol_prefix @ salt @ nonce) c) nonce = Returns ct"
    using assms(7) by blast
  have "length enc + 2 \<le> body_size c" using enc(2) body_size_bounds(1) [OF assms(2)] by linarith
  then have "length ct = body_size c + 16"
    using seal_length [OF assms(1) ct] by (simp add: padded_body_length mac_bytes_def)
  with assms(4,5) body_size_bounds(2) [OF assms(2)]
  have "int (length (protocol_prefix @ salt @ nonce @ ct)) = frame_bytes (layout_of (width c * height c))"
    by (simp add: salt_bytes_def nonce_bytes_def del: layout_sizes)
  moreover have "create_frame cr (Returns salt) (Returns nonce) m p c
      = Inr (protocol_prefix @ salt @ nonce @ ct)"
    unfolding create_frame_iff using assms(2,3,6) enc ct by blast
  ultimately show ?thesis using enc by simp
qed

theorem create_frame_outcomes_witness:
  "\<exists>f. create_frame plain_crypto (Returns (replicate 16 1)) (Returns (replicate 24 2))
      [104, 105] [112] square_context = Inr f \<and> length f = 446"
proof -
  have p: "password_bytes [112] = Inr [112]"
    by (simp add: password_bytes_def encode_point_def is_scalar_def byte_of_def)
  have k: "kdf plain_crypto [112] (replicate 16 1) = Returns [112]" by (simp add: plain_crypto_def)
  have s: "\<exists>ct. seal plain_crypto [112] t d (replicate 24 2) = Returns ct" for t d
    by (simp add: plain_crypto_def)
  have l: "length (replicate 16 (1 :: byte)) = salt_bytes" "length (replicate 24 (2 :: byte)) = nonce_bytes"
    by (simp_all add: salt_bytes_def nonce_bytes_def)
  have cap: "message_limit square_context = 256"
      "frame_bytes (layout_of (width square_context * height square_context)) = 446"
    by (simp_all add: square_context_def layout_of_def)
  show ?thesis
    using create_frame_outcomes [OF plain_crypto_documented square_context_valid p l k s, of "[104, 105]"] cap
    by (auto simp: encode_point_def is_scalar_def split: sum.splits simp del: layout_sizes)
qed

end
