(* ===== verification/Correction.thy ===== *)
theory Correction
  imports Frame
begin

text \<open>
  Byte correction and interleaving, \<^verbatim>\<open>backend_service/message_correction.py\<close>. The
  Reed-Solomon codec is the third-party \<^verbatim>\<open>reedsolo\<close> package with 32 check bytes per block of
  255: a parameter, with \<open>rs_corrects\<close> saying what its documentation promises about one
  block, that up to 16 wrong bytes are put right.
\<close>

section \<open>The codec parameter\<close>

record rs_codec =
  rs_encode :: "byte list \<Rightarrow> byte list call"
  rs_decode :: "byte list \<Rightarrow> byte list call"

definition wrong_places :: "'a list \<Rightarrow> 'a list \<Rightarrow> nat set" where
  "wrong_places xs ys = {i. i < length xs \<and> xs ! i \<noteq> ys ! i}"

definition rs_corrects :: "rs_codec \<Rightarrow> byte list \<Rightarrow> bool" where
  "rs_corrects rs d \<longleftrightarrow>
     (\<exists>w. rs_encode rs d = Returns w \<and> length w = 255 \<and>
        (\<forall>w'. length w' = 255 \<longrightarrow> card (wrong_places w w') \<le> 16 \<longrightarrow> rs_decode rs w' = Returns d))"

section \<open>Operations\<close>

text \<open>Python's \<^theory_text>\<open>xs[i:i + n] for i in range(0, len(xs), n)\<close> and \<^theory_text>\<open>xs[i::n]\<close>.\<close>

definition slices :: "nat \<Rightarrow> 'a list \<Rightarrow> 'a list list" where
  "slices n xs = map (\<lambda>k. take n (drop (k * n) xs)) [0..<(length xs + (n - 1)) div n]"

definition stride :: "nat \<Rightarrow> nat \<Rightarrow> 'a list \<Rightarrow> 'a list" where
  "stride i n xs = map (\<lambda>k. xs ! (i + k * n)) [0..<(length xs - i + (n - 1)) div n]"

definition encode_block :: "rs_codec \<Rightarrow> byte list \<Rightarrow> byte list result" where
  "encode_block rs d =
    (case rs_encode rs d of
       Returns w \<Rightarrow> Inr w
     | Raises \<Rightarrow> Inl Library_Error
     | Out_Of_Memory \<Rightarrow> Inl protocol_resource_failure)"

definition decode_block :: "rs_codec \<Rightarrow> byte list \<Rightarrow> byte list result" where
  "decode_block rs w =
    (case rs_decode rs w of
       Returns d \<Rightarrow> Inr d
     | Raises \<Rightarrow> Inl recovery_failure
     | Out_Of_Memory \<Rightarrow> Inl protocol_resource_failure)"

definition interleave :: "byte list list \<Rightarrow> byte list" where
  "interleave blocks = concat (map (\<lambda>column. map (\<lambda>block. block ! column) blocks) [0..<255])"

definition protect_frame :: "rs_codec \<Rightarrow> byte list \<Rightarrow> protocol_context \<Rightarrow> byte list result" where
  "protect_frame rs frame c =
    andThen (calculate_capacity c) (\<lambda>capacity.
      if int (length frame) \<noteq> frame_bytes capacity then Inl invalid_protocol_input
      else andThen (traverse (encode_block rs) (slices 223 frame)) (\<lambda>blocks.
        if \<exists>block \<in> set blocks. length block < 255 then Inl Index_Error
        else Inr (interleave blocks)))"

definition restore_frame :: "rs_codec \<Rightarrow> byte list \<Rightarrow> protocol_context \<Rightarrow> byte list result" where
  "restore_frame rs protected c =
    andThen (calculate_capacity c) (\<lambda>capacity.
      if int (length protected) * 8 \<noteq> protected_bits capacity then Inl recovery_failure
      else andThen
        (traverse (\<lambda>index. decode_block rs (stride index (nat (block_count capacity)) protected))
          [0..<nat (block_count capacity)])
        (\<lambda>blocks. Inr (concat blocks)))"

section \<open>Slices and strides\<close>

lemma length_slices: "length xs = b * n \<Longrightarrow> 0 < n \<Longrightarrow> length (slices n xs) = b"
  by (simp add: slices_def ceil_div)

lemma slices_nth: "i < length (slices n xs) \<Longrightarrow> slices n xs ! i = take n (drop (i * n) xs)"
  by (simp add: slices_def)

lemma slices_member_length:
  assumes "length xs = b * n" and "0 < n" and "d \<in> set (slices n xs)"
  shows "length d = n"
proof -
  from assms obtain i where i: "i < b" "d = take n (drop (i * n) xs)"
    using length_slices [OF assms(1,2)] by (auto simp: in_set_conv_nth slices_nth)
  have "Suc i * n \<le> b * n" using i(1) by (intro mult_le_mono1) simp
  with assms(1) i(2) show ?thesis by simp
qed

lemma concat_slices:
  assumes "length xs = b * n" and "0 < n"
  shows "concat (slices n xs) = xs"
proof -
  have "concat (map (\<lambda>k. take n (drop (k * n) xs)) [0..<m]) = take (m * n) xs" for m
  proof (induction m)
    case (Suc m)
    have "take (Suc m * n) xs = take (m * n + n) xs" by (simp add: add.commute)
    also have "\<dots> = take (m * n) xs @ take n (drop (m * n) xs)" by (rule take_add)
    finally show ?case using Suc by simp
  qed simp
  then show ?thesis using assms by (simp add: slices_def ceil_div)
qed

lemma length_interleave [simp]: "length (interleave blocks) = 255 * length blocks"
  unfolding interleave_def by (subst length_concat_uniform [where n = "length blocks"]) auto

lemma interleave_nth:
  assumes "column < 255" and "index < length blocks"
  shows "interleave blocks ! (index + column * length blocks) = blocks ! index ! column"
proof -
  have "concat (map (\<lambda>column. map (\<lambda>block. block ! column) blocks) [0..<255])
      ! (column * length blocks + index) = blocks ! index ! column"
    by (subst nth_concat_uniform [where n = "length blocks"]) (use assms in auto)
  then show ?thesis by (simp add: interleave_def add.commute)
qed

lemma length_stride:
  assumes "length xs = 255 * b" and "i < b"
  shows "length (stride i b xs) = 255"
proof -
  have "length xs - i + (b - 1) = 255 * b + (b - 1 - i)" using assms by simp
  also have "\<dots> div b = 255" using assms(2) by (intro div_nat_eqI) simp_all
  finally show ?thesis by (simp add: stride_def)
qed

lemma stride_nth: "k < length (stride i b xs) \<Longrightarrow> stride i b xs ! k = xs ! (i + k * b)"
  by (simp add: stride_def)

section \<open>Damage\<close>

text \<open>The damaged places of one interleaved block, counted over the whole protected form.\<close>

definition block_damage :: "nat \<Rightarrow> nat \<Rightarrow> byte list \<Rightarrow> byte list \<Rightarrow> nat set" where
  "block_damage b j sent received = {k \<in> wrong_places sent received. k mod b = j}"

lemma stride_damage:
  assumes "length sent = 255 * b" and "length received = 255 * b" and "j < b"
  shows "card (wrong_places (stride j b sent) (stride j b received))
    = card (block_damage b j sent received)"
proof -
  let ?S = "wrong_places (stride j b sent) (stride j b received)"
  have S: "?S = {k. k < 255 \<and> sent ! (j + k * b) \<noteq> received ! (j + k * b)}"
    using assms by (auto simp: wrong_places_def length_stride stride_nth)
  have "bij_betw (\<lambda>k. j + k * b) ?S (block_damage b j sent received)"
  proof (rule bij_betwI')
    show "j + x * b = j + y * b \<longleftrightarrow> x = y" for x y using assms(3) by auto
    show "j + x * b \<in> block_damage b j sent received" if "x \<in> ?S" for x
    proof -
      from that have x: "x < 255" by (simp add: S)
      then have "j + x * b < 255 * b"
        using assms(3) mult_le_mono1 [OF Suc_leI [OF x], of b] by (simp only: mult_Suc)
      moreover from that have "sent ! (j + x * b) \<noteq> received ! (j + x * b)" unfolding S by simp
      ultimately show ?thesis using assms by (simp add: block_damage_def wrong_places_def)
    qed
    show "\<exists>x \<in> ?S. y = j + x * b" if "y \<in> block_damage b j sent received" for y
    proof
      from that assms have y: "y < 255 * b" "sent ! y \<noteq> received ! y" "y mod b = j"
        by (auto simp: block_damage_def wrong_places_def)
      then show e: "y = j + (y div b) * b" by (metis add.commute div_mult_mod_eq)
      from y(1) have "y div b < 255" by (simp add: less_mult_imp_div_less)
      with y e show "y div b \<in> ?S" by (simp add: S)
    qed
  qed
  then show ?thesis by (rule bij_betw_same_card)
qed

lemma protect_frame_blocks:
  assumes "context_valid c" and "protect_frame rs frame c = Inr sent"
  defines "b \<equiv> nat (block_count (layout_of (width c * height c)))"
  obtains blocks where "length frame = b * 223" and "length blocks = b"
    and "\<And>i. i < b \<Longrightarrow> rs_encode rs (slices 223 frame ! i) = Returns (blocks ! i)"
    and "sent = interleave blocks" and "length (slices 223 frame) = b"
proof -
  from assms(2) obtain blocks where len: "int (length frame) = frame_bytes (layout_of (width c * height c))"
    and t: "traverse (encode_block rs) (slices 223 frame) = Inr blocks" and s: "sent = interleave blocks"
    using assms(1)
    by (auto simp: protect_frame_def calculate_capacity_ok andThen_eq_Inr simp del: layout_sizes
        split: if_splits)
  from len have f: "length frame = b * 223" by (simp add: b_def nat_mult_distrib [symmetric] flip: of_nat_eq_iff)
  then have l: "length (slices 223 frame) = b" by (intro length_slices) simp_all
  from t l have bl: "length blocks = b"
    and e: "\<And>i. i < b \<Longrightarrow> encode_block rs (slices 223 frame ! i) = Inr (blocks ! i)"
    by (auto simp: traverse_Inr)
  have "rs_encode rs (slices 223 frame ! i) = Returns (blocks ! i)" if "i < b" for i
    using e [OF that] by (auto simp: encode_block_def split: call.splits)
  then show thesis by (rule that [OF f bl _ s l])
qed

lemma restore_frame_corrects:
  assumes v: "context_valid c" and p: "protect_frame rs frame c = Inr sent"
    and rs: "\<And>d. d \<in> set (slices 223 frame) \<Longrightarrow> rs_corrects rs d"
    and len: "length received = length sent"
    and dmg: "\<And>j. card (block_damage (nat (block_count (layout_of (width c * height c)))) j sent received) \<le> 16"
  shows "restore_frame rs received c = Inr frame"
proof -
  define b where "b = nat (block_count (layout_of (width c * height c)))"
  have bint: "int b = block_count (layout_of (width c * height c))"
    using layout_block_count(1) [OF v] by (simp add: b_def)
  obtain blocks where f: "length frame = b * 223" and bl: "length blocks = b"
    and enc: "\<And>i. i < b \<Longrightarrow> rs_encode rs (slices 223 frame ! i) = Returns (blocks ! i)"
    and s: "sent = interleave blocks" and sl: "length (slices 223 frame) = b"
    using protect_frame_blocks [OF v p] unfolding b_def by metis
  have ls: "length sent = 255 * b" by (simp add: s bl)
  have dec: "decode_block rs (stride j b received) = Inr (slices 223 frame ! j)" if j: "j < b" for j
  proof -
    have "slices 223 frame ! j \<in> set (slices 223 frame)" using j sl by simp
    from rs [OF this] enc [OF j] have w: "length (blocks ! j) = 255"
      and d: "\<And>w'. length w' = 255 \<Longrightarrow> card (wrong_places (blocks ! j) w') \<le> 16
          \<Longrightarrow> rs_decode rs w' = Returns (slices 223 frame ! j)"
      by (auto simp: rs_corrects_def)
    have "stride j b sent = blocks ! j"
      using j w ls bl interleave_nth [where blocks = blocks]
      by (intro nth_equalityI) (auto simp: length_stride stride_nth s)
    then have "card (wrong_places (blocks ! j) (stride j b received)) \<le> 16"
      using stride_damage [OF ls _ j, of received] dmg [of j] len ls by (simp add: b_def)
    moreover have "length (stride j b received) = 255" using len ls j by (intro length_stride) auto
    ultimately have "rs_decode rs (stride j b received) = Returns (slices 223 frame ! j)"
      by (intro d)
    then show ?thesis by (simp add: decode_block_def)
  qed
  have "traverse (\<lambda>index. decode_block rs (stride index b received)) [0..<b] = Inr (slices 223 frame)"
    using dec sl by (simp add: traverse_Inr)
  moreover have "int (length received) * 8 = protected_bits (layout_of (width c * height c))"
    using len ls bint by simp
  ultimately show ?thesis
    using v concat_slices [OF f]
    by (simp add: restore_frame_def calculate_capacity_ok b_def del: layout_sizes)
qed

lemma protect_frame_ok:
  assumes v: "context_valid c" and len: "int (length frame) = frame_bytes (layout_of (width c * height c))"
    and rs: "\<And>d. d \<in> set (slices 223 frame) \<Longrightarrow> rs_corrects rs d"
  shows "\<exists>sent. protect_frame rs frame c = Inr sent \<and>
    int (length sent) * 8 = protected_bits (layout_of (width c * height c))"
proof -
  define ws where "ws = map (\<lambda>d. case rs_encode rs d of Returns w \<Rightarrow> w | _ \<Rightarrow> []) (slices 223 frame)"
  have enc: "encode_block rs d = Inr (case rs_encode rs d of Returns w \<Rightarrow> w | _ \<Rightarrow> [])
      \<and> length (case rs_encode rs d of Returns w \<Rightarrow> w | _ \<Rightarrow> []) = 255"
    if "d \<in> set (slices 223 frame)" for d
    using rs [OF that] by (auto simp: rs_corrects_def encode_block_def)
  then have t: "traverse (encode_block rs) (slices 223 frame) = Inr ws"
    and w: "\<And>w. w \<in> set ws \<Longrightarrow> length w = 255"
    by (auto simp: traverse_Inr ws_def)
  define b where "b = nat (block_count (layout_of (width c * height c)))"
  have bint: "int b = block_count (layout_of (width c * height c))"
    using layout_block_count(1) [OF v] by (simp add: b_def)
  have "length frame = b * 223" using len bint by (simp flip: of_nat_eq_iff)
  then have "length ws = b" using length_slices [of frame b 223] by (simp add: ws_def)
  with t w v len bint show ?thesis
    by (auto simp: protect_frame_def calculate_capacity_ok dest: w)
qed

lemma burst_block_damage:
  fixes b :: nat
  assumes "0 < b" and "\<And>k. k < start \<or> start + m * b \<le> k \<Longrightarrow> k < length sent \<Longrightarrow> sent ! k = received ! k"
  shows "card (block_damage b j sent received) \<le> m"
proof -
  have one: "card {k. s \<le> k \<and> k < s + b \<and> k mod b = j} \<le> 1" for s
  proof (rule card_le_Suc0_iff_eq [THEN iffD2, unfolded One_nat_def [symmetric]])
    show "finite {k. s \<le> k \<and> k < s + b \<and> k mod b = j}" by (rule finite_subset [of _ "{..<s + b}"]) auto
    have "x = y" if "s \<le> x" "x < s + b" "s \<le> y" "y < s + b" "x mod b = y mod b" "x \<le> y" for x y
    proof -
      from that have "b dvd y - x" by (metis mod_eq_dvd_iff_nat)
      moreover have "y - x < b" using that by linarith
      ultimately show ?thesis using that(6) by (meson dvd_imp_le le_antisym not_less zero_less_diff)
    qed
    then show "\<forall>x \<in> {k. s \<le> k \<and> k < s + b \<and> k mod b = j}.
        \<forall>y \<in> {k. s \<le> k \<and> k < s + b \<and> k mod b = j}. x = y"
      by (auto dest!: nat_le_linear [THEN disjE]) (metis nat_le_linear)+
  qed
  have cnt: "card {k. start \<le> k \<and> k < start + n * b \<and> k mod b = j} \<le> n" for n
  proof (induction n)
    case (Suc n)
    have "{k. start \<le> k \<and> k < start + Suc n * b \<and> k mod b = j}
        = {k. start \<le> k \<and> k < start + n * b \<and> k mod b = j}
          \<union> {k. start + n * b \<le> k \<and> k < start + n * b + b \<and> k mod b = j}"
      by (auto simp: algebra_simps)
    then have "card {k. start \<le> k \<and> k < start + Suc n * b \<and> k mod b = j}
        \<le> card {k. start \<le> k \<and> k < start + n * b \<and> k mod b = j}
          + card {k. start + n * b \<le> k \<and> k < start + n * b + b \<and> k mod b = j}"
      by (simp add: card_Un_le)
    with Suc one [of "start + n * b"] show ?case by linarith
  qed simp
  have "block_damage b j sent received \<subseteq> {k. start \<le> k \<and> k < start + m * b \<and> k mod b = j}"
    using assms(2) by (auto simp: block_damage_def wrong_places_def) (meson not_le)+
  then have "card (block_damage b j sent received) \<le> card {k. start \<le> k \<and> k < start + m * b \<and> k mod b = j}"
    by (rule card_mono [rotated]) (rule finite_subset [of _ "{..<start + m * b}"], auto)
  with cnt [of m] show ?thesis by simp
qed

section \<open>What the correction promises\<close>

text \<open>
  C3: every frame of the right size can be protected, the protected form fills the
  protected bits exactly, and it is restored byte for byte as long as no interleaved block
  has more than 16 wrong bytes, wherever in the block they are.
\<close>

theorem correction_tolerates_damage:
  assumes "context_valid c"
    and "int (length frame) = frame_bytes (layout_of (width c * height c))"
    and "\<And>d. d \<in> set (slices 223 frame) \<Longrightarrow> rs_corrects rs d"
  shows "\<exists>sent. protect_frame rs frame c = Inr sent \<and>
    int (length sent) * 8 = protected_bits (layout_of (width c * height c)) \<and>
    (\<forall>received. length received = length sent \<longrightarrow>
      (\<forall>j. card (block_damage (nat (block_count (layout_of (width c * height c)))) j sent received) \<le> 16) \<longrightarrow>
      restore_frame rs received c = Inr frame)"
proof -
  obtain sent where p: "protect_frame rs frame c = Inr sent"
    and l: "int (length sent) * 8 = protected_bits (layout_of (width c * height c))"
    using protect_frame_ok [OF assms] by blast
  with restore_frame_corrects [OF assms(1) p assms(3)] show ?thesis by blast
qed

text \<open>
  Interleaving turns a burst into spread damage. One contiguous run of wrong bytes, as
  long as 16 bytes for each of the blocks, is corrected although it is longer than any one
  block can bear.
\<close>

lemma correction_tolerates_burst:
  assumes "context_valid c" and "protect_frame rs frame c = Inr sent"
    and "\<And>d. d \<in> set (slices 223 frame) \<Longrightarrow> rs_corrects rs d"
    and "length received = length sent"
    and "\<And>k. k < start \<or> start + 16 * nat (block_count (layout_of (width c * height c))) \<le> k
      \<Longrightarrow> k < length sent \<Longrightarrow> sent ! k = received ! k"
  shows "restore_frame rs received c = Inr frame"
proof (rule restore_frame_corrects [OF assms(1-4)])
  have "0 < nat (block_count (layout_of (width c * height c)))"
    using layout_block_count(1) [OF assms(1)] by simp
  then show "card (block_damage (nat (block_count (layout_of (width c * height c)))) j sent received) \<le> 16"
    for j by (rule burst_block_damage) (rule assms(5))
qed

text \<open>
  A concrete codec for the witnesses: a block of a table is sent as 255 copies of its place
  in the table, and the byte with more than half of the copies is read back.
\<close>

definition place_in :: "byte list list \<Rightarrow> byte list \<Rightarrow> nat" where
  "place_in ds d = length (takeWhile (\<lambda>e. e \<noteq> d) ds)"

definition table_codec :: "byte list list \<Rightarrow> rs_codec" where
  "table_codec ds = \<lparr>
     rs_encode = (\<lambda>d. if d \<in> set ds then Returns (replicate 255 (byte_of (place_in ds d))) else Raises),
     rs_decode = (\<lambda>w. case List.find (\<lambda>x. 127 < length (filter ((=) x) w)) w of
        None \<Rightarrow> Raises
      | Some x \<Rightarrow> if unat x < length ds then Returns (ds ! unat x) else Raises)\<rparr>"

lemma two_counts: "x \<noteq> y \<Longrightarrow> length (filter ((=) x) w) + length (filter ((=) y) w) \<le> length w"
  by (induction w) auto

lemma majority_found:
  assumes w: "length w = 255" and c: "card (wrong_places (replicate 255 x) w) \<le> 16"
  shows "List.find (\<lambda>y. 127 < length (filter ((=) y) w)) w = Some x"
proof -
  have "wrong_places (replicate 255 x) w = {i. i < length w \<and> \<not> x = w ! i}"
    using w by (auto simp: wrong_places_def)
  then have "length (filter (\<lambda>y. \<not> x = y) w) \<le> 16" using c by (simp add: length_filter_conv_card)
  then have many: "239 \<le> length (filter ((=) x) w)"
    using w sum_length_filter_compl [of "(=) x" w] by simp
  then have "x \<in> set w" by (metis filter_empty_conv list.size(3) not_numeral_le_zero)
  show ?thesis
  proof (cases "List.find (\<lambda>y. 127 < length (filter ((=) y) w)) w")
    case None
    with \<open>x \<in> set w\<close> many show ?thesis by (auto simp: find_None_iff)
  next
    case (Some y)
    then have "127 < length (filter ((=) y) w)" by (auto simp: find_Some_iff)
    with two_counts [of x y w] many w show ?thesis using Some by (cases "x = y") auto
  qed
qed

lemma place_in_nth: "d \<in> set ds \<Longrightarrow> place_in ds d < length ds \<and> ds ! place_in ds d = d"
  unfolding place_in_def by (induction ds) auto

lemma table_codec_corrects:
  assumes "d \<in> set ds" and "length ds \<le> 256"
  shows "rs_corrects (table_codec ds) d"
proof -
  have p: "place_in ds d < length ds" "ds ! place_in ds d = d" using place_in_nth [OF assms(1)] by auto
  then have "unat (byte_of (place_in ds d)) = place_in ds d"
    using assms(2) by (simp add: byte_of_def unat_of_nat)
  then have "rs_decode (table_codec ds) w = Returns d"
    if "length w = 255" "card (wrong_places (replicate 255 (byte_of (place_in ds d))) w) \<le> 16" for w
    using majority_found [OF that] p by (simp add: table_codec_def)
  then show ?thesis using assms(1) by (auto simp: rs_corrects_def table_codec_def)
qed

lemma slices_replicate: "d \<in> set (slices 223 (replicate 446 x)) \<Longrightarrow> d = replicate 223 x"
  by (auto simp: slices_def)

lemma square_frame_size: "frame_bytes (layout_of (width square_context * height square_context)) = 446"
  by (simp add: square_context_def layout_of_def)

theorem correction_tolerates_damage_witness:
  "\<exists>sent. protect_frame (table_codec [replicate 223 7]) (replicate 446 7) square_context = Inr sent \<and>
    restore_frame (table_codec [replicate 223 7]) sent square_context = Inr (replicate 446 7)"
proof -
  have "rs_corrects (table_codec [replicate 223 7]) d" if "d \<in> set (slices 223 (replicate 446 7))" for d
    using slices_replicate [OF that] by (intro table_codec_corrects) simp_all
  moreover have "int (length (replicate 446 (7 :: byte)))
      = frame_bytes (layout_of (width square_context * height square_context))"
    by (simp only: square_frame_size) simp
  moreover have "block_damage b j sent sent = {}" for b j sent
    by (auto simp: block_damage_def wrong_places_def)
  ultimately show ?thesis
    using correction_tolerates_damage [OF square_context_valid, of "replicate 446 7" "table_codec [replicate 223 7]"]
    by auto
qed

end
