(* ===== verification/PayloadMap.thy ===== *)
theory PayloadMap
  imports Correction
begin

text \<open>
  The one-channel payload map, \<^verbatim>\<open>backend_service/payload_map.py\<close>: protected bits repeated
  over every pixel in row order, and the vote that reads them back. The array library is a
  parameter: \<open>numpy\<close> holds the calls the code makes and \<open>numpy_delivers\<close> what their
  documentation promises, integer arithmetic in binary64 being exact up to
  \<open>2 ^ 53\<close>. An entry of a float array that is not finite is \<^term>\<open>None\<close>.
\<close>

section \<open>Arrays and the library parameter\<close>

datatype dtype = Uint8 | Float32 | Other_Dtype

record ndarray =
  shape :: "nat list"
  dtype_of :: dtype
  flat :: "real option list"

record numpy =
  np_unpackbits :: "byte list \<Rightarrow> nat list call"
  np_resize :: "nat list \<Rightarrow> nat \<Rightarrow> nat list call"
  np_sum_rows :: "real list list \<Rightarrow> real list call"
  np_add :: "real \<Rightarrow> real \<Rightarrow> real"
  np_sub :: "real \<Rightarrow> real \<Rightarrow> real"
  np_mul :: "real \<Rightarrow> real \<Rightarrow> real"
  np_packbits :: "bool list \<Rightarrow> byte list call"

definition byte_bits :: "byte \<Rightarrow> bool list" where
  "byte_bits w = map (\<lambda>i. bit w (7 - i)) [0..<8]"

definition bits_of :: "byte list \<Rightarrow> bool list" where
  "bits_of bs = concat (map byte_bits bs)"

definition exact64 :: "real \<Rightarrow> bool" where
  "exact64 x \<longleftrightarrow> x \<in> \<int> \<and> \<bar>x\<bar> \<le> 2 ^ 53"

definition numpy_delivers :: "numpy \<Rightarrow> bool" where
  "numpy_delivers np \<longleftrightarrow>
     (\<forall>bs. np_unpackbits np bs = Returns (map of_bool (bits_of bs))) \<and>
     (\<forall>xs n. xs \<noteq> [] \<longrightarrow> np_resize np xs n = Returns (map (\<lambda>k. xs ! (k mod length xs)) [0..<n])) \<and>
     (\<forall>rows m. rows \<noteq> [] \<longrightarrow> (\<forall>row \<in> set rows. length row = m \<and> (\<forall>x \<in> set row. x \<in> \<int> \<and> 0 \<le> x)) \<longrightarrow>
        (\<forall>j < m. exact64 (\<Sum>row \<leftarrow> rows. row ! j)) \<longrightarrow>
        np_sum_rows np rows = Returns (map (\<lambda>j. \<Sum>row \<leftarrow> rows. row ! j) [0..<m])) \<and>
     (\<forall>x y. exact64 x \<longrightarrow> exact64 y \<longrightarrow>
        (exact64 (x + y) \<longrightarrow> np_add np x y = x + y) \<and>
        (exact64 (x - y) \<longrightarrow> np_sub np x y = x - y) \<and>
        (exact64 (x * y) \<longrightarrow> np_mul np x y = x * y)) \<and>
     (\<forall>bs. np_packbits np (bits_of bs) = Returns bs)"

section \<open>Operations\<close>

definition np_call :: "'a call \<Rightarrow> 'a result" where
  "np_call r = (case r of Returns x \<Rightarrow> Inr x | Raises \<Rightarrow> Inl Library_Error
     | Out_Of_Memory \<Rightarrow> Inl protocol_resource_failure)"

definition create_payload_map :: "numpy \<Rightarrow> byte list \<Rightarrow> protocol_context \<Rightarrow> ndarray result" where
  "create_payload_map np protected c =
    andThen (calculate_capacity c) (\<lambda>capacity.
      if int (length protected) * 8 \<noteq> protected_bits capacity then Inl invalid_protocol_input
      else andThen (np_call (np_unpackbits np protected)) (\<lambda>bits.
        andThen (np_call (np_resize np bits (nat (payload_map_bits capacity)))) (\<lambda>values.
          Inr \<lparr>shape = [1, nat (height c), nat (width c)], dtype_of = Uint8,
               flat = map (\<lambda>v. Some (real v)) values\<rparr>)))"

text \<open>Python's in-place \<^theory_text>\<open>sums[:extra] += tail\<close> and \<^theory_text>\<open>sums[:extra] -= 1\<close>.\<close>

definition update_prefix :: "nat \<Rightarrow> (real \<Rightarrow> real \<Rightarrow> real) \<Rightarrow> real list \<Rightarrow> real list \<Rightarrow> real list" where
  "update_prefix n f xs ys = map2 f (take n xs) ys @ drop n xs"

definition recover_payload_bytes :: "numpy \<Rightarrow> ndarray \<Rightarrow> protocol_context \<Rightarrow> byte list result" where
  "recover_payload_bytes np values c =
    andThen (calculate_capacity c) (\<lambda>capacity.
      if shape values \<noteq> [1, nat (height c), nat (width c)] then Inl invalid_protocol_input
      else if dtype_of values \<notin> {Uint8, Float32} then Inl invalid_protocol_input
      else
        let is_bits = (dtype_of values = Uint8) in
        if is_bits \<and> list_ex (\<lambda>v. case v of Some r \<Rightarrow> 1 < r | None \<Rightarrow> False) (flat values)
          then Inl invalid_protocol_input
        else if \<not> is_bits \<and> \<not> list_all (\<lambda>v. v \<noteq> None) (flat values)
          then Inl invalid_protocol_input
        else
          let entries = map the (flat values);
              period = nat (protected_bits capacity);
              full_count = length entries div period;
              extra = length entries mod period;
              full_length = full_count * period
          in andThen (np_call (np_sum_rows np (slices period (take full_length entries)))) (\<lambda>sums0.
            let sums1 = update_prefix extra (np_add np) sums0 (drop full_length entries);
                totals = (if is_bits then
                    (let doubled = map (\<lambda>x. np_mul np x 2) sums1;
                        centred = map (\<lambda>x. np_sub np x (real full_count)) doubled
                    in update_prefix extra (np_sub np) centred (replicate extra 1))
                  else sums1)
            in np_call (np_packbits np (map (\<lambda>x. 0 < x) totals))))"

section \<open>Votes\<close>

definition bit_array :: "ndarray \<Rightarrow> protocol_context \<Rightarrow> bool" where
  "bit_array a c \<longleftrightarrow> shape a = [1, nat (height c), nat (width c)] \<and> dtype_of a = Uint8 \<and>
     length (flat a) = nat (width c * height c) \<and> set (flat a) \<subseteq> {Some 0, Some 1}"

text \<open>The pixels that carry a copy of protected bit \<open>j\<close>, and the vote over them.\<close>

definition copies :: "nat \<Rightarrow> nat \<Rightarrow> nat \<Rightarrow> nat set" where
  "copies n period j = {k. k < n \<and> k mod period = j}"

definition ones :: "nat \<Rightarrow> ndarray \<Rightarrow> nat \<Rightarrow> nat set" where
  "ones period a j = {k \<in> copies (length (flat a)) period j. flat a ! k = Some 1}"

definition vote :: "nat \<Rightarrow> ndarray \<Rightarrow> nat \<Rightarrow> bool" where
  "vote period a j \<longleftrightarrow> card (copies (length (flat a)) period j) < 2 * card (ones period a j)"

lemma copies_image:
  assumes "0 < p" and "j < p"
  shows "copies n p j = (\<lambda>q. q * p + j) ` {..<n div p + of_bool (j < n mod p)}"
    (is "_ = ?f ` ?Q")
proof (rule set_eqI)
  fix k
  have iff: "k < n \<longleftrightarrow> k div p < n div p + of_bool (j < n mod p)" if "k mod p = j"
  proof -
    have k: "k = (k div p) * p + j" and n: "n = (n div p) * p + n mod p"
      using that by (metis div_mult_mod_eq)+
    have nm: "n mod p < p" using assms(1) by simp
    define a b m where "a = k div p" and "b = n div p" and "m = n mod p"
    have e: "k = a * p + j" "n = b * p + m" "m < p"
      using k n nm unfolding a_def b_def m_def by simp_all
    have "a * p + j < b * p + m \<longleftrightarrow> a < b + of_bool (j < m)"
    proof (cases a b rule: linorder_cases)
      case less
      then have "Suc a * p \<le> b * p" by (intro mult_le_mono1) simp
      with less assms(2) show ?thesis by simp
    next
      case equal
      then show ?thesis by simp
    next
      case greater
      then have "Suc b * p \<le> a * p" by (intro mult_le_mono1) simp
      with greater e(3) show ?thesis by simp
    qed
    then show ?thesis
      unfolding a_def [symmetric] b_def [symmetric] m_def [symmetric] using e(1,2) by simp
  qed
  show "k \<in> copies n p j \<longleftrightarrow> k \<in> ?f ` ?Q"
  proof
    assume "k \<in> copies n p j"
    then have m: "k mod p = j" and "k < n" by (simp_all add: copies_def)
    with iff have "k div p \<in> ?Q" by simp
    moreover have "k = ?f (k div p)" using m by (metis div_mult_mod_eq)
    ultimately show "k \<in> ?f ` ?Q" by (rule rev_image_eqI)
  next
    assume "k \<in> ?f ` ?Q"
    then obtain q where q: "q \<in> ?Q" and k: "k = q * p + j" by blast
    then have "k div p = q" and "k mod p = j" using assms by simp_all
    with iff q show "k \<in> copies n p j" by (simp add: copies_def)
  qed
qed

lemma card_copies:
  assumes "0 < p" and "j < p"
  shows "card (copies n p j) = n div p + of_bool (j < n mod p)"
proof -
  have "inj_on (\<lambda>q. q * p + j) Q" for Q using assms by (auto intro: inj_onI)
  then show ?thesis by (simp add: copies_image [OF assms] card_image)
qed

lemma sum_copies:
  assumes "0 < p" and "j < p"
  shows "(\<Sum>k \<in> copies n p j. (h k :: real))
    = (\<Sum>q < n div p. h (q * p + j)) + (if j < n mod p then h (n div p * p + j) else 0)"
proof -
  have "inj_on (\<lambda>q. q * p + j) Q" for Q using assms by (auto intro: inj_onI)
  then have "(\<Sum>k \<in> copies n p j. h k)
      = (\<Sum>q < n div p + of_bool (j < n mod p). h (q * p + j))"
    by (simp add: copies_image [OF assms] sum.reindex)
  then show ?thesis by simp
qed

lemma length_bits_of [simp]: "length (bits_of bs) = 8 * length bs"
  unfolding bits_of_def by (subst length_concat_uniform [where n = 8]) (auto simp: byte_bits_def)

lemma byte_bits_surj: "length xs = 8 \<Longrightarrow> \<exists>w. byte_bits w = xs"
proof
  assume l: "length xs = 8"
  show "byte_bits (horner_sum of_bool 2 (rev xs)) = xs"
    by (rule nth_equalityI) (auto simp: byte_bits_def l bit_horner_sum_bit_iff rev_nth)
qed

lemma bits_of_surj: "length xs = 8 * n \<Longrightarrow> \<exists>bs. bits_of bs = xs"
proof (induction n arbitrary: xs)
  case 0
  then show ?case by (intro exI [of _ "[]"]) (simp add: bits_of_def)
next
  case (Suc n)
  then have "length (drop 8 xs) = 8 * n" by simp
  from Suc.IH [OF this] obtain bs where "bits_of bs = drop 8 xs" by blast
  moreover obtain w where "byte_bits w = take 8 xs" using byte_bits_surj [of "take 8 xs"] Suc.prems by auto
  ultimately have "bits_of (w # bs) = take 8 xs @ drop 8 xs" by (simp add: bits_of_def)
  then show ?case by (metis append_take_drop_id)
qed

lemma update_prefix_nth:
  assumes "n \<le> length xs" and "length ys = n"
  shows "length (update_prefix n f xs ys) = length xs"
    and "j < length xs \<Longrightarrow> update_prefix n f xs ys ! j = (if j < n then f (xs ! j) (ys ! j) else xs ! j)"
  using assms by (auto simp: update_prefix_def nth_append min_def)

lemma exact64_nat: "n \<le> 2 ^ 53 \<Longrightarrow> exact64 (real n)"
  by (simp add: exact64_def)

text \<open>The column sums of zero-or-one entries count the ones among the copies.\<close>

lemma column_sum:
  assumes p: "0 < p" "j < p" and v: "set (flat a) \<subseteq> {Some 0, Some 1}"
  defines "n \<equiv> length (flat a)" and "entries \<equiv> map the (flat a)"
  shows "(\<Sum>row \<leftarrow> slices p (take (n div p * p) entries). row ! j)
      + (if j < n mod p then entries ! (n div p * p + j) else 0) = real (card (ones p a j))"
proof -
  have full: "length (take (n div p * p) entries) = n div p * p"
    by (simp add: n_def entries_def)
  have l: "length (slices p (take (n div p * p) entries)) = n div p"
    by (rule length_slices [OF full p(1)])
  have row: "slices p (take (n div p * p) entries) ! q ! j = entries ! (q * p + j)" if "q < n div p" for q
  proof -
    have "Suc q * p \<le> n div p * p" using that by (intro mult_le_mono1) simp
    moreover have "n div p * p \<le> n" by simp
    ultimately show ?thesis using that l p by (simp add: slices_nth entries_def n_def)
  qed
  have "(\<Sum>row \<leftarrow> slices p (take (n div p * p) entries). row ! j)
      = (\<Sum>q < n div p. entries ! (q * p + j))"
    by (simp add: sum_list_sum_nth l atLeast0LessThan row)
  then have "(\<Sum>row \<leftarrow> slices p (take (n div p * p) entries). row ! j)
      + (if j < n mod p then entries ! (n div p * p + j) else 0) = (\<Sum>k \<in> copies n p j. entries ! k)"
    by (simp add: sum_copies [OF p])
  also have "\<dots> = (\<Sum>k \<in> copies n p j. if flat a ! k = Some 1 then 1 else 0)"
  proof (rule sum.cong [OF refl])
    fix k assume "k \<in> copies n p j"
    then have "k < length (flat a)" by (simp add: copies_def n_def)
    with v have "flat a ! k \<in> {Some 0, Some 1}" by (meson nth_mem subsetD)
    with \<open>k < length (flat a)\<close> show "entries ! k = (if flat a ! k = Some 1 then 1 else 0)"
      by (auto simp: entries_def)
  qed
  also have "\<dots> = real (card (copies n p j \<inter> {k. flat a ! k = Some 1}))"
    by (subst sum.inter_filter [symmetric]) (auto simp: copies_def Int_def)
  also have "copies n p j \<inter> {k. flat a ! k = Some 1} = ones p a j"
    by (auto simp: ones_def n_def)
  finally show ?thesis .
qed

lemma card_ones_le:
  assumes "0 < p" and "j < p"
  shows "card (ones p a j) \<le> length (flat a) div p + 1"
proof -
  have "card (ones p a j) \<le> card (copies (length (flat a)) p j)"
    by (rule card_mono) (auto simp: ones_def copies_def)
  then show ?thesis using card_copies [OF assms, of "length (flat a)"] by (simp add: of_bool_def split: if_splits)
qed

text \<open>What the arithmetic promises about the small integers that occur here.\<close>

lemma exact64_small: "m \<le> 100000000 \<Longrightarrow> exact64 (real m)"
  by (rule exact64_nat) simp

lemma exact64_int: "\<bar>i\<bar> \<le> 100000000 \<Longrightarrow> exact64 (real_of_int i)"
proof -
  assume "\<bar>i\<bar> \<le> 100000000"
  then have "real_of_int \<bar>i\<bar> \<le> real_of_int 100000000" by (rule of_int_le_iff [THEN iffD2])
  then show ?thesis by (simp add: exact64_def)
qed

lemma numpy_arithmetic:
  assumes "numpy_delivers np" and "\<bar>i\<bar> \<le> 30000000" and "\<bar>j\<bar> \<le> 30000000"
  shows "np_add np (real_of_int i) (real_of_int j) = real_of_int (i + j)"
    and "np_sub np (real_of_int i) (real_of_int j) = real_of_int (i - j)"
    and "np_mul np (real_of_int i) 2 = real_of_int (i * 2)"
proof -
  have x: "exact64 (real_of_int i)" and y: "exact64 (real_of_int j)" and two: "exact64 2"
    using assms exact64_int [of i] exact64_int [of j] exact64_int [of 2] by simp_all
  have "exact64 (real_of_int i + real_of_int j)" "exact64 (real_of_int i - real_of_int j)"
      "exact64 (real_of_int i * 2)"
    using assms exact64_int [of "i + j"] exact64_int [of "i - j"] exact64_int [of "i * 2"] by simp_all
  with x y two assms(1)
  show "np_add np (real_of_int i) (real_of_int j) = real_of_int (i + j)"
    and "np_sub np (real_of_int i) (real_of_int j) = real_of_int (i - j)"
    and "np_mul np (real_of_int i) 2 = real_of_int (i * 2)"
    unfolding numpy_delivers_def by (metis of_int_add, metis of_int_diff, metis of_int_mult of_int_numeral)
qed

lemma numpy_packs: "numpy_delivers np \<Longrightarrow> np_packbits np (bits_of bs) = Returns bs"
  by (simp add: numpy_delivers_def)

lemma recover_votes:
  assumes np: "numpy_delivers np" and c: "context_valid c" and a: "bit_array a c"
  defines "p \<equiv> nat (protected_bits (layout_of (width c * height c)))"
  assumes bs: "bits_of bs = map (vote p a) [0..<p]"
  shows "recover_payload_bytes np a c = Inr bs"
proof -
  define n where "n = length (flat a)"
  define entries where "entries = map the (flat a)"
  define full where "full = n div p"
  define extra where "extra = n mod p"
  have area: "nat (width c * height c) = n" "n \<le> 8850000" and pos: "0 < p" and "p \<le> n"
    using a context_area [OF c] layout_block_count(1,6) [OF c]
    by (auto simp: bit_array_def n_def p_def)
  then have full: "0 < full" "full \<le> 8850000" and extra: "extra < p"
    by (simp_all add: full_def extra_def div_greater_zero_iff)
      (meson div_le_dividend le_trans)
  have v: "set (flat a) \<subseteq> {Some 0, Some 1}" using a by (simp add: bit_array_def)
  then have ints: "x \<in> \<int>" "0 \<le> x" if "x \<in> set entries" for x
    using that by (auto simp: entries_def)
  define rows where "rows = slices p (take (full * p) entries)"
  have ln: "length (take (full * p) entries) = full * p"
    by (simp add: entries_def full_def n_def)
  have lr: "length rows = full" unfolding rows_def by (rule length_slices [OF ln pos])
  have row: "length r = p" "set r \<subseteq> set entries" if r: "r \<in> set rows" for r
  proof -
    show "length r = p" using slices_member_length [OF ln pos] r by (simp add: rows_def)
    from r obtain k where "r = take p (drop (k * p) (take (full * p) entries))"
      by (auto simp: rows_def slices_def)
    then show "set r \<subseteq> set entries"
      by (metis set_take_subset set_drop_subset subset_trans)
  qed
  define col where "col j = (\<Sum>r \<leftarrow> rows. r ! j)" for j
  define tail where "tail = drop (full * p) entries"
  have lt: "length tail = extra" by (simp add: tail_def entries_def full_def extra_def n_def minus_div_mult_eq_mod)
  have total: "col j + (if j < extra then tail ! j else 0) = real (card (ones p a j))" if "j < p" for j
    using column_sum [OF pos that v] lt
    by (auto simp: col_def rows_def tail_def entries_def full_def extra_def n_def)
  have tail01: "tail ! j \<in> {0, 1}" if "j < extra" for j
  proof -
    have "tail ! j \<in> set entries" using that lt by (simp add: tail_def in_set_dropD)
    with v show ?thesis by (auto simp: entries_def)
  qed
  have small: "card (ones p a j) \<le> full + 1" if "j < p" for j
    using card_ones_le [OF pos that] by (simp add: full_def n_def)
  have colx: "\<exists>m. col j = real m \<and> m \<le> full + 1" if "j < p" for j
  proof (cases "j < extra \<and> tail ! j = 1")
    case True
    with total [OF that] have e: "col j + 1 = real (card (ones p a j))" by simp
    have "0 \<le> col j" unfolding col_def
      using row ints that by (intro sum_list_nonneg) (auto, metis nth_mem subsetD)
    with e have "0 < card (ones p a j)" by linarith
    with e have "col j = real (card (ones p a j) - 1)" by (simp add: of_nat_diff)
    with small [OF that] show ?thesis by (intro exI [of _ "card (ones p a j) - 1"]) simp
  next
    case False
    with total [OF that] tail01 [of j] have "col j = real (card (ones p a j))"
      by (auto split: if_splits)
    with small [OF that] show ?thesis by blast
  qed
  have "np_sum_rows np rows = Returns (map col [0..<p])"
  proof -
    have "rows \<noteq> []" using lr full by auto
    moreover have "\<forall>r \<in> set rows. length r = p \<and> (\<forall>x \<in> set r. x \<in> \<int> \<and> 0 \<le> x)"
      using row ints by blast
    moreover have "\<forall>j < p. exact64 (col j)"
      using colx full by (fastforce intro: exact64_small)
    ultimately show ?thesis using np unfolding numpy_delivers_def col_def by blast
  qed
  then have call: "np_call (np_sum_rows np rows) = Inr (map col [0..<p])" by (simp add: np_call_def)
  define totals1 where "totals1 = update_prefix extra (np_add np) (map col [0..<p]) tail"
  define centred where
    "centred = map (\<lambda>x. np_sub np x (real full)) (map (\<lambda>x. np_mul np x 2) totals1)"
  define totals where "totals = update_prefix extra (np_sub np) centred (replicate extra 1)"
  have l1: "length totals1 = p" and l2: "length centred = p" and l3: "length totals = p"
    unfolding totals1_def centred_def totals_def
    using extra lt by (simp_all add: update_prefix_nth(1))
  have n1: "totals1 ! j = real (card (ones p a j))" if j: "j < p" for j
  proof -
    obtain m where m: "col j = real m" "m \<le> full + 1" using colx [OF j] by blast
    have "np_add np (real_of_int (int m)) (real_of_int i) = real_of_int (int m + i)" if "i \<in> {0, 1}" for i
      using m(2) full that by (intro numpy_arithmetic(1) [OF np]) auto
    from this [of 0] this [of 1] m have "np_add np (col j) (tail ! j) = col j + tail ! j" if "j < extra"
      using tail01 [OF that] by auto
    with total [OF j] show ?thesis
      unfolding totals1_def using extra lt j
      by (cases "j < extra") (simp_all add: update_prefix_nth(2))
  qed
  have n2: "centred ! j = real_of_int (int (card (ones p a j)) * 2 - int full)" if j: "j < p" for j
  proof -
    have "np_mul np (real_of_int (int (card (ones p a j)))) 2 = real_of_int (int (card (ones p a j)) * 2)"
      using small [OF j] full by (intro numpy_arithmetic(3) [OF np, of _ 0]) simp_all
    moreover have "np_sub np (real_of_int (int (card (ones p a j)) * 2)) (real_of_int (int full))
        = real_of_int (int (card (ones p a j)) * 2 - int full)"
      using small [OF j] full by (intro numpy_arithmetic(2) [OF np]) simp_all
    ultimately show ?thesis using n1 [OF j] j l1 by (simp add: centred_def)
  qed
  have n3: "(0 < totals ! j) = vote p a j" if j: "j < p" for j
  proof -
    have "np_sub np (real_of_int (int (card (ones p a j)) * 2 - int full)) (real_of_int 1)
        = real_of_int (int (card (ones p a j)) * 2 - int full - 1)"
      using small [OF j] full by (intro numpy_arithmetic(2) [OF np]) simp_all
    then have "totals ! j = real_of_int (int (card (ones p a j)) * 2 - int full - of_bool (j < extra))"
      unfolding totals_def using extra l2 j n2 [OF j] by (simp add: update_prefix_nth(2))
    then have "(0 < totals ! j) = (0 < int (card (ones p a j)) * 2 - int full - of_bool (j < extra))"
      by (simp only: of_int_0_less_iff)
    also have "\<dots> = (full + of_bool (j < extra) < 2 * card (ones p a j))"
      by (cases "j < extra") auto
    finally show ?thesis
      using card_copies [OF pos j, of n] by (simp add: vote_def full_def extra_def n_def)
  qed
  have "map (\<lambda>x. 0 < x) totals = bits_of bs"
    unfolding bs using n3 l3 by (intro nth_equalityI) simp_all
  then have "np_call (np_packbits np (map (\<lambda>x. 0 < x) totals)) = Inr bs"
    using np by (simp add: numpy_packs np_call_def)
  moreover have "\<not> list_ex (\<lambda>v. case v of Some r \<Rightarrow> 1 < r | None \<Rightarrow> False) (flat a)"
    using v by (auto simp: list_ex_iff)
  moreover have "length entries = n" by (simp add: entries_def n_def)
  moreover have "shape a = [1, nat (height c), nat (width c)]" and "dtype_of a = Uint8"
    using a by (simp_all add: bit_array_def)
  ultimately show ?thesis
    using call
    unfolding recover_payload_bytes_def calculate_capacity_ok [OF c] andThen_Inr
      p_def [symmetric] Let_def entries_def [symmetric]
    by (simp add: full_def [symmetric] extra_def [symmetric]
        rows_def [symmetric] tail_def [symmetric] totals1_def [symmetric]
        totals_def [unfolded centred_def, symmetric] del: layout_sizes map_map)
qed

lemma bits_of_nth:
  assumes "k < length bs" and "i < 8"
  shows "bits_of bs ! (k * 8 + i) = byte_bits (bs ! k) ! i"
  unfolding bits_of_def using assms
  by (subst nth_concat_uniform [where n = 8]) (auto simp: byte_bits_def)

lemma bits_of_slice:
  assumes "k < length bs"
  shows "take 8 (drop (k * 8) (bits_of bs)) = byte_bits (bs ! k)"
proof (rule nth_equalityI)
  have "Suc k * 8 \<le> length bs * 8" using assms by (intro mult_le_mono1) simp
  then show l: "length (take 8 (drop (k * 8) (bits_of bs))) = length (byte_bits (bs ! k))"
    by (simp add: byte_bits_def)
  fix i assume "i < length (take 8 (drop (k * 8) (bits_of bs)))"
  with l have "i < 8" by (simp add: byte_bits_def)
  with \<open>Suc k * 8 \<le> _\<close> show "take 8 (drop (k * 8) (bits_of bs)) ! i = byte_bits (bs ! k) ! i"
    using bits_of_nth [OF assms] by simp
qed

lemma vote_bytes: "p = 8 * n \<Longrightarrow> \<exists>bs. bits_of bs = map (vote p a) [0..<p]"
  using bits_of_surj [of "map (vote p a) [0..<p]" n] by auto

section \<open>The map of a protected frame\<close>

definition bit_of_map :: "byte list \<Rightarrow> nat \<Rightarrow> real option" where
  "bit_of_map protected k = Some (of_bool (bits_of protected ! (k mod (8 * length protected))))"

lemma create_payload_map_ok:
  assumes np: "numpy_delivers np" and c: "context_valid c"
    and len: "int (length protected) * 8 = protected_bits (layout_of (width c * height c))"
  shows "create_payload_map np protected c = Inr \<lparr>shape = [1, nat (height c), nat (width c)],
      dtype_of = Uint8, flat = map (bit_of_map protected) [0..<nat (width c * height c)]\<rparr>"
proof -
  have ne: "bits_of protected \<noteq> []"
    using len layout_block_count(1) [OF c] by (auto simp: length_0_conv [symmetric] simp del: length_0_conv)
  have u: "np_unpackbits np protected = Returns (map of_bool (bits_of protected))"
    and r: "\<And>xs n. xs \<noteq> [] \<Longrightarrow> np_resize np xs n = Returns (map (\<lambda>k. xs ! (k mod length xs)) [0..<n])"
    using np by (simp_all add: numpy_delivers_def)
  have "map (\<lambda>v. Some (real v)) (map (\<lambda>k. map of_bool (bits_of protected) ! (k mod length (map of_bool (bits_of protected) :: nat list))) [0..<n])
      = map (bit_of_map protected) [0..<n]" for n
  proof -
    have "protected \<noteq> []" using ne by (auto simp: bits_of_def)
    then have "k mod (8 * length protected) < 8 * length protected" for k by simp
    then show ?thesis by (simp add: bit_of_map_def)
  qed
  with u r [of "map of_bool (bits_of protected)"] ne c len show ?thesis
    by (simp add: create_payload_map_def calculate_capacity_ok np_call_def del: map_map length_map)
qed

text \<open>The pixels of one protected bit that a channel turned over.\<close>

definition flipped :: "nat \<Rightarrow> ndarray \<Rightarrow> ndarray \<Rightarrow> nat \<Rightarrow> nat set" where
  "flipped period sent received j =
     {k \<in> copies (length (flat received)) period j. flat received ! k \<noteq> flat sent ! k}"

definition outvoted :: "nat \<Rightarrow> ndarray \<Rightarrow> ndarray \<Rightarrow> nat \<Rightarrow> bool" where
  "outvoted period sent received j \<longleftrightarrow>
     card (copies (length (flat received)) period j) \<le> 2 * card (flipped period sent received j)"

lemma vote_unless_outvoted:
  assumes a: "bit_array a c" and s: "flat sent = map (bit_of_map protected) [0..<nat (width c * height c)]"
    and p: "p = 8 * length protected" "j < p" and o: "\<not> outvoted p sent a j"
  shows "vote p a j = bits_of protected ! j"
proof -
  have n: "length (flat a) = nat (width c * height c)" and v: "set (flat a) \<subseteq> {Some 0, Some 1}"
    using a by (simp_all add: bit_array_def)
  let ?C = "copies (length (flat a)) p j" and ?F = "flipped p sent a j"
  have fin: "finite ?C" by (simp add: copies_def)
  have sent: "flat sent ! k = Some (of_bool (bits_of protected ! j))" if "k \<in> ?C" for k
    using that s p n by (auto simp: copies_def bit_of_map_def)
  have val: "flat a ! k = Some 0 \<or> flat a ! k = Some 1" if "k \<in> ?C" for k
    using that v by (auto simp: copies_def dest!: nth_mem)
  have less: "2 * card ?F < card ?C" using o by (simp add: outvoted_def)
  show ?thesis
  proof (cases "bits_of protected ! j")
    case True
    with sent val have "ones p a j = ?C - ?F"
      by (fastforce simp: ones_def flipped_def)
    moreover have "?F \<subseteq> ?C" by (auto simp: flipped_def)
    ultimately have "card (ones p a j) = card ?C - card ?F"
      using fin by (simp add: card_Diff_subset finite_subset)
    with less True show ?thesis by (simp add: vote_def)
  next
    case False
    with sent have "ones p a j \<subseteq> ?F" by (auto simp: ones_def flipped_def)
    then have "card (ones p a j) \<le> card ?F"
      using fin by (intro card_mono) (auto simp: flipped_def)
    with less False show ?thesis by (simp add: vote_def)
  qed
qed

text \<open>
  Hard-bit recovery is a majority vote over every copy. For each array of bits of the
  context's shape, the recovered bytes are, bit for bit, the votes over the pixels that
  carry the bit, with the remainder pixels counted and an exact tie read as zero.
\<close>

lemma recovery_is_vote:
  assumes "numpy_delivers np" and "context_valid c" and "bit_array a c"
  shows "\<exists>bs. recover_payload_bytes np a c = Inr bs \<and>
    bits_of bs = map (vote (nat (protected_bits (layout_of (width c * height c)))) a)
      [0..<nat (protected_bits (layout_of (width c * height c)))]"
proof -
  have "nat (protected_bits (layout_of (width c * height c)))
      = 8 * (255 * nat (block_count (layout_of (width c * height c))))"
    by (simp add: nat_mult_distrib)
  from vote_bytes [OF this] recover_votes [OF assms] show ?thesis by metis
qed

text \<open>
  C4: the map of a protected frame survives any damage that leaves a majority of the copies
  of every bit: each protected frame of the right size has a map of the context's shape,
  and every bit array that turns over fewer than half of the copies of each bit is read
  back as the same bytes.
\<close>

theorem map_tolerates_minority_flips:
  assumes "numpy_delivers np" and "context_valid c"
    and "int (length protected) * 8 = protected_bits (layout_of (width c * height c))"
  shows "\<exists>sent. create_payload_map np protected c = Inr sent \<and> bit_array sent c \<and>
    (\<forall>received. bit_array received c \<longrightarrow>
      (\<forall>j < 8 * length protected. \<not> outvoted (8 * length protected) sent received j) \<longrightarrow>
      recover_payload_bytes np received c = Inr protected)"
proof -
  let ?sent = "\<lparr>shape = [1, nat (height c), nat (width c)], dtype_of = Uint8,
      flat = map (bit_of_map protected) [0..<nat (width c * height c)]\<rparr>"
  have p: "nat (protected_bits (layout_of (width c * height c))) = 8 * length protected"
    using assms(3) by simp
  have "recover_payload_bytes np received c = Inr protected"
    if r: "bit_array received c" "\<forall>j < 8 * length protected. \<not> outvoted (8 * length protected) ?sent received j"
    for received
  proof (rule recover_votes [OF assms(1,2) r(1)], unfold p)
    show "bits_of protected = map (vote (8 * length protected) received) [0..<8 * length protected]"
      using vote_unless_outvoted [OF r(1), of ?sent protected] r(2) by (intro nth_equalityI) auto
  qed
  moreover have "bit_array ?sent c" by (auto simp: bit_array_def bit_of_map_def)
  ultimately show ?thesis using create_payload_map_ok [OF assms] by blast
qed

text \<open>An array library with exact arithmetic, at which the documented behaviour holds.\<close>

definition exact_numpy :: numpy where
  "exact_numpy = \<lparr>
     np_unpackbits = (\<lambda>bs. Returns (map of_bool (bits_of bs))),
     np_resize = (\<lambda>xs n. Returns (map (\<lambda>k. xs ! (k mod length xs)) [0..<n])),
     np_sum_rows = (\<lambda>rows. Returns (map (\<lambda>j. \<Sum>row \<leftarrow> rows. row ! j) [0..<length (hd rows)])),
     np_add = (+), np_sub = (-), np_mul = (*),
     np_packbits = (\<lambda>xs. Returns (map (\<lambda>k. horner_sum of_bool 2 (rev (take 8 (drop (k * 8) xs))))
       [0..<length xs div 8]))\<rparr>"

lemma horner_byte_bits: "horner_sum of_bool 2 (rev (byte_bits w)) = w"
proof (rule bit_word_eqI)
  fix n :: nat
  assume n: "n < LENGTH(8)"
  then have "[0..<8] ! (7 - n) = 7 - n" by (subst nth_upt) simp_all
  with n show "bit (horner_sum of_bool 2 (rev (byte_bits w)) :: byte) n = bit w n"
    by (simp add: byte_bits_def bit_horner_sum_bit_iff rev_nth)
qed

lemma exact_numpy_delivers: "numpy_delivers exact_numpy"
proof -
  have "np_packbits exact_numpy (bits_of bs) = Returns bs" for bs
    by (auto simp: exact_numpy_def bits_of_slice horner_byte_bits intro!: nth_equalityI)
  moreover have "rows \<noteq> [] \<Longrightarrow> \<forall>row \<in> set rows. length row = m \<and> Q row \<Longrightarrow> length (hd rows) = m"
    for rows :: "real list list" and m Q by (cases rows) auto
  ultimately show ?thesis
    unfolding numpy_delivers_def by (auto simp: exact_numpy_def)
qed

text \<open>The map of 510 zero bytes on the square context, read back after one pixel is turned over.\<close>

lemma square_sizes:
  "int (length (replicate 510 (0 :: byte))) * 8
     = protected_bits (layout_of (width square_context * height square_context))"
  "nat (protected_bits (layout_of (width square_context * height square_context))) = 4080"
  by (simp_all add: square_context_def layout_of_def)

lemma square_copies:
  assumes "j < 4080"
  shows "64 \<le> card (copies (nat (width square_context * height square_context)) 4080 j)"
proof -
  have "nat (width square_context * height square_context) = 262144" by (simp add: square_context_def)
  then show ?thesis using card_copies [of 4080 j 262144] assms by simp
qed

lemma few_flips_outvote:
  assumes "length (flat received) = nat (width square_context * height square_context)"
    and "flipped 4080 sent received j \<subseteq> {k}" and "j < 4080"
  shows "\<not> outvoted 4080 sent received j"
proof -
  have "card (flipped 4080 sent received j) \<le> 1"
    using card_mono [OF _ assms(2)] by simp
  with square_copies [OF assms(3)] assms(1) show ?thesis by (simp add: outvoted_def)
qed

theorem map_tolerates_minority_flips_witness:
  "\<exists>sent. create_payload_map exact_numpy (replicate 510 0) square_context = Inr sent \<and>
    recover_payload_bytes exact_numpy (sent\<lparr>flat := (flat sent)[5 := Some 1]\<rparr>) square_context
      = Inr (replicate 510 0)"
proof -
  from map_tolerates_minority_flips [OF exact_numpy_delivers square_context_valid square_sizes(1)]
  obtain sent where s: "create_payload_map exact_numpy (replicate 510 0) square_context = Inr sent"
    and b: "bit_array sent square_context"
    and r: "\<And>received. bit_array received square_context \<Longrightarrow>
      (\<forall>j < 4080. \<not> outvoted 4080 sent received j) \<Longrightarrow>
      recover_payload_bytes exact_numpy received square_context = Inr (replicate 510 0)"
    by auto
  let ?r = "sent\<lparr>flat := (flat sent)[5 := Some 1]\<rparr>"
  have br: "bit_array ?r square_context"
    using b set_update_subset_insert [of "flat sent" 5 "Some 1"] by (auto simp: bit_array_def)
  moreover have "flipped 4080 sent ?r j \<subseteq> {5}" for j
    by (auto simp: flipped_def) (metis nth_list_update_neq)
  ultimately have "recover_payload_bytes exact_numpy ?r square_context = Inr (replicate 510 0)"
    using few_flips_outvote [of ?r sent _ 5] by (intro r) (auto simp: bit_array_def)
  with s show ?thesis by blast
qed

end
