(* ===== verification/Message.thy ===== *)
theory Message
  imports PayloadMap
begin

text \<open>
  The message services, \<^verbatim>\<open>backend_service/message_protocol.py\<close>: a message becomes a frame,
  the frame its protected bytes, and back. The end-to-end theorem carries a message over a
  payload map whose pixels were damaged.
\<close>

definition encode_message ::
  "crypto \<Rightarrow> rs_codec \<Rightarrow> byte list call \<Rightarrow> byte list call \<Rightarrow> pystr \<Rightarrow> pystr \<Rightarrow> protocol_context
    \<Rightarrow> byte list result" where
  "encode_message cr rs salt nonce message password c =
    andThen (create_frame cr salt nonce message password c) (\<lambda>frame. protect_frame rs frame c)"

definition decode_message ::
  "crypto \<Rightarrow> rs_codec \<Rightarrow> byte list \<Rightarrow> pystr \<Rightarrow> protocol_context \<Rightarrow> pystr result" where
  "decode_message cr rs protected password c =
    andThen (restore_frame rs protected c) (\<lambda>frame. recover_frame cr frame password c)"

definition codec_corrects :: "rs_codec \<Rightarrow> byte list \<Rightarrow> bool" where
  "codec_corrects rs frame \<longleftrightarrow> (\<forall>d \<in> set (slices 223 frame). rs_corrects rs d)"

text \<open>
  A protected byte is at risk when one of its eight bits lost the vote, and a channel is
  tolerable when every interleaved block has at most 16 such bytes.
\<close>

definition bytes_at_risk :: "nat \<Rightarrow> ndarray \<Rightarrow> ndarray \<Rightarrow> nat set" where
  "bytes_at_risk count sent received =
     {k. k < count \<and> (\<exists>i < 8. outvoted (8 * count) sent received (k * 8 + i))}"

definition tolerable :: "nat \<Rightarrow> nat \<Rightarrow> ndarray \<Rightarrow> ndarray \<Rightarrow> bool" where
  "tolerable blocks count sent received \<longleftrightarrow>
     (\<forall>j. card {k \<in> bytes_at_risk count sent received. k mod blocks = j} \<le> 16)"

lemma byte_eq_from_bits: "byte_bits v = byte_bits w \<Longrightarrow> v = w"
  by (metis horner_byte_bits)

lemma wrong_bytes_at_risk:
  assumes a: "bit_array received c"
    and s: "flat sent = map (bit_of_map protected) [0..<nat (width c * height c)]"
    and b: "bits_of bs = map (vote (8 * length protected) received) [0..<8 * length protected]"
  shows "wrong_places protected bs \<subseteq> bytes_at_risk (length protected) sent received"
proof
  fix k assume "k \<in> wrong_places protected bs"
  then have k: "k < length protected" "protected ! k \<noteq> bs ! k" by (auto simp: wrong_places_def)
  from arg_cong [OF b, of length] have l: "length bs = length protected" by simp
  have "\<exists>i < 8. outvoted (8 * length protected) sent received (k * 8 + i)"
  proof (rule ccontr)
    assume n: "\<not> ?thesis"
    have "byte_bits (protected ! k) ! i = byte_bits (bs ! k) ! i" if i: "i < 8" for i
    proof -
      have "k * 8 + i < 8 * length protected" using k(1) i by simp
      moreover from this n i vote_unless_outvoted [OF a s refl this]
      have "vote (8 * length protected) received (k * 8 + i) = bits_of protected ! (k * 8 + i)" by blast
      ultimately show ?thesis
        using bits_of_nth [OF k(1) i] bits_of_nth [of k bs i] k(1) l i b by simp
    qed
    then have "byte_bits (protected ! k) = byte_bits (bs ! k)"
      by (intro nth_equalityI) (auto simp: byte_bits_def)
    with k(2) show False by (auto dest: byte_eq_from_bits)
  qed
  with k(1) show "k \<in> bytes_at_risk (length protected) sent received"
    by (simp add: bytes_at_risk_def)
qed

text \<open>
  C1: a message sent over a damaged map arrives. When the libraries keep their documented
  behaviour, each message that was encoded has a payload map, and every received bit array
  that is tolerable, which leaves up to 16 bytes of each interleaved block without a
  majority, decodes under the same password and context to the exact message.
\<close>

theorem message_arrives:
  assumes np: "numpy_delivers np" and cr: "aead_documented cr" and c: "context_valid c"
    and salt: "length salt = salt_bytes" and nonce: "length nonce = nonce_bytes"
    and f: "create_frame cr (Returns salt) (Returns nonce) m p c = Inr frame"
    and rs: "codec_corrects rs frame"
  shows "\<exists>protected sent. encode_message cr rs (Returns salt) (Returns nonce) m p c = Inr protected \<and>
    create_payload_map np protected c = Inr sent \<and> bit_array sent c \<and>
    int (length protected) * 8 = protected_bits (layout_of (width c * height c)) \<and>
    (\<forall>received. bit_array received c \<longrightarrow>
      tolerable (nat (block_count (layout_of (width c * height c)))) (length protected) sent received \<longrightarrow>
      (\<exists>bytes. recover_payload_bytes np received c = Inr bytes \<and>
         decode_message cr rs bytes p c = Inr m))"
proof -
  define b where "b = nat (block_count (layout_of (width c * height c)))"
  have rsd: "\<And>d. d \<in> set (slices 223 frame) \<Longrightarrow> rs_corrects rs d"
    using rs by (simp add: codec_corrects_def)
  obtain protected where p: "protect_frame rs frame c = Inr protected"
    and l: "int (length protected) * 8 = protected_bits (layout_of (width c * height c))"
    using protect_frame_ok [OF c created_recovers(2) [OF cr salt nonce f] rsd] by blast
  note made = create_payload_map_ok [OF np c l]
  define sent where "sent = \<lparr>shape = [1, nat (height c), nat (width c)], dtype_of = Uint8,
      flat = map (bit_of_map protected) [0..<nat (width c * height c)]\<rparr>"
  have arrives: "\<exists>bytes. recover_payload_bytes np received c = Inr bytes \<and>
      decode_message cr rs bytes p c = Inr m"
    if r: "bit_array received c" and t: "tolerable b (length protected) sent received" for received
  proof -
    have per: "nat (protected_bits (layout_of (width c * height c))) = 8 * length protected"
      using l by simp
    obtain bytes where bits: "bits_of bytes = map (vote (8 * length protected) received) [0..<8 * length protected]"
      using vote_bytes by blast
    from arg_cong [OF bits, of length] have lb: "length bytes = length protected" by simp
    have "recover_payload_bytes np received c = Inr bytes"
      by (rule recover_votes [OF np c r]) (simp only: per bits)
    moreover have "card (block_damage b j protected bytes) \<le> 16" for j
    proof -
      have "block_damage b j protected bytes
          \<subseteq> {k \<in> bytes_at_risk (length protected) sent received. k mod b = j}"
        using wrong_bytes_at_risk [OF r _ bits, of sent] by (auto simp: block_damage_def sent_def)
      then have "card (block_damage b j protected bytes)
          \<le> card {k \<in> bytes_at_risk (length protected) sent received. k mod b = j}"
        by (rule card_mono [rotated]) (simp add: bytes_at_risk_def)
      with t show ?thesis unfolding tolerable_def by (meson le_trans)
    qed
    then have "restore_frame rs bytes c = Inr frame"
      unfolding b_def by (intro restore_frame_corrects [OF c p rsd lb])
    ultimately show ?thesis
      using created_recovers(1) [OF cr salt nonce f] by (simp add: decode_message_def)
  qed
  moreover have "encode_message cr rs (Returns salt) (Returns nonce) m p c = Inr protected"
    using f p by (simp add: encode_message_def)
  moreover have "bit_array sent c" by (auto simp: bit_array_def sent_def bit_of_map_def)
  ultimately show ?thesis using made l unfolding sent_def b_def by blast
qed

theorem message_arrives_witness:
  "\<exists>frame protected sent.
    encode_message plain_crypto (table_codec (slices 223 frame))
      (Returns (replicate 16 1)) (Returns (replicate 24 2)) [104, 105] [112] square_context = Inr protected \<and>
    create_payload_map exact_numpy protected square_context = Inr sent \<and>
    (\<exists>bytes. recover_payload_bytes exact_numpy sent square_context = Inr bytes \<and>
      decode_message plain_crypto (table_codec (slices 223 frame)) bytes [112] square_context
        = Inr [104, 105])"
proof -
  obtain f where f: "create_frame plain_crypto (Returns (replicate 16 1)) (Returns (replicate 24 2))
      [104, 105] [112] square_context = Inr f"
    using create_frame_plain [OF square_context_valid, of "[104, 105]" "[104, 105]" "[112]" "[112]"]
      layout_block_count(4) [OF square_context_valid]
    by (auto simp: encode_point_def is_scalar_def password_bytes_def byte_of_def)
  have l: "length (replicate 16 (1 :: byte)) = salt_bytes" "length (replicate 24 (2 :: byte)) = nonce_bytes"
    by (simp_all add: salt_bytes_def nonce_bytes_def)
  have "length f = 446"
    using created_recovers(2) [OF plain_crypto_documented l f] unfolding square_frame_size by simp
  then have "length (slices 223 f) \<le> 256" by (simp add: slices_def)
  then have rs: "codec_corrects (table_codec (slices 223 f)) f"
    by (simp add: codec_corrects_def table_codec_corrects)
  from message_arrives [OF exact_numpy_delivers plain_crypto_documented square_context_valid l f rs]
  obtain protected sent where
    e: "encode_message plain_crypto (table_codec (slices 223 f)) (Returns (replicate 16 1))
      (Returns (replicate 24 2)) [104, 105] [112] square_context = Inr protected"
    and s: "create_payload_map exact_numpy protected square_context = Inr sent"
    and ba: "bit_array sent square_context"
    and lp: "int (length protected) * 8
      = protected_bits (layout_of (width square_context * height square_context))"
    and a: "\<And>received. bit_array received square_context \<Longrightarrow>
      tolerable (nat (block_count (layout_of (width square_context * height square_context))))
        (length protected) sent received \<Longrightarrow>
      \<exists>bytes. recover_payload_bytes exact_numpy received square_context = Inr bytes \<and>
        decode_message plain_crypto (table_codec (slices 223 f)) bytes [112] square_context
          = Inr [104, 105]"
    by blast
  have p: "length protected = 510" using lp square_sizes(1) by simp
  have "\<not> outvoted 4080 sent sent j" if "j < 4080" for j
    using few_flips_outvote [of sent sent j 0] ba that by (simp add: bit_array_def flipped_def)
  then have "bytes_at_risk 510 sent sent = {}" by (auto simp: bytes_at_risk_def)
  then have "tolerable (nat (block_count (layout_of (width square_context * height square_context))))
      (length protected) sent sent"
    by (simp add: tolerable_def p)
  from a [OF ba this] e s show ?thesis by blast
qed

end
