(* ===== verification/Files.thy ===== *)
theory Files
  imports Utf8
begin

text \<open>
  File-system rules that several components share: atomic publication of a record and its
  disk reserve (\<^verbatim>\<open>backend_service/training_checkpoint_files.py\<close>), the reserve of the data
  volume (\<^verbatim>\<open>backend_service/disk_reserve.py\<close>), and the relative paths that dataset code
  accepts (\<^verbatim>\<open>relative_parts\<close> of \<^verbatim>\<open>backend_service/dataset_files.py\<close>). A path is a
  string of code points.
\<close>

section \<open>Atomic records\<close>

definition checkpoint_failure :: exn where
  "checkpoint_failure = Application_Failure ''checkpoint_unavailable'' 503"

record disk_usage =
  total_bytes :: int
  free_bytes :: int

definition require_space :: "disk_usage \<Rightarrow> int \<Rightarrow> unit result" where
  "require_space usage additional_bytes =
    (let reserve = max (10 * 1024 ^ 3) ((total_bytes usage + 9) div 10) in
     if free_bytes usage - additional_bytes < reserve then Inl checkpoint_failure else Inr ())"

text \<open>
  A write can fail before the rename, leaving the old record, or after it, in the flush of
  the directory, leaving the new one. The size of the serialized record and the disk usage
  at the time of the call come from outside.
\<close>

datatype write_fault = No_Fault | Fault_Before_Replace | Fault_After_Replace

record write_call =
  usage_then :: disk_usage
  data_bytes :: int
  fault :: write_fault

definition atomic_json :: "write_call \<Rightarrow> 'a \<Rightarrow> 'a option \<Rightarrow> 'a option \<times> unit result" where
  "atomic_json call value old =
    (case require_space (usage_then call) (data_bytes call) of
       Inl e \<Rightarrow> (old, Inl e)
     | Inr _ \<Rightarrow>
         (case fault call of
            No_Fault \<Rightarrow> (Some value, Inr ())
          | Fault_Before_Replace \<Rightarrow> (old, Inl OS_Error)
          | Fault_After_Replace \<Rightarrow> (Some value, Inl OS_Error)))"

definition roomy_call :: "write_call \<Rightarrow> bool" where
  "roomy_call call \<longleftrightarrow> require_space (usage_then call) (data_bytes call) = Inr () \<and> fault call = No_Fault"

lemma atomic_json_cases:
  "(\<exists>e. atomic_json call value old = (old, Inl e)) \<or>
   (\<exists>r. atomic_json call value old = (Some value, r))"
  by (auto simp: atomic_json_def split: sum.splits write_fault.splits)

lemma atomic_json_Inr: "atomic_json call value old = (new, Inr u) \<Longrightarrow> new = Some value"
  by (auto simp: atomic_json_def split: sum.splits write_fault.splits)

lemma atomic_json_roomy: "roomy_call call \<Longrightarrow> atomic_json call value old = (Some value, Inr ())"
  by (simp add: atomic_json_def roomy_call_def)

text \<open>What a successful space check promises: the reserve is still free after the write.\<close>

lemma require_space_keeps_reserve:
  assumes "require_space usage n = Inr u"
  shows "10737418240 \<le> free_bytes usage - n" and "total_bytes usage \<le> 10 * (free_bytes usage - n)"
  using assms by (auto simp: require_space_def Let_def split: if_splits)

section \<open>The reserve of the data volume\<close>

definition dataset_failure :: "string \<Rightarrow> exn" where
  "dataset_failure code = Application_Failure code 400"

text \<open>\<^term>\<open>None\<close> stands for a disk-usage call that raises \<^theory_text>\<open>OSError\<close>.\<close>

definition minimum_reserve_bytes :: int where "minimum_reserve_bytes = 10 * 1024 ^ 3"

definition minimum_free_bytes :: "disk_usage option \<Rightarrow> int result" where
  "minimum_free_bytes usage =
    (case usage of
       None \<Rightarrow> Inl (dataset_failure ''dataset_storage'')
     | Some u \<Rightarrow> Inr (max minimum_reserve_bytes (total_bytes u div 10)))"

definition free_disk_bytes :: "disk_usage option \<Rightarrow> int result" where
  "free_disk_bytes usage =
    (case usage of
       None \<Rightarrow> Inl (dataset_failure ''dataset_storage'')
     | Some u \<Rightarrow> Inr (free_bytes u))"

definition ensure_disk_reserve :: "disk_usage option \<Rightarrow> int \<Rightarrow> unit result" where
  "ensure_disk_reserve usage next_bytes =
    (if next_bytes < 0 then Inl (dataset_failure ''dataset_space'')
     else case usage of
       None \<Rightarrow> Inl (dataset_failure ''dataset_storage'')
     | Some u \<Rightarrow>
         if free_bytes u - next_bytes < max minimum_reserve_bytes (total_bytes u div 10)
         then Inl (dataset_failure ''dataset_space'') else Inr ())"

lemma ensure_disk_reserve_iff:
  "ensure_disk_reserve usage n = Inr () \<longleftrightarrow>
     0 \<le> n \<and> (\<exists>f r. free_disk_bytes usage = Inr f \<and> minimum_free_bytes usage = Inr r \<and> r \<le> f - n)"
  by (auto simp: ensure_disk_reserve_def free_disk_bytes_def minimum_free_bytes_def
      split: option.splits)

section \<open>Decimal numbers\<close>

fun decimal :: "nat \<Rightarrow> string" where
  "decimal n = (if n < 10 then [char_of (48 + n)] else decimal (n div 10) @ [char_of (48 + n mod 10)])"

declare decimal.simps [simp del]

section \<open>Relative paths\<close>

fun split_on :: "'a \<Rightarrow> 'a list \<Rightarrow> 'a list list" where
  "split_on c [] = [[]]"
| "split_on c (x # xs) =
    (if x = c then [] # split_on c xs
     else case split_on c xs of [] \<Rightarrow> [[x]] | p # ps \<Rightarrow> (x # p) # ps)"

fun join_with :: "'a \<Rightarrow> 'a list list \<Rightarrow> 'a list" where
  "join_with c [] = []"
| "join_with c [p] = p"
| "join_with c (p # q # ps) = p @ c # join_with c (q # ps)"

abbreviation slash :: nat where "slash \<equiv> 47"
abbreviation backslash :: nat where "backslash \<equiv> 92"
abbreviation colon :: nat where "colon \<equiv> 58"

definition posix_root :: "pystr \<Rightarrow> pystr" where
  "posix_root s =
    (if take 1 s \<noteq> [slash] then []
     else if take 2 s = [slash, slash] \<and> take 3 s \<noteq> [slash, slash, slash] then [slash, slash]
     else [slash])"

text \<open>\<^theory_text>\<open>PurePosixPath(s).parts\<close>: the root if there is one, then the components that are
  neither empty nor a single dot.\<close>

definition posix_parts :: "pystr \<Rightarrow> pystr list" where
  "posix_parts s =
    (if posix_root s = [] then [] else [posix_root s])
      @ filter (\<lambda>p. p \<noteq> [] \<and> p \<noteq> [46]) (split_on slash s)"

definition relative_parts :: "pystr \<Rightarrow> pystr list result" where
  "relative_parts s =
    (let parts = posix_parts s in
     if parts = [] \<or> s \<noteq> join_with slash parts
       \<or> list_ex (\<lambda>p. p = [] \<or> p = [46] \<or> p = [46, 46]) parts
       \<or> backslash \<in> set s \<or> colon \<in> set s \<or> 4096 < length s
       \<or> list_ex (\<lambda>ch. ch < 32 \<or> ch = 127) s
       \<or> posix_root s \<noteq> []
     then Inl (dataset_failure ''dataset_access'') else Inr parts)"

definition plain_component :: "pystr \<Rightarrow> bool" where
  "plain_component p \<longleftrightarrow> p \<noteq> [] \<and> p \<noteq> [46] \<and> p \<noteq> [46, 46] \<and>
     list_all (\<lambda>ch. 32 \<le> ch \<and> ch \<noteq> 127 \<and> ch \<noteq> slash \<and> ch \<noteq> backslash \<and> ch \<noteq> colon) p"

lemma split_on_not_Nil [simp]: "split_on c xs \<noteq> []"
  by (induction xs) (auto split: list.splits)

lemma split_on_no_sep: "p \<in> set (split_on c xs) \<Longrightarrow> c \<notin> set p"
  by (induction xs arbitrary: p) (auto split: if_splits list.splits)

lemma join_split_on: "join_with c (split_on c xs) = xs"
proof (induction xs)
  case (Cons x xs)
  then show ?case by (cases "split_on c xs"; cases "tl (split_on c xs)") auto
qed simp

lemma split_on_append: "c \<notin> set p \<Longrightarrow> split_on c (p @ c # xs) = p # split_on c xs"
  by (induction p) auto

lemma split_on_plain: "c \<notin> set p \<Longrightarrow> split_on c p = [p]"
  by (induction p) auto

lemma split_join: "ps \<noteq> [] \<Longrightarrow> (\<And>p. p \<in> set ps \<Longrightarrow> c \<notin> set p) \<Longrightarrow> split_on c (join_with c ps) = ps"
  by (induction c ps rule: join_with.induct) (auto simp: split_on_append split_on_plain)

lemma set_join_with: "set (join_with c ps) \<subseteq> insert c (\<Union> (set ` set ps))"
  by (induction c ps rule: join_with.induct) auto

lemma set_split_on: "p \<in> set (split_on c xs) \<Longrightarrow> set p \<subseteq> set xs"
proof (induction xs arbitrary: p)
  case (Cons x xs)
  then show ?case
    by (cases "split_on c xs"; cases "x = c"; fastforce split: list.splits)
qed simp

lemma posix_root_Cons: "x \<noteq> slash \<Longrightarrow> posix_root (x # xs) = []"
  by (simp add: posix_root_def)

lemma posix_root_join:
  assumes "ps \<noteq> []" and "list_all plain_component ps"
  shows "posix_root (join_with slash ps) = []"
proof -
  obtain p qs where ps: "ps = p # qs" using assms(1) by (cases ps) auto
  with assms(2) have "plain_component p" by simp
  then obtain x xs where p: "p = x # xs" "x \<noteq> slash"
    by (cases p) (auto simp: plain_component_def)
  have "\<exists>rest. join_with slash ps = x # rest" by (cases qs) (simp_all add: ps p(1))
  with p(2) show ?thesis by (auto simp: posix_root_Cons)
qed

lemma relative_parts_accepts:
  "relative_parts s = Inr ps \<longleftrightarrow>
     s = join_with slash ps \<and> ps \<noteq> [] \<and> list_all plain_component ps \<and> length s \<le> 4096"
proof
  assume "relative_parts s = Inr ps"
  then have p: "ps = posix_parts s" "ps \<noteq> []" "s = join_with slash ps" "length s \<le> 4096"
    and r: "posix_root s = []" and ch: "backslash \<notin> set s" "colon \<notin> set s"
    and l1: "\<not> list_ex (\<lambda>p. p = [] \<or> p = [46] \<or> p = [46, 46]) ps"
    and l2: "\<not> list_ex (\<lambda>ch. ch < 32 \<or> ch = 127) s"
    unfolding relative_parts_def Let_def if_Inl_Inr de_Morgan_disj not_not not_less by simp_all
  have n: "p \<noteq> [] \<and> p \<noteq> [46] \<and> p \<noteq> [46, 46]" if "p \<in> set ps" for p
    using l1 that unfolding list_ex_iff by blast
  have lo: "32 \<le> ch \<and> ch \<noteq> 127" if "ch \<in> set s" for ch
    using l2 that unfolding list_ex_iff by (metis not_less)
  from p(1) r have sub: "set ps \<subseteq> set (split_on slash s)" by (auto simp: posix_parts_def)
  have "plain_component p" if m: "p \<in> set ps" for p
  proof -
    from sub m have q: "p \<in> set (split_on slash s)" by blast
    have "32 \<le> ch \<and> ch \<noteq> 127 \<and> ch \<noteq> slash \<and> ch \<noteq> backslash \<and> ch \<noteq> colon" if "ch \<in> set p" for ch
      using that lo [of ch] ch set_split_on [OF q] split_on_no_sep [OF q] by blast
    then show ?thesis using n [OF m] by (simp add: plain_component_def list_all_iff)
  qed
  with p show "s = join_with slash ps \<and> ps \<noteq> [] \<and> list_all plain_component ps \<and> length s \<le> 4096"
    unfolding list_all_iff by blast
next
  assume a: "s = join_with slash ps \<and> ps \<noteq> [] \<and> list_all plain_component ps \<and> length s \<le> 4096"
  then have pc: "\<And>p. p \<in> set ps \<Longrightarrow> plain_component p" by (simp add: list_all_iff)
  then have "split_on slash s = ps" using a
    by (auto simp: plain_component_def list_all_iff intro!: split_join)
  moreover have "filter (\<lambda>p. p \<noteq> [] \<and> p \<noteq> [46]) ps = ps"
    using pc by (auto simp: plain_component_def intro: filter_True)
  ultimately have "posix_parts s = ps" using a posix_root_join [of ps] by (simp add: posix_parts_def)
  moreover have chars: "32 \<le> ch \<and> ch \<noteq> 127 \<and> ch \<noteq> backslash \<and> ch \<noteq> colon" if "ch \<in> set s" for ch
  proof -
    from that a set_join_with [of slash ps] have "ch = slash \<or> (\<exists>p \<in> set ps. ch \<in> set p)" by blast
    then show ?thesis
    proof
      assume "\<exists>p \<in> set ps. ch \<in> set p"
      then obtain p where "plain_component p" and "ch \<in> set p" using pc by blast
      then show ?thesis unfolding plain_component_def list_all_iff by blast
    qed simp
  qed
  moreover have "\<not> list_ex (\<lambda>p. p = [] \<or> p = [46] \<or> p = [46, 46]) ps"
    unfolding list_ex_iff using pc plain_component_def by blast
  moreover have "\<not> list_ex (\<lambda>ch. ch < 32 \<or> ch = 127) s" "backslash \<notin> set s" "colon \<notin> set s"
    using chars by (force simp: list_ex_iff)+
  moreover have "posix_root s = []" using a posix_root_join by blast
  ultimately show "relative_parts s = Inr ps"
    using a unfolding relative_parts_def Let_def by (auto simp: not_less)
qed

text \<open>
  C11: dataset code accepts a relative path exactly when it is a sequence of plain
  components joined by single slashes: no empty, dot or parent component, no root, no
  control character, backslash or colon, and at most 4096 characters. It returns those
  components, so joining them to a root directory cannot leave it, and every other string
  gives the fixed access failure.
\<close>

theorem relative_parts_exact:
  "(relative_parts s = Inr ps \<longleftrightarrow>
     s = join_with slash ps \<and> ps \<noteq> [] \<and> list_all plain_component ps \<and> length s \<le> 4096) \<and>
   relative_parts s \<in> {Inl (dataset_failure ''dataset_access''), Inr (posix_parts s)}"
  using relative_parts_accepts [of s ps] by (simp add: relative_parts_def Let_def)

end
