(* ===== verification/Interfaces.thy ===== *)
theory Interfaces
  imports Prelude
begin

text \<open>
  The contracts several components share, as locales. \<open>guarded_system\<close> is a step relation
  with an invariant that every step keeps, \<open>metered_system\<close> adds a quantity that no step
  lowers (time that was charged, event numbers that were issued), and \<open>replayed_request\<close>
  is the idempotency contract of every mutation endpoint: a request that was accepted is
  answered again without a second effect.
\<close>

section \<open>Step relations with an invariant\<close>

locale guarded_system =
  fixes step :: "'s \<Rightarrow> 's \<Rightarrow> bool"
    and inv :: "'s \<Rightarrow> bool"
  assumes step_keeps: "inv s \<Longrightarrow> step s t \<Longrightarrow> inv t"
begin

lemma run_keeps: "step\<^sup>*\<^sup>* s t \<Longrightarrow> inv s \<Longrightarrow> inv t"
  by (induction rule: rtranclp_induct) (auto intro: step_keeps)

end

locale metered_system = guarded_system step inv
  for step :: "'s \<Rightarrow> 's \<Rightarrow> bool" and inv :: "'s \<Rightarrow> bool" +
  fixes meter :: "'s \<Rightarrow> 'm :: preorder"
  assumes step_meters: "inv s \<Longrightarrow> step s t \<Longrightarrow> meter s \<le> meter t"
begin

lemma run_meters: "step\<^sup>*\<^sup>* s t \<Longrightarrow> inv s \<Longrightarrow> meter s \<le> meter t"
proof (induction rule: rtranclp_induct)
  case base
  then show ?case by simp
next
  case (step t u)
  then have "inv t" by (auto intro: run_keeps)
  then have "meter t \<le> meter u" using step.hyps(2) by (rule step_meters)
  with step show ?case by (auto intro: order_trans)
qed

end

section \<open>Idempotent requests\<close>

text \<open>
  \<open>apply_request\<close> takes a request and the state to a failure or to an answer with the new
  state. \<open>recall\<close> looks up what was accepted for the request, and \<open>same\<close> relates states that do
  not differ for its clients. The laws: an accepted request is recalled afterwards, a recalled
  request is answered from the record without a change of state, and recall survives every
  later accepted request. In a \<open>replayed_system\<close> it survives every step.
\<close>

locale replayed_request =
  fixes apply_request :: "'q \<Rightarrow> 's \<Rightarrow> exn + ('a \<times> 's)"
    and recall :: "'q \<Rightarrow> 's \<Rightarrow> 'k option"
    and answer :: "'k \<Rightarrow> 's \<Rightarrow> 'a \<Rightarrow> bool"
    and inv :: "'s \<Rightarrow> bool"
    and same :: "'s \<Rightarrow> 's \<Rightarrow> bool"
  assumes accepted_recalled:
      "inv s \<Longrightarrow> apply_request q s = Inr (a, t) \<Longrightarrow> \<exists>k. recall q t = Some k \<and> answer k t a"
    and recalled_answered:
      "inv s \<Longrightarrow> recall q s = Some k \<Longrightarrow> apply_request q s = Inr (a, t) \<Longrightarrow> same s t \<and> answer k s a"
    and accepted_keeps: "inv s \<Longrightarrow> apply_request q s = Inr (a, t) \<Longrightarrow> inv t"
    and recall_stable:
      "inv s \<Longrightarrow> recall q s = Some k \<Longrightarrow> apply_request q' s = Inr (a, t) \<Longrightarrow> recall q t = Some k"
begin

lemma retry_has_no_effect:
  assumes "inv s" and "apply_request q s = Inr (a, t)" and "apply_request q t = Inr (b, u)"
  shows "same t u"
  using assms accepted_recalled recalled_answered accepted_keeps by meson

end

locale replayed_system = replayed_request +
  fixes step :: "'b \<Rightarrow> 'b \<Rightarrow> bool"
  assumes recall_kept: "step s t \<Longrightarrow> recall q s = Some k \<Longrightarrow> recall q t = Some k"
begin

lemma run_recalls: "step\<^sup>*\<^sup>* s t \<Longrightarrow> recall q s = Some k \<Longrightarrow> recall q t = Some k"
  by (induction rule: rtranclp_induct) (auto intro: recall_kept)

lemma accepted_recalled_later:
  assumes "inv s" and "apply_request q s = Inr (a, t)" and "step\<^sup>*\<^sup>* t u"
  shows "\<exists>k. recall q u = Some k \<and> answer k t a"
  using accepted_recalled [OF assms(1,2)] run_recalls [OF assms(3)] by blast

end

end
