(* ===== verification/ProofBudget.thy ===== *)
theory ProofBudget
  imports Files Interfaces
begin

text \<open>
  The wall-clock budget of the CPU proof: \<^verbatim>\<open>backend_service/training_budget.py\<close> and the
  records of \<^verbatim>\<open>backend_service/training_budget_records.py\<close>. One operation at a time holds
  the lock, reserves what is left of its allowance on disk before it starts, and is charged
  what it used when it ends or the whole reservation when it never came back. Seconds are
  real numbers, an idealisation of the binary64 values of the code.
\<close>

section \<open>Records\<close>

definition maximum_experiments :: nat where "maximum_experiments = 2"
definition maximum_total_seconds :: real where "maximum_total_seconds = 14400"
definition maximum_experiment_seconds :: real where "maximum_experiment_seconds = 7200"
definition save_reserve_seconds :: real where "save_reserve_seconds = 1200"

record experiment_budget =
  experiment_identifier :: string
  experiment_consumed :: real

record active_budget =
  active_identifier :: string
  started_at :: real
  reserved_seconds :: real

record budget_ledger =
  consumed_seconds :: real
  experiments :: "experiment_budget list"
  active :: "active_budget option"

definition empty_ledger :: budget_ledger where
  "empty_ledger = \<lparr>consumed_seconds = 0, experiments = [], active = None\<rparr>"

definition experiment_pattern :: "string \<Rightarrow> bool" where
  "experiment_pattern s \<longleftrightarrow>
     (case s of
        [] \<Rightarrow> False
      | c # cs \<Rightarrow>
          (is_upper_char c \<or> is_lower_char c \<or> is_digit_char c) \<and> length cs \<le> 127 \<and>
          list_all (\<lambda>d. is_upper_char d \<or> is_lower_char d \<or> is_digit_char d \<or> d \<in> set ''_-'') cs)"

definition experiment_valid :: "experiment_budget \<Rightarrow> bool" where
  "experiment_valid e \<longleftrightarrow>
     experiment_pattern (experiment_identifier e) \<and> 0 \<le> experiment_consumed e"

definition active_valid :: "active_budget \<Rightarrow> bool" where
  "active_valid a \<longleftrightarrow> 0 \<le> started_at a \<and> 0 < reserved_seconds a \<and> reserved_seconds a \<le> 7200"

definition total_consumed :: "experiment_budget list \<Rightarrow> real" where
  "total_consumed es = sum_list (map experiment_consumed es)"

definition ledger_valid :: "budget_ledger \<Rightarrow> bool" where
  "ledger_valid l \<longleftrightarrow>
     0 \<le> consumed_seconds l \<and> length (experiments l) \<le> 2 \<and>
     list_all experiment_valid (experiments l) \<and>
     (case active l of None \<Rightarrow> True | Some a \<Rightarrow> active_valid a) \<and>
     distinct (map experiment_identifier (experiments l)) \<and>
     \<bar>total_consumed (experiments l) - consumed_seconds l\<bar> \<le> 1 / 1000000 \<and>
     (case active l of None \<Rightarrow> True
      | Some a \<Rightarrow> active_identifier a \<in> set (map experiment_identifier (experiments l)))"

section \<open>Storage and the budget object\<close>

datatype ledger_entry = No_Entry | Damaged | Saved budget_ledger

record proof_disk =
  ledger_file :: ledger_entry
  initialized :: bool
  lock_taken :: bool

datatype descriptor = Closed | Opened | Locked

record proof_budget =
  budget_identifier :: string
  resume :: bool
  ledger :: budget_ledger
  descriptor :: descriptor
  started :: "real option"
  allowance :: real
  finished_elapsed :: real

definition new_budget :: "string \<Rightarrow> bool \<Rightarrow> proof_budget" where
  "new_budget identifier resumed =
     \<lparr>budget_identifier = identifier, resume = resumed, ledger = empty_ledger,
      descriptor = Closed, started = None, allowance = 0, finished_elapsed = 0\<rparr>"

text \<open>
  What the code finds outside: the clocks, whether the directory could be made and the lock
  file opened, the checkpoint directory, and how each of the writes of one call ends.
\<close>

record path_view =
  is_link :: bool
  path_exists :: bool
  is_directory :: bool

record checkpoint_entry =
  entry_name :: string
  entry_is_link :: bool
  entry_is_file :: bool

record checkpoint_view =
  at_expected_place :: bool
  parent_view :: path_view
  own_view :: path_view
  entries :: "checkpoint_entry list"

record budget_environment =
  root_ready :: bool
  monotonic_now :: real
  monotonic_end :: real
  wall_now :: real
  checkpoint_directory :: "checkpoint_view option"
  writes :: "nat \<Rightarrow> write_call"

definition budget_failure :: exn where
  "budget_failure = Application_Failure ''proof_budget_unavailable'' 503"

type_synonym proof_state = "proof_budget \<times> proof_disk"

section \<open>Clocks and allowances\<close>

definition elapsed_seconds :: "real \<Rightarrow> proof_budget \<Rightarrow> real" where
  "elapsed_seconds now b =
    (case started b of None \<Rightarrow> finished_elapsed b | Some t \<Rightarrow> max 0 (now - t))"

definition remaining_seconds :: "real \<Rightarrow> proof_budget \<Rightarrow> real" where
  "remaining_seconds now b = max 0 (allowance b - elapsed_seconds now b)"

definition training_remaining_seconds :: "real \<Rightarrow> proof_budget \<Rightarrow> real" where
  "training_remaining_seconds now b = max 0 (remaining_seconds now b - save_reserve_seconds)"

definition check :: "real \<Rightarrow> bool \<Rightarrow> proof_budget \<Rightarrow> unit result" where
  "check now training b =
    (let remaining = (if training then training_remaining_seconds now b else remaining_seconds now b) in
     if descriptor b = Closed \<or> remaining \<le> 0 then Inl budget_failure else Inr ())"

section \<open>Operations\<close>

definition publish_ledger :: "write_call \<Rightarrow> budget_ledger \<Rightarrow> ledger_entry \<Rightarrow> ledger_entry \<times> unit result" where
  "publish_ledger call l old =
    (case atomic_json call l None of
       (Some new, r) \<Rightarrow> (Saved new, r)
     | (None, r) \<Rightarrow> (old, r))"

definition persist :: "write_call \<Rightarrow> write_call \<Rightarrow> (proof_state, unit) action" where
  "persist first second s =
    (let (b, d) = s in
     if \<not> ledger_valid (ledger b) then (s, Inl Value_Error)
     else
       let (entry, r) = publish_ledger first (ledger b) (ledger_file d);
           d1 = d\<lparr>ledger_file := entry\<rparr>
       in case r of
            Inl e \<Rightarrow> ((b, d1), Inl e)
          | Inr _ \<Rightarrow>
              if initialized d1 then ((b, d1), Inr ())
              else
                let (marker, r) = atomic_json second () None;
                    d2 = d1\<lparr>initialized := (marker \<noteq> None)\<rparr>
                in ((b, d2), r))"

definition experiment_of :: "budget_ledger \<Rightarrow> string \<Rightarrow> experiment_budget option" where
  "experiment_of l identifier =
     List.find (\<lambda>e. experiment_identifier e = identifier) (experiments l)"

fun charge_first :: "string \<Rightarrow> real \<Rightarrow> experiment_budget list \<Rightarrow> experiment_budget list" where
  "charge_first identifier seconds [] = []"
| "charge_first identifier seconds (e # es) =
    (if experiment_identifier e = identifier
     then e\<lparr>experiment_consumed := experiment_consumed e + seconds\<rparr> # es
     else e # charge_first identifier seconds es)"

definition charge :: "string \<Rightarrow> real \<Rightarrow> budget_ledger \<Rightarrow> budget_ledger" where
  "charge identifier seconds l =
     l\<lparr>experiments := charge_first identifier seconds (experiments l),
       consumed_seconds := consumed_seconds l + seconds, active := None\<rparr>"

definition reconcile :: "budget_environment \<Rightarrow> (proof_state, unit) action" where
  "reconcile env =
    act_bind act_get (\<lambda>(b, d).
      case active (ledger b) of
        None \<Rightarrow> act_return ()
      | Some a \<Rightarrow>
          if experiment_of (ledger b) (active_identifier a) = None then act_raise Stop_Iteration
          else act_bind
            (act_modify (\<lambda>(b, d). (b\<lparr>ledger := charge (active_identifier a) (reserved_seconds a) (ledger b)\<rparr>, d)))
            (\<lambda>_. persist (writes env 0) (writes env 1)))"

definition startup_retry :: "checkpoint_view option \<Rightarrow> bool result" where
  "startup_retry directory =
    (case directory of
       None \<Rightarrow> Inr False
     | Some v \<Rightarrow>
         if \<not> at_expected_place v then Inl budget_failure
         else if list_ex (\<lambda>p. is_link p \<or> path_exists p \<and> \<not> is_directory p) [parent_view v, own_view v]
         then Inl budget_failure
         else if \<not> path_exists (own_view v) then Inr True
         else Inr (list_all (\<lambda>x. \<not> entry_is_link x \<and> entry_name x = ''.checkpoint.lock'' \<and> entry_is_file x)
                     (entries v)))"

definition load_ledger :: "(proof_state, unit) action" where
  "load_ledger =
    act_bind act_get (\<lambda>(b, d).
      case ledger_file d of
        Saved l \<Rightarrow> if ledger_valid l then act_modify (\<lambda>(b, d). (b\<lparr>ledger := l\<rparr>, d)) else act_raise Value_Error
      | Damaged \<Rightarrow> act_raise Value_Error
      | No_Entry \<Rightarrow> if initialized d then act_raise Value_Error else act_return ())"

definition acquire :: "budget_environment \<Rightarrow> (proof_state, unit) action" where
  "acquire env =
    act_bind act_get (\<lambda>(b, d).
      if \<not> experiment_pattern (budget_identifier b) then act_raise Value_Error
      else if \<not> root_ready env then act_raise OS_Error
      else act_bind (act_modify (\<lambda>(b, d). (b\<lparr>descriptor := Opened\<rparr>, d))) (\<lambda>_.
        if lock_taken d then act_raise budget_failure
        else act_modify (\<lambda>(b, d).
          (b\<lparr>descriptor := Locked, started := Some (monotonic_now env)\<rparr>, d\<lparr>lock_taken := True\<rparr>))))"

definition register :: "budget_environment \<Rightarrow> (proof_state, unit) action" where
  "register env =
    act_bind act_get (\<lambda>(b, d).
      let existing = list_ex (\<lambda>e. experiment_identifier e = budget_identifier b) (experiments (ledger b)) in
      act_bind (act_lift (if existing \<and> \<not> resume b then startup_retry (checkpoint_directory env) else Inr False))
        (\<lambda>retry.
          if existing \<noteq> resume b \<and> \<not> retry then act_raise budget_failure
          else if existing then act_return ()
          else if maximum_experiments \<le> length (experiments (ledger b)) then act_raise budget_failure
          else act_modify (\<lambda>(b, d). (b\<lparr>ledger := (ledger b)\<lparr>experiments := experiments (ledger b) @
            [\<lparr>experiment_identifier = budget_identifier b, experiment_consumed = 0\<rparr>]\<rparr>\<rparr>, d))))"

definition left_for :: "budget_ledger \<Rightarrow> experiment_budget \<Rightarrow> real" where
  "left_for l e = min (maximum_total_seconds - consumed_seconds l)
                      (maximum_experiment_seconds - experiment_consumed e)"

definition reserve :: "budget_environment \<Rightarrow> (proof_state, unit) action" where
  "reserve env =
    act_bind act_get (\<lambda>(b, d).
      case experiment_of (ledger b) (budget_identifier b) of
        None \<Rightarrow> act_raise Stop_Iteration
      | Some e \<Rightarrow>
          let permitted = left_for (ledger b) e in
          act_bind (act_modify (\<lambda>(b, d). (b\<lparr>allowance := permitted\<rparr>, d))) (\<lambda>_.
            if permitted \<le> 0 then act_raise budget_failure
            else act_bind (act_modify (\<lambda>(b, d). (b\<lparr>ledger := (ledger b)\<lparr>active := Some
                \<lparr>active_identifier = budget_identifier b, started_at = wall_now env,
                 reserved_seconds = permitted\<rparr>\<rparr>\<rparr>, d)))
              (\<lambda>_. persist (writes env 2) (writes env 3))))"

definition release :: "proof_state \<Rightarrow> proof_state" where
  "release s =
    (let (b, d) = s in
     (b\<lparr>descriptor := Closed\<rparr>, d\<lparr>lock_taken := (lock_taken d \<and> descriptor b \<noteq> Locked)\<rparr>))"

definition enter :: "budget_environment \<Rightarrow> (proof_state, unit) action" where
  "enter env s =
    (case act_bind (acquire env) (\<lambda>_. act_bind load_ledger (\<lambda>_. act_bind (reconcile env)
            (\<lambda>_. act_bind (register env) (\<lambda>_. reserve env)))) s of
       (t, Inr u) \<Rightarrow> (t, Inr u)
     | (t, Inl e) \<Rightarrow> (release t, Inl (if is_application_failure e then e else budget_failure)))"

definition exit_budget :: "budget_environment \<Rightarrow> (proof_state, unit) action" where
  "exit_budget env s =
    (let (b, d) = s;
         elapsed = elapsed_seconds (monotonic_now env) b;
         (t, outcome) =
           (if experiment_of (ledger b) (budget_identifier b) = None then (s, Inl Stop_Iteration)
            else persist (writes env 0) (writes env 1)
                   (b\<lparr>ledger := charge (budget_identifier b) elapsed (ledger b)\<rparr>, d));
         (b1, d1) = t
     in (release (b1\<lparr>finished_elapsed := elapsed_seconds (monotonic_end env) b1, started := None\<rparr>, d1),
         (case outcome of Inl e \<Rightarrow> Inl budget_failure | Inr u \<Rightarrow> Inr u)))"

section \<open>Accounting lemmas\<close>

lemma experiment_of_Some:
  "experiment_of l i = Some e \<Longrightarrow> e \<in> set (experiments l) \<and> experiment_identifier e = i"
  by (auto simp: experiment_of_def find_Some_iff)

lemma experiment_of_None:
  "experiment_of l i = None \<longleftrightarrow> i \<notin> set (map experiment_identifier (experiments l))"
  by (auto simp: experiment_of_def find_None_iff)

lemma charge_first_names [simp]:
  "map experiment_identifier (charge_first i t es) = map experiment_identifier es"
  by (induction es) auto

lemma charge_first_length [simp]: "length (charge_first i t es) = length es"
  by (induction es) auto

lemma charge_first_total:
  "i \<in> set (map experiment_identifier es) \<Longrightarrow>
     total_consumed (charge_first i t es) = total_consumed es + t"
  by (induction es) (auto simp: total_consumed_def)

lemma charge_first_valid:
  "0 \<le> t \<Longrightarrow> list_all experiment_valid es \<Longrightarrow> list_all experiment_valid (charge_first i t es)"
  by (induction es) (auto simp: experiment_valid_def)

lemma charge_first_find:
  "List.find (\<lambda>e. experiment_identifier e = i) es = Some e \<Longrightarrow>
   List.find (\<lambda>e. experiment_identifier e = i) (charge_first i t es)
     = Some (e\<lparr>experiment_consumed := experiment_consumed e + t\<rparr>)"
  by (induction es) (auto split: if_splits)

lemma charge_first_other:
  "i \<noteq> j \<Longrightarrow> List.find (\<lambda>e. experiment_identifier e = j) (charge_first i t es)
     = List.find (\<lambda>e. experiment_identifier e = j) es"
  by (induction es) auto

lemma charge_valid:
  assumes "ledger_valid l" and "0 \<le> t" and "experiment_of l i \<noteq> None"
  shows "ledger_valid (charge i t l)"
  using assms
  by (auto simp: ledger_valid_def charge_def charge_first_total charge_first_valid experiment_of_None)

lemma charge_fields [simp]:
  "consumed_seconds (charge i t l) = consumed_seconds l + t"
  "active (charge i t l) = None"
  "map experiment_identifier (experiments (charge i t l)) = map experiment_identifier (experiments l)"
  by (simp_all add: charge_def)

lemma charge_experiment:
  "experiment_of l i = Some e \<Longrightarrow>
     experiment_of (charge i t l) i = Some (e\<lparr>experiment_consumed := experiment_consumed e + t\<rparr>)"
  by (simp add: experiment_of_def charge_def charge_first_find)

lemma charge_experiment_other:
  "i \<noteq> j \<Longrightarrow> experiment_of (charge i t l) j = experiment_of l j"
  by (simp add: experiment_of_def charge_def charge_first_other)

section \<open>What a call leaves on disk\<close>

lemma publish_ledger_cases:
  "(fst (publish_ledger call l old) = old \<and> (\<exists>e. snd (publish_ledger call l old) = Inl e)) \<or>
   fst (publish_ledger call l old) = Saved l"
  using atomic_json_cases [of call l None]
  by (auto simp: publish_ledger_def split: prod.splits option.splits)

lemma publish_ledger_Inr: "publish_ledger call l old = (new, Inr u) \<Longrightarrow> new = Saved l"
  using atomic_json_Inr [of call l None]
  by (auto simp: publish_ledger_def split: prod.splits option.splits)

lemma publish_ledger_roomy: "roomy_call call \<Longrightarrow> publish_ledger call l old = (Saved l, Inr ())"
  by (simp add: publish_ledger_def atomic_json_roomy)

lemma persist_effect:
  assumes "persist w v (b, d) = ((b', d'), r)"
  shows "b' = b \<and> lock_taken d' = lock_taken d \<and>
    (ledger_file d' = ledger_file d \<and> (\<exists>e. r = Inl e) \<or>
     ledger_file d' = Saved (ledger b) \<and> ledger_valid (ledger b))"
proof (cases "ledger_valid (ledger b)")
  case False
  with assms show ?thesis by (auto simp: persist_def)
next
  case True
  obtain entry q where p: "publish_ledger w (ledger b) (ledger_file d) = (entry, q)"
    by (cases "publish_ledger w (ledger b) (ledger_file d)")
  with publish_ledger_cases [of w "ledger b" "ledger_file d"]
  have "entry = ledger_file d \<and> (\<exists>e. q = Inl e) \<or> entry = Saved (ledger b)" by simp
  with assms True p show ?thesis
    by (auto simp: persist_def Let_def split: sum.splits if_splits prod.splits)
qed

lemma persist_roomy:
  assumes "roomy_call w" and "roomy_call v" and "ledger_valid (ledger b)"
  shows "persist w v (b, d) = ((b, d\<lparr>ledger_file := Saved (ledger b), initialized := True\<rparr>), Inr ())"
  using assms by (simp add: persist_def Let_def publish_ledger_roomy atomic_json_roomy)

lemma persist_Inr:
  "persist w v (b, d) = ((b', d'), Inr u) \<Longrightarrow> ledger_file d' = Saved (ledger b) \<and> ledger_valid (ledger b)"
  using persist_effect [of w v b d b' d' "Inr u"] by auto

section \<open>Runs of the budget\<close>

text \<open>
  A world is the disk with the operation that is running, if any. An attempt to enter either
  starts an operation or is refused, a running operation ends with its exit or dies, when
  the system releases its lock. With the flag set, exits happen within the allowance, as
  they do when the caller obeys \<^term>\<open>check\<close>.
\<close>

record proof_world =
  world_disk :: proof_disk
  running :: "proof_budget option"

inductive proof_step :: "bool \<Rightarrow> proof_world \<Rightarrow> proof_world \<Rightarrow> bool" for punctual where
  started: "enter env (new_budget i resumed, world_disk w) = ((b, d), Inr u) \<Longrightarrow>
     proof_step punctual w \<lparr>world_disk = d, running = Some b\<rparr>"
| refused: "enter env (new_budget i resumed, world_disk w) = ((b, d), Inl e) \<Longrightarrow>
     proof_step punctual w (w\<lparr>world_disk := d\<rparr>)"
| finished: "running w = Some b \<Longrightarrow>
     (punctual \<longrightarrow> elapsed_seconds (monotonic_now env) b \<le> allowance b) \<Longrightarrow>
     exit_budget env (b, world_disk w) = ((b', d), r) \<Longrightarrow>
     proof_step punctual w \<lparr>world_disk = d, running = None\<rparr>"
| died: "running w = Some b \<Longrightarrow>
     proof_step punctual w \<lparr>world_disk = (world_disk w)\<lparr>lock_taken := False\<rparr>, running = None\<rparr>"

definition empty_world :: proof_world where
  "empty_world = \<lparr>world_disk = \<lparr>ledger_file = No_Entry, initialized = False, lock_taken = False\<rparr>,
                  running = None\<rparr>"

text \<open>The seconds charged so far, and those that may still be charged for the open reservation.\<close>

definition charged :: "proof_disk \<Rightarrow> real" where
  "charged d = (case ledger_file d of Saved l \<Rightarrow> consumed_seconds l | _ \<Rightarrow> 0)"

definition disk_valid :: "proof_disk \<Rightarrow> bool" where
  "disk_valid d \<longleftrightarrow> (case ledger_file d of Saved l \<Rightarrow> ledger_valid l | Damaged \<Rightarrow> False | No_Entry \<Rightarrow> True)"

definition session_reserved :: "proof_budget \<Rightarrow> proof_disk \<Rightarrow> bool" where
  "session_reserved b d \<longleftrightarrow> descriptor b = Locked \<and> started b \<noteq> None \<and>
     ledger_file d = Saved (ledger b) \<and>
     (\<exists>a e. active (ledger b) = Some a \<and> active_identifier a = budget_identifier b \<and>
        reserved_seconds a = allowance b \<and>
        experiment_of (ledger b) (budget_identifier b) = Some e \<and>
        allowance b = left_for (ledger b) e)"

definition world_valid :: "proof_world \<Rightarrow> bool" where
  "world_valid w \<longleftrightarrow> disk_valid (world_disk w) \<and>
     (lock_taken (world_disk w) \<longleftrightarrow> running w \<noteq> None) \<and>
     (case running w of None \<Rightarrow> True | Some b \<Rightarrow> session_reserved b (world_disk w))"

text \<open>No more is charged than the limits allow, even if the open reservation is lost.\<close>

definition ledger_bounded :: "budget_ledger \<Rightarrow> bool" where
  "ledger_bounded l \<longleftrightarrow>
     consumed_seconds l \<le> maximum_total_seconds \<and>
     (\<forall>e \<in> set (experiments l). experiment_consumed e \<le> maximum_experiment_seconds) \<and>
     (case active l of None \<Rightarrow> True
      | Some a \<Rightarrow> consumed_seconds l + reserved_seconds a \<le> maximum_total_seconds \<and>
          (\<forall>e \<in> set (experiments l). experiment_identifier e = active_identifier a \<longrightarrow>
             experiment_consumed e + reserved_seconds a \<le> maximum_experiment_seconds))"

definition disk_bounded :: "proof_disk \<Rightarrow> bool" where
  "disk_bounded d \<longleftrightarrow> (case ledger_file d of Saved l \<Rightarrow> ledger_bounded l | _ \<Rightarrow> True)"

section \<open>The parts of entering\<close>

definition stored_ledger :: "proof_disk \<Rightarrow> budget_ledger" where
  "stored_ledger d = (case ledger_file d of Saved l \<Rightarrow> l | _ \<Rightarrow> empty_ledger)"

definition reconciled :: "budget_ledger \<Rightarrow> budget_ledger" where
  "reconciled l = (case active l of None \<Rightarrow> l
     | Some a \<Rightarrow> charge (active_identifier a) (reserved_seconds a) l)"

definition registered :: "string \<Rightarrow> budget_ledger \<Rightarrow> budget_ledger" where
  "registered i l = (if experiment_of l i \<noteq> None then l
     else l\<lparr>experiments := experiments l @ [\<lparr>experiment_identifier = i, experiment_consumed = 0\<rparr>]\<rparr>)"

lemma empty_ledger_valid [simp]: "ledger_valid empty_ledger"
  by (simp add: ledger_valid_def empty_ledger_def total_consumed_def)

lemma reconciled_valid: "ledger_valid l \<Longrightarrow> ledger_valid (reconciled l)"
proof (cases "active l")
  case (Some a)
  assume v: "ledger_valid l"
  with Some have "0 \<le> reserved_seconds a" and "experiment_of l (active_identifier a) \<noteq> None"
    by (simp_all add: ledger_valid_def active_valid_def experiment_of_None)
  with charge_valid [OF v this(1)] Some show ?thesis by (simp add: reconciled_def)
qed (simp add: reconciled_def)

lemma reconciled_active [simp]: "active (reconciled l) = None"
  by (auto simp: reconciled_def split: option.splits)

lemma reconciled_consumed: "ledger_valid l \<Longrightarrow> consumed_seconds l \<le> consumed_seconds (reconciled l)"
  by (auto simp: reconciled_def ledger_valid_def active_valid_def split: option.splits)

lemma registered_fields [simp]:
  "consumed_seconds (registered i l) = consumed_seconds l" "active (registered i l) = active l"
  "experiment_of (registered i l) i \<noteq> None"
  by (auto simp: registered_def experiment_of_def find_None_iff)

lemma registered_valid:
  assumes "ledger_valid l" and "experiment_pattern i" and "experiment_of l i = None \<longrightarrow> length (experiments l) < 2"
  shows "ledger_valid (registered i l)"
  using assms
  by (auto simp: registered_def ledger_valid_def experiment_of_None total_consumed_def
      experiment_valid_def split: option.splits)

lemma load_ledger_effect:
  assumes "load_ledger (b, d) = (s, r)" and "disk_valid d" and "ledger b = empty_ledger"
  shows "case r of Inl e \<Rightarrow> s = (b, d) | Inr u \<Rightarrow> s = (b\<lparr>ledger := stored_ledger d\<rparr>, d)"
  using assms
  by (auto simp: load_ledger_def stored_ledger_def disk_valid_def split: ledger_entry.splits if_splits)

lemma reconcile_effect:
  assumes "reconcile env (b, d) = ((b', d'), r)"
  shows "(b' = b \<or> b' = b\<lparr>ledger := reconciled (ledger b)\<rparr>) \<and> lock_taken d' = lock_taken d \<and>
    (ledger_file d' = ledger_file d \<or>
     ledger_file d' = Saved (reconciled (ledger b)) \<and> ledger_valid (reconciled (ledger b))) \<and>
    (r = Inr u \<longrightarrow> b' = b\<lparr>ledger := reconciled (ledger b)\<rparr>)"
proof (cases "active (ledger b)")
  case None
  with assms show ?thesis by (auto simp: reconcile_def reconciled_def)
next
  case (Some a)
  define b1 where "b1 = b\<lparr>ledger := reconciled (ledger b)\<rparr>"
  from assms Some show ?thesis
  proof (cases "experiment_of (ledger b) (active_identifier a)")
    case None
    with assms Some show ?thesis by (auto simp: reconcile_def)
  next
    case (Some e)
    with assms \<open>active (ledger b) = Some a\<close>
    have "persist (writes env 0) (writes env 1) (b1, d) = ((b', d'), r)"
      by (simp add: reconcile_def b1_def reconciled_def)
    from persist_effect [OF this] show ?thesis by (auto simp: b1_def)
  qed
qed

lemma register_effect:
  assumes "register env (b, d) = ((b', d'), r)"
  shows "d' = d \<and> (b' = b \<or> b' = b\<lparr>ledger := registered (budget_identifier b) (ledger b)\<rparr>) \<and>
    (r = Inr u \<longrightarrow> b' = b\<lparr>ledger := registered (budget_identifier b) (ledger b)\<rparr> \<and>
      (experiment_of (ledger b) (budget_identifier b) = None \<longrightarrow> length (experiments (ledger b)) < 2))"
proof -
  have ex: "list_ex (\<lambda>e. experiment_identifier e = budget_identifier b) (experiments (ledger b))
      \<longleftrightarrow> experiment_of (ledger b) (budget_identifier b) \<noteq> None"
    by (force simp: list_ex_iff experiment_of_None)
  from assms show ?thesis
    by (auto simp: register_def Let_def ex registered_def act_bind_def maximum_experiments_def
        split: if_splits sum.splits)
qed

lemma reserve_effect:
  assumes "reserve env (b, d) = ((b', d'), r)"
  shows "lock_taken d' = lock_taken d \<and> descriptor b' = descriptor b \<and>
    (ledger_file d' = ledger_file d \<or>
     (\<exists>e a. experiment_of (ledger b) (budget_identifier b) = Some e \<and> 0 < left_for (ledger b) e \<and>
        a = \<lparr>active_identifier = budget_identifier b, started_at = wall_now env,
             reserved_seconds = left_for (ledger b) e\<rparr> \<and>
        ledger_file d' = Saved ((ledger b)\<lparr>active := Some a\<rparr>) \<and> ledger_valid ((ledger b)\<lparr>active := Some a\<rparr>))) \<and>
    (r = Inr u \<longrightarrow> (\<exists>e a. experiment_of (ledger b) (budget_identifier b) = Some e \<and> 0 < left_for (ledger b) e \<and>
        a = \<lparr>active_identifier = budget_identifier b, started_at = wall_now env,
             reserved_seconds = left_for (ledger b) e\<rparr> \<and>
        b' = b\<lparr>allowance := left_for (ledger b) e, ledger := (ledger b)\<lparr>active := Some a\<rparr>\<rparr> \<and>
        ledger_file d' = Saved (ledger b') \<and> ledger_valid (ledger b')))"
proof (cases "experiment_of (ledger b) (budget_identifier b)")
  case None
  with assms show ?thesis by (auto simp: reserve_def)
next
  case (Some e)
  show ?thesis
  proof (cases "left_for (ledger b) e \<le> 0")
    case True
    with Some assms show ?thesis by (auto simp: reserve_def Let_def)
  next
    case False
    define a where "a = \<lparr>active_identifier = budget_identifier b, started_at = wall_now env,
             reserved_seconds = left_for (ledger b) e\<rparr>"
    define b1 where "b1 = b\<lparr>allowance := left_for (ledger b) e, ledger := (ledger b)\<lparr>active := Some a\<rparr>\<rparr>"
    from Some False assms have p: "persist (writes env 2) (writes env 3) (b1, d) = ((b', d'), r)"
      by (simp add: reserve_def Let_def b1_def a_def)
    have "ledger b1 = (ledger b)\<lparr>active := Some a\<rparr>" "descriptor b1 = descriptor b"
      by (simp_all add: b1_def)
    with persist_effect [OF p] persist_Inr [of "writes env 2" "writes env 3" b1 d b' d' u] p Some False
    show ?thesis unfolding a_def [symmetric] by (auto simp: b1_def a_def [symmetric])
  qed
qed

text \<open>
  Entering as a whole. A refusal leaves the stored record or puts the reconciled one, or one
  with a reservation, in its place; success leaves the reservation on disk.
\<close>

definition reserved_ledger :: "budget_environment \<Rightarrow> string \<Rightarrow> budget_ledger \<Rightarrow> budget_ledger \<Rightarrow> bool" where
  "reserved_ledger env i l0 l \<longleftrightarrow>
     (\<exists>e. experiment_of (registered i (reconciled l0)) i = Some e \<and>
        0 < left_for (registered i (reconciled l0)) e \<and> ledger_valid l \<and>
        l = (registered i (reconciled l0))\<lparr>active := Some
              \<lparr>active_identifier = i, started_at = wall_now env,
               reserved_seconds = left_for (registered i (reconciled l0)) e\<rparr>\<rparr>)"

lemma release_simps [simp]:
  "ledger_file (snd (release (b, d))) = ledger_file d"
  "lock_taken (snd (release (b, d))) \<longleftrightarrow> lock_taken d \<and> descriptor b \<noteq> Locked"
  by (simp_all add: release_def)

lemma acquire_effect:
  assumes "acquire env (new_budget i resumed, d) = ((b', d'), r)"
  shows "(\<exists>e. r = Inl e) \<and> d' = d \<and> descriptor b' \<noteq> Locked \<or>
    r = Inr u \<and> \<not> lock_taken d \<and> experiment_pattern i \<and> d' = d\<lparr>lock_taken := True\<rparr> \<and>
    b' = (new_budget i resumed)\<lparr>descriptor := Locked, started := Some (monotonic_now env)\<rparr>"
  using assms by (auto simp: acquire_def new_budget_def split: if_splits)

lemma reserved_valid_step:
  assumes "experiment_of (registered i l1) i = Some e" and "active l1 = None"
    and "ledger_valid ((registered i l1)\<lparr>active := Some a\<rparr>)"
  shows "experiment_of ((registered i l1)\<lparr>active := Some a\<rparr>) i = Some e"
    and "left_for ((registered i l1)\<lparr>active := Some a\<rparr>) e = left_for (registered i l1) e"
  using assms by (simp_all add: experiment_of_def left_for_def)

lemma enter_parts:
  assumes rest: "act_bind load_ledger (\<lambda>_. act_bind (reconcile env)
        (\<lambda>_. act_bind (register env) (\<lambda>_. reserve env))) (b, d) = ((bt, dt), rt)"
    and b: "budget_identifier b = i" "ledger b = empty_ledger" "descriptor b = Locked"
      "started b = Some t"
    and d: "disk_valid d" "lock_taken d" and pat: "experiment_pattern i"
  shows "descriptor bt = Locked \<and> lock_taken dt \<and>
    (ledger_file dt = ledger_file d \<or>
     (\<exists>l. ledger_file dt = Saved l \<and>
        (l = reconciled (stored_ledger d) \<and> ledger_valid l \<or> reserved_ledger env i (stored_ledger d) l))) \<and>
    (\<forall>u. rt = Inr u \<longrightarrow> session_reserved bt dt \<and> budget_identifier bt = i \<and> started bt = Some t \<and>
       reserved_ledger env i (stored_ledger d) (ledger bt))"
proof -
  define l0 where "l0 = stored_ledger d"
  obtain s1 r1 where 1: "load_ledger (b, d) = (s1, r1)" by fastforce
  note load = load_ledger_effect [OF 1 d(1) b(2)]
  show ?thesis
  proof (cases r1)
    case (Inl e)
    with 1 load rest b d show ?thesis by auto
  next
    case (Inr u1)
    define b1 where "b1 = b\<lparr>ledger := l0\<rparr>"
    have s1: "s1 = (b1, d)" using load Inr by (simp add: b1_def l0_def)
    obtain b2 d2 r2 where 2: "reconcile env (b1, d) = ((b2, d2), r2)" by (metis prod.exhaust)
    note rec = reconcile_effect [OF 2]
    show ?thesis
    proof (cases r2)
      case (Inl e)
      with 1 2 s1 \<open>r1 = Inr u1\<close> rest have "bt = b2" "dt = d2" "rt = Inl e" by auto
      with rec b d show ?thesis by (auto simp: b1_def l0_def [symmetric])
    next
      case (Inr u2)
      define b3 where "b3 = b\<lparr>ledger := registered i (reconciled l0)\<rparr>"
      have b2: "b2 = b\<lparr>ledger := reconciled l0\<rparr>" using rec Inr by (simp add: b1_def)
      have d2: "lock_taken d2" "ledger_file d2 = ledger_file d \<or>
          ledger_file d2 = Saved (reconciled l0) \<and> ledger_valid (reconciled l0)"
        using rec d by (auto simp: b1_def)
      obtain b3' d3 r3 where 3: "register env (b2, d2) = ((b3', d3), r3)" by (metis prod.exhaust)
      note reg = register_effect [OF 3]
      show ?thesis
      proof (cases r3)
        case (Inl e)
        with 1 2 3 s1 \<open>r1 = Inr u1\<close> \<open>r2 = Inr u2\<close> rest have "bt = b3'" "dt = d3" "rt = Inl e" by auto
        with reg b2 d2 b show ?thesis by (auto simp: l0_def [symmetric])
      next
        case (Inr u3)
        have s3: "b3' = b3" "d3 = d2" using reg Inr b2 b by (simp_all add: b3_def)
        obtain b4 d4 r4 where 4: "reserve env (b3, d2) = ((b4, d4), r4)" by (metis prod.exhaust)
        with 1 2 3 s1 s3 \<open>r1 = Inr u1\<close> \<open>r2 = Inr u2\<close> Inr rest
        have t: "bt = b4" "dt = d4" "rt = r4" by auto
        have b3: "ledger b3 = registered i (reconciled l0)" "budget_identifier b3 = i"
            "descriptor b3 = Locked" "started b3 = Some t"
          using b by (simp_all add: b3_def)
        note res = reserve_effect [OF 4, unfolded b3]
        have "ledger_file d4 = ledger_file d \<or> (\<exists>l. ledger_file d4 = Saved l \<and>
            (l = reconciled l0 \<and> ledger_valid l \<or> reserved_ledger env i l0 l))"
        proof (cases "ledger_file d4 = ledger_file d2")
          case True
          with d2(2) show ?thesis by auto
        next
          case False
          with res have "\<exists>l. ledger_file d4 = Saved l \<and> reserved_ledger env i l0 l"
            unfolding reserved_ledger_def by metis
          then show ?thesis by blast
        qed
        moreover have "descriptor b4 = Locked" "lock_taken d4" using res d2(1) by simp_all
        moreover have "session_reserved b4 d4 \<and> budget_identifier b4 = i \<and> started b4 = Some t \<and>
            reserved_ledger env i l0 (ledger b4)" if "r4 = Inr u" for u
        proof -
          from res that obtain e a where
            e: "experiment_of (registered i (reconciled l0)) i = Some e" "0 < left_for (registered i (reconciled l0)) e"
            and a: "a = \<lparr>active_identifier = i, started_at = wall_now env,
                reserved_seconds = left_for (registered i (reconciled l0)) e\<rparr>"
            and b4: "b4 = b3\<lparr>allowance := left_for (registered i (reconciled l0)) e,
                ledger := (registered i (reconciled l0))\<lparr>active := Some a\<rparr>\<rparr>"
            and f: "ledger_file d4 = Saved (ledger b4)" "ledger_valid (ledger b4)"
            by blast
          then have "reserved_ledger env i l0 (ledger b4)" by (auto simp: reserved_ledger_def)
          moreover have "session_reserved b4 d4"
            unfolding session_reserved_def using e a b4 b3 f
            by (simp add: experiment_of_def left_for_def)
          ultimately show ?thesis using b4 b3 by simp
        qed
        ultimately show ?thesis unfolding t l0_def by blast
      qed
    qed
  qed
qed

lemma enter_effect:
  assumes "enter env (new_budget i resumed, d) = ((b', d'), r)" and "disk_valid d"
  shows "(lock_taken d' \<longleftrightarrow> lock_taken d \<or> (\<exists>u. r = Inr u)) \<and>
    (ledger_file d' = ledger_file d \<or>
     (\<exists>l. ledger_file d' = Saved l \<and> \<not> lock_taken d \<and>
        (l = reconciled (stored_ledger d) \<and> ledger_valid l \<or> reserved_ledger env i (stored_ledger d) l))) \<and>
    (\<forall>u. r = Inr u \<longrightarrow> \<not> lock_taken d \<and> session_reserved b' d' \<and> budget_identifier b' = i \<and>
       started b' = Some (monotonic_now env) \<and>
       reserved_ledger env i (stored_ledger d) (ledger b'))"
proof -
  define B where "B = (new_budget i resumed)\<lparr>descriptor := Locked, started := Some (monotonic_now env)\<rparr>"
  define D where "D = d\<lparr>lock_taken := True\<rparr>"
  have B: "budget_identifier B = i" "ledger B = empty_ledger" "descriptor B = Locked"
      "started B = Some (monotonic_now env)"
    by (simp_all add: B_def new_budget_def)
  have D: "ledger_file D = ledger_file d" "lock_taken D" "disk_valid D" "stored_ledger D = stored_ledger d"
    using assms(2) by (simp_all add: D_def disk_valid_def stored_ledger_def)
  obtain s0 r0 where a: "acquire env (new_budget i resumed, d) = (s0, r0)" by fastforce
  show ?thesis
  proof (cases r0)
    case (Inl e)
    with a acquire_effect [of env i resumed d "fst s0" "snd s0" r0]
    have "snd s0 = d" "descriptor (fst s0) \<noteq> Locked" by auto
    moreover from assms(1) a Inl have "(b', d') = release s0" and "\<exists>e. r = Inl e"
      by (auto simp: enter_def)
    ultimately show ?thesis by (cases s0) (auto simp: release_def)
  next
    case (Inr u0)
    with a acquire_effect [of env i resumed d "fst s0" "snd s0" r0]
    have s0: "s0 = (B, D)" and free: "\<not> lock_taken d" and pat: "experiment_pattern i"
      by (auto simp: B_def D_def prod_eq_iff)
    let ?rest = "act_bind load_ledger (\<lambda>_. act_bind (reconcile env)
        (\<lambda>_. act_bind (register env) (\<lambda>_. reserve env)))"
    obtain bt dt rt where rest: "?rest (B, D) = ((bt, dt), rt)" by (metis prod.exhaust)
    note parts = enter_parts [OF rest B D(3,2) pat, unfolded D]
    from assms(1) a s0 Inr rest
    have out: "(b', d', r) = (case rt of Inr u \<Rightarrow> (bt, dt, Inr u)
        | Inl e \<Rightarrow> (fst (release (bt, dt)), snd (release (bt, dt)),
            Inl (if is_application_failure e then e else budget_failure)))"
      by (auto simp: enter_def split: sum.splits)
    from parts out free show ?thesis by (cases rt) auto
  qed
qed

section \<open>Bounds\<close>

lemmas limits = maximum_total_seconds_def maximum_experiment_seconds_def

lemma charge_first_consumed:
  "e \<in> set (charge_first i t es) \<Longrightarrow> distinct (map experiment_identifier es) \<Longrightarrow>
   (e \<in> set es \<or> (\<exists>e0 \<in> set es. experiment_identifier e0 = i \<and>
       experiment_consumed e = experiment_consumed e0 + t))"
  by (induction es) (auto split: if_splits)

lemma reconciled_bounded:
  assumes "ledger_valid l" and "ledger_bounded l"
  shows "ledger_bounded (reconciled l)"
proof (cases "active l")
  case (Some a)
  have d: "distinct (map experiment_identifier (experiments l))" using assms(1) by (simp add: ledger_valid_def)
  have "experiment_consumed e \<le> maximum_experiment_seconds"
    if "e \<in> set (charge_first (active_identifier a) (reserved_seconds a) (experiments l))" for e
    using charge_first_consumed [OF that d] assms(2) Some by (auto simp: ledger_bounded_def)
  with assms(2) Some show ?thesis by (simp add: reconciled_def ledger_bounded_def charge_def)
qed (use assms in \<open>simp add: reconciled_def\<close>)

lemma experiment_of_unique:
  assumes "ledger_valid l" and "experiment_of l i = Some e" and "x \<in> set (experiments l)"
    and "experiment_identifier x = i"
  shows "x = e"
  using assms experiment_of_Some [OF assms(2)]
  by (auto simp: ledger_valid_def distinct_map inj_on_def)

lemma reserved_bounded:
  assumes "reserved_ledger env i l0 l" and "ledger_bounded (reconciled l0)"
  shows "ledger_bounded l"
proof -
  from assms(1) obtain e where e: "experiment_of (registered i (reconciled l0)) i = Some e"
    and v: "ledger_valid l" and l: "l = (registered i (reconciled l0))\<lparr>active := Some
              \<lparr>active_identifier = i, started_at = wall_now env,
               reserved_seconds = left_for (registered i (reconciled l0)) e\<rparr>\<rparr>"
    by (auto simp: reserved_ledger_def)
  have e': "experiment_of l i = Some e" using e l by (simp add: experiment_of_def)
  have "experiment_consumed x \<le> maximum_experiment_seconds" if "x \<in> set (experiments l)" for x
    using that assms(2) l by (auto simp: ledger_bounded_def registered_def limits split: if_splits)
  moreover have "consumed_seconds l = consumed_seconds (reconciled l0)" using l by simp
  moreover have "active l = Some \<lparr>active_identifier = i, started_at = wall_now env,
      reserved_seconds = left_for l e\<rparr>" using l by (simp add: left_for_def)
  moreover have "experiment_consumed x + left_for l e \<le> maximum_experiment_seconds"
    if "x \<in> set (experiments l)" "experiment_identifier x = i" for x
    using experiment_of_unique [OF v e' that] by (simp add: left_for_def)
  moreover have "consumed_seconds l + left_for l e \<le> maximum_total_seconds"
    by (simp add: left_for_def)
  ultimately show ?thesis using assms(2) by (simp add: ledger_bounded_def)
qed

lemma reserved_consumed: "reserved_ledger env i l0 l \<Longrightarrow> consumed_seconds l = consumed_seconds (reconciled l0)"
  by (auto simp: reserved_ledger_def)

lemma stored_ledger_valid: "disk_valid d \<Longrightarrow> ledger_valid (stored_ledger d)"
  by (auto simp: disk_valid_def stored_ledger_def split: ledger_entry.splits)

lemma stored_ledger_bounded: "disk_bounded d \<Longrightarrow> ledger_bounded (stored_ledger d)"
  by (auto simp: disk_bounded_def stored_ledger_def ledger_bounded_def empty_ledger_def limits
      split: ledger_entry.splits)

lemma charged_stored: "disk_valid d \<Longrightarrow> charged d = consumed_seconds (stored_ledger d)"
  by (auto simp: disk_valid_def charged_def stored_ledger_def empty_ledger_def split: ledger_entry.splits)

section \<open>Every step keeps the accounts\<close>

lemma enter_accounts:
  assumes "enter env (new_budget i resumed, d) = ((b', d'), r)" and v: "disk_valid d"
  shows "disk_valid d' \<and> charged d \<le> charged d' \<and> (disk_bounded d \<longrightarrow> disk_bounded d')"
proof -
  note e = enter_effect [OF assms]
  note sv = stored_ledger_valid [OF v]
  show ?thesis
  proof (cases "ledger_file d' = ledger_file d")
    case True
    then show ?thesis using v by (simp add: disk_valid_def charged_def disk_bounded_def)
  next
    case False
    with e obtain l where f: "ledger_file d' = Saved l" and
      l: "l = reconciled (stored_ledger d) \<and> ledger_valid l \<or> reserved_ledger env i (stored_ledger d) l"
      by blast
    have "ledger_valid l" using l unfolding reserved_ledger_def by (elim disjE exE conjE)
    moreover have "consumed_seconds l = consumed_seconds (reconciled (stored_ledger d))"
      using l reserved_consumed by (elim disjE) simp_all
    moreover have "ledger_bounded l" if "disk_bounded d"
      using l reserved_bounded reconciled_bounded [OF sv stored_ledger_bounded [OF that]] by blast
    ultimately show ?thesis
      using f charged_stored [OF v] reconciled_consumed [OF sv]
      by (simp add: disk_valid_def charged_def disk_bounded_def)
  qed
qed

lemma exit_effect:
  assumes "exit_budget env (b, d) = ((b', d'), r)" and "session_reserved b d"
  shows "\<not> lock_taken d' \<and> (ledger_file d' = ledger_file d \<or>
    ledger_file d' = Saved (charge (budget_identifier b) (elapsed_seconds (monotonic_now env) b) (ledger b)) \<and>
    ledger_valid (charge (budget_identifier b) (elapsed_seconds (monotonic_now env) b) (ledger b)))"
proof -
  from assms(2) obtain e where e: "experiment_of (ledger b) (budget_identifier b) = Some e"
    and k: "descriptor b = Locked" by (auto simp: session_reserved_def)
  define b1 where "b1 = b\<lparr>ledger := charge (budget_identifier b) (elapsed_seconds (monotonic_now env) b) (ledger b)\<rparr>"
  obtain b2 d2 q where p: "persist (writes env 0) (writes env 1) (b1, d) = ((b2, d2), q)"
    by (metis prod.exhaust)
  with assms(1) e have "lock_taken d' = (lock_taken d2 \<and> descriptor b2 \<noteq> Locked)"
      "ledger_file d' = ledger_file d2"
    by (auto simp: exit_budget_def Let_def b1_def release_def)
  with persist_effect [OF p] k show ?thesis by (auto simp: b1_def)
qed

lemma exit_bounded:
  assumes s: "session_reserved b d" and bd: "disk_bounded d" and v: "ledger_valid (ledger b)"
    and t: "0 \<le> t" "t \<le> allowance b"
  shows "ledger_bounded (charge (budget_identifier b) t (ledger b))"
proof -
  from s obtain a e where a: "active (ledger b) = Some a" "active_identifier a = budget_identifier b"
    "reserved_seconds a = allowance b" and f: "ledger_file d = Saved (ledger b)"
    by (auto simp: session_reserved_def)
  have lb: "ledger_bounded (ledger b)" using bd f by (simp add: disk_bounded_def)
  have dn: "distinct (map experiment_identifier (experiments (ledger b)))"
    using v by (simp add: ledger_valid_def)
  have "experiment_consumed x \<le> maximum_experiment_seconds"
    if "x \<in> set (charge_first (budget_identifier b) t (experiments (ledger b)))" for x
    using charge_first_consumed [OF that dn] lb a t by (fastforce simp: ledger_bounded_def)
  moreover have "consumed_seconds (ledger b) + t \<le> maximum_total_seconds"
    using lb a t by (auto simp: ledger_bounded_def)
  ultimately show ?thesis by (simp add: ledger_bounded_def charge_def)
qed

lemma elapsed_nonneg: "started b \<noteq> None \<Longrightarrow> 0 \<le> elapsed_seconds now b"
  by (auto simp: elapsed_seconds_def)

lemma session_charged:
  "session_reserved b d \<Longrightarrow> charged d = consumed_seconds (ledger b)"
  by (auto simp: session_reserved_def charged_def)

lemma proof_step_accounts:
  assumes "proof_step punctual w w'" and "world_valid w"
  shows "world_valid w' \<and> charged (world_disk w) \<le> charged (world_disk w') \<and>
    (punctual \<longrightarrow> disk_bounded (world_disk w) \<longrightarrow> disk_bounded (world_disk w'))"
  using assms
proof (cases rule: proof_step.cases)
  case (started env i resumed b d u)
  with assms(2) have v: "disk_valid (world_disk w)" by (simp add: world_valid_def)
  from enter_effect [OF started(2) v] enter_accounts [OF started(2) v] started(1) show ?thesis
    by (auto simp: world_valid_def)
next
  case (refused env i resumed b d e)
  with assms(2) have v: "disk_valid (world_disk w)" by (simp add: world_valid_def)
  from enter_effect [OF refused(2) v] enter_accounts [OF refused(2) v] assms(2) show ?thesis
    unfolding refused(1)
    by (auto simp: world_valid_def session_reserved_def split: option.splits)
next
  case (finished b env b' d r)
  with assms(2) have s: "session_reserved b (world_disk w)" and v: "disk_valid (world_disk w)"
    by (simp_all add: world_valid_def)
  then have lv: "ledger_valid (ledger b)" and st: "started b \<noteq> None"
    by (auto simp: session_reserved_def disk_valid_def)
  note x = exit_effect [OF finished(4) s] and nn = elapsed_nonneg [OF st, of "monotonic_now env"]
  have "disk_valid d \<and> charged (world_disk w) \<le> charged d"
    using x v session_charged [OF s] nn by (auto simp: disk_valid_def charged_def)
  moreover have "disk_bounded d" if p: punctual and bd: "disk_bounded (world_disk w)"
    using x exit_bounded [OF s bd lv nn] finished(3) p bd by (auto simp: disk_bounded_def)
  ultimately show ?thesis using x finished(1) by (simp add: world_valid_def)
next
  case (died b)
  with assms(2) show ?thesis
    by (simp add: world_valid_def disk_valid_def charged_def disk_bounded_def)
qed

interpretation accounts: metered_system "proof_step p" world_valid "\<lambda>w. charged (world_disk w)"
  by unfold_locales (auto dest: proof_step_accounts)

interpretation bounded: guarded_system "proof_step True" "\<lambda>w. world_valid w \<and> disk_bounded (world_disk w)"
  by unfold_locales (auto dest: proof_step_accounts)

lemma empty_world_valid: "world_valid empty_world" "disk_bounded (world_disk empty_world)"
  by (simp_all add: world_valid_def empty_world_def disk_valid_def disk_bounded_def)

lemma run_valid: "(proof_step p)\<^sup>*\<^sup>* empty_world w \<Longrightarrow> world_valid w"
  using accounts.run_keeps empty_world_valid(1) by blast

section \<open>Spent experiments\<close>

text \<open>An experiment with nothing left, or whose open reservation is everything that is left.\<close>

definition spent :: "string \<Rightarrow> budget_ledger \<Rightarrow> bool" where
  "spent i l \<longleftrightarrow> (\<exists>e. experiment_of l i = Some e \<and>
     (left_for l e \<le> 0 \<or> (\<exists>a. active l = Some a \<and> active_identifier a = i \<and> left_for l e \<le> reserved_seconds a)))"

definition spent_in :: "string \<Rightarrow> proof_world \<Rightarrow> bool" where
  "spent_in i w \<longleftrightarrow> spent i (stored_ledger (world_disk w)) \<and> (\<forall>b. running w = Some b \<longrightarrow> budget_identifier b \<noteq> i)"

text \<open>The system ends the running operation and releases its lock.\<close>

definition after_death :: "proof_world \<Rightarrow> proof_world" where
  "after_death w = \<lparr>world_disk = (world_disk w)\<lparr>lock_taken := False\<rparr>, running = None\<rparr>"

lemma charge_leaves_spent:
  assumes "experiment_of l i = Some e" and "left_for l e \<le> 0" and "0 \<le> t"
  shows "\<exists>e'. experiment_of (charge j t l) i = Some e' \<and> left_for (charge j t l) e' \<le> 0"
proof (cases "j = i")
  case True
  with charge_experiment [OF assms(1), of t] assms(2,3) show ?thesis by (auto simp: left_for_def)
next
  case False
  with charge_experiment_other [OF False, of t l] assms show ?thesis by (auto simp: left_for_def)
qed

lemma reconciled_spent:
  assumes "spent i l" and "ledger_valid l"
  shows "\<exists>e. experiment_of (reconciled l) i = Some e \<and> left_for (reconciled l) e \<le> 0"
proof -
  from assms(1) obtain e where e: "experiment_of l i = Some e"
    and left: "left_for l e \<le> 0 \<or> (\<exists>a. active l = Some a \<and> active_identifier a = i \<and> left_for l e \<le> reserved_seconds a)"
    unfolding spent_def by blast
  show ?thesis
  proof (cases "active l")
    case None
    with e left show ?thesis by (simp add: reconciled_def)
  next
    case (Some a)
    then have pos: "0 \<le> reserved_seconds a" using assms(2) by (simp add: ledger_valid_def active_valid_def)
    show ?thesis
    proof (cases "left_for l e \<le> 0")
      case True
      from charge_leaves_spent [OF e True pos] Some show ?thesis by (simp add: reconciled_def)
    next
      case False
      with left Some have "active_identifier a = i" "left_for l e \<le> reserved_seconds a" by auto
      with charge_experiment [OF e, of "reserved_seconds a"] Some show ?thesis by (auto simp: reconciled_def left_for_def)
    qed
  qed
qed

lemma find_grown: "List.find P xs = Some x \<Longrightarrow> List.find P (xs @ ys) = Some x"
  by (induction xs) auto

lemma reserved_spent:
  assumes "reserved_ledger env j l0 l" and "spent i l0" and "ledger_valid l0"
  shows "j \<noteq> i" and "spent i l"
proof -
  from reconciled_spent [OF assms(2,3)] obtain e where e: "experiment_of (reconciled l0) i = Some e" "left_for (reconciled l0) e \<le> 0"
    by blast
  then have same: "registered i (reconciled l0) = reconciled l0" by (simp add: registered_def)
  show other: "j \<noteq> i"
  proof
    assume "j = i"
    with assms(1) same e show False by (auto simp: reserved_ledger_def)
  qed
  have "experiment_of (registered j (reconciled l0)) i = Some e" using e(1) find_grown by (auto simp: registered_def experiment_of_def)
  moreover have "left_for (registered j (reconciled l0)) e \<le> 0" using e(2) by (simp add: left_for_def)
  ultimately show "spent i l"
    using assms(1) by (auto simp: reserved_ledger_def spent_def experiment_of_def left_for_def)
qed

lemma spent_refused:
  assumes "enter env (new_budget i resumed, d) = ((b', d'), Inr u)" and "spent i (stored_ledger d)" and "disk_valid d"
  shows False
proof -
  from enter_effect [OF assms(1,3)] have "reserved_ledger env i (stored_ledger d) (ledger b')" by blast
  from reserved_spent(1) [OF this assms(2) stored_ledger_valid [OF assms(3)]] show False by simp
qed

lemma enter_keeps_spent:
  assumes "enter env (new_budget j resumed, d) = ((b', d'), r)" and "spent i (stored_ledger d)" and "disk_valid d"
  shows "spent i (stored_ledger d')"
proof (cases "ledger_file d' = ledger_file d")
  case True
  with assms(2) show ?thesis by (simp add: stored_ledger_def)
next
  case False
  note v = stored_ledger_valid [OF assms(3)]
  from enter_effect [OF assms(1,3)] False obtain l where f: "ledger_file d' = Saved l" and
    l: "l = reconciled (stored_ledger d) \<or> reserved_ledger env j (stored_ledger d) l" by blast
  have "spent i (reconciled (stored_ledger d))" using reconciled_spent [OF assms(2) v] by (auto simp: spent_def)
  with l reserved_spent(2) [OF _ assms(2) v] have "spent i l" by blast
  with f show ?thesis by (simp add: stored_ledger_def)
qed

lemma step_keeps_spent:
  assumes "proof_step punctual w w'" and "world_valid w" and "spent_in i w"
  shows "spent_in i w'"
  using assms(1)
proof (cases rule: proof_step.cases)
  case (started env j resumed b d u)
  have v: "disk_valid (world_disk w)" using assms(2) by (simp add: world_valid_def)
  have sp: "spent i (stored_ledger (world_disk w))" using assms(3) by (simp add: spent_in_def)
  have "reserved_ledger env j (stored_ledger (world_disk w)) (ledger b)" and id: "budget_identifier b = j"
    using enter_effect [OF started(2) v] by blast+
  from reserved_spent(1) [OF this(1) sp stored_ledger_valid [OF v]] enter_keeps_spent [OF started(2) sp v] started(1) id
  show ?thesis by (simp add: spent_in_def)
next
  case (refused env j resumed b d e)
  have v: "disk_valid (world_disk w)" using assms(2) by (simp add: world_valid_def)
  from enter_keeps_spent [OF refused(2) _ v] assms(3) refused(1) show ?thesis by (simp add: spent_in_def)
next
  case (finished b env b' d r)
  then have s: "session_reserved b (world_disk w)" and other: "budget_identifier b \<noteq> i"
    using assms(2,3) by (simp_all add: world_valid_def spent_in_def)
  let ?t = "elapsed_seconds (monotonic_now env) b"
  from s obtain a where a: "active (ledger b) = Some a" "active_identifier a = budget_identifier b" and st: "started b \<noteq> None"
    and l: "stored_ledger (world_disk w) = ledger b" by (auto simp: session_reserved_def stored_ledger_def)
  have "\<exists>e. experiment_of (ledger b) i = Some e \<and> left_for (ledger b) e \<le> 0"
    using assms(3) a other by (auto simp: spent_in_def l spent_def)
  then have "spent i (charge (budget_identifier b) ?t (ledger b))"
    using charge_leaves_spent [of "ledger b" i _ ?t "budget_identifier b"] elapsed_nonneg [OF st] by (auto simp: spent_def)
  moreover have "spent i (ledger b)" using assms(3) by (simp add: spent_in_def l)
  moreover have "stored_ledger d = ledger b \<or> stored_ledger d = charge (budget_identifier b) ?t (ledger b)"
    using exit_effect [OF finished(4) s] l by (auto simp: stored_ledger_def)
  ultimately show ?thesis using finished(1) by (auto simp: spent_in_def)
next
  case (died b)
  with assms(3) show ?thesis by (simp add: spent_in_def stored_ledger_def)
qed

lemma spent_for_good:
  assumes "(proof_step punctual)\<^sup>*\<^sup>* w w'" and "world_valid w" and "spent_in i w"
  shows "spent_in i w'"
  using assms
proof (induction rule: rtranclp_induct)
  case (step x y)
  show ?case
    by (rule step_keeps_spent [OF step.hyps(2) accounts.run_keeps [OF step.hyps(1) step.prems(1)] step.IH [OF step.prems]])
qed

lemma death_spends:
  assumes "world_valid w" and "running w = Some b"
  shows "spent_in (budget_identifier b) (after_death w)"
proof -
  have "session_reserved b (world_disk w)" using assms by (simp add: world_valid_def)
  then obtain a e where "active (ledger b) = Some a" "active_identifier a = budget_identifier b" "reserved_seconds a = allowance b"
    "experiment_of (ledger b) (budget_identifier b) = Some e" "allowance b = left_for (ledger b) e"
    and "ledger_file (world_disk w) = Saved (ledger b)" by (auto simp: session_reserved_def)
  then show ?thesis by (simp add: spent_in_def after_death_def stored_ledger_def spent_def)
qed

section \<open>A concrete run\<close>

definition roomy_write :: write_call where
  "roomy_write = \<lparr>usage_then = \<lparr>total_bytes = 1000000000000, free_bytes = 500000000000\<rparr>,
     data_bytes = 1000, fault = No_Fault\<rparr>"

definition quiet_environment :: "real \<Rightarrow> budget_environment" where
  "quiet_environment now = \<lparr>root_ready = True, monotonic_now = now, monotonic_end = now,
     wall_now = 100, checkpoint_directory = None, writes = (\<lambda>_. roomy_write)\<rparr>"

lemma roomy_write: "roomy_call roomy_write"
  by (simp add: roomy_call_def roomy_write_def require_space_def)

definition first_ledger :: budget_ledger where
  "first_ledger = \<lparr>consumed_seconds = 0,
     experiments = [\<lparr>experiment_identifier = ''p'', experiment_consumed = 0\<rparr>],
     active = Some \<lparr>active_identifier = ''p'', started_at = 100, reserved_seconds = 7200\<rparr>\<rparr>"

definition first_session :: proof_budget where
  "first_session = \<lparr>budget_identifier = ''p'', resume = False, ledger = first_ledger,
     descriptor = Locked, started = Some 0, allowance = 7200, finished_elapsed = 0\<rparr>"

definition first_world :: proof_world where
  "first_world = \<lparr>world_disk = \<lparr>ledger_file = Saved first_ledger, initialized = True, lock_taken = True\<rparr>,
     running = Some first_session\<rparr>"

lemma first_ledger_valid: "ledger_valid first_ledger"
  by (simp add: first_ledger_def ledger_valid_def experiment_valid_def experiment_pattern_def
      active_valid_def total_consumed_def char_class_defs)

lemma first_enter:
  "enter (quiet_environment 0) (new_budget ''p'' False, world_disk empty_world)
     = ((first_session, world_disk first_world), Inr ())"
proof -
  have p: "experiment_pattern ''p''" by (simp add: experiment_pattern_def char_class_defs)
  have "reserve (quiet_environment 0)
      (first_session\<lparr>allowance := 0, ledger := first_ledger\<lparr>active := None\<rparr>\<rparr>,
       \<lparr>ledger_file = No_Entry, initialized = False, lock_taken = True\<rparr>)
      = ((first_session, world_disk first_world), Inr ())"
    using persist_roomy [OF roomy_write roomy_write, of first_session] first_ledger_valid
    by (simp add: reserve_def Let_def first_session_def first_world_def first_ledger_def
        experiment_of_def left_for_def limits quiet_environment_def)
  moreover have "acquire (quiet_environment 0) (new_budget ''p'' False, world_disk empty_world)
      = ((first_session\<lparr>allowance := 0, ledger := empty_ledger\<rparr>,
          \<lparr>ledger_file = No_Entry, initialized = False, lock_taken = True\<rparr>), Inr ())" (is "_ = (?s1, _)")
    using p by (simp add: acquire_def empty_world_def new_budget_def quiet_environment_def first_session_def)
  moreover have "load_ledger ?s1 = (?s1, Inr ())" by (simp add: load_ledger_def)
  moreover have "reconcile (quiet_environment 0) ?s1 = (?s1, Inr ())"
    by (simp add: reconcile_def empty_ledger_def)
  moreover have "register (quiet_environment 0) ?s1
      = ((first_session\<lparr>allowance := 0, ledger := first_ledger\<lparr>active := None\<rparr>\<rparr>,
          \<lparr>ledger_file = No_Entry, initialized = False, lock_taken = True\<rparr>), Inr ())"
    by (simp add: register_def Let_def maximum_experiments_def empty_ledger_def first_session_def
        first_ledger_def)
  ultimately show ?thesis by (simp add: enter_def)
qed

lemma first_run: "(proof_step p)\<^sup>*\<^sup>* empty_world first_world"
proof -
  have "proof_step p empty_world first_world"
    using proof_step.started [OF first_enter] by (simp add: first_world_def)
  then show ?thesis by blast
qed

section \<open>Properties\<close>

text \<open>
  C8: the limits of the proof budget hold in every run. However operations start, are
  refused, end within their allowance, fail to save their accounts or die, at most two
  experiments exist, no experiment is charged more than 7200 seconds, all together are
  charged no more than 14400, and the open reservation is covered by what is left.
\<close>

theorem proof_budget_never_exceeded:
  assumes "(proof_step True)\<^sup>*\<^sup>* empty_world w"
  shows "charged (world_disk w) \<le> 14400 \<and>
    (\<forall>l. ledger_file (world_disk w) = Saved l \<longrightarrow>
       length (experiments l) \<le> 2 \<and>
       (\<forall>e \<in> set (experiments l). experiment_consumed e \<le> 7200) \<and>
       (\<forall>a. active l = Some a \<longrightarrow> consumed_seconds l + reserved_seconds a \<le> 14400))"
proof -
  have "world_valid w \<and> disk_bounded (world_disk w)"
    using bounded.run_keeps [OF assms] empty_world_valid by blast
  then show ?thesis
    by (auto simp: world_valid_def disk_valid_def disk_bounded_def ledger_valid_def ledger_bounded_def
        charged_def limits split: ledger_entry.splits)
qed

theorem proof_budget_never_exceeded_witness: "charged (world_disk first_world) \<le> 14400"
  using proof_budget_never_exceeded [OF first_run] by blast

text \<open>
  Charged time is never given back. From every reachable world, whatever happens next,
  the charged seconds only grow, also across crashes and failed writes.
\<close>

lemma charges_never_returned:
  assumes "(proof_step punctual)\<^sup>*\<^sup>* empty_world w" and "(proof_step punctual)\<^sup>*\<^sup>* w w'"
  shows "charged (world_disk w) \<le> charged (world_disk w')"
  using accounts.run_meters [OF assms(2) run_valid [OF assms(1)]] .

text \<open>
  C10: only one operation runs at a time. While an operation is running, every attempt to
  enter is refused, changes nothing on disk and does not take the lock away.
\<close>

theorem one_proof_operation_at_a_time:
  assumes "(proof_step punctual)\<^sup>*\<^sup>* empty_world w" and "running w = Some b"
    and "enter env (new_budget i resumed, world_disk w) = ((b', d'), r)"
  shows "(\<exists>e. r = Inl e) \<and> ledger_file d' = ledger_file (world_disk w) \<and> lock_taken d'"
proof -
  have w: "world_valid w" using assms(1) by (rule run_valid)
  with assms(2) have "lock_taken (world_disk w)" "disk_valid (world_disk w)"
    by (simp_all add: world_valid_def)
  with enter_effect [OF assms(3)] show ?thesis by (cases r) auto
qed

theorem one_proof_operation_at_a_time_witness:
  "\<exists>e. snd (enter (quiet_environment 5) (new_budget ''q'' False, world_disk first_world)) = Inl e"
proof -
  obtain b' d' r where e: "enter (quiet_environment 5) (new_budget ''q'' False, world_disk first_world)
      = ((b', d'), r)" by (metis prod.exhaust)
  with one_proof_operation_at_a_time [OF first_run [of True] _ e, of first_session]
  show ?thesis by (simp add: first_world_def)
qed

text \<open>
  C9: an operation that dies has spent its experiment. Its reservation was everything the
  experiment could still use, and it is charged in full before the next operation starts,
  whichever that is. So the same experiment can never be entered again, neither resumed nor
  retried, whatever happens in between: other experiments that enter, end or die, refused
  attempts and writes that fail.
\<close>

theorem crash_spends_experiment:
  assumes "(proof_step punctual)\<^sup>*\<^sup>* empty_world w" and "running w = Some b"
    and "(proof_step punctual)\<^sup>*\<^sup>* (after_death w) w'"
    and "enter env (new_budget (budget_identifier b) resumed, world_disk w') = (s, r)"
  shows "\<exists>e. r = Inl e"
proof (cases r)
  case (Inr u)
  have w: "world_valid w" using assms(1) by (rule run_valid)
  have "proof_step punctual w (after_death w)" unfolding after_death_def by (rule died [OF assms(2)])
  then have dead: "world_valid (after_death w)" using proof_step_accounts w by blast
  have "spent_in (budget_identifier b) w'"
    by (rule spent_for_good [OF assms(3) dead death_spends [OF w assms(2)]])
  moreover have "disk_valid (world_disk w')"
    using accounts.run_keeps [OF assms(3) dead] by (simp add: world_valid_def)
  ultimately show ?thesis
    using assms(4) Inr spent_refused [of env "budget_identifier b" resumed "world_disk w'" "fst s" "snd s" u] by (auto simp: spent_in_def)
qed blast

theorem crash_spends_experiment_witness:
  "\<exists>w'. proof_step True (after_death first_world) w' \<and>
     (\<exists>e. snd (enter (quiet_environment 9) (new_budget ''p'' True, world_disk w')) = Inl e)"
proof -
  obtain b' d' q where other: "enter (quiet_environment 5) (new_budget ''q'' False, world_disk (after_death first_world)) = ((b', d'), q)"
    by (metis prod.exhaust)
  then obtain w' where step: "proof_step True (after_death first_world) w'"
    using proof_step.started proof_step.refused by (cases q) blast+
  obtain s r where e: "enter (quiet_environment 9) (new_budget ''p'' True, world_disk w') = (s, r)" by fastforce
  have r: "running first_world = Some first_session" and i: "budget_identifier first_session = ''p''"
    by (simp_all add: first_world_def first_session_def)
  from crash_spends_experiment [OF first_run [of True] r r_into_rtranclp [of "proof_step True", OF step] e [folded i]] e step
  show ?thesis by auto
qed

text \<open>
  A clean exit is charged exactly. When the running operation leaves and the writes
  succeed, the experiment and the project are both charged the elapsed time, the
  reservation is gone, the lock is free and every other experiment keeps its account.
\<close>

lemma exit_charges_elapsed:
  assumes "(proof_step punctual)\<^sup>*\<^sup>* empty_world w" and "running w = Some b"
    and "roomy_call (writes env 0)" and "roomy_call (writes env 1)"
    and "exit_budget env (b, world_disk w) = ((b', d'), r)"
  shows "r = Inr () \<and> \<not> lock_taken d' \<and> descriptor b' = Closed \<and>
    (\<exists>l. ledger_file d' = Saved l \<and> active l = None \<and>
      consumed_seconds l = consumed_seconds (ledger b) + elapsed_seconds (monotonic_now env) b \<and>
      (\<forall>e. experiment_of (ledger b) (budget_identifier b) = Some e \<longrightarrow>
         experiment_of l (budget_identifier b)
           = Some (e\<lparr>experiment_consumed := experiment_consumed e + elapsed_seconds (monotonic_now env) b\<rparr>)) \<and>
      (\<forall>j. j \<noteq> budget_identifier b \<longrightarrow> experiment_of l j = experiment_of (ledger b) j))"
proof -
  let ?t = "elapsed_seconds (monotonic_now env) b" and ?i = "budget_identifier b"
  have w: "world_valid w" using assms(1) by (rule run_valid)
  with assms(2) have s: "session_reserved b (world_disk w)" and v: "ledger_valid (ledger b)"
    and nn: "0 \<le> ?t"
    by (auto simp: world_valid_def session_reserved_def disk_valid_def intro: elapsed_nonneg)
  then obtain e where e: "experiment_of (ledger b) ?i = Some e" and k: "descriptor b = Locked"
    by (auto simp: session_reserved_def)
  have "ledger_valid (charge ?i ?t (ledger b))" using charge_valid [OF v nn] e by simp
  with persist_roomy [OF assms(3,4), of "b\<lparr>ledger := charge ?i ?t (ledger b)\<rparr>" "world_disk w"]
  have "r = Inr ()" "\<not> lock_taken d'" "descriptor b' = Closed"
    "ledger_file d' = Saved (charge ?i ?t (ledger b))"
    using assms(5) e k by (auto simp: exit_budget_def Let_def release_def)
  then show ?thesis using charge_experiment [of "ledger b" ?i] charge_experiment_other by auto
qed

end
