(* ===== verification/PilotLedger.thy ===== *)
theory PilotLedger
  imports Files
begin

text \<open>
  The records of the pilot budget, \<^verbatim>\<open>schemas/pilot_budget.py\<close>: instance sessions, transfers
  between the four stages and the ledger with its validator. Times are real numbers of
  seconds, an idealisation of binary64. A stage outside the four is excluded by typing.
\<close>

section \<open>Sessions and transfers\<close>

datatype pilot_stage = Setup | Baseline | Ablation | Evaluation

definition all_stages :: "pilot_stage list" where
  "all_stages = [Setup, Baseline, Ablation, Evaluation]"

fun stage_seconds :: "pilot_stage \<Rightarrow> real" where
  "stage_seconds Setup = 7200"
| "stage_seconds Baseline = 50400"
| "stage_seconds Ablation = 14400"
| "stage_seconds Evaluation = 14400"

datatype record_kind = Observed | Attested

record pilot_session =
  session_identifier :: string
  instance_identifier :: string
  session_stage :: pilot_stage
  kind :: record_kind
  session_started :: real
  deadline_at :: real
  checkpoint_at :: real
  poweroff_at :: real
  last_observed_at :: real
  stopped_at :: "real option"
  stop_confirmation :: "string option"
  evidence :: "string option"

definition session_pattern :: "string \<Rightarrow> bool" where
  "session_pattern s \<longleftrightarrow>
     (case s of
        [] \<Rightarrow> False
      | c # cs \<Rightarrow> is_lower_char c \<and> length cs \<le> 63 \<and>
          list_all (\<lambda>d. is_lower_char d \<or> is_digit_char d \<or> d = CHR ''_'') cs)"

definition instance_pattern :: "string \<Rightarrow> bool" where
  "instance_pattern s \<longleftrightarrow> take 2 s = ''i-'' \<and> 8 \<le> length (drop 2 s) \<and> length (drop 2 s) \<le> 17 \<and>
     list_all is_hex_char (drop 2 s)"

definition optional_text :: "nat \<Rightarrow> string option \<Rightarrow> bool" where
  "optional_text limit t \<longleftrightarrow> (case t of None \<Rightarrow> True | Some s \<Rightarrow> 1 \<le> length s \<and> length s \<le> limit)"

definition session_fields_valid :: "pilot_session \<Rightarrow> bool" where
  "session_fields_valid s \<longleftrightarrow>
     session_pattern (session_identifier s) \<and> instance_pattern (instance_identifier s) \<and>
     0 \<le> session_started s \<and> 0 \<le> deadline_at s \<and> 0 \<le> checkpoint_at s \<and> 0 \<le> poweroff_at s \<and>
     0 \<le> last_observed_at s \<and> (case stopped_at s of None \<Rightarrow> True | Some t \<Rightarrow> 0 \<le> t) \<and>
     optional_text 256 (stop_confirmation s) \<and> optional_text 1024 (evidence s)"

definition consistent_times :: "pilot_session \<Rightarrow> bool" where
  "consistent_times s \<longleftrightarrow>
     (case kind s of
        Attested \<Rightarrow>
          (case stopped_at s of
             None \<Rightarrow> False
           | Some t \<Rightarrow> evidence s \<noteq> None \<and> session_started s < t \<and> t = deadline_at s \<and>
               last_observed_at s = t)
      | Observed \<Rightarrow> evidence s = None \<and>
          session_started s < checkpoint_at s \<and> checkpoint_at s < poweroff_at s \<and>
          poweroff_at s < deadline_at s) \<and>
     deadline_at s - session_started s \<le> 86400 \<and>
     session_started s \<le> last_observed_at s \<and>
     (stopped_at s = None \<longleftrightarrow> stop_confirmation s = None) \<and>
     (case stopped_at s of None \<Rightarrow> True | Some t \<Rightarrow> last_observed_at s \<le> t)"

definition session_valid :: "pilot_session \<Rightarrow> bool" where
  "session_valid s \<longleftrightarrow> session_fields_valid s \<and> consistent_times s"

definition maximum_transfer_seconds :: real where "maximum_transfer_seconds = 3600"

record stage_transfer =
  from_stage :: pilot_stage
  to_stage :: pilot_stage
  seconds :: real
  reason :: string
  recorded_at :: real

definition transfer_valid :: "stage_transfer \<Rightarrow> bool" where
  "transfer_valid t \<longleftrightarrow> 0 < seconds t \<and> seconds t \<le> maximum_transfer_seconds \<and>
     1 \<le> length (reason t) \<and> length (reason t) \<le> 256 \<and> 0 \<le> recorded_at t \<and>
     from_stage t \<noteq> to_stage t"

section \<open>The ledger\<close>

definition maximum_pilot_seconds :: real where "maximum_pilot_seconds = 86400"
definition checkpoint_reserve_seconds :: real where "checkpoint_reserve_seconds = 300"
definition shutdown_reserve_seconds :: real where "shutdown_reserve_seconds = 120"

record pilot_ledger =
  sessions :: "pilot_session list"
  stage_transfers :: "stage_transfer list"

definition new_ledger :: pilot_ledger where
  "new_ledger = \<lparr>sessions = [], stage_transfers = []\<rparr>"

definition apply_transfer :: "stage_transfer \<Rightarrow> (pilot_stage \<Rightarrow> real) \<Rightarrow> pilot_stage \<Rightarrow> real" where
  "apply_transfer t a =
    (let a1 = a(from_stage t := a (from_stage t) - seconds t)
     in a1(to_stage t := a1 (to_stage t) + seconds t))"

definition effective_allocations :: "pilot_ledger \<Rightarrow> pilot_stage \<Rightarrow> real" where
  "effective_allocations l = fold apply_transfer (stage_transfers l) stage_seconds"

text \<open>Python's \<^theory_text>\<open>stop or other\<close>, for which a stop at zero counts as no stop.\<close>

definition stop_or :: "pilot_session \<Rightarrow> real \<Rightarrow> real" where
  "stop_or s other = (case stopped_at s of Some t \<Rightarrow> if t = 0 then other else t | None \<Rightarrow> other)"

definition session_allowance :: "pilot_session \<Rightarrow> real" where
  "session_allowance s =
    (let allowance = deadline_at s - session_started s in
     case stopped_at s of None \<Rightarrow> allowance | Some t \<Rightarrow> min allowance (t - session_started s))"

definition closed_seconds :: "pilot_session \<Rightarrow> real" where
  "closed_seconds s = (case stopped_at s of None \<Rightarrow> 0 | Some t \<Rightarrow> t - session_started s)"

fun sessions_consistent ::
  "(pilot_stage \<Rightarrow> real) \<Rightarrow> real \<Rightarrow> real \<Rightarrow> (pilot_stage \<Rightarrow> real) \<Rightarrow> pilot_session list \<Rightarrow> bool"
where
  "sessions_consistent allocations previous_stop spent stage_spent [] = True"
| "sessions_consistent allocations previous_stop spent stage_spent (s # rest) =
    (previous_stop \<le> session_started s \<and>
     (stopped_at s = None \<longrightarrow> rest = []) \<and>
     session_allowance s \<le> min (maximum_pilot_seconds - spent)
        (allocations (session_stage s) - stage_spent (session_stage s)) + 1 / 1000000 \<and>
     deadline_at s - checkpoint_at s = checkpoint_reserve_seconds \<and>
     deadline_at s - poweroff_at s = shutdown_reserve_seconds \<and>
     sessions_consistent allocations (stop_or s (session_started s)) (spent + closed_seconds s)
       (stage_spent(session_stage s := stage_spent (session_stage s) + closed_seconds s)) rest)"

definition pilot_ledger_valid :: "pilot_ledger \<Rightarrow> bool" where
  "pilot_ledger_valid l \<longleftrightarrow>
     length (sessions l) \<le> 256 \<and> list_all session_valid (sessions l) \<and>
     length (stage_transfers l) \<le> 64 \<and> list_all transfer_valid (stage_transfers l) \<and>
     distinct (map session_identifier (sessions l)) \<and>
     list_all (\<lambda>st. 0 \<le> effective_allocations l st) all_stages \<and>
     sessions_consistent (effective_allocations l) 0 0 (\<lambda>_. 0) (sessions l)"

section \<open>Spending\<close>

definition session_seconds :: "real \<Rightarrow> pilot_session \<Rightarrow> real" where
  "session_seconds observed_at s =
     stop_or s (max observed_at (last_observed_at s)) - session_started s"

text \<open>\<open>consumed_seconds(ledger, observed_at, stage)\<close>, with \<^term>\<open>None\<close> for all stages.\<close>

definition pilot_consumed :: "pilot_ledger \<Rightarrow> real \<Rightarrow> pilot_stage option \<Rightarrow> real" where
  "pilot_consumed l observed_at stage =
     sum_list (map (session_seconds observed_at)
       (filter (\<lambda>s. stage = None \<or> stage = Some (session_stage s)) (sessions l)))"

definition reserved_for :: "pilot_ledger \<Rightarrow> pilot_stage \<Rightarrow> real" where
  "reserved_for l stage =
     sum_list (map (\<lambda>s. case stopped_at s of Some t \<Rightarrow> t - session_started s
                       | None \<Rightarrow> deadline_at s - session_started s)
       (filter (\<lambda>s. session_stage s = stage) (sessions l)))"

record stage_total =
  total_stage :: pilot_stage
  allocated_seconds :: real
  spent_seconds :: real
  left_seconds :: real

definition stage_totals :: "pilot_ledger \<Rightarrow> real \<Rightarrow> stage_total list" where
  "stage_totals l observed_at =
     map (\<lambda>st. let spent = pilot_consumed l observed_at (Some st) in
       \<lparr>total_stage = st, allocated_seconds = effective_allocations l st, spent_seconds = spent,
        left_seconds = max 0 (effective_allocations l st - spent)\<rparr>) all_stages"

section \<open>Lemmas\<close>

lemma apply_transfer_sum:
  "(\<Sum>st \<leftarrow> all_stages. apply_transfer t a st) = (\<Sum>st \<leftarrow> all_stages. a st)"
  by (cases "from_stage t"; cases "to_stage t") (simp_all add: apply_transfer_def Let_def all_stages_def)

lemma fold_transfer_sum:
  "(\<Sum>st \<leftarrow> all_stages. fold apply_transfer ts a st) = (\<Sum>st \<leftarrow> all_stages. a st)"
  by (induction ts arbitrary: a) (simp_all add: apply_transfer_sum)

lemma stage_in_all [simp]: "st \<in> set all_stages"
  by (cases st) (simp_all add: all_stages_def)

definition closed_total :: "pilot_session list \<Rightarrow> real" where
  "closed_total ss = sum_list (map closed_seconds ss)"

definition stage_closed :: "pilot_session list \<Rightarrow> pilot_stage \<Rightarrow> real" where
  "stage_closed ss st = sum_list (map closed_seconds (filter (\<lambda>s. session_stage s = st) ss))"

definition last_stop :: "real \<Rightarrow> pilot_session list \<Rightarrow> real" where
  "last_stop p ss = (if ss = [] then p else stop_or (last ss) (session_started (last ss)))"

text \<open>The validator read from its last session, which is the one operations change.\<close>

lemma sessions_consistent_snoc:
  "sessions_consistent a p sp st (ss @ [s]) \<longleftrightarrow>
     sessions_consistent a p sp st ss \<and> (\<forall>x \<in> set ss. stopped_at x \<noteq> None) \<and>
     last_stop p ss \<le> session_started s \<and>
     session_allowance s \<le> min (maximum_pilot_seconds - (sp + closed_total ss))
        (a (session_stage s) - (st (session_stage s) + stage_closed ss (session_stage s))) + 1 / 1000000 \<and>
     deadline_at s - checkpoint_at s = checkpoint_reserve_seconds \<and>
     deadline_at s - poweroff_at s = shutdown_reserve_seconds"
proof (induction ss arbitrary: p sp st)
  case Nil
  then show ?case by (auto simp: last_stop_def closed_total_def stage_closed_def)
next
  case (Cons x xs)
  let ?st = "st(session_stage x := st (session_stage x) + closed_seconds x)"
  have ls: "last_stop p (x # xs) = last_stop (stop_or x (session_started x)) xs"
    by (simp add: last_stop_def)
  have ct: "sp + closed_total (x # xs) = (sp + closed_seconds x) + closed_total xs"
    by (simp add: closed_total_def)
  have sc: "st k + stage_closed (x # xs) k = ?st k + stage_closed xs k" for k
    by (simp add: stage_closed_def)
  show ?case
    unfolding append_Cons sessions_consistent.simps(2) Cons.IH ls ct sc by auto
qed

text \<open>Facts of one valid session.\<close>

lemma session_valid_facts:
  assumes "session_valid s"
  shows "0 \<le> session_started s" and "session_started s \<le> last_observed_at s"
    and "stopped_at s = Some t \<Longrightarrow> last_observed_at s \<le> t"
    and "0 \<le> last_observed_at s"
  using assms by (auto simp: session_valid_def session_fields_valid_def consistent_times_def split: option.splits)

lemma stop_or_bounds:
  assumes "session_valid s" and "stopped_at s = Some t"
  shows "session_started s \<le> stop_or s (session_started s)"
    and "0 < session_started s \<Longrightarrow> stop_or s x = t"
  using session_valid_facts [OF assms(1)] assms(2) by (auto simp: stop_or_def)

lemma closed_seconds_nonneg: "session_valid s \<Longrightarrow> 0 \<le> closed_seconds s"
  using session_valid_facts [of s] by (auto simp: closed_seconds_def split: option.splits)

text \<open>Sessions are in time order and disjoint: each starts when the one before has stopped.\<close>

lemma consistent_starts:
  assumes "sessions_consistent a p sp st ss" and "list_all session_valid ss" and "x \<in> set ss"
  shows "p \<le> session_started x"
  using assms
proof (induction ss arbitrary: p sp st)
  case (Cons y ys)
  show ?case
  proof (cases "x = y")
    case True
    with Cons.prems show ?thesis by simp
  next
    case False
    then have x: "x \<in> set ys" using Cons.prems by simp
    then have "stopped_at y \<noteq> None" and py: "p \<le> session_started y" using Cons.prems by auto
    then obtain t where "stopped_at y = Some t" by blast
    with Cons.prems have "session_started y \<le> stop_or y (session_started y)"
      by (simp add: stop_or_bounds)
    also have "\<dots> \<le> session_started x" using Cons.IH x Cons.prems by auto
    finally show ?thesis using py by simp
  qed
qed simp

lemma consistent_sorted:
  "sessions_consistent a p sp st ss \<Longrightarrow> list_all session_valid ss \<Longrightarrow>
     sorted_wrt (\<lambda>x y. stop_or x (session_started x) \<le> session_started y) ss"
  by (induction ss arbitrary: p sp st) (auto dest: consistent_starts)

lemma last_stop_ge:
  assumes "list_all session_valid ss" and "\<forall>x \<in> set ss. stopped_at x \<noteq> None" and "0 \<le> p"
  shows "0 \<le> last_stop p ss"
proof (cases "ss = []")
  case False
  then have "last ss \<in> set ss" by simp
  with assms obtain t where v: "session_valid (last ss)" and "stopped_at (last ss) = Some t"
    by (auto simp: list_all_iff)
  from stop_or_bounds(1) [OF this] session_valid_facts(1) [OF v] False show ?thesis
    by (simp add: last_stop_def)
qed (use assms in \<open>simp add: last_stop_def\<close>)

text \<open>Spending of closed sessions does not depend on the clock.\<close>

lemma closed_spending:
  assumes "list_all session_valid ss" and "\<forall>x \<in> set ss. stopped_at x \<noteq> None \<and> 0 < session_started x"
  shows "map (session_seconds t) ss = map closed_seconds ss"
proof (rule map_cong [OF refl])
  fix x assume x: "x \<in> set ss"
  with assms obtain u where v: "session_valid x" and u: "stopped_at x = Some u" and "0 < session_started x"
    by (auto simp: list_all_iff)
  then have "stop_or x (max t (last_observed_at x)) = u" by (simp add: stop_or_bounds(2))
  with u show "session_seconds t x = closed_seconds x" by (simp add: session_seconds_def closed_seconds_def)
qed

lemma list_all_filter: "list_all P xs \<Longrightarrow> list_all P (filter Q xs)"
  by (simp add: list_all_iff)

lemma pilot_consumed_open:
  assumes l: "sessions l = ss @ [s]" and v: "list_all session_valid (sessions l)"
    and c: "\<forall>x \<in> set ss. stopped_at x \<noteq> None" and pos: "\<forall>x \<in> set (sessions l). 0 < session_started x"
    and o: "stopped_at s = None" and t: "last_observed_at s \<le> t"
  shows "pilot_consumed l t None = closed_total ss + (t - session_started s)"
    and "pilot_consumed l t (Some (session_stage s)) = stage_closed ss (session_stage s) + (t - session_started s)"
    and "st \<noteq> session_stage s \<Longrightarrow> pilot_consumed l t (Some st) = stage_closed ss st"
proof -
  have os: "session_seconds t s = t - session_started s" using o t by (simp add: session_seconds_def stop_or_def)
  have f: "map (session_seconds t) (filter Q ss) = map closed_seconds (filter Q ss)" for Q
    using v c pos by (intro closed_spending list_all_filter) (auto simp: l)
  have e: "(\<lambda>x. Some st' = Some (session_stage x)) = (\<lambda>x. session_stage x = st')" for st' by auto
  show "pilot_consumed l t None = closed_total ss + (t - session_started s)"
    using f [of "\<lambda>_. True"] os by (simp add: pilot_consumed_def l closed_total_def del: map_eq_conv)
  show "pilot_consumed l t (Some (session_stage s)) = stage_closed ss (session_stage s) + (t - session_started s)"
    using f [of "\<lambda>x. session_stage x = session_stage s"] os
    by (simp add: pilot_consumed_def l stage_closed_def e del: map_eq_conv option.inject)
  show "st \<noteq> session_stage s \<Longrightarrow> pilot_consumed l t (Some st) = stage_closed ss st"
    using f [of "\<lambda>x. session_stage x = st"] by (simp add: pilot_consumed_def l stage_closed_def e del: map_eq_conv option.inject)
qed

lemma valid_open_split:
  assumes "pilot_ledger_valid l" and "sessions l \<noteq> []" and "stopped_at (last (sessions l)) = None"
  obtains ss s where "sessions l = ss @ [s]" and "s = last (sessions l)" and "ss = butlast (sessions l)"
    and "\<forall>x \<in> set ss. stopped_at x \<noteq> None"
    and "sessions_consistent (effective_allocations l) 0 0 (\<lambda>_. 0) ss"
    and "last_stop 0 ss \<le> session_started s"
    and "deadline_at s - session_started s \<le> min (maximum_pilot_seconds - closed_total ss)
        (effective_allocations l (session_stage s) - stage_closed ss (session_stage s)) + 1 / 1000000"
    and "deadline_at s - checkpoint_at s = checkpoint_reserve_seconds"
    and "deadline_at s - poweroff_at s = shutdown_reserve_seconds"
proof -
  let ?ss = "butlast (sessions l)" and ?s = "last (sessions l)"
  have e: "sessions l = ?ss @ [?s]" using assms(2) by simp
  have "sessions_consistent (effective_allocations l) 0 0 (\<lambda>_. 0) (?ss @ [?s])"
    using assms(1) e by (simp add: pilot_ledger_valid_def)
  then show thesis
    using that [of ?ss ?s] e assms(3) unfolding sessions_consistent_snoc
    by (simp add: session_allowance_def)
qed

section \<open>What a valid ledger promises\<close>

text \<open>
  C12: no ledger that the program accepts grants instance time beyond the project. Until its
  deadline, the open session and everything spent before it stay within 86400 seconds in
  all and within the allocation of its stage, up to the tolerance of one microsecond that
  the validator allows.
\<close>

theorem open_session_within_budget:
  assumes "pilot_ledger_valid l" and "sessions l \<noteq> []" and "s = last (sessions l)"
    and "stopped_at s = None" and "\<And>x. x \<in> set (sessions l) \<Longrightarrow> 0 < session_started x"
    and "last_observed_at s \<le> t" and "t \<le> deadline_at s"
  shows "pilot_consumed l t None \<le> 86400 + 1 / 1000000 \<and>
    pilot_consumed l t (Some (session_stage s))
      \<le> effective_allocations l (session_stage s) + 1 / 1000000"
proof -
  obtain ss where l: "sessions l = ss @ [s]" and c: "\<forall>x \<in> set ss. stopped_at x \<noteq> None"
    and b: "deadline_at s - session_started s \<le> min (maximum_pilot_seconds - closed_total ss)
        (effective_allocations l (session_stage s) - stage_closed ss (session_stage s)) + 1 / 1000000"
    using valid_open_split [OF assms(1,2)] assms(3,4) by metis
  have v: "list_all session_valid (sessions l)" using assms(1) by (simp add: pilot_ledger_valid_def)
  have "pilot_consumed l t None = closed_total ss + (t - session_started s)"
    "pilot_consumed l t (Some (session_stage s))
      = stage_closed ss (session_stage s) + (t - session_started s)"
    using pilot_consumed_open(1,2) [OF l v c _ assms(4,6)] assms(5) by blast+
  moreover have "deadline_at s - session_started s \<le> 86400 - closed_total ss + 1 / 1000000"
    "deadline_at s - session_started s
      \<le> effective_allocations l (session_stage s) - stage_closed ss (session_stage s) + 1 / 1000000"
    using b by (simp_all add: maximum_pilot_seconds_def min_def split: if_splits)
  ultimately show ?thesis using assms(7) by linarith
qed

text \<open>A ledger with one open session, for the witnesses.\<close>

definition sample_session :: pilot_session where
  "sample_session = \<lparr>session_identifier = ''s1'', instance_identifier = ''i-0123abcd'',
     session_stage = Setup, kind = Observed, session_started = 1000, deadline_at = 8000,
     checkpoint_at = 7700, poweroff_at = 7880, last_observed_at = 1500, stopped_at = None,
     stop_confirmation = None, evidence = None\<rparr>"

definition sample_ledger :: pilot_ledger where
  "sample_ledger = \<lparr>sessions = [sample_session], stage_transfers = []\<rparr>"

lemma sample_session_valid: "session_valid sample_session"
  by (simp add: session_valid_def session_fields_valid_def consistent_times_def sample_session_def
      session_pattern_def instance_pattern_def optional_text_def char_class_defs)

lemma sample_ledger_valid: "pilot_ledger_valid sample_ledger"
  using sample_session_valid
  by (simp add: pilot_ledger_valid_def sample_ledger_def effective_allocations_def all_stages_def
      session_allowance_def maximum_pilot_seconds_def checkpoint_reserve_seconds_def
      shutdown_reserve_seconds_def) (simp add: sample_session_def)

theorem open_session_within_budget_witness:
  "pilot_consumed sample_ledger 8000 None \<le> 86400 + 1 / 1000000"
  using open_session_within_budget [OF sample_ledger_valid, of sample_session 8000]
  by (simp add: sample_ledger_def) (simp add: sample_session_def)

text \<open>
  Transfers move time between stages and never make any: after every list of transfers
  the four allocations still add up to the 86400 seconds of the project.
\<close>

lemma transfers_conserve_time:
  "(\<Sum>st \<leftarrow> all_stages. effective_allocations l st) = 86400"
  unfolding effective_allocations_def fold_transfer_sum by (simp add: all_stages_def)

end
