(* ===== verification/PilotBudget.thy ===== *)
theory PilotBudget
  imports PilotLedger Interfaces
begin

text \<open>
  The operations of the pilot budget: \<^verbatim>\<open>backend_service/pilot_budget_storage.py\<close> with its
  lock, load and save, the session operations of \<^verbatim>\<open>backend_service/pilot_budget.py\<close>, the
  operator records of \<^verbatim>\<open>backend_service/pilot_budget_records.py\<close> and the host guard of
  \<^verbatim>\<open>backend_service/pilot_guard.py\<close>. Every operation reads and replaces one ledger
  file under a lock; the clock, the lock's outcome and the fate of a write come from outside.
  An argument that is not a finite number is \<^term>\<open>None\<close>.
\<close>

section \<open>Storage\<close>

definition pilot_failure :: exn where
  "pilot_failure = Application_Failure ''pilot_budget_unavailable'' 503"

definition pilot_busy :: exn where
  "pilot_busy = Application_Failure ''pilot_budget_busy'' 503"

definition pilot_inconsistent :: exn where
  "pilot_inconsistent = Application_Failure ''pilot_budget_inconsistent'' 422"

datatype marker = No_Marker | Good_Marker | Bad_Marker

text \<open>A ledger file that is missing or holds no JSON of the right form is \<^term>\<open>None\<close>.\<close>

record pilot_disk =
  marker :: marker
  ledger_on_disk :: "pilot_ledger option"
  other_files :: bool

datatype lock_outcome = Lock_Free | Lock_Busy | Lock_Broken

record pilot_call =
  lock_outcome :: lock_outcome
  now :: real
  ledger_write :: write_call
  marker_write :: write_call

definition ledger_lock :: "pilot_call \<Rightarrow> (pilot_disk, 'a) action \<Rightarrow> (pilot_disk, 'a) action" where
  "ledger_lock env body =
    (case lock_outcome env of
       Lock_Busy \<Rightarrow> act_raise pilot_busy
     | Lock_Broken \<Rightarrow> act_raise pilot_failure
     | Lock_Free \<Rightarrow> body)"

definition load_pilot_ledger :: "pilot_disk \<Rightarrow> pilot_ledger result" where
  "load_pilot_ledger d =
    (if marker d \<noteq> Good_Marker then Inl pilot_failure
     else case ledger_on_disk d of
            None \<Rightarrow> Inl pilot_failure
          | Some l \<Rightarrow> if pilot_ledger_valid l then Inr l else Inl pilot_failure)"

definition save_pilot_ledger :: "pilot_call \<Rightarrow> pilot_ledger \<Rightarrow> (pilot_disk, unit) action" where
  "save_pilot_ledger env l d =
    (if \<not> pilot_ledger_valid l then (d, Inl pilot_inconsistent)
     else
       let (new, r) = atomic_json (ledger_write env) l (ledger_on_disk d) in
       (d\<lparr>ledger_on_disk := new\<rparr>,
        case r of Inr u \<Rightarrow> Inr u
        | Inl e \<Rightarrow> Inl (if is_application_failure e then e else pilot_failure)))"

definition initialize_pilot_budget :: "pilot_call \<Rightarrow> (pilot_disk, pilot_ledger) action" where
  "initialize_pilot_budget env =
    ledger_lock env (act_bind act_get (\<lambda>d.
      if marker d \<noteq> No_Marker \<or> ledger_on_disk d \<noteq> None \<or> other_files d then act_raise pilot_failure
      else act_bind (save_pilot_ledger env new_ledger) (\<lambda>_ d.
        let (new, r) = atomic_json (marker_write env) () None in
        (d\<lparr>marker := (if new = None then marker d else Good_Marker)\<rparr>,
         case r of Inr u \<Rightarrow> Inr new_ledger
         | Inl e \<Rightarrow> Inl (if is_application_failure e then e else pilot_failure)))))"

section \<open>Sessions\<close>

definition active_session :: "pilot_ledger \<Rightarrow> string \<Rightarrow> pilot_session result" where
  "active_session l identifier =
    (if sessions l = [] \<or> session_identifier (last (sessions l)) \<noteq> identifier
        \<or> stopped_at (last (sessions l)) \<noteq> None
     then Inl pilot_failure else Inr (last (sessions l)))"

text \<open>Mutating the last session of the loaded ledger.\<close>

definition replace_last :: "pilot_session \<Rightarrow> pilot_ledger \<Rightarrow> pilot_ledger" where
  "replace_last s l = l\<lparr>sessions := butlast (sessions l) @ [s]\<rparr>"

definition has_open_session :: "pilot_ledger \<Rightarrow> bool" where
  "has_open_session l \<longleftrightarrow> sessions l \<noteq> [] \<and> stopped_at (last (sessions l)) = None"

definition knows_session :: "pilot_ledger \<Rightarrow> string \<Rightarrow> bool" where
  "knows_session l identifier \<longleftrightarrow> list_ex (\<lambda>s. session_identifier s = identifier) (sessions l)"

definition start_session ::
  "pilot_call \<Rightarrow> string \<Rightarrow> string \<Rightarrow> pilot_stage \<Rightarrow> real option \<Rightarrow> real option option
    \<Rightarrow> (pilot_disk, pilot_session) action" where
  "start_session env identifier instance_id stage started requested =
    ledger_lock env (act_bind act_get (\<lambda>d. act_bind (act_lift (load_pilot_ledger d)) (\<lambda>l.
      case started of
        None \<Rightarrow> act_raise Value_Error
      | Some t \<Rightarrow>
          if \<not> (0 \<le> t \<and> t \<le> now env) then act_raise Value_Error
          else if has_open_session l then act_raise pilot_failure
          else if knows_session l identifier then act_raise pilot_failure
          else
            let remaining = min (maximum_pilot_seconds - pilot_consumed l (now env) None)
                  (effective_allocations l stage - pilot_consumed l (now env) (Some stage));
                allowance = (case requested of None \<Rightarrow> Some remaining | Some q \<Rightarrow> q)
            in case allowance of
                 None \<Rightarrow> act_raise pilot_failure
               | Some a \<Rightarrow>
                   if \<not> (300 < a \<and> a \<le> remaining) then act_raise pilot_failure
                   else
                     let s = \<lparr>session_identifier = identifier, instance_identifier = instance_id,
                           session_stage = stage, kind = Observed, session_started = t,
                           deadline_at = t + a, checkpoint_at = t + a - checkpoint_reserve_seconds,
                           poweroff_at = t + a - shutdown_reserve_seconds,
                           last_observed_at = now env, stopped_at = None, stop_confirmation = None,
                           evidence = None\<rparr>
                     in if \<not> session_valid s then act_raise Value_Error
                        else act_bind (save_pilot_ledger env (l\<lparr>sessions := sessions l @ [s]\<rparr>))
                               (\<lambda>_. act_return s))))"

definition read_session :: "pilot_call \<Rightarrow> string \<Rightarrow> pilot_disk \<Rightarrow> pilot_session result" where
  "read_session env identifier d =
    andThen (load_pilot_ledger d) (\<lambda>l. andThen (active_session l identifier) (\<lambda>s.
      if now env < last_observed_at s then Inl pilot_failure else Inr s))"

definition observe_session :: "pilot_call \<Rightarrow> string \<Rightarrow> (pilot_disk, pilot_session) action" where
  "observe_session env identifier =
    ledger_lock env (act_bind act_get (\<lambda>d. act_bind (act_lift (load_pilot_ledger d)) (\<lambda>l.
      act_bind (act_lift (active_session l identifier)) (\<lambda>s.
        if now env < last_observed_at s then act_raise pilot_failure
        else
          let s1 = s\<lparr>last_observed_at := now env\<rparr>
          in act_bind (save_pilot_ledger env (replace_last s1 l)) (\<lambda>_. act_return s1)))))"

definition confirm_stopped :: "pilot_call \<Rightarrow> string \<Rightarrow> string \<Rightarrow> (pilot_disk, pilot_ledger) action" where
  "confirm_stopped env identifier confirmation =
    ledger_lock env (act_bind act_get (\<lambda>d. act_bind (act_lift (load_pilot_ledger d)) (\<lambda>l.
      act_bind (act_lift (active_session l identifier)) (\<lambda>s.
        let stop = (if now env < last_observed_at s then max (last_observed_at s) (deadline_at s)
                    else now env);
            l1 = replace_last (s\<lparr>stopped_at := Some stop, stop_confirmation := Some confirmation\<rparr>) l
        in act_bind (save_pilot_ledger env l1) (\<lambda>_. act_return l1)))))"

section \<open>Operator records\<close>

definition bisect_left :: "real list \<Rightarrow> real \<Rightarrow> nat" where
  "bisect_left xs x = length (takeWhile (\<lambda>y. y < x) xs)"

definition insert_at :: "nat \<Rightarrow> 'a \<Rightarrow> 'a list \<Rightarrow> 'a list" where
  "insert_at n x xs = take n xs @ x # drop n xs"

definition attest_closed_session ::
  "pilot_call \<Rightarrow> string \<Rightarrow> string \<Rightarrow> pilot_stage \<Rightarrow> real option \<Rightarrow> real option \<Rightarrow> string
    \<Rightarrow> (pilot_disk, pilot_session) action" where
  "attest_closed_session env identifier instance_id stage started stopped proof_text =
    (case (started, stopped) of
       (Some t, Some u) \<Rightarrow>
         if \<not> (0 \<le> t \<and> t < u \<and> u \<le> now env) then act_raise Value_Error
         else ledger_lock env (act_bind act_get (\<lambda>d. act_bind (act_lift (load_pilot_ledger d)) (\<lambda>l.
           if has_open_session l then act_raise pilot_failure
           else if knows_session l identifier then act_raise pilot_failure
           else if list_ex (\<lambda>s. case stopped_at s of None \<Rightarrow> False
                  | Some stop \<Rightarrow> t < stop \<and> session_started s < u) (sessions l)
           then act_raise pilot_failure
           else
             let remaining = min (maximum_pilot_seconds - pilot_consumed l (now env) None)
                   (effective_allocations l stage - reserved_for l stage)
             in if u - t > remaining + 1 / 1000000 then act_raise pilot_failure
                else
                  let s = \<lparr>session_identifier = identifier, instance_identifier = instance_id,
                        session_stage = stage, kind = Attested, session_started = t,
                        deadline_at = u, checkpoint_at = u - checkpoint_reserve_seconds,
                        poweroff_at = u - shutdown_reserve_seconds, last_observed_at = u,
                        stopped_at = Some u, stop_confirmation = Some (take 256 proof_text),
                        evidence = Some proof_text\<rparr>;
                      position = bisect_left (map session_started (sessions l)) t
                  in if \<not> session_valid s then act_raise Value_Error
                     else act_bind
                       (save_pilot_ledger env (l\<lparr>sessions := insert_at position s (sessions l)\<rparr>))
                       (\<lambda>_. act_return s))))
     | _ \<Rightarrow> act_raise Value_Error)"

definition transfer_allocation ::
  "pilot_call \<Rightarrow> pilot_stage \<Rightarrow> pilot_stage \<Rightarrow> real option \<Rightarrow> string
    \<Rightarrow> (pilot_disk, stage_transfer) action" where
  "transfer_allocation env source target amount why =
    (if source = target then act_raise Value_Error
     else case amount of
       None \<Rightarrow> act_raise Value_Error
     | Some s \<Rightarrow>
         if \<not> (0 < s \<and> s \<le> maximum_transfer_seconds) then act_raise Value_Error
         else ledger_lock env (act_bind act_get (\<lambda>d. act_bind (act_lift (load_pilot_ledger d)) (\<lambda>l.
           if s > effective_allocations l source - reserved_for l source + 1 / 1000000
           then act_raise pilot_failure
           else
             let t = \<lparr>from_stage = source, to_stage = target, seconds = s, reason = why,
                      recorded_at = now env\<rparr>
             in if \<not> transfer_valid t then act_raise Value_Error
                else act_bind
                  (save_pilot_ledger env (l\<lparr>stage_transfers := stage_transfers l @ [t]\<rparr>))
                  (\<lambda>_. act_return t)))))"

section \<open>Deadlines\<close>

record pilot_deadline =
  deadline_unix :: real
  checkpoint_unix :: real
  monotonic_deadline :: real
  checkpoint_monotonic :: real

definition read_pilot_deadline ::
  "pilot_call \<Rightarrow> real \<Rightarrow> real \<Rightarrow> string \<Rightarrow> (pilot_disk, pilot_deadline) action" where
  "read_pilot_deadline env later monotonic identifier =
    act_bind (observe_session env identifier) (\<lambda>s.
      let t = max later (last_observed_at s) in
      if checkpoint_at s \<le> t then act_raise pilot_failure
      else act_return
        \<lparr>deadline_unix = deadline_at s, checkpoint_unix = checkpoint_at s,
         monotonic_deadline = monotonic + deadline_at s - t,
         checkpoint_monotonic = monotonic + checkpoint_at s - t\<rparr>)"

definition deadline_remaining :: "real \<Rightarrow> pilot_deadline \<Rightarrow> real" where
  "deadline_remaining monotonic p = max 0 (monotonic_deadline p - monotonic)"

definition checkpoint_remaining :: "real \<Rightarrow> pilot_deadline \<Rightarrow> real" where
  "checkpoint_remaining monotonic p = max 0 (checkpoint_monotonic p - monotonic)"

section \<open>Operations and inspection\<close>

text \<open>
  One operation at a time may use the instance: its own lock is taken first and given back
  when the deadline cannot be read. The flag of the state says that this operation holds it.
\<close>

definition enter_operation ::
  "lock_outcome \<Rightarrow> pilot_call \<Rightarrow> real \<Rightarrow> real \<Rightarrow> string \<Rightarrow> (pilot_disk \<times> bool, pilot_deadline) action" where
  "enter_operation lock env later monotonic identifier s =
    (let (d, held) = s in
     case lock of
       Lock_Busy \<Rightarrow> ((d, False), Inl pilot_failure)
     | Lock_Broken \<Rightarrow> ((d, False), Inl pilot_failure)
     | Lock_Free \<Rightarrow>
         (case read_pilot_deadline env later monotonic identifier d of
            (d', Inr p) \<Rightarrow> ((d', True), Inr p)
          | (d', Inl e) \<Rightarrow>
              ((d', False), Inl (if e = OS_Error \<or> e = Value_Error then pilot_failure else e))))"

definition exit_operation :: "pilot_disk \<times> bool \<Rightarrow> pilot_disk \<times> bool" where
  "exit_operation s = (fst s, False)"

record pilot_summary =
  summary_initialized :: bool
  summary_consumed :: real
  summary_remaining :: real
  summary_active :: "string option"
  summary_totals :: "stage_total list"

definition stage_total_valid :: "stage_total \<Rightarrow> bool" where
  "stage_total_valid t \<longleftrightarrow> 0 \<le> allocated_seconds t \<and> 0 \<le> spent_seconds t \<and> 0 \<le> left_seconds t"

text \<open>The directory is a link, is missing or empty, or holds what the disk record says.\<close>

datatype pilot_directory = Directory_Link | Directory_Empty | Directory_Files

definition inspect_budget :: "pilot_directory \<Rightarrow> real \<Rightarrow> real \<Rightarrow> pilot_disk \<Rightarrow> pilot_summary result" where
  "inspect_budget where_at t later d =
    (case where_at of
       Directory_Link \<Rightarrow> Inl pilot_failure
     | Directory_Empty \<Rightarrow> Inr \<lparr>summary_initialized = False, summary_consumed = 0,
         summary_remaining = 86400, summary_active = None, summary_totals = []\<rparr>
     | Directory_Files \<Rightarrow>
         andThen (load_pilot_ledger d) (\<lambda>l.
           let spent = pilot_consumed l t None;
               totals = stage_totals l later;
               active = map_option session_identifier (List.find (\<lambda>s. stopped_at s = None) (sessions l))
           in if 0 \<le> spent \<and> list_all stage_total_valid totals
              then Inr \<lparr>summary_initialized = True, summary_consumed = spent,
                summary_remaining = max 0 (maximum_pilot_seconds - spent),
                summary_active = active, summary_totals = totals\<rparr>
              else Inl pilot_failure))"

section \<open>Effects of the operations\<close>

lemma save_effect:
  assumes "save_pilot_ledger env l d = (d', r)"
  shows "d' = d \<and> (\<exists>e. r = Inl e) \<or> d' = d\<lparr>ledger_on_disk := Some l\<rparr> \<and> pilot_ledger_valid l"
  using assms atomic_json_cases [of "ledger_write env" l "ledger_on_disk d"]
    atomic_json_Inr [of "ledger_write env" l "ledger_on_disk d"]
  by (auto simp: save_pilot_ledger_def Let_def split: if_splits prod.splits sum.splits)

lemma save_roomy:
  "roomy_call (ledger_write env) \<Longrightarrow> pilot_ledger_valid l \<Longrightarrow>
     save_pilot_ledger env l d = (d\<lparr>ledger_on_disk := Some l\<rparr>, Inr ())"
  by (simp add: save_pilot_ledger_def atomic_json_roomy)

lemma load_Inr:
  "load_pilot_ledger d = Inr l \<Longrightarrow> ledger_on_disk d = Some l \<and> pilot_ledger_valid l \<and> marker d = Good_Marker"
  by (auto simp: load_pilot_ledger_def split: if_splits option.splits)

lemma act_bind_save:
  assumes "act_bind (save_pilot_ledger env l) (\<lambda>_. act_return x) d = (d', r)"
  shows "d' = d \<or> d' = d\<lparr>ledger_on_disk := Some l\<rparr> \<and> pilot_ledger_valid l"
  using assms save_effect [of env l d]
  by (auto simp: act_bind_def split: prod.splits sum.splits)

text \<open>One ledger extends another when it records no less time and keeps every closed session.\<close>

definition recorded :: "pilot_ledger \<Rightarrow> real" where
  "recorded l = pilot_consumed l 0 None"

definition closed_sessions :: "pilot_ledger \<Rightarrow> pilot_session set" where
  "closed_sessions l = {s \<in> set (sessions l). stopped_at s \<noteq> None}"

definition extends :: "pilot_ledger \<Rightarrow> pilot_ledger \<Rightarrow> bool" where
  "extends l l' \<longleftrightarrow> recorded l \<le> recorded l' \<and> closed_sessions l \<subseteq> closed_sessions l'"

lemma recorded_sum: "recorded l = sum_list (map (session_seconds 0) (sessions l))"
  by (simp add: recorded_def pilot_consumed_def)

lemma session_seconds_nonneg: "session_valid s \<Longrightarrow> 0 \<le> session_seconds 0 s"
  using session_valid_facts [of s] by (auto simp: session_seconds_def stop_or_def max_def split: option.splits)

lemma extends_append:
  "session_valid s \<Longrightarrow> extends l (l\<lparr>sessions := sessions l @ [s]\<rparr>)"
  using session_seconds_nonneg [of s] by (auto simp: extends_def recorded_sum closed_sessions_def)

lemma extends_insert:
  assumes "session_valid s"
  shows "extends l (l\<lparr>sessions := insert_at n s (sessions l)\<rparr>)"
proof -
  have "sum_list (map (session_seconds 0) (sessions l))
      = sum_list (map (session_seconds 0) (take n (sessions l)))
        + sum_list (map (session_seconds 0) (drop n (sessions l)))"
    by (metis append_take_drop_id map_append sum_list_append)
  moreover have "set (sessions l) = set (take n (sessions l)) \<union> set (drop n (sessions l))"
    by (metis append_take_drop_id set_append)
  ultimately show ?thesis
    using session_seconds_nonneg [OF assms]
    by (auto simp: extends_def recorded_sum closed_sessions_def insert_at_def)
qed

lemma extends_replace_last:
  assumes "sessions l \<noteq> []" and "stopped_at (last (sessions l)) = None"
    and "session_seconds 0 (last (sessions l)) \<le> session_seconds 0 s"
  shows "extends l (replace_last s l)"
proof -
  have e: "sessions l = butlast (sessions l) @ [last (sessions l)]" using assms(1) by simp
  have "recorded l \<le> recorded (replace_last s l)"
    unfolding recorded_sum replace_last_def by (subst e) (simp add: assms(3))
  moreover have "set (sessions l) = set (butlast (sessions l)) \<union> {last (sessions l)}"
    by (subst e) simp
  ultimately show ?thesis
    using assms(2) by (auto simp: extends_def closed_sessions_def replace_last_def)
qed

lemma extends_transfer: "extends l (l\<lparr>stage_transfers := ts\<rparr>)"
  by (simp add: extends_def recorded_sum closed_sessions_def)

text \<open>An operation leaves the disk alone or replaces the ledger by a valid one that extends it.\<close>

definition advances :: "pilot_disk \<Rightarrow> pilot_disk \<Rightarrow> bool" where
  "advances d d' \<longleftrightarrow> d' = d \<or>
     (\<exists>l l'. ledger_on_disk d = Some l \<and> d' = d\<lparr>ledger_on_disk := Some l'\<rparr> \<and>
        pilot_ledger_valid l' \<and> extends l l')"

definition keeps_ledger :: "pilot_disk \<Rightarrow> (pilot_disk, 'a) action \<Rightarrow> bool" where
  "keeps_ledger d m \<longleftrightarrow> (\<forall>d' r. m d = (d', r) \<longrightarrow> advances d d')"

lemma keeps_save:
  assumes "load_pilot_ledger d = Inr l" and "extends l l'"
  shows "keeps_ledger d (act_bind (save_pilot_ledger env l') (\<lambda>_. act_return x))"
  unfolding keeps_ledger_def
proof (intro allI impI)
  fix d' r
  assume "act_bind (save_pilot_ledger env l') (\<lambda>_. act_return x) d = (d', r)"
  from act_bind_save [OF this] load_Inr [OF assms(1)] assms(2) show "advances d d'"
    by (auto simp: advances_def)
qed

lemma keeps_raise: "keeps_ledger d (act_raise e)"
  by (simp add: keeps_ledger_def advances_def)

lemma keeps_get: "keeps_ledger d (f d) \<Longrightarrow> keeps_ledger d (act_bind act_get f)"
  by (simp add: keeps_ledger_def)

lemma keeps_lift: "(\<And>x. r = Inr x \<Longrightarrow> keeps_ledger d (f x)) \<Longrightarrow> keeps_ledger d (act_bind (act_lift r) f)"
  by (cases r) (simp_all add: keeps_ledger_def advances_def)

lemma keeps_lock: "keeps_ledger d m \<Longrightarrow> keeps_ledger d (ledger_lock env m)"
  by (cases "lock_outcome env") (simp_all add: ledger_lock_def keeps_raise)

lemma keeps_if:
  "(b \<Longrightarrow> keeps_ledger d m) \<Longrightarrow> (\<not> b \<Longrightarrow> keeps_ledger d n) \<Longrightarrow> keeps_ledger d (if b then m else n)"
  by simp

lemma keeps_option:
  "(t = None \<Longrightarrow> keeps_ledger d m) \<Longrightarrow> (\<And>x. t = Some x \<Longrightarrow> keeps_ledger d (n x)) \<Longrightarrow>
     keeps_ledger d (case t of None \<Rightarrow> m | Some x \<Rightarrow> n x)"
  by (cases t) simp_all

lemmas keeps_rules = keeps_lock keeps_get keeps_lift keeps_option keeps_if keeps_raise

lemma active_session_Inr:
  "active_session l i = Inr s \<Longrightarrow>
     sessions l \<noteq> [] \<and> s = last (sessions l) \<and> stopped_at s = None \<and> session_identifier s = i"
  by (auto simp: active_session_def split: if_splits)

lemma start_keeps: "keeps_ledger d (start_session env i j st t q)"
  unfolding start_session_def Let_def
  by (intro keeps_rules; (erule keeps_save; rule extends_append; simp)?)

lemma attest_keeps: "keeps_ledger d (attest_closed_session env i j st t u w)"
  unfolding attest_closed_session_def Let_def prod.case
  by (intro keeps_rules; (erule keeps_save; rule extends_insert; simp)?)

lemma transfer_keeps: "keeps_ledger d (transfer_allocation env st st' t w)"
  unfolding transfer_allocation_def Let_def
  by (intro keeps_rules; (erule keeps_save; rule extends_transfer)?)

lemma loaded_last_valid:
  assumes "load_pilot_ledger d = Inr l" and "active_session l i = Inr s"
  shows "session_valid s"
  using load_Inr [OF assms(1)] active_session_Inr [OF assms(2)]
  by (auto simp: pilot_ledger_valid_def list_all_iff)

lemma observe_keeps: "keeps_ledger d (observe_session env i)"
proof -
  have "extends l (replace_last (s\<lparr>last_observed_at := now env\<rparr>) l)"
    if "active_session l i = Inr s" "\<not> now env < last_observed_at s" for l s
    using active_session_Inr [OF that(1)] that(2)
    by (intro extends_replace_last) (auto simp: session_seconds_def stop_or_def)
  then show ?thesis
    unfolding observe_session_def Let_def
    by (intro keeps_rules) (rule keeps_save, assumption, blast)
qed

lemma confirm_extends:
  assumes "load_pilot_ledger d = Inr l" and "active_session l i = Inr s"
    and "last_observed_at s \<le> stop"
  shows "extends l (replace_last (s\<lparr>stopped_at := Some stop, stop_confirmation := c\<rparr>) l)"
  using active_session_Inr [OF assms(2)] session_valid_facts(4) [OF loaded_last_valid [OF assms(1,2)]] assms(3)
  by (intro extends_replace_last) (auto simp: session_seconds_def stop_or_def)

lemma confirm_keeps: "keeps_ledger d (confirm_stopped env i c)"
  unfolding confirm_stopped_def Let_def
  by (intro keeps_rules) (rule keeps_save, assumption, erule (1) confirm_extends, simp)

lemma read_deadline_keeps: "keeps_ledger d (read_pilot_deadline env later tick i)"
  unfolding keeps_ledger_def
proof (intro allI impI)
  fix d' r
  assume a: "read_pilot_deadline env later tick i d = (d', r)"
  obtain d1 q where o: "observe_session env i d = (d1, q)" by fastforce
  with a have "d' = d1"
    by (cases q) (auto simp: read_pilot_deadline_def Let_def split: if_splits)
  with o observe_keeps [of d env i] show "advances d d'" by (simp add: keeps_ledger_def)
qed

section \<open>Histories of the ledger\<close>

inductive pilot_step :: "pilot_disk \<Rightarrow> pilot_disk \<Rightarrow> bool" where
  initialize: "initialize_pilot_budget env d = (d', ra) \<Longrightarrow> pilot_step d d'"
| start: "start_session env i j st t q d = (d', rb) \<Longrightarrow> pilot_step d d'"
| observe: "observe_session env i d = (d', rb) \<Longrightarrow> pilot_step d d'"
| confirm: "confirm_stopped env i c d = (d', ra) \<Longrightarrow> pilot_step d d'"
| attest: "attest_closed_session env i j st t u w d = (d', rb) \<Longrightarrow> pilot_step d d'"
| transfer: "transfer_allocation env st st' t w d = (d', rc) \<Longrightarrow> pilot_step d d'"
| deadline: "read_pilot_deadline env later tick i d = (d', rd) \<Longrightarrow> pilot_step d d'"

definition pilot_disk_valid :: "pilot_disk \<Rightarrow> bool" where
  "pilot_disk_valid d \<longleftrightarrow> (case ledger_on_disk d of None \<Rightarrow> True | Some l \<Rightarrow> pilot_ledger_valid l)"

definition disk_recorded :: "pilot_disk \<Rightarrow> real" where
  "disk_recorded d = (case ledger_on_disk d of None \<Rightarrow> 0 | Some l \<Rightarrow> recorded l)"

definition disk_closed :: "pilot_disk \<Rightarrow> pilot_session set" where
  "disk_closed d = (case ledger_on_disk d of None \<Rightarrow> {} | Some l \<Rightarrow> closed_sessions l)"

definition no_ledger :: pilot_disk where
  "no_ledger = \<lparr>marker = No_Marker, ledger_on_disk = None, other_files = False\<rparr>"

lemma new_ledger_valid [simp]: "pilot_ledger_valid new_ledger"
  by (simp add: pilot_ledger_valid_def new_ledger_def effective_allocations_def all_stages_def)

lemma advances_monotone:
  "advances d d' \<Longrightarrow> pilot_disk_valid d \<Longrightarrow>
     pilot_disk_valid d' \<and> disk_recorded d \<le> disk_recorded d' \<and> disk_closed d \<subseteq> disk_closed d'"
  by (auto simp: advances_def pilot_disk_valid_def disk_recorded_def disk_closed_def extends_def)

lemma keeps_monotone:
  "keeps_ledger d m \<Longrightarrow> m d = (d', r) \<Longrightarrow> pilot_disk_valid d \<Longrightarrow>
     pilot_disk_valid d' \<and> disk_recorded d \<le> disk_recorded d' \<and> disk_closed d \<subseteq> disk_closed d'"
  by (rule advances_monotone) (simp_all add: keeps_ledger_def)

lemma initialize_effect:
  assumes "initialize_pilot_budget env d = (d', r)"
  shows "d' = d \<or> ledger_on_disk d = None \<and> ledger_on_disk d' = Some new_ledger"
  using assms save_effect [of env new_ledger d]
  by (auto simp: initialize_pilot_budget_def ledger_lock_def act_bind_def Let_def
      split: lock_outcome.splits if_splits prod.splits sum.splits)

lemma pilot_step_monotone:
  assumes "pilot_step d d'" and v: "pilot_disk_valid d"
  shows "pilot_disk_valid d' \<and> disk_recorded d \<le> disk_recorded d' \<and> disk_closed d \<subseteq> disk_closed d'"
  using assms(1)
proof cases
  case initialize
  have "recorded new_ledger = 0" "closed_sessions new_ledger = {}"
    by (simp_all add: recorded_sum closed_sessions_def new_ledger_def)
  with initialize_effect [OF initialize] v show ?thesis
    by (auto simp: pilot_disk_valid_def disk_recorded_def disk_closed_def)
next
  case start
  then show ?thesis by (rule keeps_monotone [OF start_keeps _ v])
next
  case observe
  then show ?thesis by (rule keeps_monotone [OF observe_keeps _ v])
next
  case confirm
  then show ?thesis by (rule keeps_monotone [OF confirm_keeps _ v])
next
  case attest
  then show ?thesis by (rule keeps_monotone [OF attest_keeps _ v])
next
  case transfer
  then show ?thesis by (rule keeps_monotone [OF transfer_keeps _ v])
next
  case deadline
  then show ?thesis by (rule keeps_monotone [OF read_deadline_keeps _ v])
qed

interpretation spending: metered_system pilot_step pilot_disk_valid disk_recorded
  by unfold_locales (auto dest: pilot_step_monotone)

interpretation closing: metered_system pilot_step pilot_disk_valid disk_closed
  by unfold_locales (blast dest: pilot_step_monotone)

section \<open>Closing a session\<close>

lemma replace_last_valid:
  assumes l: "pilot_ledger_valid l" and o: "has_open_session l" and s: "s = last (sessions l)"
    and same: "session_identifier s1 = session_identifier s" "session_stage s1 = session_stage s"
      "session_started s1 = session_started s" "deadline_at s1 = deadline_at s"
      "checkpoint_at s1 = checkpoint_at s" "poweroff_at s1 = poweroff_at s"
    and v: "session_valid s1"
  shows "pilot_ledger_valid (replace_last s1 l)"
proof -
  have ne: "sessions l \<noteq> []" and so: "stopped_at s = None" using o s by (simp_all add: has_open_session_def)
  obtain ss where e: "sessions l = ss @ [s]" and c: "\<forall>x \<in> set ss. stopped_at x \<noteq> None"
    and cs: "sessions_consistent (effective_allocations l) 0 0 (\<lambda>_. 0) ss"
    and ls: "last_stop 0 ss \<le> session_started s"
    and al: "deadline_at s - session_started s \<le> min (maximum_pilot_seconds - closed_total ss)
        (effective_allocations l (session_stage s) - stage_closed ss (session_stage s)) + 1 / 1000000"
    and r: "deadline_at s - checkpoint_at s = checkpoint_reserve_seconds"
      "deadline_at s - poweroff_at s = shutdown_reserve_seconds"
    using valid_open_split [OF l ne] so s by metis
  have ea: "effective_allocations (replace_last s1 l) = effective_allocations l"
    by (simp add: effective_allocations_def replace_last_def)
  have "session_allowance s1 \<le> deadline_at s - session_started s"
    by (auto simp: session_allowance_def Let_def same split: option.splits)
  then have "sessions_consistent (effective_allocations l) 0 0 (\<lambda>_. 0) (ss @ [s1])"
    unfolding sessions_consistent_snoc using cs c ls al r by (simp add: same)
  moreover have "sessions (replace_last s1 l) = ss @ [s1]" by (simp add: replace_last_def e)
  moreover have "stage_transfers (replace_last s1 l) = stage_transfers l" by (simp add: replace_last_def)
  ultimately show ?thesis
    using l v unfolding pilot_ledger_valid_def ea e by (simp add: same)
qed

lemma open_observed:
  "session_valid s \<Longrightarrow> stopped_at s = None \<Longrightarrow> kind s = Observed \<and> evidence s = None \<and> stop_confirmation s = None"
  by (auto simp: session_valid_def consistent_times_def split: record_kind.splits)

lemma closed_session_valid:
  assumes "session_valid s" and "stopped_at s = None" and "last_observed_at s \<le> stop"
    and "1 \<le> length c" and "length c \<le> 256"
  shows "session_valid (s\<lparr>stopped_at := Some stop, stop_confirmation := Some c\<rparr>)"
  using assms open_observed [OF assms(1,2)] session_valid_facts(4) [OF assms(1)]
  by (auto simp: session_valid_def session_fields_valid_def consistent_times_def optional_text_def)

text \<open>
  C14: an operator can always close the open session. When the ledger loads, the session is
  the open one, the lock is free, the write succeeds and the confirmation has 1 to 256
  characters, confirming the stop succeeds whatever the clock says: the changed ledger
  never breaks its own rules, the recorded stop is not before the last observation, and a
  clock that ran backwards is answered by charging at least the whole allowance.
\<close>

theorem stop_always_confirmable:
  assumes "load_pilot_ledger d = Inr l" and "active_session l i = Inr s"
    and "lock_outcome env = Lock_Free" and "roomy_call (ledger_write env)"
    and "1 \<le> length c" and "length c \<le> 256"
  shows "\<exists>l' s'. confirm_stopped env i c d = (d\<lparr>ledger_on_disk := Some l'\<rparr>, Inr l') \<and>
    pilot_ledger_valid l' \<and> l' = replace_last s' l \<and> session_identifier s' = i \<and>
    (if now env < last_observed_at s
     then stopped_at s' = Some (max (last_observed_at s) (deadline_at s))
     else stopped_at s' = Some (now env))"
proof -
  define stop where "stop = (if now env < last_observed_at s then max (last_observed_at s) (deadline_at s)
                             else now env)"
  define s' where "s' = s\<lparr>stopped_at := Some stop, stop_confirmation := Some c\<rparr>"
  have s: "sessions l \<noteq> []" "s = last (sessions l)" "stopped_at s = None" "session_identifier s = i"
    using active_session_Inr [OF assms(2)] by auto
  have "last_observed_at s \<le> stop" by (simp add: stop_def)
  then have "session_valid s'"
    unfolding s'_def by (rule closed_session_valid [OF loaded_last_valid [OF assms(1,2)] s(3) _ assms(5,6)])
  then have v: "pilot_ledger_valid (replace_last s' l)"
    using load_Inr [OF assms(1)] s by (intro replace_last_valid) (auto simp: has_open_session_def s'_def)
  have "confirm_stopped env i c d = (d\<lparr>ledger_on_disk := Some (replace_last s' l)\<rparr>, Inr (replace_last s' l))"
    using save_roomy [OF assms(4) v, of d]
    by (simp add: confirm_stopped_def ledger_lock_def Let_def assms(1-3) stop_def [symmetric]
        s'_def [symmetric])
  moreover have "session_identifier s' = i" "stopped_at s' = Some stop" by (simp_all add: s'_def s(4))
  ultimately show ?thesis using v by (auto simp: stop_def)
qed

definition quiet_call :: "real \<Rightarrow> pilot_call" where
  "quiet_call t = \<lparr>lock_outcome = Lock_Free, now = t,
     ledger_write = \<lparr>usage_then = \<lparr>total_bytes = 1000000000000, free_bytes = 500000000000\<rparr>,
        data_bytes = 1000, fault = No_Fault\<rparr>,
     marker_write = \<lparr>usage_then = \<lparr>total_bytes = 1000000000000, free_bytes = 500000000000\<rparr>,
        data_bytes = 1000, fault = No_Fault\<rparr>\<rparr>"

definition sample_disk :: pilot_disk where
  "sample_disk = \<lparr>marker = Good_Marker, ledger_on_disk = Some sample_ledger, other_files = False\<rparr>"

lemma sample_load: "load_pilot_ledger sample_disk = Inr sample_ledger"
  using sample_ledger_valid by (simp add: load_pilot_ledger_def sample_disk_def)

lemma sample_active: "active_session sample_ledger ''s1'' = Inr sample_session"
  by (simp add: active_session_def sample_ledger_def) (simp add: sample_session_def)

lemma quiet_roomy: "roomy_call (ledger_write (quiet_call t))"
  by (simp add: quiet_call_def roomy_call_def require_space_def)

theorem stop_always_confirmable_witness:
  "\<exists>l'. snd (confirm_stopped (quiet_call 2000) ''s1'' ''stopped in console'' sample_disk) = Inr l' \<and>
    pilot_ledger_valid l'"
proof -
  have "lock_outcome (quiet_call 2000) = Lock_Free" by (simp add: quiet_call_def)
  from stop_always_confirmable [OF sample_load sample_active this quiet_roomy,
      of "''stopped in console''"] show ?thesis by auto
qed

text \<open>
  C13: the accounts of the pilot are final. Over every history of initialisations, starts,
  observations, confirmations, attestations, transfers and failed attempts, a stored ledger
  satisfies all its rules, the recorded instance time never shrinks, and a closed session is
  never changed or removed.
\<close>

theorem pilot_accounts_final:
  assumes "pilot_step\<^sup>*\<^sup>* no_ledger d" and "pilot_step\<^sup>*\<^sup>* d d'"
  shows "pilot_disk_valid d' \<and> disk_recorded d \<le> disk_recorded d' \<and> disk_closed d \<subseteq> disk_closed d'"
proof -
  have "pilot_disk_valid no_ledger" by (simp add: pilot_disk_valid_def no_ledger_def)
  then have v: "pilot_disk_valid d" by (rule spending.run_keeps [OF assms(1)])
  from spending.run_keeps [OF assms(2) v] spending.run_meters [OF assms(2) v]
    closing.run_meters [OF assms(2) v] show ?thesis by blast
qed

theorem pilot_accounts_final_witness:
  "pilot_disk_valid (fst (initialize_pilot_budget (quiet_call 5) no_ledger))"
proof -
  obtain d' r where i: "initialize_pilot_budget (quiet_call 5) no_ledger = (d', r)" by fastforce
  then have s: "pilot_step\<^sup>*\<^sup>* no_ledger d'" using pilot_step.initialize by blast
  have "pilot_disk_valid d'" using pilot_accounts_final [OF rtranclp.rtrancl_refl s] by blast
  with i show ?thesis by simp
qed

end
