(* ===== verification/PilotGuard.thy ===== *)
theory PilotGuard
  imports PilotBudget
begin

text \<open>
  The host guard of a paid instance, \<^verbatim>\<open>backend_service/pilot_guard.py\<close>. Its loop reads the
  clock and the ledger again and again; here it runs over a list of ticks that say what one
  iteration found. Its result is the sequence of requests and sleeps. Power off stands in a
  \<^theory_text>\<open>finally\<close> block of the code, after everything else.
\<close>

section \<open>Deadlines\<close>

record guard_deadlines =
  checkpoint_target :: real
  stop_target :: real

definition from_session :: "real \<Rightarrow> real \<Rightarrow> pilot_session \<Rightarrow> guard_deadlines" where
  "from_session wall monotonic s =
    (let t = max wall (last_observed_at s) in
     \<lparr>checkpoint_target = monotonic + max 0 (checkpoint_at s - t),
      stop_target = monotonic + max 0 (poweroff_at s - t)\<rparr>)"

definition shorten :: "real \<Rightarrow> real \<Rightarrow> pilot_session \<Rightarrow> guard_deadlines \<Rightarrow> guard_deadlines" where
  "shorten wall monotonic s g =
    (let current = from_session wall monotonic s in
     \<lparr>checkpoint_target = min (checkpoint_target g) (checkpoint_target current),
      stop_target = min (stop_target g) (stop_target current)\<rparr>)"

section \<open>The loop\<close>

datatype guard_action = Request_Checkpoint | Sleep real | Poweroff

text \<open>
  One iteration: the clock when it starts, the disk and the call of the observation, the two
  clocks read for the shortened targets, and the clock before it sleeps. A failing signal is
  ignored by the code, so a request counts once it was attempted.
\<close>

record guard_tick =
  tick_start :: real
  tick_disk :: pilot_disk
  tick_call :: pilot_call
  tick_wall :: real
  tick_monotonic :: real
  tick_sleep :: real

definition observation :: "string \<Rightarrow> guard_tick \<Rightarrow> pilot_session result" where
  "observation sid t = snd (observe_session (tick_call t) sid (tick_disk t))"

definition sleep_until :: "real \<Rightarrow> bool \<Rightarrow> guard_deadlines \<Rightarrow> guard_tick \<Rightarrow> guard_action" where
  "sleep_until interval requested g t =
    (let next_action = (if requested then stop_target g else checkpoint_target g)
     in Sleep (min interval (max 0 (next_action - tick_sleep t))))"

definition caught :: "exn \<Rightarrow> bool" where
  "caught e \<longleftrightarrow> is_application_failure e \<or> e = OS_Error \<or> e = Value_Error"

text \<open>The handler of the outer \<^theory_text>\<open>except\<close>: a last save request unless one was made.\<close>

definition stop_early :: "bool \<Rightarrow> exn \<Rightarrow> guard_action list" where
  "stop_early requested e = (if caught e \<and> \<not> requested then [Request_Checkpoint] else [])"

text \<open>The flag of the result says that the loop has ended.\<close>

fun guard_loop ::
  "string \<Rightarrow> guard_deadlines \<Rightarrow> bool \<Rightarrow> guard_tick list \<Rightarrow> guard_action list \<times> bool"
where
  "guard_loop sid g requested [] = ([], False)"
| "guard_loop sid g requested (t # ts) =
    (let due = checkpoint_target g \<le> tick_start t \<and> \<not> requested;
         first = (if due then [Request_Checkpoint] else []);
         requested1 = (requested \<or> due)
     in if stop_target g \<le> tick_start t then (first, True)
        else case observation sid t of
          Inl e \<Rightarrow>
            if failure_code e \<noteq> ''pilot_budget_busy''
            then (first @ stop_early requested1 e, True)
            else
              let (rest, ended) = guard_loop sid g requested1 ts
              in (first @ sleep_until 1 requested1 g t # rest, ended)
        | Inr s \<Rightarrow>
            let g1 = shorten (tick_wall t) (tick_monotonic t) s g;
                (rest, ended) = guard_loop sid g1 requested1 ts
            in (first @ sleep_until 5 requested1 g1 t # rest, ended))"

definition run_guard ::
  "pilot_call \<Rightarrow> pilot_disk \<Rightarrow> real \<Rightarrow> real \<Rightarrow> string \<Rightarrow> guard_tick list \<Rightarrow> guard_action list \<times> bool"
where
  "run_guard env d wall monotonic sid ticks =
    (case read_session env sid d of
       Inl e \<Rightarrow> (stop_early False e @ [Poweroff], True)
     | Inr s \<Rightarrow>
         let (actions, ended) = guard_loop sid (from_session wall monotonic s) False ticks
         in (if ended then actions @ [Poweroff] else actions, ended))"

section \<open>Lemmas\<close>

definition commands :: "guard_action list \<Rightarrow> guard_action list" where
  "commands = filter (\<lambda>a. case a of Sleep _ \<Rightarrow> False | _ \<Rightarrow> True)"

lemma commands_simps [simp]:
  "commands [] = []" "commands (xs @ ys) = commands xs @ commands ys"
  "commands (Request_Checkpoint # xs) = Request_Checkpoint # commands xs"
  "commands (Poweroff # xs) = Poweroff # commands xs" "commands (Sleep r # xs) = commands xs"
  by (simp_all add: commands_def)

lemma commands_sleep [simp]: "commands (sleep_until i q g t # xs) = commands xs"
  by (simp add: sleep_until_def Let_def)

lemma pilot_failures_caught [simp]:
  "caught pilot_failure" "caught pilot_busy" "caught pilot_inconsistent" "caught Value_Error" "caught OS_Error"
  by (simp_all add: caught_def is_application_failure_def pilot_failure_def pilot_busy_def
      pilot_inconsistent_def)

lemma load_caught: "load_pilot_ledger d = Inl e \<Longrightarrow> caught e"
  by (auto simp: load_pilot_ledger_def split: if_splits option.splits)

lemma active_caught: "active_session l i = Inl e \<Longrightarrow> caught e"
  by (auto simp: active_session_def split: if_splits)

lemma read_caught: "read_session env i d = Inl e \<Longrightarrow> caught e"
  by (auto simp: read_session_def andThen_eq_Inl split: if_splits dest: load_caught active_caught)

lemma atomic_caught: "atomic_json call x old = (new, Inl e) \<Longrightarrow> caught e"
  by (auto simp: atomic_json_def require_space_def Let_def checkpoint_failure_def caught_def
      is_application_failure_def split: if_splits write_fault.splits)

lemma save_caught: "save_pilot_ledger env l d = (d', Inl e) \<Longrightarrow> caught e"
  by (auto simp: save_pilot_ledger_def Let_def caught_def pilot_inconsistent_def pilot_failure_def
      is_application_failure_def split: if_splits prod.splits sum.splits)

lemma act_bind_lift_Inl:
  "act_bind (act_lift r) f s = (t, Inl e) \<longleftrightarrow>
     (r = Inl e \<and> t = s) \<or> (\<exists>x. r = Inr x \<and> f x s = (t, Inl e))"
  by (cases r) auto

lemma observe_caught: "observe_session env i d = (d', Inl e) \<Longrightarrow> caught e"
  by (auto simp: observe_session_def ledger_lock_def act_bind_lift_Inl Let_def act_bind_Inl
      split: lock_outcome.splits if_splits dest: load_caught active_caught save_caught)

lemma observation_caught: "observation i t = Inl e \<Longrightarrow> caught e"
  unfolding observation_def by (metis observe_caught prod.collapse)

lemma shorten_le: "stop_target (shorten w m s g) \<le> stop_target g"
  "checkpoint_target (shorten w m s g) \<le> checkpoint_target g"
  by (simp_all add: shorten_def Let_def)

lemma read_session_valid: "read_session env i d = Inr s \<Longrightarrow> session_valid s \<and> kind s = Observed"
  using loaded_last_valid open_observed active_session_Inr
  by (auto simp: read_session_def andThen_eq_Inr split: if_splits)

lemma valid_order: "session_valid s \<Longrightarrow> kind s = Observed \<Longrightarrow> checkpoint_at s < poweroff_at s"
  by (simp add: session_valid_def consistent_times_def)

lemma observation_order:
  assumes "observation i t = Inr s"
  shows "checkpoint_at s \<le> poweroff_at s"
proof -
  from assms obtain d' where "observe_session (tick_call t) i (tick_disk t) = (d', Inr s)"
    unfolding observation_def by (metis prod.collapse)
  then obtain l s0 where "load_pilot_ledger (tick_disk t) = Inr l" "active_session l i = Inr s0"
    and s: "s = s0\<lparr>last_observed_at := now (tick_call t)\<rparr>"
    by (auto simp: observe_session_def ledger_lock_def act_bind_Inr Let_def
        split: lock_outcome.splits if_splits)
  then have "session_valid s0" "kind s0 = Observed"
    using loaded_last_valid open_observed active_session_Inr by blast+
  with valid_order [of s0] s show ?thesis by simp
qed

lemma from_session_order:
  "checkpoint_at s \<le> poweroff_at s \<Longrightarrow>
     checkpoint_target (from_session w m s) \<le> stop_target (from_session w m s)"
  by (simp add: from_session_def Let_def)

lemma shorten_order:
  "checkpoint_at s \<le> poweroff_at s \<Longrightarrow> checkpoint_target g \<le> stop_target g \<Longrightarrow>
     checkpoint_target (shorten w m s g) \<le> stop_target (shorten w m s g)"
  using from_session_order [of s w m] by (auto simp: shorten_def Let_def)

lemma guard_loop_commands:
  assumes "checkpoint_target g \<le> stop_target g"
  shows "(q \<longrightarrow> commands (fst (guard_loop i g q ts)) = []) \<and>
    (\<not> q \<longrightarrow> commands (fst (guard_loop i g q ts)) = [Request_Checkpoint] \<or>
       commands (fst (guard_loop i g q ts)) = [] \<and> \<not> snd (guard_loop i g q ts))"
  using assms
proof (induction ts arbitrary: g q)
  case (Cons t ts)
  define q1 where "q1 = (q \<or> checkpoint_target g \<le> tick_start t \<and> \<not> q)"
  show ?case
  proof (cases "stop_target g \<le> tick_start t")
    case True
    with Cons.prems show ?thesis by (auto simp: Let_def)
  next
    case False
    show ?thesis
    proof (cases "observation i t")
      case (Inl e)
      show ?thesis
      proof (cases "failure_code e = ''pilot_budget_busy''")
        case True
        with False Inl Cons.IH [OF Cons.prems, of q1] show ?thesis
          by (auto simp: Let_def q1_def split: prod.splits)
      next
        case busy: False
        with False Inl observation_caught [OF Inl] show ?thesis
          by (auto simp: Let_def stop_early_def)
      qed
    next
      case (Inr s)
      have "checkpoint_target (shorten (tick_wall t) (tick_monotonic t) s g)
          \<le> stop_target (shorten (tick_wall t) (tick_monotonic t) s g)"
        by (rule shorten_order [OF observation_order [OF Inr] Cons.prems])
      from Cons.IH [OF this, of q1] False Inr show ?thesis
        by (auto simp: Let_def q1_def split: prod.splits)
    qed
  qed
qed simp

lemma guard_loop_ends:
  "t \<in> set ts \<Longrightarrow> stop_target g \<le> tick_start t \<Longrightarrow> snd (guard_loop i g q ts)"
proof (induction ts arbitrary: g q)
  case (Cons u us)
  show ?case
  proof (cases "t = u")
    case True
    with Cons.prems show ?thesis by (auto simp: Let_def)
  next
    case False
    with Cons.prems have t: "t \<in> set us" by simp
    have "stop_target (shorten w m s g) \<le> tick_start t" for w m s
      using Cons.prems(2) shorten_le(1) [of w m s g] by linarith
    with Cons.IH [OF t] Cons.prems(2) show ?thesis
      by (auto simp: Let_def split: prod.splits sum.splits) (metis snd_conv)+
  qed
qed simp

text \<open>A sleep never goes past the next target nor lasts longer than five seconds.\<close>

fun sleeps_bounded :: "guard_action list \<Rightarrow> bool" where
  "sleeps_bounded [] = True"
| "sleeps_bounded (Sleep r # xs) = (0 \<le> r \<and> r \<le> 5 \<and> sleeps_bounded xs)"
| "sleeps_bounded (x # xs) = sleeps_bounded xs"

lemma sleeps_bounded_append [simp]: "sleeps_bounded (xs @ ys) \<longleftrightarrow> sleeps_bounded xs \<and> sleeps_bounded ys"
  by (induction xs rule: sleeps_bounded.induct) auto

lemma guard_loop_sleeps: "sleeps_bounded (fst (guard_loop i g q ts))"
proof (induction ts arbitrary: g q)
  case (Cons t ts)
  have "sleeps_bounded (sleep_until 1 q g t # xs) = sleeps_bounded xs"
    "sleeps_bounded (sleep_until 5 q g t # xs) = sleeps_bounded xs" for q g xs
    by (simp_all add: sleep_until_def Let_def min_le_iff_disj)
  with Cons show ?case
    by (auto simp: Let_def stop_early_def split: prod.splits sum.splits) (metis fst_conv)+
qed simp

section \<open>Properties\<close>

text \<open>
  C15: the guard always turns the instance off and always asks for a save first. For every
  ledger, clock and sequence of ticks, a run that has ended gave exactly one save request
  and then the power-off, as its last action, also when the ledger became unreadable or the
  clock ran backwards; and a run that has not ended yet has not turned anything off.
\<close>

theorem guard_saves_then_powers_off:
  "case run_guard env d wall monotonic sid ticks of
     (actions, ended) \<Rightarrow> sleeps_bounded actions \<and>
       (if ended then commands actions = [Request_Checkpoint, Poweroff] \<and> last actions = Poweroff
        else commands actions \<in> {[], [Request_Checkpoint]})"
proof (cases "read_session env sid d")
  case (Inl e)
  with read_caught [OF Inl] show ?thesis by (simp add: run_guard_def stop_early_def)
next
  case (Inr s)
  have "checkpoint_at s \<le> poweroff_at s"
    using read_session_valid [OF Inr] valid_order [of s] by auto
  note g = guard_loop_commands [OF from_session_order [OF this, of wall monotonic], where q = False and i = sid and ts = ticks]
  obtain actions ended where a:
    "guard_loop sid (from_session wall monotonic s) False ticks = (actions, ended)" by fastforce
  with guard_loop_sleeps [where i = sid and g = "from_session wall monotonic s" and q = False and ts = ticks]
  have "sleeps_bounded actions" by simp
  with a g Inr show ?thesis by (auto simp: run_guard_def)
qed

text \<open>
  C16: the guard stops in time. Once an iteration starts at or after the power-off time that
  was computed from the session the guard first read, the run has ended with the power-off,
  whatever the ledger says meanwhile: later reads only move the targets forward.
\<close>

theorem guard_stops_in_time:
  assumes "read_session env sid d = Inr s" and "t \<in> set ticks"
    and "monotonic + max 0 (poweroff_at s - max wall (last_observed_at s)) \<le> tick_start t"
  shows "snd (run_guard env d wall monotonic sid ticks) \<and>
    last (fst (run_guard env d wall monotonic sid ticks)) = Poweroff"
proof -
  have "stop_target (from_session wall monotonic s) \<le> tick_start t"
    using assms(3) by (simp add: from_session_def Let_def)
  from guard_loop_ends [OF assms(2) this, where i = sid and q = False] assms(1) show ?thesis
    by (auto simp: run_guard_def split: prod.splits)
qed

definition late_tick :: guard_tick where
  "late_tick = \<lparr>tick_start = 9000, tick_disk = sample_disk, tick_call = quiet_call 9000,
     tick_wall = 9000, tick_monotonic = 9000, tick_sleep = 9000\<rparr>"

lemma sample_read: "read_session (quiet_call 2000) ''s1'' sample_disk = Inr sample_session"
  using sample_load sample_active
  by (simp add: read_session_def quiet_call_def) (simp add: sample_session_def)

theorem guard_stops_in_time_witness:
  "snd (run_guard (quiet_call 2000) sample_disk 2000 0 ''s1'' [late_tick])"
  using guard_stops_in_time [OF sample_read, of late_tick "[late_tick]" 0 2000]
  by (simp add: late_tick_def) (simp add: sample_session_def)

end
