(* ===== verification/JobStore.thy ===== *)
theory JobStore
  imports Prelude Interfaces "HOL-Library.Char_ord" "HOL-Library.List_Lexorder" "HOL-Library.Product_Lexorder" "HOL-Library.Multiset"
begin

text \<open>
  The durable catalogue of local jobs, \<^verbatim>\<open>backend_service/workflow_store.py\<close>, with the
  records of \<^verbatim>\<open>schemas/jobs.py\<close>: a table of jobs, an event log with autoincremented
  identifiers and the accepted mutations. Serialising a record to JSON and reading it back
  is taken to return the record. A moment is an integer number of microseconds.
\<close>

section \<open>Records\<close>

datatype job_status =
    Queued | Running | Paused | Stopped | Completed | Cancelled | Failed | Interrupted | Needs_Input

datatype job_action = Pause | Resume | Stop | Cancel | Supply_Missing_Inputs

datatype job_operation = Train | Evaluate | Export | Prepare_Dataset | Fetch_Dataset | Encode | Decode

datatype json =
    JNull | JBool bool | JNumber real | JText string | JArray "json list" | JObject "(string \<times> json) list"

record job_snapshot =
  job_identifier :: string
  status :: job_status
  phase :: string
  configuration :: json
  available_actions :: "job_action list"
  created_at :: int
  updated_at :: int
  progress :: "real option"
  estimated_seconds_remaining :: "int option"
  operation :: job_operation
  experiment_identifier :: "string option"
  frozen_settings :: json
  job_result :: "json option"
  job_error :: "string option"
  metrics :: json
  requested_action :: "job_action option"
  latest_event_identifier :: "nat option"

definition snapshot_valid :: "job_snapshot \<Rightarrow> bool" where
  "snapshot_valid j \<longleftrightarrow>
     1 \<le> length (job_identifier j) \<and> length (job_identifier j) \<le> 128 \<and>
     1 \<le> length (phase j) \<and> length (phase j) \<le> 128 \<and>
     (case progress j of None \<Rightarrow> True | Some p \<Rightarrow> 0 \<le> p \<and> p \<le> 1) \<and>
     (case estimated_seconds_remaining j of None \<Rightarrow> True | Some s \<Rightarrow> 0 \<le> s)"

record job_event =
  event_identifier :: nat
  event_job :: string
  event_status :: job_status
  event_phase :: string
  event_created_at :: int
  event_snapshot :: job_snapshot

section \<open>The store\<close>

text \<open>
  The three tables, the counter behind \<^verbatim>\<open>AUTOINCREMENT\<close>, and the outcomes of the coming
  connections: each connection uses up one entry, and \<^term>\<open>True\<close> makes the database fail,
  after which the transaction has no effect. The stored request has the type \<open>'q\<close>.
\<close>

record 'q job_store =
  jobs :: "(string \<times> job_snapshot \<times> 'q) list"
  events :: "(nat \<times> job_event) list"
  sequence :: nat
  mutations :: "(string \<times> string \<times> string) list"
  faults :: "bool list"

definition empty_store :: "'q job_store" where
  "empty_store = \<lparr>jobs = [], events = [], sequence = 0, mutations = [], faults = []\<rparr>"

definition connection :: "('q job_store, 'a) action \<Rightarrow> ('q job_store, 'a) action" where
  "connection body s =
    (case faults s of
       [] \<Rightarrow> body s
     | True # rest \<Rightarrow> (s\<lparr>faults := rest\<rparr>, Inl Storage_Failure)
     | False # rest \<Rightarrow> body (s\<lparr>faults := rest\<rparr>))"

definition identifier_conflict :: exn where
  "identifier_conflict = Application_Failure ''request_identifier_conflict'' 409"

definition job_not_found :: exn where
  "job_not_found = Application_Failure ''job_not_found'' 404"

definition lookup_job :: "string \<Rightarrow> 'q job_store \<Rightarrow> job_snapshot option" where
  "lookup_job i s = map_option fst (map_of (jobs s) i)"

definition get_job :: "string \<Rightarrow> ('q job_store, job_snapshot) action" where
  "get_job i = connection (act_bind act_get (\<lambda>s.
     case lookup_job i s of None \<Rightarrow> act_raise job_not_found | Some j \<Rightarrow> act_return j))"

definition get_request :: "string \<Rightarrow> ('q job_store, 'q) action" where
  "get_request i = connection (act_bind act_get (\<lambda>s.
     case map_of (jobs s) i of None \<Rightarrow> act_raise job_not_found | Some (j, q) \<Rightarrow> act_return q))"

definition replay :: "string \<Rightarrow> string \<Rightarrow> ('q job_store, job_snapshot option) action" where
  "replay i fingerprint =
    act_bind (connection (act_bind act_get (\<lambda>s. act_return (map_of (mutations s) i)))) (\<lambda>row.
      case row of
        None \<Rightarrow> act_return None
      | Some (fp, job) \<Rightarrow>
          if fp \<noteq> fingerprint then act_raise identifier_conflict
          else act_bind (get_job job) (\<lambda>j. act_return (Some j)))"

definition snapshots :: "'q job_store \<Rightarrow> job_snapshot list" where
  "snapshots s = map (\<lambda>(i, j, q). j) (jobs s)"

definition list_jobs :: "('q job_store, job_snapshot list) action" where
  "list_jobs = act_bind (connection (act_bind act_get (\<lambda>s. act_return (snapshots s)))) (\<lambda>js.
     act_return (sort_key (\<lambda>j. (created_at j, job_identifier j)) js))"

definition update_payload :: "job_snapshot \<Rightarrow> (string \<times> job_snapshot \<times> 'q) list \<Rightarrow> (string \<times> job_snapshot \<times> 'q) list" where
  "update_payload j rows = map (\<lambda>(i, k, q). if i = job_identifier j then (i, j, q) else (i, k, q)) rows"

definition make_event :: "nat \<Rightarrow> job_snapshot \<Rightarrow> job_event" where
  "make_event n j = \<lparr>event_identifier = n, event_job = job_identifier j, event_status = status j,
     event_phase = phase j, event_created_at = updated_at j, event_snapshot = j\<rparr>"

text \<open>
  One transaction: the event row takes the next identifier, the job row is updated or
  inserted, and an accepted mutation is recorded. A second row under a primary key is a
  database error, which rolls the transaction back.
\<close>

definition stamped :: "job_snapshot \<Rightarrow> 'q job_store \<Rightarrow> job_snapshot" where
  "stamped j s = j\<lparr>latest_event_identifier := Some (Suc (sequence s))\<rparr>"

definition write_rows :: "job_snapshot \<Rightarrow> 'q option \<Rightarrow> (string \<times> string) option \<Rightarrow> 'q job_store \<Rightarrow> 'q job_store" where
  "write_rows j0 request mutation s =
    (let n = Suc (sequence s); j = stamped j0 s in
     s\<lparr>jobs := (case request of None \<Rightarrow> update_payload j (jobs s)
                | Some q \<Rightarrow> jobs s @ [(job_identifier j, j, q)]),
       events := events s @ [(n, make_event n j)],
       sequence := n,
       mutations := (case mutation of None \<Rightarrow> mutations s
                     | Some (i, fp) \<Rightarrow> mutations s @ [(i, fp, job_identifier j)])\<rparr>)"

definition clashes :: "job_snapshot \<Rightarrow> 'q option \<Rightarrow> (string \<times> string) option \<Rightarrow> 'q job_store \<Rightarrow> bool" where
  "clashes j request mutation s \<longleftrightarrow>
     (request \<noteq> None \<and> map_of (jobs s) (job_identifier j) \<noteq> None) \<or>
     (case mutation of None \<Rightarrow> False | Some (i, fp) \<Rightarrow> map_of (mutations s) i \<noteq> None)"

definition save :: "job_snapshot \<Rightarrow> 'q option \<Rightarrow> (string \<times> string) option \<Rightarrow> ('q job_store, job_snapshot) action" where
  "save j0 request mutation = connection (act_bind act_get (\<lambda>s.
     if clashes j0 request mutation s then act_raise Storage_Failure
     else act_bind (act_modify (write_rows j0 request mutation)) (\<lambda>_. act_return (stamped j0 s))))"

definition page_size :: nat where "page_size = 200"

definition event_page :: "nat \<Rightarrow> ('q job_store, job_event list) action" where
  "event_page after_id = connection (act_bind act_get (\<lambda>s.
     act_return (map snd (take page_size (sort_key fst (filter (\<lambda>(n, e). after_id < n) (events s)))))))"

definition latest_event :: "('q job_store, nat) action" where
  "latest_event = connection (act_bind act_get (\<lambda>s. act_return (Max (set (0 # map fst (events s))))))"

section \<open>Invariant of the store\<close>

text \<open>The snapshot of a job as a reader of the whole event log reconstructs it.\<close>

definition log_latest :: "(nat \<times> job_event) list \<Rightarrow> string \<Rightarrow> job_snapshot option" where
  "log_latest es i = map_option event_snapshot (List.find (\<lambda>e. event_job e = i) (map snd (rev es)))"

definition store_valid :: "'q job_store \<Rightarrow> bool" where
  "store_valid s \<longleftrightarrow>
     map fst (events s) = [1..<Suc (sequence s)] \<and>
     (\<forall>(n, e) \<in> set (events s). event_identifier e = n \<and> event_job e = job_identifier (event_snapshot e) \<and>
        event_status e = status (event_snapshot e) \<and> latest_event_identifier (event_snapshot e) = Some n) \<and>
     distinct (map fst (jobs s)) \<and>
     (\<forall>(i, j, q) \<in> set (jobs s). job_identifier j = i) \<and>
     (\<forall>i. lookup_job i s = log_latest (events s) i) \<and>
     distinct (map fst (mutations s)) \<and>
     (\<forall>(i, fp, job) \<in> set (mutations s). lookup_job job s \<noteq> None)"

lemma connection_cases:
  "(\<exists>rest. connection body s = (s\<lparr>faults := rest\<rparr>, Inl Storage_Failure)) \<or>
   (\<exists>rest. connection body s = body (s\<lparr>faults := rest\<rparr>))"
proof (cases "faults s")
  case Nil
  then have e: "s = s\<lparr>faults := []\<rparr>" by (cases s) simp
  have "connection body s = body s" using Nil by (simp add: connection_def)
  also have "\<dots> = body (s\<lparr>faults := []\<rparr>)" using e by (rule arg_cong)
  finally show ?thesis by blast
next
  case (Cons b rest)
  then show ?thesis by (cases b) (auto simp: connection_def)
qed

text \<open>A reading call changes nothing but the outcomes of later connections.\<close>

definition same_tables :: "'q job_store \<Rightarrow> 'q job_store \<Rightarrow> bool" where
  "same_tables s t \<longleftrightarrow> (\<exists>fs. t = s\<lparr>faults := fs\<rparr>)"

lemma same_tables_refl [simp]: "same_tables s s"
proof -
  have "s = s\<lparr>faults := faults s\<rparr>" by simp
  then show ?thesis unfolding same_tables_def by blast
qed

lemma same_tables_trans: "same_tables s t \<Longrightarrow> same_tables t u \<Longrightarrow> same_tables s u"
  by (auto simp: same_tables_def)

lemma same_tables_lookup: "same_tables s t \<Longrightarrow> lookup_job i t = lookup_job i s"
  by (auto simp: same_tables_def lookup_job_def)

lemma same_tables_valid: "same_tables s t \<Longrightarrow> store_valid t = store_valid s"
  by (auto simp: same_tables_def store_valid_def lookup_job_def)

lemma get_job_effect:
  assumes "get_job i s = (t, r)"
  shows "same_tables s t \<and> (\<forall>j. r = Inr j \<longrightarrow> lookup_job i s = Some j)"
  using assms connection_cases [of "act_bind act_get (\<lambda>s.
     case lookup_job i s of None \<Rightarrow> act_raise job_not_found | Some j \<Rightarrow> act_return j)" s]
  by (auto simp: get_job_def same_tables_def lookup_job_def split: option.splits)

lemma get_request_effect:
  assumes "get_request i s = (t, r)"
  shows "same_tables s t \<and> (\<forall>q. r = Inr q \<longrightarrow> (\<exists>j. map_of (jobs s) i = Some (j, q)))"
  using assms connection_cases [of "act_bind act_get (\<lambda>s.
     case map_of (jobs s) i of None \<Rightarrow> act_raise job_not_found | Some (j, q) \<Rightarrow> act_return q)" s]
  by (auto simp: get_request_def same_tables_def split: option.splits prod.splits)

lemma snapshots_faults [simp]: "snapshots (s\<lparr>faults := fs\<rparr>) = snapshots s"
  by (simp add: snapshots_def)

lemma list_jobs_effect:
  assumes "list_jobs s = (t, r)"
  shows "same_tables s t \<and> (\<forall>js. r = Inr js \<longrightarrow> mset js = mset (snapshots s))"
  using assms connection_cases [of "act_bind act_get (\<lambda>s. act_return (snapshots s))" s]
  by (auto simp: list_jobs_def same_tables_def act_bind_def [of "connection m" for m])

lemma replay_effect:
  assumes "replay i fp s = (t, r)"
  shows "same_tables s t \<and>
    (\<forall>j. r = Inr (Some j) \<longrightarrow> (\<exists>job. map_of (mutations s) i = Some (fp, job) \<and> lookup_job job s = Some j)) \<and>
    (r = Inr None \<longrightarrow> map_of (mutations s) i = None)"
proof -
  let ?first = "connection (act_bind act_get (\<lambda>s. act_return (map_of (mutations s) i)))"
  obtain u q where f: "?first s = (u, q)" by fastforce
  then have u: "same_tables s u" and q: "\<And>row. q = Inr row \<Longrightarrow> row = map_of (mutations s) i"
    using connection_cases [of "act_bind act_get (\<lambda>s. act_return (map_of (mutations s) i))" s]
    by (auto simp: same_tables_def)
  show ?thesis
  proof (cases q)
    case (Inl e)
    with assms f u show ?thesis by (auto simp: replay_def act_bind_def)
  next
    case (Inr row)
    have e: "replay i fp s = (case row of
        None \<Rightarrow> act_return None
      | Some (fp', job) \<Rightarrow>
          if fp' \<noteq> fp then act_raise identifier_conflict
          else act_bind (get_job job) (\<lambda>j. act_return (Some j))) u"
      using f Inr unfolding replay_def by (subst act_bind_def) simp
    show ?thesis
    proof (cases row)
      case None
      with e assms u q [OF Inr] show ?thesis by auto
    next
      case (Some p)
      obtain fp' job where p: "p = (fp', job)" by fastforce
      show ?thesis
      proof (cases "fp' = fp")
        case False
        with Some p e assms u show ?thesis by auto
      next
        case True
        obtain v w where g: "get_job job u = (v, w)" by fastforce
        from get_job_effect [OF g] have "same_tables u v" "\<And>j. w = Inr j \<Longrightarrow> lookup_job job u = Some j" by auto
        with g True Some p e assms u q [OF Inr] show ?thesis
          by (cases w) (auto simp: act_bind_def intro: same_tables_trans simp: same_tables_lookup)
      qed
    qed
  qed
qed

section \<open>What a save does\<close>

lemma save_row_effect:
  assumes "save j req mut s = (t, r)"
  shows "(same_tables s t \<and> r = Inl Storage_Failure) \<or>
    (\<exists>u. same_tables s u \<and> t = write_rows j req mut u \<and> r = Inr (stamped j u) \<and>
       (req \<noteq> None \<longrightarrow> lookup_job (job_identifier j) s = None) \<and>
       (\<forall>i fp. mut = Some (i, fp) \<longrightarrow> map_of (mutations s) i = None))"
proof -
  let ?body = "act_bind act_get (\<lambda>s.
     if clashes j req mut s then act_raise Storage_Failure
     else act_bind (act_modify (write_rows j req mut)) (\<lambda>_. act_return (stamped j s)))"
  from connection_cases [of ?body s] show ?thesis
  proof
    assume "\<exists>rest. connection ?body s = (s\<lparr>faults := rest\<rparr>, Inl Storage_Failure)"
    with assms show ?thesis by (auto simp: save_def same_tables_def)
  next
    assume "\<exists>rest. connection ?body s = ?body (s\<lparr>faults := rest\<rparr>)"
    then obtain fs where c: "connection ?body s = ?body (s\<lparr>faults := fs\<rparr>)" by blast
    have cl: "clashes j req mut (s\<lparr>faults := fs\<rparr>) = clashes j req mut s"
      by (cases mut) (simp_all add: clashes_def)
    have st: "same_tables s (s\<lparr>faults := fs\<rparr>)" by (auto simp: same_tables_def)
    from assms c have e: "?body (s\<lparr>faults := fs\<rparr>) = (t, r)" by (simp add: save_def)
    show ?thesis
    proof (cases "clashes j req mut s")
      case True
      with e st show ?thesis by (simp add: cl)
    next
      case False
      with e have "t = write_rows j req mut (s\<lparr>faults := fs\<rparr>)" "r = Inr (stamped j (s\<lparr>faults := fs\<rparr>))"
        by (simp_all add: cl)
      moreover have "req \<noteq> None \<longrightarrow> lookup_job (job_identifier j) s = None"
        using False unfolding clashes_def lookup_job_def by (cases "map_of (jobs s) (job_identifier j)") simp_all
      moreover have "\<forall>i fp. mut = Some (i, fp) \<longrightarrow> map_of (mutations s) i = None"
      proof (intro allI impI)
        fix i fp assume "mut = Some (i, fp)"
        with False show "map_of (mutations s) i = None"
          unfolding clashes_def by (cases "map_of (mutations s) i") simp_all
      qed
      ultimately show ?thesis using st by blast
    qed
  qed
qed

lemma lookup_update:
  assumes "\<forall>(i, k, q) \<in> set rows. job_identifier k = i"
  shows "map_option fst (map_of (update_payload j rows) i)
    = (if i = job_identifier j \<and> map_of rows i \<noteq> None then Some j else map_option fst (map_of rows i))"
  using assms by (induction rows) (auto simp: update_payload_def)

lemma update_payload_keys [simp]: "map fst (update_payload j rows) = map fst rows"
  by (induction rows) (auto simp: update_payload_def)

lemma lookup_write:
  assumes "store_valid s"
    and "req \<noteq> None \<Longrightarrow> lookup_job (job_identifier j) s = None"
    and "req = None \<Longrightarrow> lookup_job (job_identifier j) s \<noteq> None"
  shows "lookup_job i (write_rows j req mut s)
    = (if i = job_identifier j then Some (stamped j s) else lookup_job i s)"
proof (cases req)
  case None
  have "\<forall>(i, k, q) \<in> set (jobs s). job_identifier k = i" using assms(1) by (simp add: store_valid_def)
  from lookup_update [OF this, of "stamped j s" i] None assms(3) show ?thesis
    by (auto simp: lookup_job_def write_rows_def Let_def stamped_def)
next
  case (Some q)
  with assms(2) show ?thesis
    by (auto simp: lookup_job_def write_rows_def Let_def stamped_def map_add_def split: option.splits)
qed

lemma log_latest_snoc:
  "log_latest (es @ [(n, make_event n j)]) i = (if i = job_identifier j then Some j else log_latest es i)"
  by (simp add: log_latest_def make_event_def)

lemma write_rows_valid:
  assumes v: "store_valid s"
    and new: "req \<noteq> None \<Longrightarrow> lookup_job (job_identifier j) s = None"
    and old: "req = None \<Longrightarrow> lookup_job (job_identifier j) s \<noteq> None"
    and mut: "\<And>i fp. mut = Some (i, fp) \<Longrightarrow> map_of (mutations s) i = None"
  shows "store_valid (write_rows j req mut s)"
proof -
  let ?t = "write_rows j req mut s" and ?n = "Suc (sequence s)" and ?j = "stamped j s"
  note look = lookup_write [OF v new old, where mut = mut]
  have js: "job_identifier ?j = job_identifier j" by (simp add: stamped_def)
  have ev: "events ?t = events s @ [(?n, make_event ?n ?j)]" and sq: "sequence ?t = ?n"
    by (simp_all add: write_rows_def Let_def)
  have "map fst (events ?t) = [1..<Suc (sequence ?t)]"
    using v by (simp add: ev sq store_valid_def)
  moreover have "\<forall>(n, e) \<in> set (events ?t). event_identifier e = n \<and>
      event_job e = job_identifier (event_snapshot e) \<and> event_status e = status (event_snapshot e) \<and>
      latest_event_identifier (event_snapshot e) = Some n"
    using v by (auto simp: ev store_valid_def make_event_def stamped_def)
  moreover have "distinct (map fst (jobs ?t))"
  proof (cases req)
    case None
    then show ?thesis using v by (simp add: write_rows_def Let_def store_valid_def)
  next
    case (Some q)
    then have "job_identifier j \<notin> set (map fst (jobs s))"
      using new by (simp add: lookup_job_def map_of_eq_None_iff)
    with Some v show ?thesis by (simp add: write_rows_def Let_def store_valid_def stamped_def)
  qed
  moreover have "\<forall>(i, k, q) \<in> set (jobs ?t). job_identifier k = i"
    using v by (cases req) (auto simp: write_rows_def Let_def store_valid_def update_payload_def split: if_splits)
  moreover have "\<forall>i. lookup_job i ?t = log_latest (events ?t) i"
    using v js by (auto simp: look ev log_latest_snoc store_valid_def)
  moreover have "distinct (map fst (mutations ?t))"
    using v mut by (cases mut) (auto simp: write_rows_def Let_def store_valid_def map_of_eq_None_iff)
  moreover have "\<forall>(i, fp, job) \<in> set (mutations ?t). lookup_job job ?t \<noteq> None"
  proof -
    have "set (mutations ?t) \<subseteq> set (mutations s) \<union> {(i, fp, job_identifier j) | i fp. True}"
      by (cases mut) (auto simp: write_rows_def Let_def stamped_def)
    moreover have "lookup_job (job_identifier j) ?t \<noteq> None" by (simp add: look)
    moreover have "lookup_job job s \<noteq> None \<Longrightarrow> lookup_job job ?t \<noteq> None" for job by (simp add: look)
    moreover have "\<forall>(i, fp, job) \<in> set (mutations s). lookup_job job s \<noteq> None"
      using v unfolding store_valid_def by (elim conjE)
    ultimately show ?thesis by blast
  qed
  ultimately show ?thesis unfolding store_valid_def by blast
qed

end
