(* ===== verification/InferenceAdmission.thy ===== *)
theory InferenceAdmission
  imports Frame JobStore
begin

text \<open>
  Admission of encode and decode jobs (\<^verbatim>\<open>backend_service/inference_admission.py\<close>), the
  request and record types of \<^verbatim>\<open>schemas/inference_jobs.py\<close>, and the two in-memory stores of
  \<^verbatim>\<open>backend_service/inference_secrets.py\<close>. The stored image record and the installed model
  are what \<^verbatim>\<open>read_record\<close> and \<^verbatim>\<open>resolve\<close> return, so they are arguments here. The
  replacement text of a failure is fixed per code. Moments are microseconds.
\<close>

section \<open>Requests and records\<close>

definition maximum_message_size :: int where "maximum_message_size = 1024"
definition maximum_password_length :: nat where "maximum_password_length = 1024"
definition maximum_inference_jobs :: nat where "maximum_inference_jobs = 8"
definition decoded_text_lifetime_seconds :: int where "decoded_text_lifetime_seconds = 300"

datatype image_purpose = Cover | Encoded_Image

record stored_image =
  purpose :: image_purpose
  prepared_width :: int
  prepared_height :: int

record installed_model =
  installed_compatibility :: string
  minimum_side :: int
  maximum_side :: int

text \<open>An encode request carries a message, a decode request does not.\<close>

record inference_request =
  inference_client :: string
  image_reference :: string
  requested_model :: string
  request_message :: "pystr option"
  request_password :: pystr

definition inference_request_valid :: "inference_request \<Rightarrow> bool" where
  "inference_request_valid q \<longleftrightarrow>
     (case request_message q of None \<Rightarrow> True | Some m \<Rightarrow> int (length m) \<le> maximum_message_size) \<and>
     1 \<le> length (request_password q) \<and> length (request_password q) \<le> maximum_password_length"

definition request_operation :: "inference_request \<Rightarrow> job_operation" where
  "request_operation q = (if request_message q = None then Decode else Encode)"

record inference_record =
  record_operation :: job_operation
  record_image :: string
  record_model :: string
  message_byte_count :: int
  record_width :: int
  record_height :: int

definition inference_record_valid :: "inference_record \<Rightarrow> bool" where
  "inference_record_valid r \<longleftrightarrow>
     record_operation r \<in> {Encode, Decode} \<and>
     0 \<le> message_byte_count r \<and> message_byte_count r \<le> maximum_message_size \<and>
     512 \<le> record_width r \<and> record_width r \<le> 1024 \<and>
     512 \<le> record_height r \<and> record_height r \<le> 1024"

section \<open>Admission\<close>

definition model_range_failure :: exn where
  "model_range_failure = Application_Failure ''image_outside_model_range'' 422"

definition check_model_range :: "installed_model \<Rightarrow> int \<Rightarrow> int \<Rightarrow> unit result" where
  "check_model_range m w h =
     (if \<not> list_all (\<lambda>side. minimum_side m \<le> side \<and> side \<le> maximum_side m) [w, h]
      then Inl model_range_failure else Inr ())"

definition message_bytes :: "pystr \<Rightarrow> int \<Rightarrow> int result" where
  "message_bytes message limit =
     (case encode_utf8 message of
        None \<Rightarrow> Inl (Application_Failure ''invalid_message'' 422)
      | Some bs \<Rightarrow>
          let count = int (length bs) in
          if count > limit then Inl (Application_Failure ''message_too_long'' 422) else Inr count)"

definition admit_inference ::
  "stored_image result \<Rightarrow> installed_model result \<Rightarrow> inference_request \<Rightarrow> inference_record result"
where
  "admit_inference read_record resolve q =
    (let operation = request_operation q in
     andThen read_record (\<lambda>image.
     andThen (ensure (purpose image = (if operation = Encode then Cover else Encoded_Image))
               (Application_Failure ''image_purpose_mismatch'' 422)) (\<lambda>_.
     andThen resolve (\<lambda>model.
     let w = prepared_width image; h = prepared_height image in
     andThen (check_model_range model w h) (\<lambda>_.
     andThen (password_bytes (request_password q)) (\<lambda>_.
     andThen (case request_message q of
                None \<Rightarrow> Inr 0
              | Some message \<Rightarrow>
                  andThen (calculate_capacity
                    \<lparr>width = w, height = h, protocol_version = 1, profile_identifier = ''test_only_v1'',
                     compatibility_identifier = installed_compatibility model\<rparr>) (\<lambda>capacity.
                  message_bytes message (maximum_message_bytes capacity))) (\<lambda>count.
     let r = \<lparr>record_operation = operation, record_image = image_reference q,
              record_model = requested_model q, message_byte_count = count,
              record_width = w, record_height = h\<rparr> in
     if inference_record_valid r then Inr r else Inl Value_Error)))))))"

section \<open>Job secrets\<close>

type_synonym secrets = "(string \<times> pystr) list"

definition maximum_secret_bytes :: nat where "maximum_secret_bytes = 4096"

definition queue_full_failure :: exn where
  "queue_full_failure = Application_Failure ''inference_queue_full'' 409"

text \<open>The length of one character under UTF-8 with \<^verbatim>\<open>surrogatepass\<close>.\<close>

definition encoded_size :: "nat \<Rightarrow> nat" where
  "encoded_size c = (if c < 0x80 then 1 else if c < 0x800 then 2 else if c < 0x10000 then 3 else 4)"

definition secret_size :: "secrets \<Rightarrow> nat" where
  "secret_size s = sum_list (map (\<lambda>(k, v). length k + sum_list (map encoded_size v)) s)"

definition request_secrets :: "inference_request \<Rightarrow> secrets" where
  "request_secrets q = (''password'', request_password q) #
     (case request_message q of None \<Rightarrow> [] | Some m \<Rightarrow> [(''message'', m)])"

type_synonym secret_store = "(string \<times> secrets) list"

definition put_secrets :: "nat \<Rightarrow> string \<Rightarrow> secrets \<Rightarrow> (secret_store, unit) action" where
  "put_secrets capacity job s entries =
    (if secret_size s > maximum_secret_bytes then (entries, Inl Value_Error)
     else if job \<notin> set (dict_keys entries) \<and> capacity \<le> length entries then (entries, Inl queue_full_failure)
     else (AList.update job s entries, Inr ()))"

definition pop_secrets :: "string \<Rightarrow> (secret_store, secrets option) action" where
  "pop_secrets job entries = (AList.delete job entries, Inr (dict_get entries job))"

definition discard_secrets :: "string \<Rightarrow> (secret_store, unit) action" where
  "discard_secrets job entries = (AList.delete job entries, Inr ())"

section \<open>Recovered text\<close>

record decoded_text =
  decoded_job :: string
  decoded_content :: pystr
  byte_count :: int
  expires_at :: int

definition decoded_text_valid :: "decoded_text \<Rightarrow> bool" where
  "decoded_text_valid t \<longleftrightarrow>
     1 \<le> length (decoded_job t) \<and> length (decoded_job t) \<le> 128 \<and>
     int (length (decoded_content t)) \<le> maximum_message_size \<and>
     0 \<le> byte_count t \<and> byte_count t \<le> maximum_message_size"

type_synonym text_store = "(string \<times> decoded_text) list"

definition sweep_texts :: "int \<Rightarrow> (text_store, nat) action" where
  "sweep_texts now entries =
    (let expired = filter (\<lambda>(k, e). expires_at e \<le> now) entries in
     (filter (\<lambda>(k, e). \<not> expires_at e \<le> now) entries, Inr (length expired)))"

definition put_text :: "int \<Rightarrow> int \<Rightarrow> int \<Rightarrow> string \<Rightarrow> pystr \<Rightarrow> (text_store, decoded_text) action" where
  "put_text lifetime sweep_time now job content =
    act_bind (sweep_texts sweep_time) (\<lambda>_.
    case encode_utf8 content of
      None \<Rightarrow> act_raise Value_Error
    | Some bs \<Rightarrow>
        let e = \<lparr>decoded_job = job, decoded_content = content, byte_count = int (length bs),
                 expires_at = now + lifetime\<rparr> in
        if \<not> decoded_text_valid e then act_raise Value_Error
        else act_bind (act_modify (AList.update job e)) (\<lambda>_. act_return e))"

definition get_text :: "int \<Rightarrow> string \<Rightarrow> (text_store, decoded_text option) action" where
  "get_text now job =
    act_bind (sweep_texts now) (\<lambda>_. act_bind act_get (\<lambda>entries. act_return (dict_get entries job)))"

definition discard_text :: "string \<Rightarrow> (text_store, unit) action" where
  "discard_text job = act_modify (AList.delete job)"

section \<open>What admission guarantees\<close>

lemma encode_point_size: "encode_point c = Some bs \<Longrightarrow> length bs = encoded_size c"
  by (auto simp: encode_point_def encoded_size_def split: if_splits)

lemma encode_utf8_size: "encode_utf8 s = Some bs \<Longrightarrow> sum_list (map encoded_size s) = length bs"
  by (induction s arbitrary: bs) (auto simp: encode_point_size split: option.splits)

lemma password_bytes_size:
  "password_bytes p = Inr bs \<Longrightarrow> sum_list (map encoded_size p) = length bs \<and> length bs \<le> 1024"
  by (auto simp: password_bytes_def encode_utf8_size split: if_splits option.splits)

lemma capacity_limit:
  "calculate_capacity c = Inr p \<Longrightarrow> maximum_message_bytes p \<le> 1024"
proof -
  assume "calculate_capacity c = Inr p"
  then obtain pixels where "p = layout_of pixels"
    unfolding calculate_capacity_def andThen_eq_Inr Let_def if_Inl_Inr by (metis Inl_Inr_False Inr_inject)
  moreover have "maximum_message_bytes (layout_of pixels) \<le> 1024"
    unfolding layout_of_def Let_def by simp
  ultimately show ?thesis by simp
qed

lemma message_bytes_size:
  "message_bytes m limit = Inr n \<Longrightarrow> int (sum_list (map encoded_size m)) = n \<and> n \<le> limit"
proof (cases "encode_utf8 m")
  case (Some bs)
  assume "message_bytes m limit = Inr n"
  with Some have "n = int (length bs)" "n \<le> limit"
    by (simp_all add: message_bytes_def Let_def split: if_splits)
  with encode_utf8_size [OF Some] show ?thesis by simp
qed (simp add: message_bytes_def)

lemma admitted_secrets_fit:
  assumes "admit_inference img mdl q = Inr r"
  shows "secret_size (request_secrets q) \<le> maximum_secret_bytes"
    and "record_operation r = request_operation q" and "inference_record_valid r"
proof -
  from assms obtain bs where p: "password_bytes (request_password q) = Inr bs"
    by (auto simp: admit_inference_def Let_def andThen_eq_Inr)
  from assms show "record_operation r = request_operation q" and "inference_record_valid r"
    by (auto simp: admit_inference_def Let_def andThen_eq_Inr split: if_splits)
  show "secret_size (request_secrets q) \<le> maximum_secret_bytes"
  proof (cases "request_message q")
    case None
    with password_bytes_size [OF p] show ?thesis
      by (simp add: secret_size_def request_secrets_def maximum_secret_bytes_def)
  next
    case (Some m)
    with assms obtain c cap n where "calculate_capacity c = Inr cap"
      and "message_bytes m (maximum_message_bytes cap) = Inr n"
      by (auto simp: admit_inference_def Let_def andThen_eq_Inr)
    then have "sum_list (map encoded_size m) \<le> 1024"
      using capacity_limit [of c cap] message_bytes_size [of m "maximum_message_bytes cap" n] by linarith
    with password_bytes_size [OF p] Some show ?thesis
      by (simp add: secret_size_def request_secrets_def maximum_secret_bytes_def)
  qed
qed

end
