(* ===== verification/JobRequests.thy ===== *)
theory JobRequests
  imports InferenceAdmission
begin

text \<open>
  The requests a job is created from: \<^verbatim>\<open>schemas/workflows.py\<close>, the source specifications of
  \<^verbatim>\<open>schemas/dataset_sources.py\<close>, the fetch request, progress and document records of
  \<^verbatim>\<open>schemas/dataset_fetch.py\<close>, and the union \<^verbatim>\<open>StoredRequest\<close> that the job table keeps.
\<close>

section \<open>Workflow requests\<close>

record workflow_request =
  workflow_client :: string
  workflow_operation :: job_operation
  workflow_experiment :: string
  dataset_identifier :: "string option"
  checkpoint_reference :: "string option"
  cpu_threads :: int
  stop_after_step :: int
  source_identifier :: "string option"
  source_subdirectory :: pystr
  local_dataset_name :: string
  export_name :: string
  lightweight :: bool

definition slug_start :: "char \<Rightarrow> bool" where
  "slug_start c \<longleftrightarrow> is_lower_char c"

definition experiment_name :: "string \<Rightarrow> bool" where
  "experiment_name s \<longleftrightarrow>
     (case s of [] \<Rightarrow> False
      | c # cs \<Rightarrow> slug_start c \<and> length cs \<le> 63 \<and>
          list_all (\<lambda>d. is_lower_char d \<or> is_digit_char d \<or> d = CHR ''_'') cs)"

definition export_label :: "string \<Rightarrow> bool" where
  "export_label s \<longleftrightarrow>
     (case s of [] \<Rightarrow> False
      | c # cs \<Rightarrow> (is_lower_char c \<or> is_upper_char c \<or> is_digit_char c) \<and> length cs \<le> 63 \<and>
          list_all (\<lambda>d. is_lower_char d \<or> is_upper_char d \<or> is_digit_char d \<or> d \<in> set ''_.-'') cs)"

definition at_most :: "nat \<Rightarrow> 'a list option \<Rightarrow> bool" where
  "at_most n v = (case v of None \<Rightarrow> True | Some s \<Rightarrow> length s \<le> n)"

definition workflow_request_valid :: "workflow_request \<Rightarrow> bool" where
  "workflow_request_valid q \<longleftrightarrow>
     workflow_operation q \<in> {Train, Evaluate, Export, Prepare_Dataset} \<and>
     experiment_name (workflow_experiment q) \<and>
     at_most 128 (dataset_identifier q) \<and> at_most 128 (checkpoint_reference q) \<and>
     1 \<le> cpu_threads q \<and> cpu_threads q \<le> 16 \<and>
     1 \<le> stop_after_step q \<and> stop_after_step q \<le> 1000 \<and>
     at_most 128 (source_identifier q) \<and> length (source_subdirectory q) \<le> 4096 \<and>
     experiment_name (local_dataset_name q) \<and> export_label (export_name q)"

record training_preflight =
  allowed :: bool
  blockers :: "string list"
  preflight_warnings :: "string list"
  resolved_settings :: json
  remaining_budget :: real
  remaining_slots :: int

section \<open>Dataset sources\<close>

datatype dataset_split = Split_Train | Split_Tuning | Split_Held_Out
datatype source_kind = Kind_Uhd_Iqa | Kind_Local | Kind_Hugging_Face | Kind_Https_Archive | Kind_Upload
datatype source_content = Images | Text_Files
datatype upstream_split = Upstream_Train | Upstream_Validation | Upstream_Test

definition maximum_download :: nat where "maximum_download = 100 * 1024 ^ 3"
definition maximum_images :: nat where "maximum_images = 200000"

record source_base =
  archive_splits :: "(pystr \<times> dataset_split) list option"
  download_limit :: nat
  terms_reference :: pystr

record hugging_face_source = source_base +
  repository :: string
  revision :: string
  content :: source_content
  path_prefix :: "pystr option"
  file_names :: "pystr list option"
  upstream :: "upstream_split option"
  image_column :: "string option"
  text_column :: "string option"
  maximum_files :: nat

record https_source = source_base +
  url :: pystr
  expected_sha256 :: "string option"

record upload_source = source_base +
  upload_identifier :: string

datatype dataset_source =
    Hugging_Face hugging_face_source
  | Https_Archive https_source
  | Upload_Archive upload_source

record fetch_request =
  fetch_client :: string
  source :: dataset_source
  source_name :: string
  dataset_name :: string
  image_limit :: nat
  training_intended :: bool
  prepare :: bool

text \<open>Text sources are saved only and never prepared.\<close>

definition text_source_allowed :: "fetch_request \<Rightarrow> bool" where
  "text_source_allowed q \<longleftrightarrow>
     (case source q of
        Hugging_Face h \<Rightarrow> \<not> (content h = Text_Files \<and> prepare q)
      | _ \<Rightarrow> True)"

datatype fetch_phase = Resolving | Downloading | Extracting | Preparing | Cleaning | Fetch_Completed

fun phase_name :: "fetch_phase \<Rightarrow> string" where
  "phase_name Resolving = ''resolving''"
| "phase_name Downloading = ''downloading''"
| "phase_name Extracting = ''extracting''"
| "phase_name Preparing = ''preparing''"
| "phase_name Cleaning = ''cleaning''"
| "phase_name Fetch_Completed = ''completed''"

record fetch_progress =
  progress_sequence :: nat
  fetch_phase :: fetch_phase
  bytes_received :: nat
  bytes_total :: "nat option"
  files_completed :: nat
  files_total :: "nat option"
  assets_completed :: nat
  assets_total :: nat
  supports_pause :: bool
  partial_directories :: "pystr list"

section \<open>What the job table stores\<close>

datatype stored_request =
    Workflow workflow_request
  | Inference inference_record
  | Fetch fetch_request

fun stored_operation :: "stored_request \<Rightarrow> job_operation" where
  "stored_operation (Workflow q) = workflow_operation q"
| "stored_operation (Inference r) = record_operation r"
| "stored_operation (Fetch q) = Fetch_Dataset"

end
