(* ===== verification/JobService.thy ===== *)
theory JobService
  imports JobRequests
begin

text \<open>
  The job supervisor: \<^verbatim>\<open>backend_service/workspace_jobs.py\<close>, the admission and action rules of
  \<^verbatim>\<open>dataset_fetch_jobs.py\<close> and \<^verbatim>\<open>inference_jobs.py\<close>, the scheduler and shutdown of
  \<^verbatim>\<open>workflow_supervision.py\<close> and the parts of a running job of \<^verbatim>\<open>workflow_runner.py\<close>,
  \<^verbatim>\<open>workflow_fetch_runner.py\<close> and \<^verbatim>\<open>inference_runner.py\<close>. Every operation here is what one
  holder of the service lock does between taking and releasing it. Log lines, the wake event
  (it only shortens a poll) and the process handle are left out.
\<close>

section \<open>State\<close>

text \<open>
  What the scheduler thread is doing, and what its current job needs. A fetch remembers the
  partial downloads its worker last reported; an inference job counts its published steps.
\<close>

datatype task =
    Workflow_Task workflow_request
  | Fetch_Task fetch_request "pystr list"
  | Inference_Task inference_record secrets nat

datatype scheduler = Absent | Polling | Starting string | Executing string task | Ended

text \<open>
  \<open>attached\<close> says that the inference stores are attached, \<open>removals\<close> records the calls that
  remove a partial download: kind, name and owner.
\<close>

record service =
  store :: "stored_request job_store"
  closing :: bool
  persistence_failed :: bool
  active_job :: "string option"
  owned :: bool
  cleanup_running :: bool
  attached :: bool
  waiting_secrets :: secret_store
  recovered :: text_store
  removals :: "(pystr \<times> pystr \<times> string) list"
  thread :: scheduler

definition new_service :: "stored_request job_store \<Rightarrow> bool \<Rightarrow> service" where
  "new_service st inference =
     \<lparr>store = st, closing = False, persistence_failed = False, active_job = None, owned = False,
      cleanup_running = False, attached = inference, waiting_secrets = [], recovered = [],
      removals = [], thread = Absent\<rparr>"

text \<open>Functions outside the repository: hashing of canonical JSON and the JSON form of records.\<close>

record outside =
  json_digest :: "json \<Rightarrow> string"
  secret_digest :: "secrets \<Rightarrow> string"
  dump_workflow :: "workflow_request \<Rightarrow> (string \<times> json) list"
  dump_fetch :: "fetch_request \<Rightarrow> (string \<times> json) list"
  dump_record :: "inference_record \<Rightarrow> (string \<times> json) list"
  dump_action :: "string \<Rightarrow> job_action \<Rightarrow> (string \<times> json) list"

definition in_store :: "(stored_request job_store, 'a) action \<Rightarrow> (service, 'a) action" where
  "in_store m s = (case m (store s) of (st, r) \<Rightarrow> (s\<lparr>store := st\<rparr>, r))"

definition in_secrets :: "(secret_store, 'a) action \<Rightarrow> (service, 'a) action" where
  "in_secrets m s = (case m (waiting_secrets s) of (e, r) \<Rightarrow> (s\<lparr>waiting_secrets := e\<rparr>, r))"

section \<open>Shared steps\<close>

definition require_storage :: "(service, unit) action" where
  "require_storage s = (s, if persistence_failed s then Inl Storage_Failure else Inr ())"

definition halt_for_storage :: "service \<Rightarrow> service" where
  "halt_for_storage s = s\<lparr>persistence_failed := True, closing := True\<rparr>"

definition service_stopping :: exn where
  "service_stopping = Application_Failure ''service_stopping'' 503"

definition is_fetch :: "job_snapshot \<Rightarrow> bool" where
  "is_fetch j \<longleftrightarrow> operation j = Fetch_Dataset"

definition is_inference :: "job_snapshot \<Rightarrow> bool" where
  "is_inference j \<longleftrightarrow> operation j \<in> {Encode, Decode}"

definition default_configuration :: json where
  "default_configuration = JObject [(''schema_version'', JNumber 1), (''checkpoint_interval_seconds'', JNumber 300)]"

definition new_job :: "int \<Rightarrow> string \<Rightarrow> job_operation \<Rightarrow> string option \<Rightarrow> (string \<times> json) list \<Rightarrow> job_snapshot" where
  "new_job now uuid op experiment settings =
     \<lparr>job_identifier = ''job_'' @ uuid, status = Queued, phase = ''queued'',
      configuration = default_configuration, available_actions = [Cancel], created_at = now,
      updated_at = now, progress = None, estimated_seconds_remaining = None, operation = op,
      experiment_identifier = experiment, frozen_settings = JObject settings, job_result = None,
      job_error = None, metrics = JObject [], requested_action = None, latest_event_identifier = None\<rparr>"

text \<open>A new job is validated by its constructor and saved together with the accepted mutation.\<close>

definition accept_job ::
  "job_snapshot \<Rightarrow> stored_request \<Rightarrow> string \<times> string \<Rightarrow> (service, job_snapshot) action"
where
  "accept_job job request mutation =
     (if \<not> snapshot_valid job then act_raise Value_Error
      else in_store (save job (Some request) (Some mutation)))"

definition change ::
  "int \<Rightarrow> (string \<times> string) option \<Rightarrow> (job_snapshot \<Rightarrow> job_snapshot) \<Rightarrow> job_snapshot \<Rightarrow> (service, job_snapshot) action"
where
  "change now mutation changes job =
     (let updated = (changes job)\<lparr>updated_at := now\<rparr> in
      if \<not> snapshot_valid updated then act_raise Value_Error
      else in_store (save updated None mutation))"

text \<open>A closed state: status and phase carry the same name and no action is left.\<close>

fun status_name :: "job_status \<Rightarrow> string" where
  "status_name Queued = ''queued''"
| "status_name Running = ''running''"
| "status_name Paused = ''paused''"
| "status_name Stopped = ''stopped''"
| "status_name Completed = ''completed''"
| "status_name Cancelled = ''cancelled''"
| "status_name Failed = ''failed''"
| "status_name Interrupted = ''interrupted''"
| "status_name Needs_Input = ''needs_input''"

definition in_status :: "job_status \<Rightarrow> job_action list \<Rightarrow> job_snapshot \<Rightarrow> job_snapshot" where
  "in_status st actions j = j\<lparr>status := st, phase := status_name st, available_actions := actions\<rparr>"

definition interruption_error :: "job_snapshot \<Rightarrow> string option" where
  "interruption_error j = (if is_inference j then Some ''inputs_lost'' else job_error j)"

definition interrupt :: "int \<Rightarrow> job_snapshot \<Rightarrow> (service, job_snapshot) action" where
  "interrupt now job = change now None (\<lambda>j. (in_status Interrupted [] j)
     \<lparr>job_error := if is_fetch job then Some ''fetch_interrupted'' else interruption_error job\<rparr>) job"

fun act_each :: "('a \<Rightarrow> ('s, 'b) action) \<Rightarrow> 'a list \<Rightarrow> ('s, unit) action" where
  "act_each f [] = act_return ()"
| "act_each f (x # xs) = act_bind (f x) (\<lambda>_. act_each f xs)"

definition interrupt_unfinished :: "int \<Rightarrow> (service, unit) action" where
  "interrupt_unfinished now =
     act_bind (in_store list_jobs) (\<lambda>js.
     act_each (interrupt now) (filter (\<lambda>j. status j \<in> {Queued, Running}) js))"

section \<open>Start\<close>

text \<open>\<open>lock_file\<close>: the lock file could be opened, and whether its lock is free.\<close>

definition start :: "bool \<Rightarrow> bool \<Rightarrow> int \<Rightarrow> (service, unit) action" where
  "start opened free now =
     (if \<not> opened then act_raise OS_Error
      else if \<not> free then
        act_bind (act_modify (\<lambda>s. s\<lparr>owned := False\<rparr>)) (\<lambda>_. act_raise (Application_Failure ''workspace_busy'' 503))
      else
        act_bind (act_modify (\<lambda>s. s\<lparr>owned := True\<rparr>)) (\<lambda>_.
        act_bind (interrupt_unfinished now) (\<lambda>_.
        act_modify (\<lambda>s. s\<lparr>thread := Polling\<rparr>))))"

section \<open>Submission\<close>

definition training_unavailable :: exn where
  "training_unavailable = Application_Failure ''training_unavailable'' 422"

definition checked_training :: "training_preflight result \<Rightarrow> (service, training_preflight) action" where
  "checked_training checked =
     act_bind require_storage (\<lambda>_.
     act_bind (act_lift checked) (\<lambda>p.
     if \<not> allowed p then act_raise training_unavailable else act_return p))"

definition submitted_settings ::
  "outside \<Rightarrow> training_preflight result \<Rightarrow> workflow_request \<Rightarrow> (service, (string \<times> json) list) action"
where
  "submitted_settings lib checked q =
     (if workflow_operation q = Train then
        act_bind (checked_training checked) (\<lambda>p.
        act_bind (in_store list_jobs) (\<lambda>js.
        if list_ex (\<lambda>j. operation j = Train \<and> experiment_identifier j = Some (workflow_experiment q)
             \<and> status j \<in> {Queued, Running}) js
        then act_raise (Application_Failure ''experiment_busy'' 409)
        else act_return (AList.update ''configuration'' (resolved_settings p) (dump_workflow lib q))))
      else act_return (dump_workflow lib q))"

definition answered :: "string \<Rightarrow> string \<Rightarrow> (service, job_snapshot) action \<Rightarrow> (service, job_snapshot) action" where
  "answered client fingerprint body =
     act_bind (in_store (replay client fingerprint)) (\<lambda>previous.
       case previous of Some j \<Rightarrow> act_return j | None \<Rightarrow> body)"

definition unless_closing :: "exn \<Rightarrow> (service, 'a) action \<Rightarrow> (service, 'a) action" where
  "unless_closing e body = act_bind act_get (\<lambda>s. if closing s then act_raise e else body)"

definition submit ::
  "outside \<Rightarrow> int \<Rightarrow> string \<Rightarrow> training_preflight result \<Rightarrow> unit result \<Rightarrow> workflow_request
    \<Rightarrow> (service, job_snapshot) action"
where
  "submit lib now uuid checked resolved q =
     (let fingerprint = json_digest lib (JObject (dump_workflow lib q)) in
      act_bind require_storage (\<lambda>_.
      answered (workflow_client q) fingerprint (unless_closing service_stopping (
        act_bind (submitted_settings lib checked q) (\<lambda>settings.
        act_bind (act_lift resolved) (\<lambda>_.
        accept_job (new_job now uuid (workflow_operation q) (Some (workflow_experiment q)) settings)
          (Workflow q) (workflow_client q, fingerprint)))))))"

text \<open>
  The upload session of an upload source: no upload store, or the outcome of reading the
  session, which says whether it is complete.
\<close>

definition fetch_failure :: "string \<Rightarrow> exn" where
  "fetch_failure code = Application_Failure code
     (if code \<in> {''dataset_fetch_busy'', ''dataset_cleanup_busy'', ''action_unavailable''} then 409 else 503)"

definition require_complete_upload :: "bool result option \<Rightarrow> unit result" where
  "require_complete_upload session =
     (case session of
        None \<Rightarrow> Inl (fetch_failure ''dataset_uploads_unavailable'')
      | Some r \<Rightarrow> andThen r (\<lambda>complete.
          if \<not> complete then Inl (Application_Failure ''upload_incomplete'' 409) else Inr ()))"

definition upload_checked :: "bool result option \<Rightarrow> fetch_request \<Rightarrow> unit result" where
  "upload_checked session q =
     (case source q of Upload_Archive u \<Rightarrow> require_complete_upload session | _ \<Rightarrow> Inr ())"

definition active_fetch :: "job_snapshot \<Rightarrow> bool" where
  "active_fetch j \<longleftrightarrow> is_fetch j \<and> status j \<in> {Queued, Running, Paused}"

definition submit_fetch ::
  "outside \<Rightarrow> int \<Rightarrow> string \<Rightarrow> bool result option \<Rightarrow> fetch_request \<Rightarrow> (service, job_snapshot) action"
where
  "submit_fetch lib now uuid session q =
     (let settings = dump_fetch lib q; fingerprint = json_digest lib (JObject settings) in
      act_bind require_storage (\<lambda>_.
      answered (fetch_client q) fingerprint (unless_closing (fetch_failure ''service_stopping'') (
        act_bind (act_lift (upload_checked session q)) (\<lambda>_.
        act_bind act_get (\<lambda>s.
        if cleanup_running s then act_raise (fetch_failure ''dataset_cleanup_busy'')
        else act_bind (in_store list_jobs) (\<lambda>js.
          if list_ex active_fetch js then act_raise (fetch_failure ''dataset_fetch_busy'')
          else accept_job (new_job now uuid Fetch_Dataset None settings) (Fetch q) (fetch_client q, fingerprint))))))))"

definition operation_text :: "inference_request \<Rightarrow> string" where
  "operation_text q = (if request_message q = None then ''decode'' else ''encode'')"

definition waiting_inference :: "job_snapshot \<Rightarrow> bool" where
  "waiting_inference j \<longleftrightarrow> is_inference j \<and> status j \<in> {Queued, Running}"

definition require_inference :: "(service, unit) action" where
  "require_inference s =
     (s, if attached s then Inr () else Inl (Application_Failure ''inference_unavailable'' 503))"

definition submit_inference ::
  "outside \<Rightarrow> int \<Rightarrow> string \<Rightarrow> stored_image result \<Rightarrow> installed_model result \<Rightarrow> inference_request
    \<Rightarrow> (service, job_snapshot) action"
where
  "submit_inference lib now uuid read_record resolve q =
     (let sec = request_secrets q;
          fingerprint = json_digest lib (JObject
            [(''operation'', JText (operation_text q)), (''image_reference'', JText (image_reference q)),
             (''model_identifier'', JText (requested_model q)), (''secret_digest'', JText (secret_digest lib sec))]) in
      act_bind require_storage (\<lambda>_.
      act_bind require_inference (\<lambda>_.
      answered (inference_client q) fingerprint (
        act_bind (act_lift (admit_inference read_record resolve q)) (\<lambda>record.
        unless_closing service_stopping (
        act_bind (in_store list_jobs) (\<lambda>js.
        if maximum_inference_jobs \<le> length (filter waiting_inference js) then act_raise queue_full_failure
        else act_bind (accept_job (new_job now uuid (record_operation record) None (dump_record lib record))
                         (Inference record) (inference_client q, fingerprint)) (\<lambda>accepted.
             act_bind (in_secrets (put_secrets maximum_inference_jobs (job_identifier accepted) sec)) (\<lambda>_.
             act_return accepted)))))))))"

section \<open>Actions of the user\<close>

definition action_unavailable :: exn where
  "action_unavailable = Application_Failure ''action_unavailable'' 409"

definition requested :: "job_action \<Rightarrow> job_snapshot \<Rightarrow> job_snapshot" where
  "requested a j = j\<lparr>requested_action := Some a, available_actions := []\<rparr>"

definition action_changes :: "job_snapshot \<Rightarrow> job_action \<Rightarrow> (job_snapshot \<Rightarrow> job_snapshot) result" where
  "action_changes job a =
     (if a = Cancel \<and> status job = Queued
      then Inr (\<lambda>j. (requested a j)\<lparr>status := Cancelled, phase := ''cancelled''\<rparr>)
      else if a = Stop \<and> status job = Running \<and> operation job = Train
      then Inr (\<lambda>j. (requested a j)\<lparr>phase := ''saving''\<rparr>)
      else Inl action_unavailable)"

text \<open>
  \<open>discard_partials\<close> asks the cache to remove every partial download the job reported or that
  is listed under its run label; a listing that fails is only logged.
\<close>

definition run_label_for :: "string \<Rightarrow> string" where
  "run_label_for i = (if take 4 i = ''job_'' then drop 4 i else i)"

fun partition_slash :: "pystr \<Rightarrow> pystr \<times> pystr" where
  "partition_slash [] = ([], [])"
| "partition_slash (c # cs) =
     (if c = 47 then ([], cs) else (case partition_slash cs of (kind, name) \<Rightarrow> (c # kind, name)))"

definition partial_suffix :: pystr where
  "partial_suffix = [46, 112, 97, 114, 116, 105, 97, 108]"

definition without_suffix :: "pystr \<Rightarrow> pystr" where
  "without_suffix name =
     (if length partial_suffix \<le> length name
         \<and> drop (length name - length partial_suffix) name = partial_suffix
      then take (length name - length partial_suffix) name else name)"

definition partial_removals :: "pystr list result \<Rightarrow> string \<Rightarrow> pystr list \<Rightarrow> (pystr \<times> pystr \<times> string) list" where
  "partial_removals listed label reported =
     (let directories = reported @ (case listed of Inr ds \<Rightarrow> ds | Inl e \<Rightarrow> []) in
      map (\<lambda>d. case partition_slash d of (kind, name) \<Rightarrow> (kind, without_suffix name, label))
        (sorted_list_of_set (set directories)))"

definition discard_partials :: "pystr list result \<Rightarrow> string \<Rightarrow> pystr list \<Rightarrow> (service, unit) action" where
  "discard_partials listed label reported =
     act_modify (\<lambda>s. s\<lparr>removals := removals s @ partial_removals listed label reported\<rparr>)"

definition fetch_action_changes ::
  "pystr list result \<Rightarrow> job_snapshot \<Rightarrow> job_action \<Rightarrow> (service, job_snapshot \<Rightarrow> job_snapshot) action"
where
  "fetch_action_changes listed job a =
     (if a = Cancel \<and> status job \<in> {Queued, Paused}
      then act_bind (discard_partials listed (run_label_for (job_identifier job)) []) (\<lambda>_.
        act_return (\<lambda>j. (requested a j)\<lparr>status := Cancelled, phase := ''cancelled''\<rparr>))
      else if a = Cancel \<and> status job = Running
      then act_return (\<lambda>j. (requested a j)\<lparr>phase := ''cancelling''\<rparr>)
      else if a = Pause \<and> status job = Running \<and> Pause \<in> set (available_actions job)
      then act_return (\<lambda>j. (requested a j)\<lparr>phase := ''pausing''\<rparr>)
      else if a = Resume \<and> status job = Paused
      then act_return (\<lambda>j. j\<lparr>requested_action := None, available_actions := [Cancel],
                              status := Queued, phase := ''queued''\<rparr>)
      else act_raise (fetch_failure ''action_unavailable''))"

definition act_on_job ::
  "outside \<Rightarrow> int \<Rightarrow> pystr list result \<Rightarrow> string \<Rightarrow> string \<Rightarrow> job_action \<Rightarrow> (service, job_snapshot) action"
where
  "act_on_job lib now listed i client a =
     (let fingerprint = json_digest lib (JObject (AList.updates
            (map fst (dump_action lib client a)) (map snd (dump_action lib client a)) [(''job'', JText i)])) in
      act_bind require_storage (\<lambda>_.
      answered client fingerprint (
        act_bind (in_store (get_job i)) (\<lambda>job.
        if a \<notin> set (available_actions job) then act_raise action_unavailable
        else
          act_bind (if is_fetch job then fetch_action_changes listed job a
                    else act_lift (action_changes job a)) (\<lambda>changes.
          act_bind (change now (Some (client, fingerprint)) changes job) (\<lambda>changed.
          act_bind act_get (\<lambda>s.
          if status changed = Cancelled \<and> attached s
          then act_bind (in_secrets (discard_secrets i)) (\<lambda>_. act_return changed)
          else act_return changed)))))))"

end
