(* ===== verification/JobScheduler.thy ===== *)
theory JobScheduler
  imports JobService
begin

text \<open>
  The scheduler thread and the shutdown of the job supervisor
  (\<^verbatim>\<open>backend_service/workflow_supervision.py\<close>), cut into the sections that hold the service
  lock, and the sections of a running job: \<^verbatim>\<open>workflow_runner.py\<close>,
  \<^verbatim>\<open>workflow_fetch_runner.py\<close> and \<^verbatim>\<open>inference_runner.py\<close>. What a worker process, a model
  package or the file store answers is an argument of the section that reads it.
\<close>

section \<open>Taking a job\<close>

definition initial_running_actions :: "job_snapshot \<Rightarrow> job_action list" where
  "initial_running_actions j = (if operation j = Train then [Stop] else if is_fetch j then [Cancel] else [])"

definition runnable :: "bool \<Rightarrow> job_snapshot \<Rightarrow> bool" where
  "runnable proof_locked j \<longleftrightarrow>
     status j = Queued \<and> \<not> (proof_locked \<and> operation j \<in> {Train, Evaluate, Export})"

definition next_job :: "bool \<Rightarrow> int \<Rightarrow> (service, job_snapshot option) action" where
  "next_job proof_locked now =
     act_bind (in_store list_jobs) (\<lambda>js.
     case List.find (runnable proof_locked) js of
       None \<Rightarrow> act_return None
     | Some queued \<Rightarrow>
         act_bind (change now None (\<lambda>j. j\<lparr>status := Running, phase := ''preparing'',
                     available_actions := initial_running_actions queued\<rparr>) queued) (\<lambda>_.
         act_bind (act_modify (\<lambda>s. s\<lparr>active_job := Some (job_identifier queued)\<rparr>)) (\<lambda>_.
         act_return (Some queued))))"

definition report_failure :: "int \<Rightarrow> string \<Rightarrow> exn \<Rightarrow> (service, unit) action" where
  "report_failure now i e =
     (let code = (if is_application_failure e then failure_code e else ''workflow_failed'') in
      act_bind (in_store (get_job i)) (\<lambda>job.
      act_bind act_get (\<lambda>s.
      if closing s \<and> is_inference job then act_bind (interrupt now job) (\<lambda>_. act_return ())
      else
        let state = (if closing s then Interrupted else Failed) in
        act_bind (change now None (\<lambda>j. (in_status state [] j)\<lparr>job_error := Some code\<rparr>) job) (\<lambda>_. act_return ()))))"

text \<open>How a section of \<^verbatim>\<open>run_scheduler\<close> ends: the job is left, or the queue halts.\<close>

definition leave_job :: "service \<Rightarrow> service" where
  "leave_job s = s\<lparr>active_job := None, thread := Polling\<rparr>"

definition stop_scheduler :: "service \<Rightarrow> service" where
  "stop_scheduler s = (halt_for_storage s)\<lparr>active_job := None, thread := Ended\<rparr>"

definition fail_job :: "int \<Rightarrow> string \<Rightarrow> exn \<Rightarrow> service \<Rightarrow> service" where
  "fail_job now i e s =
     (if e = Storage_Failure then stop_scheduler s
      else case report_failure now i e s of
             (t, Inr _) \<Rightarrow> leave_job t
           | (t, Inl _) \<Rightarrow> stop_scheduler t)"

definition run_section :: "int \<Rightarrow> string \<Rightarrow> (service, 'a) action \<Rightarrow> ('a \<Rightarrow> service \<Rightarrow> service) \<Rightarrow> service \<Rightarrow> service" where
  "run_section now i m continue s =
     (case m s of (t, Inr x) \<Rightarrow> continue x t | (t, Inl e) \<Rightarrow> fail_job now i e t)"

definition poll :: "bool \<Rightarrow> int \<Rightarrow> service \<Rightarrow> service" where
  "poll proof_locked now s =
     (case next_job proof_locked now s of
        (t, Inr None) \<Rightarrow> t
      | (t, Inr (Some j)) \<Rightarrow> t\<lparr>thread := Starting (job_identifier j)\<rparr>
      | (t, Inl e) \<Rightarrow> (halt_for_storage t)\<lparr>thread := Ended\<rparr>)"

text \<open>Maintenance of an idle scheduler: the outcomes of sweeping files and uploads are given.\<close>

definition maintain :: "unit result \<Rightarrow> int \<Rightarrow> unit result \<Rightarrow> (service, unit) action" where
  "maintain files now uploads =
     act_bind act_get (\<lambda>s.
     act_bind (if \<not> attached s then act_return ()
               else case files of
                 Inr _ \<Rightarrow> act_modify (\<lambda>s. s\<lparr>recovered := fst (sweep_texts now (recovered s))\<rparr>)
               | Inl e \<Rightarrow> if is_application_failure e then act_return () else act_raise e) (\<lambda>_.
     case uploads of
       Inr _ \<Rightarrow> act_return ()
     | Inl e \<Rightarrow> if is_application_failure e then act_return () else act_raise e))"

definition idle :: "unit result \<Rightarrow> int \<Rightarrow> unit result \<Rightarrow> service \<Rightarrow> service" where
  "idle files now uploads s =
     (case maintain files now uploads s of
        (t, Inr _) \<Rightarrow> t
      | (t, Inl _) \<Rightarrow> (halt_for_storage t)\<lparr>thread := Ended\<rparr>)"

section \<open>Beginning a job\<close>

definition inputs_lost :: exn where
  "inputs_lost = Application_Failure ''inputs_lost'' 422"

definition begin_job :: "training_preflight result \<Rightarrow> unit result \<Rightarrow> string \<Rightarrow> (service, task) action" where
  "begin_job checked resolved i =
     act_bind (in_store (get_request i)) (\<lambda>request.
     case request of
       Inference record \<Rightarrow>
         act_bind require_inference (\<lambda>_.
         act_bind (in_secrets (pop_secrets i)) (\<lambda>found.
         case found of None \<Rightarrow> act_raise inputs_lost | Some sec \<Rightarrow> act_return (Inference_Task record sec 0)))
     | Fetch q \<Rightarrow> act_bind (act_lift resolved) (\<lambda>_. act_return (Fetch_Task q []))
     | Workflow q \<Rightarrow>
         act_bind (if workflow_operation q = Train
                   then act_bind (checked_training checked) (\<lambda>_. act_return ()) else act_return ()) (\<lambda>_.
         act_bind (act_lift resolved) (\<lambda>_. act_return (Workflow_Task q))))"

section \<open>Training, evaluation, export and preparation\<close>

definition workflow_progress :: "int \<Rightarrow> string \<Rightarrow> workflow_request \<Rightarrow> int \<Rightarrow> json \<Rightarrow> (service, unit) action" where
  "workflow_progress now i q global_step values =
     act_bind (in_store (get_job i)) (\<lambda>job.
     act_bind (change now None (\<lambda>j. j\<lparr>
         phase := if requested_action job \<noteq> None then ''saving'' else ''training'',
         progress := Some (min 1 (of_int global_step / of_int (stop_after_step q))),
         metrics := values\<rparr>) job) (\<lambda>_. act_return ()))"

definition private_keys :: "string list" where
  "private_keys = [''checkpoint'', ''directory'', ''encoder_directory'', ''decoder_directory'', ''report_directory'']"

definition public_result :: "(string \<times> json) list \<Rightarrow> (string \<times> json) list" where
  "public_result result = filter (\<lambda>(k, v). k \<notin> set private_keys) result"

text \<open>A text value under \<^verbatim>\<open>checkpoint\<close> must pass the path check, the inspection and the
  registration, which \<open>registered\<close> answers with the checkpoint's identifier.\<close>

definition published_result :: "string result \<Rightarrow> (string \<times> json) list \<Rightarrow> (string \<times> json) list result" where
  "published_result registered result =
     (case map_of result ''checkpoint'' of
        Some (JText p) \<Rightarrow> andThen registered (\<lambda>identifier.
          Inr (AList.update ''checkpoint_identifier'' (JText identifier) (public_result result)))
      | _ \<Rightarrow> Inr (public_result result))"

definition workflow_success :: "workflow_request \<Rightarrow> int \<Rightarrow> (string \<times> json) list \<Rightarrow> bool" where
  "workflow_success q code result \<longleftrightarrow>
     code = 0 \<or> workflow_operation q = Train \<and> code \<in> {130, 143}
       \<and> map_of result ''checkpoint'' \<notin> {None, Some JNull}"

definition workflow_status :: "workflow_request \<Rightarrow> int \<Rightarrow> (string \<times> json) list \<Rightarrow> job_status" where
  "workflow_status q code result =
     (let success = workflow_success q code result in
      if workflow_operation q = Train
         \<and> map_of result ''status'' \<in> {Some (JText ''stopped''), Some (JText ''budget_exhausted'')} \<and> success
      then Stopped else if success then Completed else Failed)"

definition workflow_finish ::
  "int \<Rightarrow> string \<Rightarrow> workflow_request \<Rightarrow> int \<Rightarrow> (string \<times> json) list \<Rightarrow> string result \<Rightarrow> (service, unit) action"
where
  "workflow_finish now i q code result registered =
     act_bind (act_lift (published_result registered result)) (\<lambda>published.
     let final = workflow_status q code result in
     act_bind (in_store (get_job i)) (\<lambda>job.
     act_bind (if final = Completed then act_return (Some 1)
               else act_bind (in_store (get_job i)) (\<lambda>j. act_return (progress j))) (\<lambda>share.
     act_bind (change now None (\<lambda>j. (in_status final [] j)\<lparr>
         job_result := Some (JObject published), progress := share,
         job_error := if workflow_success q code result then None else Some ''workflow_incomplete''\<rparr>) job)
       (\<lambda>_. act_return ()))))"

section \<open>Dataset fetches\<close>

definition share :: "nat \<Rightarrow> nat option \<Rightarrow> real option" where
  "share part whole = (case whole of None \<Rightarrow> None
     | Some n \<Rightarrow> if n = 0 then None else Some (min 1 (of_nat part / of_nat n)))"

definition progress_ratio :: "fetch_progress \<Rightarrow> real option" where
  "progress_ratio p =
     (if fetch_phase p = Downloading \<and> share (bytes_received p) (bytes_total p) \<noteq> None
      then share (bytes_received p) (bytes_total p)
      else if fetch_phase p = Preparing \<and> share (files_completed p) (files_total p) \<noteq> None
      then share (files_completed p) (files_total p)
      else if fetch_phase p = Fetch_Completed then Some 1 else None)"

definition number :: "nat \<Rightarrow> json" where "number n = JNumber (of_nat n)"

definition progress_metrics :: "fetch_progress \<Rightarrow> (string \<times> json) list" where
  "progress_metrics p =
     [(''sequence'', number (progress_sequence p)), (''bytes_received'', number (bytes_received p)),
      (''files_completed'', number (files_completed p)), (''assets_completed'', number (assets_completed p)),
      (''assets_total'', number (assets_total p))]
     @ (case bytes_total p of None \<Rightarrow> [] | Some n \<Rightarrow> [(''bytes_total'', number n)])
     @ (case files_total p of None \<Rightarrow> [] | Some n \<Rightarrow> [(''files_total'', number n)])"

definition action_phase :: "job_action option \<Rightarrow> fetch_phase \<Rightarrow> string" where
  "action_phase a p = (if a = Some Cancel then ''cancelling'' else if a = Some Pause then ''pausing'' else phase_name p)"

definition progress_changes :: "job_snapshot \<Rightarrow> fetch_progress \<Rightarrow> job_snapshot \<Rightarrow> job_snapshot" where
  "progress_changes job p j = j\<lparr>
     phase := action_phase (requested_action job) (fetch_phase p),
     progress := progress_ratio p, metrics := JObject (progress_metrics p),
     available_actions :=
       if requested_action job = None
       then (if supports_pause p \<and> fetch_phase p = Downloading then [Cancel, Pause] else [Cancel])
       else available_actions j\<rparr>"

definition fetch_progressed :: "int \<Rightarrow> string \<Rightarrow> fetch_progress \<Rightarrow> (service, unit) action" where
  "fetch_progressed now i p =
     act_bind (in_store (get_job i)) (\<lambda>job.
     act_bind (change now None (progress_changes job p) job) (\<lambda>_. act_return ()))"

definition stopped_changes ::
  "pystr list result \<Rightarrow> job_snapshot \<Rightarrow> pystr list \<Rightarrow> (service, (job_snapshot \<Rightarrow> job_snapshot) option) action"
where
  "stopped_changes listed job partials =
     (if requested_action job = Some Cancel then
        act_bind (discard_partials listed (run_label_for (job_identifier job)) partials) (\<lambda>_.
        act_return (Some (in_status Cancelled [])))
      else if requested_action job = Some Pause then act_return (Some (in_status Paused [Resume, Cancel]))
      else act_bind act_get (\<lambda>s.
        if closing s then act_return (Some (\<lambda>j. (in_status Interrupted [] j)\<lparr>job_error := Some ''fetch_interrupted''\<rparr>))
        else act_return None))"

definition exit_changes ::
  "pystr list result \<Rightarrow> job_snapshot \<Rightarrow> int \<Rightarrow> (string \<times> json) list \<Rightarrow> pystr list
    \<Rightarrow> (service, job_snapshot \<Rightarrow> job_snapshot) action"
where
  "exit_changes listed job code result partials =
     (let final = map_of result ''status'' in
      if code = 0 \<and> final \<in> {Some (JText ''completed''), Some (JText ''reused'')}
      then act_return (\<lambda>j. (in_status Completed [] j)\<lparr>progress := Some 1,
             job_result := Some (JObject (public_result result)), job_error := None\<rparr>)
      else act_bind (if final = Some (JText ''stopped'') then stopped_changes listed job partials
                     else act_return None) (\<lambda>changes.
        case changes of None \<Rightarrow> act_raise (fetch_failure ''workflow_failed'') | Some f \<Rightarrow> act_return f))"

text \<open>The worker ended with a summary, or \<^verbatim>\<open>execute_command\<close> raised \<open>e\<close>.\<close>

definition fetch_finish ::
  "int \<Rightarrow> pystr list result \<Rightarrow> string \<Rightarrow> int \<Rightarrow> (string \<times> json) list \<Rightarrow> pystr list \<Rightarrow> (service, unit) action"
where
  "fetch_finish now listed i code result partials =
     act_bind (in_store (get_job i)) (\<lambda>job.
     act_bind (exit_changes listed job code result partials) (\<lambda>changes.
     act_bind (change now None changes job) (\<lambda>_. act_return ())))"

definition fetch_failed :: "int \<Rightarrow> pystr list result \<Rightarrow> string \<Rightarrow> exn \<Rightarrow> pystr list \<Rightarrow> (service, unit) action" where
  "fetch_failed now listed i e partials =
     (if \<not> is_application_failure e \<or> failure_code e \<noteq> ''workflow_failed'' then act_raise e
      else
        act_bind (in_store (get_job i)) (\<lambda>job.
        act_bind (stopped_changes listed job partials) (\<lambda>changes.
        case changes of
          None \<Rightarrow> act_raise e
        | Some f \<Rightarrow> act_bind (change now None f job) (\<lambda>_. act_return ()))))"

section \<open>Encoding and decoding\<close>

definition verification_failure :: exn where
  "verification_failure = Application_Failure ''encoding_verification_failed'' 422"

definition package_failure :: exn where
  "package_failure = Application_Failure ''model_export_unavailable'' 422"

definition report :: "int \<Rightarrow> string \<Rightarrow> string \<Rightarrow> (service, unit) action" where
  "report now i name = unless_closing service_stopping (
     act_bind (in_store (get_job i)) (\<lambda>job.
     act_bind (change now None (\<lambda>j. j\<lparr>phase := name\<rparr>) job) (\<lambda>_. act_return ())))"

text \<open>\<open>ready\<close>: the model pair was verified, the image found and the scratch folder made.\<close>

definition inference_started :: "int \<Rightarrow> string \<Rightarrow> unit result \<Rightarrow> (service, unit) action" where
  "inference_started now i ready = act_bind (act_lift ready) (\<lambda>_. report now i ''processing'')"

text \<open>\<open>encoded\<close>: the encoder package ran and returned its output.\<close>

definition encode_written :: "int \<Rightarrow> string \<Rightarrow> byte list result \<Rightarrow> (service, unit) action" where
  "encode_written now i encoded = act_bind (act_lift encoded) (\<lambda>_. report now i ''verifying_saved_image'')"

record published_image =
  published_reference :: string
  published_width :: int
  published_height :: int
  stored_bytes :: int

definition published_valid :: "published_image \<Rightarrow> bool" where
  "published_valid p \<longleftrightarrow>
     512 \<le> published_width p \<and> published_width p \<le> 1024 \<and>
     512 \<le> published_height p \<and> published_height p \<le> 1024 \<and> 1 \<le> stored_bytes p \<and>
     length (published_reference p) = 40 \<and> take 8 (published_reference p) = ''encoded_'' \<and>
     list_all is_hex_char (drop 8 (published_reference p))"

definition recovery_checked :: "byte list result \<Rightarrow> byte list result" where
  "recovery_checked restored =
     (case restored of
        Inl e \<Rightarrow> Inl (if is_application_failure e \<and> failure_code e = ''message_recovery_failed''
                     then verification_failure else e)
      | Inr bs \<Rightarrow> Inr bs)"

definition encode_result ::
  "inference_record \<Rightarrow> secrets \<Rightarrow> byte list result \<Rightarrow> published_image result \<Rightarrow> json result"
where
  "encode_result record sec restored published =
     andThen (recovery_checked restored) (\<lambda>bs.
     case map_of sec ''message'' of
       None \<Rightarrow> Inl Key_Error
     | Some message \<Rightarrow>
         (case encode_utf8 message of
            None \<Rightarrow> Inl Value_Error
          | Some expected \<Rightarrow>
              if bs \<noteq> expected then Inl verification_failure
              else andThen published (\<lambda>p.
                if \<not> published_valid p then Inl Value_Error
                else Inr (JObject [
                  (''artifact_identifier'', JText (published_reference p)),
                  (''filename'', JText (''stegolab-encoded-'' @ take 8 (drop 8 (published_reference p)) @ ''.png'')),
                  (''width'', JNumber (of_int (published_width p))),
                  (''height'', JNumber (of_int (published_height p))),
                  (''png_bytes'', JNumber (of_int (stored_bytes p))),
                  (''message_byte_count'', JNumber (of_int (message_byte_count record))),
                  (''verified'', JBool True)]))))"

definition decoded_bytes :: "byte list result \<Rightarrow> pystr result" where
  "decoded_bytes restored =
     andThen restored (\<lambda>bs.
     if int (length bs) > maximum_message_size then Inl package_failure
     else case decode_utf8 bs of None \<Rightarrow> Inl package_failure | Some t \<Rightarrow> Inr t)"

definition keep_text :: "int \<Rightarrow> int \<Rightarrow> string \<Rightarrow> pystr \<Rightarrow> (service, decoded_text) action" where
  "keep_text swept now i t s =
     (case put_text (decoded_text_lifetime_seconds * 1000000) swept now i t (recovered s) of
        (e, r) \<Rightarrow> (s\<lparr>recovered := e\<rparr>, r))"

definition decode_result :: "int \<Rightarrow> int \<Rightarrow> string \<Rightarrow> byte list result \<Rightarrow> (service, json) action" where
  "decode_result swept now i restored =
     act_bind (act_lift (decoded_bytes restored)) (\<lambda>t.
     act_bind (keep_text swept now i t) (\<lambda>e.
     act_return (JObject [(''result_available'', JBool True),
       (''text_byte_count'', JNumber (of_int (byte_count e))), (''expires_at'', JNumber (of_int (expires_at e)))])))"

definition inference_completed :: "int \<Rightarrow> string \<Rightarrow> json \<Rightarrow> (service, unit) action" where
  "inference_completed now i published =
     act_bind (in_store (get_job i)) (\<lambda>job.
     act_bind (change now None (\<lambda>j. (in_status Completed [] j)\<lparr>job_result := Some published,
        progress := Some 1, job_error := None\<rparr>) job) (\<lambda>_. act_return ()))"

definition encode_finish ::
  "int \<Rightarrow> string \<Rightarrow> inference_record \<Rightarrow> secrets \<Rightarrow> byte list result \<Rightarrow> published_image result \<Rightarrow> (service, unit) action"
where
  "encode_finish now i record sec restored published =
     act_bind (act_lift (encode_result record sec restored published)) (inference_completed now i)"

definition decode_finish :: "int \<Rightarrow> int \<Rightarrow> string \<Rightarrow> byte list result \<Rightarrow> (service, unit) action" where
  "decode_finish swept now i restored =
     act_bind (decode_result swept now i restored) (inference_completed now i)"

section \<open>Reading recovered text\<close>

definition result_unavailable :: exn where
  "result_unavailable = Application_Failure ''result_unavailable'' 409"

definition read_decoded_text :: "int \<Rightarrow> string \<Rightarrow> (service, decoded_text) action" where
  "read_decoded_text now i =
     act_bind require_inference (\<lambda>_.
     act_bind require_storage (\<lambda>_.
     act_bind (in_store (get_job i)) (\<lambda>job.
     if operation job \<noteq> Decode then act_raise result_unavailable
     else if status job \<in> {Queued, Running} then act_raise result_unavailable
     else if status job \<noteq> Completed then act_raise result_unavailable
     else (\<lambda>s. case get_text now i (recovered s) of (e, r) \<Rightarrow>
            (s\<lparr>recovered := e\<rparr>, andThen r (\<lambda>found. case found of
               None \<Rightarrow> Inl (Application_Failure ''result_expired'' 404) | Some x \<Rightarrow> Inr x))))))"

definition discard_decoded_text :: "string \<Rightarrow> (service, unit) action" where
  "discard_decoded_text i =
     act_bind require_inference (\<lambda>_.
     act_modify (\<lambda>s. s\<lparr>recovered := AList.delete i (recovered s)\<rparr>))"

section \<open>Removal of unused downloads\<close>

text \<open>The part of \<^verbatim>\<open>remove_unused\<close> under the lock, and the reset after the deletion.\<close>

definition begin_cleanup :: "(service, unit) action" where
  "begin_cleanup =
     act_bind require_storage (\<lambda>_.
     act_bind (in_store list_jobs) (\<lambda>js.
     if filter active_fetch js \<noteq> [] then act_raise (Application_Failure ''cache_busy'' 409)
     else act_bind act_get (\<lambda>s.
       if cleanup_running s then act_raise (fetch_failure ''dataset_cleanup_busy'')
       else act_modify (\<lambda>s. s\<lparr>cleanup_running := True\<rparr>))))"

definition end_cleanup :: "service \<Rightarrow> service" where
  "end_cleanup s = s\<lparr>cleanup_running := False\<rparr>"

section \<open>Shutdown\<close>

definition recovered_or_halt :: "(service, unit) action \<Rightarrow> service \<Rightarrow> service" where
  "recovered_or_halt m s = (case m s of (t, Inr _) \<Rightarrow> t | (t, Inl _) \<Rightarrow> halt_for_storage t)"

definition ask_to_stop :: "int \<Rightarrow> (service, unit) action" where
  "ask_to_stop now =
     act_bind act_get (\<lambda>s.
     case active_job s of
       None \<Rightarrow> act_return ()
     | Some i \<Rightarrow>
         act_bind (in_store (get_job i)) (\<lambda>job.
         if operation job = Train \<and> status job = Running
         then act_bind (change now None (\<lambda>j. j\<lparr>requested_action := Some Stop, phase := ''saving'',
                available_actions := []\<rparr>) job) (\<lambda>_. act_return ())
         else act_return ()))"

definition begin_close :: "int \<Rightarrow> service \<Rightarrow> service" where
  "begin_close now s = recovered_or_halt (ask_to_stop now) (s\<lparr>closing := True\<rparr>)"

text \<open>
  After the joins, which give up after 30 and 2 seconds, so that the thread may still be in any
  section: only the owner of the queue lock reconciles the queue, and a living thread keeps the lock.
\<close>

definition finish_close :: "int \<Rightarrow> service \<Rightarrow> service" where
  "finish_close now s =
     (let t = recovered_or_halt (if \<not> persistence_failed s \<and> owned s
                                then interrupt_unfinished now else act_return ()) s in
      if thread t \<in> {Absent, Ended} then t\<lparr>owned := False\<rparr> else t)"

end
