(* ===== verification/JobQueue.thy ===== *)
theory JobQueue
  imports JobStore
begin

text \<open>
  What the job supervisor promises, as a small transition system: the public status of each
  job, what the scheduler does, which jobs have secrets in memory, whether the service is
  stopping and whether unused downloads are being removed. \<open>JobSystem\<close> shows that the
  detailed supervisor refines it.

  A stopping service waits for the scheduler for a limited time only and then reconciles the
  queue (\<open>reconcile\<close>), whatever the scheduler is doing. A scheduler that outlives that wait still
  works on its job, which now counts as interrupted, and writes its outcome over that status
  (\<open>leave\<close>). Such a job is \<open>late\<close> below.
\<close>

datatype stage = Off | Idle | Begun string | Busy string | Dead

record queue =
  entries :: "string \<Rightarrow> (job_operation \<times> job_status) option"
  stage :: stage
  held :: "string set"
  stopping :: bool
  cleaning :: bool

abbreviation inference_operation :: "job_operation \<Rightarrow> bool" where
  "inference_operation op \<equiv> op \<in> {Encode, Decode}"

definition running :: "queue \<Rightarrow> string set" where
  "running a = {i. \<exists>op. entries a i = Some (op, Running)}"

definition fetching :: "queue \<Rightarrow> string set" where
  "fetching a = {i. \<exists>st \<in> {Queued, Running, Paused}. entries a i = Some (Fetch_Dataset, st)}"

definition waiting :: "queue \<Rightarrow> string set" where
  "waiting a = {i. \<exists>op. inference_operation op \<and> entries a i \<in> {Some (op, Queued), Some (op, Running)}}"

definition queued_inference :: "queue \<Rightarrow> string set" where
  "queued_inference a = {i. \<exists>op. inference_operation op \<and> entries a i = Some (op, Queued)}"

definition begun :: "queue \<Rightarrow> string set" where
  "begun a = {i. stage a = Begun i \<and> (\<exists>op st. inference_operation op \<and> entries a i = Some (op, st))}"

text \<open>The jobs that the scheduler works on, and those of them that were interrupted while it does.\<close>

definition claimed :: "queue \<Rightarrow> string set" where
  "claimed a = {i. stage a = Begun i \<or> stage a = Busy i}"

definition late :: "queue \<Rightarrow> string set" where
  "late a = {i. stopping a \<and> (\<exists>op. entries a i = Some (op, Interrupted))}"

text \<open>The fetches that may still write to the cache, a late one among them.\<close>

definition late_fetches :: "queue \<Rightarrow> string set" where
  "late_fetches a = {i \<in> claimed a. entries a i = Some (Fetch_Dataset, Interrupted)}"

text \<open>The states in which a job rests for good.\<close>

definition closed_status :: "job_status set" where
  "closed_status = {Stopped, Completed, Cancelled, Failed, Interrupted}"

abbreviation put_entry :: "string \<Rightarrow> job_operation \<Rightarrow> job_status \<Rightarrow> queue \<Rightarrow> queue" where
  "put_entry i op st a \<equiv> a\<lparr>entries := (entries a)(i \<mapsto> (op, st))\<rparr>"

inductive queue_step :: "queue \<Rightarrow> queue \<Rightarrow> bool" where
  halt: "queue_step a (a\<lparr>stopping := True\<rparr>)"
| opened: "stage a = Off \<Longrightarrow> running a = {} \<Longrightarrow> queued_inference a = {} \<Longrightarrow> queue_step a (a\<lparr>stage := Idle\<rparr>)"
| admit: "stage a \<noteq> Off \<Longrightarrow> entries a i = None \<Longrightarrow> \<not> inference_operation op
    \<Longrightarrow> (op = Fetch_Dataset \<Longrightarrow> fetching a = {} \<and> \<not> cleaning a) \<Longrightarrow> \<not> stopping a
    \<Longrightarrow> queue_step a (put_entry i op Queued a)"
| admit_inference: "stage a \<noteq> Off \<Longrightarrow> entries a i = None \<Longrightarrow> inference_operation op
    \<Longrightarrow> card (waiting a) < 8 \<Longrightarrow> \<not> stopping a
    \<Longrightarrow> queue_step a ((put_entry i op Queued a)\<lparr>held := insert i (held a)\<rparr>)"
| cancel: "entries a i = Some (op, st) \<Longrightarrow> st = Queued \<or> st = Paused \<Longrightarrow> stage a \<noteq> Off
    \<Longrightarrow> queue_step a ((put_entry i op Cancelled a)\<lparr>held := held a - {i}\<rparr>)"
| resume: "entries a i = Some (Fetch_Dataset, Paused) \<Longrightarrow> stage a \<noteq> Off
    \<Longrightarrow> queue_step a (put_entry i Fetch_Dataset Queued a)"
| dispatch: "stage a = Idle \<Longrightarrow> entries a i = Some (op, Queued)
    \<Longrightarrow> queue_step a ((put_entry i op Running a)\<lparr>stage := Begun i\<rparr>)"
| begin_work: "stage a = Begun i \<Longrightarrow> entries a i = Some (op, Running) \<or> entries a i = Some (op, Interrupted) \<and> stopping a
    \<Longrightarrow> queue_step a (a\<lparr>stage := Busy i, held := if inference_operation op then held a - {i} else held a\<rparr>)"
| leave: "stage a = Busy i \<or> stage a = Begun i \<and> \<not> inference_operation op
    \<Longrightarrow> entries a i = Some (op, Running) \<or> entries a i = Some (op, Interrupted) \<and> stopping a
    \<Longrightarrow> st \<in> closed_status \<or> op = Fetch_Dataset \<and> st = Paused
    \<Longrightarrow> queue_step a ((put_entry i op st a)\<lparr>stage := Idle\<rparr>)"
| ended: "stage a \<noteq> Off \<Longrightarrow> stopping a \<Longrightarrow> queue_step a (a\<lparr>stage := Dead\<rparr>)"
| reconcile: "stage a = Off \<or> stopping a \<Longrightarrow> entries a i = Some (op, st) \<Longrightarrow> st = Queued \<or> st = Running
    \<Longrightarrow> queue_step a (put_entry i op Interrupted a)"
| clean: "fetching a = {} \<Longrightarrow> late_fetches a = {} \<Longrightarrow> queue_step a (a\<lparr>cleaning := True\<rparr>)"
| cleaned: "queue_step a (a\<lparr>cleaning := False\<rparr>)"
| restart: "queue_step a (a\<lparr>stage := Off, held := {}, stopping := False, cleaning := False\<rparr>)"

inductive_cases queue_stepE: "queue_step a b"

definition empty_queue :: queue where
  "empty_queue = \<lparr>entries = Map.empty, stage = Off, held = {}, stopping = False, cleaning = False\<rparr>"

section \<open>The invariant\<close>

definition single_worker :: "queue \<Rightarrow> bool" where
  "single_worker a \<longleftrightarrow>
     (case stage a of
        Idle \<Rightarrow> running a = {}
      | Begun i \<Rightarrow> running a = {i} \<or> running a = {} \<and> i \<in> late a
      | Busy i \<Rightarrow> running a = {i} \<or> running a = {} \<and> i \<in> late a
      | _ \<Rightarrow> (\<exists>i. running a \<subseteq> {i}))"

definition single_fetch :: "queue \<Rightarrow> bool" where
  "single_fetch a \<longleftrightarrow> (\<forall>i \<in> fetching a \<union> late_fetches a. \<forall>k \<in> fetching a \<union> late_fetches a. i = k) \<and>
     (cleaning a \<longrightarrow> fetching a \<union> late_fetches a = {})"

definition bounded_waiting :: "queue \<Rightarrow> bool" where
  "bounded_waiting a \<longleftrightarrow> finite (waiting a) \<and> card (waiting a) \<le> 8"

definition secrets_match :: "queue \<Rightarrow> bool" where
  "secrets_match a \<longleftrightarrow>
     (stage a = Off \<longrightarrow> held a = {}) \<and>
     (stage a \<noteq> Off \<longrightarrow> queued_inference a \<union> begun a \<subseteq> held a) \<and>
     (\<not> stopping a \<longrightarrow> held a \<subseteq> queued_inference a \<union> begun a)"

definition queue_ok :: "queue \<Rightarrow> bool" where
  "queue_ok a \<longleftrightarrow> single_worker a \<and> single_fetch a \<and> bounded_waiting a \<and> secrets_match a"

lemmas queue_sets = running_def fetching_def waiting_def queued_inference_def begun_def

lemma waiting_put:
  "waiting (put_entry i op st a)
    = (if inference_operation op \<and> st \<in> {Queued, Running} then insert i (waiting a) else waiting a - {i})"
  by (auto simp: waiting_def)

lemma running_put:
  "running (put_entry i op st a) = (if st = Running then insert i (running a) else running a - {i})"
  by (auto simp: running_def)

lemma fetching_put:
  "fetching (put_entry i op st a)
    = (if op = Fetch_Dataset \<and> st \<in> {Queued, Running, Paused} then insert i (fetching a) else fetching a - {i})"
  by (auto simp: fetching_def)

lemma queued_put:
  "queued_inference (put_entry i op st a)
    = (if inference_operation op \<and> st = Queued then insert i (queued_inference a) else queued_inference a - {i})"
  by (auto simp: queued_inference_def)

lemma sets_ignore [simp]:
  "running (a\<lparr>stage := g\<rparr>) = running a" "running (a\<lparr>held := h\<rparr>) = running a"
  "running (a\<lparr>stopping := p\<rparr>) = running a" "running (a\<lparr>cleaning := c\<rparr>) = running a"
  "fetching (a\<lparr>stage := g\<rparr>) = fetching a" "fetching (a\<lparr>held := h\<rparr>) = fetching a"
  "fetching (a\<lparr>stopping := p\<rparr>) = fetching a" "fetching (a\<lparr>cleaning := c\<rparr>) = fetching a"
  "waiting (a\<lparr>stage := g\<rparr>) = waiting a" "waiting (a\<lparr>held := h\<rparr>) = waiting a"
  "waiting (a\<lparr>stopping := p\<rparr>) = waiting a" "waiting (a\<lparr>cleaning := c\<rparr>) = waiting a"
  "queued_inference (a\<lparr>stage := g\<rparr>) = queued_inference a" "queued_inference (a\<lparr>held := h\<rparr>) = queued_inference a"
  "queued_inference (a\<lparr>stopping := p\<rparr>) = queued_inference a"
  "queued_inference (a\<lparr>cleaning := c\<rparr>) = queued_inference a"
  "late (a\<lparr>stage := g\<rparr>) = late a" "late (a\<lparr>held := h\<rparr>) = late a" "late (a\<lparr>cleaning := c\<rparr>) = late a"
  by (simp_all add: queue_sets late_def)

lemma late_halt: "late a \<subseteq> late (a\<lparr>stopping := True\<rparr>)"
  by (auto simp: late_def)

lemma late_put: "late (put_entry i op st a) = (if st = Interrupted \<and> stopping a then insert i (late a) else late a - {i})"
  by (auto simp: late_def)

text \<open>The sets of running and of late jobs and the scheduler stage decide the first part of the invariant.\<close>

definition worker_ok :: "stage \<Rightarrow> string set \<Rightarrow> string set \<Rightarrow> bool" where
  "worker_ok g R L \<longleftrightarrow>
     (case g of Idle \<Rightarrow> R = {} | Begun i \<Rightarrow> R = {i} \<or> R = {} \<and> i \<in> L | Busy i \<Rightarrow> R = {i} \<or> R = {} \<and> i \<in> L
      | _ \<Rightarrow> (\<exists>i. R \<subseteq> {i}))"

lemma single_worker_iff: "single_worker a \<longleftrightarrow> worker_ok (stage a) (running a) (late a)"
  by (simp add: single_worker_def worker_ok_def)

lemma worker_ok_remove: "worker_ok g R L \<Longrightarrow> i \<notin> R \<Longrightarrow> i \<notin> L \<Longrightarrow> worker_ok g (R - {i}) (L - {i})"
  by (cases g) (auto simp: worker_ok_def)

lemma worker_ok_reconcile: "worker_ok g R L \<Longrightarrow> worker_ok g (R - {i}) (insert i L)"
  by (cases g) (auto simp: worker_ok_def)

lemma worker_ok_more: "worker_ok g R L \<Longrightarrow> L \<subseteq> L' \<Longrightarrow> worker_ok g R L'"
  by (cases g) (auto simp: worker_ok_def)

lemma worker_ok_weaken: "worker_ok g R L \<Longrightarrow> worker_ok Off R L' \<and> worker_ok Dead R L'"
  by (cases g) (auto simp: worker_ok_def)

lemma not_running: "entries a i = Some (op, st) \<Longrightarrow> st \<noteq> Running \<Longrightarrow> i \<notin> running a"
  "entries a i = None \<Longrightarrow> i \<notin> running a"
  by (auto simp: running_def)

lemma not_late: "entries a i = Some (op, st) \<Longrightarrow> st \<noteq> Interrupted \<Longrightarrow> i \<notin> late a"
  "entries a i = None \<Longrightarrow> i \<notin> late a"
  by (auto simp: late_def)

text \<open>An entry that is new, or neither running nor interrupted before and after, does not matter to the worker.\<close>

lemma single_worker_put:
  assumes "single_worker a" and "entries a i = None \<or> entries a i = Some (op', st') \<and> st' \<notin> {Running, Interrupted}"
    and "st \<notin> {Running, Interrupted}"
  shows "single_worker (put_entry i op st a)"
proof -
  have "i \<notin> running a" "i \<notin> late a" using assms(2) not_running not_late by auto
  with assms worker_ok_remove [of "stage a" "running a" "late a" i] show ?thesis
    by (simp add: single_worker_iff running_put late_put)
qed

lemma single_worker_held [simp]: "single_worker (a\<lparr>held := h\<rparr>) = single_worker a"
  "single_worker (a\<lparr>cleaning := c\<rparr>) = single_worker a"
  by (simp_all add: single_worker_iff)

lemma single_worker_step:
  assumes "queue_step a b" and "single_worker a"
  shows "single_worker b"
  using assms
proof (induction rule: queue_step.induct)
  case (halt a)
  then show ?case using worker_ok_more [OF _ late_halt] by (simp add: single_worker_iff)
next
  case (opened a)
  then show ?case by (simp add: single_worker_iff worker_ok_def)
next
  case (admit a i op)
  then show ?case by (intro single_worker_put) auto
next
  case (admit_inference a i op)
  then show ?case by (simp, intro single_worker_put) auto
next
  case (cancel a i op st)
  then show ?case by (simp, intro single_worker_put [where op' = op and st' = st]) auto
next
  case (resume a i)
  then show ?case by (intro single_worker_put) auto
next
  case (dispatch a i op)
  then show ?case by (simp add: single_worker_iff running_put worker_ok_def)
next
  case (begin_work a i op)
  then show ?case by (simp add: single_worker_iff worker_ok_def)
next
  case (leave a i op st)
  then show ?case by (auto simp: single_worker_iff running_put worker_ok_def closed_status_def)
next
  case (ended a)
  then show ?case using worker_ok_weaken by (simp add: single_worker_iff)
next
  case (reconcile a i op st)
  show ?case
  proof (cases "stopping a")
    case True
    with reconcile worker_ok_reconcile show ?thesis by (simp add: single_worker_iff running_put late_put)
  next
    case False
    with reconcile show ?thesis by (auto simp: single_worker_iff running_put worker_ok_def)
  qed
next
  case (restart a)
  then show ?case using worker_ok_weaken by (simp add: single_worker_iff)
qed simp_all

lemma late_fetches_ignore [simp]:
  "late_fetches (a\<lparr>held := h\<rparr>) = late_fetches a" "late_fetches (a\<lparr>stopping := p\<rparr>) = late_fetches a"
  "late_fetches (a\<lparr>cleaning := c\<rparr>) = late_fetches a"
  by (simp_all add: late_fetches_def claimed_def)

lemma late_fetches_idle: "(\<And>i. stage a \<noteq> Begun i \<and> stage a \<noteq> Busy i) \<Longrightarrow> late_fetches a = {}"
  by (auto simp: late_fetches_def claimed_def)

lemma late_fetches_put:
  "late_fetches (put_entry i op st a)
    = (if op = Fetch_Dataset \<and> st = Interrupted \<and> i \<in> claimed a then insert i (late_fetches a) else late_fetches a - {i})"
  by (auto simp: late_fetches_def claimed_def)

text \<open>The job that the scheduler works on is running, or late.\<close>

lemma claimed_entry:
  assumes "single_worker a" and "i \<in> claimed a"
  shows "\<exists>op. entries a i = Some (op, Running) \<or> entries a i = Some (op, Interrupted) \<and> stopping a"
proof -
  have "i \<in> running a \<or> i \<in> late a" using assms by (auto simp: single_worker_def claimed_def)
  then show ?thesis by (auto simp: running_def late_def)
qed

lemma late_fetches_stopping: "single_worker a \<Longrightarrow> \<not> stopping a \<Longrightarrow> late_fetches a = {}"
  using claimed_entry [of a] by (fastforce simp: late_fetches_def)

text \<open>No fetch is added, or the only one, or one where there is none.\<close>

lemma single_fetch_shrinks:
  "single_fetch a \<Longrightarrow> fetching b \<union> late_fetches b \<subseteq> fetching a \<union> late_fetches a \<Longrightarrow> cleaning b = cleaning a \<Longrightarrow> single_fetch b"
  unfolding single_fetch_def by blast

lemma single_fetch_step:
  assumes "queue_step a b" and w: "single_worker a" and f: "single_fetch a"
  shows "single_fetch b"
  using assms(1)
proof (cases rule: queue_step.cases)
  case halt
  then show ?thesis by (intro single_fetch_shrinks [OF f]) auto
next
  case opened
  then have "late_fetches b = {}" by (intro late_fetches_idle) simp
  then show ?thesis using opened by (intro single_fetch_shrinks [OF f]) auto
next
  case (admit i op)
  show ?thesis
  proof (cases "op = Fetch_Dataset")
    case True
    with admit late_fetches_stopping [OF w] show ?thesis
      by (auto simp: single_fetch_def fetching_put late_fetches_put)
  next
    case False
    with admit show ?thesis by (intro single_fetch_shrinks [OF f]) (auto simp: fetching_put late_fetches_put)
  qed
next
  case (admit_inference i op)
  then show ?thesis by (intro single_fetch_shrinks [OF f]) (auto simp: fetching_put late_fetches_put)
next
  case (cancel i op st)
  then show ?thesis by (intro single_fetch_shrinks [OF f]) (auto simp: fetching_put late_fetches_put)
next
  case (resume i)
  then have "i \<in> fetching a" by (auto simp: fetching_def)
  with resume show ?thesis by (intro single_fetch_shrinks [OF f]) (auto simp: fetching_put late_fetches_put)
next
  case (dispatch i op)
  then have "op = Fetch_Dataset \<Longrightarrow> i \<in> fetching a" by (auto simp: fetching_def)
  moreover have "late_fetches b = {}" using dispatch by (auto simp: late_fetches_def claimed_def)
  ultimately show ?thesis using dispatch by (intro single_fetch_shrinks [OF f]) (auto simp: fetching_put)
next
  case (begin_work i op)
  then have "late_fetches b = late_fetches a" by (auto simp: late_fetches_def claimed_def)
  then show ?thesis using begin_work by (intro single_fetch_shrinks [OF f]) auto
next
  case (leave i op st)
  have "op = Fetch_Dataset \<Longrightarrow> i \<in> fetching a \<union> late_fetches a"
    using leave by (auto simp: fetching_def late_fetches_def claimed_def)
  moreover have "late_fetches b = {}" using leave(1) by (simp add: late_fetches_def claimed_def)
  ultimately show ?thesis using leave by (intro single_fetch_shrinks [OF f]) (auto simp: fetching_put)
next
  case ended
  then have "late_fetches b = {}" by (intro late_fetches_idle) simp
  then show ?thesis using ended by (intro single_fetch_shrinks [OF f]) auto
next
  case (reconcile i op st)
  then have "op = Fetch_Dataset \<Longrightarrow> i \<in> fetching a" by (auto simp: fetching_def)
  with reconcile show ?thesis by (intro single_fetch_shrinks [OF f]) (auto simp: fetching_put late_fetches_put)
next
  case clean
  then show ?thesis by (simp add: single_fetch_def)
next
  case cleaned
  with f show ?thesis by (simp add: single_fetch_def)
next
  case restart
  then have "late_fetches b = {}" by (intro late_fetches_idle) simp
  with restart f show ?thesis by (auto simp: single_fetch_def)
qed

lemma bounded_waiting_step:
  assumes "queue_step a b" and "bounded_waiting a"
  shows "bounded_waiting b"
proof -
  have shrink: "bounded_waiting b" if "waiting b \<subseteq> waiting a"
    using assms(2) that card_mono [OF _ that] finite_subset [OF that]
    by (auto simp: bounded_waiting_def)
  from assms(1) show ?thesis
  proof (cases rule: queue_step.cases)
    case (admit_inference i op)
    with assms(2) show ?thesis
      by (auto simp: bounded_waiting_def waiting_put card_insert_if)
  next
    case (dispatch i op)
    then have "inference_operation op \<Longrightarrow> i \<in> waiting a" by (auto simp: waiting_def)
    with dispatch show ?thesis by (intro shrink) (auto simp: waiting_put)
  next
    case (leave i op st)
    then show ?thesis by (intro shrink) (auto simp: waiting_put closed_status_def)
  qed (use shrink in \<open>auto simp: waiting_put\<close>)
qed

lemma begun_ignore [simp]:
  "begun (a\<lparr>held := h\<rparr>) = begun a" "begun (a\<lparr>stopping := p\<rparr>) = begun a" "begun (a\<lparr>cleaning := c\<rparr>) = begun a"
  by (simp_all add: begun_def)

lemma begun_not_begun: "(\<And>k. stage a \<noteq> Begun k) \<Longrightarrow> begun a = {}"
  by (simp add: begun_def)

lemma begun_put_other: "stage a \<noteq> Begun i \<Longrightarrow> begun (put_entry i op st a) = begun a"
  by (auto simp: begun_def)

lemma begun_put_same: "entries a i = Some (op, st') \<Longrightarrow> begun (put_entry i op st a) = begun a"
  by (auto simp: begun_def)

lemma begun_runs: "single_worker a \<Longrightarrow> stage a = Begun i \<Longrightarrow> i \<in> running a \<union> late a"
  by (auto simp: single_worker_def)

lemma secrets_match_step:
  assumes "queue_step a b" and "single_worker a" and "secrets_match a"
  shows "secrets_match b"
  using assms(1)
proof (cases rule: queue_step.cases)
  case halt
  with assms show ?thesis by (auto simp: secrets_match_def)
next
  case opened
  with assms show ?thesis by (auto simp: secrets_match_def begun_def)
next
  case (admit i op)
  then have "stage a \<noteq> Begun i" using begun_runs [OF assms(2)] not_running(2) [of a i] not_late(2) [of a i] by auto
  moreover have "i \<notin> queued_inference a" using admit by (auto simp: queued_inference_def)
  ultimately show ?thesis using admit assms(3) by (auto simp: secrets_match_def queued_put begun_put_other)
next
  case (admit_inference i op)
  then have "stage a \<noteq> Begun i" using begun_runs [OF assms(2)] not_running(2) [of a i] not_late(2) [of a i] by auto
  then show ?thesis using admit_inference assms(3) by (auto simp: secrets_match_def queued_put begun_put_other)
next
  case (cancel i op st)
  then have "stage a \<noteq> Begun i"
    using begun_runs [OF assms(2)] not_running(1) [of a i op st] not_late(1) [of a i op st] by auto
  moreover from this have "i \<notin> begun a" by (simp add: begun_def)
  ultimately show ?thesis using cancel assms(3) by (auto simp: secrets_match_def queued_put begun_put_other)
next
  case (resume i)
  then have "i \<notin> queued_inference a" by (auto simp: queued_inference_def)
  with resume assms(3) show ?thesis by (auto simp: secrets_match_def queued_put begun_put_same)
next
  case (dispatch i op)
  then have "begun b = (if inference_operation op then {i} else {})" and "begun a = {}"
    by (auto simp: begun_def)
  moreover have "i \<in> queued_inference a \<longleftrightarrow> inference_operation op"
    using dispatch by (auto simp: queued_inference_def)
  ultimately show ?thesis using dispatch assms(3)
    by (auto simp: secrets_match_def queued_put)
next
  case (begin_work i op)
  then have "begun b = {}" and "begun a = (if inference_operation op then {i} else {})"
    by (auto simp: begun_def)
  moreover have "i \<notin> queued_inference a" using begin_work by (auto simp: queued_inference_def)
  moreover have "queued_inference b = queued_inference a" using begin_work by simp
  ultimately show ?thesis using begin_work assms(3)
    by (auto simp: secrets_match_def)
next
  case (leave i op st)
  then have "begun b = {}" and "begun a = {}" by (auto simp: begun_def)
  moreover have "queued_inference b = queued_inference a"
    using leave by (auto simp: queued_put queued_inference_def closed_status_def)
  ultimately show ?thesis using leave assms(3) by (auto simp: secrets_match_def)
next
  case ended
  then have "begun b = {}" by (simp add: begun_def)
  with ended assms(3) show ?thesis by (auto simp: secrets_match_def)
next
  case (reconcile i op st)
  then have "begun b = begun a" by (simp add: begun_put_same)
  moreover have "queued_inference b = queued_inference a - {i}" using reconcile by (simp add: queued_put)
  ultimately show ?thesis using reconcile assms(3) by (cases "stopping a") (auto simp: secrets_match_def begun_def)
next
  case clean
  with assms show ?thesis by (simp add: secrets_match_def)
next
  case cleaned
  with assms show ?thesis by (simp add: secrets_match_def)
next
  case restart
  then show ?thesis by (auto simp: secrets_match_def begun_def)
qed

lemma queue_ok_step: "queue_step a b \<Longrightarrow> queue_ok a \<Longrightarrow> queue_ok b"
  unfolding queue_ok_def
  using single_worker_step single_fetch_step [of a b] bounded_waiting_step secrets_match_step by blast

lemma empty_queue_ok: "queue_ok empty_queue"
  by (simp add: queue_ok_def empty_queue_def single_worker_def single_fetch_def bounded_waiting_def
      secrets_match_def queue_sets late_fetches_def claimed_def)

interpretation queue: guarded_system queue_step queue_ok
  by unfold_locales (rule queue_ok_step)

section \<open>Lifecycle of a job\<close>

definition allowed_change :: "job_operation \<Rightarrow> job_status \<Rightarrow> job_status \<Rightarrow> bool" where
  "allowed_change op a b \<longleftrightarrow>
     a = b \<or>
     a = Queued \<and> b \<in> {Running, Cancelled, Interrupted} \<or>
     a \<in> {Running, Interrupted} \<and> (b \<in> closed_status \<or> b = Paused \<and> op = Fetch_Dataset) \<or>
     a = Paused \<and> (b = Cancelled \<or> b = Queued \<and> op = Fetch_Dataset)"

lemma step_allowed:
  assumes "queue_step a b" and "entries a i = Some (op, st)"
  shows "\<exists>st'. entries b i = Some (op, st') \<and> allowed_change op st st'"
  using assms by (cases rule: queue_step.cases) (auto simp: allowed_change_def closed_status_def)

text \<open>A job rests when its status is closed and the scheduler does not still work on it after an interruption.\<close>

definition settled :: "queue \<Rightarrow> string \<Rightarrow> job_operation \<Rightarrow> job_status \<Rightarrow> bool" where
  "settled a i op st \<longleftrightarrow> entries a i = Some (op, st) \<and> st \<in> closed_status \<and> (st = Interrupted \<longrightarrow> i \<notin> claimed a)"

lemma step_keeps_settled:
  assumes "queue_step a b" and "settled a i op st"
  shows "settled b i op st"
  using assms by (cases rule: queue_step.cases) (auto simp: settled_def closed_status_def claimed_def)

lemma run_keeps_settled: "queue_step\<^sup>*\<^sup>* a b \<Longrightarrow> settled a i op st \<Longrightarrow> settled b i op st"
  by (induction rule: rtranclp_induct) (auto intro: step_keeps_settled)

lemma step_admits_queued:
  assumes "queue_step a b" and "entries a i = None" and "entries b i = Some (op, st)"
  shows "st = Queued"
  using assms by (cases rule: queue_step.cases) (auto split: if_splits)

end
