(* ===== verification/JobSections.thy ===== *)
theory JobSections
  imports JobScheduler JobQueue
begin

text \<open>
  The queue that a service stands for, what the writes of \<open>JobStore\<close> do to it, and the
  sections of the scheduler and of the shutdown as steps of that queue.
\<close>

section \<open>The queue a service stands for\<close>

definition view :: "service \<Rightarrow> string \<Rightarrow> (job_operation \<times> job_status) option" where
  "view s i = map_option (\<lambda>j. (operation j, status j)) (lookup_job i (store s))"

fun stage_of :: "scheduler \<Rightarrow> stage" where
  "stage_of Absent = Off"
| "stage_of Polling = Idle"
| "stage_of (Starting i) = Begun i"
| "stage_of (Executing i task) = Busy i"
| "stage_of Ended = Dead"

definition queue_of :: "service \<Rightarrow> queue" where
  "queue_of s = \<lparr>entries = view s, stage = stage_of (thread s), held = set (dict_keys (waiting_secrets s)),
     stopping = closing s, cleaning = cleanup_running s\<rparr>"

definition request_fits :: "stored_request \<Rightarrow> bool" where
  "request_fits q \<longleftrightarrow> (case q of
      Workflow w \<Rightarrow> workflow_operation w \<in> {Train, Evaluate, Export, Prepare_Dataset}
    | Inference r \<Rightarrow> record_operation r \<in> {Encode, Decode}
    | Fetch f \<Rightarrow> True)"

definition requests_match :: "stored_request job_store \<Rightarrow> bool" where
  "requests_match st \<longleftrightarrow> (\<forall>(i, j, q) \<in> set (jobs st). operation j = stored_operation q \<and> request_fits q)"

definition well_kept :: "service \<Rightarrow> bool" where
  "well_kept s \<longleftrightarrow>
     store_valid (store s) \<and> requests_match (store s) \<and> distinct (dict_keys (waiting_secrets s)) \<and>
     attached s"

section \<open>Effects on the store\<close>

definition quiet :: "service \<Rightarrow> service \<Rightarrow> bool" where
  "quiet s t \<longleftrightarrow> (\<exists>fs. t = s\<lparr>store := (store s)\<lparr>faults := fs\<rparr>\<rparr>)"

lemma quiet_refl [simp]: "quiet s s"
proof -
  have "s = s\<lparr>store := (store s)\<lparr>faults := faults (store s)\<rparr>\<rparr>" by simp
  then show ?thesis unfolding quiet_def by blast
qed

lemma quiet_trans: "quiet s t \<Longrightarrow> quiet t u \<Longrightarrow> quiet s u"
  by (auto simp: quiet_def)

lemma quiet_in_store: "same_tables (store s) st \<Longrightarrow> quiet s (s\<lparr>store := st\<rparr>)"
  by (auto simp: same_tables_def quiet_def)

lemma quiet_lookup [simp]: "quiet s t \<Longrightarrow> lookup_job i (store t) = lookup_job i (store s)"
  by (auto simp: quiet_def lookup_job_def)

lemma quiet_queue: "quiet s t \<Longrightarrow> queue_of t = queue_of s"
  by (auto simp: quiet_def queue_of_def view_def lookup_job_def fun_eq_iff)

lemma quiet_kept: "quiet s t \<Longrightarrow> well_kept t = well_kept s"
proof -
  assume "quiet s t"
  then obtain fs where t: "t = s\<lparr>store := (store s)\<lparr>faults := fs\<rparr>\<rparr>" by (auto simp: quiet_def)
  have "same_tables (store s) (store t)" unfolding t same_tables_def by auto
  then have "store_valid (store t) = store_valid (store s)" by (rule same_tables_valid)
  then show ?thesis unfolding well_kept_def by (simp add: t requests_match_def)
qed

lemma quiet_fields:
  "quiet s t \<Longrightarrow> thread t = thread s \<and> closing t = closing s \<and> attached t = attached s \<and>
     persistence_failed t = persistence_failed s \<and> owned t = owned s \<and> active_job t = active_job s \<and>
     waiting_secrets t = waiting_secrets s \<and> cleanup_running t = cleanup_running s \<and>
     mutations (store t) = mutations (store s) \<and> jobs (store t) = jobs (store s) \<and>
     events (store t) = events (store s)"
  by (auto simp: quiet_def)

lemma in_get_job:
  assumes "in_store (get_job i) s = (t, r)"
  shows "quiet s t" and "r = Inr j \<Longrightarrow> lookup_job i (store s) = Some j"
  using assms get_job_effect [of i "store s"]
  by (auto simp: in_store_def quiet_in_store split: prod.splits)

lemma in_get_request:
  assumes "in_store (get_request i) s = (t, r)"
  shows "quiet s t" and "r = Inr q \<Longrightarrow> \<exists>j. map_of (jobs (store s)) i = Some (j, q)"
  using assms get_request_effect [of i "store s"]
  by (auto simp: in_store_def quiet_in_store split: prod.splits)

lemma in_list_jobs:
  assumes "in_store list_jobs s = (t, r)"
  shows "quiet s t" and "r = Inr js \<Longrightarrow> mset js = mset (snapshots (store s))"
  using assms list_jobs_effect [of "store s"]
  by (auto simp: in_store_def quiet_in_store split: prod.splits)

lemma in_replay:
  assumes "in_store (replay i fp) s = (t, r)"
  shows "quiet s t"
    and "r = Inr (Some j) \<Longrightarrow> \<exists>job. map_of (mutations (store s)) i = Some (fp, job) \<and> lookup_job job (store s) = Some j"
    and "r = Inr None \<Longrightarrow> map_of (mutations (store s)) i = None"
  using assms replay_effect [of i fp "store s"]
  by (auto simp: in_store_def quiet_in_store split: prod.splits)

section \<open>What a change records\<close>

text \<open>
  \<open>recorded s j k t\<close>: the tables of \<open>t\<close> are those of \<open>s\<close> with job \<open>j\<close> written as \<open>k\<close>, which
  differs in the number of its event only; nothing else changed.
\<close>

definition recorded :: "service \<Rightarrow> job_snapshot \<Rightarrow> job_snapshot \<Rightarrow> service \<Rightarrow> bool" where
  "recorded s j k t \<longleftrightarrow>
     well_kept t \<and> (\<exists>st. t = s\<lparr>store := st\<rparr>) \<and>
     (\<exists>n. k = j\<lparr>latest_event_identifier := n\<rparr>) \<and>
     (\<forall>i. lookup_job i (store t) = (if i = job_identifier j then Some k else lookup_job i (store s)))"

lemma recorded_fields:
  assumes "recorded s j k t"
  shows "thread t = thread s" "closing t = closing s" "attached t = attached s"
    "persistence_failed t = persistence_failed s" "owned t = owned s" "active_job t = active_job s"
    "waiting_secrets t = waiting_secrets s" "cleanup_running t = cleanup_running s"
    "status k = status j" "operation k = operation j" "job_identifier k = job_identifier j" "well_kept t"
proof -
  from assms obtain st n where t: "t = s\<lparr>store := st\<rparr>" and k: "k = j\<lparr>latest_event_identifier := n\<rparr>"
    by (auto simp: recorded_def)
  show "well_kept t" using assms by (simp add: recorded_def)
  show "thread t = thread s" "closing t = closing s" "attached t = attached s"
    "persistence_failed t = persistence_failed s" "owned t = owned s" "active_job t = active_job s"
    "waiting_secrets t = waiting_secrets s" "cleanup_running t = cleanup_running s"
    "status k = status j" "operation k = operation j" "job_identifier k = job_identifier j"
    by (simp_all add: t k)
qed

lemma recorded_view:
  "recorded s j k t \<Longrightarrow> view t = (view s)(job_identifier j \<mapsto> (operation j, status j))"
proof -
  assume r: "recorded s j k t"
  have "view t i = ((view s)(job_identifier j \<mapsto> (operation j, status j))) i" for i
    using r recorded_fields(9,10) [OF r] by (simp add: view_def recorded_def)
  then show ?thesis by (rule ext)
qed

lemma recorded_queue:
  "recorded s j k t \<Longrightarrow> queue_of t = put_entry (job_identifier j) (operation j) (status j) (queue_of s)"
  using recorded_view recorded_fields [of s j k t] by (simp add: queue_of_def)

lemma recorded_from_quiet: "quiet s u \<Longrightarrow> recorded u j k t \<Longrightarrow> recorded s j k t"
proof -
  assume "quiet s u" and r: "recorded u j k t"
  then obtain fs where u: "u = s\<lparr>store := (store s)\<lparr>faults := fs\<rparr>\<rparr>" by (auto simp: quiet_def)
  from r obtain st where "t = u\<lparr>store := st\<rparr>" by (auto simp: recorded_def)
  then have "\<exists>st. t = s\<lparr>store := st\<rparr>" by (auto simp: u)
  moreover have "lookup_job i (store u) = lookup_job i (store s)" for i
    by (simp add: u lookup_job_def)
  ultimately show ?thesis using r by (simp add: recorded_def)
qed

lemma write_requests:
  assumes "requests_match st" and "store_valid st"
    and "req = None \<Longrightarrow> \<exists>k. lookup_job (job_identifier j) st = Some k \<and> operation k = operation j"
    and "\<And>q. req = Some q \<Longrightarrow> operation j = stored_operation q \<and> request_fits q"
  shows "requests_match (write_rows j req mut st)"
proof (cases req)
  case (Some q)
  with assms(1,4) show ?thesis
    by (auto simp: requests_match_def write_rows_def Let_def stamped_def)
next
  case None
  from assms(3) [OF None] obtain k where k: "lookup_job (job_identifier j) st = Some k" "operation k = operation j"
    by blast
  have d: "distinct (map fst (jobs st))" using assms(2) unfolding store_valid_def by blast
  have "operation j = stored_operation q \<and> request_fits q" if "(job_identifier j, k', q) \<in> set (jobs st)" for k' q
  proof -
    from that d have "map_of (jobs st) (job_identifier j) = Some (k', q)" by simp
    with k have "operation k' = operation j" by (simp add: lookup_job_def)
    with assms(1) that show ?thesis by (auto simp: requests_match_def)
  qed
  then show ?thesis using assms(1) None
    by (auto simp: requests_match_def write_rows_def Let_def stamped_def update_payload_def split: if_splits)
qed

lemma in_save:
  assumes run: "in_store (save j req mut) s = (t, r)" and kept: "well_kept s"
    and old: "req = None \<Longrightarrow> \<exists>k. lookup_job (job_identifier j) (store s) = Some k \<and> operation k = operation j"
    and op: "\<And>q. req = Some q \<Longrightarrow> operation j = stored_operation q \<and> request_fits q"
  shows "quiet s t \<and> r = Inl Storage_Failure \<or>
    (\<exists>k. r = Inr k \<and> recorded s j k t \<and> (req \<noteq> None \<longrightarrow> lookup_job (job_identifier j) (store s) = None) \<and>
       mutations (store t) = mutations (store s) @
         (case mut of None \<Rightarrow> [] | Some (i, fp) \<Rightarrow> [(i, fp, job_identifier j)]) \<and>
       (\<forall>i fp. mut = Some (i, fp) \<longrightarrow> map_of (mutations (store s)) i = None))"
proof -
  obtain st where sv: "save j req mut (store s) = (st, r)" and t: "t = s\<lparr>store := st\<rparr>"
    using run by (auto simp: in_store_def split: prod.splits)
  from save_row_effect [OF sv] show ?thesis
  proof (elim disjE exE conjE)
    assume "same_tables (store s) st" and "r = Inl Storage_Failure"
    then show ?thesis by (simp add: t quiet_in_store)
  next
    fix u
    assume same: "same_tables (store s) u" and st: "st = write_rows j req mut u"
      and r: "r = Inr (stamped j u)" and new: "req \<noteq> None \<longrightarrow> lookup_job (job_identifier j) (store s) = None"
      and free: "\<forall>i fp. mut = Some (i, fp) \<longrightarrow> map_of (mutations (store s)) i = None"
    have sv: "store_valid (store s)" and rm: "requests_match (store s)" using kept by (simp_all add: well_kept_def)
    then have u: "store_valid u" "requests_match u" using same same_tables_valid [OF same]
      by (auto simp: same_tables_def requests_match_def)
    have lu: "\<And>i. lookup_job i u = lookup_job i (store s)" using same by (rule same_tables_lookup)
    have mu: "mutations u = mutations (store s)" using same by (auto simp: same_tables_def)
    have "store_valid st" unfolding st
      using u new old free by (intro write_rows_valid) (auto simp: lu mu)
    moreover have "requests_match st" unfolding st
      using u old op by (intro write_requests) (auto simp: lu)
    moreover have "\<And>i. lookup_job i st = (if i = job_identifier j then Some (stamped j u) else lookup_job i (store s))"
    proof -
      fix i
      have "req \<noteq> None \<Longrightarrow> lookup_job (job_identifier j) u = None"
        and "req = None \<Longrightarrow> lookup_job (job_identifier j) u \<noteq> None"
        using new old by (auto simp: lu)
      then have "lookup_job i st = (if i = job_identifier j then Some (stamped j u) else lookup_job i u)"
        unfolding st by (rule lookup_write [OF u(1)])
      then show "lookup_job i st = (if i = job_identifier j then Some (stamped j u) else lookup_job i (store s))"
        by (simp add: lu)
    qed
    moreover have "mutations st = mutations (store s) @
         (case mut of None \<Rightarrow> [] | Some (i, fp) \<Rightarrow> [(i, fp, job_identifier j)])"
      unfolding st by (auto simp: write_rows_def Let_def mu stamped_def split: option.splits)
    ultimately show ?thesis
      using kept r new free by (auto simp: t recorded_def well_kept_def stamped_def)
  qed
qed

lemma change_effect:
  assumes run: "change now mut f job s = (t, r)" and kept: "well_kept s"
    and known: "lookup_job (job_identifier job) (store s) = Some k" "operation k = operation job"
    and same: "job_identifier (f job) = job_identifier job" "operation (f job) = operation job"
  shows "quiet s t \<and> (\<exists>e. r = Inl e) \<or>
    (\<exists>k'. r = Inr k' \<and> recorded s ((f job)\<lparr>updated_at := now\<rparr>) k' t \<and>
       mutations (store t) = mutations (store s) @
         (case mut of None \<Rightarrow> [] | Some (i, fp) \<Rightarrow> [(i, fp, job_identifier job)]) \<and>
       (\<forall>i fp. mut = Some (i, fp) \<longrightarrow> map_of (mutations (store s)) i = None))"
proof (cases "snapshot_valid ((f job)\<lparr>updated_at := now\<rparr>)")
  case False
  with run show ?thesis by (auto simp: change_def Let_def)
next
  case True
  let ?j = "(f job)\<lparr>updated_at := now\<rparr>"
  from True run have sv: "in_store (save ?j None mut) s = (t, r)" by (simp add: change_def Let_def)
  have "\<exists>k. lookup_job (job_identifier ?j) (store s) = Some k \<and> operation k = operation ?j"
    using known same by simp
  note saved = in_save [OF sv kept this]
  have "job_identifier ?j = job_identifier job" using same by simp
  with saved show ?thesis by (simp only: not_Some_eq) blast
qed

section \<open>Sections of a running job\<close>

text \<open>Everything but the job tables, the removal log and the recovered texts is kept.\<close>

definition beside :: "service \<Rightarrow> service \<Rightarrow> bool" where
  "beside s t \<longleftrightarrow>
     thread t = thread s \<and> closing t = closing s \<and> attached t = attached s \<and>
     persistence_failed t = persistence_failed s \<and> owned t = owned s \<and> active_job t = active_job s \<and>
     waiting_secrets t = waiting_secrets s \<and> cleanup_running t = cleanup_running s"

definition unmoved :: "service \<Rightarrow> service \<Rightarrow> bool" where
  "unmoved s t \<longleftrightarrow> well_kept t \<and> beside s t \<and> view t = view s"

definition moved :: "service \<Rightarrow> service \<Rightarrow> string \<Rightarrow> job_operation \<Rightarrow> job_status \<Rightarrow> bool" where
  "moved s t i op st \<longleftrightarrow> well_kept t \<and> beside s t \<and> view t = (view s)(i \<mapsto> (op, st))"

lemma beside_refl [simp]: "beside s s"
  by (simp add: beside_def)

lemma beside_trans: "beside s t \<Longrightarrow> beside t u \<Longrightarrow> beside s u"
  by (simp add: beside_def)

lemma quiet_beside: "quiet s t \<Longrightarrow> beside s t"
  using quiet_fields [of s t] by (simp add: beside_def)

lemma quiet_view: "quiet s t \<Longrightarrow> view t = view s"
  by (simp add: view_def fun_eq_iff)

lemma unmoved_refl [simp]: "unmoved s s = well_kept s"
  by (simp add: unmoved_def)

lemma unmoved_trans: "unmoved s t \<Longrightarrow> unmoved t u \<Longrightarrow> unmoved s u"
  by (auto simp: unmoved_def intro: beside_trans)

lemma unmoved_moved: "unmoved s t \<Longrightarrow> moved t u i op st \<Longrightarrow> moved s u i op st"
  by (auto simp: unmoved_def moved_def intro: beside_trans)

lemma quiet_unmoved: "quiet s t \<Longrightarrow> well_kept s \<Longrightarrow> unmoved s t"
  by (simp add: unmoved_def quiet_beside quiet_view quiet_kept)

lemma recorded_moved: "recorded s j k t \<Longrightarrow> moved s t (job_identifier j) (operation j) (status j)"
  using recorded_fields [of s j k t] recorded_view [of s j k t] by (simp add: moved_def beside_def)

lemma unmoved_queue: "unmoved s t \<Longrightarrow> queue_of t = queue_of s"
  by (simp add: unmoved_def beside_def queue_of_def)

lemma moved_queue: "moved s t i op st \<Longrightarrow> queue_of t = put_entry i op st (queue_of s)"
  by (simp add: moved_def beside_def queue_of_def)

lemma put_entry_same: "entries a i = Some (op, st) \<Longrightarrow> put_entry i op st a = a"
  by (simp add: map_upd_triv)

lemma entries_queue [simp]: "entries (queue_of s) = view s"
  and stage_queue [simp]: "stage (queue_of s) = stage_of (thread s)"
  and held_queue [simp]: "held (queue_of s) = set (dict_keys (waiting_secrets s))"
  and stopping_queue [simp]: "stopping (queue_of s) = closing s"
  and cleaning_queue [simp]: "cleaning (queue_of s) = cleanup_running s"
  by (simp_all add: queue_of_def)

definition knows :: "string \<Rightarrow> job_snapshot \<Rightarrow> service \<Rightarrow> bool" where
  "knows i job s \<longleftrightarrow> job_identifier job = i \<and> view s i = Some (operation job, status job)"

lemma knows_unmoved: "unmoved s t \<Longrightarrow> knows i job s \<Longrightarrow> knows i job t"
  by (simp add: unmoved_def knows_def)

lemma lookup_identifier:
  assumes "store_valid st" and "lookup_job i st = Some j"
  shows "job_identifier j = i"
proof -
  from assms(2) obtain q where "(i, j, q) \<in> set (jobs st)"
    by (auto simp: lookup_job_def dest: map_of_SomeD)
  moreover have "\<forall>(i, j, q) \<in> set (jobs st). job_identifier j = i"
    using assms(1) unfolding store_valid_def by blast
  ultimately show ?thesis by auto
qed

lemma lookup_knows: "well_kept s \<Longrightarrow> lookup_job i (store s) = Some j \<Longrightarrow> knows i j s"
  using lookup_identifier [of "store s" i j] by (simp add: knows_def view_def well_kept_def)

text \<open>
  \<open>gentle K m Q\<close>: from a state with \<open>K\<close>, \<open>m\<close> moves no job, and a result satisfies \<open>Q\<close> with
  the state it leaves. \<open>ends K P i m\<close>: a success of \<open>m\<close> moves job \<open>i\<close> as \<open>P\<close> allows and a
  failure moves nothing.
\<close>

definition gentle :: "(service \<Rightarrow> bool) \<Rightarrow> (service, 'a) action \<Rightarrow> ('a \<Rightarrow> service \<Rightarrow> bool) \<Rightarrow> bool" where
  "gentle K m Q \<longleftrightarrow> (\<forall>s t r. well_kept s \<longrightarrow> K s \<longrightarrow> m s = (t, r) \<longrightarrow>
     unmoved s t \<and> (\<forall>x. r = Inr x \<longrightarrow> Q x t))"

definition ends ::
  "(service \<Rightarrow> bool) \<Rightarrow> (job_operation \<Rightarrow> job_status \<Rightarrow> job_status \<Rightarrow> bool) \<Rightarrow> string \<Rightarrow> (service, 'a) action \<Rightarrow> bool"
where
  "ends K P i m \<longleftrightarrow> (\<forall>s t r. well_kept s \<longrightarrow> K s \<longrightarrow> m s = (t, r) \<longrightarrow>
     (case r of Inl e \<Rightarrow> unmoved s t
      | Inr x \<Rightarrow> \<exists>op old st. view s i = Some (op, old) \<and> P op old st \<and> moved s t i op st))"

lemma gentle_bind:
  assumes "gentle K m Q" and "\<And>x. gentle (Q x) (f x) R"
  shows "gentle K (act_bind m f) R"
  unfolding gentle_def
proof (intro allI impI)
  fix s t r
  assume s: "well_kept s" "K s" and run: "act_bind m f s = (t, r)"
  obtain u q where m: "m s = (u, q)" by fastforce
  with assms(1) s have u: "unmoved s u" and q: "\<And>x. q = Inr x \<Longrightarrow> Q x u" by (auto simp: gentle_def)
  show "unmoved s t \<and> (\<forall>x. r = Inr x \<longrightarrow> R x t)"
  proof (cases q)
    case (Inl e)
    with m run u show ?thesis by auto
  next
    case (Inr x)
    with m run have "f x u = (t, r)" by simp
    moreover have "well_kept u" using u by (simp add: unmoved_def)
    ultimately have "unmoved u t \<and> (\<forall>x. r = Inr x \<longrightarrow> R x t)"
      using assms(2) [of x] q [OF Inr] unfolding gentle_def by blast
    with u show ?thesis using unmoved_trans by blast
  qed
qed

lemma ends_bind:
  assumes "gentle K m Q" and "\<And>x. ends (Q x) P i (f x)"
  shows "ends K P i (act_bind m f)"
  unfolding ends_def
proof (intro allI impI)
  fix s t r
  assume s: "well_kept s" "K s" and run: "act_bind m f s = (t, r)"
  obtain u q where m: "m s = (u, q)" by fastforce
  with assms(1) s have u: "unmoved s u" and q: "\<And>x. q = Inr x \<Longrightarrow> Q x u" by (auto simp: gentle_def)
  show "case r of Inl e \<Rightarrow> unmoved s t
      | Inr x \<Rightarrow> \<exists>op old st. view s i = Some (op, old) \<and> P op old st \<and> moved s t i op st"
  proof (cases q)
    case (Inl e)
    with m run u show ?thesis by auto
  next
    case (Inr x)
    with m run have f: "f x u = (t, r)" by simp
    have k: "well_kept u" and v: "view u = view s" using u by (simp_all add: unmoved_def)
    have "case r of Inl e \<Rightarrow> unmoved u t
      | Inr x \<Rightarrow> \<exists>op old st. view u i = Some (op, old) \<and> P op old st \<and> moved u t i op st"
      using assms(2) [of x] q [OF Inr] f k unfolding ends_def by blast
    then show ?thesis
      using unmoved_trans [OF u] unmoved_moved [OF u] unfolding v by (cases r) (simp, fastforce)
  qed
qed

lemma gentle_weaken:
  "gentle K m Q \<Longrightarrow> (\<And>s. K' s \<Longrightarrow> K s) \<Longrightarrow> (\<And>x t. Q x t \<Longrightarrow> Q' x t) \<Longrightarrow> gentle K' m Q'"
  unfolding gentle_def by blast

lemma ends_weaken:
  assumes "ends K P i m" and K: "\<And>s. K' s \<Longrightarrow> K s" and P: "\<And>op old st. P op old st \<Longrightarrow> P' op old st"
  shows "ends K' P' i m"
  unfolding ends_def
proof (intro allI impI)
  fix s t r
  assume "well_kept s" and "K' s" and "m s = (t, r)"
  then have "case r of Inl e \<Rightarrow> unmoved s t
      | Inr x \<Rightarrow> \<exists>op old st. view s i = Some (op, old) \<and> P op old st \<and> moved s t i op st"
    using assms(1) K unfolding ends_def by blast
  then show "case r of Inl e \<Rightarrow> unmoved s t
      | Inr x \<Rightarrow> \<exists>op old st. view s i = Some (op, old) \<and> P' op old st \<and> moved s t i op st"
    using P by (cases r) (simp, simp, blast)
qed

lemma gentle_get_job: "gentle K (in_store (get_job i)) (knows i)"
  unfolding gentle_def
proof (intro allI impI)
  fix s t r assume k: "well_kept s" and run: "in_store (get_job i) s = (t, r)"
  note q = in_get_job [OF run]
  then have "unmoved s t" using k by (auto intro: quiet_unmoved)
  moreover from this have "r = Inr j \<Longrightarrow> knows i j t" for j
    using q(2) [of j] lookup_knows [OF k] knows_unmoved by blast
  ultimately show "unmoved s t \<and> (\<forall>x. r = Inr x \<longrightarrow> knows i x t)" by blast
qed

lemma gentle_lift [intro]: "gentle K (act_lift x) (\<lambda>_. K)"
  and gentle_return: "gentle K (act_return x) (\<lambda>y s. y = x \<and> K s)"
  and gentle_raise [intro]: "gentle K (act_raise e) Q"
  and gentle_get [intro]: "gentle K act_get (\<lambda>_. K)"
  and gentle_require [intro]: "gentle K require_storage (\<lambda>_. K)"
  by (auto simp: gentle_def require_storage_def)

text \<open>A fact that every \<open>unmoved\<close> step keeps may be carried through a gentle action.\<close>

definition steady :: "(service \<Rightarrow> bool) \<Rightarrow> bool" where
  "steady K \<longleftrightarrow> (\<forall>s t. unmoved s t \<longrightarrow> K s \<longrightarrow> K t)"

lemma steady_knows [intro]: "steady (knows i job)"
  using knows_unmoved by (auto simp: steady_def)

lemma steady_True [intro]: "steady (\<lambda>_. True)"
  by (simp add: steady_def)

lemma gentle_keeps: "gentle (\<lambda>_. True) m Q \<Longrightarrow> steady K \<Longrightarrow> gentle K m (\<lambda>x s. Q x s \<and> K s)"
  unfolding gentle_def steady_def by blast

lemma gentle_frame: "gentle (\<lambda>_. True) m Q \<Longrightarrow> steady K \<Longrightarrow> gentle K m (\<lambda>_. K)"
  unfolding gentle_def steady_def by blast

lemma gentle_if: "gentle K a Q \<Longrightarrow> gentle K b Q \<Longrightarrow> gentle K (if c then a else b) Q"
  by simp

lemma gentle_cond: "(c \<Longrightarrow> gentle K a Q) \<Longrightarrow> (\<not> c \<Longrightarrow> gentle K b Q) \<Longrightarrow> gentle K (if c then a else b) Q"
  by simp

lemma gentle_any: "gentle K (act_return x) (\<lambda>_ _. True)"
  by (simp add: gentle_def)

lemma gentle_list_jobs: "gentle (\<lambda>_. True) (in_store list_jobs) (\<lambda>_ _. True)"
  unfolding gentle_def using in_list_jobs(1) quiet_unmoved by blast

lemma gentle_discard: "gentle (\<lambda>_. True) (discard_partials listed label reported) (\<lambda>_ _. True)"
  by (auto simp: gentle_def discard_partials_def unmoved_def beside_def well_kept_def view_def fun_eq_iff)

lemma gentle_keep_text: "gentle (\<lambda>_. True) (keep_text swept now i x) (\<lambda>_ _. True)"
  by (auto simp: gentle_def keep_text_def unmoved_def beside_def well_kept_def view_def fun_eq_iff
      split: prod.splits)

text \<open>The change that ends a section.\<close>

definition safe_change :: "job_snapshot \<Rightarrow> (job_snapshot \<Rightarrow> job_snapshot) \<Rightarrow> bool" where
  "safe_change job f \<longleftrightarrow> job_identifier (f job) = job_identifier job \<and> operation (f job) = operation job"

lemma change_moves:
  assumes kept: "well_kept s" and job: "knows i job s" and f: "safe_change job f"
    and run: "change now mut f job s = (t, r)"
  shows "unmoved s t \<and> (\<exists>e. r = Inl e) \<or>
    (\<exists>k. r = Inr k \<and> status k = status (f job) \<and> job_identifier k = i \<and> moved s t i (operation job) (status (f job)))"
proof -
  from job obtain k where k: "lookup_job (job_identifier job) (store s) = Some k" "operation k = operation job"
    by (auto simp: knows_def view_def)
  have same: "job_identifier (f job) = job_identifier job" "operation (f job) = operation job"
    using f by (simp_all add: safe_change_def)
  from change_effect [OF run kept k same] show ?thesis
  proof (elim disjE exE conjE)
    fix e assume "quiet s t" and "r = Inl e"
    with kept show ?thesis by (simp add: quiet_unmoved)
  next
    fix k' assume r: "r = Inr k'" and rec: "recorded s (f job\<lparr>updated_at := now\<rparr>) k' t"
    from recorded_moved [OF rec] recorded_fields(9,11) [OF rec] r same job show ?thesis
      by (simp add: knows_def)
  qed
qed

lemma ends_change:
  assumes "\<And>job. safe_change job (f job)"
    and "P (operation job) (status job) (status (f job job))"
  shows "ends (knows i job) P i (act_bind (change now mut (f job) job) (\<lambda>_. act_return x))"
  unfolding ends_def
proof (intro allI impI)
  fix s t r
  assume s: "well_kept s" "knows i job s"
    and run: "act_bind (change now mut (f job) job) (\<lambda>_. act_return x) s = (t, r)"
  obtain u q where c: "change now mut (f job) job s = (u, q)" by fastforce
  from change_moves [OF s assms(1) c]
  show "case r of Inl e \<Rightarrow> unmoved s t
      | Inr x \<Rightarrow> \<exists>op old st. view s i = Some (op, old) \<and> P op old st \<and> moved s t i op st"
  proof (elim disjE exE conjE)
    fix e assume "unmoved s u" and "q = Inl e"
    with c run show ?thesis by auto
  next
    fix k assume "q = Inr k" and m: "moved s u i (operation job) (status (f job job))"
    with c run have "r = Inr x" "u = t" by auto
    with m assms(2) s(2) show ?thesis unfolding knows_def by auto
  qed
qed

lemmas safe_simps = safe_change_def in_status_def requested_def progress_changes_def

definition status_kept :: "job_operation \<Rightarrow> job_status \<Rightarrow> job_status \<Rightarrow> bool" where
  "status_kept op old st \<longleftrightarrow> st = old"

text \<open>The states a running job may be left in.\<close>

definition left_as :: "job_operation \<Rightarrow> job_status \<Rightarrow> job_status \<Rightarrow> bool" where
  "left_as op old st \<longleftrightarrow> st \<in> closed_status \<or> op = Fetch_Dataset \<and> st = Paused"

lemma workflow_progress_ends: "ends (\<lambda>_. True) status_kept i (workflow_progress now i q global_step values)"
  unfolding workflow_progress_def
  by (rule ends_bind [OF gentle_get_job], rule ends_change) (simp_all add: safe_simps status_kept_def)

lemma report_ends: "ends (\<lambda>_. True) status_kept i (report now i name)"
proof -
  have "ends (\<lambda>_. True) status_kept i (act_bind (in_store (get_job i)) (\<lambda>job.
     act_bind (change now None (\<lambda>j. j\<lparr>phase := name\<rparr>) job) (\<lambda>_. act_return ())))"
    by (rule ends_bind [OF gentle_get_job], rule ends_change) (simp_all add: safe_simps status_kept_def)
  then show ?thesis by (auto simp: report_def unless_closing_def ends_def)
qed

lemma inference_started_ends: "ends (\<lambda>_. True) status_kept i (inference_started now i ready)"
  unfolding inference_started_def by (rule ends_bind [OF gentle_lift report_ends])

lemma encode_written_ends: "ends (\<lambda>_. True) status_kept i (encode_written now i output)"
  unfolding encode_written_def by (rule ends_bind [OF gentle_lift report_ends])

lemma fetch_progressed_ends: "ends (\<lambda>_. True) status_kept i (fetch_progressed now i p)"
  unfolding fetch_progressed_def
  by (rule ends_bind [OF gentle_get_job], rule ends_change [where f = "\<lambda>job. progress_changes job p"])
    (simp_all add: safe_simps status_kept_def)

lemma workflow_status_closed: "workflow_status q code result \<in> closed_status"
  by (simp add: workflow_status_def Let_def closed_status_def)

lemma workflow_finish_ends: "ends (\<lambda>_. True) left_as i (workflow_finish now i q code result registered)"
  unfolding workflow_finish_def Let_def
proof (rule ends_bind [OF gentle_lift], rule ends_bind [OF gentle_get_job])
  fix published job
  have g: "gentle (knows i job) (if workflow_status q code result = Completed then act_return (Some 1)
      else act_bind (in_store (get_job i)) (\<lambda>j. act_return (progress j))) (\<lambda>_. knows i job)"
    (is "gentle _ ?m _")
  proof (rule gentle_frame [OF _ steady_knows])
    show "gentle (\<lambda>_. True) ?m (\<lambda>_ _. True)"
      using gentle_get_job [of "\<lambda>_. True" i]
      by (intro gentle_if gentle_any gentle_bind [OF gentle_get_job])
  qed
  show "ends (knows i job) left_as i (act_bind ?m (\<lambda>share.
       act_bind (change now None (\<lambda>j. in_status (workflow_status q code result) [] j
         \<lparr>job_result := Some (JObject published), progress := share,
          job_error := if workflow_success q code result then None else Some ''workflow_incomplete''\<rparr>) job)
        (\<lambda>_. act_return ())))"
    by (rule ends_bind [OF g], rule ends_change)
      (simp_all add: safe_simps left_as_def workflow_status_closed)
qed

lemma inference_completed_ends: "ends (\<lambda>_. True) left_as i (inference_completed now i published)"
  unfolding inference_completed_def
  by (rule ends_bind [OF gentle_get_job], rule ends_change) (simp_all add: safe_simps left_as_def closed_status_def)

lemma encode_finish_ends: "ends (\<lambda>_. True) left_as i (encode_finish now i record sec restored published)"
  unfolding encode_finish_def by (rule ends_bind [OF gentle_lift inference_completed_ends])

lemma decode_finish_ends: "ends (\<lambda>_. True) left_as i (decode_finish swept now i restored)"
  unfolding decode_finish_def decode_result_def
  by (rule ends_bind [OF _ inference_completed_ends])
    (rule gentle_bind [OF gentle_lift], rule gentle_bind [OF gentle_keep_text], auto simp: gentle_def)

lemma ends_get: "(\<And>b. ends K P i (f b)) \<Longrightarrow> ends K P i (act_bind act_get f)"
  by (simp add: ends_def)

lemma ends_if: "ends K P i a \<Longrightarrow> ends K P i b \<Longrightarrow> ends K P i (if c then a else b)"
  by simp

section \<open>The end of a fetch\<close>

definition fetch_entry :: "string \<Rightarrow> service \<Rightarrow> bool" where
  "fetch_entry i s \<longleftrightarrow> (\<exists>st. view s i = Some (Fetch_Dataset, st))"

lemma steady_fetch_entry [intro]: "steady (fetch_entry i)"
  by (auto simp: steady_def unmoved_def fetch_entry_def)

definition leaves_fetch :: "job_snapshot \<Rightarrow> (job_snapshot \<Rightarrow> job_snapshot) \<Rightarrow> bool" where
  "leaves_fetch job f \<longleftrightarrow>
     safe_change job f \<and> (operation job = Fetch_Dataset \<longrightarrow> left_as Fetch_Dataset (status job) (status (f job)))"

lemma get_fetch_job:
  "gentle (fetch_entry i) (in_store (get_job i)) (\<lambda>job s. knows i job s \<and> operation job = Fetch_Dataset)"
  using gentle_keeps [OF gentle_get_job steady_fetch_entry]
  by (rule gentle_weaken) (auto simp: knows_def fetch_entry_def)

lemma gentle_stopped:
  "gentle (\<lambda>_. True) (stopped_changes listed job partials) (\<lambda>c _. \<forall>f. c = Some f \<longrightarrow> leaves_fetch job f)"
proof -
  have a: "gentle (\<lambda>_. True) (act_return (Some f)) (\<lambda>c _. \<forall>f. c = Some f \<longrightarrow> leaves_fetch job f)"
    if "leaves_fetch job f" for f
    using that by (simp add: gentle_def)
  have b: "gentle (\<lambda>_. True) (act_bind act_get (\<lambda>s.
        if closing s then act_return (Some (\<lambda>j. (in_status Interrupted [] j)\<lparr>job_error := Some ''fetch_interrupted''\<rparr>))
        else act_return None)) (\<lambda>c _. \<forall>f. c = Some f \<longrightarrow> leaves_fetch job f)"
    by (auto simp: gentle_def leaves_fetch_def safe_simps left_as_def closed_status_def)
  have c: "leaves_fetch job (in_status Cancelled [])"
    by (simp add: leaves_fetch_def safe_simps left_as_def closed_status_def)
  have p: "leaves_fetch job (in_status Paused [Resume, Cancel])"
    by (simp add: leaves_fetch_def safe_simps left_as_def)
  show ?thesis unfolding stopped_changes_def
    by (rule gentle_if [OF gentle_bind [OF gentle_discard a [OF c]] gentle_if [OF a [OF p] b]])
qed

lemma gentle_exit:
  "gentle (\<lambda>_. True) (exit_changes listed job code result partials) (\<lambda>f _. leaves_fetch job f)"
proof -
  have n: "gentle (\<lambda>_. True) (act_return None) (\<lambda>c _. \<forall>f. c = Some f \<longrightarrow> leaves_fetch job f)"
    by (simp add: gentle_def)
  show ?thesis unfolding exit_changes_def Let_def
    by (intro gentle_if gentle_bind [OF gentle_if [OF gentle_stopped n]])
      (auto simp: gentle_def leaves_fetch_def safe_simps left_as_def closed_status_def split: option.split)
qed

text \<open>Applying the computed change; its safety was established together with it.\<close>

lemma ends_computed_change:
  "ends (\<lambda>s. knows i job s \<and> operation job = Fetch_Dataset \<and> leaves_fetch job f) left_as i
     (act_bind (change now None f job) (\<lambda>_. act_return ()))"
  unfolding ends_def
proof (intro allI impI)
  fix s t r
  assume k: "well_kept s" and job: "knows i job s \<and> operation job = Fetch_Dataset \<and> leaves_fetch job f"
    and run: "act_bind (change now None f job) (\<lambda>_. act_return ()) s = (t, r)"
  obtain u q where c: "change now None f job s = (u, q)" by fastforce
  from job have kn: "knows i job s" and sf: "safe_change job f"
    and l: "left_as (operation job) (status job) (status (f job))"
    by (simp_all add: leaves_fetch_def)
  from change_moves [OF k kn sf c]
  show "case r of Inl e \<Rightarrow> unmoved s t
      | Inr x \<Rightarrow> \<exists>op old st. view s i = Some (op, old) \<and> left_as op old st \<and> moved s t i op st"
  proof (elim disjE exE conjE)
    fix e assume "unmoved s u" and "q = Inl e"
    with c run show ?thesis by auto
  next
    fix k assume "q = Inr k" and m: "moved s u i (operation job) (status (f job))"
    with c run have "r = Inr ()" "u = t" by auto
    with m l kn show ?thesis unfolding knows_def by auto
  qed
qed

lemma fetch_finish_ends: "ends (fetch_entry i) left_as i (fetch_finish now listed i code result partials)"
  unfolding fetch_finish_def
proof (rule ends_bind [OF get_fetch_job])
  fix job
  have g: "gentle (\<lambda>s. knows i job s \<and> operation job = Fetch_Dataset) (exit_changes listed job code result partials)
      (\<lambda>f s. leaves_fetch job f \<and> knows i job s \<and> operation job = Fetch_Dataset)"
    using gentle_keeps [OF gentle_exit [of listed job code result partials] steady_knows [of i job]]
    unfolding gentle_def by blast
  have e: "ends (\<lambda>s. leaves_fetch job f \<and> knows i job s \<and> operation job = Fetch_Dataset) left_as i
      (act_bind (change now None f job) (\<lambda>_. act_return ()))" for f
    by (rule ends_weaken [OF ends_computed_change]) auto
  show "ends (\<lambda>s. knows i job s \<and> operation job = Fetch_Dataset) left_as i
      (act_bind (exit_changes listed job code result partials) (\<lambda>changes.
       act_bind (change now None changes job) (\<lambda>_. act_return ())))"
    by (rule ends_bind [OF g e])
qed

lemma ends_raise: "ends K P i (act_raise e)"
  by (simp add: ends_def)

lemma fetch_failed_ends: "ends (fetch_entry i) left_as i (fetch_failed now listed i e partials)"
proof -
  have "ends (fetch_entry i) left_as i (act_bind (in_store (get_job i)) (\<lambda>job.
        act_bind (stopped_changes listed job partials) (\<lambda>changes.
        case changes of None \<Rightarrow> act_raise e
        | Some f \<Rightarrow> act_bind (change now None f job) (\<lambda>_. act_return ()))))"
  proof (rule ends_bind [OF get_fetch_job])
    fix job
    have g: "gentle (\<lambda>s. knows i job s \<and> operation job = Fetch_Dataset) (stopped_changes listed job partials)
        (\<lambda>c s. (\<forall>f. c = Some f \<longrightarrow> leaves_fetch job f) \<and> knows i job s \<and> operation job = Fetch_Dataset)"
      using gentle_keeps [OF gentle_stopped [of listed job partials] steady_knows [of i job]]
      unfolding gentle_def by blast
    have e: "ends (\<lambda>s. (\<forall>f. c = Some f \<longrightarrow> leaves_fetch job f) \<and> knows i job s \<and> operation job = Fetch_Dataset)
        left_as i (case c of None \<Rightarrow> act_raise e
          | Some f \<Rightarrow> act_bind (change now None f job) (\<lambda>_. act_return ()))" for c
      by (cases c) (auto simp: ends_raise intro: ends_weaken [OF ends_computed_change])
    show "ends (\<lambda>s. knows i job s \<and> operation job = Fetch_Dataset) left_as i
       (act_bind (stopped_changes listed job partials) (\<lambda>changes.
        case changes of None \<Rightarrow> act_raise e
        | Some f \<Rightarrow> act_bind (change now None f job) (\<lambda>_. act_return ())))"
      by (rule ends_bind [OF g e])
  qed
  then show ?thesis by (simp add: fetch_failed_def ends_raise)
qed

section \<open>Failures and interruptions\<close>

lemma interrupt_moves:
  assumes "well_kept s" and "knows i job s" and "interrupt now job s = (t, r)"
  shows "unmoved s t \<and> (\<exists>e. r = Inl e) \<or>
    (\<exists>k. r = Inr k \<and> moved s t i (operation job) Interrupted)"
proof -
  let ?f = "\<lambda>j. (in_status Interrupted [] j)
     \<lparr>job_error := if is_fetch job then Some ''fetch_interrupted'' else interruption_error job\<rparr>"
  have "safe_change job ?f" by (simp add: safe_simps)
  from change_moves [OF assms(1,2) this] assms(3) show ?thesis
    unfolding interrupt_def by (fastforce simp: in_status_def)
qed

lemma report_failure_ends: "ends (\<lambda>_. True) left_as i (report_failure now i e)"
  unfolding report_failure_def Let_def
proof (rule ends_bind [OF gentle_get_job])
  fix job
  let ?code = "if is_application_failure e then failure_code e else ''workflow_failed''"
  have "ends (knows i job) left_as i (act_bind (interrupt now job) (\<lambda>_. act_return ()))"
    unfolding interrupt_def
    by (rule ends_change) (simp_all add: safe_simps left_as_def closed_status_def)
  moreover have "ends (knows i job) left_as i
      (act_bind (change now None (\<lambda>j. in_status st [] j\<lparr>job_error := Some ?code\<rparr>) job) (\<lambda>_. act_return ()))"
    if "st \<in> closed_status" for st
    using that by (intro ends_change) (simp_all add: safe_simps left_as_def)
  ultimately show "ends (knows i job) left_as i (act_bind act_get (\<lambda>s.
      if closing s \<and> is_inference job then act_bind (interrupt now job) (\<lambda>_. act_return ())
      else act_bind (change now None (\<lambda>j. in_status (if closing s then Interrupted else Failed) [] j
             \<lparr>job_error := Some ?code\<rparr>) job) (\<lambda>_. act_return ())))"
    by (intro ends_get ends_if) (simp_all add: closed_status_def)
qed

section \<open>Sections as steps of the queue\<close>

abbreviation queue_run :: "queue \<Rightarrow> queue \<Rightarrow> bool" where
  "queue_run \<equiv> queue_step\<^sup>*\<^sup>*"

text \<open>\<open>refined s t\<close>: \<open>t\<close> is in order and some steps of the queue lead to it.\<close>

definition refined :: "service \<Rightarrow> service \<Rightarrow> bool" where
  "refined s t \<longleftrightarrow> well_kept t \<and> queue_run (queue_of s) (queue_of t)"

lemma refined_unmoved: "unmoved s t \<Longrightarrow> refined s t"
  by (simp add: refined_def unmoved_def [THEN iffD1] unmoved_queue)

lemma refined_trans: "refined s t \<Longrightarrow> refined t u \<Longrightarrow> refined s u"
  by (auto simp: refined_def)

lemma refined_step: "well_kept t \<Longrightarrow> queue_step (queue_of s) (queue_of t) \<Longrightarrow> refined s t"
  by (auto simp: refined_def)

lemma queue_eqI:
  "view t = E \<Longrightarrow> stage_of (thread t) = g \<Longrightarrow> set (dict_keys (waiting_secrets t)) = h \<Longrightarrow> closing t = p
    \<Longrightarrow> cleanup_running t = c \<Longrightarrow> queue_of t = \<lparr>entries = E, stage = g, held = h, stopping = p, cleaning = c\<rparr>"
  by (simp add: queue_of_def)

lemma queue_updates:
  "queue_of (s\<lparr>thread := th\<rparr>) = (queue_of s)\<lparr>stage := stage_of th\<rparr>"
  "queue_of (s\<lparr>closing := p\<rparr>) = (queue_of s)\<lparr>stopping := p\<rparr>"
  "queue_of (s\<lparr>cleanup_running := c\<rparr>) = (queue_of s)\<lparr>cleaning := c\<rparr>"
  "queue_of (s\<lparr>persistence_failed := p\<rparr>) = queue_of s"
  "queue_of (s\<lparr>active_job := x\<rparr>) = queue_of s"
  "queue_of (s\<lparr>owned := p\<rparr>) = queue_of s"
  "queue_of (s\<lparr>removals := l\<rparr>) = queue_of s"
  "queue_of (s\<lparr>recovered := e\<rparr>) = queue_of s"
  by (simp_all add: queue_of_def view_def fun_eq_iff)

lemma kept_updates [simp]:
  "well_kept (s\<lparr>thread := th\<rparr>) = well_kept s"
  "well_kept (s\<lparr>closing := p\<rparr>) = well_kept s"
  "well_kept (s\<lparr>cleanup_running := c\<rparr>) = well_kept s"
  "well_kept (s\<lparr>persistence_failed := p\<rparr>) = well_kept s"
  "well_kept (s\<lparr>active_job := x\<rparr>) = well_kept s"
  "well_kept (s\<lparr>owned := p\<rparr>) = well_kept s"
  "well_kept (s\<lparr>removals := l\<rparr>) = well_kept s"
  "well_kept (s\<lparr>recovered := e\<rparr>) = well_kept s"
  by (simp_all add: well_kept_def)

lemma halt_refined: "well_kept s \<Longrightarrow> refined s (halt_for_storage s)"
  by (rule refined_step) (simp_all add: halt_for_storage_def queue_updates queue_step.halt)

lemma halt_after: "refined s t \<Longrightarrow> refined s (halt_for_storage t)"
  by (rule refined_trans, assumption, rule halt_refined) (simp add: refined_def)

lemma stop_refined:
  assumes "well_kept s" and "thread s \<noteq> Absent"
  shows "refined s ((halt_for_storage s)\<lparr>thread := Ended\<rparr>)" and "refined s (stop_scheduler s)"
proof -
  have ne: "stage_of (thread s) \<noteq> Off" using assms(2) by (cases "thread s") auto
  have "queue_step (queue_of (halt_for_storage s)) ((queue_of (halt_for_storage s))\<lparr>stage := Dead\<rparr>)"
    by (rule queue_step.ended) (simp_all add: halt_for_storage_def ne)
  then have "refined (halt_for_storage s) ((halt_for_storage s)\<lparr>thread := Ended\<rparr>)"
    using assms(1) by (intro refined_step) (simp_all add: queue_updates, simp add: halt_for_storage_def)
  with halt_refined [OF assms(1)] show *: "refined s ((halt_for_storage s)\<lparr>thread := Ended\<rparr>)"
    by (rule refined_trans)
  have "stop_scheduler s = (halt_for_storage s)\<lparr>thread := Ended, active_job := None\<rparr>"
    by (simp add: stop_scheduler_def)
  with * show "refined s (stop_scheduler s)" by (simp add: refined_def queue_updates)
qed

text \<open>The scheduler works on a running job, or on one that the shutdown interrupted meanwhile.\<close>

definition worked_on :: "service \<Rightarrow> string \<Rightarrow> job_operation \<Rightarrow> bool" where
  "worked_on s i op \<longleftrightarrow> view s i = Some (op, Running) \<or> view s i = Some (op, Interrupted) \<and> closing s"

definition at_work :: "service \<Rightarrow> string \<Rightarrow> bool" where
  "at_work s i \<longleftrightarrow> (\<exists>op. worked_on s i op \<and>
     (stage_of (thread s) = Busy i \<or> stage_of (thread s) = Begun i \<and> \<not> inference_operation op))"

definition works_on :: "service \<Rightarrow> string \<Rightarrow> bool" where
  "works_on s i \<longleftrightarrow> thread s = Starting i \<or> (\<exists>task. thread s = Executing i task)"

lemma claimed_queue: "claimed (queue_of s) = {i. works_on s i}"
  by (cases "thread s") (auto simp: claimed_def works_on_def)

text \<open>A fetch that outlived the shutdown: it counts as interrupted, but the scheduler still works on it.\<close>

definition fetch_outlives :: "service \<Rightarrow> bool" where
  "fetch_outlives s \<longleftrightarrow> (\<exists>i. works_on s i \<and> view s i = Some (Fetch_Dataset, Interrupted))"

lemma late_fetches_queue: "late_fetches (queue_of s) = {} \<longleftrightarrow> \<not> fetch_outlives s"
  by (auto simp: late_fetches_def claimed_queue fetch_outlives_def)

lemma at_work_thread: "at_work s i \<Longrightarrow> thread s \<noteq> Absent"
  by (auto simp: at_work_def)

lemma at_work_unmoved: "unmoved s t \<Longrightarrow> at_work s i \<Longrightarrow> at_work t i"
  by (simp add: at_work_def worked_on_def unmoved_def beside_def)

lemma leave_refined:
  assumes m: "moved s t i op st" and w: "at_work s i" and v: "view s i = Some (op, old)" and p: "left_as op old st"
  shows "refined s (leave_job t)"
proof (rule refined_step)
  show "well_kept (leave_job t)" using m by (simp add: leave_job_def moved_def)
  from w v have e: "view s i = Some (op, Running) \<or> view s i = Some (op, Interrupted) \<and> closing s"
    and g: "stage_of (thread s) = Busy i \<or> stage_of (thread s) = Begun i \<and> \<not> inference_operation op"
    by (auto simp: at_work_def worked_on_def)
  then have "queue_step (queue_of s) ((put_entry i op st (queue_of s))\<lparr>stage := Idle\<rparr>)"
    using e p by (intro queue_step.leave) (auto simp: left_as_def)
  then show "queue_step (queue_of s) (queue_of (leave_job t))"
    by (simp add: leave_job_def queue_updates moved_queue [OF m])
qed

lemma fail_refined:
  assumes k: "well_kept s" and w: "at_work s i"
  shows "refined s (fail_job now i e s)"
proof (cases "e = Storage_Failure")
  case True
  with stop_refined [OF k at_work_thread [OF w]] show ?thesis by (simp add: fail_job_def)
next
  case False
  obtain t r where f: "report_failure now i e s = (t, r)" by fastforce
  have o: "case r of Inl e \<Rightarrow> unmoved s t
      | Inr x \<Rightarrow> \<exists>op old st. view s i = Some (op, old) \<and> left_as op old st \<and> moved s t i op st"
    using report_failure_ends [of i now e] k f unfolding ends_def by blast
  show ?thesis
  proof (cases r)
    case (Inl x)
    with o have u: "unmoved s t" by simp
    then have "well_kept t" "thread t \<noteq> Absent" using at_work_thread [OF w] by (auto simp: unmoved_def beside_def)
    then have "refined t (stop_scheduler t)" by (rule stop_refined(2))
    then have "refined s (stop_scheduler t)" by (rule refined_trans [OF refined_unmoved [OF u]])
    with False f Inl show ?thesis by (simp add: fail_job_def)
  next
    case (Inr x)
    with o obtain op old st where "view s i = Some (op, old)" "left_as op old st" "moved s t i op st" by auto
    with leave_refined w have "refined s (leave_job t)" by blast
    with False f Inr show ?thesis by (simp add: fail_job_def)
  qed
qed

lemma section_failed:
  assumes "unmoved s t" and "at_work s i"
  shows "refined s (fail_job now i e t)"
  using refined_trans [OF refined_unmoved [OF assms(1)] fail_refined] at_work_unmoved [OF assms] assms(1)
  by (auto simp: unmoved_def)

lemma finishing_section:
  assumes "well_kept s" and "at_work s i" and "ends K left_as i m" and "K s"
  shows "refined s (run_section now i m (\<lambda>_. leave_job) s)"
proof -
  obtain t r where m: "m s = (t, r)" by fastforce
  have o: "case r of Inl e \<Rightarrow> unmoved s t
      | Inr x \<Rightarrow> \<exists>op old st. view s i = Some (op, old) \<and> left_as op old st \<and> moved s t i op st"
    using assms m unfolding ends_def by blast
  show ?thesis
  proof (cases r)
    case (Inl e)
    with o m section_failed [OF _ assms(2)] show ?thesis by (simp add: run_section_def)
  next
    case (Inr x)
    with o m leave_refined [OF _ assms(2)] show ?thesis by (auto simp: run_section_def)
  qed
qed

lemma progress_section:
  assumes "well_kept s" and "at_work s i" and "ends K status_kept i m" and "K s"
    and next_stage: "\<And>x t. beside s t \<Longrightarrow> well_kept t \<Longrightarrow> well_kept (continue x t) \<and> queue_of (continue x t) = queue_of t"
  shows "refined s (run_section now i m continue s)"
proof -
  obtain t r where m: "m s = (t, r)" by fastforce
  have o: "case r of Inl e \<Rightarrow> unmoved s t
      | Inr x \<Rightarrow> \<exists>op old st. view s i = Some (op, old) \<and> status_kept op old st \<and> moved s t i op st"
    using assms(1,3,4) m unfolding ends_def by blast
  show ?thesis
  proof (cases r)
    case (Inl e)
    with o m section_failed [OF _ assms(2)] show ?thesis by (simp add: run_section_def)
  next
    case (Inr x)
    with o obtain op old where v: "view s i = Some (op, old)" and mv: "moved s t i op old"
      by (auto simp: status_kept_def)
    have "queue_of t = queue_of s" unfolding moved_queue [OF mv] by (rule put_entry_same) (simp add: v)
    with next_stage [of t x] mv have "refined s (continue x t)" by (simp add: refined_def moved_def)
    with m Inr show ?thesis by (simp add: run_section_def)
  qed
qed

section \<open>Interrupting what is unfinished\<close>

lemma snapshot_keys: "store_valid st \<Longrightarrow> map job_identifier (snapshots st) = map fst (jobs st)"
proof -
  assume "store_valid st"
  then have "\<forall>(i, j, q) \<in> set (jobs st). job_identifier j = i" unfolding store_valid_def by blast
  then show ?thesis by (auto simp: snapshots_def)
qed

lemma listed_jobs:
  assumes k: "well_kept s" and run: "in_store list_jobs s = (t, r)"
  shows "unmoved s t"
    and "r = Inr js \<Longrightarrow> distinct (map job_identifier js)"
    and "r = Inr js \<Longrightarrow> j \<in> set js \<Longrightarrow> knows (job_identifier j) j s"
    and "r = Inr js \<Longrightarrow> lookup_job i (store s) = Some j \<Longrightarrow> j \<in> set js"
proof -
  have v: "store_valid (store s)" using k by (simp add: well_kept_def)
  then have d: "distinct (map fst (jobs (store s)))" unfolding store_valid_def by blast
  show "unmoved s t" using in_list_jobs(1) [OF run] k by (rule quiet_unmoved)
  assume "r = Inr js"
  note m = in_list_jobs(2) [OF run this]
  then have set: "set js = set (snapshots (store s))" by (rule mset_eq_setD)
  from m have "mset (map job_identifier js) = mset (map job_identifier (snapshots (store s)))" by simp
  then have "mset (map job_identifier js) = mset (map fst (jobs (store s)))" by (simp add: snapshot_keys [OF v])
  with d show "distinct (map job_identifier js)" using mset_eq_imp_distinct_iff by blast
  {
    assume "j \<in> set js"
    with set obtain i q where "(i, j, q) \<in> set (jobs (store s))" by (auto simp: snapshots_def)
    with d have "lookup_job i (store s) = Some j" by (simp add: lookup_job_def)
    with lookup_knows [OF k this] show "knows (job_identifier j) j s" by (simp add: knows_def)
  }
  assume "lookup_job i (store s) = Some j"
  then show "j \<in> set js" unfolding set
    by (force simp: lookup_job_def snapshots_def dest: map_of_SomeD)
qed

definition reconcilable :: "service \<Rightarrow> bool" where
  "reconcilable s \<longleftrightarrow> thread s = Absent \<or> closing s"

lemma interrupt_refined:
  assumes "moved s t i op Interrupted" and "reconcilable s" and "view s i = Some (op, st)" and "st \<in> {Queued, Running}"
  shows "refined s t"
proof (rule refined_step)
  show "well_kept t" using assms(1) by (simp add: moved_def)
  show "queue_step (queue_of s) (queue_of t)" unfolding moved_queue [OF assms(1)]
    using assms by (intro queue_step.reconcile [of _ _ _ st]) (auto simp: reconcilable_def)
qed

lemma interrupt_each:
  assumes "well_kept s" and "reconcilable s" and "distinct (map job_identifier js)"
    and "\<forall>j \<in> set js. knows (job_identifier j) j s \<and> status j \<in> {Queued, Running}"
    and "act_each (interrupt now) js s = (t, r)"
  shows "refined s t \<and> beside s t \<and> (\<forall>i. i \<notin> job_identifier ` set js \<longrightarrow> view t i = view s i) \<and>
    (r = Inr () \<longrightarrow> (\<forall>j \<in> set js. view t (job_identifier j) = Some (operation j, Interrupted)))"
  using assms
proof (induction js arbitrary: s)
  case Nil
  then show ?case by (simp add: refined_def)
next
  case (Cons j js)
  obtain u q where i: "interrupt now j s = (u, q)" by fastforce
  have kn: "knows (job_identifier j) j s" and st: "status j \<in> {Queued, Running}" using Cons.prems(4) by auto
  from interrupt_moves [OF Cons.prems(1) kn i] show ?case
  proof (elim disjE exE conjE)
    fix e assume u: "unmoved s u" and q: "q = Inl e"
    with Cons.prems(5) i have "t = u" "r = Inl e" by auto
    with u show ?thesis by (auto simp: refined_unmoved unmoved_def)
  next
    fix k assume q: "q = Inr k" and m: "moved s u (job_identifier j) (operation j) Interrupted"
    then have run: "act_each (interrupt now) js u = (t, r)" using Cons.prems(5) i by simp
    have su: "refined s u" using m Cons.prems(2) kn st by (intro interrupt_refined) (auto simp: knows_def)
    have b: "beside s u" and v: "view u = (view s)(job_identifier j \<mapsto> (operation j, Interrupted))" and ku: "well_kept u"
      using m by (simp_all add: moved_def)
    have "reconcilable u" using Cons.prems(2) b by (simp add: reconcilable_def beside_def)
    moreover have "\<forall>k \<in> set js. knows (job_identifier k) k u \<and> status k \<in> {Queued, Running}"
    proof
      fix k assume k: "k \<in> set js"
      have "job_identifier j \<notin> job_identifier ` set js" using Cons.prems(3) by simp
      with k have "job_identifier k \<noteq> job_identifier j" by (metis imageI)
      with k Cons.prems(4) v show "knows (job_identifier k) k u \<and> status k \<in> {Queued, Running}"
        by (simp add: knows_def)
    qed
    ultimately have IH: "refined u t \<and> beside u t \<and> (\<forall>i. i \<notin> job_identifier ` set js \<longrightarrow> view t i = view u i) \<and>
      (r = Inr () \<longrightarrow> (\<forall>j \<in> set js. view t (job_identifier j) = Some (operation j, Interrupted)))"
      using Cons.IH [OF ku _ _ _ run] Cons.prems(3) by simp
    moreover have "job_identifier j \<notin> job_identifier ` set js" using Cons.prems(3) by auto
    ultimately show ?thesis using su b v refined_trans beside_trans by auto
  qed
qed

definition reconciled_status :: "job_status \<Rightarrow> job_status" where
  "reconciled_status st = (if st \<in> {Queued, Running} then Interrupted else st)"

lemma reconciled_finished [simp]: "reconciled_status st \<noteq> Queued" "reconciled_status st \<noteq> Running"
  by (simp_all add: reconciled_status_def)

lemma interrupt_unfinished_effect:
  assumes k: "well_kept s" and c: "reconcilable s" and run: "interrupt_unfinished now s = (t, r)"
  shows "refined s t \<and> beside s t \<and>
    (r = Inr () \<longrightarrow> (\<forall>i. view t i = map_option (\<lambda>(op, st). (op, reconciled_status st)) (view s i)))"
proof -
  obtain u q where l: "in_store list_jobs s = (u, q)" by fastforce
  note lj = listed_jobs [OF k l]
  have b: "beside s u" and v: "view u = view s" and ku: "well_kept u" using lj(1) by (simp_all add: unmoved_def)
  show ?thesis
  proof (cases q)
    case (Inl e)
    with run l lj(1) b show ?thesis by (auto simp: interrupt_unfinished_def refined_unmoved)
  next
    case (Inr js)
    let ?js = "filter (\<lambda>j. status j \<in> {Queued, Running}) js"
    from run l Inr have e: "act_each (interrupt now) ?js u = (t, r)" by (simp add: interrupt_unfinished_def)
    have "reconcilable u" using c b by (simp add: reconcilable_def beside_def)
    moreover have "distinct (map job_identifier ?js)" using lj(2) [OF Inr] by (rule distinct_map_filter)
    moreover have "\<forall>j \<in> set ?js. knows (job_identifier j) j u \<and> status j \<in> {Queued, Running}"
      using lj(3) [OF Inr] knows_unmoved [OF lj(1)] by auto
    ultimately have E: "refined u t \<and> beside u t \<and> (\<forall>i. i \<notin> job_identifier ` set ?js \<longrightarrow> view t i = view u i) \<and>
      (r = Inr () \<longrightarrow> (\<forall>j \<in> set ?js. view t (job_identifier j) = Some (operation j, Interrupted)))"
      using interrupt_each [OF ku _ _ _ e] by blast
    have "view t i = map_option (\<lambda>(op, st). (op, reconciled_status st)) (view s i)" if r: "r = Inr ()" for i
    proof (cases "i \<in> job_identifier ` set ?js")
      case True
      then obtain j where j: "j \<in> set ?js" and i: "i = job_identifier j" by blast
      then have "view t i = Some (operation j, Interrupted)" using E r by blast
      moreover have "view s i = Some (operation j, status j)" and "status j \<in> {Queued, Running}"
        using lj(3) [OF Inr, of j] j i by (simp_all add: knows_def)
      ultimately show ?thesis by (simp add: reconciled_status_def)
    next
      case False
      have "st \<notin> {Queued, Running}" if op: "view s i = Some (op, st)" for op st
      proof -
        obtain j where "lookup_job i (store s) = Some j" and "status j = st" using op by (auto simp: view_def)
        with lj(4) [OF Inr, of i j] lookup_identifier [of "store s" i j] k False show ?thesis
          by (auto simp: well_kept_def)
      qed
      moreover have "view t i = view s i" using E v False by simp
      ultimately show ?thesis by (cases "view s i") (auto simp: reconciled_status_def)
    qed
    with E b show ?thesis using refined_trans [OF refined_unmoved [OF lj(1)]] beside_trans by blast
  qed
qed

lemma start_refined:
  assumes k: "well_kept s" and a: "thread s = Absent" and run: "start lock_opened free now s = (t, r)"
  shows "refined s t"
proof (cases "lock_opened \<and> free")
  case False
  with run have "t = s \<or> t = s\<lparr>owned := False\<rparr>" by (auto simp: start_def split: if_splits)
  then show ?thesis using k by (auto simp: refined_def queue_updates)
next
  case True
  let ?s = "s\<lparr>owned := True\<rparr>"
  obtain u q where i: "interrupt_unfinished now ?s = (u, q)" by fastforce
  have E: "refined ?s u \<and> beside ?s u \<and>
      (q = Inr () \<longrightarrow> (\<forall>i. view u i = map_option (\<lambda>(op, st). (op, reconciled_status st)) (view ?s i)))"
    using k a by (intro interrupt_unfinished_effect [OF _ _ i]) (simp_all add: reconcilable_def)
  have su: "refined s ?s" using k by (simp add: refined_def queue_updates)
  show ?thesis
  proof (cases q)
    case (Inl e)
    with True run i have "t = u" by (simp add: start_def)
    with E su refined_trans show ?thesis by blast
  next
    case (Inr x)
    with True run i have t: "t = u\<lparr>thread := Polling\<rparr>" by (simp add: start_def)
    have n: "st \<notin> {Queued, Running}" if "view u i = Some (op, st)" for i op st
      using E Inr that by (cases x) auto
    have "stage_of (thread u) = Off" using E a by (simp add: beside_def)
    moreover have "running (queue_of u) = {}" and "queued_inference (queue_of u) = {}"
      using n by (auto simp: running_def queued_inference_def)
    ultimately have "refined u t" unfolding t
      using E by (intro refined_step) (simp_all add: refined_def queue_updates queue_step.opened)
    with E su refined_trans show ?thesis by blast
  qed
qed

lemma finish_close_refined:
  assumes k: "well_kept s" and c: "reconcilable s"
  shows "refined s (finish_close now s)"
proof -
  let ?m = "if \<not> persistence_failed s \<and> owned s then interrupt_unfinished now else act_return ()"
  obtain t r where m: "?m s = (t, r)" by fastforce
  have "refined s t"
  proof (cases "\<not> persistence_failed s \<and> owned s")
    case True
    with m have "interrupt_unfinished now s = (t, r)" by simp
    with interrupt_unfinished_effect [OF k c] show ?thesis by blast
  next
    case False
    with m k show ?thesis by (auto simp: refined_def split: if_splits)
  qed
  moreover from this have "refined s (halt_for_storage t)" by (rule halt_after)
  ultimately have "refined s (recovered_or_halt ?m s)"
    using m by (auto simp: recovered_or_halt_def split: sum.splits)
  then show ?thesis by (auto simp: finish_close_def Let_def refined_def queue_updates)
qed

lemma ask_to_stop_refined:
  assumes k: "well_kept s" and run: "ask_to_stop now s = (t, r)"
  shows "refined s t"
proof (cases "active_job s")
  case None
  with k run show ?thesis by (simp add: ask_to_stop_def refined_def)
next
  case (Some i)
  let ?f = "\<lambda>j. j\<lparr>requested_action := Some Stop, phase := ''saving'', available_actions := []\<rparr>"
  have "ends (\<lambda>_. True) status_kept i (act_bind (in_store (get_job i)) (\<lambda>job.
      act_bind (change now None ?f job) (\<lambda>_. act_return ())))"
    by (rule ends_bind [OF gentle_get_job], rule ends_change) (simp_all add: safe_simps status_kept_def)
  obtain u q where g: "in_store (get_job i) s = (u, q)" by fastforce
  have u: "unmoved s u" and kn: "\<And>job. q = Inr job \<Longrightarrow> knows i job u"
    using gentle_get_job [of "\<lambda>_. True" i] k g unfolding gentle_def by blast+
  show ?thesis
  proof (cases q)
    case (Inl e)
    with Some g run u show ?thesis by (auto simp: ask_to_stop_def refined_unmoved)
  next
    case (Inr job)
    have ku: "well_kept u" using u by (simp add: unmoved_def)
    obtain v w where c: "change now None ?f job u = (v, w)" by fastforce
    have sf: "safe_change job ?f" by (simp add: safe_simps)
    from change_moves [OF ku kn [OF Inr] sf c] have "refined u v"
    proof (elim disjE exE conjE)
      assume "unmoved u v"
      then show ?thesis by (rule refined_unmoved)
    next
      assume m: "moved u v i (operation job) (status (?f job))"
      have "queue_of v = queue_of u" unfolding moved_queue [OF m]
        using kn [OF Inr] by (intro put_entry_same) (simp add: knows_def)
      with m show ?thesis by (simp add: refined_def moved_def)
    qed
    with refined_unmoved [OF u] have "refined s v" by (rule refined_trans)
    moreover have "t = u \<or> t = v"
    proof -
      have "ask_to_stop now s = (if operation job = Train \<and> status job = Running
          then act_bind (change now None ?f job) (\<lambda>_. act_return ()) else act_return ()) u"
        using Some g Inr by (simp add: ask_to_stop_def)
      with run c show ?thesis by (cases w) (auto split: if_splits)
    qed
    ultimately show ?thesis using refined_unmoved [OF u] by blast
  qed
qed

lemma begin_close_refined:
  assumes k: "well_kept s"
  shows "refined s (begin_close now s)"
proof -
  let ?s = "s\<lparr>closing := True\<rparr>"
  obtain t r where m: "ask_to_stop now ?s = (t, r)" by fastforce
  have "refined s ?s" using k by (intro refined_step) (simp_all add: queue_updates queue_step.halt)
  moreover have "refined ?s t" using k by (intro ask_to_stop_refined [OF _ m]) simp
  ultimately have st: "refined s t" by (rule refined_trans)
  show ?thesis using m st halt_after [OF st] by (cases r) (simp_all add: begin_close_def recovered_or_halt_def)
qed

section \<open>The scheduler\<close>

lemma idle_refined:
  assumes k: "well_kept s" and p: "thread s = Polling"
  shows "refined s (idle files now uploads s)"
proof -
  obtain t r where m: "maintain files now uploads s = (t, r)" by fastforce
  have "t = s \<or> t = s\<lparr>recovered := fst (sweep_texts now (recovered s))\<rparr>"
    using m by (auto simp: maintain_def act_bind_def split: if_splits sum.splits)
  then have t: "refined s t" and ta: "thread t \<noteq> Absent" and kt: "well_kept t"
    using k p by (auto simp: refined_def queue_updates)
  have "refined s ((halt_for_storage t)\<lparr>thread := Ended\<rparr>)"
    by (rule refined_trans [OF t stop_refined(1) [OF kt ta]])
  with t m show ?thesis by (cases r) (simp_all add: idle_def)
qed

lemma poll_refined:
  assumes k: "well_kept s" and p: "thread s = Polling"
  shows "refined s (poll proof_locked now s)"
proof -
  obtain u q where l: "in_store list_jobs s = (u, q)" by fastforce
  note lj = listed_jobs [OF k l]
  have u: "unmoved s u" by (rule lj(1))
  then have ku: "well_kept u" and pu: "thread u = Polling" using p by (simp_all add: unmoved_def beside_def)
  have su: "refined s u" using u by (rule refined_unmoved)
  have dead: "refined s ((halt_for_storage v)\<lparr>thread := Ended\<rparr>)" if "unmoved s v" for v
    using that p by (intro refined_trans [OF refined_unmoved stop_refined(1)]) (auto simp: unmoved_def beside_def)
  show ?thesis
  proof (cases q)
    case (Inl e)
    with l dead [OF u] show ?thesis by (simp add: poll_def next_job_def)
  next
    case (Inr js)
    show ?thesis
    proof (cases "List.find (runnable proof_locked) js")
      case None
      with l Inr su show ?thesis by (simp add: poll_def next_job_def)
    next
      case (Some j)
      then have j: "j \<in> set js" and rn: "status j = Queued" by (auto simp: find_Some_iff runnable_def)
      have kn: "knows (job_identifier j) j u" using lj(3) [OF Inr j] knows_unmoved [OF u] by blast
      let ?f = "\<lambda>k. k\<lparr>status := Running, phase := ''preparing'', available_actions := initial_running_actions j\<rparr>"
      obtain v w where c: "change now None ?f j u = (v, w)" by fastforce
      have sf: "safe_change j ?f" by (simp add: safe_simps)
      from change_moves [OF ku kn sf c] show ?thesis
      proof (elim disjE exE conjE)
        fix e assume v: "unmoved u v" and w: "w = Inl e"
        from l Inr Some c w have "poll proof_locked now s = (halt_for_storage v)\<lparr>thread := Ended\<rparr>"
          by (simp add: poll_def next_job_def)
        with dead [OF unmoved_trans [OF u v]] show ?thesis by simp
      next
        fix k' assume w: "w = Inr k'" and m: "moved u v (job_identifier j) (operation j) (status (?f j))"
        let ?t = "v\<lparr>active_job := Some (job_identifier j), thread := Starting (job_identifier j)\<rparr>"
        from l Inr Some c w have e: "poll proof_locked now s = ?t" by (simp add: poll_def next_job_def)
        have "queue_step (queue_of u) ((put_entry (job_identifier j) (operation j) Running (queue_of u))
            \<lparr>stage := Begun (job_identifier j)\<rparr>)"
          using pu kn rn by (intro queue_step.dispatch) (simp_all add: knows_def)
        then have "queue_step (queue_of u) (queue_of ?t)"
          using m by (simp add: queue_updates moved_queue)
        with m have "refined u ?t" by (intro refined_step) (simp_all add: moved_def)
        with su e refined_trans show ?thesis by simp
      qed
    qed
  qed
qed

text \<open>
  Beginning the job: its stored request agrees with its operation, and the secrets of an
  inference job are there.
\<close>

lemma stored_request_matches:
  assumes "well_kept s" and "map_of (jobs (store s)) i = Some (j, q)"
  shows "view s i = Some (stored_operation q, status j)" and "request_fits q"
proof -
  have "(i, j, q) \<in> set (jobs (store s))" using assms(2) by (rule map_of_SomeD)
  with assms(1) have "operation j = stored_operation q" and f: "request_fits q"
    by (auto simp: well_kept_def requests_match_def)
  with assms(2) show "view s i = Some (stored_operation q, status j)" by (simp add: view_def lookup_job_def)
  show "request_fits q" by (rule f)
qed

text \<open>The task the scheduler holds agrees with the operation of its job.\<close>

definition task_matches :: "service \<Rightarrow> bool" where
  "task_matches s \<longleftrightarrow>
     (\<forall>i fq ps. thread s = Executing i (Fetch_Task fq ps) \<longrightarrow> fetch_entry i s)"

lemma requests_noninference:
  "request_fits q \<Longrightarrow> (\<exists>r. q = Inference r) \<or> \<not> inference_operation (stored_operation q)"
  by (cases q) (auto simp: request_fits_def)

text \<open>The secrets of an inference job are there when it begins, and are handed over once.\<close>

lemma begin_inference:
  assumes k: "well_kept s" and ok: "queue_ok (queue_of s)" and th: "thread s = Starting i"
    and v: "view s i = Some (op, st)" and inf: "inference_operation op"
  shows "\<exists>sec. dict_get (waiting_secrets s) i = Some sec \<and>
    (\<exists>u. quiet s u \<and> (begin_job checked resolved i s = (u, Inl Storage_Failure) \<or>
       (\<exists>r. begin_job checked resolved i s
          = (u\<lparr>waiting_secrets := AList.delete i (waiting_secrets s)\<rparr>, Inr (Inference_Task r sec 0)))))"
proof -
  have "i \<in> begun (queue_of s)" using th v inf by (auto simp: begun_def)
  then have "i \<in> held (queue_of s)" using ok th by (auto simp: queue_ok_def secrets_match_def)
  then obtain sec where sec: "dict_get (waiting_secrets s) i = Some sec"
    by (cases "dict_get (waiting_secrets s) i") (auto simp: map_of_eq_None_iff)
  obtain u q where g: "in_store (get_request i) s = (u, q)" by fastforce
  note gr = in_get_request [OF g]
  have fields: "attached u" "waiting_secrets u = waiting_secrets s"
    using quiet_fields [OF gr(1)] k by (simp_all add: well_kept_def)
  have "map_of (jobs (store s)) i \<noteq> None" using v by (auto simp: view_def lookup_job_def)
  then have "e = Storage_Failure" if "q = Inl e" for e
    using g that
    by (auto simp: in_store_def get_request_def connection_def split: prod.splits list.splits bool.splits option.splits)
  moreover have "\<exists>r. request = Inference r" if q: "q = Inr request" for request
  proof -
    from gr(2) [OF q] obtain j where row: "map_of (jobs (store s)) i = Some (j, request)" by blast
    with stored_request_matches [OF k row] v inf requests_noninference show ?thesis by auto
  qed
  ultimately show ?thesis using g gr(1) sec fields
    by (cases q) (auto simp: begin_job_def require_inference_def in_secrets_def pop_secrets_def act_bind_def)
qed

lemma begin_work_refined:
  assumes k: "well_kept s" and th: "thread s = Starting i" and v: "worked_on s i op"
    and u: "quiet s u" and keys: "distinct (dict_keys w)"
    and h: "set (dict_keys w) = (if inference_operation op then set (dict_keys (waiting_secrets s)) - {i}
        else set (dict_keys (waiting_secrets s)))"
  shows "refined s (u\<lparr>waiting_secrets := w, thread := Executing i task\<rparr>)" (is "refined s ?t")
proof (rule refined_step)
  have "well_kept u" using u k by (simp add: quiet_kept)
  then show "well_kept ?t" using keys by (simp add: well_kept_def)
  have "queue_of ?t = (queue_of s)\<lparr>stage := Busy i,
      held := if inference_operation op then held (queue_of s) - {i} else held (queue_of s)\<rparr>"
    using h quiet_fields [OF u] quiet_view [OF u] by (simp add: queue_of_def view_def fun_eq_iff)
  with queue_step.begin_work [of "queue_of s" i op] th v [unfolded worked_on_def] show "queue_step (queue_of s) (queue_of ?t)" by simp
qed

lemma begin_other_cases:
  assumes "in_store (get_request i) s = (u, q)" and "\<forall>r. q \<noteq> Inr (Inference r)"
  shows "(\<exists>e. begin_job checked resolved i s = (u, Inl e)) \<or>
    (\<exists>w. begin_job checked resolved i s = (u, Inr (Workflow_Task w))) \<or>
    (\<exists>f. q = Inr (Fetch f) \<and> begin_job checked resolved i s = (u, Inr (Fetch_Task f [])))"
  using assms
  by (cases q) (auto simp: begin_job_def checked_training_def require_storage_def act_bind_def
      split: stored_request.splits sum.splits if_splits)

lemma begin_refined:
  assumes k: "well_kept s" and ok: "queue_ok (queue_of s)" and th: "thread s = Starting i"
    and t_def: "t = run_section now i (begin_job checked resolved i) (\<lambda>task t. t\<lparr>thread := Executing i task\<rparr>) s"
  shows "refined s t \<and> task_matches t"
proof -
  obtain op where w: "worked_on s i op"
    using claimed_entry [of "queue_of s" i] ok th by (auto simp: queue_ok_def claimed_def worked_on_def)
  then obtain st where v: "view s i = Some (op, st)" by (auto simp: worked_on_def)
  have left: "task_matches (leave_job x)" "task_matches (stop_scheduler x)" for x
    by (simp_all add: task_matches_def leave_job_def stop_scheduler_def)
  then have failed: "task_matches (fail_job now i e x)" for e x
    by (auto simp: fail_job_def split: prod.splits sum.splits)
  have dist: "distinct (dict_keys (waiting_secrets s))" using k by (simp add: well_kept_def)
  show ?thesis
  proof (cases "inference_operation op")
    case True
    from begin_inference [OF k ok th v True, of checked resolved] obtain sec u r where u: "quiet s u"
      and b: "begin_job checked resolved i s = (u, Inl Storage_Failure) \<or>
        begin_job checked resolved i s = (u\<lparr>waiting_secrets := AList.delete i (waiting_secrets s)\<rparr>, Inr (Inference_Task r sec 0))"
      by blast
    have su: "refined s u" using u k by (intro refined_unmoved quiet_unmoved)
    have "refined u (stop_scheduler u)" using su quiet_fields [OF u] th by (intro stop_refined(2)) (simp_all add: refined_def)
    with su have stop: "refined s (stop_scheduler u)" by (rule refined_trans)
    have "refined s (u\<lparr>waiting_secrets := AList.delete i (waiting_secrets s), thread := Executing i (Inference_Task r sec 0)\<rparr>)"
      using dist True by (intro begin_work_refined [OF k th w u]) (auto simp: AList.delete_keys distinct_removeAll)
    with b stop left show ?thesis by (auto simp: t_def run_section_def fail_job_def task_matches_def)
  next
    case False
    obtain u q where g: "in_store (get_request i) s = (u, q)" by fastforce
    note gr = in_get_request [OF g]
    have ku: "well_kept u" using gr(1) k by (simp add: quiet_kept)
    have fit: "stored_operation request = op \<and> (\<forall>r. request \<noteq> Inference r)" if q: "q = Inr request" for request
    proof -
      from gr(2) [OF q] obtain j where row: "map_of (jobs (store s)) i = Some (j, request)" by blast
      with stored_request_matches [OF k row] v False show ?thesis by (auto simp: request_fits_def)
    qed
    have wu: "u = u\<lparr>waiting_secrets := waiting_secrets s\<rparr>" using quiet_fields [OF gr(1)] by simp
    have goes_on: "refined s (u\<lparr>thread := Executing i task\<rparr>)" for task
      using begin_work_refined [OF k th w gr(1) dist, of task] False by (subst wu) simp
    have "at_work u i"
      using quiet_view [OF gr(1)] quiet_fields [OF gr(1)] w th False by (auto simp: at_work_def worked_on_def)
    from fail_refined [OF ku this] have f: "refined s (fail_job now i e u)" for e
      using refined_trans [OF refined_unmoved [OF quiet_unmoved [OF gr(1) k]]] by blast
    have "fetch_entry i (u\<lparr>thread := Executing i (Fetch_Task fq [])\<rparr>)" if "q = Inr (Fetch fq)" for fq
      using fit [OF that] quiet_view [OF gr(1)] v by (auto simp: fetch_entry_def view_def fun_eq_iff)
    then have fe: "task_matches (u\<lparr>thread := Executing i (Fetch_Task fq [])\<rparr>)" if "q = Inr (Fetch fq)" for fq
      using that by (simp add: task_matches_def)
    have "\<forall>r. q \<noteq> Inr (Inference r)" using fit by blast
    from begin_other_cases [OF g this, of checked resolved] show ?thesis
    proof (elim disjE exE conjE)
      fix e assume "begin_job checked resolved i s = (u, Inl e)"
      then show ?thesis using f failed by (simp add: t_def run_section_def)
    next
      fix x assume "begin_job checked resolved i s = (u, Inr (Workflow_Task x))"
      then show ?thesis using goes_on by (simp add: t_def run_section_def task_matches_def)
    next
      fix fq assume "q = Inr (Fetch fq)" and "begin_job checked resolved i s = (u, Inr (Fetch_Task fq []))"
      then show ?thesis using goes_on fe by (simp add: t_def run_section_def)
    qed
  qed
qed

end
