(* ===== verification/JobAdmission.thy ===== *)
theory JobAdmission
  imports JobSections
begin

text \<open>What the requests of the user do: submissions, actions, reads and the cache cleanup.\<close>

section \<open>Requests\<close>

text \<open>A new job is recorded with its request and mutation, or nothing is written.\<close>

lemma accept_effect:
  assumes run: "accept_job job request mut s = (t, r)" and k: "well_kept s"
    and fit: "operation job = stored_operation request" "request_fits request"
  shows "quiet s t \<and> (\<exists>e. r = Inl e) \<or>
    (\<exists>k. r = Inr k \<and> recorded s job k t \<and> lookup_job (job_identifier job) (store s) = None \<and>
       mutations (store t) = mutations (store s) @ [(fst mut, snd mut, job_identifier job)] \<and>
       map_of (mutations (store s)) (fst mut) = None)"
proof (cases "snapshot_valid job")
  case False
  with run show ?thesis by (auto simp: accept_job_def)
next
  case True
  with run have sv: "in_store (save job (Some request) (Some mut)) s = (t, r)" by (simp add: accept_job_def)
  have "quiet s t \<and> r = Inl Storage_Failure \<or>
    (\<exists>k. r = Inr k \<and> recorded s job k t \<and> (Some request \<noteq> None \<longrightarrow> lookup_job (job_identifier job) (store s) = None) \<and>
       mutations (store t) = mutations (store s) @
         (case Some mut of None \<Rightarrow> [] | Some (i, fp) \<Rightarrow> [(i, fp, job_identifier job)]) \<and>
       (\<forall>i fp. Some mut = Some (i, fp) \<longrightarrow> map_of (mutations (store s)) i = None))"
    by (rule in_save [OF sv k]) (use fit in auto)
  then show ?thesis by (cases mut) auto
qed

text \<open>
  \<open>submission P m\<close>: a refusal of \<open>m\<close> leaves every table as it was, and a success either
  repeats an answer or records a job that satisfies \<open>P\<close>.
\<close>

definition admitted :: "service \<Rightarrow> job_snapshot \<Rightarrow> job_snapshot \<Rightarrow> service \<Rightarrow> bool" where
  "admitted s job k t \<longleftrightarrow>
     recorded s job k t \<and> status job = Queued \<and> view s (job_identifier job) = None"

text \<open>\<open>repeated\<close>: nothing was written, and a success answers with a recorded mutation's job.\<close>

definition repeated :: "string \<Rightarrow> string \<Rightarrow> service \<Rightarrow> service \<Rightarrow> job_snapshot result \<Rightarrow> bool" where
  "repeated client fp s t r \<longleftrightarrow>
     quiet s t \<and> (\<forall>k. r = Inr k \<longrightarrow> (\<exists>job. map_of (mutations (store s)) client = Some (fp, job) \<and>
       lookup_job job (store s) = Some k))"

lemma repeated_refusal: "quiet s t \<Longrightarrow> repeated client fp s t (Inl e)"
  by (simp add: repeated_def)

lemma answered_cases:
  assumes "answered client fp body s = (t, r)" and "well_kept s"
  shows "repeated client fp s t r \<or>
    (\<exists>u. quiet s u \<and> map_of (mutations (store s)) client = None \<and> body u = (t, r))"
proof -
  obtain u q where rp: "in_store (replay client fp) s = (u, q)" by fastforce
  note rs = in_replay [OF rp]
  show ?thesis
  proof (cases q)
    case (Inl e)
    with assms(1) rp rs(1) show ?thesis by (auto simp: answered_def repeated_def)
  next
    case (Inr prev)
    show ?thesis
    proof (cases prev)
      case None
      with Inr assms(1) rp rs show ?thesis by (auto simp: answered_def)
    next
      case (Some j)
      with Inr assms(1) rp have "t = u" "r = Inr j" by (auto simp: answered_def)
      with rs(1) rs(2) [of j] Inr Some show ?thesis by (auto simp: repeated_def)
    qed
  qed
qed

lemma admit_refined:
  assumes "admitted s job k t" and "thread s \<noteq> Absent" and "\<not> closing s" and "\<not> inference_operation (operation job)"
    and "operation job = Fetch_Dataset \<Longrightarrow> fetching (queue_of s) = {} \<and> \<not> cleanup_running s"
  shows "refined s t"
proof (rule refined_step)
  have rec: "recorded s job k t" and st: "status job = Queued" using assms(1) by (simp_all add: admitted_def)
  show "well_kept t" using recorded_fields(12) [OF rec] .
  have "stage_of (thread s) \<noteq> Off" using assms(2) by (cases "thread s") auto
  then show "queue_step (queue_of s) (queue_of t)" unfolding recorded_queue [OF rec] st
    using assms by (intro queue_step.admit) (auto simp: admitted_def)
qed

lemma admitted_from_quiet:
  "quiet s u \<Longrightarrow> admitted u job k t \<Longrightarrow> admitted s job k t"
  using recorded_from_quiet quiet_view by (auto simp: admitted_def)

lemma accept_admitted:
  assumes "accept_job job request mut s = (t, Inr k)" and "well_kept s"
    and "operation job = stored_operation request" "request_fits request" and "status job = Queued"
  shows "admitted s job k t \<and> mutations (store t) = mutations (store s) @ [(fst mut, snd mut, job_identifier job)]"
  using accept_effect [OF assms(1,2,3,4)] assms(5) by (auto simp: admitted_def view_def)

lemma accept_refused:
  "accept_job job request mut s = (t, Inl e) \<Longrightarrow> well_kept s \<Longrightarrow> operation job = stored_operation request
    \<Longrightarrow> request_fits request \<Longrightarrow> quiet s t"
  using accept_effect by blast

lemma in_list_quiet: "in_store list_jobs s = (t, r) \<Longrightarrow> quiet s t"
  by (rule in_list_jobs(1))

text \<open>Submitting a workflow.\<close>

lemma settings_quiet:
  assumes "submitted_settings lib checked q s = (t, r)"
  shows "quiet s t"
proof (cases "workflow_operation q = Train")
  case False
  with assms show ?thesis by (simp add: submitted_settings_def)
next
  case True
  obtain u w where c: "checked_training checked s = (u, w)" by fastforce
  then have u: "u = s" by (auto simp: checked_training_def require_storage_def act_bind_def split: if_splits sum.splits)
  show ?thesis
  proof (cases w)
    case (Inl e)
    with True c u assms show ?thesis by (simp add: submitted_settings_def)
  next
    case (Inr p)
    obtain v js where l: "in_store list_jobs s = (v, js)" by fastforce
    from in_list_quiet [OF l] True c u Inr l assms show ?thesis
      by (cases js) (auto simp: submitted_settings_def split: if_splits)
  qed
qed

lemma submit_effect:
  assumes run: "submit lib now uuid checked resolved q s = (t, r)" and k: "well_kept s"
    and valid: "workflow_request_valid q"
  shows "repeated (workflow_client q) (json_digest lib (JObject (dump_workflow lib q))) s t r \<or>
    (\<exists>job k. r = Inr k \<and> admitted s job k t \<and> operation job = workflow_operation q \<and> \<not> closing s \<and>
      map_of (mutations (store s)) (workflow_client q) = None \<and> mutations (store t) = mutations (store s) @
        [(workflow_client q, json_digest lib (JObject (dump_workflow lib q)), job_identifier job)])"
proof -
  let ?fp = "json_digest lib (JObject (dump_workflow lib q))"
  define job where "job = (\<lambda>settings. new_job now uuid (workflow_operation q) (Some (workflow_experiment q)) settings)"
  define body where "body = unless_closing service_stopping (
        act_bind (submitted_settings lib checked q) (\<lambda>settings.
        act_bind (act_lift resolved) (\<lambda>_. accept_job (job settings) (Workflow q) (workflow_client q, ?fp))))"
  show ?thesis
  proof (cases "persistence_failed s")
    case True
    with run have "t = s" "r = Inl Storage_Failure"
      by (simp_all add: submit_def require_storage_def Let_def act_bind_def [of require_storage])
    then show ?thesis by (simp add: repeated_refusal)
  next
    case False
    with run have "answered (workflow_client q) ?fp body s = (t, r)"
      by (simp add: submit_def require_storage_def Let_def act_bind_def [of require_storage] body_def job_def)
    from answered_cases [OF this k] show ?thesis
    proof (elim disjE exE conjE)
      fix u assume u: "quiet s u" and b: "body u = (t, r)" and new: "map_of (mutations (store s)) (workflow_client q) = None"
      show ?thesis
      proof (cases "closing u")
        case True
        with b u show ?thesis by (auto simp: body_def unless_closing_def repeated_refusal)
      next
        case False
        obtain v w where st: "submitted_settings lib checked q u = (v, w)" by fastforce
        have v: "quiet s v" using quiet_trans [OF u settings_quiet [OF st]] .
        show ?thesis
        proof (cases "\<exists>settings ok. w = Inr settings \<and> resolved = Inr ok")
          case False
          with b st \<open>\<not> closing u\<close> have "t = v" "\<exists>e. r = Inl e"
            by (cases w; cases resolved; auto simp: body_def unless_closing_def)+
          with v show ?thesis by (auto simp: repeated_refusal)
        next
          case True
          then obtain settings ok where w: "w = Inr settings" "resolved = Inr ok" by blast
          with b st \<open>\<not> closing u\<close> have a: "accept_job (job settings) (Workflow q) (workflow_client q, ?fp) v = (t, r)"
            by (simp add: body_def unless_closing_def)
          have kv: "well_kept v" using v k by (simp add: quiet_kept)
          have fit: "operation (job settings) = stored_operation (Workflow q)" "request_fits (Workflow q)"
            and sq: "status (job settings) = Queued"
            using valid by (simp_all add: job_def new_job_def request_fits_def workflow_request_valid_def)
          have cl: "\<not> closing s" using \<open>\<not> closing u\<close> quiet_fields [OF u] by simp
          show ?thesis
          proof (cases r)
            case (Inl e)
            with accept_refused [OF _ kv fit] a v quiet_trans have "quiet s t" by blast
            then show ?thesis unfolding Inl by (intro disjI1 repeated_refusal)
          next
            case (Inr k')
            with accept_admitted [OF _ kv fit sq] a
            have "admitted v (job settings) k' t" and "mutations (store t) = mutations (store v) @
                [(workflow_client q, ?fp, job_identifier (job settings))]" by auto
            with Inr cl new admitted_from_quiet [OF v] quiet_fields [OF v] fit show ?thesis by auto
          qed
        qed
      qed
    qed auto
  qed
qed

text \<open>Submitting a fetch.\<close>

lemma listed_fetching:
  assumes "well_kept s" and "in_store list_jobs s = (t, Inr js)" and "\<not> list_ex active_fetch js"
  shows "fetching (queue_of s) = {}"
proof -
  have "\<not> (view s i = Some (Fetch_Dataset, st) \<and> st \<in> {Queued, Running, Paused})" for i st
  proof
    assume v: "view s i = Some (Fetch_Dataset, st) \<and> st \<in> {Queued, Running, Paused}"
    then obtain j where "lookup_job i (store s) = Some j" "operation j = Fetch_Dataset" "status j = st"
      by (auto simp: view_def)
    with listed_jobs(4) [OF assms(1,2) refl] v assms(3) show False
      by (auto simp: list_ex_iff active_fetch_def is_fetch_def)
  qed
  then show ?thesis by (auto simp: fetching_def)
qed

lemma submit_fetch_effect:
  assumes run: "submit_fetch lib now uuid session q s = (t, r)" and k: "well_kept s"
  shows "repeated (fetch_client q) (json_digest lib (JObject (dump_fetch lib q))) s t r \<or>
    (\<exists>job k. r = Inr k \<and> admitted s job k t \<and> operation job = Fetch_Dataset \<and> \<not> closing s \<and>
      map_of (mutations (store s)) (fetch_client q) = None \<and> fetching (queue_of s) = {} \<and> \<not> cleanup_running s \<and>
      mutations (store t) = mutations (store s) @
        [(fetch_client q, json_digest lib (JObject (dump_fetch lib q)), job_identifier job)])"
proof -
  let ?fp = "json_digest lib (JObject (dump_fetch lib q))" and ?job = "new_job now uuid Fetch_Dataset None (dump_fetch lib q)"
  define body where "body = unless_closing (fetch_failure ''service_stopping'') (
        act_bind (act_lift (upload_checked session q)) (\<lambda>_.
        act_bind act_get (\<lambda>s.
        if cleanup_running s then act_raise (fetch_failure ''dataset_cleanup_busy'')
        else act_bind (in_store list_jobs) (\<lambda>js.
          if list_ex active_fetch js then act_raise (fetch_failure ''dataset_fetch_busy'')
          else accept_job ?job (Fetch q) (fetch_client q, ?fp)))))"
  show ?thesis
  proof (cases "persistence_failed s")
    case True
    with run have "t = s" "r = Inl Storage_Failure"
      by (simp_all add: submit_fetch_def require_storage_def Let_def act_bind_def [of require_storage])
    then show ?thesis by (simp add: repeated_refusal)
  next
    case False
    with run have "answered (fetch_client q) ?fp body s = (t, r)"
      by (simp add: submit_fetch_def require_storage_def Let_def act_bind_def [of require_storage] body_def)
    from answered_cases [OF this k] show ?thesis
    proof (elim disjE exE conjE)
      fix u assume u: "quiet s u" and b: "body u = (t, r)" and new: "map_of (mutations (store s)) (fetch_client q) = None"
      obtain v w where l: "in_store list_jobs u = (v, w)" by fastforce
      have v: "quiet s v" using quiet_trans [OF u in_list_quiet [OF l]] .
      have ku: "well_kept u" and kv: "well_kept v" using u v k by (simp_all add: quiet_kept)
      show ?thesis
      proof (cases "closing u \<or> cleanup_running u \<or> (\<exists>e. upload_checked session q = Inl e) \<or>
          (\<forall>js. w = Inr js \<longrightarrow> list_ex active_fetch js)")
        case True
        with b l have "(t = u \<or> t = v) \<and> (\<exists>e. r = Inl e)"
          by (cases "upload_checked session q"; cases w)
            (auto simp: body_def unless_closing_def split: if_splits)
        with u v show ?thesis by (auto simp: repeated_refusal)
      next
        case False
        then obtain js ok where w: "w = Inr js" "\<not> list_ex active_fetch js" "upload_checked session q = Inr ok"
          and c: "\<not> closing u" "\<not> cleanup_running u" by (cases "upload_checked session q") auto
        from b l w c have a: "accept_job ?job (Fetch q) (fetch_client q, ?fp) v = (t, r)"
          by (simp add: body_def unless_closing_def)
        have fit: "operation ?job = stored_operation (Fetch q)" "request_fits (Fetch q)" and sq: "status ?job = Queued"
          by (simp_all add: new_job_def request_fits_def)
        have "fetching (queue_of u) = {}" using listed_fetching [OF ku _ w(2)] l w(1) by simp
        then have f: "fetching (queue_of s) = {}" by (simp add: quiet_queue [OF u])
        show ?thesis
        proof (cases r)
          case (Inl e)
          with accept_refused [OF _ kv fit] a v quiet_trans have "quiet s t" by blast
          then show ?thesis unfolding Inl by (intro disjI1 repeated_refusal)
        next
          case (Inr k')
          with accept_admitted [OF _ kv fit sq] a
          have ad: "admitted v ?job k' t" and m: "mutations (store t) = mutations (store v) @
              [(fetch_client q, ?fp, job_identifier ?job)]" by auto
          from c have c': "\<not> closing s" "\<not> cleanup_running s" using quiet_fields [OF u] by simp_all
          from m have m': "mutations (store t) = mutations (store s) @ [(fetch_client q, ?fp, job_identifier ?job)]"
            using quiet_fields [OF v] by simp
          have "operation ?job = Fetch_Dataset" using fit(1) by simp
          with Inr f c' new admitted_from_quiet [OF v ad] m' show ?thesis by blast
        qed
      qed
    qed auto
  qed
qed

text \<open>Submitting an encode or decode job: the secrets always find room.\<close>

lemma listed_waiting:
  assumes k: "well_kept s" and l: "in_store list_jobs s = (t, Inr js)"
  shows "length (filter waiting_inference js) = card (waiting (queue_of s))"
proof -
  let ?ws = "filter waiting_inference js"
  have "distinct (map job_identifier ?ws)" using listed_jobs(2) [OF k l refl] by (rule distinct_map_filter)
  from distinct_card [OF this] have "length ?ws = card (set (map job_identifier ?ws))" by simp
  also have "set (map job_identifier ?ws) = waiting (queue_of s)"
  proof (intro equalityI subsetI)
    fix i assume "i \<in> set (map job_identifier ?ws)"
    then obtain j where "j \<in> set js" "waiting_inference j" "i = job_identifier j" by auto
    with listed_jobs(3) [OF k l refl] show "i \<in> waiting (queue_of s)"
      by (auto simp: waiting_def waiting_inference_def is_inference_def knows_def)
  next
    fix i assume "i \<in> waiting (queue_of s)"
    then obtain j where j: "lookup_job i (store s) = Some j" and w: "waiting_inference j"
      by (auto simp: waiting_def view_def waiting_inference_def is_inference_def)
    have "job_identifier j = i" using lookup_knows [OF k j] by (simp add: knows_def)
    with listed_jobs(4) [OF k l refl j] w show "i \<in> set (map job_identifier ?ws)" by auto
  qed
  finally show ?thesis .
qed

lemma secrets_room:
  assumes ok: "queue_ok (queue_of s)" and k: "well_kept s" and c: "\<not> closing s"
  shows "length (waiting_secrets s) \<le> card (waiting (queue_of s))"
proof -
  let ?K = "set (dict_keys (waiting_secrets s))"
  have "?K \<subseteq> queued_inference (queue_of s) \<union> begun (queue_of s)"
    using ok c by (simp add: queue_ok_def secrets_match_def)
  moreover have "queued_inference (queue_of s) \<subseteq> waiting (queue_of s)"
    by (auto simp: queued_inference_def waiting_def)
  moreover have "begun (queue_of s) \<subseteq> waiting (queue_of s)"
  proof
    fix i assume i: "i \<in> begun (queue_of s)"
    then have "i \<in> running (queue_of s)" using ok c begun_runs by (fastforce simp: queue_ok_def begun_def late_def)
    with i show "i \<in> waiting (queue_of s)" by (auto simp: begun_def running_def waiting_def)
  qed
  ultimately have "?K \<subseteq> waiting (queue_of s)" by blast
  moreover have "finite (waiting (queue_of s))" using ok by (simp add: queue_ok_def bounded_waiting_def)
  ultimately have "card ?K \<le> card (waiting (queue_of s))" by (simp add: card_mono)
  moreover have "card ?K = length (waiting_secrets s)"
    using k distinct_card [of "dict_keys (waiting_secrets s)"] by (simp add: well_kept_def)
  ultimately show ?thesis by simp
qed

definition secrets_kept :: "service \<Rightarrow> string \<Rightarrow> secrets \<Rightarrow> service \<Rightarrow> service" where
  "secrets_kept s i sec t = t\<lparr>waiting_secrets := AList.update i sec (waiting_secrets s)\<rparr>"

lemma put_succeeds:
  assumes "length (waiting_secrets s) < maximum_inference_jobs" and "secret_size sec \<le> maximum_secret_bytes"
  shows "in_secrets (put_secrets maximum_inference_jobs i sec) s = (secrets_kept s i sec s, Inr ())"
  using assms by (simp add: in_secrets_def put_secrets_def secrets_kept_def)

definition inference_fingerprint :: "outside \<Rightarrow> inference_request \<Rightarrow> string" where
  "inference_fingerprint lib q = json_digest lib (JObject
     [(''operation'', JText (operation_text q)), (''image_reference'', JText (image_reference q)),
      (''model_identifier'', JText (requested_model q)), (''secret_digest'', JText (secret_digest lib (request_secrets q)))])"

text \<open>The part of the submission after admission, from the queue bound on.\<close>

lemma inference_recorded:
  assumes k: "well_kept u" and ok: "queue_ok (queue_of u)" and c: "\<not> closing u" and l: "in_store list_jobs u = (v, Inr js)"
    and room: "length (filter waiting_inference js) < maximum_inference_jobs"
    and adm: "admit_inference rd rs q = Inr record" and a: "accept_job job (Inference record) (client, fp) v = (t, Inr k')"
    and job: "job = new_job now uuid (record_operation record) None settings"
  shows "in_secrets (put_secrets maximum_inference_jobs (job_identifier k') (request_secrets q)) t
      = (secrets_kept u (job_identifier job) (request_secrets q) t, Inr ())"
    and "admitted u job k' t" and "card (waiting (queue_of u)) < 8"
    and "mutations (store t) = mutations (store u) @ [(client, fp, job_identifier job)]"
proof -
  have v: "quiet u v" by (rule in_list_quiet [OF l])
  then have kv: "well_kept v" using k by (simp add: quiet_kept)
  have fit: "operation job = stored_operation (Inference record)" "request_fits (Inference record)"
    and sq: "status job = Queued"
    using admitted_secrets_fit(3) [OF adm] by (simp_all add: job new_job_def request_fits_def inference_record_valid_def)
  from accept_admitted [OF a kv fit sq]
  have ad: "admitted v job k' t" and m: "mutations (store t) = mutations (store v) @ [(client, fp, job_identifier job)]"
    by simp_all
  show "admitted u job k' t" by (rule admitted_from_quiet [OF v ad])
  show "mutations (store t) = mutations (store u) @ [(client, fp, job_identifier job)]"
    using m quiet_fields [OF v] by simp
  show w: "card (waiting (queue_of u)) < 8"
    using room listed_waiting [OF k l] by (simp add: maximum_inference_jobs_def)
  have rec: "recorded v job k' t" using ad by (simp add: admitted_def)
  have wt: "waiting_secrets t = waiting_secrets u" using recorded_fields(7) [OF rec] quiet_fields [OF v] by simp
  moreover have "length (waiting_secrets u) < maximum_inference_jobs"
    using secrets_room [OF ok k c] w by (simp add: maximum_inference_jobs_def)
  ultimately have "in_secrets (put_secrets maximum_inference_jobs (job_identifier k') (request_secrets q)) t
      = (secrets_kept t (job_identifier k') (request_secrets q) t, Inr ())"
    using admitted_secrets_fit(1) [OF adm] by (intro put_succeeds) simp_all
  moreover have "job_identifier k' = job_identifier job" by (rule recorded_fields(11) [OF rec])
  ultimately show "in_secrets (put_secrets maximum_inference_jobs (job_identifier k') (request_secrets q)) t
      = (secrets_kept u (job_identifier job) (request_secrets q) t, Inr ())"
    by (simp add: secrets_kept_def wt)
qed

lemma submit_inference_effect:
  assumes run: "submit_inference lib now uuid rd rs q s = (t, r)" and k: "well_kept s" and ok: "queue_ok (queue_of s)"
  shows "repeated (inference_client q) (inference_fingerprint lib q) s t r \<or>
    (\<exists>job k u. r = Inr k \<and> admitted s job k u \<and> operation job = request_operation q \<and>
      \<not> closing s \<and> map_of (mutations (store s)) (inference_client q) = None \<and> card (waiting (queue_of s)) < 8 \<and> t = secrets_kept s (job_identifier job) (request_secrets q) u \<and>
      mutations (store t) = mutations (store s) @ [(inference_client q, inference_fingerprint lib q, job_identifier job)])"
proof -
  let ?fp = "inference_fingerprint lib q"
  define job where "job = (\<lambda>record. new_job now uuid (record_operation record) None (dump_record lib record))"
  define body where "body =
        act_bind (act_lift (admit_inference rd rs q)) (\<lambda>record.
        unless_closing service_stopping (
        act_bind (in_store list_jobs) (\<lambda>js.
        if maximum_inference_jobs \<le> length (filter waiting_inference js) then act_raise queue_full_failure
        else act_bind (accept_job (job record) (Inference record) (inference_client q, ?fp)) (\<lambda>accepted.
             act_bind (in_secrets (put_secrets maximum_inference_jobs (job_identifier accepted) (request_secrets q))) (\<lambda>_.
             act_return accepted)))))"
  show ?thesis
  proof (cases "persistence_failed s \<or> \<not> attached s")
    case True
    with run have "t = s \<and> (\<exists>e. r = Inl e)"
      by (cases "persistence_failed s") (auto simp: submit_inference_def require_storage_def require_inference_def
          Let_def act_bind_def [of require_storage] act_bind_def [of require_inference])
    then show ?thesis by (auto simp: repeated_refusal)
  next
    case False
    with run have "answered (inference_client q) ?fp body s = (t, r)"
      unfolding submit_inference_def Let_def body_def job_def inference_fingerprint_def
      by (simp add: require_storage_def require_inference_def
          act_bind_def [of require_storage] act_bind_def [of require_inference])
    from answered_cases [OF this k] show ?thesis
    proof (elim disjE exE conjE)
      fix u assume u: "quiet s u" and b: "body u = (t, r)" and new: "map_of (mutations (store s)) (inference_client q) = None"
      obtain v w where l: "in_store list_jobs u = (v, w)" by fastforce
      have v: "quiet u v" by (rule in_list_quiet [OF l])
      have ku: "well_kept u" and kv: "well_kept v" using u v k by (simp_all add: quiet_kept)
      have oku: "queue_ok (queue_of u)" using ok by (simp add: quiet_queue [OF u])
      show ?thesis
      proof (cases "closing u \<or> (\<exists>e. admit_inference rd rs q = Inl e) \<or>
          (\<forall>js. w = Inr js \<longrightarrow> maximum_inference_jobs \<le> length (filter waiting_inference js))")
        case True
        with b l have "(t = u \<or> t = v) \<and> (\<exists>e. r = Inl e)"
          by (cases "admit_inference rd rs q"; cases w) (auto simp: body_def unless_closing_def split: if_splits)
        with u v quiet_trans [OF u v] show ?thesis by (auto simp: repeated_refusal)
      next
        case False
        then obtain js rcd where w: "w = Inr js" "length (filter waiting_inference js) < maximum_inference_jobs"
          and adm: "admit_inference rd rs q = Inr rcd" and c: "\<not> closing u"
          by (cases "admit_inference rd rs q") auto
        have c': "\<not> closing s" using c quiet_fields [OF u] by simp
        have l': "in_store list_jobs u = (v, Inr js)" using l w(1) by simp
        obtain x y where a: "accept_job (job rcd) (Inference rcd) (inference_client q, ?fp) v = (x, y)" by fastforce
        have fit: "operation (job rcd) = stored_operation (Inference rcd)" "request_fits (Inference rcd)"
          using admitted_secrets_fit(3) [OF adm]
          by (simp_all add: job_def new_job_def request_fits_def inference_record_valid_def)
        have op: "operation (job rcd) = request_operation q"
          using admitted_secrets_fit(2) [OF adm] by (simp add: job_def new_job_def)
        show ?thesis
        proof (cases y)
          case (Inl e)
          with b l w c adm a have "t = x" "r = Inl e" by (simp_all add: body_def unless_closing_def)
          moreover have "quiet s x" using accept_refused [OF a [unfolded Inl] kv fit] u v quiet_trans by blast
          ultimately show ?thesis by (simp add: repeated_refusal)
        next
          case (Inr k')
          note rec = inference_recorded [OF ku oku c l' w(2) adm a [unfolded Inr] job_def [THEN fun_cong]]
          from b l w c adm a Inr rec(1)
          have t: "t = secrets_kept u (job_identifier (job rcd)) (request_secrets q) x" "r = Inr k'"
            by (simp_all add: body_def unless_closing_def)
          have "t = secrets_kept s (job_identifier (job rcd)) (request_secrets q) x"
            using t(1) quiet_fields [OF u] by (simp add: secrets_kept_def)
          moreover have "mutations (store t) = mutations (store s) @ [(inference_client q, ?fp, job_identifier (job rcd))]"
            using rec(4) t(1) quiet_fields [OF u] by (simp add: secrets_kept_def)
          moreover have "card (waiting (queue_of s)) < 8" using rec(3) by (simp add: quiet_queue [OF u])
          ultimately show ?thesis using t(2) op c' new admitted_from_quiet [OF u rec(2)] by blast
        qed
      qed
    qed auto
  qed
qed

lemma admit_inference_refined:
  assumes a: "admitted s job k u" and c: "\<not> closing s" and n: "thread s \<noteq> Absent"
    and inf: "inference_operation (operation job)" and w: "card (waiting (queue_of s)) < 8"
  shows "refined s (secrets_kept s (job_identifier job) sec u)"
proof (rule refined_step)
  let ?t = "secrets_kept s (job_identifier job) sec u"
  have rec: "recorded s job k u" and st: "status job = Queued" using a by (simp_all add: admitted_def)
  note fs = recorded_fields [OF rec]
  show "well_kept ?t" using fs(12,7) by (simp add: well_kept_def secrets_kept_def distinct_update)
  have "stage_of (thread s) \<noteq> Off" using n by (cases "thread s") auto
  moreover have "queue_of ?t = (queue_of u)\<lparr>held := insert (job_identifier job) (held (queue_of s))\<rparr>"
    by (simp add: secrets_kept_def queue_of_def set_keys_update [simplified] view_def fun_eq_iff)
  ultimately show "queue_step (queue_of s) (queue_of ?t)"
    using a c w inf queue_step.admit_inference [of "queue_of s" "job_identifier job" "operation job"]
    by (simp add: recorded_queue [OF rec] st admitted_def)
qed

section \<open>Actions\<close>

text \<open>What an accepted action may do to the status of its job.\<close>

definition acted_as :: "job_operation \<Rightarrow> job_status \<Rightarrow> job_status \<Rightarrow> bool" where
  "acted_as op old st \<longleftrightarrow>
     st = Running \<and> old = Running \<or> st = Cancelled \<and> old \<in> {Queued, Paused} \<or> st = Queued \<and> old = Paused \<and> op = Fetch_Dataset"

definition acts :: "job_snapshot \<Rightarrow> (job_snapshot \<Rightarrow> job_snapshot) \<Rightarrow> bool" where
  "acts job f \<longleftrightarrow> safe_change job f \<and> acted_as (operation job) (status job) (status (f job))"

lemma gentle_action_changes:
  "gentle (\<lambda>_. True) (if is_fetch job then fetch_action_changes listed job a else act_lift (action_changes job a))
     (\<lambda>f _. acts job f)"
proof -
  have w: "gentle (\<lambda>_. True) (act_lift (action_changes job a)) (\<lambda>f _. acts job f)"
    by (auto simp: gentle_def action_changes_def acts_def safe_simps acted_as_def split: if_splits)
  have d: "gentle (\<lambda>_. True) (act_bind (discard_partials listed label []) (\<lambda>_. act_return f)) (\<lambda>f _. acts job f)"
    if "acts job f" for f label
    using that by (intro gentle_bind [OF gentle_discard]) (simp add: gentle_def)
  have r: "gentle (\<lambda>_. True) (act_return f) (\<lambda>f _. acts job f)" if "acts job f" for f
    using that by (simp add: gentle_def)
  have "gentle (\<lambda>_. True) (fetch_action_changes listed job a) (\<lambda>f _. acts job f)" if "is_fetch job"
  proof (cases "a = Cancel \<and> status job \<in> {Queued, Paused}")
    case True
    then have "acts job (\<lambda>j. requested a j\<lparr>status := Cancelled, phase := ''cancelled''\<rparr>)"
      by (simp add: acts_def safe_simps acted_as_def)
    from d [OF this] True show ?thesis by (simp add: fetch_action_changes_def)
  next
    case False
    then show ?thesis using that unfolding fetch_action_changes_def
      by (simp only: if_False) (intro gentle_cond r gentle_raise; simp add: acts_def safe_simps acted_as_def is_fetch_def)
  qed
  with w show ?thesis by simp
qed

definition cancelled_secrets :: "string \<Rightarrow> service \<Rightarrow> service" where
  "cancelled_secrets i t = t\<lparr>waiting_secrets := AList.delete i (waiting_secrets t)\<rparr>"

lemma act_effect:
  assumes run: "act_on_job lib now listed i client a s = (t, r)" and k: "well_kept s"
  shows "(\<exists>u. unmoved s t \<and> r = Inl u) \<or> quiet s t \<or>
    (\<exists>u op old st. moved s u i op st \<and> view s i = Some (op, old) \<and> acted_as op old st \<and>
       t = (if st = Cancelled then cancelled_secrets i u else u))"
proof -
  let ?fp = "json_digest lib (JObject (AList.updates
            (map fst (dump_action lib client a)) (map snd (dump_action lib client a)) [(''job'', JText i)]))"
  define changes where "changes = (\<lambda>job. if is_fetch job then fetch_action_changes listed job a
                    else act_lift (action_changes job a))"
  define body where "body = act_bind (in_store (get_job i)) (\<lambda>job.
        if a \<notin> set (available_actions job) then act_raise action_unavailable
        else act_bind (changes job) (\<lambda>f.
          act_bind (change now (Some (client, ?fp)) f job) (\<lambda>changed.
          act_bind act_get (\<lambda>s.
          if status changed = Cancelled \<and> attached s
          then act_bind (in_secrets (discard_secrets i)) (\<lambda>_. act_return changed)
          else act_return changed))))"
  show ?thesis
  proof (cases "persistence_failed s")
    case True
    with run have "t = s" by (simp add: act_on_job_def require_storage_def Let_def act_bind_def [of require_storage])
    then show ?thesis by simp
  next
    case False
    with run have "answered client ?fp body s = (t, r)"
      unfolding act_on_job_def Let_def body_def changes_def
      by (simp add: require_storage_def act_bind_def [of require_storage])
    from answered_cases [OF this k] show ?thesis
    proof (elim disjE exE conjE)
      fix u assume u: "quiet s u" and b: "body u = (t, r)" and new: "map_of (mutations (store s)) client = None"
      have ku: "well_kept u" and su: "unmoved s u" using u k by (simp_all add: quiet_kept quiet_unmoved)
      obtain v w where g: "in_store (get_job i) u = (v, w)" by fastforce
      have uv: "unmoved u v" and kn: "\<And>job. w = Inr job \<Longrightarrow> knows i job v"
        using gentle_get_job [of "\<lambda>_. True" i] ku g unfolding gentle_def by blast+
      have sv: "unmoved s v" by (rule unmoved_trans [OF su uv])
      show ?thesis
      proof (cases "\<exists>job. w = Inr job \<and> a \<in> set (available_actions job)")
        case False
        with b g sv show ?thesis by (cases w) (auto simp: body_def)
      next
        case True
        then obtain job where w: "w = Inr job" and av: "a \<in> set (available_actions job)" by blast
        obtain x y where c: "changes job v = (x, y)" by fastforce
        have kv: "well_kept v" using uv by (simp add: unmoved_def)
        have vx: "unmoved v x" and ac: "\<And>f. y = Inr f \<Longrightarrow> acts job f"
          using gentle_action_changes [of job listed a] kv c unfolding gentle_def changes_def by blast+
        have sx: "unmoved s x" by (rule unmoved_trans [OF sv vx])
        have e: "body u = act_bind (changes job) (\<lambda>f. act_bind (change now (Some (client, ?fp)) f job) (\<lambda>changed.
          act_bind act_get (\<lambda>s. if status changed = Cancelled \<and> attached s
          then act_bind (in_secrets (discard_secrets i)) (\<lambda>_. act_return changed)
          else act_return changed))) v"
          using g w av by (simp add: body_def)
        show ?thesis
        proof (cases y)
          case (Inl z)
          with b e c sx show ?thesis by auto
        next
          case (Inr f)
          have kx: "well_kept x" and kj: "knows i job x"
            using vx kn [OF w] knows_unmoved by (auto simp: unmoved_def)
          have ax: "acts job f" by (rule ac [OF Inr])
          obtain m n where ch: "change now (Some (client, ?fp)) f job x = (m, n)" by fastforce
          have sf: "safe_change job f" using ax by (simp add: acts_def)
          from change_moves [OF kx kj sf ch] show ?thesis
          proof (elim disjE exE conjE)
            fix z assume "unmoved x m" and "n = Inl z"
            with b e c Inr ch unmoved_trans [OF sx] show ?thesis by auto
          next
            fix k' assume n: "n = Inr k'" and st: "status k' = status (f job)"
              and mv: "moved x m i (operation job) (status (f job))"
            have am: "attached m" using mv by (simp add: moved_def well_kept_def)
            have "t = (if status (f job) = Cancelled then cancelled_secrets i m else m)"
              using b e c Inr ch n st am
              by (auto simp: in_secrets_def discard_secrets_def cancelled_secrets_def act_bind_def split: if_splits)
            moreover have "view s i = Some (operation job, status job)"
              using kj sx by (simp add: knows_def unmoved_def)
            moreover have "acted_as (operation job) (status job) (status (f job))" using ax by (simp add: acts_def)
            ultimately have "moved s m i (operation job) (status (f job)) \<and> view s i = Some (operation job, status job) \<and>
                acted_as (operation job) (status job) (status (f job)) \<and>
                t = (if status (f job) = Cancelled then cancelled_secrets i m else m)"
              using unmoved_moved [OF sx mv] by blast
            then show ?thesis by blast
          qed
        qed
      qed
    qed (auto simp: repeated_def)
  qed
qed

lemma act_refined:
  assumes run: "act_on_job lib now listed i client a s = (t, r)" and k: "well_kept s" and n: "thread s \<noteq> Absent"
  shows "refined s t"
  using act_effect [OF run k]
proof (elim disjE exE conjE)
  fix u op old st
  assume mv: "moved s u i op st" and v: "view s i = Some (op, old)" and ac: "acted_as op old st"
    and t: "t = (if st = Cancelled then cancelled_secrets i u else u)"
  have g: "stage_of (thread s) \<noteq> Off" using n by (cases "thread s") auto
  have ku: "well_kept u" using mv by (simp add: moved_def)
  consider "st = Cancelled" "old \<in> {Queued, Paused}" | "st = old" "st \<noteq> Cancelled"
    | "st = Queued" "old = Paused" "op = Fetch_Dataset"
    using ac by (auto simp: acted_as_def)
  then show ?thesis
  proof cases
    case 1
    have w: "waiting_secrets u = waiting_secrets s" using mv by (simp add: moved_def beside_def)
    have "queue_of t = (queue_of u)\<lparr>held := held (queue_of s) - {i}\<rparr>"
      using 1 t w by (simp add: cancelled_secrets_def queue_of_def view_def AList.delete_keys fun_eq_iff)
    moreover have "well_kept t" using ku t 1 by (simp add: well_kept_def cancelled_secrets_def distinct_delete)
    ultimately show ?thesis
      using queue_step.cancel [of "queue_of s" i op old] v 1 g
      by (intro refined_step) (auto simp: moved_queue [OF mv])
  next
    case 2
    then have "queue_of u = queue_of s" unfolding moved_queue [OF mv] by (intro put_entry_same) (simp add: v)
    with 2 t ku show ?thesis by (simp add: refined_def)
  next
    case 3
    then show ?thesis using queue_step.resume [of "queue_of s" i] v g t ku
      by (intro refined_step) (simp_all add: moved_queue [OF mv])
  qed
qed (use k in \<open>auto intro: refined_unmoved quiet_unmoved\<close>)

section \<open>Reads and the cache cleanup\<close>

lemma unmoved_recovered: "well_kept s \<Longrightarrow> unmoved s (s\<lparr>recovered := e\<rparr>)"
  by (simp add: unmoved_def beside_def view_def fun_eq_iff)

lemma read_text_unmoved:
  assumes run: "read_decoded_text now i s = (t, r)" and k: "well_kept s"
  shows "unmoved s t"
proof (cases "\<not> attached s \<or> persistence_failed s")
  case True
  with run have "t = s"
    by (cases "attached s") (simp_all add: read_decoded_text_def require_inference_def require_storage_def
        act_bind_def [of require_inference] act_bind_def [of require_storage])
  with k show ?thesis by simp
next
  case False
  obtain u w where g: "in_store (get_job i) s = (u, w)" by fastforce
  have u: "unmoved s u" using in_get_job(1) [OF g] k by (rule quiet_unmoved)
  have "t = u \<or> (\<exists>e. t = u\<lparr>recovered := e\<rparr>)"
    using run g False
    by (cases w) (auto simp: read_decoded_text_def require_inference_def require_storage_def
        act_bind_def [of require_inference] act_bind_def [of require_storage] split: if_splits prod.splits)
  with u unmoved_recovered [of u] unmoved_trans [OF u] show ?thesis by (auto simp: unmoved_def)
qed

lemma discard_text_unmoved:
  assumes "discard_decoded_text i s = (t, r)" and "well_kept s"
  shows "unmoved s t"
proof -
  have "t = s \<or> t = s\<lparr>recovered := AList.delete i (recovered s)\<rparr>"
    using assms(1) by (auto simp: discard_decoded_text_def require_inference_def act_bind_def split: if_splits)
  with unmoved_recovered [OF assms(2)] assms(2) show ?thesis by auto
qed

lemma cleanup_effect:
  assumes run: "begin_cleanup s = (t, r)" and k: "well_kept s"
  shows "quiet s t \<or> (\<exists>u. quiet s u \<and> t = u\<lparr>cleanup_running := True\<rparr> \<and> fetching (queue_of s) = {})"
proof (cases "persistence_failed s")
  case True
  with run show ?thesis by (simp add: begin_cleanup_def require_storage_def act_bind_def [of require_storage])
next
  case False
  obtain u w where l: "in_store list_jobs s = (u, w)" by fastforce
  have u: "quiet s u" by (rule in_list_quiet [OF l])
  show ?thesis
  proof (cases w)
    case (Inl e)
    with run l False u show ?thesis by (simp add: begin_cleanup_def require_storage_def act_bind_def [of require_storage])
  next
    case (Inr js)
    show ?thesis
    proof (cases "filter active_fetch js = [] \<and> \<not> cleanup_running u")
      case True
      then have "\<not> list_ex active_fetch js" by (simp add: list_ex_iff filter_empty_conv)
      from listed_fetching [OF k _ this] l Inr have "fetching (queue_of s) = {}" by simp
      moreover have "t = u\<lparr>cleanup_running := True\<rparr>"
        using run l False Inr True by (simp add: begin_cleanup_def require_storage_def act_bind_def [of require_storage])
      ultimately show ?thesis using u by blast
    next
      case False
      with run l \<open>\<not> persistence_failed s\<close> Inr u show ?thesis
        by (auto simp: begin_cleanup_def require_storage_def act_bind_def [of require_storage] split: if_splits)
    qed
  qed
qed

lemma cleanup_refined:
  assumes run: "begin_cleanup s = (t, r)" and k: "well_kept s" and late: "\<not> fetch_outlives s"
  shows "refined s t"
  using cleanup_effect [OF run k]
proof (elim disjE exE conjE)
  fix u assume u: "quiet s u" and t: "t = u\<lparr>cleanup_running := True\<rparr>" and f: "fetching (queue_of s) = {}"
  have "queue_step (queue_of s) ((queue_of s)\<lparr>cleaning := True\<rparr>)" using f late by (intro queue_step.clean) (simp_all add: late_fetches_queue)
  then show ?thesis using u k
    by (intro refined_step) (simp_all add: t queue_updates quiet_queue quiet_kept)
qed (use k in \<open>auto intro: refined_unmoved quiet_unmoved\<close>)

section \<open>Submissions as steps of the queue\<close>

lemma repeated_refined: "repeated client fp s t r \<Longrightarrow> well_kept s \<Longrightarrow> refined s t \<and> thread t = thread s"
  using quiet_fields [of s t] by (simp add: repeated_def refined_unmoved quiet_unmoved)

lemma submit_refined:
  assumes run: "submit lib now uuid checked resolved q s = (t, r)" and k: "well_kept s"
    and valid: "workflow_request_valid q" and n: "thread s \<noteq> Absent"
  shows "refined s t \<and> thread t = thread s"
  using submit_effect [OF run k valid]
proof (elim disjE exE conjE)
  fix job k' assume a: "admitted s job k' t" and op: "operation job = workflow_operation q" and c: "\<not> closing s"
  have "operation job \<notin> {Encode, Decode, Fetch_Dataset}" using valid op by (auto simp: workflow_request_valid_def)
  with admit_refined [OF a n c] a recorded_fields(1) show ?thesis by (auto simp: admitted_def)
qed (use k repeated_refined in blast)

lemma submit_fetch_refined:
  assumes run: "submit_fetch lib now uuid session q s = (t, r)" and k: "well_kept s" and n: "thread s \<noteq> Absent"
  shows "refined s t \<and> thread t = thread s"
  using submit_fetch_effect [OF run k]
proof (elim disjE exE conjE)
  fix job k' assume a: "admitted s job k' t" and op: "operation job = Fetch_Dataset" and c: "\<not> closing s"
    and f: "fetching (queue_of s) = {}" "\<not> cleanup_running s"
  with admit_refined [OF a n c] recorded_fields(1) show ?thesis by (auto simp: admitted_def)
qed (use k repeated_refined in blast)

lemma submit_inference_refined:
  assumes run: "submit_inference lib now uuid rd rs q s = (t, r)" and k: "well_kept s"
    and ok: "queue_ok (queue_of s)" and n: "thread s \<noteq> Absent"
  shows "refined s t \<and> thread t = thread s"
  using submit_inference_effect [OF run k ok]
proof (elim disjE exE conjE)
  fix job k' u assume a: "admitted s job k' u" and op: "operation job = request_operation q" and c: "\<not> closing s"
    and w: "card (waiting (queue_of s)) < 8" and t: "t = secrets_kept s (job_identifier job) (request_secrets q) u"
  have "inference_operation (operation job)" by (simp add: op request_operation_def)
  with admit_inference_refined [OF a c n _ w] have "refined s t" by (simp add: t)
  moreover have "recorded s job k' u" using a by (simp add: admitted_def)
  ultimately show ?thesis using recorded_fields(1) [of s job k' u] by (simp add: t secrets_kept_def)
qed (use k repeated_refined in blast)

lemma act_thread:
  assumes "act_on_job lib now listed i client a s = (t, r)" and "well_kept s"
  shows "thread t = thread s"
  using act_effect [OF assms] quiet_fields
  by (auto simp: unmoved_def moved_def beside_def cancelled_secrets_def)

end
