(* ===== verification/JobSystem.thy ===== *)
theory JobSystem
  imports JobAdmission Interfaces
begin

text \<open>
  The job supervisor as a whole: every interleaving of the sections of \<open>JobService\<close> and
  \<open>JobScheduler\<close>, across restarts of the process, refines the queue of \<open>JobQueue\<close>.
\<close>

section \<open>Steps of the whole system\<close>

text \<open>
  Requests are served after \<open>start\<close> (the application's lifespan). The shutdown waits for the
  scheduler thread for a limited time only, so that \<open>finish_close\<close>, the reconciliation after the
  waits, may find it in any section; it then goes on with its job, and every later section of
  it is a step as before. The application closes the supervisor when it has stopped serving,
  so no request to remove unused downloads arrives while the scheduler still works on a fetch
  that the shutdown has interrupted. The other requests are not restricted. A crash or a new
  process is \<open>restarted\<close>, which keeps the tables only. The \<open>faults\<close> of a new process are arbitrary.
\<close>

inductive service_step :: "outside \<Rightarrow> service \<Rightarrow> service \<Rightarrow> bool" for lib where
  started: "thread s = Absent \<Longrightarrow> start lock_opened free now s = (t, u) \<Longrightarrow> service_step lib s t"
| submitted: "thread s \<noteq> Absent \<Longrightarrow> submit lib now uuid checked resolved q s = (t, r)
    \<Longrightarrow> workflow_request_valid q \<Longrightarrow> service_step lib s t"
| fetch_submitted: "thread s \<noteq> Absent \<Longrightarrow> submit_fetch lib now uuid session fq s = (t, r)
    \<Longrightarrow> service_step lib s t"
| inference_submitted: "thread s \<noteq> Absent \<Longrightarrow> submit_inference lib now uuid img mdl iq s = (t, r)
    \<Longrightarrow> service_step lib s t"
| acted: "thread s \<noteq> Absent \<Longrightarrow> act_on_job lib now listed i client a s = (t, r) \<Longrightarrow> service_step lib s t"
| text_read: "thread s \<noteq> Absent \<Longrightarrow> read_decoded_text now i s = (t, x) \<Longrightarrow> service_step lib s t"
| text_discarded: "thread s \<noteq> Absent \<Longrightarrow> discard_decoded_text i s = (t, u) \<Longrightarrow> service_step lib s t"
| cleanup_begun: "thread s \<noteq> Absent \<Longrightarrow> \<not> fetch_outlives s \<Longrightarrow> begin_cleanup s = (t, u) \<Longrightarrow> service_step lib s t"
| cleanup_ended: "service_step lib s (end_cleanup s)"
| polled: "thread s = Polling \<Longrightarrow> service_step lib s (poll proof_locked now s)"
| idled: "thread s = Polling \<Longrightarrow> service_step lib s (idle files now uploads s)"
| thread_ended: "thread s = Polling \<Longrightarrow> closing s \<Longrightarrow> service_step lib s (s\<lparr>thread := Ended\<rparr>)"
| begun: "thread s = Starting i \<Longrightarrow> service_step lib s
    (run_section now i (begin_job checked resolved i) (\<lambda>task t. t\<lparr>thread := Executing i task\<rparr>) s)"
| progressed: "thread s = Executing i (Workflow_Task q) \<Longrightarrow> service_step lib s
    (run_section now i (workflow_progress now i q global_step values) (\<lambda>_ t. t) s)"
| finished: "thread s = Executing i (Workflow_Task q) \<Longrightarrow> service_step lib s
    (run_section now i (workflow_finish now i q code result registered) (\<lambda>_. leave_job) s)"
| failed: "thread s = Executing i task \<Longrightarrow> \<not> (\<exists>fq ps. task = Fetch_Task fq ps)
    \<Longrightarrow> service_step lib s (fail_job now i e s)"
| fetch_advanced: "thread s = Executing i (Fetch_Task fq partials) \<Longrightarrow> service_step lib s
    (run_section now i (fetch_progressed now i p)
       (\<lambda>_ t. t\<lparr>thread := Executing i (Fetch_Task fq (partial_directories p))\<rparr>) s)"
| fetch_finished: "thread s = Executing i (Fetch_Task fq partials) \<Longrightarrow> service_step lib s
    (run_section now i (fetch_finish now listed i code result partials) (\<lambda>_. leave_job) s)"
| fetch_failed: "thread s = Executing i (Fetch_Task fq partials) \<Longrightarrow> service_step lib s
    (run_section now i (fetch_failed now listed i e partials) (\<lambda>_. leave_job) s)"
| inference_begun: "thread s = Executing i (Inference_Task record sec 0) \<Longrightarrow> service_step lib s
    (run_section now i (inference_started now i ready) (\<lambda>_ t. t\<lparr>thread := Executing i (Inference_Task record sec 1)\<rparr>) s)"
| encoded: "thread s = Executing i (Inference_Task record sec 1) \<Longrightarrow> record_operation record = Encode \<Longrightarrow> service_step lib s
    (run_section now i (encode_written now i output) (\<lambda>_ t. t\<lparr>thread := Executing i (Inference_Task record sec 2)\<rparr>) s)"
| encode_finished: "thread s = Executing i (Inference_Task record sec 2) \<Longrightarrow> service_step lib s
    (run_section now i (encode_finish now i record sec restored published) (\<lambda>_. leave_job) s)"
| decode_finished: "thread s = Executing i (Inference_Task record sec 1) \<Longrightarrow> record_operation record \<noteq> Encode \<Longrightarrow> service_step lib s
    (run_section now i (decode_finish swept now i restored) (\<lambda>_. leave_job) s)"
| close_begun: "service_step lib s (begin_close now s)"
| close_finished: "closing s \<Longrightarrow> service_step lib s (finish_close now s)"
| restarted: "service_step lib s (new_service ((store s)\<lparr>faults := fs\<rparr>) True)"

section \<open>Every step refines the queue\<close>

lemma run_keeps_operation:
  "queue_run a b \<Longrightarrow> entries a i = Some (op, st) \<Longrightarrow> \<exists>st'. entries b i = Some (op, st')"
  by (induction rule: rtranclp_induct) (auto dest: step_allowed)

text \<open>The scheduler keeps a fetch task only where it had one before.\<close>

definition keeps_task :: "service \<Rightarrow> service \<Rightarrow> bool" where
  "keeps_task s t \<longleftrightarrow>
     (\<forall>i fq ps. thread t = Executing i (Fetch_Task fq ps) \<longrightarrow> (\<exists>fq ps. thread s = Executing i (Fetch_Task fq ps)))"

lemma keeps_task_matches:
  assumes "refined s t" and "keeps_task s t" and "task_matches s"
  shows "task_matches t"
  unfolding task_matches_def
proof (intro allI impI)
  fix i fq ps assume "thread t = Executing i (Fetch_Task fq ps)"
  with assms(2,3) obtain st where "view s i = Some (Fetch_Dataset, st)"
    by (auto simp: keeps_task_def task_matches_def fetch_entry_def)
  with assms(1) run_keeps_operation [of "queue_of s" "queue_of t" i Fetch_Dataset st] show "fetch_entry i t"
    by (auto simp: refined_def fetch_entry_def)
qed

lemma keeps_task_same: "thread t = thread s \<Longrightarrow> keeps_task s t"
  by (simp add: keeps_task_def)

lemma keeps_task_quiet_thread: "thread t \<in> {Absent, Polling, Ended} \<or> (\<exists>i. thread t = Starting i) \<Longrightarrow> keeps_task s t"
  by (auto simp: keeps_task_def)

lemma fail_thread: "thread (fail_job now i e s) \<in> {Polling, Ended}"
  by (auto simp: fail_job_def leave_job_def stop_scheduler_def split: prod.splits sum.splits)

lemma finishing_thread: "thread (run_section now i m (\<lambda>_. leave_job) s) \<in> {Polling, Ended}"
  using fail_thread by (auto simp: run_section_def leave_job_def split: prod.splits sum.splits)

lemma executing_at_work:
  assumes "queue_ok (queue_of s)" and "thread s = Executing i task"
  shows "at_work s i"
proof -
  have "i \<in> claimed (queue_of s)" using assms(2) by (simp add: claimed_def)
  with claimed_entry [of "queue_of s" i] assms show ?thesis
    by (auto simp: queue_ok_def at_work_def worked_on_def)
qed

lemma ends_thread:
  assumes "ends K P i m" and "well_kept s" and "K s" and "m s = (t, Inr x)"
  shows "thread t = thread s"
  using assms by (fastforce simp: ends_def moved_def beside_def)

lemma progress_keeps_task:
  assumes "ends (\<lambda>_. True) status_kept i m" and "well_kept s"
    and "\<And>x t. thread t = thread s \<Longrightarrow> keeps_task s (continue x t)"
  shows "keeps_task s (run_section now i m continue s)"
proof -
  obtain t r where m: "m s = (t, r)" by fastforce
  show ?thesis
  proof (cases r)
    case (Inl e)
    with m fail_thread [of now i e t] show ?thesis
      by (intro keeps_task_quiet_thread) (auto simp: run_section_def)
  next
    case (Inr x)
    with ends_thread [OF assms(1,2)] m assms(3) [of t x] show ?thesis by (simp add: run_section_def)
  qed
qed

definition sound :: "service \<Rightarrow> service \<Rightarrow> bool" where
  "sound s t \<longleftrightarrow> refined s t \<and> task_matches t"

lemma soundI: "refined s t \<Longrightarrow> keeps_task s t \<Longrightarrow> task_matches s \<Longrightarrow> sound s t"
  by (simp add: sound_def keeps_task_matches)

lemma unmoved_sound: "unmoved s t \<Longrightarrow> task_matches s \<Longrightarrow> sound s t"
  by (rule soundI) (simp_all add: refined_unmoved keeps_task_same unmoved_def beside_def)

lemma progress_sound:
  assumes "well_kept s" and "queue_ok (queue_of s)" and "task_matches s" and "thread s = Executing i task"
    and "ends (\<lambda>_. True) status_kept i m"
    and "\<And>x t. thread t = thread s \<Longrightarrow> well_kept t \<Longrightarrow>
      well_kept (continue x t) \<and> queue_of (continue x t) = queue_of t \<and> keeps_task s (continue x t)"
    and "\<And>x t. thread t = thread s \<Longrightarrow> keeps_task s (continue x t)"
  shows "sound s (run_section now i m continue s)"
proof (rule soundI [OF _ _ assms(3)])
  have w: "at_work s i" by (rule executing_at_work [OF assms(2,4)])
  show "refined s (run_section now i m continue s)"
    using assms(6) by (intro progress_section [OF assms(1) w assms(5)]) (auto simp: beside_def)
  show "keeps_task s (run_section now i m continue s)" by (rule progress_keeps_task [OF assms(5,1,7)])
qed

lemma finishing_sound:
  assumes "well_kept s" and "queue_ok (queue_of s)" and "task_matches s" and "thread s = Executing i task"
    and "ends K left_as i m" and "K s"
  shows "sound s (run_section now i m (\<lambda>_. leave_job) s)"
proof (rule soundI [OF _ _ assms(3)])
  show "refined s (run_section now i m (\<lambda>_. leave_job) s)"
    by (rule finishing_section [OF assms(1) executing_at_work [OF assms(2,4)] assms(5,6)])
  show "keeps_task s (run_section now i m (\<lambda>_. leave_job) s)"
    using finishing_thread by (intro keeps_task_quiet_thread) blast
qed

lemma restart_refined:
  assumes "well_kept s"
  shows "refined s (new_service ((store s)\<lparr>faults := fs\<rparr>) True)"
proof (rule refined_step)
  let ?t = "new_service ((store s)\<lparr>faults := fs\<rparr>) True"
  have same: "same_tables (store s) ((store s)\<lparr>faults := fs\<rparr>)" by (auto simp: same_tables_def)
  show "well_kept ?t"
    using assms same_tables_valid [OF same] by (simp add: well_kept_def new_service_def requests_match_def)
  have "queue_of ?t = (queue_of s)\<lparr>stage := Off, held := {}, stopping := False, cleaning := False\<rparr>"
    by (simp add: queue_of_def new_service_def view_def lookup_job_def fun_eq_iff)
  then show "queue_step (queue_of s) (queue_of ?t)" by (simp add: queue_step.restart)
qed

lemma thread_after_section: "thread (idle files now uploads s) \<in> {thread s, Ended}"
  by (auto simp: idle_def maintain_def act_bind_def split: prod.splits sum.splits if_splits)

lemma finish_close_thread:
  assumes "well_kept s" and "reconcilable s"
  shows "thread (finish_close now s) = thread s"
proof -
  let ?m = "if \<not> persistence_failed s \<and> owned s then interrupt_unfinished now else act_return ()"
  obtain t r where m: "?m s = (t, r)" by fastforce
  have "thread t = thread s"
    using m interrupt_unfinished_effect [OF assms] by (auto simp: beside_def split: if_splits)
  with m show ?thesis
    by (auto simp: finish_close_def recovered_or_halt_def halt_for_storage_def Let_def split: sum.splits)
qed

lemma start_thread:
  assumes "start lock_opened free now s = (t, r)" and "well_kept s" and "thread s = Absent"
  shows "thread t \<in> {Absent, Polling}"
proof (cases "lock_opened \<and> free")
  case False
  with assms show ?thesis by (auto simp: start_def split: if_splits)
next
  case True
  obtain u q where i: "interrupt_unfinished now (s\<lparr>owned := True\<rparr>) = (u, q)" by fastforce
  have "beside (s\<lparr>owned := True\<rparr>) u"
    using interrupt_unfinished_effect [OF _ _ i] assms(2,3) by (simp add: reconcilable_def)
  with True assms i show ?thesis by (cases q) (auto simp: start_def beside_def)
qed

lemma ask_to_stop_thread:
  assumes "well_kept s" and "ask_to_stop now s = (t, r)"
  shows "thread t = thread s"
proof (cases "active_job s")
  case None
  with assms show ?thesis by (simp add: ask_to_stop_def)
next
  case (Some i)
  let ?f = "\<lambda>j. j\<lparr>requested_action := Some Stop, phase := ''saving'', available_actions := []\<rparr>"
  obtain u q where g: "in_store (get_job i) s = (u, q)" by fastforce
  have u: "unmoved s u" and kn: "\<And>job. q = Inr job \<Longrightarrow> knows i job u"
    using gentle_get_job [of "\<lambda>_. True" i] assms(1) g unfolding gentle_def by blast+
  have tu: "thread u = thread s" and ku: "well_kept u" using u by (simp_all add: unmoved_def beside_def)
  show ?thesis
  proof (cases q)
    case (Inl e)
    with Some g assms(2) tu show ?thesis by (simp add: ask_to_stop_def)
  next
    case (Inr job)
    obtain v w where c: "change now None ?f job u = (v, w)" by fastforce
    have sf: "safe_change job ?f" by (simp add: safe_simps)
    have "thread v = thread u"
      using change_moves [OF ku kn [OF Inr] sf c] by (auto simp: unmoved_def moved_def beside_def)
    with Some g Inr c tu assms(2) show ?thesis
      by (cases w) (auto simp: ask_to_stop_def split: if_splits)
  qed
qed

lemma cleanup_thread:
  assumes "begin_cleanup s = (t, r)" and "well_kept s"
  shows "thread t = thread s"
  using cleanup_effect [OF assms]
proof (elim disjE exE conjE)
  assume "quiet s t"
  from quiet_fields [OF this] show ?thesis by simp
next
  fix u assume "quiet s u" and t: "t = u\<lparr>cleanup_running := True\<rparr>"
  from quiet_fields [OF this(1)] show ?thesis by (simp add: t)
qed

lemma begin_close_thread:
  assumes "well_kept s"
  shows "thread (begin_close now s) = thread s"
proof -
  obtain t r where m: "ask_to_stop now (s\<lparr>closing := True\<rparr>) = (t, r)" by fastforce
  have "thread t = thread s" using ask_to_stop_thread [OF _ m] assms by simp
  with m show ?thesis
    by (cases r) (simp_all add: begin_close_def recovered_or_halt_def halt_for_storage_def)
qed

lemma poll_thread:
  assumes "well_kept s" and "thread s = Polling"
  shows "thread (poll proof_locked now s) \<in> {Polling, Ended} \<or> (\<exists>i. thread (poll proof_locked now s) = Starting i)"
proof -
  obtain u q where l: "in_store list_jobs s = (u, q)" by fastforce
  have "thread u = Polling" using quiet_fields [OF in_list_jobs(1) [OF l]] assms(2) by simp
  show ?thesis
  proof (cases q)
    case (Inl e)
    with l show ?thesis by (simp add: poll_def next_job_def)
  next
    case (Inr js)
    show ?thesis
    proof (cases "List.find (runnable proof_locked) js")
      case None
      with l Inr \<open>thread u = Polling\<close> show ?thesis by (simp add: poll_def next_job_def)
    next
      case (Some j)
      obtain v w where c: "change now None (\<lambda>k. k\<lparr>status := Running, phase := ''preparing'',
          available_actions := initial_running_actions j\<rparr>) j u = (v, w)" by fastforce
      show ?thesis
      proof (cases w)
        case (Inl e)
        with l \<open>q = Inr js\<close> Some c show ?thesis by (simp add: poll_def next_job_def)
      next
        case (Inr k)
        with l \<open>q = Inr js\<close> Some c
        have "poll proof_locked now s
            = v\<lparr>active_job := Some (job_identifier j), thread := Starting (job_identifier j)\<rparr>"
          by (simp add: poll_def next_job_def)
        then have "thread (poll proof_locked now s) = Starting (job_identifier j)" by simp
        then show ?thesis by blast
      qed
    qed
  qed
qed

lemma service_step_sound:
  assumes "service_step lib s t" and "well_kept s" and "queue_ok (queue_of s)" and "task_matches s"
  shows "sound s t"
  using assms
proof (induction rule: service_step.induct)
  case (started s lock_opened free now t u)
  then show ?case using start_refined start_thread by (intro soundI keeps_task_quiet_thread) blast+
next
  case (submitted s now uuid checked resolved q t r)
  then show ?case using submit_refined by (intro soundI keeps_task_same) blast+
next
  case (fetch_submitted s now uuid session fq t r)
  then show ?case using submit_fetch_refined by (intro soundI keeps_task_same) blast+
next
  case (inference_submitted s now uuid img mdl iq t r)
  then show ?case using submit_inference_refined by (intro soundI keeps_task_same) blast+
next
  case (acted s now listed i client a t r)
  then show ?case using act_refined act_thread by (intro soundI keeps_task_same) blast+
next
  case (text_read s now i t x)
  then show ?case using read_text_unmoved unmoved_sound by blast
next
  case (text_discarded s i t u)
  then show ?case using discard_text_unmoved unmoved_sound by blast
next
  case (cleanup_begun s t u)
  then show ?case using cleanup_refined cleanup_thread by (intro soundI keeps_task_same) blast+
next
  case (cleanup_ended s)
  then show ?case
    by (intro soundI refined_step keeps_task_same) (simp_all add: end_cleanup_def queue_updates queue_step.cleaned)
next
  case (polled s proof_locked now)
  then show ?case using poll_refined poll_thread by (intro soundI keeps_task_quiet_thread) blast+
next
  case (idled s files now uploads)
  have "thread (idle files now uploads s) \<in> {Polling, Ended}"
    using thread_after_section [of files now uploads s] idled by simp
  then show ?case using idled idle_refined by (intro soundI keeps_task_quiet_thread) blast+
next
  case (thread_ended s)
  then show ?case
    by (intro soundI refined_step keeps_task_quiet_thread) (simp_all add: queue_updates queue_step.ended)
next
  case (begun s i now checked resolved)
  then show ?case using begin_refined by (simp add: sound_def)
next
  case (progressed s i q now global_step "values")
  then show ?case using workflow_progress_ends
    by (intro progress_sound) (auto simp: keeps_task_same)
next
  case (finished s i q now code result registered)
  then show ?case using workflow_finish_ends by (intro finishing_sound) auto
next
  case (failed s i task now e)
  have "refined s (fail_job now i e s)" using failed executing_at_work by (intro fail_refined) blast+
  then show ?case using failed fail_thread by (intro soundI keeps_task_quiet_thread) blast+
next
  case (fetch_advanced s i fq partials now p)
  then show ?case using fetch_progressed_ends
    by (intro progress_sound) (auto simp: keeps_task_def queue_updates queue_of_def view_def fun_eq_iff)
next
  case (fetch_finished s i fq partials now listed code result)
  then show ?case by (intro finishing_sound [OF _ _ _ _ fetch_finish_ends]) (auto simp: task_matches_def)
next
  case (fetch_failed s i fq partials now listed e)
  then show ?case by (intro finishing_sound [OF _ _ _ _ fetch_failed_ends]) (auto simp: task_matches_def)
next
  case (inference_begun s i rcd sec now ready)
  then show ?case using inference_started_ends
    by (intro progress_sound) (auto simp: keeps_task_def queue_of_def view_def fun_eq_iff)
next
  case (encoded s i rcd sec now out)
  then show ?case using encode_written_ends
    by (intro progress_sound) (auto simp: keeps_task_def queue_of_def view_def fun_eq_iff)
next
  case (encode_finished s i rcd sec now restored published)
  then show ?case using encode_finish_ends by (intro finishing_sound) auto
next
  case (decode_finished s i rcd sec swept now restored)
  then show ?case using decode_finish_ends by (intro finishing_sound) auto
next
  case (close_begun s now)
  then show ?case using begin_close_refined begin_close_thread by (intro soundI keeps_task_same) blast+
next
  case (close_finished s now)
  then have "reconcilable s" by (simp add: reconcilable_def)
  with close_finished show ?case using finish_close_refined finish_close_thread
    by (intro soundI keeps_task_same) blast+
next
  case (restarted s fs)
  then show ?case using restart_refined
    by (intro soundI keeps_task_quiet_thread) (auto simp: new_service_def)
qed

section \<open>Reachable states\<close>

definition first_service :: "bool list \<Rightarrow> service" where
  "first_service fs = new_service (empty_store\<lparr>faults := fs\<rparr>) True"

definition in_order :: "service \<Rightarrow> bool" where
  "in_order s \<longleftrightarrow> well_kept s \<and> queue_ok (queue_of s) \<and> task_matches s"

lemma step_in_order:
  assumes "in_order s" and "service_step lib s t"
  shows "in_order t" and "queue_run (queue_of s) (queue_of t)"
proof -
  from service_step_sound [OF assms(2)] assms(1) have "sound s t" by (simp add: in_order_def)
  then have t: "well_kept t" "task_matches t" and r: "queue_run (queue_of s) (queue_of t)"
    by (simp_all add: sound_def refined_def)
  show "queue_run (queue_of s) (queue_of t)" by (rule r)
  from queue.run_keeps [OF r] assms(1) t show "in_order t" by (simp add: in_order_def)
qed

interpretation supervisor: guarded_system "service_step lib" in_order for lib
  by unfold_locales (rule step_in_order(1))

lemma first_queue: "queue_of (first_service fs) = empty_queue"
  by (simp add: first_service_def new_service_def empty_store_def queue_of_def empty_queue_def view_def
      lookup_job_def fun_eq_iff)

lemma first_in_order: "in_order (first_service fs)"
proof -
  have "store_valid (empty_store\<lparr>faults := fs\<rparr>)"
    by (auto simp: store_valid_def empty_store_def lookup_job_def log_latest_def)
  then have "well_kept (first_service fs)"
    by (simp add: well_kept_def first_service_def new_service_def requests_match_def empty_store_def)
  moreover have "task_matches (first_service fs)"
    by (simp add: task_matches_def first_service_def new_service_def)
  ultimately show ?thesis by (simp add: in_order_def first_queue empty_queue_ok)
qed

inductive reachable :: "outside \<Rightarrow> service \<Rightarrow> bool" for lib where
  first: "reachable lib (first_service fs)"
| step: "reachable lib s \<Longrightarrow> service_step lib s t \<Longrightarrow> reachable lib t"

lemma reachable_in_order: "reachable lib s \<Longrightarrow> in_order s"
  by (induction rule: reachable.induct) (auto intro: first_in_order step_in_order)

lemma run_refines:
  assumes "(service_step lib)\<^sup>*\<^sup>* s t" and "in_order s"
  shows "queue_run (queue_of s) (queue_of t)"
  using assms
proof (induction rule: rtranclp_induct)
  case (step t u)
  then have "in_order t" using supervisor.run_keeps by blast
  with step step_in_order(2) show ?case by (meson rtranclp_trans)
qed simp

lemma reachable_queue: "reachable lib s \<Longrightarrow> queue_run empty_queue (queue_of s)"
proof (induction rule: reachable.induct)
  case (first fs)
  then show ?case by (simp add: first_queue)
next
  case (step s t)
  then show ?case using step_in_order(2) [OF reachable_in_order] by (meson rtranclp_trans)
qed

end
