(* ===== verification/JobRetries.thy ===== *)
theory JobRetries
  imports JobSystem
begin

text \<open>
  Retries of mutations. No step of the system forgets the record of an accepted mutation, and
  the four endpoints that change jobs meet the contract \<open>replayed_request\<close> of \<open>Interfaces\<close>: an
  accepted request is recorded, and repeating it answers with the job's current state and
  changes nothing, whatever happened in between.
\<close>

section \<open>No record is forgotten\<close>

text \<open>The value is the fingerprint of the request with the identifier of its job.\<close>

definition remembers :: "string \<Rightarrow> string \<times> string \<Rightarrow> service \<Rightarrow> bool" where
  "remembers c v s \<longleftrightarrow> map_of (mutations (store s)) c = Some v"

named_theorems remembering

definition remembers_row :: "string \<Rightarrow> string \<times> string \<Rightarrow> stored_request job_store \<Rightarrow> bool" where
  "remembers_row c v st \<longleftrightarrow> map_of (mutations st) c = Some v"

lemma connection_remembers: "act_keeps (remembers_row c v) body \<Longrightarrow> act_keeps (remembers_row c v) (connection body)"
  by (auto simp: act_keeps_def connection_def remembers_row_def split: list.splits bool.splits)

lemma store_calls_remember:
  "act_keeps (remembers_row c v) (get_job i)" "act_keeps (remembers_row c v) (get_request i)"
  "act_keeps (remembers_row c v) list_jobs" "act_keeps (remembers_row c v) (replay i fp)"
  "act_keeps (remembers_row c v) (save j req mut)"
proof -
  have g: "act_keeps (remembers_row c v) (get_job i)" for i
    unfolding get_job_def by (intro connection_remembers act_keeps_bind) (auto split: option.splits simp: act_keeps_def)
  then show "act_keeps (remembers_row c v) (get_job i)" .
  show "act_keeps (remembers_row c v) (get_request i)"
    unfolding get_request_def by (intro connection_remembers act_keeps_bind) (auto split: option.splits simp: act_keeps_def)
  show "act_keeps (remembers_row c v) list_jobs"
    unfolding list_jobs_def by (intro connection_remembers act_keeps_bind) (auto simp: act_keeps_def)
  show "act_keeps (remembers_row c v) (save j req mut)"
    unfolding save_def
    by (intro connection_remembers) (auto simp: act_keeps_def remembers_row_def write_rows_def Let_def map_add_def split: option.splits)
  show "act_keeps (remembers_row c v) (replay i fp)"
    unfolding replay_def
    by (intro act_keeps_bind connection_remembers) (auto split: option.splits intro!: act_keeps_bind g)
qed

lemma in_store_remembers: "act_keeps (remembers_row c v) m \<Longrightarrow> act_keeps (remembers c v) (in_store m)"
  by (auto simp: act_keeps_def remembers_def remembers_row_def in_store_def split: prod.splits)

lemmas in_store_calls_remember [remembering] = store_calls_remember [THEN in_store_remembers]

lemmas [remembering] = act_keeps_bind act_keeps_basic

lemma other_state_remembers [remembering]:
  "act_keeps (remembers c v) require_storage" "act_keeps (remembers c v) require_inference"
  "act_keeps (remembers c v) (in_secrets m)" "act_keeps (remembers c v) (discard_partials listed label reported)"
  "act_keeps (remembers c v) (keep_text swept now i x)"
  by (simp_all add: act_keeps_def remembers_def require_storage_def require_inference_def in_secrets_def discard_partials_def
      keep_text_def split: prod.splits)

lemma modify_remembers [remembering]: "(\<And>s. store (f s) = store s) \<Longrightarrow> act_keeps (remembers c v) (act_modify f)"
  by (simp add: act_keeps_def remembers_def)

lemma cond_remembers [remembering]:
  "act_keeps I a \<Longrightarrow> act_keeps I b \<Longrightarrow> act_keeps I (if p then a else b)" for a :: "(service, 'a) action"
  by simp

lemma option_remembers [remembering]:
  "act_keeps I a \<Longrightarrow> (\<And>x. act_keeps I (f x)) \<Longrightarrow> act_keeps I (case y of None \<Rightarrow> a | Some x \<Rightarrow> f x)" for a :: "(service, 'a) action"
  by (cases y) simp_all

lemma change_remembers [remembering]: "act_keeps (remembers c v) (change now mut f job)"
  unfolding change_def Let_def by (intro remembering)

lemma interrupt_remembers [remembering]: "act_keeps (remembers c v) (interrupt now job)"
  unfolding interrupt_def by (intro remembering)

lemma each_remembers: "(\<And>x. act_keeps I (f x)) \<Longrightarrow> act_keeps I (act_each f xs)"
  by (induction xs) (auto intro: act_keeps_bind)

lemma interrupt_unfinished_remembers [remembering]: "act_keeps (remembers c v) (interrupt_unfinished now)"
  unfolding interrupt_unfinished_def by (intro remembering each_remembers)

lemma answered_remembers [remembering]:
  "act_keeps (remembers c v) body \<Longrightarrow> act_keeps (remembers c v) (answered client fp body)"
  unfolding answered_def by (intro remembering)

lemma unless_closing_remembers [remembering]:
  "act_keeps (remembers c v) body \<Longrightarrow> act_keeps (remembers c v) (unless_closing e body)"
  unfolding unless_closing_def by (intro remembering)

lemma accept_remembers [remembering]: "act_keeps (remembers c v) (accept_job job q mut)"
  unfolding accept_job_def by (intro remembering)

lemma checked_remembers [remembering]: "act_keeps (remembers c v) (checked_training checked)"
  unfolding checked_training_def by (intro remembering)

lemma settings_remember [remembering]: "act_keeps (remembers c v) (submitted_settings lib checked q)"
  unfolding submitted_settings_def by (intro remembering)

lemma fetch_changes_remember [remembering]: "act_keeps (remembers c v) (fetch_action_changes listed job a)"
  unfolding fetch_action_changes_def by (intro remembering)

lemma requests_remember:
  "act_keeps (remembers c v) (submit lib now uuid checked resolved w)"
  "act_keeps (remembers c v) (submit_fetch lib now uuid session fq)"
  "act_keeps (remembers c v) (submit_inference lib now uuid rd rs iq)"
  "act_keeps (remembers c v) (act_on_job lib now listed i client a)"
  "act_keeps (remembers c v) (discard_decoded_text i)" "act_keeps (remembers c v) begin_cleanup"
  unfolding submit_def submit_fetch_def submit_inference_def act_on_job_def discard_decoded_text_def begin_cleanup_def Let_def
  by (intro remembering; simp)+

lemma read_text_remembers: "act_keeps (remembers c v) (read_decoded_text now i)"
proof -
  have "act_keeps (remembers c v) (\<lambda>s. case get_text now i (recovered s) of (e, r) \<Rightarrow>
            (s\<lparr>recovered := e\<rparr>, andThen r (\<lambda>found. case found of
               None \<Rightarrow> Inl (Application_Failure ''result_expired'' 404) | Some x \<Rightarrow> Inr x)))"
    by (simp add: act_keeps_def remembers_def split: prod.splits)
  then show ?thesis unfolding read_decoded_text_def by (intro remembering)
qed

subsection \<open>The sections of the scheduler\<close>

lemma request_case_remembers:
  "(\<And>r. act_keeps I (a r)) \<Longrightarrow> (\<And>q. act_keeps I (b q)) \<Longrightarrow> (\<And>q. act_keeps I (f q)) \<Longrightarrow>
   act_keeps I (case y of Inference r \<Rightarrow> a r | Fetch q \<Rightarrow> b q | Workflow q \<Rightarrow> f q)"
  by (cases y) simp_all

lemma begin_job_remembers: "act_keeps (remembers c v) (begin_job checked resolved i)"
  unfolding begin_job_def by (intro remembering request_case_remembers)

lemma stopped_remembers [remembering]: "act_keeps (remembers c v) (stopped_changes listed job partials)"
  unfolding stopped_changes_def by (intro remembering)

lemma report_remembers [remembering]: "act_keeps (remembers c v) (report now i name)"
  unfolding report_def by (intro remembering)

lemma completed_remembers [remembering]: "act_keeps (remembers c v) (inference_completed now i published)"
  unfolding inference_completed_def by (intro remembering)

lemma decode_result_remembers [remembering]: "act_keeps (remembers c v) (decode_result swept now i restored)"
  unfolding decode_result_def by (intro remembering)

lemma exit_remembers [remembering]: "act_keeps (remembers c v) (exit_changes listed job code result partials)"
  unfolding exit_changes_def Let_def by (intro remembering)

lemma sections_remember:
  "act_keeps (remembers c v) (workflow_progress now i q global_step progress_values)"
  "act_keeps (remembers c v) (workflow_finish now i q code result registered)"
  "act_keeps (remembers c v) (fetch_progressed now i p)"
  "act_keeps (remembers c v) (fetch_finish now listed i code result partials)"
  "act_keeps (remembers c v) (fetch_failed now listed i e partials)"
  "act_keeps (remembers c v) (inference_started now i ready)"
  "act_keeps (remembers c v) (encode_written now i out)"
  "act_keeps (remembers c v) (encode_finish now i rcd sec restored published)"
  "act_keeps (remembers c v) (decode_finish swept now i restored')"
  "act_keeps (remembers c v) (report_failure now i e)"
  unfolding workflow_progress_def workflow_finish_def fetch_progressed_def fetch_finish_def fetch_failed_def inference_started_def
    encode_written_def encode_finish_def decode_finish_def report_failure_def Let_def
  by (intro remembering; simp)+

lemma flags_remember [simp]:
  "remembers c v (s\<lparr>thread := th\<rparr>) = remembers c v s" "remembers c v (leave_job s) = remembers c v s"
  "remembers c v (stop_scheduler s) = remembers c v s" "remembers c v (halt_for_storage s) = remembers c v s"
  "remembers c v (end_cleanup s) = remembers c v s" "remembers c v (s\<lparr>closing := p\<rparr>) = remembers c v s"
  "remembers c v (s\<lparr>owned := p\<rparr>) = remembers c v s"
  by (simp_all add: remembers_def leave_job_def stop_scheduler_def halt_for_storage_def end_cleanup_def)

lemma fail_remembers: "remembers c v s \<Longrightarrow> remembers c v (fail_job now i e s)"
  using sections_remember(10) [of c v now i e] by (auto simp: fail_job_def act_keeps_def split: prod.splits sum.splits)

lemma section_remembers:
  assumes "act_keeps (remembers c v) m" and "\<And>x t. remembers c v t \<Longrightarrow> remembers c v (continue x t)" and "remembers c v s"
  shows "remembers c v (run_section now i m continue s)"
proof -
  obtain t r where m: "m s = (t, r)" by fastforce
  have "remembers c v t" using act_keepsD [OF assms(1,3) m] .
  with m assms(2) fail_remembers show ?thesis by (cases r) (simp_all add: run_section_def)
qed

lemma poll_remembers:
  assumes "remembers c v s"
  shows "remembers c v (poll proof_locked now s)"
proof -
  have "act_keeps (remembers c v) (next_job proof_locked now)"
    unfolding next_job_def by (intro remembering) simp
  with assms show ?thesis by (auto simp: poll_def act_keeps_def split: prod.splits sum.splits option.splits)
qed

lemma idle_remembers: "remembers c v s \<Longrightarrow> remembers c v (idle files now uploads s)"
  by (auto simp: idle_def maintain_def act_bind_def remembers_def halt_for_storage_def split: prod.splits sum.splits if_splits)

lemma closing_remembers:
  assumes "remembers c v s"
  shows "remembers c v (begin_close now s)" and "remembers c v (finish_close now s)"
proof -
  have r: "remembers c v (recovered_or_halt m s')" if "act_keeps (remembers c v) m" "remembers c v s'" for m s'
    using that by (auto simp: recovered_or_halt_def act_keeps_def split: prod.splits sum.splits)
  have "act_keeps (remembers c v) (ask_to_stop now)" unfolding ask_to_stop_def by (intro remembering)
  then show "remembers c v (begin_close now s)" unfolding begin_close_def using assms by (intro r) simp_all
  have "act_keeps (remembers c v) (if \<not> persistence_failed s \<and> owned s then interrupt_unfinished now else act_return ())"
    by (intro remembering)
  with r assms show "remembers c v (finish_close now s)" by (simp add: finish_close_def Let_def)
qed

lemma start_remembers: "act_keeps (remembers c v) (start opened free now)"
  unfolding start_def by (intro remembering) simp_all

lemmas run_remembers = section_remembers [OF sections_remember(1)] section_remembers [OF sections_remember(2)]
  section_remembers [OF sections_remember(3)] section_remembers [OF sections_remember(4)] section_remembers [OF sections_remember(5)]
  section_remembers [OF sections_remember(6)] section_remembers [OF sections_remember(7)] section_remembers [OF sections_remember(8)]
  section_remembers [OF sections_remember(9)] section_remembers [OF begin_job_remembers]

lemma step_remembers: "service_step lib s t \<Longrightarrow> remembers c v s \<Longrightarrow> remembers c v t"
proof (induction rule: service_step.induct)
  case (started s lock_opened free now t u)
  show ?case by (rule act_keepsD [OF start_remembers started(3,2)])
next
  case (submitted s now uuid checked resolved q t r)
  show ?case by (rule act_keepsD [OF requests_remember(1) submitted(4,2)])
next
  case (fetch_submitted s now uuid session fq t r)
  show ?case by (rule act_keepsD [OF requests_remember(2) fetch_submitted(3,2)])
next
  case (inference_submitted s now uuid img mdl iq t r)
  show ?case by (rule act_keepsD [OF requests_remember(3) inference_submitted(3,2)])
next
  case (acted s now listed i client a t r)
  show ?case by (rule act_keepsD [OF requests_remember(4) acted(3,2)])
next
  case (text_read s now i t x)
  show ?case by (rule act_keepsD [OF read_text_remembers text_read(3,2)])
next
  case (text_discarded s i t u)
  show ?case by (rule act_keepsD [OF requests_remember(5) text_discarded(3,2)])
next
  case (cleanup_begun s t u)
  show ?case by (rule act_keepsD [OF requests_remember(6) cleanup_begun(4,3)])
next
  case (restarted s fs)
  then show ?case by (simp add: remembers_def new_service_def)
qed (simp_all add: poll_remembers idle_remembers closing_remembers fail_remembers run_remembers)

interpretation records: guarded_system "service_step lib" "remembers c v" for lib c v
  by unfold_locales (rule step_remembers)

section \<open>Accepted actions\<close>

lemma changes_keep_store:
  assumes "(if is_fetch job then fetch_action_changes listed job a else act_lift (action_changes job a)) v = (x, y)"
  shows "store x = store v"
  using assms by (auto simp: fetch_action_changes_def discard_partials_def split: if_splits)

definition action_fingerprint :: "outside \<Rightarrow> string \<Rightarrow> string \<Rightarrow> job_action \<Rightarrow> string" where
  "action_fingerprint lib i client a = json_digest lib (JObject (AList.updates
     (map fst (dump_action lib client a)) (map snd (dump_action lib client a)) [(''job'', JText i)]))"

lemma act_accepted:
  assumes run: "act_on_job lib now listed i client a s = (t, Inr k)" and kept: "well_kept s"
  shows "repeated client (action_fingerprint lib i client a) s t (Inr k) \<or>
    map_of (mutations (store s)) client = None \<and> lookup_job i (store t) = Some k \<and>
      mutations (store t) = mutations (store s) @ [(client, action_fingerprint lib i client a, i)]"
proof -
  let ?fp = "action_fingerprint lib i client a"
  define changes where "changes = (\<lambda>job. if is_fetch job then fetch_action_changes listed job a
                    else act_lift (action_changes job a))"
  define body where "body = act_bind (in_store (get_job i)) (\<lambda>job.
        if a \<notin> set (available_actions job) then act_raise action_unavailable
        else act_bind (changes job) (\<lambda>f.
          act_bind (change now (Some (client, ?fp)) f job) (\<lambda>changed.
          act_bind act_get (\<lambda>s.
          if status changed = Cancelled \<and> attached s
          then act_bind (in_secrets (discard_secrets i)) (\<lambda>_. act_return changed)
          else act_return changed))))"
  have "\<not> persistence_failed s"
    using run by (auto simp: act_on_job_def require_storage_def Let_def act_bind_def [of require_storage])
  with run have "answered client ?fp body s = (t, Inr k)"
    unfolding act_on_job_def Let_def body_def changes_def action_fingerprint_def
    by (simp add: require_storage_def act_bind_def [of require_storage])
  from answered_cases [OF this kept] show ?thesis
  proof (elim disjE exE conjE)
    fix u assume u: "quiet s u" and new: "map_of (mutations (store s)) client = None" and b: "body u = (t, Inr k)"
    have ku: "well_kept u" using u kept by (simp add: quiet_kept)
    from b obtain v job x f m where g: "in_store (get_job i) u = (v, Inr job)" and c: "changes job v = (x, Inr f)"
      and ch: "change now (Some (client, ?fp)) f job x = (m, Inr k)"
      and t: "store t = store m"
      by (auto simp: body_def act_bind_Inr in_secrets_def discard_secrets_def split: if_splits)
    have kj: "knows i job v" and uv: "unmoved u v"
      using gentle_get_job [of "\<lambda>_. True" i] ku g unfolding gentle_def by blast+
    have kv: "well_kept v" using uv by (simp add: unmoved_def)
    have vx: "unmoved v x" and ac: "acts job f"
      using gentle_action_changes [of job listed a] kv c unfolding gentle_def changes_def by blast+
    have kx: "well_kept x" and jx: "knows i job x" using vx kj knows_unmoved by (auto simp: unmoved_def)
    from jx obtain j where j: "lookup_job (job_identifier job) (store x) = Some j" "operation j = operation job"
      by (auto simp: knows_def view_def)
    have sf: "job_identifier (f job) = job_identifier job" "operation (f job) = operation job"
      using ac by (simp_all add: acts_def safe_change_def)
    from change_effect [OF ch kx j sf] have rec: "recorded x ((f job)\<lparr>updated_at := now\<rparr>) k m"
      and mu: "mutations (store m) = mutations (store x) @ [(client, ?fp, job_identifier job)]" by auto
    have "store x = store v" using c unfolding changes_def by (rule changes_keep_store)
    moreover have "mutations (store v) = mutations (store s)"
      using quiet_fields [OF in_get_job(1) [OF g]] quiet_fields [OF u] by simp
    moreover have "lookup_job i (store m) = Some k" using rec sf jx by (simp add: recorded_def knows_def)
    ultimately show ?thesis using mu t new jx by (simp add: knows_def)
  qed auto
qed

section \<open>The mutation endpoints\<close>

datatype mutation =
    Submit_Workflow int string "training_preflight result" "unit result" workflow_request
  | Submit_Fetch int string "bool result option" fetch_request
  | Submit_Inference int string "stored_image result" "installed_model result" inference_request
  | Act_On_Job int "pystr list result" string string job_action

fun endpoint :: "outside \<Rightarrow> mutation \<Rightarrow> (service, job_snapshot) action" where
  "endpoint lib (Submit_Workflow now uuid checked resolved q) =
     (if workflow_request_valid q then submit lib now uuid checked resolved q else act_raise Value_Error)"
| "endpoint lib (Submit_Fetch now uuid session q) = submit_fetch lib now uuid session q"
| "endpoint lib (Submit_Inference now uuid rd rs q) = submit_inference lib now uuid rd rs q"
| "endpoint lib (Act_On_Job now listed i client a) = act_on_job lib now listed i client a"

fun mutation_client :: "mutation \<Rightarrow> string" where
  "mutation_client (Submit_Workflow now uuid checked resolved q) = workflow_client q"
| "mutation_client (Submit_Fetch now uuid session q) = fetch_client q"
| "mutation_client (Submit_Inference now uuid rd rs q) = inference_client q"
| "mutation_client (Act_On_Job now listed i client a) = client"

fun mutation_fingerprint :: "outside \<Rightarrow> mutation \<Rightarrow> string" where
  "mutation_fingerprint lib (Submit_Workflow now uuid checked resolved q) = json_digest lib (JObject (dump_workflow lib q))"
| "mutation_fingerprint lib (Submit_Fetch now uuid session q) = json_digest lib (JObject (dump_fetch lib q))"
| "mutation_fingerprint lib (Submit_Inference now uuid rd rs q) = inference_fingerprint lib q"
| "mutation_fingerprint lib (Act_On_Job now listed i client a) = action_fingerprint lib i client a"

definition apply_mutation :: "outside \<Rightarrow> mutation \<Rightarrow> service \<Rightarrow> exn + (job_snapshot \<times> service)" where
  "apply_mutation lib q s = (case endpoint lib q s of (t, Inl e) \<Rightarrow> Inl e | (t, Inr a) \<Rightarrow> Inr (a, t))"

definition recorded_job :: "outside \<Rightarrow> mutation \<Rightarrow> service \<Rightarrow> string option" where
  "recorded_job lib q s = (case map_of (mutations (store s)) (mutation_client q) of
     None \<Rightarrow> None | Some (fp, job) \<Rightarrow> if fp = mutation_fingerprint lib q then Some job else None)"

definition job_answer :: "string \<Rightarrow> service \<Rightarrow> job_snapshot \<Rightarrow> bool" where
  "job_answer i s a \<longleftrightarrow> lookup_job i (store s) = Some a"

definition serving :: "service \<Rightarrow> bool" where
  "serving s \<longleftrightarrow> in_order s \<and> thread s \<noteq> Absent"

text \<open>A workflow request that its schema accepts; the other requests have no such condition.\<close>

fun well_formed :: "mutation \<Rightarrow> bool" where
  "well_formed (Submit_Workflow now uuid checked resolved q) = workflow_request_valid q"
| "well_formed q = True"

text \<open>What an accepted mutation leaves behind.\<close>

lemma endpoint_accepted:
  assumes "endpoint lib q s = (t, Inr a)" and "in_order s"
  shows "repeated (mutation_client q) (mutation_fingerprint lib q) s t (Inr a) \<or>
    map_of (mutations (store s)) (mutation_client q) = None \<and>
    (\<exists>i. mutations (store t) = mutations (store s) @ [(mutation_client q, mutation_fingerprint lib q, i)] \<and>
       lookup_job i (store t) = Some a)"
proof -
  have k: "well_kept s" and ok: "queue_ok (queue_of s)" using assms(2) by (simp_all add: in_order_def)
  have look: "lookup_job (job_identifier job) (store u) = Some c" if "admitted s job c u" for job c u
    using that by (simp add: admitted_def recorded_def)
  show ?thesis
  proof (cases q)
    case (Submit_Workflow now uuid checked resolved w)
    with assms(1) have v: "workflow_request_valid w" and run: "submit lib now uuid checked resolved w s = (t, Inr a)"
      by (auto split: if_splits)
    from submit_effect [OF run k v] look Submit_Workflow show ?thesis by auto
  next
    case (Submit_Fetch now uuid session w)
    with assms(1) have run: "submit_fetch lib now uuid session w s = (t, Inr a)" by simp
    from submit_fetch_effect [OF run k] look Submit_Fetch show ?thesis by auto
  next
    case (Submit_Inference now uuid rd rs w)
    with assms(1) have run: "submit_inference lib now uuid rd rs w s = (t, Inr a)" by simp
    from submit_inference_effect [OF run k ok] look Submit_Inference show ?thesis
      by (auto simp: secrets_kept_def)
  next
    case (Act_On_Job now listed i client x)
    with assms(1) have run: "act_on_job lib now listed i client x s = (t, Inr a)" by simp
    from act_accepted [OF run k] Act_On_Job show ?thesis by auto
  qed
qed

lemma endpoint_step: "endpoint lib q s = (t, r) \<Longrightarrow> thread s \<noteq> Absent \<Longrightarrow> t = s \<or> service_step lib s t"
  by (cases q) (auto split: if_splits intro: service_step.intros)

lemma endpoint_thread: "endpoint lib q s = (t, r) \<Longrightarrow> serving s \<Longrightarrow> thread t = thread s"
  by (cases q) (auto simp: serving_def in_order_def split: if_splits
      dest: submit_refined submit_fetch_refined submit_inference_refined act_thread)

lemma serving_kept:
  assumes "endpoint lib q s = (t, r)" and "serving s"
  shows "serving t"
  using assms endpoint_step endpoint_thread step_in_order(1)
  unfolding serving_def by metis

interpretation retries: replayed_request "apply_mutation lib" "recorded_job lib" job_answer serving quiet for lib
proof unfold_locales
  fix s q a t
  assume s: "serving s" and "apply_mutation lib q s = Inr (a, t)"
  then have run: "endpoint lib q s = (t, Inr a)" by (auto simp: apply_mutation_def split: prod.splits sum.splits)
  show "serving t" by (rule serving_kept [OF run s])
  have o: "in_order s" using s by (simp add: serving_def)
  note acc = endpoint_accepted [OF run o]
  show "\<exists>k. recorded_job lib q t = Some k \<and> job_answer k t a"
    using acc quiet_fields [of s t] by (auto simp: repeated_def recorded_job_def job_answer_def map_add_def)
  {
    fix k assume "recorded_job lib q s = Some k"
    then have m: "map_of (mutations (store s)) (mutation_client q) = Some (mutation_fingerprint lib q, k)"
      by (auto simp: recorded_job_def split: option.splits if_splits)
    with acc show "quiet s t \<and> job_answer k s a" by (auto simp: repeated_def job_answer_def)
  }
  {
    fix q' k assume "recorded_job lib q' s = Some k"
    with acc quiet_fields [of s t] show "recorded_job lib q' t = Some k"
      by (auto simp: repeated_def recorded_job_def map_add_def split: option.splits if_splits)
  }
qed

lemma recorded_remembers:
  "recorded_job lib q s = Some k \<longleftrightarrow> remembers (mutation_client q) (mutation_fingerprint lib q, k) s"
  by (auto simp: recorded_job_def remembers_def split: option.splits)

interpretation retried: replayed_system "apply_mutation lib" "recorded_job lib" job_answer serving quiet "service_step lib" for lib
  by unfold_locales (simp add: recorded_remembers step_remembers)

section \<open>A repeated request\<close>

lemma replay_recorded:
  assumes kept: "well_kept s" and row: "map_of (mutations (store s)) client = Some (fp, i)"
    and run: "in_store (replay client fp) s = (t, r)"
  shows "\<exists>k. lookup_job i (store s) = Some k \<and> quiet s t \<and> r \<in> {Inr (Some k), Inl Storage_Failure} \<and>
    (faults (store s) = [] \<longrightarrow> t = s \<and> r = Inr (Some k))"
proof -
  have "\<forall>(c, fp, job) \<in> set (mutations (store s)). lookup_job job (store s) \<noteq> None"
    using kept unfolding well_kept_def store_valid_def by blast
  then obtain k where k: "lookup_job i (store s) = Some k" using map_of_SomeD [OF row] by auto
  have look: "lookup_job i (st\<lparr>faults := fs\<rparr>) = lookup_job i st" for st :: "stored_request job_store" and fs
    by (simp add: lookup_job_def)
  have "r \<in> {Inr (Some k), Inl Storage_Failure} \<and> (faults (store s) = [] \<longrightarrow> t = s \<and> r = Inr (Some k))"
    using run row k
    by (auto simp: in_store_def replay_def get_job_def connection_def act_bind_def look split: list.splits bool.splits prod.splits sum.splits)
  with k in_replay(1) [OF run] show ?thesis by blast
qed

lemma answered_recorded:
  assumes kept: "well_kept s" and row: "map_of (mutations (store s)) client = Some (fp, i)"
    and run: "answered client fp body s = (t, r)"
  shows "\<exists>k. lookup_job i (store s) = Some k \<and> quiet s t \<and> r \<in> {Inr k, Inl Storage_Failure} \<and>
    (faults (store s) = [] \<longrightarrow> t = s \<and> r = Inr k)"
proof -
  obtain u q where rp: "in_store (replay client fp) s = (u, q)" by fastforce
  from replay_recorded [OF kept row rp] run rp show ?thesis
    by (auto simp: answered_def)
qed

lemma repeated_request:
  assumes kept: "well_kept s" and row: "map_of (mutations (store s)) (mutation_client q) = Some (mutation_fingerprint lib q, i)"
    and form: "well_formed q" and run: "endpoint lib q s = (t, r)"
  shows "\<exists>k. lookup_job i (store s) = Some k \<and> quiet s t \<and> r \<in> {Inr k, Inl Storage_Failure} \<and>
    (faults (store s) = [] \<and> \<not> persistence_failed s \<longrightarrow> t = s \<and> r = Inr k)"
proof (cases "persistence_failed s")
  case True
  have "act_bind require_storage f s = (s, Inl Storage_Failure)" for f :: "unit \<Rightarrow> (service, job_snapshot) action"
    using True by (simp add: require_storage_def act_bind_def)
  with run form have "t = s" "r = Inl Storage_Failure"
    by (cases q; simp add: submit_def submit_fetch_def submit_inference_def act_on_job_def Let_def)+
  moreover have "\<exists>k. lookup_job i (store s) = Some k"
    using replay_recorded [OF kept row] by (metis prod.exhaust)
  ultimately show ?thesis using True by auto
next
  case False
  have storage: "act_bind require_storage f s = f () s" for f :: "unit \<Rightarrow> (service, job_snapshot) action"
    using False by (simp add: require_storage_def act_bind_def)
  have inference: "act_bind require_inference f s = f () s" for f :: "unit \<Rightarrow> (service, job_snapshot) action"
    using kept by (simp add: well_kept_def require_inference_def act_bind_def)
  have "\<exists>body. answered (mutation_client q) (mutation_fingerprint lib q) body s = (t, r)"
    using run form
    by (cases q) (auto simp: submit_def submit_fetch_def submit_inference_def act_on_job_def Let_def storage inference
        inference_fingerprint_def action_fingerprint_def)
  with answered_recorded [OF kept row] show ?thesis by blast
qed

end
