(* ===== verification/JobEvents.thy ===== *)
theory JobEvents
  imports JobService
begin

text \<open>
  The event stream of \<^verbatim>\<open>backend_service/workflow_routes.py\<close>: a client's cursor, the reset
  snapshot of a client without one, and the pages read from the log. The connection's
  lifetime of ten seconds, the heartbeat and the pauses between polls are left out.
\<close>

section \<open>The stream\<close>

text \<open>
  \<^verbatim>\<open>raw\<close> is the cursor of the request, \<open>None\<close> when it is missing or not a number;
  \<open>original\<close> are the jobs of the configuration store, which the reset adds.
\<close>

definition stream_cursor :: "int option \<Rightarrow> int" where
  "stream_cursor raw = (case raw of None \<Rightarrow> -1 | Some c \<Rightarrow> c)"

definition by_identifier :: "job_snapshot list \<Rightarrow> (string \<times> job_snapshot) list" where
  "by_identifier js = fold (\<lambda>j d. AList.update (job_identifier j) j d) js []"

definition with_original :: "job_snapshot list \<Rightarrow> (string \<times> job_snapshot) list \<Rightarrow> (string \<times> job_snapshot) list" where
  "with_original js d =
     fold (\<lambda>j d. if map_of d (job_identifier j) = None then d @ [(job_identifier j, j)] else d) js d"

definition stream_opening :: "job_snapshot list \<Rightarrow> int option \<Rightarrow> (service, nat \<times> job_snapshot list option) action" where
  "stream_opening original raw =
     (let cursor = stream_cursor raw in
      act_bind (if cursor < 0 then act_return True
                else act_bind (in_store latest_event) (\<lambda>n. act_return (int n < cursor))) (\<lambda>reset.
      if reset then
        act_bind (in_store latest_event) (\<lambda>n.
        act_bind require_storage (\<lambda>_.
        act_bind (in_store list_jobs) (\<lambda>js.
        act_return (n, Some (map snd (with_original original (by_identifier js)))))))
      else act_return (nat cursor, None)))"

definition stream_poll :: "nat \<Rightarrow> ('q job_store, job_event list \<times> nat) action" where
  "stream_poll cursor = act_bind (event_page cursor) (\<lambda>es.
     act_return (es, fold (\<lambda>e _. event_identifier e) es cursor))"

fun stream_polls :: "nat \<Rightarrow> nat \<Rightarrow> (service, job_event list) action" where
  "stream_polls 0 cursor = act_return []"
| "stream_polls (Suc n) cursor =
     act_bind require_storage (\<lambda>_.
     act_bind (in_store (stream_poll cursor)) (\<lambda>(es, next_cursor).
     act_bind (stream_polls n next_cursor) (\<lambda>rest. act_return (es @ rest))))"

section \<open>Pages of a valid log\<close>

lemma fold_last: "fold (\<lambda>e _. f e) es c = (if es = [] then c else f (last es))"
  by (induction es arbitrary: c) auto

lemma valid_log:
  assumes "store_valid s"
  shows "map fst (events s) = [1..<Suc (sequence s)]"
    and "(n, e) \<in> set (events s) \<Longrightarrow> event_identifier e = n"
  using assms unfolding store_valid_def by auto

lemma log_length: "store_valid s \<Longrightarrow> length (events s) = sequence s"
  using valid_log(1) [of s] by (metis diff_Suc_1 length_map length_upt)

lemma log_nth: "store_valid s \<Longrightarrow> k < sequence s \<Longrightarrow> fst (events s ! k) = Suc k"
  using valid_log(1) [of s] log_length [of s] by (metis nth_map nth_upt plus_1_eq_Suc Suc_less_eq less_diff_conv
      One_nat_def Suc_eq_plus1 add.commute)

lemma newer_events:
  assumes "store_valid s"
  shows "filter (\<lambda>(n, e). c < n) (events s) = drop c (events s)"
proof -
  have s: "sorted (map fst (events s))" using valid_log(1) [OF assms] by (simp only: sorted_upt)
  have split: "events s = take c (events s) @ drop c (events s)" by simp
  have lo: "n \<le> c" if "(n, e) \<in> set (take c (events s))" for n e
  proof -
    from that obtain k where "k < c" "k < sequence s" "events s ! k = (n, e)"
      by (auto simp: in_set_conv_nth log_length [OF assms])
    with log_nth [OF assms, of k] show ?thesis by simp
  qed
  have hi: "c < n" if "(n, e) \<in> set (drop c (events s))" for n e
  proof -
    from that obtain k where "k < sequence s - c" "events s ! (c + k) = (n, e)"
      by (auto simp: in_set_conv_nth log_length [OF assms])
    then have "c + k < sequence s" and "events s ! (c + k) = (n, e)" by simp_all
    with log_nth [OF assms, of "c + k"] show ?thesis by simp
  qed
  have "filter (\<lambda>(n, e). c < n) (take c (events s)) = []"
    using lo by (fastforce simp: filter_empty_conv)
  moreover have "filter (\<lambda>(n, e). c < n) (drop c (events s)) = drop c (events s)"
    using hi by (intro filter_True) auto
  ultimately show ?thesis by (metis append_Nil filter_append split)
qed

lemma page_eq:
  assumes "store_valid s" and "faults s = []"
  shows "event_page c s = (s, Inr (map snd (take page_size (drop c (events s)))))"
proof -
  have "sorted (map fst (drop c (events s)))"
    using valid_log(1) [OF assms(1)] by (metis drop_map sorted_upt sorted_wrt_drop)
  then have "sort_key fst (drop c (events s)) = drop c (events s)" by (rule sort_key_id_if_sorted)
  with assms newer_events [OF assms(1), of c] show ?thesis by (simp add: event_page_def connection_def)
qed

lemma last_identifier:
  assumes "store_valid s" and "k < sequence s"
  shows "event_identifier (snd (events s ! k)) = Suc k"
proof -
  have "k < length (events s)" using assms log_length [of s] by simp
  then have "events s ! k \<in> set (events s)" by (rule nth_mem)
  with valid_log(2) [OF assms(1)] log_nth [OF assms] show ?thesis by (metis prod.collapse)
qed

lemma poll_eq:
  assumes v: "store_valid s" and "faults s = []" and c: "c \<le> sequence s"
  shows "stream_poll c s = (s, Inr (map snd (take page_size (drop c (events s))), min (c + page_size) (sequence s)))"
proof -
  let ?es = "take page_size (drop c (events s))"
  have len: "length ?es = min page_size (sequence s - c)" using log_length [OF v] by simp
  have "fold (\<lambda>e _. event_identifier e) (map snd ?es) c = min (c + page_size) (sequence s)"
  proof (cases "?es = []")
    case True
    then have "length ?es = 0" by (simp only: list.size)
    then have "c = sequence s" using len c by (auto simp: page_size_def)
    moreover have "map snd ?es = []" using True by simp
    ultimately show ?thesis by (simp only: fold_simps id_apply)
  next
    case False
    then have l: "length ?es > 0" by simp
    have le: "length ?es \<le> sequence s - c" unfolding len by simp
    then have b: "c + (length ?es - 1) < sequence s" using l by linarith
    have i: "length ?es - 1 < length ?es" using l by linarith
    then have "length ?es - 1 < page_size" by (simp only: length_take min_less_iff_conj)
    then have "?es ! (length ?es - 1) = events s ! (c + (length ?es - 1))"
      using b log_length [OF v] by (simp only: nth_take) (simp only: nth_drop)
    then have "last ?es = events s ! (c + (length ?es - 1))" using last_conv_nth [OF False] by (simp only:)
    then have "event_identifier (snd (last ?es)) = Suc (c + (length ?es - 1))"
      using last_identifier [OF v b] by (simp only:)
    then have "fold (\<lambda>e _. event_identifier e) (map snd ?es) c = c + length ?es"
      using False l by (simp add: fold_last last_map)
    also have "\<dots> = min (c + page_size) (sequence s)" unfolding len using c by linarith
    finally show ?thesis .
  qed
  with page_eq [OF v assms(2)] show ?thesis by (simp add: stream_poll_def)
qed

lemma polls_eq:
  assumes v: "store_valid (store s)" and f: "faults (store s) = []" and p: "\<not> persistence_failed s"
  shows "c \<le> sequence (store s) \<Longrightarrow>
    stream_polls n c s = (s, Inr (map snd (take (n * page_size) (drop c (events (store s))))))"
proof (induction n arbitrary: c)
  case 0
  then show ?case by simp
next
  case (Suc n)
  let ?es = "events (store s)"
  let ?d = "min (c + page_size) (sequence (store s))"
  have d: "drop ?d ?es = drop page_size (drop c ?es)"
    using log_length [OF v] by (cases "c + page_size \<le> sequence (store s)") (simp_all add: add.commute)
  have "take (page_size + n * page_size) (drop c ?es)
      = take page_size (drop c ?es) @ take (n * page_size) (drop page_size (drop c ?es))"
    by (rule take_add)
  moreover have "require_storage s = (s, Inr ())" using p by (simp add: require_storage_def)
  moreover have "in_store (stream_poll c) s = (s, Inr (map snd (take page_size (drop c ?es)), ?d))"
    using poll_eq [OF v f Suc.prems] by (simp add: in_store_def)
  ultimately show ?case using Suc.IH [of ?d] d by simp
qed

text \<open>
  A client that polls from its cursor receives every later event of the log, in order
  and exactly once, after as many polls as the rest of the log has pages of 200 events;
  fewer polls deliver a prefix of it, and polling never changes the service.
\<close>

lemma stream_delivers_log:
  assumes "store_valid (store s)" and "faults (store s) = []" and "\<not> persistence_failed s" and "c \<le> sequence (store s)"
  shows "stream_polls n c s = (s, Inr (take (n * page_size) (map snd (filter (\<lambda>(k, e). c < k) (events (store s)))))) \<and>
    (sequence (store s) - c \<le> n * page_size \<longrightarrow>
       stream_polls n c s = (s, Inr (map snd (filter (\<lambda>(k, e). c < k) (events (store s))))))"
  using polls_eq [OF assms, of n] log_length [OF assms(1)] newer_events [OF assms(1)]
  by (simp add: take_map)

end
