(* ===== verification/JobProperties.thy ===== *)
theory JobProperties
  imports JobRetries JobEvents
begin

text \<open>
  The properties of the job supervisor, each with a witness on a concrete run: a decode
  job is submitted to a started service, taken by the scheduler, or interrupted by a
  shutdown.
\<close>

section \<open>A concrete run\<close>

definition demo_outside :: outside where
  "demo_outside = \<lparr>json_digest = (\<lambda>_. ''digest''), secret_digest = (\<lambda>_. ''mac''), dump_workflow = (\<lambda>_. []),
     dump_fetch = (\<lambda>_. []), dump_record = (\<lambda>_. []), dump_action = (\<lambda>_ _. [])\<rparr>"

definition demo_request :: inference_request where
  "demo_request = \<lparr>inference_client = ''c'', image_reference = ''i'', requested_model = ''m'',
     request_message = None, request_password = [112]\<rparr>"

definition demo_image :: stored_image where
  "demo_image = \<lparr>purpose = Encoded_Image, prepared_width = 512, prepared_height = 512\<rparr>"

definition demo_model :: installed_model where
  "demo_model = \<lparr>installed_compatibility = ''x'', minimum_side = 512, maximum_side = 1024\<rparr>"

definition demo_record :: inference_record where
  "demo_record = \<lparr>record_operation = Decode, record_image = ''i'', record_model = ''m'',
     message_byte_count = 0, record_width = 512, record_height = 512\<rparr>"

definition demo_job :: job_snapshot where
  "demo_job = (new_job 1 ''a'' Decode None [])\<lparr>latest_event_identifier := Some 1\<rparr>"

definition demo_started :: service where
  "demo_started = (first_service [])\<lparr>owned := True, thread := Polling\<rparr>"

definition demo_tables :: "stored_request job_store" where
  "demo_tables = \<lparr>jobs = [(''job_a'', demo_job, Inference demo_record)], events = [(1, make_event 1 demo_job)],
     sequence = 1, mutations = [(''c'', ''digest'', ''job_a'')], faults = []\<rparr>"

definition demo_submitted :: service where
  "demo_submitted = demo_started\<lparr>store := demo_tables, waiting_secrets := [(''job_a'', [(''password'', [112])])]\<rparr>"

lemmas demo_defs = demo_outside_def demo_request_def demo_image_def demo_model_def

lemma demo_start: "start True True 0 (first_service []) = (demo_started, Inr ())"
  by (simp add: demo_started_def start_def interrupt_unfinished_def in_store_def list_jobs_def connection_def
      first_service_def new_service_def empty_store_def snapshots_def)

lemma demo_admitted: "admit_inference (Inr demo_image) (Inr demo_model) demo_request = Inr demo_record"
  by (simp add: admit_inference_def demo_defs demo_record_def request_operation_def check_model_range_def
      password_bytes_def encode_point_def is_scalar_def inference_record_valid_def maximum_message_size_def)

lemma demo_store: "store demo_started = empty_store" "closing demo_started = False"
    "persistence_failed demo_started = False" "attached demo_started = True" "waiting_secrets demo_started = []"
    "thread demo_started = Polling"
  by (simp_all add: demo_started_def first_service_def new_service_def empty_store_def)

lemma demo_reads:
  "in_store (replay ''c'' fp) demo_started = (demo_started, Inr None)"
  "in_store list_jobs demo_started = (demo_started, Inr [])"
  by (simp_all add: in_store_def demo_started_def first_service_def new_service_def empty_store_def replay_def
      list_jobs_def connection_def snapshots_def)

lemma demo_accept:
  "accept_job (new_job 1 ''a'' Decode None []) (Inference demo_record) (''c'', ''digest'') demo_started
    = (demo_started\<lparr>store := demo_tables\<rparr>, Inr demo_job)"
  by (simp add: accept_job_def snapshot_valid_def new_job_def in_store_def save_def connection_def demo_store
      empty_store_def clashes_def write_rows_def stamped_def demo_tables_def demo_job_def Let_def)

lemma demo_submit:
  "submit_inference demo_outside 1 ''a'' (Inr demo_image) (Inr demo_model) demo_request demo_started
    = (demo_submitted, Inr demo_job)"
proof -
  have r: "request_secrets demo_request = [(''password'', [112])]"
    by (simp add: demo_request_def request_secrets_def)
  have j: "job_identifier demo_job = ''job_a''" by (simp add: demo_job_def new_job_def)
  have c: "inference_client demo_request = ''c''" by (simp add: demo_request_def)
  have o: "json_digest demo_outside x = ''digest''" "dump_record demo_outside y = []" "record_operation demo_record = Decode" for x y
    by (simp_all add: demo_outside_def demo_record_def)
  show ?thesis
    unfolding submit_inference_def Let_def answered_def unless_closing_def
    by (simp add: require_storage_def require_inference_def act_bind_def [of require_storage]
        act_bind_def [of require_inference] demo_store demo_reads demo_admitted c o r j demo_accept maximum_inference_jobs_def
        in_secrets_def put_secrets_def secret_size_def encoded_size_def maximum_secret_bytes_def demo_submitted_def)
qed

lemma demo_reachable: "reachable demo_outside demo_started" "reachable demo_outside demo_submitted"
proof -
  have "reachable demo_outside (first_service [])" by (rule reachable.first)
  then show s: "reachable demo_outside demo_started"
    by (rule reachable.step) (rule service_step.started [OF _ demo_start], simp add: first_service_def new_service_def)
  show "reachable demo_outside demo_submitted"
    by (rule reachable.step [OF s]) (rule service_step.inference_submitted [OF _ demo_submit], simp add: demo_store)
qed

section \<open>Refinement and lifecycle\<close>

text \<open>
  C17: whatever requests, scheduler sections, storage failures, shutdowns and restarts are
  interleaved, the supervisor refines the queue of \<open>JobQueue\<close>: a reachable service stands
  for a reachable queue, and each further step is matched by steps of that queue. The shutdown
  may reconcile the queue while the scheduler still works, because its joins time out; the
  queue has that step, and the later outcome of the job that was interrupted meanwhile.
\<close>

theorem supervisor_refines_queue:
  assumes "reachable lib s" and "service_step lib s t"
  shows "queue_run empty_queue (queue_of s) \<and> queue_run (queue_of s) (queue_of t)"
  using reachable_queue [OF assms(1)] step_in_order(2) [OF reachable_in_order [OF assms(1)] assms(2)] by blast

theorem supervisor_refines_queue_witness:
  "queue_run empty_queue (queue_of demo_started) \<and> queue_run (queue_of demo_started) (queue_of demo_submitted)"
proof (rule supervisor_refines_queue [OF demo_reachable(1)])
  show "service_step demo_outside demo_started demo_submitted"
    by (rule service_step.inference_submitted [OF _ demo_submit]) (simp add: demo_store)
qed

text \<open>
  C18: a job that is completed, stopped, cancelled, failed or interrupted keeps that status
  and its operation for good, over every later step and restart. The one exception is a job
  that a shutdown marked as interrupted while the scheduler was still working on it: until the
  scheduler leaves it, or the process ends, its outcome may be written over that status.
\<close>

theorem finished_jobs_stay_finished:
  assumes "reachable lib s" and "(service_step lib)\<^sup>*\<^sup>* s t"
    and "lookup_job i (store s) = Some j" and "status j \<in> {Stopped, Completed, Cancelled, Failed, Interrupted}"
    and "status j = Interrupted \<longrightarrow> \<not> works_on s i"
  shows "\<exists>k. lookup_job i (store t) = Some k \<and> status k = status j \<and> operation k = operation j"
proof -
  have "settled (queue_of s) i (operation j) (status j)"
    using assms(3-5) by (simp add: settled_def view_def closed_status_def claimed_queue)
  from run_keeps_settled [OF run_refines [OF assms(2) reachable_in_order [OF assms(1)]] this]
  have "view t i = Some (operation j, status j)" by (simp add: settled_def)
  then show ?thesis by (auto simp: view_def)
qed

text \<open>The demonstration job is cancelled by its user.\<close>

definition demo_cancelled :: job_snapshot where
  "demo_cancelled = demo_job\<lparr>requested_action := Some Cancel, available_actions := [], status := Cancelled,
     phase := ''cancelled'', updated_at := 5, latest_event_identifier := Some 2\<rparr>"

definition demo_after_cancel :: service where
  "demo_after_cancel = demo_submitted\<lparr>waiting_secrets := [], store := demo_tables\<lparr>
     jobs := [(''job_a'', demo_cancelled, Inference demo_record)],
     events := [(1, make_event 1 demo_job), (2, make_event 2 demo_cancelled)], sequence := 2,
     mutations := [(''c'', ''digest'', ''job_a''), (''d'', ''digest'', ''job_a'')]\<rparr>\<rparr>"

lemma demo_submitted_fields:
  "store demo_submitted = demo_tables" "closing demo_submitted = False" "persistence_failed demo_submitted = False"
  "attached demo_submitted = True" "waiting_secrets demo_submitted = [(''job_a'', [(''password'', [112])])]"
  "thread demo_submitted = Polling"
  by (simp_all add: demo_submitted_def demo_store demo_started_def first_service_def new_service_def)

lemma demo_cancel:
  "act_on_job demo_outside 5 (Inr []) ''job_a'' ''d'' Cancel demo_submitted = (demo_after_cancel, Inr demo_cancelled)"
proof -
  have rp: "in_store (replay ''d'' fp) demo_submitted = (demo_submitted, Inr None)" for fp
    by (simp add: in_store_def replay_def connection_def demo_submitted_def demo_tables_def demo_started_def)
  have g: "in_store (get_job ''job_a'') demo_submitted = (demo_submitted, Inr demo_job)"
    by (simp add: in_store_def get_job_def connection_def demo_submitted_def demo_tables_def lookup_job_def)
  have f: "is_fetch demo_job = False" "status demo_job = Queued" "Cancel \<in> set (available_actions demo_job)"
    by (simp_all add: demo_job_def new_job_def is_fetch_def)
  have c: "change 5 (Some (''d'', ''digest'')) (\<lambda>j. requested Cancel j\<lparr>status := Cancelled, phase := ''cancelled''\<rparr>)
      demo_job demo_submitted = (demo_after_cancel\<lparr>waiting_secrets := [(''job_a'', [(''password'', [112])])]\<rparr>, Inr demo_cancelled)"
    by (simp add: change_def Let_def requested_def snapshot_valid_def demo_job_def new_job_def in_store_def save_def
        connection_def demo_submitted_def demo_tables_def clashes_def write_rows_def update_payload_def stamped_def
        demo_after_cancel_def demo_cancelled_def demo_started_def first_service_def new_service_def numeral_2_eq_2)
  have o: "json_digest demo_outside x = ''digest''" for x by (simp add: demo_outside_def)
  have k: "status demo_cancelled = Cancelled" by (simp add: demo_cancelled_def)
  have a: "attached (demo_after_cancel\<lparr>waiting_secrets := w\<rparr>)" for w
    by (simp add: demo_after_cancel_def demo_submitted_fields)
  have d: "in_secrets (discard_secrets ''job_a'') (demo_after_cancel\<lparr>waiting_secrets := [(''job_a'', [(''password'', [112])])]\<rparr>)
      = (demo_after_cancel, Inr ())"
    by (simp add: in_secrets_def discard_secrets_def demo_after_cancel_def)
  show ?thesis
    unfolding act_on_job_def Let_def answered_def
    by (simp add: require_storage_def act_bind_def [of require_storage] demo_submitted_fields rp g f o
        action_changes_def c k a d)
qed

lemma demo_reachable_cancel: "reachable demo_outside demo_after_cancel"
  by (rule reachable.step [OF demo_reachable(2)], rule service_step.acted [OF _ demo_cancel])
    (simp add: demo_submitted_fields)

theorem finished_jobs_stay_finished_witness:
  "\<exists>k. lookup_job ''job_a'' (store (begin_close 9 demo_after_cancel)) = Some k \<and>
     status k = Cancelled \<and> operation k = Decode"
proof -
  have j: "lookup_job ''job_a'' (store demo_after_cancel) = Some demo_cancelled"
    by (simp add: lookup_job_def demo_after_cancel_def)
  have s: "status demo_cancelled = Cancelled" "operation demo_cancelled = Decode"
    by (simp_all add: demo_cancelled_def demo_job_def new_job_def)
  have "(service_step demo_outside)\<^sup>*\<^sup>* demo_after_cancel (begin_close 9 demo_after_cancel)"
    by (rule r_into_rtranclp) (rule service_step.close_begun)
  from finished_jobs_stay_finished [OF demo_reachable_cancel this j] s show ?thesis by simp
qed

text \<open>
  C19: in every reachable state at most one job is running, at most one dataset fetch is
  queued, running or paused, at most eight encode and decode jobs are queued or running,
  and no fetch is active while unused downloads are being removed.
\<close>

theorem queue_stays_bounded:
  assumes "reachable lib s"
  shows "(\<forall>i j k l. lookup_job i (store s) = Some j \<and> lookup_job k (store s) = Some l \<and>
            (status j = Running \<and> status l = Running \<or> active_fetch j \<and> active_fetch l) \<longrightarrow> i = k) \<and>
    card {i. \<exists>j. lookup_job i (store s) = Some j \<and> waiting_inference j} \<le> 8 \<and>
    (cleanup_running s \<longrightarrow> (\<forall>i j. lookup_job i (store s) = Some j \<longrightarrow> \<not> active_fetch j))"
proof -
  have ok: "queue_ok (queue_of s)" using reachable_in_order [OF assms] by (simp add: in_order_def)
  have r: "i \<in> running (queue_of s)" if "lookup_job i (store s) = Some j" "status j = Running" for i j
    using that by (auto simp: running_def view_def)
  have f: "i \<in> fetching (queue_of s)" if "lookup_job i (store s) = Some j" "active_fetch j" for i j
    using that by (auto simp: fetching_def view_def active_fetch_def is_fetch_def)
  have "\<exists>i. running (queue_of s) \<subseteq> {i}"
    using ok by (auto simp: queue_ok_def single_worker_def split: stage.splits)
  moreover have "\<forall>i \<in> fetching (queue_of s). \<forall>k \<in> fetching (queue_of s). i = k"
    and "cleanup_running s \<longrightarrow> fetching (queue_of s) = {}"
    using ok by (simp_all add: queue_ok_def single_fetch_def)
  moreover have "{i. \<exists>j. lookup_job i (store s) = Some j \<and> waiting_inference j} = waiting (queue_of s)"
    by (auto simp: waiting_def view_def waiting_inference_def is_inference_def)
  moreover have "card (waiting (queue_of s)) \<le> 8" using ok by (simp add: queue_ok_def bounded_waiting_def)
  ultimately show ?thesis using r f by (metis empty_iff singletonD subsetD)
qed

theorem queue_stays_bounded_witness:
  "card {i. \<exists>j. lookup_job i (store demo_submitted) = Some j \<and> waiting_inference j} \<le> 8"
  using queue_stays_bounded [OF demo_reachable(2)] by blast

section \<open>Secrets\<close>

text \<open>
  C20: when the scheduler begins an encode or decode job, the secrets submitted for it are
  in memory: the job takes them, exactly once, or the database has failed. The failure that
  reports lost inputs does not occur in a reachable state.
\<close>

theorem begun_inference_has_its_secrets:
  assumes "reachable lib s" and "thread s = Starting i" and "lookup_job i (store s) = Some j" and "is_inference j"
  shows "\<exists>sec t. dict_get (waiting_secrets s) i = Some sec \<and>
    (begin_job checked resolved i s = (t, Inl Storage_Failure) \<and> waiting_secrets t = waiting_secrets s \<or>
     (\<exists>r. begin_job checked resolved i s = (t, Inr (Inference_Task r sec 0)) \<and> dict_get (waiting_secrets t) i = None))"
proof -
  have o: "well_kept s" "queue_ok (queue_of s)" using reachable_in_order [OF assms(1)] by (simp_all add: in_order_def)
  have v: "view s i = Some (operation j, status j)" using assms(3) by (simp add: view_def)
  have inf: "inference_operation (operation j)" using assms(4) by (simp add: is_inference_def)
  from begin_inference [OF o assms(2) v inf, of checked resolved] obtain sec u r
    where d: "dict_get (waiting_secrets s) i = Some sec" and u: "quiet s u"
    and b: "begin_job checked resolved i s = (u, Inl Storage_Failure) \<or>
      begin_job checked resolved i s = (u\<lparr>waiting_secrets := AList.delete i (waiting_secrets s)\<rparr>, Inr (Inference_Task r sec 0))"
    by blast
  have "waiting_secrets u = waiting_secrets s" using quiet_fields [OF u] by simp
  moreover have "dict_get (AList.delete i (waiting_secrets s)) i = None" by simp
  ultimately show ?thesis using d b by fastforce
qed

definition demo_running :: job_snapshot where
  "demo_running = demo_job\<lparr>status := Running, phase := ''preparing'', available_actions := [],
     updated_at := 2, latest_event_identifier := Some 2\<rparr>"

definition demo_starting :: service where
  "demo_starting = demo_submitted\<lparr>active_job := Some ''job_a'', thread := Starting ''job_a'', store := demo_tables\<lparr>
     jobs := [(''job_a'', demo_running, Inference demo_record)],
     events := [(1, make_event 1 demo_job), (2, make_event 2 demo_running)], sequence := 2\<rparr>\<rparr>"

lemma demo_poll: "poll False 2 demo_submitted = demo_starting"
proof -
  have l: "in_store list_jobs demo_submitted = (demo_submitted, Inr [demo_job])"
    by (simp add: in_store_def list_jobs_def connection_def demo_submitted_def demo_tables_def snapshots_def)
  have r: "runnable False demo_job" "initial_running_actions demo_job = []" "job_identifier demo_job = ''job_a''"
    by (simp_all add: demo_job_def new_job_def runnable_def initial_running_actions_def is_fetch_def)
  have c: "change 2 None (\<lambda>j. j\<lparr>status := Running, phase := ''preparing'', available_actions := []\<rparr>)
      demo_job demo_submitted = (demo_starting\<lparr>active_job := None, thread := Polling\<rparr>, Inr demo_running)"
    by (simp add: change_def Let_def snapshot_valid_def demo_job_def new_job_def in_store_def save_def
        connection_def demo_submitted_def demo_tables_def clashes_def write_rows_def update_payload_def stamped_def
        demo_starting_def demo_running_def demo_started_def first_service_def new_service_def numeral_2_eq_2)
  show ?thesis
    by (simp add: poll_def next_job_def l r c) (simp add: demo_starting_def)
qed

lemma demo_reachable_starting: "reachable demo_outside demo_starting"
  using reachable.step [OF demo_reachable(2) service_step.polled, of False 2] demo_submitted_fields demo_poll by simp

theorem begun_inference_has_its_secrets_witness:
  "\<exists>sec. dict_get (waiting_secrets demo_starting) ''job_a'' = Some sec \<and> sec = [(''password'', [112])]"
proof -
  have t: "thread demo_starting = Starting ''job_a''" by (simp add: demo_starting_def)
  have j: "lookup_job ''job_a'' (store demo_starting) = Some demo_running" "is_inference demo_running"
    by (simp_all add: demo_starting_def lookup_job_def demo_running_def demo_job_def new_job_def is_inference_def)
  from begun_inference_has_its_secrets [OF demo_reachable_starting t j, of "Inl Value_Error" "Inr ()"]
  show ?thesis by (auto simp: demo_starting_def demo_submitted_def)
qed

section \<open>Refused requests\<close>

lemma act_refused:
  assumes run: "act_on_job lib now listed i client a s = (t, Inl e)" and kept: "well_kept s"
  shows "jobs (store t) = jobs (store s) \<and> events (store t) = events (store s) \<and>
    mutations (store t) = mutations (store s) \<and> waiting_secrets t = waiting_secrets s"
proof (cases "persistence_failed s")
  case True
  with run have "t = s" by (simp add: act_on_job_def require_storage_def Let_def act_bind_def [of require_storage])
  then show ?thesis by simp
next
  case False
  let ?fp = "action_fingerprint lib i client a"
  define changes where "changes = (\<lambda>job. if is_fetch job then fetch_action_changes listed job a
                    else act_lift (action_changes job a))"
  define body where "body = act_bind (in_store (get_job i)) (\<lambda>job.
        if a \<notin> set (available_actions job) then act_raise action_unavailable
        else act_bind (changes job) (\<lambda>f.
          act_bind (change now (Some (client, ?fp)) f job) (\<lambda>changed.
          act_bind act_get (\<lambda>s.
          if status changed = Cancelled \<and> attached s
          then act_bind (in_secrets (discard_secrets i)) (\<lambda>_. act_return changed)
          else act_return changed))))"
  have tables: "jobs (store v) = jobs (store u) \<and> events (store v) = events (store u) \<and>
      mutations (store v) = mutations (store u) \<and> waiting_secrets v = waiting_secrets u" if "quiet u v" for u v
    using quiet_fields [OF that] by simp
  from False run have "answered client ?fp body s = (t, Inl e)"
    unfolding act_on_job_def Let_def body_def changes_def action_fingerprint_def
    by (simp add: require_storage_def act_bind_def [of require_storage])
  from answered_cases [OF this kept] show ?thesis
  proof (elim disjE exE conjE)
    fix u assume u: "quiet s u" and b: "body u = (t, Inl e)"
    obtain v w where g: "in_store (get_job i) u = (v, w)" by fastforce
    have v: "quiet s v" using quiet_trans [OF u in_get_job(1) [OF g]] .
    have kept': "store x = store y \<and> waiting_secrets x = waiting_secrets y"
      if "changes job y = (x, z)" for job x y z
      using that unfolding changes_def
      by (auto simp: fetch_action_changes_def discard_partials_def split: if_splits)
    have untouched: "quiet x y" if "change now m f job x = (y, Inl z)" for m f job x y z
    proof (cases "snapshot_valid ((f job)\<lparr>updated_at := now\<rparr>)")
      case False
      with that show ?thesis by (simp add: change_def Let_def)
    next
      case True
      with that obtain st where "save ((f job)\<lparr>updated_at := now\<rparr>) None m (store x) = (st, Inl z)"
        and y: "y = x\<lparr>store := st\<rparr>"
        by (auto simp: change_def Let_def in_store_def split: prod.splits)
      from save_row_effect [OF this(1)] show ?thesis unfolding y by (auto intro: quiet_in_store)
    qed
    have late: "act_bind act_get (\<lambda>s. if status changed = Cancelled \<and> attached s
          then act_bind (in_secrets (discard_secrets i)) (\<lambda>_. act_return changed)
          else act_return changed) y \<noteq> (t, Inl e)" for changed y
      by (simp add: in_secrets_def discard_secrets_def act_bind_def)
    have "t = v \<or> (\<exists>job x z. changes job v = (x, z) \<and> (t = x \<or> quiet x t))"
    proof (cases w)
      case (Inl z)
      with b g show ?thesis by (simp add: body_def)
    next
      case (Inr job)
      show ?thesis
      proof (cases "a \<in> set (available_actions job)")
        case False
        with b g Inr show ?thesis by (simp add: body_def)
      next
        case True
        obtain x z where c: "changes job v = (x, z)" by fastforce
        show ?thesis
        proof (cases z)
          case (Inl e')
          with b g \<open>w = Inr job\<close> True c have "t = x" by (simp add: body_def)
          with c show ?thesis by blast
        next
          case z: (Inr f)
          obtain y r where ch: "change now (Some (client, ?fp)) f job x = (y, r)" by fastforce
          show ?thesis
          proof (cases r)
            case (Inl e')
            with b g \<open>w = Inr job\<close> True c z ch have "t = y" by (simp add: body_def)
            with c untouched [OF ch [unfolded Inl]] show ?thesis by blast
          next
            case r: (Inr changed)
            have "body u = act_bind (changes job) (\<lambda>f.
                act_bind (change now (Some (client, ?fp)) f job) (\<lambda>changed.
                act_bind act_get (\<lambda>s. if status changed = Cancelled \<and> attached s
                  then act_bind (in_secrets (discard_secrets i)) (\<lambda>_. act_return changed)
                  else act_return changed))) v"
              using g \<open>w = Inr job\<close> True by (simp add: body_def)
            also have "\<dots> = act_bind act_get (\<lambda>s. if status changed = Cancelled \<and> attached s
                  then act_bind (in_secrets (discard_secrets i)) (\<lambda>_. act_return changed)
                  else act_return changed) y"
              unfolding act_bind_def by (simp only: c [unfolded z] ch [unfolded r] prod.case sum.case)
            finally show ?thesis using b late [of changed y] by argo
          qed
        qed
      qed
    qed
    then show ?thesis
    proof (elim disjE exE conjE)
      assume "t = v"
      with tables [OF v] show ?thesis by simp
    next
      fix job x z assume "changes job v = (x, z)" and "t = x"
      with kept' [of job v x z] tables [OF v] show ?thesis by simp
    next
      fix job x z assume "changes job v = (x, z)" and q: "quiet x t"
      with kept' [of job v x z] tables [OF v] tables [OF q] show ?thesis by simp
    qed
  next
    assume "repeated client ?fp s t (Inl e)"
    then have "quiet s t" by (simp add: repeated_def)
    from tables [OF this] show ?thesis .
  qed
qed

text \<open>
  C21: a refused submission or action leaves no trace: no job, event or recorded mutation is
  written and no secret is kept, whatever the reason of the refusal.
\<close>

theorem refused_mutation_writes_nothing:
  assumes "reachable lib s" and "endpoint lib q s = (t, Inl e)"
  shows "jobs (store t) = jobs (store s) \<and> events (store t) = events (store s) \<and>
    mutations (store t) = mutations (store s) \<and> waiting_secrets t = waiting_secrets s"
proof -
  have k: "well_kept s" and ok: "queue_ok (queue_of s)"
    using reachable_in_order [OF assms(1)] by (simp_all add: in_order_def)
  have rep: "quiet s t" if "repeated c fp s t r" for c fp r using that by (simp add: repeated_def)
  show ?thesis
  proof (cases q)
    case (Submit_Workflow now uuid checked resolved w)
    show ?thesis
    proof (cases "workflow_request_valid w")
      case True
      with Submit_Workflow assms(2) have "submit lib now uuid checked resolved w s = (t, Inl e)" by simp
      from submit_effect [OF this k True] rep quiet_fields show ?thesis by blast
    next
      case False
      with Submit_Workflow assms(2) show ?thesis by simp
    qed
  next
    case (Submit_Fetch now uuid session w)
    with assms(2) have "submit_fetch lib now uuid session w s = (t, Inl e)" by simp
    from submit_fetch_effect [OF this k] rep quiet_fields show ?thesis by blast
  next
    case (Submit_Inference now uuid rd rs w)
    with assms(2) have "submit_inference lib now uuid rd rs w s = (t, Inl e)" by simp
    from submit_inference_effect [OF this k ok] rep quiet_fields show ?thesis by blast
  next
    case (Act_On_Job now listed i client a)
    with assms(2) have "act_on_job lib now listed i client a s = (t, Inl e)" by simp
    from act_refused [OF this k] show ?thesis .
  qed
qed

theorem refused_mutation_writes_nothing_witness:
  "jobs (store (fst (endpoint demo_outside (Act_On_Job 5 (Inr []) ''job_b'' ''d'' Cancel) demo_submitted)))
     = jobs (store demo_submitted)"
proof -
  have "endpoint demo_outside (Act_On_Job 5 (Inr []) ''job_b'' ''d'' Cancel) demo_submitted
      = (demo_submitted, Inl job_not_found)"
  proof -
    have rp: "in_store (replay ''d'' fp) demo_submitted = (demo_submitted, Inr None)" for fp
      by (simp add: in_store_def replay_def connection_def demo_submitted_def demo_tables_def demo_started_def)
    have g: "in_store (get_job ''job_b'') demo_submitted = (demo_submitted, Inl job_not_found)"
      by (simp add: in_store_def get_job_def connection_def demo_submitted_def demo_tables_def lookup_job_def)
    show ?thesis unfolding endpoint.simps act_on_job_def Let_def answered_def
      by (simp add: require_storage_def act_bind_def [of require_storage] demo_submitted_fields rp g)
  qed
  with refused_mutation_writes_nothing [OF demo_reachable(2) this] show ?thesis by simp
qed

section \<open>Retries\<close>




section \<open>The event log\<close>

text \<open>
  C23: the event log alone rebuilds the catalogue. In every reachable state its identifiers are
  1, 2, and so on without a gap, and each job row equals the snapshot of the job's last event.
\<close>

theorem event_log_rebuilds_jobs:
  assumes "reachable lib s"
  shows "map fst (events (store s)) = [1..<Suc (sequence (store s))] \<and>
    (\<forall>i. lookup_job i (store s) = log_latest (events (store s)) i)"
proof -
  have "store_valid (store s)" using reachable_in_order [OF assms] by (simp add: in_order_def well_kept_def)
  then show ?thesis unfolding store_valid_def by blast
qed

theorem event_log_rebuilds_jobs_witness:
  "log_latest (events (store demo_after_cancel)) ''job_a'' = Some demo_cancelled"
proof -
  have "lookup_job ''job_a'' (store demo_after_cancel) = Some demo_cancelled"
    by (simp add: lookup_job_def demo_after_cancel_def)
  with event_log_rebuilds_jobs [OF demo_reachable_cancel] show ?thesis by simp
qed

section \<open>Order of execution\<close>

text \<open>The first job of a list that satisfies a condition comes before the others that do.\<close>

lemma find_sorted_least:
  fixes key :: "'a \<Rightarrow> 'b::linorder"
  assumes "List.find P (sort_key key xs) = Some x"
  shows "x \<in> set xs \<and> P x \<and> (\<forall>y \<in> set xs. P y \<longrightarrow> key x \<le> key y)"
proof -
  let ?ys = "sort_key key xs"
  obtain n where n: "n < length ?ys" "P (?ys ! n)" "x = ?ys ! n" "\<forall>m < n. \<not> P (?ys ! m)"
    using assms unfolding find_Some_iff by metis
  have s: "sorted (map key ?ys)" by simp
  have "key x \<le> key y" if y: "y \<in> set xs" "P y" for y
  proof -
    from y(1) have "y \<in> set ?ys" by simp
    then obtain k where k: "k < length ?ys" "?ys ! k = y" by (meson in_set_conv_nth)
    with y(2) n(4) have "n \<le> k" by (metis not_le)
    with sorted_nth_mono [OF s this] k n show ?thesis by simp
  qed
  moreover have "x \<in> set xs" using n(1,3) nth_mem [of n ?ys] by simp
  ultimately show ?thesis using n(2,3) by simp
qed

text \<open>
  C24: jobs start in the order they were created. When the scheduler takes a job, that job is
  queued and allowed to run, and no other job that may run was created earlier; jobs created
  at the same moment are taken in the order of their identifiers.
\<close>

theorem oldest_job_is_taken:
  assumes "reachable lib s" and "thread s = Polling" and "thread (poll locked now s) = Starting i"
  shows "\<exists>j. lookup_job i (store s) = Some j \<and> runnable locked j \<and>
    (\<forall>k l. lookup_job k (store s) = Some l \<and> runnable locked l \<longrightarrow>
       (created_at j, job_identifier j) \<le> (created_at l, job_identifier l))"
proof -
  have k: "well_kept s" using reachable_in_order [OF assms(1)] by (simp add: in_order_def)
  obtain u q where l: "in_store list_jobs s = (u, q)" by fastforce
  have th: "thread u = Polling"
    using l assms(2) by (auto simp: in_store_def split: prod.splits)
  have ch: "thread x = thread y" if "change n m f job y = (x, r)" for n m f job x y r
    using that by (auto simp: change_def Let_def in_store_def split: if_splits prod.splits)
  from assms(3) l th obtain js j where q: "q = Inr js" and f: "List.find (runnable locked) js = Some j"
    and i: "job_identifier j = i"
    by (auto simp: poll_def next_job_def act_bind_def [of "in_store list_jobs"] act_bind_def [of "change n m g b" for n m g b]
        halt_for_storage_def split: prod.splits sum.splits option.splits dest: ch)
  from l q obtain v ks where v: "connection (act_bind act_get (\<lambda>s. act_return (snapshots s))) (store s) = (v, Inr ks)"
    and js: "js = sort_key (\<lambda>j. (created_at j, job_identifier j)) ks"
    unfolding in_store_def list_jobs_def
    by (cases "connection (act_bind act_get (\<lambda>s. act_return (snapshots s))) (store s)")
      (auto simp: act_bind_def [of "connection b" for b] split: sum.splits)
  note least = find_sorted_least [OF f [unfolded js]]
  note found = listed_jobs [OF k l]
  have kjs: "set ks = set js" using js by simp
  have sv: "store_valid (store s)" using k by (simp add: well_kept_def)
  have "j \<in> set js" using least kjs by simp
  then have "j \<in> set (snapshots (store s))"
    using in_list_jobs(2) [OF l q] by (metis mset_eq_setD)
  then obtain r where r: "(job_identifier j, j, r) \<in> set (jobs (store s))"
    using sv unfolding store_valid_def snapshots_def by auto
  have "distinct (map fst (jobs (store s)))" using sv unfolding store_valid_def by blast
  then have "lookup_job i (store s) = Some j" using r i by (simp add: lookup_job_def)
  moreover have "l \<in> set ks" if "lookup_job k (store s) = Some l" for k l
    using found(4) [OF q that] kjs by simp
  ultimately show ?thesis using least by blast
qed

theorem oldest_job_is_taken_witness:
  "\<exists>j. lookup_job ''job_a'' (store demo_submitted) = Some j \<and> runnable False j"
proof -
  have "thread (poll False 2 demo_submitted) = Starting ''job_a''"
    unfolding demo_poll by (simp add: demo_starting_def)
  from oldest_job_is_taken [OF demo_reachable(2) demo_submitted_fields(6) this] show ?thesis by blast
qed

section \<open>Restart and shutdown\<close>

text \<open>
  C25: no job is left queued or running across processes. A service that starts, and an owner
  that closes without a database failure, turn every queued and running job into an
  interrupted one, even where the scheduler outlived the wait of the shutdown, and leave the
  status of the others (paused jobs, jobs that need input, finished jobs) as it is.
\<close>

theorem reconciliation_leaves_no_unfinished_job:
  assumes "reachable lib s" and "lookup_job i (store t) = Some j"
    and "thread s = Absent \<and> start lock_opened free now s = (t, Inr ()) \<or>
      closing s \<and> owned s \<and> t = finish_close now s \<and> \<not> persistence_failed t"
  shows "status j \<notin> {Queued, Running} \<and>
    (\<exists>l. lookup_job i (store s) = Some l \<and> operation j = operation l \<and>
       status j = (if status l \<in> {Queued, Running} then Interrupted else status l))"
proof -
  let ?reconciled = "\<lambda>s t. view t i = map_option (\<lambda>(op, st). (op, reconciled_status st)) (view s i)"
  have k: "well_kept s" using reachable_in_order [OF assms(1)] by (simp add: in_order_def)
  have v: "view t i = Some (operation j, status j)" using assms(2) by (simp add: view_def)
  from assms(3) have "?reconciled s t"
  proof (elim disjE conjE)
    assume a: "thread s = Absent" and run: "start lock_opened free now s = (t, Inr ())"
    let ?s = "s\<lparr>owned := True\<rparr>"
    from run obtain u where u: "interrupt_unfinished now ?s = (u, Inr ())" and t: "t = u\<lparr>thread := Polling\<rparr>"
      by (auto simp: start_def act_bind_Inr split: if_splits)
    have "?reconciled ?s u"
      using interrupt_unfinished_effect [OF _ _ u] k a by (simp add: reconcilable_def)
    with t show ?thesis by (simp add: view_def)
  next
    assume e: "closing s" "owned s" and t: "t = finish_close now s" and f: "\<not> persistence_failed t"
    obtain u r where u: "interrupt_unfinished now s = (u, r)" by fastforce
    have "persistence_failed s \<Longrightarrow> persistence_failed t"
      unfolding t by (simp add: finish_close_def recovered_or_halt_def)
    with f have p: "\<not> persistence_failed s" by blast
    have "r = Inr () \<and> (t = u \<or> t = u\<lparr>owned := False\<rparr>)"
      using f unfolding t finish_close_def recovered_or_halt_def
      using u p e by (cases r) (simp_all add: halt_for_storage_def Let_def split: if_splits)
    then have "r = Inr ()" and tu: "view t = view u" by (auto simp: view_def fun_eq_iff)
    with interrupt_unfinished_effect [OF k _ u] e(1) show ?thesis by (simp add: reconcilable_def)
  qed
  with v have "map_option (\<lambda>(op, st). (op, reconciled_status st)) (view s i) = Some (operation j, status j)" by simp
  then obtain l where "lookup_job i (store s) = Some l" "operation j = operation l" "status j = reconciled_status (status l)"
    by (cases "lookup_job i (store s)") (simp_all add: view_def)
  then show ?thesis by (auto simp: reconciled_status_def)
qed

definition demo_interrupted :: job_snapshot where
  "demo_interrupted = demo_job\<lparr>status := Interrupted, phase := ''interrupted'', available_actions := [],
     job_error := Some ''inputs_lost'', updated_at := 9, latest_event_identifier := Some 2\<rparr>"

lemma demo_restart:
  "reachable demo_outside (new_service demo_tables True)"
proof -
  have "service_step demo_outside demo_submitted (new_service ((store demo_submitted)\<lparr>faults := []\<rparr>) True)"
    by (rule service_step.restarted)
  then show ?thesis
    using reachable.step [OF demo_reachable(2)] by (simp add: demo_submitted_fields demo_tables_def)
qed

theorem reconciliation_leaves_no_unfinished_job_witness:
  "\<exists>t j. start True True 9 (new_service demo_tables True) = (t, Inr ()) \<and>
     lookup_job ''job_a'' (store t) = Some j \<and> status j \<notin> {Queued, Running}"
proof -
  let ?s = "new_service demo_tables True"
  let ?t = "?s\<lparr>owned := True, thread := Polling, store := demo_tables\<lparr>jobs := [(''job_a'', demo_interrupted, Inference demo_record)],
     events := [(1, make_event 1 demo_job), (2, make_event 2 demo_interrupted)], sequence := 2\<rparr>\<rparr>"
  have l: "in_store list_jobs (?s\<lparr>owned := True\<rparr>) = (?s\<lparr>owned := True\<rparr>, Inr [demo_job])"
    by (simp add: in_store_def list_jobs_def connection_def new_service_def demo_tables_def snapshots_def)
  have q: "status demo_job = Queued" by (simp add: demo_job_def new_job_def)
  have i: "interrupt 9 demo_job (?s\<lparr>owned := True\<rparr>) = (?t\<lparr>thread := Absent\<rparr>, Inr demo_interrupted)"
    by (simp add: interrupt_def change_def Let_def snapshot_valid_def demo_job_def new_job_def in_store_def save_def
        in_status_def interruption_error_def is_fetch_def is_inference_def
        connection_def demo_tables_def clashes_def write_rows_def update_payload_def stamped_def
        new_service_def demo_interrupted_def numeral_2_eq_2)
  have run: "start True True 9 ?s = (?t, Inr ())"
    by (simp add: start_def interrupt_unfinished_def l q i)
  have j: "lookup_job ''job_a'' (store ?t) = Some demo_interrupted" by (simp add: lookup_job_def)
  have "thread ?s = Absent" by (simp add: new_service_def)
  with reconciliation_leaves_no_unfinished_job [OF demo_restart j, of True True 9] run j show ?thesis by blast
qed

end
