(* ===== verification/UnionFind.thy ===== *)
theory UnionFind
  imports Prelude
begin

text \<open>
  The forest of \<^verbatim>\<open>backend_service/dataset_groups.py\<close>: a list of parents, a search for
  the root that halves the path it walks, and the linking of two trees. The search is the
  source's \<open>while\<close> loop; a parent list with a cycle would make it run forever, so it is a
  partial function and that it returns on a forest is a lemma.
\<close>

section \<open>The loop\<close>

partial_function (option) find_root :: "nat list \<Rightarrow> nat \<Rightarrow> (nat list \<times> nat) option" where
  "find_root parents i =
     (if parents ! i = i then Some (parents, i)
      else let p = parents[i := parents ! (parents ! i)] in find_root p (p ! i))"

definition link_roots :: "nat list \<Rightarrow> nat \<Rightarrow> nat \<Rightarrow> nat list option" where
  "link_roots parents i j =
     (case find_root parents j of
        None \<Rightarrow> None
      | Some (p, b) \<Rightarrow> (case find_root p i of None \<Rightarrow> None | Some (q, a) \<Rightarrow> Some (q[a := b])))"

section \<open>Forests\<close>

text \<open>\<open>climbs p n i r\<close>: from \<open>i\<close>, exactly \<open>n\<close> parent steps lead to the root \<open>r\<close>.\<close>

inductive climbs :: "nat list \<Rightarrow> nat \<Rightarrow> nat \<Rightarrow> nat \<Rightarrow> bool" for p where
  root: "i < length p \<Longrightarrow> p ! i = i \<Longrightarrow> climbs p 0 i i"
| step: "i < length p \<Longrightarrow> p ! i \<noteq> i \<Longrightarrow> climbs p n (p ! i) r \<Longrightarrow> climbs p (Suc n) i r"

inductive_cases climbs_rootE: "climbs p 0 i r"
inductive_cases climbs_stepE: "climbs p (Suc n) i r"

definition forest :: "nat list \<Rightarrow> bool" where
  "forest p \<longleftrightarrow> (\<forall>i < length p. \<exists>n r. climbs p n i r)"

definition same_tree :: "nat list \<Rightarrow> nat \<Rightarrow> nat \<Rightarrow> bool" where
  "same_tree p i j \<longleftrightarrow> (\<exists>n m r. climbs p n i r \<and> climbs p m j r)"

lemma climbs_root: "climbs p n i r \<Longrightarrow> i < length p \<and> r < length p \<and> p ! r = r"
  by (induction rule: climbs.induct) auto

lemma climbs_unique: "climbs p n i r \<Longrightarrow> climbs p m i s \<Longrightarrow> n = m \<and> r = s"
proof (induction arbitrary: m s rule: climbs.induct)
  case (root i)
  from root(3,2) show ?case by (cases rule: climbs.cases) auto
next
  case (step i n r)
  from step.prems step.hyps(2) obtain k where "m = Suc k" "climbs p k (p ! i) s"
    by (cases rule: climbs.cases) auto
  with step.IH show ?case by blast
qed

lemma same_tree_iff: "climbs p n i r \<Longrightarrow> climbs p m j s \<Longrightarrow> same_tree p i j \<longleftrightarrow> r = s"
  unfolding same_tree_def using climbs_unique by metis

lemma climbs_halved: "climbs p n j r \<Longrightarrow> i < length p \<Longrightarrow> p ! i \<noteq> i \<Longrightarrow> \<exists>m \<le> n. climbs (p[i := p ! (p ! i)]) m j r"
proof (induction rule: climbs.induct)
  case (root j)
  then have "j \<noteq> i" by auto
  then have "climbs (p[i := p ! (p ! i)]) 0 j j" using root by (intro climbs.root) auto
  then show ?case by auto
next
  case (step j n r)
  let ?q = "p[i := p ! (p ! i)]"
  from step obtain m where m: "m \<le> n" "climbs ?q m (p ! j) r" by blast
  show ?case
  proof (cases "j = i")
    case False
    then have "climbs ?q (Suc m) j r" using step.hyps m by (intro climbs.step) auto
    with m show ?thesis by (intro exI [of _ "Suc m"]) simp
  next
    case True
    show ?thesis
    proof (cases "p ! (p ! i) = p ! i")
      case True
      then have "climbs ?q (Suc m) j r" using \<open>j = i\<close> step.hyps m by (intro climbs.step) auto
      with m show ?thesis by (intro exI [of _ "Suc m"]) simp
    next
      case False
      from step.hyps(3) \<open>j = i\<close> False obtain k where k: "n = Suc k" "climbs p k (p ! (p ! i)) r"
        by (cases rule: climbs.cases) auto
      have other: "p ! (p ! i) \<noteq> i"
      proof
        assume "p ! (p ! i) = i"
        with k(2) have "climbs p k i r" by simp
        moreover have "climbs p (Suc n) i r" using step.hyps \<open>j = i\<close> by (auto intro: climbs.step)
        ultimately have "k = Suc n" using climbs_unique by blast
        with k(1) show False by simp
      qed
      from m(2) [unfolded \<open>j = i\<close>] False step.prems have "\<exists>l. m = Suc l \<and> climbs ?q l (p ! (p ! i)) r"
        by (cases rule: climbs.cases) auto
      then obtain l where l: "m = Suc l" "climbs ?q l (p ! (p ! i)) r" by blast
      have "climbs ?q (Suc l) i r" using other l step.prems by (intro climbs.step) auto
      with l(1) m(1) \<open>j = i\<close> show ?thesis by (intro exI [of _ m]) simp
    qed
  qed
qed

text \<open>Two lists of parents with the same trees.\<close>

definition same_roots :: "nat list \<Rightarrow> nat list \<Rightarrow> bool" where
  "same_roots p q \<longleftrightarrow> length q = length p \<and> (\<forall>n i r. climbs p n i r \<longrightarrow> (\<exists>m \<le> n. climbs q m i r))"

lemma same_roots_refl [simp]: "same_roots p p"
  by (auto simp: same_roots_def)

lemma same_roots_trans: "same_roots p q \<Longrightarrow> same_roots q s \<Longrightarrow> same_roots p s"
  unfolding same_roots_def by (metis order_trans)

lemma halved_roots: "i < length p \<Longrightarrow> p ! i \<noteq> i \<Longrightarrow> same_roots p (p[i := p ! (p ! i)])"
  using climbs_halved by (auto simp: same_roots_def)

lemma same_roots_forest: "same_roots p q \<Longrightarrow> forest p \<Longrightarrow> forest q"
  unfolding same_roots_def forest_def by metis

lemma same_roots_tree: "same_roots p q \<Longrightarrow> forest p \<Longrightarrow> i < length p \<Longrightarrow> j < length p \<Longrightarrow> same_tree q i j \<longleftrightarrow> same_tree p i j"
  unfolding same_roots_def forest_def same_tree_def by (metis climbs_unique)

lemma find_root_finds:
  "climbs p n i r \<Longrightarrow> \<exists>q. find_root p i = Some (q, r) \<and> same_roots p q"
proof (induction n arbitrary: p i rule: less_induct)
  case (less n)
  show ?case
  proof (cases "p ! i = i")
    case True
    then have "climbs p 0 i i" using climbs_root [OF less.prems] by (auto intro: climbs.root)
    with less.prems climbs_unique have "r = i" by blast
    with True show ?thesis by (subst find_root.simps) simp
  next
    case False
    let ?q = "p[i := p ! (p ! i)]"
    have i: "i < length p" using climbs_root [OF less.prems] by blast
    note h = halved_roots [OF i False]
    from less.prems False obtain k where n: "n = Suc k" and k: "climbs p k (p ! i) r"
      by (cases rule: climbs.cases) auto
    have "\<exists>m < n. climbs p m (p ! (p ! i)) r"
    proof (cases "p ! (p ! i) = p ! i")
      case True
      with k n show ?thesis by auto
    next
      case False
      with k obtain l where "k = Suc l" "climbs p l (p ! (p ! i)) r" by (cases rule: climbs.cases) auto
      with n show ?thesis by (intro exI [of _ l]) simp
    qed
    then obtain m where "m < n" and "climbs ?q m (?q ! i) r"
      using h i unfolding same_roots_def by (metis le_less_trans nth_list_update_eq)
    from less.IH [OF this] obtain q where "find_root ?q (?q ! i) = Some (q, r)" "same_roots ?q q" by blast
    with False h same_roots_trans show ?thesis
      by (subst find_root.simps) (auto simp: Let_def)
  qed
qed

lemma climbs_linked:
  assumes "climbs p n i r" and "climbs p 0 a a" and "climbs p 0 b b" and "a \<noteq> b"
  shows "\<exists>m. climbs (p[a := b]) m i (if r = a then b else r)"
  using assms
proof (induction rule: climbs.induct)
  case (root i)
  have b: "p ! b = b" "b < length p" "a < length p" using root.prems climbs_root by blast+
  show ?case
  proof (cases "i = a")
    case True
    have "climbs (p[a := b]) 0 b b" using b root.prems by (intro climbs.root) auto
    then have "climbs (p[a := b]) (Suc 0) a b" using b root.prems by (intro climbs.step) auto
    with True show ?thesis by auto
  next
    case False
    then have "climbs (p[a := b]) 0 i i" using root.hyps by (intro climbs.root) auto
    with False show ?thesis by auto
  qed
next
  case (step i n r)
  then obtain m where m: "climbs (p[a := b]) m (p ! i) (if r = a then b else r)" by blast
  have "i \<noteq> a" using step.hyps step.prems climbs_root by metis
  then have "climbs (p[a := b]) (Suc m) i (if r = a then b else r)"
    using step.hyps m by (intro climbs.step) auto
  then show ?case by blast
qed

text \<open>Linking joins the two trees and leaves the others as they are.\<close>

lemma link_roots_joins:
  assumes f: "forest p" and ij: "i < length p" "j < length p"
  shows "\<exists>q. link_roots p i j = Some q \<and> forest q \<and> length q = length p \<and>
    (\<forall>x < length p. \<forall>y < length p. same_tree q x y \<longleftrightarrow>
       same_tree p x y \<or> same_tree p x i \<and> same_tree p j y \<or> same_tree p x j \<and> same_tree p i y)"
proof -
  obtain n b where b: "climbs p n j b" using f ij by (auto simp: forest_def)
  obtain q where q: "find_root p j = Some (q, b)" "same_roots p q" using find_root_finds [OF b] by blast
  obtain m a where a: "climbs p m i a" using f ij by (auto simp: forest_def)
  then obtain m' where "climbs q m' i a" using q(2) unfolding same_roots_def by blast
  from find_root_finds [OF this] obtain s where s: "find_root q i = Some (s, a)" "same_roots q s" by blast
  have ps: "same_roots p s" by (rule same_roots_trans [OF q(2) s(2)])
  have fs: "forest s" and len: "length s = length p"
    using same_roots_forest [OF ps f] ps by (auto simp: same_roots_def)
  have ra: "climbs s 0 a a" and rb: "climbs s 0 b b"
    using a b climbs_root ps unfolding same_roots_def by (metis climbs.root le_zero_eq)+
  let ?t = "s[a := b]"
  define root where "root x = (THE r. \<exists>k. climbs s k x r)" for x
  have rt: "climbs s k x r \<Longrightarrow> root x = r" for k x r
    unfolding root_def using climbs_unique by (intro the_equality) blast+
  have ex: "\<exists>k. climbs s k x (root x)" if "x < length p" for x
    using fs that len rt unfolding forest_def by metis
  have tree: "same_tree s x y \<longleftrightarrow> root x = root y" if "x < length p" "y < length p" for x y
    using ex [OF that(1)] ex [OF that(2)] same_tree_iff by blast
  have ri: "root i = a" and rj: "root j = b"
    using rt a b ps unfolding same_roots_def by metis+
  have to: "\<exists>k. climbs ?t k x (if root x = a then b else root x)" if "x < length p" for x
  proof (cases "a = b")
    case True
    have "s ! a = b" using True ra climbs_root by blast
    with True have "?t = s" by (metis list_update_id)
    with True ex [OF that] show ?thesis by auto
  next
    case False
    from ex [OF that] obtain k where "climbs s k x (root x)" by blast
    from climbs_linked [OF this ra rb False] show ?thesis .
  qed
  have "same_tree ?t x y \<longleftrightarrow> same_tree p x y \<or> same_tree p x i \<and> same_tree p j y \<or> same_tree p x j \<and> same_tree p i y"
    if "x < length p" "y < length p" for x y
  proof -
    have "same_tree ?t x y \<longleftrightarrow> (if root x = a then b else root x) = (if root y = a then b else root y)"
      using to [OF that(1)] to [OF that(2)] same_tree_iff by blast
    also have "\<dots> \<longleftrightarrow> root x = root y \<or> root x = root i \<and> root j = root y \<or> root x = root j \<and> root i = root y"
      using ri rj by auto
    finally show ?thesis using that ij by (simp add: same_roots_tree [OF ps f, symmetric] tree)
  qed
  moreover have "forest ?t" unfolding forest_def using to len by (metis length_list_update)
  moreover have "link_roots p i j = Some ?t" using q s by (simp add: link_roots_def)
  ultimately show ?thesis using len by auto
qed

section \<open>The root of a tree\<close>

definition tree_root :: "nat list \<Rightarrow> nat \<Rightarrow> nat" where
  "tree_root p i = (THE r. \<exists>n. climbs p n i r)"

lemma tree_root_eq: "climbs p n i r \<Longrightarrow> tree_root p i = r"
  unfolding tree_root_def using climbs_unique by (intro the_equality) blast+

lemma tree_root_climbs: "forest p \<Longrightarrow> i < length p \<Longrightarrow> \<exists>n. climbs p n i (tree_root p i)"
  unfolding forest_def using tree_root_eq by metis

lemma same_tree_roots:
  "forest p \<Longrightarrow> i < length p \<Longrightarrow> j < length p \<Longrightarrow> same_tree p i j \<longleftrightarrow> tree_root p i = tree_root p j"
  using tree_root_climbs same_tree_iff by metis

lemma find_tree_root:
  assumes "forest p" and "i < length p"
  shows "\<exists>q. find_root p i = Some (q, tree_root p i) \<and> forest q \<and> length q = length p \<and>
    (\<forall>x < length p. tree_root q x = tree_root p x)"
proof -
  obtain n where "climbs p n i (tree_root p i)" using tree_root_climbs [OF assms] by blast
  from find_root_finds [OF this] obtain q where q: "find_root p i = Some (q, tree_root p i)" "same_roots p q" by blast
  have "tree_root q x = tree_root p x" if "x < length p" for x
    using tree_root_climbs [OF assms(1) that] q(2) tree_root_eq unfolding same_roots_def by metis
  then show ?thesis using q same_roots_forest [OF q(2) assms(1)] by (auto simp: same_roots_def)
qed

lemma singletons_forest: "forest [0..<n]" "x < n \<Longrightarrow> y < n \<Longrightarrow> same_tree [0..<n] x y \<longleftrightarrow> x = y"
proof -
  have c: "climbs [0..<n] 0 i i" if "i < n" for i using that by (intro climbs.root) auto
  then show "forest [0..<n]" unfolding forest_def by auto
  show "same_tree [0..<n] x y \<longleftrightarrow> x = y" if "x < n" "y < n" using same_tree_iff c that by blast
qed

end
