(* ===== verification/DatasetGroups.thy ===== *)
theory DatasetGroups
  imports UnionFind Utf8 JobRequests
begin

text \<open>
  Leakage control of prepared datasets, \<^verbatim>\<open>backend_service/dataset_groups.py\<close>, with the image
  records of \<^verbatim>\<open>schemas/dataset_records.py\<close>: images that share their pixels or their upstream
  identity, directly or through a chain of others, form a group, and a group is assigned to
  one split. The two uses of SHA-256 over canonical JSON are parameters.
\<close>

section \<open>Image records\<close>

datatype source_format = Jpeg | Png
datatype image_mode = Mode_L | Mode_RGB | Mode_RGBA
datatype color_policy = Icc_To_Srgb | Declared_Srgb | Assumed_Srgb

record dataset_image =
  source_path :: pystr
  prepared_path :: pystr
  source_identity :: "pystr option"
  upstream_split :: "pystr option"
  subset :: "pystr option"
  assigned_split :: "dataset_split option"
  duplicate_group :: string
  split_group :: string
  representative_source_path :: "pystr option"
  source_checksum :: string
  prepared_checksum :: string
  rgb_checksum :: string
  source_bytes :: int
  prepared_bytes :: int
  source_width :: int
  source_height :: int
  width :: int
  height :: int
  source_format :: source_format
  source_mode :: image_mode
  mode :: image_mode
  orientation :: int
  color_policy :: color_policy
  grayscale_converted :: bool
  eligible :: bool

definition image_policy_valid :: "dataset_image \<Rightarrow> bool" where
  "image_policy_valid r \<longleftrightarrow>
     max (width r * height r) (source_width r * source_height r) \<le> 32000000 \<and>
     (width r, height r) = (if orientation r \<in> {5, 6, 7, 8} then (source_height r, source_width r)
                            else (source_width r, source_height r)) \<and>
     eligible r = (256 \<le> width r \<and> 256 \<le> height r) \<and>
     grayscale_converted r = (source_mode r = Mode_L) \<and>
     mode r = (if source_mode r = Mode_RGBA then Mode_RGBA else Mode_RGB) \<and>
     \<not> (source_format r = Jpeg \<and> source_mode r = Mode_RGBA)"

section \<open>Declarations\<close>

definition remote_source_kinds :: "source_kind set" where
  "remote_source_kinds = {Kind_Hugging_Face, Kind_Https_Archive, Kind_Upload}"

definition dataset_splits :: "dataset_split list" where
  "dataset_splits = [Split_Train, Split_Tuning, Split_Held_Out]"

definition points :: "string \<Rightarrow> pystr" where
  "points = map of_char"

definition split_mapping :: "(pystr \<times> dataset_split) list" where
  "split_mapping = [(points ''training'', Split_Train), (points ''validation'', Split_Tuning),
     (points ''test'', Split_Held_Out)]"

definition check_declarations :: "dataset_image list \<Rightarrow> source_kind \<Rightarrow> unit result" where
  "check_declarations records kind =
     (let declared = filter (\<lambda>r. upstream_split r \<noteq> None) records in
      if kind = Kind_Local \<and> declared \<noteq> [] then Inl Value_Error
      else if kind = Kind_Uhd_Iqa \<and> (length declared \<noteq> length records \<or>
                list_ex (\<lambda>r. source_identity r = None) records) then Inl Value_Error
      else if kind \<in> remote_source_kinds \<and> declared \<noteq> [] \<and> length declared \<noteq> length records then Inl Value_Error
      else if list_ex (\<lambda>r. source_identity r = None) declared then Inl Value_Error
      else Inr ())"

section \<open>Linking\<close>

text \<open>The parents, the first position of each token, and the first path of each image content.\<close>

record linking =
  parents :: "nat list"
  tokens :: "(pystr \<times> nat) list"
  representatives :: "(string \<times> pystr) list"

definition rgb_token :: "dataset_image \<Rightarrow> pystr" where
  "rgb_token r = points ''rgb:'' @ points (rgb_checksum r)"

definition image_keys :: "dataset_image \<Rightarrow> pystr list" where
  "image_keys r = rgb_token r #
     (case source_identity r of None \<Rightarrow> [] | Some s \<Rightarrow> [points ''identity:'' @ s])"

fun link_keys :: "nat \<Rightarrow> pystr list \<Rightarrow> linking \<Rightarrow> linking option" where
  "link_keys i [] l = Some l"
| "link_keys i (k # ks) l =
     (case dict_get (tokens l) k of
        Some j \<Rightarrow> (case link_roots (parents l) i j of
                     None \<Rightarrow> None | Some p \<Rightarrow> link_keys i ks (l\<lparr>parents := p\<rparr>))
      | None \<Rightarrow> link_keys i ks (l\<lparr>tokens := AList.update k i (tokens l)\<rparr>))"

definition set_default :: "'k \<Rightarrow> 'v \<Rightarrow> ('k \<times> 'v) list \<Rightarrow> ('k \<times> 'v) list" where
  "set_default k v d = (if dict_get d k = None then AList.update k v d else d)"

fun link_records :: "nat \<Rightarrow> dataset_image list \<Rightarrow> linking \<Rightarrow> linking option" where
  "link_records i [] l = Some l"
| "link_records i (r # rs) l =
     (case link_keys i (image_keys r)
             (l\<lparr>representatives := set_default (rgb_checksum r) (source_path r) (representatives l)\<rparr>) of
        None \<Rightarrow> None | Some m \<Rightarrow> link_records (Suc i) rs m)"

fun collect :: "nat \<Rightarrow> dataset_image list \<Rightarrow> nat list \<Rightarrow> (nat \<times> dataset_image list) list
    \<Rightarrow> (nat \<times> dataset_image list) list option" where
  "collect i [] p members = Some members"
| "collect i (r # rs) p members =
     (case find_root p i of
        None \<Rightarrow> None
      | Some (q, found) \<Rightarrow> collect (Suc i) rs q
          (AList.update found ((case dict_get members found of None \<Rightarrow> [] | Some g \<Rightarrow> g) @ [r]) members))"

section \<open>Assignment\<close>

record hashing =
  group_digest :: "pystr list \<Rightarrow> string"
  bucket_digest :: "int \<Rightarrow> string \<Rightarrow> string"

definition hex_digit :: "char \<Rightarrow> nat" where
  "hex_digit c = (if is_digit_char c then of_char c - 48 else of_char c - 87)"

definition hex_value :: "string \<Rightarrow> nat" where
  "hex_value s = fold (\<lambda>c n. 16 * n + hex_digit c) s 0"

definition generated_split :: "hashing \<Rightarrow> int \<Rightarrow> string \<Rightarrow> dataset_split" where
  "generated_split h seed gid =
     (let bucket = hex_value (take 16 (bucket_digest h seed gid)) mod 100 in
      dataset_splits ! (if bucket < 80 then 0 else if bucket < 90 then 1 else 2))"

definition group_identifiers :: "dataset_image list \<Rightarrow> pystr list" where
  "group_identifiers g = sort (remdups (concat (map image_keys g)))"

definition decide_group :: "hashing \<Rightarrow> int \<Rightarrow> (pystr \<times> dataset_split) list \<Rightarrow> dataset_image list
    \<Rightarrow> (string \<times> dataset_split) result" where
  "decide_group h seed mapping g =
     (let gid = group_digest h (group_identifiers g);
          labels = remdups (List.map_filter upstream_split g) in
      if list_ex (\<lambda>label. dict_get mapping label = None) labels then Inl Value_Error
      else
        (let declared = remdups (map (\<lambda>label. the (dict_get mapping label)) labels) in
         if 1 < length declared then Inl Value_Error
         else Inr (gid, case declared of [] \<Rightarrow> generated_split h seed gid | d # _ \<Rightarrow> d)))"

definition decide_all :: "hashing \<Rightarrow> int \<Rightarrow> (pystr \<times> dataset_split) list \<Rightarrow> dataset_image list list
    \<Rightarrow> (pystr \<times> string \<times> dataset_split) list result" where
  "decide_all h seed mapping groups =
     andThen (traverse (\<lambda>g. andThen (decide_group h seed mapping g) (\<lambda>d. Inr (g, d))) groups) (\<lambda>decided.
       Inr (fold (\<lambda>(g, d) table. fold (\<lambda>r. AList.update (source_path r) d) g table) decided []))"

definition assigned :: "(pystr \<times> string \<times> dataset_split) list \<Rightarrow> (string \<times> pystr) list \<Rightarrow> dataset_image
    \<Rightarrow> dataset_image result" where
  "assigned decisions firsts r =
     (case (dict_get decisions (source_path r), dict_get firsts (rgb_checksum r)) of
        (Some (gid, split), Some first) \<Rightarrow> Inr (r\<lparr>duplicate_group := rgb_checksum r, split_group := gid,
          assigned_split := Some split, representative_source_path := Some first\<rparr>)
      | _ \<Rightarrow> Inl Key_Error)"

definition training_empty :: exn where
  "training_empty = Application_Failure ''dataset_training_empty'' 422"

definition usable_for_training :: "dataset_image \<Rightarrow> bool" where
  "usable_for_training r \<longleftrightarrow> eligible r \<and> assigned_split r = Some Split_Train \<and>
     representative_source_path r = Some (source_path r)"

definition assign :: "hashing \<Rightarrow> dataset_image list \<Rightarrow> source_kind \<Rightarrow> int \<Rightarrow> bool \<Rightarrow> (pystr \<times> dataset_split) list
    \<Rightarrow> dataset_image list result option" where
  "assign h records kind seed training mapping =
     (let ordered = sort_key source_path records in
      if ordered = [] \<or> \<not> distinct (map source_path ordered) then Some (Inl Value_Error)
      else case check_declarations ordered kind of
        Inl e \<Rightarrow> Some (Inl e)
      | Inr _ \<Rightarrow>
          (case link_records 0 ordered \<lparr>parents = [0..<length ordered], tokens = [], representatives = []\<rparr> of
             None \<Rightarrow> None
           | Some l \<Rightarrow>
             (case collect 0 ordered (parents l) [] of
                None \<Rightarrow> None
              | Some members \<Rightarrow> Some (
                  andThen (decide_all h seed mapping (map snd members)) (\<lambda>decisions.
                  andThen (traverse (assigned decisions (representatives l)) ordered) (\<lambda>out.
                  if training \<and> \<not> list_ex usable_for_training out then Inl training_empty else Inr out))))))"

definition assign_groups :: "hashing \<Rightarrow> dataset_image list \<Rightarrow> source_kind \<Rightarrow> int \<Rightarrow> bool
    \<Rightarrow> (pystr \<times> dataset_split) list \<Rightarrow> dataset_image list result option" where
  "assign_groups h records kind seed training mapping =
     (if records = [] then Some (Inl (Application_Failure ''dataset_empty'' 422))
      else map_option (\<lambda>r. case r of
             Inl e \<Rightarrow> Inl (if e = Value_Error then Application_Failure ''dataset_groups'' 422 else e)
           | Inr out \<Rightarrow> Inr out) (assign h records kind seed training mapping))"

section \<open>The trees are the chains of shared tokens\<close>

definition shares :: "(nat \<times> pystr) set \<Rightarrow> nat \<Rightarrow> nat \<Rightarrow> bool" where
  "shares D i j \<longleftrightarrow> (\<exists>k. (i, k) \<in> D \<and> (j, k) \<in> D)"

definition tracks :: "nat \<Rightarrow> (nat \<times> pystr) set \<Rightarrow> linking \<Rightarrow> bool" where
  "tracks n D l \<longleftrightarrow> length (parents l) = n \<and> forest (parents l) \<and> (\<forall>(i, k) \<in> D. i < n) \<and>
     (\<forall>k t. dict_get (tokens l) k = Some t \<longrightarrow> (t, k) \<in> D) \<and>
     (\<forall>(i, k) \<in> D. dict_get (tokens l) k \<noteq> None) \<and>
     (\<forall>x < n. \<forall>y < n. same_tree (parents l) x y \<longleftrightarrow> (shares D)\<^sup>*\<^sup>* x y)"

lemma shares_common: "(x, k) \<in> D \<Longrightarrow> (y, k) \<in> D \<Longrightarrow> (shares D)\<^sup>*\<^sup>* x y"
  by (rule r_into_rtranclp) (auto simp: shares_def)

lemma shares_mono: "(shares D)\<^sup>*\<^sup>* x y \<Longrightarrow> (shares (insert e D))\<^sup>*\<^sup>* x y"
  by (erule rtranclp_mono [THEN predicate2D, rotated]) (auto simp: shares_def)

lemma shares_sym: "(shares D)\<^sup>*\<^sup>* x y \<Longrightarrow> (shares D)\<^sup>*\<^sup>* y x"
  by (rule sympD [OF symp_rtranclp]) (auto simp: symp_def shares_def)

lemma shares_known:
  assumes t: "(t, k) \<in> D"
  shows "(shares (insert (i, k) D))\<^sup>*\<^sup>* x y \<longleftrightarrow>
    (shares D)\<^sup>*\<^sup>* x y \<or> (shares D)\<^sup>*\<^sup>* x i \<and> (shares D)\<^sup>*\<^sup>* t y \<or> (shares D)\<^sup>*\<^sup>* x t \<and> (shares D)\<^sup>*\<^sup>* i y"
    (is "?L x y \<longleftrightarrow> ?R x y")
proof
  assume "?L x y"
  then show "?R x y"
  proof (induction rule: rtranclp_induct)
    case base
    then show ?case by simp
  next
    case (step y z)
    from step.hyps(2) consider "shares D y z" | "y = i" "(z, k) \<in> D" | "z = i" "(y, k) \<in> D" | "y = i" "z = i"
      by (auto simp: shares_def)
    then show ?case
    proof cases
      case 1
      then have "(shares D)\<^sup>*\<^sup>* y z" by blast
      with step.IH show ?thesis by (meson rtranclp_trans)
    next
      case 2
      then have "(shares D)\<^sup>*\<^sup>* t z" using t by (auto intro: shares_common)
      with step.IH 2(1) show ?thesis by (meson rtranclp_trans)
    next
      case 3
      then have "(shares D)\<^sup>*\<^sup>* y t" using t by (auto intro: shares_common)
      with step.IH 3(1) show ?thesis by (meson rtranclp_trans rtranclp.rtrancl_refl)
    next
      case 4
      with step.IH show ?thesis by simp
    qed
  qed
next
  have "(shares (insert (i, k) D))\<^sup>*\<^sup>* i t" "(shares (insert (i, k) D))\<^sup>*\<^sup>* t i" using t by (auto intro: shares_common)
  moreover assume "?R x y"
  ultimately show "?L x y" using shares_mono [of D _ _ "(i, k)"] by (meson rtranclp_trans)
qed

lemma shares_fresh:
  assumes "\<And>j. (j, k) \<notin> D"
  shows "(shares (insert (i, k) D))\<^sup>*\<^sup>* x y \<longleftrightarrow> (shares D)\<^sup>*\<^sup>* x y"
proof
  assume "(shares (insert (i, k) D))\<^sup>*\<^sup>* x y"
  then show "(shares D)\<^sup>*\<^sup>* x y"
  proof (induction rule: rtranclp_induct)
    case (step y z)
    from step.hyps(2) have "shares D y z \<or> y = z" using assms by (auto simp: shares_def)
    with step.IH show ?case by (auto intro: rtranclp.rtrancl_into_rtrancl)
  qed simp
qed (rule shares_mono)

lemma link_keys_tracks:
  "tracks n D l \<Longrightarrow> i < n \<Longrightarrow> \<exists>m. link_keys i ks l = Some m \<and>
     tracks n (D \<union> {i} \<times> set ks) m \<and> representatives m = representatives l"
proof (induction ks arbitrary: l D)
  case Nil
  then show ?case by simp
next
  case (Cons k ks)
  from Cons.prems have n: "length (parents l) = n" "forest (parents l)" "\<forall>(i, k) \<in> D. i < n"
    and tok: "\<And>k t. dict_get (tokens l) k = Some t \<Longrightarrow> (t, k) \<in> D" "\<And>i k. (i, k) \<in> D \<Longrightarrow> dict_get (tokens l) k \<noteq> None"
    and tree: "\<And>x y. x < n \<Longrightarrow> y < n \<Longrightarrow> same_tree (parents l) x y \<longleftrightarrow> (shares D)\<^sup>*\<^sup>* x y"
    unfolding tracks_def by blast+
  have D: "insert (i, k) D \<union> {i} \<times> set ks = D \<union> {i} \<times> set (k # ks)" by auto
  show ?case
  proof (cases "dict_get (tokens l) k")
    case None
    let ?l = "l\<lparr>tokens := AList.update k i (tokens l)\<rparr>"
    have "\<And>j. (j, k) \<notin> D" using None tok(2) by blast
    note fresh = shares_fresh [OF this]
    have "tracks n (insert (i, k) D) ?l"
      unfolding tracks_def using n tok tree Cons.prems(2) by (auto simp: fresh split: if_splits)
    from Cons.IH [OF this Cons.prems(2)] None show ?thesis unfolding D by auto
  next
    case (Some t)
    from tok(1) [OF Some] n(3) have t: "(t, k) \<in> D" "t < n" by auto
    from link_roots_joins [of "parents l" i t] n t Cons.prems(2) obtain p where p: "link_roots (parents l) i t = Some p"
      and f: "forest p" "length p = n"
      and j: "\<And>x y. x < n \<Longrightarrow> y < n \<Longrightarrow> same_tree p x y \<longleftrightarrow> same_tree (parents l) x y \<or>
        same_tree (parents l) x i \<and> same_tree (parents l) t y \<or> same_tree (parents l) x t \<and> same_tree (parents l) i y"
      by auto
    have "tracks n (insert (i, k) D) (l\<lparr>parents := p\<rparr>)"
      unfolding tracks_def using n tok Cons.prems(2) f t by (auto simp: j tree shares_known [OF t(1)])
    from Cons.IH [OF this Cons.prems(2)] Some p show ?thesis unfolding D by auto
  qed
qed

definition token_pairs :: "nat \<Rightarrow> dataset_image list \<Rightarrow> (nat \<times> pystr) set" where
  "token_pairs i rs = {(i + j, k) | j k. j < length rs \<and> k \<in> set (image_keys (rs ! j))}"

lemma token_pairs_Cons: "token_pairs i (r # rs) = {i} \<times> set (image_keys r) \<union> token_pairs (Suc i) rs"
proof -
  have "(x, k) \<in> token_pairs i (r # rs) \<longleftrightarrow> x = i \<and> k \<in> set (image_keys r) \<or> (x, k) \<in> token_pairs (Suc i) rs" for x k
  proof
    assume "(x, k) \<in> token_pairs i (r # rs)"
    then obtain j where "x = i + j" "j < Suc (length rs)" "k \<in> set (image_keys ((r # rs) ! j))"
      by (auto simp: token_pairs_def)
    then show "x = i \<and> k \<in> set (image_keys r) \<or> (x, k) \<in> token_pairs (Suc i) rs"
      by (cases j) (auto simp: token_pairs_def)
  next
    assume "x = i \<and> k \<in> set (image_keys r) \<or> (x, k) \<in> token_pairs (Suc i) rs"
    then show "(x, k) \<in> token_pairs i (r # rs)"
    proof
      assume "x = i \<and> k \<in> set (image_keys r)"
      then show ?thesis unfolding token_pairs_def by (intro CollectI exI [of _ 0] exI [of _ k]) simp
    next
      assume "(x, k) \<in> token_pairs (Suc i) rs"
      then obtain j where "x = Suc i + j" "j < length rs" "k \<in> set (image_keys (rs ! j))" by (auto simp: token_pairs_def)
      then show ?thesis unfolding token_pairs_def by (intro CollectI exI [of _ "Suc j"] exI [of _ k]) simp
    qed
  qed
  then show ?thesis by auto
qed

definition first_path :: "dataset_image list \<Rightarrow> string \<Rightarrow> pystr option" where
  "first_path rs c = map_option source_path (List.find (\<lambda>r. rgb_checksum r = c) rs)"

lemma set_default_get: "dict_get (set_default k v d) k' = (if k' = k \<and> dict_get d k = None then Some v else dict_get d k')"
  by (simp add: set_default_def)

lemma link_records_tracks:
  "tracks n D l \<Longrightarrow> i + length rs \<le> n \<Longrightarrow> \<exists>m. link_records i rs l = Some m \<and>
     tracks n (D \<union> token_pairs i rs) m \<and>
     (\<forall>c. dict_get (representatives m) c =
        (case dict_get (representatives l) c of None \<Rightarrow> first_path rs c | Some p \<Rightarrow> Some p))"
proof (induction rs arbitrary: i l D)
  case Nil
  then show ?case by (auto simp: token_pairs_def first_path_def split: option.splits)
next
  case (Cons r rs)
  let ?l = "l\<lparr>representatives := set_default (rgb_checksum r) (source_path r) (representatives l)\<rparr>"
  have t: "tracks n D ?l" using Cons.prems(1) by (simp add: tracks_def)
  have i: "i < n" using Cons.prems(2) by simp
  obtain m where m: "link_keys i (image_keys r) ?l = Some m" "tracks n (D \<union> {i} \<times> set (image_keys r)) m"
    "representatives m = representatives ?l"
    using link_keys_tracks [OF t i] by blast
  have "Suc i + length rs \<le> n" using Cons.prems(2) by simp
  from Cons.IH [OF m(2) this] obtain m' where m': "link_records (Suc i) rs m = Some m'"
    "tracks n (D \<union> token_pairs i (r # rs)) m'"
    "\<And>c. dict_get (representatives m') c = (case dict_get (representatives m) c of None \<Rightarrow> first_path rs c | Some p \<Rightarrow> Some p)"
    by (auto simp: token_pairs_Cons Un_assoc)
  have "dict_get (representatives m') c = (case dict_get (representatives l) c of None \<Rightarrow> first_path (r # rs) c | Some p \<Rightarrow> Some p)" for c
    by (simp add: m'(3) m(3) set_default_get first_path_def split: option.splits)
  with m m' show ?case by auto
qed

lemma fresh_tracks: "tracks n {} \<lparr>parents = [0..<n], tokens = [], representatives = []\<rparr>"
proof -
  have "(shares {})\<^sup>*\<^sup>* x y \<longleftrightarrow> x = y" for x y :: nat
  proof
    assume "(shares {})\<^sup>*\<^sup>* x y"
    then show "x = y" by (induction rule: rtranclp_induct) (auto simp: shares_def)
  qed simp
  then show ?thesis by (simp add: tracks_def singletons_forest)
qed

section \<open>The groups collected from the trees\<close>

definition tree_members :: "nat list \<Rightarrow> nat \<Rightarrow> dataset_image list \<Rightarrow> nat \<Rightarrow> dataset_image list" where
  "tree_members p i rs t = map snd (filter (\<lambda>(j, r). tree_root p j = t) (enumerate i rs))"

lemma tree_members_Cons:
  "tree_members p i (r # rs) t = (if tree_root p i = t then [r] else []) @ tree_members p (Suc i) rs t"
  by (simp add: tree_members_def)

lemma tree_members_cong:
  "(\<And>x. x < n \<Longrightarrow> tree_root q x = tree_root p x) \<Longrightarrow> i + length rs \<le> n \<Longrightarrow>
    tree_members q i rs t = tree_members p i rs t"
  by (induction rs arbitrary: i) (auto simp: tree_members_Cons, simp add: tree_members_def)

lemma collect_groups:
  "forest p \<Longrightarrow> i + length rs \<le> length p \<Longrightarrow> \<exists>out. collect i rs p members = Some out \<and>
     (\<forall>t. dict_get out t = (if tree_members p i rs t = [] then dict_get members t
        else Some ((case dict_get members t of None \<Rightarrow> [] | Some g \<Rightarrow> g) @ tree_members p i rs t))) \<and>
     (distinct (dict_keys members) \<longrightarrow> distinct (dict_keys out))"
proof (induction rs arbitrary: i p members)
  case Nil
  then show ?case by (simp add: tree_members_def)
next
  case (Cons r rs)
  have i: "i < length p" using Cons.prems(2) by simp
  obtain q where q: "find_root p i = Some (q, tree_root p i)" "forest q" "length q = length p"
    "\<And>x. x < length p \<Longrightarrow> tree_root q x = tree_root p x"
    using find_tree_root [OF Cons.prems(1) i] by blast
  let ?t = "tree_root p i"
  let ?m = "AList.update ?t ((case dict_get members ?t of None \<Rightarrow> [] | Some g \<Rightarrow> g) @ [r]) members"
  have len: "Suc i + length rs \<le> length q" using Cons.prems(2) q(3) by simp
  from Cons.IH [OF q(2) len, of ?m] obtain out where out: "collect (Suc i) rs q ?m = Some out"
    "\<And>t. dict_get out t = (if tree_members q (Suc i) rs t = [] then dict_get ?m t
        else Some ((case dict_get ?m t of None \<Rightarrow> [] | Some g \<Rightarrow> g) @ tree_members q (Suc i) rs t))"
    "distinct (dict_keys ?m) \<Longrightarrow> distinct (dict_keys out)"
    by blast
  have same: "tree_members q (Suc i) rs t = tree_members p (Suc i) rs t" for t
    by (rule tree_members_cong [of "length p"]) (use q(4) Cons.prems(2) in auto)
  have "dict_get out t = (if tree_members p i (r # rs) t = [] then dict_get members t
        else Some ((case dict_get members t of None \<Rightarrow> [] | Some g \<Rightarrow> g) @ tree_members p i (r # rs) t))" for t
    by (auto simp: out(2) same tree_members_Cons split: option.splits)
  moreover have "distinct (dict_keys members) \<longrightarrow> distinct (dict_keys out)"
    using out(3) by (simp add: distinct_update)
  ultimately show ?case using q(1) out(1) by simp
qed

section \<open>The table of decisions\<close>

lemma decide_group_entries:
  "dict_get (fold (\<lambda>r. AList.update (source_path r) d) g table) p =
     (if p \<in> source_path ` set g then Some d else dict_get table p)"
  by (induction g arbitrary: table) auto

lemma decided_entry:
  assumes "\<forall>(g, d) \<in> set decided. p \<in> source_path ` set g \<longrightarrow> d = d0"
    and "(\<exists>(g, d) \<in> set decided. p \<in> source_path ` set g) \<or> dict_get table p = Some d0"
  shows "dict_get (fold (\<lambda>(g, d) table. fold (\<lambda>r. AList.update (source_path r) d) g table) decided table) p = Some d0"
  using assms
proof (induction decided arbitrary: table)
  case Nil
  then show ?case by simp
next
  case (Cons e decided)
  obtain g d where e: "e = (g, d)" by fastforce
  have "(\<exists>(g, d) \<in> set decided. p \<in> source_path ` set g) \<or>
      dict_get (fold (\<lambda>r. AList.update (source_path r) d) g table) p = Some d0"
    using Cons.prems unfolding e decide_group_entries by auto
  with Cons.IH Cons.prems(1) e show ?case by simp
qed

section \<open>Chains of images\<close>

definition related :: "dataset_image \<Rightarrow> dataset_image \<Rightarrow> bool" where
  "related a b \<longleftrightarrow> rgb_checksum a = rgb_checksum b \<or> source_identity a = source_identity b \<and> source_identity a \<noteq> None"

definition chained :: "dataset_image list \<Rightarrow> dataset_image \<Rightarrow> dataset_image \<Rightarrow> bool" where
  "chained rs = (\<lambda>a b. a \<in> set rs \<and> b \<in> set rs \<and> related a b)\<^sup>*\<^sup>*"

lemma points_inject: "points s = points t \<longleftrightarrow> s = t"
proof -
  have "inj (of_char :: char \<Rightarrow> nat)" by (simp add: inj_def)
  then show ?thesis unfolding points_def by (simp add: inj_map_eq_map)
qed

lemma points_append: "points (s @ t) = points s @ points t"
  by (simp add: points_def)

lemma keys_related: "(\<exists>k. k \<in> set (image_keys a) \<and> k \<in> set (image_keys b)) \<longleftrightarrow> related a b"
proof -
  have ne: "points ''rgb:'' @ s \<noteq> points ''identity:'' @ t" for s t by (simp add: points_def)
  show ?thesis
    by (cases "source_identity a"; cases "source_identity b")
      (auto simp: image_keys_def rgb_token_def related_def points_inject ne ne [symmetric])
qed

lemma shares_chained:
  assumes d: "distinct rs" and i: "i < length rs"
  shows "j < length rs \<Longrightarrow> (shares (token_pairs 0 rs))\<^sup>*\<^sup>* i j \<longleftrightarrow> chained rs (rs ! i) (rs ! j)"
proof -
  let ?D = "token_pairs 0 rs"
  have s: "shares ?D x y \<longleftrightarrow> x < length rs \<and> y < length rs \<and> related (rs ! x) (rs ! y)" for x y
    using keys_related [of "rs ! x" "rs ! y"] by (auto simp: shares_def token_pairs_def)
  have "(shares ?D)\<^sup>*\<^sup>* i j \<Longrightarrow> chained rs (rs ! i) (rs ! j)" for j
    unfolding chained_def
  proof (induction rule: rtranclp_induct)
    case (step y z)
    from step.IH step.hyps(2) show ?case
      by (elim rtranclp.rtrancl_into_rtrancl) (auto simp: s)
  qed simp
  moreover have "chained rs (rs ! i) b \<Longrightarrow> \<forall>j < length rs. rs ! j = b \<longrightarrow> (shares ?D)\<^sup>*\<^sup>* i j" for b
    unfolding chained_def
  proof (induction rule: rtranclp_induct)
    case base
    then show ?case using d i by (auto simp: nth_eq_iff_index_eq)
  next
    case (step y z)
    from step.hyps(2) obtain x where x: "x < length rs" "rs ! x = y" by (auto simp: in_set_conv_nth)
    with step show ?case by (auto intro: rtranclp.rtrancl_into_rtrancl simp: s)
  qed
  ultimately show "j < length rs \<Longrightarrow> (shares ?D)\<^sup>*\<^sup>* i j \<longleftrightarrow> chained rs (rs ! i) (rs ! j)" by blast
qed

lemma members_chained:
  assumes d: "distinct rs" and p: "forest p" "length p = length rs" and j: "j < length rs"
    and tree: "\<And>x y. x < length rs \<Longrightarrow> y < length rs \<Longrightarrow> same_tree p x y \<longleftrightarrow> (shares (token_pairs 0 rs))\<^sup>*\<^sup>* x y"
  shows "tree_members p 0 rs (tree_root p j) = filter (chained rs (rs ! j)) rs"
proof -
  have "filter (\<lambda>(x, r). tree_root p x = tree_root p j) (enumerate 0 rs)
      = filter (\<lambda>(x, r). chained rs (rs ! j) r) (enumerate 0 rs)"
  proof (rule filter_cong [OF refl])
    fix e assume "e \<in> set (enumerate 0 rs)"
    then have x: "e = (fst e, rs ! fst e)" "fst e < length rs" by (auto simp: in_set_enumerate_eq prod_eq_iff)
    define x where "x = fst e"
    have x: "e = (x, rs ! x)" "x < length rs" using x unfolding x_def by simp_all
    have "tree_root p x = tree_root p j \<longleftrightarrow> same_tree p j x"
      using same_tree_roots [OF p(1)] p(2) x(2) j by auto
    also have "\<dots> \<longleftrightarrow> chained rs (rs ! j) (rs ! x)"
      using tree [OF j x(2)] shares_chained [OF d j x(2)] by simp
    finally show "(case e of (x, r) \<Rightarrow> tree_root p x = tree_root p j) = (case e of (x, r) \<Rightarrow> chained rs (rs ! j) r)"
      by (simp add: x)
  qed
  moreover have "map snd (filter (\<lambda>(x, r). P r) (enumerate k rs)) = filter P rs" for P k
    by (induction rs arbitrary: k) auto
  ultimately show ?thesis by (simp add: tree_members_def)
qed

lemma collected_groups:
  assumes "distinct rs" and "rs \<noteq> []"
  shows "\<exists>l members. link_records 0 rs \<lparr>parents = [0..<length rs], tokens = [], representatives = []\<rparr> = Some l \<and>
    collect 0 rs (parents l) [] = Some members \<and>
    (\<forall>c. dict_get (representatives l) c = first_path rs c) \<and>
    set (map snd members) = (\<lambda>r. filter (chained rs r) rs) ` set rs"
proof -
  let ?n = "length rs"
  let ?l = "\<lparr>parents = [0..<?n], tokens = [], representatives = []\<rparr> :: linking"
  from link_records_tracks [OF fresh_tracks, of 0 rs ?n] obtain l where l: "link_records 0 rs ?l = Some l"
    "tracks ?n (token_pairs 0 rs) l" "\<And>c. dict_get (representatives l) c = first_path rs c"
    by auto
  from l(2) have p: "forest (parents l)" "length (parents l) = ?n"
    and tree: "\<And>x y. x < ?n \<Longrightarrow> y < ?n \<Longrightarrow> same_tree (parents l) x y \<longleftrightarrow> (shares (token_pairs 0 rs))\<^sup>*\<^sup>* x y"
    unfolding tracks_def by blast+
  note group = members_chained [OF assms(1) p _ tree]
  have "0 + length rs \<le> length (parents l)" using p by simp
  from collect_groups [OF p(1) this, of "[]"] obtain members where m: "collect 0 rs (parents l) [] = Some members"
    "\<And>t. dict_get members t = (if tree_members (parents l) 0 rs t = [] then None else Some (tree_members (parents l) 0 rs t))"
    "distinct (dict_keys members)"
    by auto
  have "g \<in> set (map snd members) \<longleftrightarrow> (\<exists>t. dict_get members t = Some g)" for g
    using m(3) by force
  moreover have "(\<exists>t. dict_get members t = Some g) \<longleftrightarrow> (\<exists>r \<in> set rs. g = filter (chained rs r) rs)" for g
  proof
    assume "\<exists>t. dict_get members t = Some g"
    then obtain t where t: "tree_members (parents l) 0 rs t = g" "g \<noteq> []" by (auto simp: m(2) split: if_splits)
    then obtain j where "j < ?n" "tree_root (parents l) j = t"
      by (fastforce simp: tree_members_def filter_empty_conv in_set_enumerate_eq)
    with group [of j] t(1) show "\<exists>r \<in> set rs. g = filter (chained rs r) rs" by (metis nth_mem)
  next
    assume "\<exists>r \<in> set rs. g = filter (chained rs r) rs"
    then obtain j where j: "j < ?n" "g = filter (chained rs (rs ! j)) rs" by (auto simp: in_set_conv_nth)
    have "chained rs (rs ! j) (rs ! j)" by (simp add: chained_def)
    with j have "g \<noteq> []" by (auto simp: filter_empty_conv)
    then have "dict_get members (tree_root (parents l) j) = Some g" using group [OF j(1)] j(2) by (simp add: m(2))
    then show "\<exists>t. dict_get members t = Some g" by blast
  qed
  ultimately have "set (map snd members) = (\<lambda>r. filter (chained rs r) rs) ` set rs"
    unfolding set_eq_iff image_iff by blast
  with l(1,3) m(1) show ?thesis by blast
qed

lemma chained_sym: "chained rs a b \<Longrightarrow> chained rs b a"
proof -
  have "symp (\<lambda>a b. a \<in> set rs \<and> b \<in> set rs \<and> related a b)" by (rule sympI, unfold related_def) metis
  then show "chained rs a b \<Longrightarrow> chained rs b a" unfolding chained_def by (rule sympD [OF symp_rtranclp])
qed

lemma chained_trans: "chained rs a b \<Longrightarrow> chained rs b c \<Longrightarrow> chained rs a c"
  unfolding chained_def by (rule rtranclp_trans)

lemma same_group:
  assumes "chained rs a b"
  shows "filter (chained rs a) rs = filter (chained rs b) rs"
proof (rule filter_cong [OF refl])
  fix x
  show "chained rs a x = chained rs b x"
    using chained_trans [OF assms] chained_trans [OF chained_sym [OF assms]] by blast
qed

section \<open>What the assignment returns\<close>

text \<open>The record an image becomes when its group was given the decision \<open>d\<close>.\<close>

definition grouped_image :: "dataset_image list \<Rightarrow> dataset_image \<Rightarrow> string \<times> dataset_split \<Rightarrow> dataset_image" where
  "grouped_image rs r d = r\<lparr>duplicate_group := rgb_checksum r, split_group := fst d,
     assigned_split := Some (snd d), representative_source_path := first_path rs (rgb_checksum r)\<rparr>"

lemma first_path_member: "r \<in> set rs \<Longrightarrow> first_path rs (rgb_checksum r) \<noteq> None"
  by (auto simp: first_path_def find_None_iff)

lemma decided_table:
  assumes run: "decide_all h seed mapping groups = Inr table" and d: "distinct (map source_path rs)"
    and g: "set groups = (\<lambda>r. filter (chained rs r) rs) ` set rs" and r: "r \<in> set rs"
  shows "\<exists>e. decide_group h seed mapping (filter (chained rs r) rs) = Inr e \<and> dict_get table (source_path r) = Some e"
proof -
  from run obtain decided where t: "traverse (\<lambda>g. andThen (decide_group h seed mapping g) (\<lambda>d. Inr (g, d))) groups = Inr decided"
    and table: "table = fold (\<lambda>(g, d) table. fold (\<lambda>r. AList.update (source_path r) d) g table) decided []"
    by (auto simp: decide_all_def andThen_eq_Inr)
  from t have len: "length decided = length groups"
    and dec: "\<And>i. i < length groups \<Longrightarrow> \<exists>e. decide_group h seed mapping (groups ! i) = Inr e \<and> decided ! i = (groups ! i, e)"
    by (auto simp: traverse_Inr andThen_eq_Inr)
  let ?g = "filter (chained rs r) rs"
  have "chained rs r r" by (simp add: chained_def)
  then have rg: "r \<in> set ?g" using r by simp
  from g r have "?g \<in> set groups" by blast
  then obtain i where i: "i < length groups" "groups ! i = ?g" by (auto simp: in_set_conv_nth)
  with dec [OF i(1)] obtain e where e: "decide_group h seed mapping ?g = Inr e" "decided ! i = (?g, e)" by auto
  have same: "d = e" if m: "(g', d) \<in> set decided" "source_path r \<in> source_path ` set g'" for g' d
  proof -
    from m(1) obtain k where k: "k < length groups" "decided ! k = (g', d)" by (auto simp: in_set_conv_nth len)
    then have "groups ! k = g'" and dk: "decide_group h seed mapping g' = Inr d" using dec [OF k(1)] by auto
    have "g' \<in> set groups" using k(1) \<open>groups ! k = g'\<close> nth_mem by blast
    then obtain a where a: "g' = filter (chained rs a) rs" unfolding g by blast
    from m(2) a obtain b where b: "b \<in> set rs" "chained rs a b" "source_path b = source_path r" by auto
    then have "b = r" using d r by (metis inj_onD distinct_map)
    with b a same_group [of rs a r] have "g' = ?g" by simp
    with dk e show ?thesis by simp
  qed
  have "(?g, e) \<in> set decided" using i(1) e(2) len nth_mem by metis
  then have "\<exists>(g, d) \<in> set decided. source_path r \<in> source_path ` set g" using rg by blast
  then have "dict_get table (source_path r) = Some e"
    unfolding table using same by (intro decided_entry disjI1) auto
  with e(1) show ?thesis by blast
qed

lemma assign_outcome:
  assumes "assign h records kind seed training mapping = Some (Inr out)"
  defines "rs \<equiv> sort_key source_path records"
  shows "distinct (map source_path rs) \<and> length out = length rs \<and>
    (training \<longrightarrow> list_ex usable_for_training out) \<and>
    (\<forall>i < length rs. \<exists>d. decide_group h seed mapping (filter (chained rs (rs ! i)) rs) = Inr d \<and>
       out ! i = grouped_image rs (rs ! i) d)"
proof -
  have run: "assign h records kind seed training mapping = Some (Inr out)" by fact
  then have d: "distinct (map source_path rs)" and ne: "rs \<noteq> []"
    by (auto simp: assign_def Let_def rs_def split: if_splits)
  have "distinct rs" using d by (simp add: distinct_map)
  from collected_groups [OF this ne] obtain l members
    where l: "link_records 0 rs \<lparr>parents = [0..<length rs], tokens = [], representatives = []\<rparr> = Some l"
    and m: "collect 0 rs (parents l) [] = Some members"
    and f: "\<And>c. dict_get (representatives l) c = first_path rs c"
    and g: "set (map snd members) = (\<lambda>r. filter (chained rs r) rs) ` set rs"
    by blast
  obtain u where u: "check_declarations rs kind = Inr u"
    using run d ne by (cases "check_declarations rs kind") (auto simp: assign_def Let_def rs_def [symmetric])
  from run have "andThen (decide_all h seed mapping (map snd members)) (\<lambda>decisions.
                  andThen (traverse (assigned decisions (representatives l)) rs) (\<lambda>out.
                  if training \<and> \<not> list_ex usable_for_training out then Inl training_empty else Inr out)) = Inr out"
    unfolding assign_def Let_def rs_def [symmetric] using d ne u l m by simp
  then obtain table where t: "decide_all h seed mapping (map snd members) = Inr table"
    and o: "traverse (assigned table (representatives l)) rs = Inr out"
    and tr: "training \<longrightarrow> list_ex usable_for_training out"
    by (auto simp: andThen_eq_Inr split: if_splits)
  from o have len: "length out = length rs"
    and each: "\<And>i. i < length rs \<Longrightarrow> assigned table (representatives l) (rs ! i) = Inr (out ! i)"
    by (auto simp: traverse_Inr)
  have "\<exists>d. decide_group h seed mapping (filter (chained rs (rs ! i)) rs) = Inr d \<and>
       out ! i = grouped_image rs (rs ! i) d" if i: "i < length rs" for i
  proof -
    from decided_table [OF t d g nth_mem [OF i]] obtain e
      where e: "decide_group h seed mapping (filter (chained rs (rs ! i)) rs) = Inr e"
        "dict_get table (source_path (rs ! i)) = Some e" by blast
    obtain p where p: "first_path rs (rgb_checksum (rs ! i)) = Some p"
      using first_path_member [OF nth_mem [OF i]] by auto
    from each [OF i] e(2) p have "out ! i = grouped_image rs (rs ! i) e"
      by (cases e) (simp add: assigned_def f grouped_image_def)
    with e(1) show ?thesis by blast
  qed
  with d len tr show ?thesis by blast
qed

text \<open>Grouping changes no pixels and no identities, so the chains of the output are those of the input.\<close>



lemma keys_grouped: "image_keys (grouped_image rs a d) = image_keys a"
  by (simp add: image_keys_def rgb_token_def grouped_image_def)

lemma grouped_chains:
  assumes len: "length out = length rs" and d: "distinct (map source_path rs)"
    and out: "\<And>i. i < length rs \<Longrightarrow> \<exists>d. out ! i = grouped_image rs (rs ! i) d"
  shows "map source_path out = map source_path rs" and "distinct out"
    and "i < length rs \<Longrightarrow> j < length rs \<Longrightarrow> chained out (out ! i) (out ! j) \<longleftrightarrow> chained rs (rs ! i) (rs ! j)"
proof -
  have "source_path (out ! i) = source_path (rs ! i)" if "i < length rs" for i
    using out [OF that] by (auto simp: grouped_image_def)
  then show paths: "map source_path out = map source_path rs" using len by (intro nth_equalityI) auto
  have rd: "distinct rs" using d distinct_map by blast
  have "distinct (map source_path out)" unfolding paths by (rule d)
  then show od: "distinct out" using distinct_map by blast
  have "image_keys (out ! i) = image_keys (rs ! i)" if "i < length rs" for i
    using out [OF that] by (auto simp: keys_grouped)
  then have "token_pairs 0 out = token_pairs 0 rs" using len by (auto simp: token_pairs_def)
  then show "i < length rs \<Longrightarrow> j < length rs \<Longrightarrow> chained out (out ! i) (out ! j) \<longleftrightarrow> chained rs (rs ! i) (rs ! j)"
    using shares_chained [OF rd, of i j] shares_chained [OF od, of i j] len by simp
qed

lemma group_keys:
  assumes len: "length out = length rs" and d: "distinct (map source_path rs)"
    and out: "\<And>i. i < length rs \<Longrightarrow> \<exists>d. out ! i = grouped_image rs (rs ! i) d" and i: "i < length rs"
  shows "group_identifiers (filter (chained rs (rs ! i)) rs) =
    sorted_list_of_set (\<Union>c \<in> {c \<in> set out. chained out (out ! i) c}. set (image_keys c))"
proof -
  note chains = grouped_chains(3) [OF len d out]
  have "(\<Union>c \<in> {c \<in> set out. chained out (out ! i) c}. set (image_keys c))
      = (\<Union>j \<in> {j. j < length rs \<and> chained out (out ! i) (out ! j)}. set (image_keys (out ! j)))"
    using len by (auto simp: in_set_conv_nth)
  also have "\<dots> = (\<Union>j \<in> {j. j < length rs \<and> chained rs (rs ! i) (rs ! j)}. set (image_keys (rs ! j)))"
  proof (rule SUP_cong)
    show "{j. j < length rs \<and> chained out (out ! i) (out ! j)} = {j. j < length rs \<and> chained rs (rs ! i) (rs ! j)}"
      using chains [OF _ i] by blast
    fix j assume "j \<in> {j. j < length rs \<and> chained rs (rs ! i) (rs ! j)}"
    then show "set (image_keys (out ! j)) = set (image_keys (rs ! j))"
      using out [of j] by (auto simp: keys_grouped)
  qed
  also have "\<dots> = set (concat (map image_keys (filter (chained rs (rs ! i)) rs)))"
    by (auto simp: in_set_conv_nth)
  finally show ?thesis
    unfolding group_identifiers_def sorted_list_of_set_sort_remdups [symmetric] by (simp only:)
qed

lemma decided_split:
  assumes "decide_group h seed mapping g = Inr d" and "r \<in> set g" and "upstream_split r = Some l"
  shows "dict_get mapping l = Some (snd d)"
proof -
  let ?labels = "remdups (List.map_filter upstream_split g)"
  let ?declared = "remdups (map (\<lambda>label. the (dict_get mapping label)) ?labels)"
  have l: "l \<in> set ?labels" using assms(2,3) by (force simp: List.map_filter_def)
  from assms(1) have known: "\<forall>label \<in> set ?labels. dict_get mapping label \<noteq> None"
    and one: "length ?declared \<le> 1"
    and d: "\<And>s ss. ?declared = s # ss \<Longrightarrow> snd d = s"
    unfolding decide_group_def Let_def list_ex_iff by (auto split: if_splits)
  have m: "the (dict_get mapping l) \<in> set ?declared" unfolding set_remdups set_map using l by (intro imageI) simp
  have "?declared = [snd d]"
  proof (cases ?declared)
    case Nil
    with m show ?thesis by (metis empty_iff list.set(1))
  next
    case (Cons s ss)
    with one have "ss = []" by (metis Suc_le_mono One_nat_def le_zero_eq length_0_conv length_Cons)
    with Cons d [OF Cons] show ?thesis by simp
  qed
  with m have "the (dict_get mapping l) = snd d" by (metis empty_iff list.set(1) list.set_intros(1) set_ConsD)
  with known l show ?thesis by auto
qed

end
