(* ===== verification/GroupProperties.thy ===== *)
theory GroupProperties
  imports DatasetGroups
begin

text \<open>
  What the grouping of a dataset guarantees: it always returns, a group is exactly a chain of
  images with common pixels or identities, a chain never spans two splits, and the order in
  which the images are given does not matter.
\<close>

section \<open>Properties\<close>

text \<open>
  C27: grouping always returns, with the grouped records or with a failure. The search for a
  root is a loop without a bound in the source; the parents never form a cycle.
\<close>

theorem grouping_terminates: "\<exists>r. assign_groups h records kind seed training mapping = Some r"
proof -
  let ?rs = "sort_key source_path records"
  have "\<exists>r. assign h records kind seed training mapping = Some r"
  proof (cases "?rs = [] \<or> \<not> distinct (map source_path ?rs)")
    case True
    then show ?thesis by (auto simp: assign_def Let_def)
  next
    case False
    then have "distinct ?rs" "?rs \<noteq> []" by (auto simp: distinct_map)
    from collected_groups [OF this] obtain l m
      where "link_records 0 ?rs \<lparr>parents = [0..<length ?rs], tokens = [], representatives = []\<rparr> = Some l"
        and "collect 0 ?rs (parents l) [] = Some m" by blast
    with False show ?thesis by (cases "check_declarations ?rs kind") (auto simp: assign_def Let_def)
  qed
  then show ?thesis by (auto simp: assign_groups_def)
qed

lemma map_sort_key: "map f (sort_key f xs) = sort (map f xs)"
  by (rule properties_for_sort [symmetric]) (simp_all only: mset_map mset_sort sorted_sort_key)

lemma assign_groups_Inr:
  assumes "assign_groups h records kind seed training mapping = Some (Inr out)"
  shows "assign h records kind seed training mapping = Some (Inr out)"
proof (cases "assign h records kind seed training mapping")
  case None
  with assms show ?thesis by (simp add: assign_groups_def split: if_splits)
next
  case (Some z)
  with assms show ?thesis by (cases z) (simp_all add: assign_groups_def split: if_splits)
qed

text \<open>
  C26: the groups are the chains of images that share pixels or an upstream identity. The group
  identifier of an image is the digest of the sorted tokens of its whole chain, and every
  image of the chain gets the same split: leakage between splits is impossible. A declared
  upstream split is kept, and no image is lost or invented.
\<close>

theorem groups_are_chains:
  assumes "assign_groups h records kind seed training mapping = Some (Inr out)"
    and "a \<in> set out" and "b \<in> set out"
  shows "(chained out a b \<longrightarrow> split_group a = split_group b \<and> assigned_split a = assigned_split b) \<and>
    split_group a = group_digest h
      (sorted_list_of_set (\<Union>c \<in> {c \<in> set out. chained out a c}. set (image_keys c))) \<and>
    (\<forall>l. upstream_split a = Some l \<longrightarrow> assigned_split a = dict_get mapping l) \<and>
    map source_path out = sort (map source_path records)"
proof -
  let ?rs = "sort_key source_path records"
  have run: "assign h records kind seed training mapping = Some (Inr out)"
    using assms(1) by (rule assign_groups_Inr)
  note o = assign_outcome [OF run]
  then have d: "distinct (map source_path ?rs)" and len: "length out = length ?rs"
    and each: "\<And>i. i < length ?rs \<Longrightarrow> \<exists>d. decide_group h seed mapping (filter (chained ?rs (?rs ! i)) ?rs) = Inr d \<and>
       out ! i = grouped_image ?rs (?rs ! i) d" by blast+
  then have out: "\<And>i. i < length ?rs \<Longrightarrow> \<exists>d. out ! i = grouped_image ?rs (?rs ! i) d" by blast
  obtain i where i: "i < length ?rs" "out ! i = a" using assms(2) len by (metis in_set_conv_nth)
  obtain j where j: "j < length ?rs" "out ! j = b" using assms(3) len by (metis in_set_conv_nth)
  obtain x where x: "decide_group h seed mapping (filter (chained ?rs (?rs ! i)) ?rs) = Inr x"
    "a = grouped_image ?rs (?rs ! i) x" using each [OF i(1)] i(2) by blast
  obtain y where y: "decide_group h seed mapping (filter (chained ?rs (?rs ! j)) ?rs) = Inr y"
    "b = grouped_image ?rs (?rs ! j) y" using each [OF j(1)] j(2) by blast
  have "split_group a = split_group b \<and> assigned_split a = assigned_split b" if c: "chained out a b"
  proof -
    have "chained ?rs (?rs ! i) (?rs ! j)" using grouped_chains(3) [OF len d out i(1) j(1)] c i(2) j(2) by simp
    from same_group [OF this] x(1) y(1) have "x = y" by simp
    then show ?thesis by (simp add: x(2) y(2) grouped_image_def)
  qed
  moreover have "split_group a = group_digest h (group_identifiers (filter (chained ?rs (?rs ! i)) ?rs))"
    using x by (auto simp: grouped_image_def decide_group_def Let_def split: if_splits)
  moreover have "group_identifiers (filter (chained ?rs (?rs ! i)) ?rs) =
      sorted_list_of_set (\<Union>c \<in> {c \<in> set out. chained out a c}. set (image_keys c))"
    using group_keys [OF len d out i(1)] i(2) by simp
  moreover have "assigned_split a = dict_get mapping l" if "upstream_split a = Some l" for l
  proof -
    have "?rs ! i \<in> set (filter (chained ?rs (?rs ! i)) ?rs)" using nth_mem [OF i(1)] by (simp add: chained_def)
    moreover have "upstream_split (?rs ! i) = Some l" using that x(2) by (simp add: grouped_image_def)
    ultimately show ?thesis using decided_split [OF x(1)] x(2) by (simp add: grouped_image_def)
  qed
  moreover have "map source_path out = sort (map source_path records)"
    using grouped_chains(1) [OF len d out] by (simp add: map_sort_key)
  ultimately show ?thesis by simp
qed

text \<open>
  C28: the result does not depend on the order in which the images are given: any permutation
  of the records is grouped, assigned and ordered the same way, and fails the same way.
\<close>

theorem grouping_ignores_order:
  assumes "mset records = mset records'"
  shows "assign_groups h records kind seed training mapping = assign_groups h records' kind seed training mapping"
proof -
  let ?rs = "sort_key source_path records" and ?rs' = "sort_key source_path records'"
  have ps: "map source_path ?rs = map source_path ?rs'"
    unfolding map_sort_key by (rule properties_for_sort) (simp_all add: assms)
  have ne: "records = [] \<longleftrightarrow> records' = []" using assms by auto
  have "assign h records kind seed training mapping = assign h records' kind seed training mapping"
  proof (cases "distinct (map source_path ?rs)")
    case True
    then have "inj_on source_path (set ?rs)" using distinct_map by blast
    then have "inj_on source_path (set records)" by simp
    then have "?rs = ?rs'" using assms by (intro sort_key_inj_key_eq) (simp_all)
    then show ?thesis by (simp only: assign_def)
  next
    case False
    moreover have "\<not> distinct (map source_path ?rs')" using False ps by simp
    ultimately show ?thesis unfolding assign_def Let_def by (simp only: simp_thms if_True)
  qed
  with ne show ?thesis by (simp only: assign_groups_def)
qed

section \<open>Concrete images\<close>

definition demo_picture :: "nat \<Rightarrow> string \<Rightarrow> pystr option \<Rightarrow> dataset_image" where
  "demo_picture n rgb identity = \<lparr>source_path = [n], prepared_path = [n], source_identity = identity,
     upstream_split = None, subset = None, assigned_split = None, duplicate_group = [], split_group = [],
     representative_source_path = None, source_checksum = [], prepared_checksum = [], rgb_checksum = rgb,
     source_bytes = 1, prepared_bytes = 1, source_width = 256, source_height = 256, width = 256, height = 256,
     source_format = Png, source_mode = Mode_RGB, mode = Mode_RGB, orientation = 1,
     color_policy = Assumed_Srgb, grayscale_converted = False, eligible = True\<rparr>"

definition demo_hashing :: hashing where
  "demo_hashing = \<lparr>group_digest = (\<lambda>ts. map (\<lambda>t. if t = [] then CHR ''0'' else CHR ''1'') ts),
     bucket_digest = (\<lambda>_ _. ''0000000000000001'')\<rparr>"

definition demo_pictures :: "dataset_image list" where
  "demo_pictures = [demo_picture 7 ''b'' (Some [9]), demo_picture 6 ''a'' (Some [9]), demo_picture 5 ''a'' None]"

lemma demo_fields:
  "source_path (demo_picture n c i) = [n]" "rgb_checksum (demo_picture n c i) = c"
  "source_identity (demo_picture n c i) = i" "upstream_split (demo_picture n c i) = None"
  "eligible (demo_picture n c i)"
  by (simp_all add: demo_picture_def)

lemma demo_grouped:
  "assign_groups demo_hashing demo_pictures Kind_Local 0 True split_mapping = Some (Inr (map (\<lambda>r. grouped_image
     [demo_picture 5 ''a'' None, demo_picture 6 ''a'' (Some [9]), demo_picture 7 ''b'' (Some [9])] r (''111'', Split_Train))
     [demo_picture 5 ''a'' None, demo_picture 6 ''a'' (Some [9]), demo_picture 7 ''b'' (Some [9])]))"
proof -
  let ?rs = "[demo_picture 5 ''a'' None, demo_picture 6 ''a'' (Some [9]), demo_picture 7 ''b'' (Some [9])]"
  have s: "sort_key source_path demo_pictures = ?rs"
    by (simp add: demo_pictures_def demo_picture_def)
  have f: "find_root [0, Suc 0, Suc (Suc 0)] 0 = Some ([0, Suc 0, Suc (Suc 0)], 0)" "find_root [0, Suc 0, Suc (Suc 0)] (Suc 0) = Some ([0, Suc 0, Suc (Suc 0)], Suc 0)"
    "find_root [0, 0, Suc (Suc 0)] 0 = Some ([0, 0, Suc (Suc 0)], 0)" "find_root [0, 0, Suc (Suc 0)] (Suc (Suc 0)) = Some ([0, 0, Suc (Suc 0)], Suc (Suc 0))"
    "find_root [0, 0, 0] 0 = Some ([0, 0, 0], 0)"
    by (subst find_root.simps, simp)+
  have g: "find_root [0, 0, Suc (Suc 0)] (Suc 0) = Some ([0, 0, Suc (Suc 0)], 0)" "find_root [0, 0, 0] (Suc 0) = Some ([0, 0, 0], 0)"
    "find_root [0, 0, 0] (Suc (Suc 0)) = Some ([0, 0, 0], 0)"
    by (subst find_root.simps, simp add: f)+
  have l: "link_roots [0, Suc 0, Suc (Suc 0)] (Suc 0) 0 = Some [0, 0, Suc (Suc 0)]" "link_roots [0, 0, Suc (Suc 0)] (Suc (Suc 0)) (Suc 0) = Some [0, 0, 0]"
    by (simp_all add: link_roots_def f g)
  have k: "image_keys (demo_picture 5 ''a'' None) = [points ''rgb:a'']"
    "image_keys (demo_picture 6 ''a'' (Some [9])) = [points ''rgb:a'', points ''identity:'' @ [9]]"
    "image_keys (demo_picture 7 ''b'' (Some [9])) = [points ''rgb:b'', points ''identity:'' @ [9]]"
    by (simp_all add: image_keys_def rgb_token_def demo_picture_def flip: points_append)
  have ne: "points ''rgb:a'' \<noteq> points ''rgb:b''" "points ''rgb:a'' \<noteq> points ''identity:'' @ [9]"
    "points ''rgb:b'' \<noteq> points ''identity:'' @ [9]"
    by (simp_all add: points_def)
  note ne = ne ne [symmetric]
  have link: "link_records 0 ?rs \<lparr>parents = [0, Suc 0, Suc (Suc 0)], tokens = [], representatives = []\<rparr> =
      Some \<lparr>parents = [0, 0, 0], tokens = [(points ''rgb:a'', 0), (points ''identity:'' @ [9], Suc 0), (points ''rgb:b'', Suc (Suc 0))],
        representatives = [(''a'', [5]), (''b'', [7])]\<rparr>"
    by (simp add: k ne l set_default_def demo_fields)
  have c: "collect 0 ?rs [0, 0, 0] [] = Some [(0, ?rs)]" by (simp add: f g)
  have d: "decide_group demo_hashing 0 split_mapping ?rs = Inr (''111'', Split_Train)"
  proof -
    have "sort (remdups (concat (map image_keys ?rs))) = [points ''identity:'' @ [9], points ''rgb:a'', points ''rgb:b'']"
      by (simp add: k ne) (simp add: points_def)
    then have "group_digest demo_hashing (group_identifiers ?rs) = ''111''"
      unfolding group_identifiers_def by (simp add: demo_hashing_def points_def)
    then show ?thesis
      by (simp add: decide_group_def demo_fields List.map_filter_def generated_split_def demo_hashing_def
          hex_value_def hex_digit_def is_digit_char_def char_between_def dataset_splits_def)
  qed
  have t: "decide_all demo_hashing 0 split_mapping [?rs] =
      Inr [([5], ''111'', Split_Train), ([6], ''111'', Split_Train), ([7], ''111'', Split_Train)]"
    unfolding decide_all_def by (simp add: d demo_fields)
  let ?out = "map (\<lambda>r. grouped_image ?rs r (''111'', Split_Train)) ?rs"
  have o: "traverse (assigned [([5], ''111'', Split_Train), ([6], ''111'', Split_Train), ([7], ''111'', Split_Train)]
      [(''a'', [5]), (''b'', [7])]) ?rs = Inr ?out"
    by (simp add: assigned_def demo_fields grouped_image_def first_path_def)
  have u: "list_ex usable_for_training ?out"
    by (simp add: usable_for_training_def grouped_image_def first_path_def demo_fields)
  have dec: "check_declarations ?rs Kind_Local = Inr ()"
    by (simp add: check_declarations_def demo_fields)
  have "assign demo_hashing demo_pictures Kind_Local 0 True split_mapping = Some (Inr ?out)"
    unfolding assign_def Let_def s using link c t o u dec by (simp add: demo_fields del: link_records.simps collect.simps)
  then show ?thesis by (simp add: assign_groups_def demo_pictures_def)
qed

theorem groups_are_chains_witness:
  "\<exists>out a b. assign_groups demo_hashing demo_pictures Kind_Local 0 True split_mapping = Some (Inr out) \<and>
     a \<in> set out \<and> b \<in> set out \<and> source_path a = [5] \<and> source_path b = [6] \<and> split_group a = split_group b"
proof -
  let ?rs = "[demo_picture 5 ''a'' None, demo_picture 6 ''a'' (Some [9]), demo_picture 7 ''b'' (Some [9])]"
  let ?g = "\<lambda>r. grouped_image ?rs r (''111'', Split_Train)"
  let ?a = "?g (demo_picture 5 ''a'' None)" and ?b = "?g (demo_picture 6 ''a'' (Some [9]))"
  have m: "?a \<in> set (map ?g ?rs)" "?b \<in> set (map ?g ?rs)" by simp_all
  have "related ?a ?b" by (simp add: related_def grouped_image_def demo_fields)
  with m have "chained (map ?g ?rs) ?a ?b" unfolding chained_def by (intro r_into_rtranclp) simp
  with groups_are_chains [OF demo_grouped m] have "split_group ?a = split_group ?b" by blast
  moreover have "source_path ?a = [5]" "source_path ?b = [6]" by (simp_all add: grouped_image_def demo_fields)
  ultimately show ?thesis using demo_grouped m
    by - (rule exI [of _ "map ?g ?rs"], rule exI [of _ ?a], rule exI [of _ ?b], intro conjI)
qed

theorem grouping_ignores_order_witness:
  "assign_groups demo_hashing (rev demo_pictures) Kind_Local 0 True split_mapping =
   assign_groups demo_hashing demo_pictures Kind_Local 0 True split_mapping"
  by (rule grouping_ignores_order) simp

end
