(* ===== verification/UploadFiles.thy ===== *)
theory UploadFiles
  imports Files "HOL-Library.Char_ord" "HOL-Library.List_Lexorder"
begin

text \<open>
  The records and the directory tree of chunked archive uploads: \<^verbatim>\<open>schemas/dataset_uploads.py\<close>
  and \<^verbatim>\<open>backend_service/dataset_sources/upload_session_files.py\<close>. Each file operation takes the
  next entry of a list of outcomes: it succeeds, or it fails and leaves a part of its effect,
  chosen by the number of the outcome. SHA-256 is a parameter, and a record is stored as such.
\<close>

section \<open>Records\<close>

definition maximum_upload_bytes :: nat where "maximum_upload_bytes = 2 * 1024 ^ 3"
definition upload_chunk_bytes :: nat where "upload_chunk_bytes = 16 * 1024 ^ 2"
definition maximum_upload_chunks :: nat where "maximum_upload_chunks = 128"
definition upload_retention_seconds :: int where "upload_retention_seconds = 24 * 60 * 60"

definition upload_pattern :: "string \<Rightarrow> bool" where
  "upload_pattern s \<longleftrightarrow> take 7 s = ''upload_'' \<and> length s = 39 \<and> list_all is_hex_char (drop 7 s)"

definition file_name_pattern :: "string \<Rightarrow> bool" where
  "file_name_pattern s \<longleftrightarrow>
     (let word = (\<lambda>c. is_lower_char c \<or> is_upper_char c \<or> is_digit_char c) in
      case s of [] \<Rightarrow> False
      | c # cs \<Rightarrow> word c \<and> length cs \<le> 254 \<and> list_all (\<lambda>d. word d \<or> d \<in> set '' ._-'') cs)"

record upload_request =
  upload_client :: string
  request_file_name :: string
  request_total_bytes :: nat
  request_sha256 :: "string option"

definition upload_request_valid :: "upload_request \<Rightarrow> bool" where
  "upload_request_valid q \<longleftrightarrow> file_name_pattern (request_file_name q) \<and>
     1 \<le> request_total_bytes q \<and> request_total_bytes q \<le> maximum_upload_bytes \<and>
     (case request_sha256 q of None \<Rightarrow> True | Some c \<Rightarrow> is_sha256 c)"

record upload_session =
  upload_name :: string
  upload_file_name :: string
  upload_total_bytes :: nat
  chunk_bytes :: nat
  chunk_count :: nat
  received_chunks :: "nat list"
  upload_complete :: bool
  upload_sha256 :: "string option"
  upload_created_at :: int
  upload_expires_at :: int

definition parts_valid :: "upload_session \<Rightarrow> bool" where
  "parts_valid s \<longleftrightarrow>
     chunk_count s = (upload_total_bytes s + chunk_bytes s - 1) div chunk_bytes s \<and>
     received_chunks s = sort (remdups (received_chunks s)) \<and>
     list_all (\<lambda>i. i < chunk_count s) (received_chunks s) \<and>
     upload_complete s = (length (received_chunks s) = chunk_count s \<and> upload_sha256 s \<noteq> None)"

definition upload_session_valid :: "upload_session \<Rightarrow> bool" where
  "upload_session_valid s \<longleftrightarrow>
     upload_pattern (upload_name s) \<and> file_name_pattern (upload_file_name s) \<and>
     1 \<le> upload_total_bytes s \<and> upload_total_bytes s \<le> maximum_upload_bytes \<and>
     chunk_bytes s = upload_chunk_bytes \<and> 1 \<le> chunk_count s \<and> chunk_count s \<le> maximum_upload_chunks \<and>
     length (received_chunks s) \<le> maximum_upload_chunks \<and>
     (case upload_sha256 s of None \<Rightarrow> True | Some c \<Rightarrow> is_sha256 c) \<and> parts_valid s"

record upload_chunk =
  chunk_upload :: string
  chunk_index :: int
  chunk_length :: nat
  chunk_sha256 :: string
  chunk_received :: "nat list"

record stored_upload =
  stored_session :: upload_session
  stored_client :: string
  stored_fingerprint :: string
  stored_expected :: "string option"

definition expected_chunk_bytes :: "upload_session \<Rightarrow> nat \<Rightarrow> nat" where
  "expected_chunk_bytes s i =
     (if i + 1 = chunk_count s then upload_total_bytes s - i * chunk_bytes s else chunk_bytes s)"

definition is_archive_prefix :: "byte list \<Rightarrow> bool" where
  "is_archive_prefix p \<longleftrightarrow>
     take 4 p = [0x50, 0x4B, 0x03, 0x04] \<or> take 2 p = [0x1F, 0x8B] \<or>
     262 \<le> length p \<and> take 5 (drop 257 p) = [0x75, 0x73, 0x74, 0x61, 0x72]"

section \<open>The tree\<close>

text \<open>
  A session directory holds the record, \<open>None\<close> when it is absent or unreadable, the parts
  and the archive. A request file holds the identifier of the session it opened.
\<close>

record upload_directory =
  session_record :: "stored_upload option"
  chunk_files :: "(nat \<times> byte list) list"
  archive_file :: "byte list option"

definition empty_directory :: upload_directory where
  "empty_directory = \<lparr>session_record = None, chunk_files = [], archive_file = None\<rparr>"

record upload_tree =
  directories :: "(string \<times> upload_directory) list"
  request_files :: "(string \<times> string) list"
  outcomes :: "nat option list"

definition file_operation ::
  "(nat \<Rightarrow> upload_tree \<Rightarrow> upload_tree) \<Rightarrow> (upload_tree \<Rightarrow> upload_tree) \<Rightarrow> (upload_tree, unit) action"
where
  "file_operation partial whole s =
     (case outcomes s of
        [] \<Rightarrow> (whole s, Inr ())
      | None # rest \<Rightarrow> (whole (s\<lparr>outcomes := rest\<rparr>), Inr ())
      | Some n # rest \<Rightarrow> (partial n (s\<lparr>outcomes := rest\<rparr>), Inl OS_Error))"

definition file_read :: "(upload_tree \<Rightarrow> 'a) \<Rightarrow> (upload_tree, 'a) action" where
  "file_read f = act_bind (file_operation (\<lambda>n s. s) id) (\<lambda>_. act_bind act_get (\<lambda>s. act_return (f s)))"

definition within_directory :: "string \<Rightarrow> (upload_directory \<Rightarrow> upload_directory) \<Rightarrow> upload_tree \<Rightarrow> upload_tree" where
  "within_directory i f s = (case dict_get (directories s) i of
     None \<Rightarrow> s | Some d \<Rightarrow> s\<lparr>directories := AList.update i (f d) (directories s)\<rparr>)"

definition make_directory :: "string \<Rightarrow> upload_tree \<Rightarrow> upload_tree" where
  "make_directory i s = (case dict_get (directories s) i of
     None \<Rightarrow> s\<lparr>directories := AList.update i empty_directory (directories s)\<rparr> | Some d \<Rightarrow> s)"

definition session_identifiers :: "upload_tree \<Rightarrow> string list" where
  "session_identifiers s = sort (filter upload_pattern (dict_keys (directories s)))"

definition read_record :: "string \<Rightarrow> (upload_tree, stored_upload option) action" where
  "read_record i = file_read (\<lambda>s. case dict_get (directories s) i of None \<Rightarrow> None | Some d \<Rightarrow> session_record d)"

text \<open>
  Records and request files are replaced atomically, through a sibling with a fixed ending.
  When the last flush fails the new file is in place all the same.
\<close>

definition save_record :: "stored_upload \<Rightarrow> (upload_tree, unit) action" where
  "save_record r =
     (let i = upload_name (stored_session r);
          whole = (\<lambda>s. within_directory i (\<lambda>d. d\<lparr>session_record := Some r\<rparr>) (make_directory i s)) in
      file_operation (\<lambda>n s. if n = 0 then s else if n = 1 then make_directory i s else whole s) whole)"

definition read_request :: "string \<Rightarrow> (upload_tree, string option) action" where
  "read_request c = file_read (\<lambda>s. dict_get (request_files s) c)"

definition pending :: "string \<Rightarrow> string" where
  "pending c = c @ ''.pending''"

definition write_request :: "string \<Rightarrow> string \<Rightarrow> (upload_tree, unit) action" where
  "write_request c i =
     (let whole = (\<lambda>s. s\<lparr>request_files := AList.update c i (AList.delete (pending c) (request_files s))\<rparr>) in
      file_operation
        (\<lambda>n s. if n = 0 then s
               else if n = 1 then s\<lparr>request_files := AList.delete (pending c) (request_files s)\<rparr>
               else if n = 2 then whole s
               else s\<lparr>request_files := AList.update (pending c) (take (n - 3) i) (request_files s)\<rparr>)
        whole)"

definition partly_removed :: "nat \<Rightarrow> upload_directory \<Rightarrow> upload_directory" where
  "partly_removed n d = \<lparr>session_record = (if bit n 0 then session_record d else None),
     chunk_files = filter (\<lambda>(k, _). bit n (k + 2)) (chunk_files d),
     archive_file = (if bit n 1 then archive_file d else None)\<rparr>"

definition remove_tree :: "string \<Rightarrow> (upload_tree, bool) action" where
  "remove_tree i = act_bind act_get (\<lambda>s.
     if dict_get (directories s) i = None then act_return False
     else act_bind (file_operation (\<lambda>n. within_directory i (partly_removed n))
            (\<lambda>s. s\<lparr>directories := AList.delete i (directories s)\<rparr>)) (\<lambda>_. act_return True))"

definition remove_request :: "string \<Rightarrow> (upload_tree, unit) action" where
  "remove_request c = file_operation (\<lambda>n s. s) (\<lambda>s. s\<lparr>request_files := AList.delete c (request_files s)\<rparr>)"

definition remove_session :: "string \<Rightarrow> string option \<Rightarrow> (upload_tree, bool) action" where
  "remove_session i client =
     act_bind (remove_tree i) (\<lambda>removed.
     act_bind (case client of
         None \<Rightarrow> act_return ()
       | Some c \<Rightarrow> if c = [] then act_return ()
           else act_bind (read_request c) (\<lambda>target. if target = Some i then remove_request c else act_return ())) (\<lambda>_.
     act_return removed))"

fun remove_stale :: "string list \<Rightarrow> (upload_tree, unit) action" where
  "remove_stale [] = act_return ()"
| "remove_stale (c # cs) =
     act_bind (read_request c) (\<lambda>target.
     act_bind act_get (\<lambda>s.
     act_bind (if (case target of None \<Rightarrow> True
                   | Some i \<Rightarrow> \<not> upload_pattern i \<or> dict_get (directories s) i = None)
               then remove_request c else act_return ()) (\<lambda>_.
     remove_stale cs)))"

definition remove_stale_requests :: "(upload_tree, unit) action" where
  "remove_stale_requests = act_bind (file_read (\<lambda>s. sort (dict_keys (request_files s)))) remove_stale"

section \<open>Parts and archives\<close>

definition chunk_file :: "string \<Rightarrow> nat \<Rightarrow> upload_tree \<Rightarrow> byte list option" where
  "chunk_file i k s = (case dict_get (directories s) i of None \<Rightarrow> None | Some d \<Rightarrow> dict_get (chunk_files d) k)"

definition chunk_size :: "string \<Rightarrow> nat \<Rightarrow> (upload_tree, nat option) action" where
  "chunk_size i k = file_read (\<lambda>s. map_option length (chunk_file i k s))"

definition chunk_digest :: "(byte list \<Rightarrow> string) \<Rightarrow> string \<Rightarrow> nat \<Rightarrow> (upload_tree, string) action" where
  "chunk_digest sha i k = act_bind (file_read (chunk_file i k)) (\<lambda>found.
     case found of None \<Rightarrow> act_raise OS_Error | Some data \<Rightarrow> act_return (sha data))"

text \<open>A failed write leaves the old part, no part, or a part cut short.\<close>

definition write_chunk :: "string \<Rightarrow> nat \<Rightarrow> byte list \<Rightarrow> (upload_tree, unit) action" where
  "write_chunk i k data = file_operation
     (\<lambda>n s. if n = 0 then s
            else within_directory i (\<lambda>d. d\<lparr>chunk_files :=
              (if n = 1 then AList.delete k (chunk_files d)
               else AList.update k (take (n - 2) data) (chunk_files d))\<rparr>) (make_directory i s))
     (\<lambda>s. within_directory i (\<lambda>d. d\<lparr>chunk_files := AList.update k data (chunk_files d)\<rparr>) (make_directory i s))"

definition unlink_chunk :: "string \<Rightarrow> nat \<Rightarrow> (upload_tree, unit) action" where
  "unlink_chunk i k = file_operation (\<lambda>n s. s)
     (within_directory i (\<lambda>d. d\<lparr>chunk_files := AList.delete k (chunk_files d)\<rparr>))"

definition remove_chunks :: "string \<Rightarrow> (upload_tree, unit) action" where
  "remove_chunks i = file_operation
     (\<lambda>n. within_directory i (\<lambda>d. d\<lparr>chunk_files := filter (\<lambda>(k, _). bit n k) (chunk_files d)\<rparr>))
     (within_directory i (\<lambda>d. d\<lparr>chunk_files := []\<rparr>))"

fun verified_parts :: "string \<Rightarrow> upload_session \<Rightarrow> nat list \<Rightarrow> (upload_tree, nat list) action" where
  "verified_parts i session [] = act_return []"
| "verified_parts i session (k # ks) =
     act_bind (chunk_size i k) (\<lambda>size.
     if size = Some (expected_chunk_bytes session k)
     then act_bind (verified_parts i session ks) (\<lambda>present. act_return (k # present))
     else act_bind (unlink_chunk i k) (\<lambda>_. verified_parts i session ks))"

definition extend_archive :: "string \<Rightarrow> byte list \<Rightarrow> upload_tree \<Rightarrow> upload_tree" where
  "extend_archive i data = within_directory i (\<lambda>d. d\<lparr>archive_file :=
     Some ((case archive_file d of None \<Rightarrow> [] | Some a \<Rightarrow> a) @ data)\<rparr>)"

definition archive_prefix_bytes :: nat where "archive_prefix_bytes = 512"

fun assemble_parts :: "string \<Rightarrow> nat list \<Rightarrow> byte list \<Rightarrow> byte list \<Rightarrow> (upload_tree, byte list \<times> byte list) action" where
  "assemble_parts i [] joined prefix = act_return (joined, prefix)"
| "assemble_parts i (k # ks) joined prefix =
     act_bind (file_read (chunk_file i k)) (\<lambda>found.
     case found of
       None \<Rightarrow> act_raise OS_Error
     | Some part \<Rightarrow>
         act_bind (file_operation (\<lambda>n. extend_archive i (take n part)) (extend_archive i part)) (\<lambda>_.
         act_bind (unlink_chunk i k) (\<lambda>_.
         assemble_parts i ks (joined @ part) (prefix @ take (archive_prefix_bytes - length prefix) part))))"

definition assemble :: "(byte list \<Rightarrow> string) \<Rightarrow> string \<Rightarrow> nat \<Rightarrow> (upload_tree, string \<times> byte list) action" where
  "assemble sha i count =
     act_bind (file_operation (\<lambda>n s. s) (within_directory i (\<lambda>d. d\<lparr>archive_file := None\<rparr>))) (\<lambda>_.
     act_bind (file_operation (\<lambda>n s. s) (extend_archive i [])) (\<lambda>_.
     act_bind (assemble_parts i [0..<count] [] []) (\<lambda>(joined, prefix).
     act_bind (file_operation (\<lambda>n s. s) id) (\<lambda>_.
     act_return (sha joined, prefix)))))"

definition directory_bytes :: "upload_directory \<Rightarrow> nat" where
  "directory_bytes d = sum_list (map (length \<circ> snd) (chunk_files d)) +
     (case archive_file d of None \<Rightarrow> 0 | Some a \<Rightarrow> length a)"

definition stored_bytes :: "upload_tree \<Rightarrow> nat" where
  "stored_bytes s = sum_list (map (directory_bytes \<circ> snd) (directories s))"

definition ends_with :: "string \<Rightarrow> string \<Rightarrow> bool" where
  "ends_with s e \<longleftrightarrow> length e \<le> length s \<and> drop (length s - length e) s = e"

text \<open>A request file counts too when its name ends like that of a part or of an archive.\<close>

definition used_bytes :: "(upload_tree, nat) action" where
  "used_bytes = file_read (\<lambda>s. stored_bytes s + sum_list (map (length \<circ> snd)
     (filter (\<lambda>(c, _). ends_with c ''.part'' \<or> ends_with c ''archive.bin'') (request_files s))))"

end
