(* ===== verification/UploadSessions.thy ===== *)
theory UploadSessions
  imports UploadFiles
begin

text \<open>
  The operations of \<^verbatim>\<open>backend_service/dataset_sources/upload_sessions.py\<close> on the tree of
  \<open>UploadFiles\<close>: opening a session, receiving parts in any order, joining them into a verified
  archive, discarding and expiry. Each runs under the exclusive lock of the store and turns
  errors of the file system and of validation into one failure. The clock is read once per
  operation; the uuid and the disk usage are arguments.
\<close>

definition maximum_upload_storage :: nat where "maximum_upload_storage = 6 * 1024 ^ 3"

definition upload_failure :: "string \<Rightarrow> exn" where
  "upload_failure code = Application_Failure code
     (if code \<in> {''upload_not_found'', ''upload_expired''} then 404
      else if code \<in> {''upload_chunk_index'', ''upload_chunk_size'', ''upload_checksum_mismatch'', ''upload_not_archive''} then 422
      else if code = ''upload_storage_full'' then 507
      else if code = ''upload_storage'' then 503 else 409)"

record upload_hashing =
  content_digest :: "byte list \<Rightarrow> string"
  request_digest :: "upload_request \<Rightarrow> string"

definition updated :: "upload_session \<Rightarrow> (upload_tree, upload_session) action" where
  "updated s = (if upload_session_valid s then act_return s else act_raise Value_Error)"

definition upload_locked :: "(upload_tree, 'a) action \<Rightarrow> (upload_tree, 'a) action" where
  "upload_locked m s =
     (case act_bind (file_operation (\<lambda>n s. s) id) (\<lambda>_. m) s of
        (t, Inr x) \<Rightarrow> (t, Inr x)
      | (t, Inl e) \<Rightarrow> (t, Inl (if e \<in> {OS_Error, Value_Error} then upload_failure ''upload_storage'' else e)))"

definition load_upload :: "int \<Rightarrow> string \<Rightarrow> (upload_tree, stored_upload) action" where
  "load_upload now i =
     (if \<not> upload_pattern i then act_raise (upload_failure ''upload_not_found'')
      else act_bind (read_record i) (\<lambda>found.
        case found of
          None \<Rightarrow> act_raise (upload_failure ''upload_not_found'')
        | Some r \<Rightarrow>
            if upload_expires_at (stored_session r) \<le> now
            then act_bind (remove_session i (Some (stored_client r))) (\<lambda>_.
                   act_raise (upload_failure ''upload_expired''))
            else act_return r))"

definition replayed_upload :: "int \<Rightarrow> string \<Rightarrow> (upload_tree, stored_upload option) action" where
  "replayed_upload now client =
     act_bind (read_request client) (\<lambda>target.
     case target of
       None \<Rightarrow> act_return None
     | Some i \<Rightarrow> (\<lambda>s. case load_upload now i s of
         (t, Inr r) \<Rightarrow> (t, Inr (Some r))
       | (t, Inl e) \<Rightarrow>
           if e = upload_failure ''upload_not_found'' \<or> e = upload_failure ''upload_expired''
           then (t, Inr None) else (t, Inl e)))"

definition check_upload_capacity :: "nat \<Rightarrow> (upload_tree, unit) action" where
  "check_upload_capacity next_bytes = act_bind used_bytes (\<lambda>used.
     if maximum_upload_storage < used + next_bytes then act_raise (upload_failure ''upload_storage_full'')
     else act_return ())"

definition new_session :: "int \<Rightarrow> string \<Rightarrow> upload_request \<Rightarrow> upload_session" where
  "new_session now uuid q = \<lparr>upload_name = ''upload_'' @ uuid, upload_file_name = request_file_name q,
     upload_total_bytes = request_total_bytes q, chunk_bytes = upload_chunk_bytes,
     chunk_count = (request_total_bytes q + upload_chunk_bytes - 1) div upload_chunk_bytes,
     received_chunks = [], upload_complete = False, upload_sha256 = None, upload_created_at = now,
     upload_expires_at = now + upload_retention_seconds * 1000000\<rparr>"

definition create_upload :: "upload_hashing \<Rightarrow> int \<Rightarrow> string \<Rightarrow> upload_request \<Rightarrow> (upload_tree, upload_session) action" where
  "create_upload h now uuid q = upload_locked (
     act_bind (replayed_upload now (upload_client q)) (\<lambda>existing.
     case existing of
       Some r \<Rightarrow>
         if stored_fingerprint r \<noteq> request_digest h q then act_raise (upload_failure ''request_identifier_conflict'')
         else act_return (stored_session r)
     | None \<Rightarrow>
         act_bind (check_upload_capacity (request_total_bytes q)) (\<lambda>_.
         act_bind (updated (new_session now uuid q)) (\<lambda>session.
         act_bind (save_record \<lparr>stored_session = session, stored_client = upload_client q,
             stored_fingerprint = request_digest h q, stored_expected = request_sha256 q\<rparr>) (\<lambda>_.
         act_bind (write_request (upload_client q) (upload_name session)) (\<lambda>_.
         act_return session))))))"

definition store_part :: "upload_hashing \<Rightarrow> disk_usage option \<Rightarrow> string \<Rightarrow> nat \<Rightarrow> byte list \<Rightarrow> (upload_tree, unit) action" where
  "store_part h usage i k data =
     act_bind (chunk_size i k) (\<lambda>size.
     if size \<noteq> Some (length data) then
       act_bind (check_upload_capacity (length data)) (\<lambda>_.
       act_bind (act_lift (ensure_disk_reserve usage (int (length data)))) (\<lambda>_.
       write_chunk i k data))
     else act_bind (chunk_digest (content_digest h) i k) (\<lambda>digest.
       if digest \<noteq> content_digest h data then act_raise (upload_failure ''upload_chunk_mismatch'') else act_return ()))"

definition record_part :: "stored_upload \<Rightarrow> nat \<Rightarrow> (upload_tree, upload_session) action" where
  "record_part r k =
     (let session = stored_session r in
      if k \<in> set (received_chunks session) then act_return session
      else act_bind (updated (session\<lparr>received_chunks := sort (received_chunks session @ [k])\<rparr>)) (\<lambda>changed.
        act_bind (save_record (r\<lparr>stored_session := changed\<rparr>)) (\<lambda>_. act_return changed)))"

definition receive_chunk :: "upload_hashing \<Rightarrow> int \<Rightarrow> disk_usage option \<Rightarrow> string \<Rightarrow> int \<Rightarrow> byte list
    \<Rightarrow> (upload_tree, upload_chunk) action" where
  "receive_chunk h now usage i index data = upload_locked (
     act_bind (load_upload now i) (\<lambda>r.
     let session = stored_session r; k = nat index in
     if upload_complete session then act_raise (upload_failure ''upload_already_complete'')
     else if index < 0 \<or> int (chunk_count session) \<le> index then act_raise (upload_failure ''upload_chunk_index'')
     else if length data \<noteq> expected_chunk_bytes session k then act_raise (upload_failure ''upload_chunk_size'')
     else act_bind (store_part h usage i k data) (\<lambda>_.
       act_bind (record_part r k) (\<lambda>changed.
       act_return \<lparr>chunk_upload = i, chunk_index = index, chunk_length = length data,
         chunk_sha256 = content_digest h data, chunk_received = received_chunks changed\<rparr>))))"

definition read_upload :: "int \<Rightarrow> string \<Rightarrow> (upload_tree, upload_session) action" where
  "read_upload now i = upload_locked (act_bind (load_upload now i) (\<lambda>r. act_return (stored_session r)))"

definition publish_archive :: "upload_hashing \<Rightarrow> disk_usage option \<Rightarrow> string \<Rightarrow> stored_upload \<Rightarrow> (upload_tree, upload_session) action" where
  "publish_archive h usage i r =
     (let session = stored_session r; discard = remove_session i (Some (stored_client r)) in
      act_bind (check_upload_capacity (chunk_bytes session)) (\<lambda>_.
      act_bind (act_lift (ensure_disk_reserve usage (int (chunk_bytes session)))) (\<lambda>_.
      act_bind (assemble (content_digest h) i (chunk_count session)) (\<lambda>(digest, prefix).
      if stored_expected r \<notin> {None, Some digest} then
        act_bind discard (\<lambda>_. act_raise (upload_failure ''upload_checksum_mismatch''))
      else if \<not> is_archive_prefix prefix then
        act_bind discard (\<lambda>_. act_raise (upload_failure ''upload_not_archive''))
      else
        act_bind (updated (session\<lparr>upload_complete := True, upload_sha256 := Some digest\<rparr>)) (\<lambda>done.
        act_bind (save_record (r\<lparr>stored_session := done\<rparr>)) (\<lambda>_.
        act_bind (remove_chunks i) (\<lambda>_. act_return done)))))))"

definition complete_upload :: "upload_hashing \<Rightarrow> int \<Rightarrow> disk_usage option \<Rightarrow> string \<Rightarrow> (upload_tree, upload_session) action" where
  "complete_upload h now usage i = upload_locked (
     act_bind (load_upload now i) (\<lambda>r.
     let session = stored_session r in
     if upload_complete session then act_bind (remove_chunks i) (\<lambda>_. act_return session)
     else act_bind (verified_parts i session (received_chunks session)) (\<lambda>present.
       if length present \<noteq> chunk_count session then
         act_bind (updated (session\<lparr>received_chunks := present\<rparr>)) (\<lambda>changed.
         act_bind (save_record (r\<lparr>stored_session := changed\<rparr>)) (\<lambda>_.
         act_raise (upload_failure ''upload_incomplete'')))
       else publish_archive h usage i r)))"

definition discard_upload :: "string \<Rightarrow> (upload_tree, unit) action" where
  "discard_upload i = upload_locked (
     if \<not> upload_pattern i then act_return ()
     else act_bind (read_record i) (\<lambda>found.
       act_bind (remove_session i (map_option stored_client found)) (\<lambda>_. act_return ())))"

definition archive_path :: "int \<Rightarrow> string \<Rightarrow> (upload_tree, string) action" where
  "archive_path now i = upload_locked (act_bind (load_upload now i) (\<lambda>r.
     if \<not> upload_complete (stored_session r) then act_raise (upload_failure ''upload_not_completed'') else act_return i))"

fun sweep_sessions :: "int \<Rightarrow> string list \<Rightarrow> (upload_tree, nat) action" where
  "sweep_sessions now [] = act_return 0"
| "sweep_sessions now (i # is) =
     act_bind (read_record i) (\<lambda>found.
     if (case found of None \<Rightarrow> True | Some r \<Rightarrow> upload_expires_at (stored_session r) \<le> now)
     then act_bind (remove_session i (map_option stored_client found)) (\<lambda>_.
            act_bind (sweep_sessions now is) (\<lambda>n. act_return (Suc n)))
     else sweep_sessions now is)"

definition sweep_uploads :: "int \<Rightarrow> (upload_tree, nat) action" where
  "sweep_uploads now = upload_locked (
     act_bind (file_read session_identifiers) (\<lambda>is.
     act_bind (sweep_sessions now is) (\<lambda>n.
     act_bind remove_stale_requests (\<lambda>_. act_return n))))"

definition upload_usage :: "(upload_tree, nat) action" where
  "upload_usage = upload_locked used_bytes"

end
