(* ===== verification/Specifications.thy ===== *)
theory Specifications
  imports Prelude
begin

text \<open>
  Specifications of the actions of \<open>Prelude\<close> with one postcondition for an answer and one
  for a failure, and the rules that take an operation apart along its calls.
\<close>

text \<open>From a state in \<open>P\<close>, an answer \<open>x\<close> leaves a state in \<open>Q x\<close> and a failure one in \<open>E\<close>.\<close>

definition act_spec :: "('s \<Rightarrow> bool) \<Rightarrow> ('s, 'a) action \<Rightarrow> ('a \<Rightarrow> 's \<Rightarrow> bool) \<Rightarrow> ('s \<Rightarrow> bool) \<Rightarrow> bool" where
  "act_spec P m Q E \<longleftrightarrow> (\<forall>s t r. P s \<longrightarrow> m s = (t, r) \<longrightarrow> (case r of Inr x \<Rightarrow> Q x t | Inl e \<Rightarrow> E t))"

named_theorems spec_intros

lemma act_specD: "act_spec P m Q E \<Longrightarrow> P s \<Longrightarrow> m s = (t, Inr x) \<Longrightarrow> Q x t"
  "act_spec P m Q E \<Longrightarrow> P s \<Longrightarrow> m s = (t, Inl e) \<Longrightarrow> E t"
  by (auto simp: act_spec_def)

lemma spec_bind: "act_spec P m R E \<Longrightarrow> (\<And>x. act_spec (R x) (f x) Q E) \<Longrightarrow> act_spec P (act_bind m f) Q E"
  unfolding act_spec_def act_bind_def by (fastforce split: prod.splits sum.splits)

lemma spec_weaken:
  "act_spec P' m Q' E' \<Longrightarrow> (\<And>s. P s \<Longrightarrow> P' s) \<Longrightarrow> (\<And>x s. Q' x s \<Longrightarrow> Q x s) \<Longrightarrow> (\<And>s. E' s \<Longrightarrow> E s) \<Longrightarrow> act_spec P m Q E"
  unfolding act_spec_def by (fastforce split: sum.splits)

lemma spec_assume: "(\<And>s. P s \<Longrightarrow> act_spec ((=) s) m Q E) \<Longrightarrow> act_spec P m Q E"
  by (auto simp: act_spec_def)

lemma spec_basic [spec_intros]:
  "(\<And>s. P s \<Longrightarrow> Q x s) \<Longrightarrow> act_spec P (act_return x) Q E"
  "(\<And>s. P s \<Longrightarrow> E s) \<Longrightarrow> act_spec P (act_raise e) Q E"
  by (auto simp: act_spec_def)

lemma spec_lift: "(\<And>s. P s \<Longrightarrow> E s) \<Longrightarrow> act_spec P (act_lift r) (\<lambda>x s. P s \<and> r = Inr x) E"
  by (auto simp: act_spec_def split: sum.splits)

lemma spec_get: "act_spec P act_get (\<lambda>x s. P s \<and> x = s) E"
  by (auto simp: act_spec_def)

lemma spec_if [spec_intros]:
  "(b \<Longrightarrow> act_spec P m Q E) \<Longrightarrow> (\<not> b \<Longrightarrow> act_spec P n Q E) \<Longrightarrow> act_spec P (if b then m else n) Q E"
  by simp

lemma spec_option [spec_intros]:
  "(x = None \<Longrightarrow> act_spec P m Q E) \<Longrightarrow> (\<And>y. x = Some y \<Longrightarrow> act_spec P (n y) Q E) \<Longrightarrow>
     act_spec P (case x of None \<Rightarrow> m | Some y \<Rightarrow> n y) Q E"
  by (cases x) auto

end
