(* ===== verification/UploadSafety.thy ===== *)
theory UploadSafety
  imports UploadSessions Interfaces Specifications
begin

text \<open>
  What every upload operation keeps, whatever file operation fails on the way: records are
  valid, parts are not longer than a part, the archive of a complete session is the one that
  was verified, and the parts and archives stay within the storage cap.
\<close>

section \<open>One file operation\<close>

lemma spec_file:
  assumes "\<And>s os. P s \<Longrightarrow> Q () (whole (s\<lparr>outcomes := os\<rparr>))" and "\<And>s os n. P s \<Longrightarrow> E (partial n (s\<lparr>outcomes := os\<rparr>))"
  shows "act_spec P (file_operation partial whole) Q E"
proof -
  have "Q () (whole s)" if "P s" for s using assms(1) [OF that, of "outcomes s"] by simp
  with assms show ?thesis
    by (auto simp: act_spec_def file_operation_def split: list.splits option.splits)
qed

section \<open>The invariant\<close>

definition archive_verified :: "upload_hashing \<Rightarrow> stored_upload \<Rightarrow> byte list \<Rightarrow> bool" where
  "archive_verified h r data \<longleftrightarrow> length data = upload_total_bytes (stored_session r) \<and>
     upload_sha256 (stored_session r) = Some (content_digest h data) \<and>
     stored_expected r \<in> {None, Some (content_digest h data)} \<and> is_archive_prefix (take archive_prefix_bytes data)"

definition record_ok :: "upload_hashing \<Rightarrow> string \<Rightarrow> stored_upload \<Rightarrow> byte list option \<Rightarrow> bool" where
  "record_ok h i r a \<longleftrightarrow> upload_session_valid (stored_session r) \<and> upload_name (stored_session r) = i \<and>
     (upload_complete (stored_session r) \<longrightarrow> (\<forall>data. a = Some data \<longrightarrow> archive_verified h r data))"

definition directory_ok :: "upload_hashing \<Rightarrow> string \<Rightarrow> upload_directory \<Rightarrow> bool" where
  "directory_ok h i d \<longleftrightarrow>
     (\<forall>k p. dict_get (chunk_files d) k = Some p \<longrightarrow> length p \<le> upload_chunk_bytes) \<and>
     (\<forall>r. session_record d = Some r \<longrightarrow> record_ok h i r (archive_file d))"

definition fits :: "upload_hashing \<Rightarrow> nat \<Rightarrow> upload_tree \<Rightarrow> bool" where
  "fits h n s \<longleftrightarrow> (\<forall>i d. dict_get (directories s) i = Some d \<longrightarrow> directory_ok h i d) \<and>
     stored_bytes s + n \<le> maximum_upload_storage"

definition record_of :: "string \<Rightarrow> upload_tree \<Rightarrow> stored_upload option" where
  "record_of i s = Option.bind (dict_get (directories s) i) session_record"

definition archive_of :: "string \<Rightarrow> upload_tree \<Rightarrow> byte list option" where
  "archive_of i s = Option.bind (dict_get (directories s) i) archive_file"

lemma outcomes_ignored [simp]:
  "fits h n (s\<lparr>outcomes := os\<rparr>) = fits h n s" "record_of i (s\<lparr>outcomes := os\<rparr>) = record_of i s"
  "archive_of i (s\<lparr>outcomes := os\<rparr>) = archive_of i s" "chunk_file i k (s\<lparr>outcomes := os\<rparr>) = chunk_file i k s"
  "stored_bytes (s\<lparr>outcomes := os\<rparr>) = stored_bytes s"
  by (simp_all add: fits_def record_of_def archive_of_def chunk_file_def stored_bytes_def)

lemma fits_less: "fits h n s \<Longrightarrow> m \<le> n \<Longrightarrow> fits h m s"
  by (simp add: fits_def)

section \<open>Sizes\<close>

lemma sum_update:
  fixes f :: "'v \<Rightarrow> nat"
  shows "sum_list (map (f \<circ> snd) (AList.update i v d)) + (case dict_get d i of None \<Rightarrow> 0 | Some w \<Rightarrow> f w)
    = sum_list (map (f \<circ> snd) d) + f v"
  by (induction d) auto

lemma sum_delete:
  fixes f :: "'v \<Rightarrow> nat"
  shows "sum_list (map (f \<circ> snd) (AList.delete i d)) + (case dict_get d i of None \<Rightarrow> 0 | Some w \<Rightarrow> f w)
    \<le> sum_list (map (f \<circ> snd) d)"
proof (induction d)
  case (Cons e d)
  have "sum_list (map (f \<circ> snd) (AList.delete i d)) \<le> sum_list (map (f \<circ> snd) d)" using Cons.IH by linarith
  with Cons show ?case by (cases e) (auto split: option.splits)
qed simp

lemma sum_filter: "sum_list (map f (filter P xs)) \<le> sum_list (map f xs :: nat list)"
  by (induction xs) auto

lemma get_filter: "dict_get (filter (\<lambda>(k, _). P k) d) k = (if P k then dict_get d k else None)"
  by (induction d) auto

lemma stored_within:
  assumes "dict_get (directories s) i = Some d"
  shows "stored_bytes (within_directory i f s) + directory_bytes d = stored_bytes s + directory_bytes (f d)"
  using sum_update [of directory_bytes i "f d" "directories s"] assms
  by (simp add: within_directory_def stored_bytes_def)

lemma within_get:
  "dict_get (directories (within_directory i f s)) j =
     (if j = i then map_option f (dict_get (directories s) i) else dict_get (directories s) j)"
  by (simp add: within_directory_def split: option.splits)

text \<open>Changing one directory: it stays well formed and does not grow by more than the slack.\<close>

lemma fits_within:
  assumes "fits h n s"
    and "\<And>d. dict_get (directories s) i = Some d \<Longrightarrow> directory_ok h i d \<Longrightarrow>
      directory_ok h i (f d) \<and> directory_bytes (f d) + m \<le> directory_bytes d + n"
    and "dict_get (directories s) i = None \<Longrightarrow> m \<le> n"
  shows "fits h m (within_directory i f s)"
proof (cases "dict_get (directories s) i")
  case None
  then have "within_directory i f s = s" by (simp add: within_directory_def)
  with assms(1,3) None show ?thesis by (simp add: fits_def)
next
  case (Some d)
  with assms(1) have "directory_ok h i d" by (simp add: fits_def)
  from assms(2) [OF Some this] have d: "directory_ok h i (f d)" "directory_bytes (f d) + m \<le> directory_bytes d + n" by simp_all
  have "stored_bytes (within_directory i f s) + m \<le> maximum_upload_storage"
    using stored_within [OF Some, of f] d(2) assms(1) by (simp add: fits_def)
  moreover have "directory_ok h j e" if "dict_get (directories (within_directory i f s)) j = Some e" for j e
    using that d(1) Some assms(1) by (auto simp: within_get fits_def split: if_splits)
  ultimately show ?thesis by (simp add: fits_def)
qed

lemma fits_make: "fits h n s \<Longrightarrow> fits h n (make_directory i s)"
proof (cases "dict_get (directories s) i")
  case None
  assume f: "fits h n s"
  have e: "directory_ok h i empty_directory" "directory_bytes empty_directory = 0"
    by (simp_all add: directory_ok_def empty_directory_def directory_bytes_def)
  have "stored_bytes (make_directory i s) = stored_bytes s"
    using sum_update [of directory_bytes i empty_directory "directories s"] None e(2)
    by (simp add: make_directory_def stored_bytes_def)
  with f None e(1) show ?thesis by (auto simp: fits_def make_directory_def split: if_splits)
qed (simp add: make_directory_def)

lemma make_get [simp]:
  "record_of j (make_directory i s) = record_of j s" "archive_of j (make_directory i s) = archive_of j s"
  "chunk_file j k (make_directory i s) = chunk_file j k s"
  by (auto simp: record_of_def archive_of_def chunk_file_def make_directory_def empty_directory_def split: option.splits)

section \<open>File operations\<close>

definition stable :: "(upload_tree \<Rightarrow> bool) \<Rightarrow> bool" where
  "stable P \<longleftrightarrow> (\<forall>s os. P s \<longrightarrow> P (s\<lparr>outcomes := os\<rparr>))"

lemma spec_read:
  assumes "stable P" and "\<And>s. P s \<Longrightarrow> E s"
  shows "act_spec P (file_read f) (\<lambda>x s. P s \<and> x = f s) E"
  unfolding file_read_def
proof (rule spec_bind)
  show "act_spec P (file_operation (\<lambda>n s. s) id) (\<lambda>_. P) E"
    using assms by (intro spec_file) (auto simp: stable_def)
  show "act_spec P (act_bind act_get (\<lambda>s. act_return (f s))) (\<lambda>x s. P s \<and> x = f s) E" for x
    by (auto simp: act_spec_def)
qed

lemma requests_ignored [simp]:
  "fits h n (s\<lparr>request_files := rs\<rparr>) = fits h n s" "record_of i (s\<lparr>request_files := rs\<rparr>) = record_of i s"
  "archive_of i (s\<lparr>request_files := rs\<rparr>) = archive_of i s" "chunk_file i k (s\<lparr>request_files := rs\<rparr>) = chunk_file i k s"
  by (simp_all add: fits_def record_of_def archive_of_def chunk_file_def stored_bytes_def)

lemma stable_fits: "stable (fits h n)" "stable (\<lambda>s. fits h n s \<and> record_of i s = r)"
  by (simp_all add: stable_def)

lemma fits_removed:
  assumes "fits h n s"
  shows "fits h n (s\<lparr>directories := AList.delete i (directories s)\<rparr>)"
proof -
  have "stored_bytes (s\<lparr>directories := AList.delete i (directories s)\<rparr>) \<le> stored_bytes s"
    using sum_delete [of directory_bytes i "directories s"] by (simp add: stored_bytes_def)
  with assms show ?thesis by (auto simp: fits_def split: if_splits)
qed

lemma record_ok_less: "record_ok h i r a \<Longrightarrow> record_ok h i r None"
  by (simp add: record_ok_def)

lemma fits_partly: "fits h n s \<Longrightarrow> fits h n (within_directory i (partly_removed k) s)"
proof (rule fits_within)
  fix d assume "directory_ok h i d"
  then show "directory_ok h i (partly_removed k d) \<and> directory_bytes (partly_removed k d) + n \<le> directory_bytes d + n"
    using sum_filter [of "length \<circ> snd" "\<lambda>(j, _). bit k (j + 2)" "chunk_files d"]
    by (auto simp: directory_ok_def partly_removed_def directory_bytes_def get_filter record_ok_less
        split: if_splits option.splits)
qed auto

lemma remove_tree_fits: "act_spec (fits h n) (remove_tree i) (\<lambda>_. fits h n) (fits h n)"
  unfolding remove_tree_def
proof (rule spec_bind [OF spec_get], rule spec_if)
  fix x
  show "act_spec (\<lambda>s. fits h n s \<and> x = s) (act_bind (file_operation (\<lambda>n. within_directory i (partly_removed n))
      (\<lambda>s. s\<lparr>directories := AList.delete i (directories s)\<rparr>)) (\<lambda>_. act_return True)) (\<lambda>_. fits h n) (fits h n)"
    by (rule spec_bind [where R = "\<lambda>_. fits h n"]) (auto intro!: spec_file spec_basic fits_partly fits_removed)
qed (auto intro: spec_basic)

lemma request_calls_fit:
  "act_spec (fits h n) (read_request c) (\<lambda>_. fits h n) (fits h n)"
  "act_spec (fits h n) (write_request c t) (\<lambda>_. fits h n) (fits h n)"
  "act_spec (fits h n) (remove_request c) (\<lambda>_. fits h n) (fits h n)"
  unfolding read_request_def write_request_def remove_request_def Let_def
  by (rule spec_weaken [OF spec_read [OF stable_fits(1)]], auto intro!: spec_file)

lemma remove_session_fits: "act_spec (fits h n) (remove_session i c) (\<lambda>_. fits h n) (fits h n)"
  unfolding remove_session_def
  by (rule spec_bind [OF remove_tree_fits], rule spec_bind [where R = "\<lambda>_. fits h n"])
    (auto intro!: spec_intros spec_bind [OF request_calls_fit(1)] request_calls_fit(3))

lemma remove_stale_fits: "act_spec (fits h n) (remove_stale cs) (\<lambda>_. fits h n) (fits h n)"
proof (induction cs)
  case Nil
  show ?case unfolding remove_stale.simps by (rule spec_basic)
next
  case (Cons c cs)
  have "act_spec (fits h n) (act_bind (if b then remove_request c else act_return ()) (\<lambda>_. remove_stale cs))
      (\<lambda>_. fits h n) (fits h n)" for b
    by (rule spec_bind [OF _ Cons.IH]) (auto intro!: spec_intros request_calls_fit(3))
  then show ?case
    by (simp del: act_bind_run, intro spec_bind [OF request_calls_fit(1)] spec_bind [OF spec_get])
      (rule spec_weaken, assumption, simp_all)
qed

lemma remove_stale_requests_fits: "act_spec (fits h n) remove_stale_requests (\<lambda>_. fits h n) (fits h n)"
  unfolding remove_stale_requests_def
  by (rule spec_bind [OF spec_read [OF stable_fits(1)]], simp, rule spec_weaken [OF remove_stale_fits]) auto

lemma read_record_fits:
  "act_spec (fits h n) (read_record i) (\<lambda>found s. fits h n s \<and> record_of i s = found) (fits h n)"
  unfolding read_record_def
  by (rule spec_weaken [OF spec_read [OF stable_fits(1)]])
    (auto simp: record_of_def bind_eq_Some_conv split: option.splits)

lemma load_fits:
  "act_spec (fits h n) (load_upload now i) (\<lambda>r s. fits h n s \<and> record_of i s = Some r) (fits h n)"
proof -
  have d: "act_spec (\<lambda>s. fits h n s \<and> b s) (act_bind (remove_session i c) (\<lambda>_. act_raise e)) Q (fits h n)" for b c e and Q :: "stored_upload \<Rightarrow> upload_tree \<Rightarrow> bool"
    by (rule spec_weaken [OF spec_bind [OF remove_session_fits]]) (auto intro: spec_intros)
  show ?thesis
    unfolding load_upload_def
    by (auto intro!: spec_intros spec_bind [OF read_record_fits] d)
qed

section \<open>Parts\<close>

lemma capacity_fits:
  "act_spec (\<lambda>s. fits h 0 s \<and> record_of i s = r) (check_upload_capacity n) (\<lambda>_ s. fits h n s \<and> record_of i s = r) (fits h 0)"
  unfolding check_upload_capacity_def used_bytes_def
  by (rule spec_bind [OF spec_read [OF stable_fits(2)]]) (auto simp: fits_def intro!: spec_intros)

lemma capacity_fits_any: "act_spec (fits h 0) (check_upload_capacity n) (\<lambda>_. fits h n) (fits h 0)"
proof (rule spec_assume)
  fix s assume "fits h 0 s"
  then show "act_spec ((=) s) (check_upload_capacity n) (\<lambda>_. fits h n) (fits h 0)"
    by (intro spec_weaken [OF capacity_fits [of h i "record_of i s" for i]]) auto
qed

lemma within_fields:
  "record_of j (within_directory i f s) = (if j = i then Option.bind (dict_get (directories s) i) (session_record \<circ> f) else record_of j s)"
  "archive_of j (within_directory i f s) = (if j = i then Option.bind (dict_get (directories s) i) (archive_file \<circ> f) else archive_of j s)"
  "chunk_file j k (within_directory i f s) =
     (if j = i then Option.bind (dict_get (directories s) i) (\<lambda>d. dict_get (chunk_files (f d)) k) else chunk_file j k s)"
  by (auto simp: record_of_def archive_of_def chunk_file_def within_get bind_map_option split: option.splits)

lemma chunks_within:
  assumes "fits h n s" and "\<And>k p. dict_get (g (chunk_files d)) k = Some p \<Longrightarrow> dict_get (chunk_files d) k \<noteq> Some p \<Longrightarrow> length p \<le> upload_chunk_bytes"
    and "sum_list (map (length \<circ> snd) (g (chunk_files d))) + m \<le> sum_list (map (length \<circ> snd) (chunk_files d)) + n"
    and "directory_ok h i d"
  shows "directory_ok h i (d\<lparr>chunk_files := g (chunk_files d)\<rparr>) \<and>
    directory_bytes (d\<lparr>chunk_files := g (chunk_files d)\<rparr>) + m \<le> directory_bytes d + n"
  using assms by (auto simp: directory_ok_def directory_bytes_def)

lemma written_sum:
  "sum_list (map (length \<circ> snd) (AList.update k p c)) \<le> sum_list (map (length \<circ> snd) c) + length p"
  using sum_update [of length k p c] by (simp split: option.splits)

lemma deleted_sum: "sum_list (map (length \<circ> snd) (AList.delete k c)) \<le> sum_list (map (length \<circ> snd) (c :: (nat \<times> byte list) list))"
  using sum_delete [of length k c] by (simp split: option.splits)

lemma written_chunk_fits:
  assumes f: "fits h (length data) s" and len: "length p \<le> length data" "length data \<le> upload_chunk_bytes"
  shows "fits h 0 (within_directory i (\<lambda>d. d\<lparr>chunk_files := AList.update k p (chunk_files d)\<rparr>) (make_directory i s))"
proof (rule fits_within [OF fits_make [OF f]])
  fix d assume d: "directory_ok h i d"
  show "directory_ok h i (d\<lparr>chunk_files := AList.update k p (chunk_files d)\<rparr>) \<and>
      directory_bytes (d\<lparr>chunk_files := AList.update k p (chunk_files d)\<rparr>) + 0 \<le> directory_bytes d + length data"
    by (rule chunks_within [OF f _ _ d]) (use len written_sum [of k p "chunk_files d"] in \<open>auto split: if_splits\<close>)
qed simp

lemma deleted_chunk_fits:
  assumes f: "fits h n s"
  shows "fits h n (within_directory i (\<lambda>d. d\<lparr>chunk_files := AList.delete k (chunk_files d)\<rparr>) s)"
proof (rule fits_within [OF f])
  fix d assume d: "directory_ok h i d"
  show "directory_ok h i (d\<lparr>chunk_files := AList.delete k (chunk_files d)\<rparr>) \<and>
      directory_bytes (d\<lparr>chunk_files := AList.delete k (chunk_files d)\<rparr>) + n \<le> directory_bytes d + n"
    by (rule chunks_within [OF f _ _ d]) (use deleted_sum [of k "chunk_files d"] in \<open>auto split: if_splits\<close>)
qed simp

lemma keeps_record:
  "(\<And>d. session_record (f d) = session_record d) \<Longrightarrow> record_of j (within_directory i f s) = record_of j s"
  by (auto simp: within_get record_of_def bind_map_option comp_def)

lemma write_chunk_fits:
  assumes "length data \<le> upload_chunk_bytes"
  shows "act_spec (\<lambda>s. fits h (length data) s \<and> record_of i s = r) (write_chunk i k data)
    (\<lambda>_ s. fits h 0 s \<and> record_of i s = r) (fits h 0)"
  unfolding write_chunk_def
proof (rule spec_file)
  fix s os assume "fits h (length data) s \<and> record_of i s = r"
  then show "fits h 0 (within_directory i (\<lambda>d. d\<lparr>chunk_files := AList.update k data (chunk_files d)\<rparr>) (make_directory i (s\<lparr>outcomes := os\<rparr>))) \<and>
      record_of i (within_directory i (\<lambda>d. d\<lparr>chunk_files := AList.update k data (chunk_files d)\<rparr>) (make_directory i (s\<lparr>outcomes := os\<rparr>))) = r"
    using written_chunk_fits [of h data "s\<lparr>outcomes := os\<rparr>" data i k] assms by (simp add: keeps_record)
next
  fix s os and n :: nat assume "fits h (length data) s \<and> record_of i s = r"
  then have f: "fits h (length data) (s\<lparr>outcomes := os\<rparr>)" by simp
  consider "n = 0" | "n = 1" | "n > 1" by linarith
  then show "fits h 0 (if n = 0 then s\<lparr>outcomes := os\<rparr>
      else within_directory i (\<lambda>d. d\<lparr>chunk_files := (if n = 1 then AList.delete k (chunk_files d)
             else AList.update k (take (n - 2) data) (chunk_files d))\<rparr>) (make_directory i (s\<lparr>outcomes := os\<rparr>)))"
  proof cases
    case 1
    with f show ?thesis by (simp add: fits_less [of h "length data"])
  next
    case 2
    with deleted_chunk_fits [OF fits_make [OF fits_less [OF f, of 0]]] show ?thesis by simp
  next
    case 3
    have "length (take (n - 2) data) \<le> length data" by simp
    from written_chunk_fits [OF f this assms] 3 show ?thesis by simp
  qed
qed

lemma expected_bound: "upload_session_valid s \<Longrightarrow> k < chunk_count s \<Longrightarrow> expected_chunk_bytes s k \<le> upload_chunk_bytes"
proof -
  assume v: "upload_session_valid s" and k: "k < chunk_count s"
  have c: "chunk_bytes s = upload_chunk_bytes" "chunk_count s = (upload_total_bytes s + upload_chunk_bytes - 1) div upload_chunk_bytes"
    and p: "0 < upload_chunk_bytes"
    using v by (simp_all add: upload_session_valid_def parts_valid_def upload_chunk_bytes_def)
  have "upload_total_bytes s - k * upload_chunk_bytes \<le> upload_chunk_bytes" if "k + 1 = chunk_count s"
  proof -
    have "upload_total_bytes s + upload_chunk_bytes - 1 < (k + 2) * upload_chunk_bytes"
      using that c(2) p by (metis add_2_eq_Suc' dividend_less_div_times Suc_eq_plus1 mult.commute mult_Suc add.commute)
    then show ?thesis by (simp add: algebra_simps)
  qed
  then show ?thesis by (simp add: expected_chunk_bytes_def c)
qed

lemma chunk_size_fits:
  "act_spec (\<lambda>s. fits h n s \<and> record_of i s = r) (chunk_size i k) (\<lambda>_ s. fits h n s \<and> record_of i s = r) (fits h n)"
  unfolding chunk_size_def by (rule spec_weaken [OF spec_read [OF stable_fits(2)]]) auto

lemma store_part_fits:
  assumes len: "length data \<le> upload_chunk_bytes"
  shows "act_spec (\<lambda>s. fits h 0 s \<and> record_of i s = r) (store_part h usage i k data) (\<lambda>_ s. fits h 0 s \<and> record_of i s = r) (fits h 0)"
proof -
  let ?P = "\<lambda>n s. fits h n s \<and> record_of i s = r"
  have w: "act_spec (?P (length data)) (act_bind (act_lift x) (\<lambda>_. write_chunk i k data)) (\<lambda>_. ?P 0) (fits h 0)" for x :: "unit result"
    by (rule spec_bind [OF spec_lift], simp add: fits_less [of h "length data" _ 0])
      (rule spec_weaken [OF write_chunk_fits [OF len]], auto)
  have g: "act_spec (?P 0) (chunk_digest (content_digest h) i k) (\<lambda>_. ?P 0) (fits h 0)"
    unfolding chunk_digest_def
    by (rule spec_bind [OF spec_read [OF stable_fits(2)]]) (auto intro!: spec_intros)
  show ?thesis
    unfolding store_part_def
    by (rule spec_bind [OF chunk_size_fits], rule spec_if, rule spec_bind [OF capacity_fits w])
      (rule spec_bind [OF g], auto intro!: spec_intros)
qed

section \<open>Records\<close>

lemma recorded_fits:
  assumes f: "fits h n s" and i: "i = upload_name (stored_session r)" and ok: "record_ok h i r (archive_of i s)"
  shows "fits h n (within_directory i (\<lambda>d. d\<lparr>session_record := Some r\<rparr>) (make_directory i s))"
proof (rule fits_within [OF fits_make [OF f]])
  fix d assume d: "dict_get (directories (make_directory i s)) i = Some d" "directory_ok h i d"
  have "archive_of i (make_directory i s) = archive_file d" using d(1) by (simp add: archive_of_def)
  then have "record_ok h i r (archive_file d)" using ok by simp
  with d(2) show "directory_ok h i (d\<lparr>session_record := Some r\<rparr>) \<and>
      directory_bytes (d\<lparr>session_record := Some r\<rparr>) + n \<le> directory_bytes d + n"
    by (simp add: directory_ok_def directory_bytes_def)
qed simp

lemma save_record_fits:
  assumes "i = upload_name (stored_session r)"
  shows "act_spec (\<lambda>s. fits h n s \<and> record_ok h i r (archive_of i s)) (save_record r) (\<lambda>_ s. fits h n s) (fits h n)"
  unfolding save_record_def Let_def assms [symmetric]
  by (rule spec_file) (auto intro: recorded_fits [OF _ assms] fits_make)

lemma updated_spec: "(\<And>s. P s \<Longrightarrow> E s) \<Longrightarrow> act_spec P (updated x) (\<lambda>y s. P s \<and> y = x \<and> upload_session_valid x) E"
  unfolding updated_def by (auto intro!: spec_intros)

lemma stored_record_ok: "fits h n s \<Longrightarrow> record_of i s = Some r \<Longrightarrow> record_ok h i r (archive_of i s)"
  by (auto simp: fits_def directory_ok_def record_of_def archive_of_def bind_eq_Some_conv)

lemma record_part_fits:
  "act_spec (\<lambda>s. fits h n s \<and> record_of i s = Some r) (record_part r k) (\<lambda>_. fits h n) (fits h n)"
proof (cases "k \<in> set (received_chunks (stored_session r))")
  case True
  then show ?thesis by (auto simp: record_part_def Let_def intro!: spec_intros)
next
  case False
  let ?x = "(stored_session r)\<lparr>received_chunks := sort (received_chunks (stored_session r) @ [k])\<rparr>"
  have "record_ok h i (r\<lparr>stored_session := ?x\<rparr>) (archive_of i s)"
    if "fits h n s" "record_of i s = Some r" "upload_session_valid ?x" for s
    using stored_record_ok [OF that(1,2)] that(3) by (auto simp: record_ok_def archive_verified_def)
  moreover have "upload_name (stored_session r) = i" if "fits h n s" "record_of i s = Some r" for s
    using stored_record_ok [OF that] by (simp add: record_ok_def)
  ultimately have save: "act_spec (\<lambda>s. (fits h n s \<and> record_of i s = Some r) \<and> y = ?x \<and> upload_session_valid ?x)
      (save_record (r\<lparr>stored_session := y\<rparr>)) (\<lambda>_. fits h n) (fits h n)" for y
    using save_record_fits [of i "r\<lparr>stored_session := ?x\<rparr>" h n] unfolding act_spec_def by auto
  from False show ?thesis
    unfolding record_part_def Let_def
    by (simp del: act_bind_run, intro spec_bind [OF updated_spec] spec_bind [OF save]) (auto intro: spec_intros)
qed

lemma locked_spec: "stable P \<Longrightarrow> (\<And>s. P s \<Longrightarrow> E s) \<Longrightarrow> act_spec P m Q E \<Longrightarrow> act_spec P (upload_locked m) Q E"
proof -
  assume s: "stable P" and e: "\<And>s. P s \<Longrightarrow> E s" and m: "act_spec P m Q E"
  have "act_spec P (act_bind (file_operation (\<lambda>n s. s) id) (\<lambda>_. m)) Q E"
    by (rule spec_bind [OF _ m], rule spec_file) (use s e in \<open>auto simp: stable_def\<close>)
  note answers = act_specD [OF this]
  show ?thesis unfolding act_spec_def
  proof (intro allI impI)
    fix s t r assume p: "P s" and run: "upload_locked m s = (t, r)"
    obtain t' r' where b: "act_bind (file_operation (\<lambda>n s. s) id) (\<lambda>_. m) s = (t', r')" by fastforce
    with run p answers [of s t'] show "case r of Inr x \<Rightarrow> Q x t | Inl e \<Rightarrow> E t"
      by (cases r') (auto simp: upload_locked_def)
  qed
qed

lemma receive_fits: "act_spec (fits h 0) (receive_chunk h now usage i index data) (\<lambda>_. fits h 0) (fits h 0)"
proof -
  have p: "act_spec (\<lambda>s. fits h 0 s \<and> record_of i s = Some r)
      (act_bind (store_part h usage i k data) (\<lambda>_. act_bind (record_part r k) (\<lambda>changed. act_return (f changed))))
      (\<lambda>_. fits h 0) (fits h 0)" if "length data \<le> upload_chunk_bytes" for r k and f :: "upload_session \<Rightarrow> upload_chunk"
    by (rule spec_bind [OF store_part_fits [OF that]], rule spec_bind [OF record_part_fits]) (auto intro: spec_intros)
  have len: "length data \<le> upload_chunk_bytes" if "fits h 0 s" "record_of i s = Some r" "0 \<le> index"
    "index < int (chunk_count (stored_session r))" "length data = expected_chunk_bytes (stored_session r) (nat index)" for s r
    using stored_record_ok [OF that(1,2)] that(3-5) expected_bound [of "stored_session r" "nat index"]
    by (simp add: record_ok_def nat_less_iff)
  show ?thesis
    unfolding receive_chunk_def
  proof (rule locked_spec [OF stable_fits(1)], simp, rule spec_bind [OF load_fits])
    fix r
    show "act_spec (\<lambda>s. fits h 0 s \<and> record_of i s = Some r) (let session = stored_session r; k = nat index in
        if upload_complete session then act_raise (upload_failure ''upload_already_complete'')
        else if index < 0 \<or> int (chunk_count session) \<le> index then act_raise (upload_failure ''upload_chunk_index'')
        else if length data \<noteq> expected_chunk_bytes session k then act_raise (upload_failure ''upload_chunk_size'')
        else act_bind (store_part h usage i k data) (\<lambda>_. act_bind (record_part r k) (\<lambda>changed.
          act_return \<lparr>chunk_upload = i, chunk_index = index, chunk_length = length data,
            chunk_sha256 = content_digest h data, chunk_received = received_chunks changed\<rparr>))) (\<lambda>_. fits h 0) (fits h 0)"
      unfolding Let_def
    proof (intro spec_if)
      assume c: "\<not> upload_complete (stored_session r)" "\<not> (index < 0 \<or> int (chunk_count (stored_session r)) \<le> index)"
        "\<not> length data \<noteq> expected_chunk_bytes (stored_session r) (nat index)"
      show "act_spec (\<lambda>s. fits h 0 s \<and> record_of i s = Some r) (act_bind (store_part h usage i (nat index) data) (\<lambda>_.
          act_bind (record_part r (nat index)) (\<lambda>changed.
          act_return \<lparr>chunk_upload = i, chunk_index = index, chunk_length = length data,
            chunk_sha256 = content_digest h data, chunk_received = received_chunks changed\<rparr>))) (\<lambda>_. fits h 0) (fits h 0)"
        by (rule spec_assume, rule spec_weaken [OF p [of r "nat index"]]) (use c len in auto)
    qed (auto intro: spec_basic)
  qed
qed

lemma create_fits: "act_spec (fits h 0) (create_upload h now uuid q) (\<lambda>_. fits h 0) (fits h 0)"
proof -
  have rep: "act_spec (fits h 0) (replayed_upload now c) (\<lambda>_. fits h 0) (fits h 0)" for c
    unfolding replayed_upload_def
  proof (rule spec_bind [OF request_calls_fit(1)], rule spec_option)
    fix i
    show "act_spec (fits h 0) (\<lambda>s. case load_upload now i s of (t, Inr r) \<Rightarrow> (t, Inr (Some r))
       | (t, Inl e) \<Rightarrow> if e = upload_failure ''upload_not_found'' \<or> e = upload_failure ''upload_expired''
           then (t, Inr None) else (t, Inl e)) (\<lambda>_. fits h 0) (fits h 0)"
      using load_fits [of h 0 now i] unfolding act_spec_def by (fastforce split: prod.splits sum.splits if_splits)
  qed (auto intro: spec_intros)
  let ?x = "new_session now uuid q"
  let ?r = "\<lambda>y. \<lparr>stored_session = y, stored_client = upload_client q, stored_fingerprint = request_digest h q, stored_expected = request_sha256 q\<rparr>"
  have "record_ok h (upload_name ?x) (?r ?x) a" if "upload_session_valid ?x" for a
    using that by (simp add: record_ok_def new_session_def)
  then have save: "act_spec (\<lambda>s. fits h (request_total_bytes q) s \<and> y = ?x \<and> upload_session_valid ?x) (save_record (?r y))
      (\<lambda>_. fits h 0) (fits h 0)" for y
    using save_record_fits [of "upload_name ?x" "?r ?x" h "request_total_bytes q"] fits_less [of h "request_total_bytes q" _ 0]
    by (auto simp: act_spec_def split: sum.splits)
  have fresh: "act_spec (fits h 0) (act_bind (check_upload_capacity (request_total_bytes q)) (\<lambda>_.
         act_bind (updated ?x) (\<lambda>session. act_bind (save_record (?r session)) (\<lambda>_.
         act_bind (write_request (upload_client q) (upload_name session)) (\<lambda>_. act_return session))))) (\<lambda>_. fits h 0) (fits h 0)"
    by (intro spec_bind [OF capacity_fits_any] spec_bind [OF updated_spec] spec_bind [OF save] spec_bind [OF request_calls_fit(2)])
      (auto intro: spec_intros fits_less)
  show ?thesis
    unfolding create_upload_def
    by (rule locked_spec [OF stable_fits(1)], simp, rule spec_bind [OF rep]) (auto intro!: spec_intros fresh)
qed

section \<open>Joining the parts\<close>

definition good_part :: "string \<Rightarrow> upload_session \<Rightarrow> upload_tree \<Rightarrow> nat \<Rightarrow> bool" where
  "good_part i session s k \<longleftrightarrow> (\<exists>p. chunk_file i k s = Some p \<and> length p = expected_chunk_bytes session k)"

lemma good_part_ignores [simp]: "good_part i x (s\<lparr>outcomes := os\<rparr>) k = good_part i x s k"
  by (simp add: good_part_def)

lemma deleted_chunk_file:
  "chunk_file i j (within_directory i (\<lambda>d. d\<lparr>chunk_files := AList.delete k (chunk_files d)\<rparr>) s) =
     (if j = k then None else chunk_file i j s)"
  by (auto simp: chunk_file_def within_get split: option.splits)

text \<open>Parts already verified stay as they are while the remaining ones are examined.\<close>

lemma verified_parts_fit:
  "distinct ks \<Longrightarrow> K \<inter> set ks = {} \<Longrightarrow>
   act_spec (\<lambda>s. (fits h n s \<and> record_of i s = r) \<and> (\<forall>k \<in> K. good_part i x s k)) (verified_parts i x ks)
     (\<lambda>present s. (fits h n s \<and> record_of i s = r) \<and> (\<forall>k \<in> K \<union> set present. good_part i x s k) \<and>
        set present \<subseteq> set ks \<and> length present \<le> length ks \<and> (length present = length ks \<longrightarrow> present = ks)) (fits h n)"
proof (induction ks arbitrary: K)
  case Nil
  show ?case unfolding verified_parts.simps by (rule spec_basic) simp
next
  case (Cons k ks)
  let ?P = "\<lambda>K s. (fits h n s \<and> record_of i s = r) \<and> (\<forall>k \<in> K. good_part i x s k)"
  let ?Q = "\<lambda>K ks present s. (fits h n s \<and> record_of i s = r) \<and> (\<forall>k \<in> K \<union> set present. good_part i x s k) \<and>
        set present \<subseteq> set ks \<and> length present \<le> length ks \<and> (length present = length ks \<longrightarrow> present = ks)"
  have stab: "stable (?P K)" by (simp add: stable_def)
  have size: "act_spec (?P K) (chunk_size i k) (\<lambda>y s. ?P K s \<and> y = map_option length (chunk_file i k s)) (fits h n)"
    unfolding chunk_size_def by (rule spec_read [OF stab]) simp
  have keep: "act_spec (?P (insert k K)) (act_bind (verified_parts i x ks) (\<lambda>present. act_return (k # present))) (?Q K (k # ks)) (fits h n)"
  proof (rule spec_bind)
    have "distinct ks" "insert k K \<inter> set ks = {}" using Cons.prems by auto
    from Cons.IH [OF this] show "act_spec (?P (insert k K)) (verified_parts i x ks) (?Q (insert k K) ks) (fits h n)" .
    show "act_spec (?Q (insert k K) ks present) (act_return (k # present)) (?Q K (k # ks)) (fits h n)" for present
      by (rule spec_basic) auto
  qed
  have drop: "act_spec (?P K) (act_bind (unlink_chunk i k) (\<lambda>_. verified_parts i x ks)) (?Q K (k # ks)) (fits h n)"
  proof (rule spec_bind)
    show "act_spec (?P K) (unlink_chunk i k) (\<lambda>_. ?P K) (fits h n)"
      unfolding unlink_chunk_def
    proof (rule spec_file)
      fix s os assume s: "?P K s"
      let ?t = "within_directory i (\<lambda>d. d\<lparr>chunk_files := AList.delete k (chunk_files d)\<rparr>) (s\<lparr>outcomes := os\<rparr>)"
      have "fits h n ?t" by (rule deleted_chunk_fits) (use s in simp)
      moreover have "record_of i ?t = r" using s by (simp add: keeps_record)
      moreover have "good_part i x ?t j" if "j \<in> K" for j
        using s that Cons.prems(2) by (auto simp: good_part_def deleted_chunk_file)
      ultimately show "?P K ?t" by blast
    qed auto
    have "distinct ks" "K \<inter> set ks = {}" using Cons.prems by auto
    from Cons.IH [OF this] show "act_spec (?P K) (verified_parts i x ks) (?Q K (k # ks)) (fits h n)"
      by (rule spec_weaken) auto
  qed
  show ?case unfolding verified_parts.simps
    by (rule spec_bind [OF size], rule spec_if)
      (rule spec_weaken [OF keep], auto simp: good_part_def intro!: spec_weaken [OF drop])
qed

lemma extended_fields:
  "record_of i (extend_archive i data s) = record_of i s" "chunk_file i k (extend_archive i data s) = chunk_file i k s"
  "dict_get (directories s) i \<noteq> None \<Longrightarrow>
     archive_of i (extend_archive i data s) = Some ((case archive_of i s of None \<Rightarrow> [] | Some a \<Rightarrow> a) @ data)"
  by (auto simp: extend_archive_def record_of_def chunk_file_def archive_of_def within_get bind_map_option comp_def
      split: option.splits)

definition joining :: "upload_hashing \<Rightarrow> string \<Rightarrow> stored_upload \<Rightarrow> nat list \<Rightarrow> byte list \<Rightarrow> upload_tree \<Rightarrow> bool" where
  "joining h i r ks joined s \<longleftrightarrow> fits h upload_chunk_bytes s \<and> record_of i s = Some r \<and> archive_of i s = Some joined \<and>
     (\<forall>k \<in> set ks. good_part i (stored_session r) s k) \<and>
     length joined + sum_list (map (expected_chunk_bytes (stored_session r)) ks) = upload_total_bytes (stored_session r)"

lemma open_archive_fits:
  assumes f: "fits h n s" and r: "record_of i s = Some r" "\<not> upload_complete (stored_session r)" and len: "length data + m \<le> n"
  shows "fits h m (extend_archive i data s)"
  unfolding extend_archive_def
proof (rule fits_within [OF f])
  fix d assume d: "dict_get (directories s) i = Some d" "directory_ok h i d"
  have "session_record d = Some r" using r(1) d(1) by (simp add: record_of_def)
  then show "directory_ok h i (d\<lparr>archive_file := Some ((case archive_file d of None \<Rightarrow> [] | Some a \<Rightarrow> a) @ data)\<rparr>) \<and>
      directory_bytes (d\<lparr>archive_file := Some ((case archive_file d of None \<Rightarrow> [] | Some a \<Rightarrow> a) @ data)\<rparr>) + m
      \<le> directory_bytes d + n"
    using d(2) r(2) len by (auto simp: directory_ok_def directory_bytes_def record_ok_def split: option.splits)
qed (use len in simp)

lemma freed_chunk_fits:
  assumes f: "fits h n s" and p: "chunk_file i k s = Some part"
  shows "fits h (n + length part) (within_directory i (\<lambda>d. d\<lparr>chunk_files := AList.delete k (chunk_files d)\<rparr>) s)"
proof (rule fits_within [OF f])
  fix d assume d: "dict_get (directories s) i = Some d" "directory_ok h i d"
  have "dict_get (chunk_files d) k = Some part" using p d(1) by (simp add: chunk_file_def)
  then have "sum_list (map (length \<circ> snd) (AList.delete k (chunk_files d))) + length part
      \<le> sum_list (map (length \<circ> snd) (chunk_files d))"
    using sum_delete [of length k "chunk_files d"] by simp
  then show "directory_ok h i (d\<lparr>chunk_files := AList.delete k (chunk_files d)\<rparr>) \<and>
      directory_bytes (d\<lparr>chunk_files := AList.delete k (chunk_files d)\<rparr>) + (n + length part) \<le> directory_bytes d + n"
    by (intro chunks_within [OF f _ _ d(2)]) (auto split: if_splits)
qed (use p in \<open>simp add: chunk_file_def\<close>)

lemma assemble_parts_fit:
  assumes nc: "\<not> upload_complete (stored_session r)"
  shows "distinct ks \<Longrightarrow> prefix = take archive_prefix_bytes joined \<Longrightarrow>
   act_spec (joining h i r ks joined) (assemble_parts i ks joined prefix)
     (\<lambda>(data, pre) s. joining h i r [] data s \<and> pre = take archive_prefix_bytes data) (fits h 0)"
proof (induction ks arbitrary: joined prefix)
  case Nil
  then show ?case unfolding assemble_parts.simps by (intro spec_basic) simp
next
  case (Cons k ks)
  let ?J = "joining h i r (k # ks) joined"
  let ?x = "stored_session r"
  have stab: "stable ?J" by (simp add: stable_def joining_def)
  have zero: "fits h 0 s" if "joining h i r ls js s" for ls js s using that fits_less by (auto simp: joining_def)
  have pre: "prefix @ take (archive_prefix_bytes - length prefix) part = take archive_prefix_bytes (joined @ part)" for part
    using Cons.prems(2) by (simp add: min_def)
  have part_len: "length part \<le> upload_chunk_bytes" if "?J s" "chunk_file i k s = Some part" for s part
    using that by (auto simp: joining_def fits_def directory_ok_def chunk_file_def split: option.splits)
  let ?E = "\<lambda>part s. fits h (upload_chunk_bytes - length part) s \<and> length part \<le> upload_chunk_bytes \<and> record_of i s = Some r \<and>
     archive_of i s = Some (joined @ part) \<and> chunk_file i k s = Some part \<and> length part = expected_chunk_bytes ?x k \<and>
     (\<forall>k \<in> set ks. good_part i ?x s k) \<and>
     length joined + sum_list (map (expected_chunk_bytes ?x) (k # ks)) = upload_total_bytes ?x"
  have ext: "act_spec (\<lambda>s. ?J s \<and> Some part = chunk_file i k s)
      (file_operation (\<lambda>n. extend_archive i (take n part)) (extend_archive i part)) (\<lambda>_. ?E part) (fits h 0)" for part
  proof (rule spec_file)
    fix s os assume a: "?J s \<and> Some part = chunk_file i k s"
    let ?t = "s\<lparr>outcomes := os\<rparr>"
    have l: "length part \<le> upload_chunk_bytes" using part_len a by metis
    have b: "fits h upload_chunk_bytes ?t" "record_of i ?t = Some r" "archive_of i ?t = Some joined" using a by (simp_all add: joining_def)
    then have d: "dict_get (directories ?t) i \<noteq> None" by (auto simp: record_of_def bind_eq_Some_conv)
    have "fits h (upload_chunk_bytes - length part) (extend_archive i part ?t)"
      by (rule open_archive_fits [OF b(1,2) nc]) (use l in simp)
    moreover have "archive_of i (extend_archive i part ?t) = Some (joined @ part)"
      using extended_fields(3) [OF d] b(3) by simp
    moreover have "length part = expected_chunk_bytes ?x k" using a by (auto simp: joining_def good_part_def)
    ultimately show "?E part (extend_archive i part ?t)"
      using a l b(2) by (auto simp: extended_fields joining_def good_part_def)
    fix n
    have "fits h 0 (extend_archive i (take n part) ?t)"
      by (rule open_archive_fits [OF b(1,2) nc]) (use l in simp)
    then show "fits h 0 (extend_archive i (take n part) (s\<lparr>outcomes := os\<rparr>))" .
  qed
  have unl: "act_spec (?E part) (unlink_chunk i k) (\<lambda>_. joining h i r ks (joined @ part)) (fits h 0)" for part
    unfolding unlink_chunk_def
  proof (rule spec_file)
    fix s os assume a: "?E part s"
    let ?t = "within_directory i (\<lambda>d. d\<lparr>chunk_files := AList.delete k (chunk_files d)\<rparr>) (s\<lparr>outcomes := os\<rparr>)"
    have "fits h (upload_chunk_bytes - length part) s" "chunk_file i k s = Some part" "length part \<le> upload_chunk_bytes"
      using a by blast+
    then have "fits h (upload_chunk_bytes - length part + length part) ?t"
      by (intro freed_chunk_fits) (simp_all only: outcomes_ignored)
    then have "fits h upload_chunk_bytes ?t" using \<open>length part \<le> upload_chunk_bytes\<close> by simp
    moreover have "record_of i ?t = Some r" using a by (simp add: keeps_record)
    moreover have "archive_of i ?t = Some (joined @ part)"
      using a by (auto simp: within_get archive_of_def bind_eq_Some_conv)
    moreover have "good_part i ?x ?t j" if "j \<in> set ks" for j
    proof -
      have "j \<noteq> k" using that Cons.prems(1) by auto
      with a that show ?thesis by (auto simp: good_part_def deleted_chunk_file)
    qed
    ultimately show "joining h i r ks (joined @ part) ?t" using a by (simp add: joining_def)
  qed (auto intro: fits_less)
  have "distinct ks" using Cons.prems(1) by simp
  note rest = Cons.IH [OF this pre [symmetric, THEN sym]]
  show ?case unfolding assemble_parts.simps
    by (rule spec_bind [OF spec_read [OF stab zero]], assumption, rule spec_option)
      (auto intro!: spec_basic zero spec_bind [OF ext] spec_bind [OF unl] rest simp del: act_bind_run)
qed

lemma expected_total:
  assumes "upload_session_valid x"
  shows "sum_list (map (expected_chunk_bytes x) [0..<chunk_count x]) = upload_total_bytes x"
proof -
  obtain n where n: "chunk_count x = Suc n" using assms by (cases "chunk_count x") (auto simp: upload_session_valid_def)
  have c: "chunk_bytes x = upload_chunk_bytes" "Suc n = (upload_total_bytes x + upload_chunk_bytes - 1) div upload_chunk_bytes"
    and p: "0 < upload_chunk_bytes" "1 \<le> upload_total_bytes x"
    using assms n by (simp_all add: upload_session_valid_def parts_valid_def upload_chunk_bytes_def)
  have "sum_list (map (expected_chunk_bytes x) [0..<n]) = sum_list (map (\<lambda>_. upload_chunk_bytes) [0..<n])"
    by (rule arg_cong [of _ _ sum_list], rule map_cong) (auto simp: expected_chunk_bytes_def n c(1))
  then have "sum_list (map (expected_chunk_bytes x) [0..<n]) = n * upload_chunk_bytes"
    by (simp add: sum_list_map_const)
  moreover have "n * upload_chunk_bytes \<le> upload_total_bytes x"
  proof -
    have "Suc n * upload_chunk_bytes \<le> upload_total_bytes x + upload_chunk_bytes - 1"
      unfolding c(2) by (rule div_times_less_eq_dividend)
    then show ?thesis using p by simp
  qed
  ultimately show ?thesis by (simp add: n expected_chunk_bytes_def c(1))
qed

definition assembled :: "upload_hashing \<Rightarrow> string \<Rightarrow> stored_upload \<Rightarrow> string \<times> byte list \<Rightarrow> upload_tree \<Rightarrow> bool" where
  "assembled h i r p s \<longleftrightarrow> fits h upload_chunk_bytes s \<and> record_of i s = Some r \<and>
     (\<exists>data. archive_of i s = Some data \<and> p = (content_digest h data, take archive_prefix_bytes data) \<and>
        length data = upload_total_bytes (stored_session r))"

lemma assemble_fits:
  assumes nc: "\<not> upload_complete (stored_session r)" and v: "upload_session_valid (stored_session r)"
  shows "act_spec (\<lambda>s. (fits h upload_chunk_bytes s \<and> record_of i s = Some r) \<and>
      (\<forall>k < chunk_count (stored_session r). good_part i (stored_session r) s k))
    (assemble (content_digest h) i (chunk_count (stored_session r))) (assembled h i r) (fits h 0)"
    (is "act_spec ?P _ _ _")
proof -
  let ?ks = "[0..<chunk_count (stored_session r)]"
  have clear: "act_spec ?P (file_operation (\<lambda>n s. s) (within_directory i (\<lambda>d. d\<lparr>archive_file := None\<rparr>)))
      (\<lambda>_ s. ?P s \<and> archive_of i s = None) (fits h 0)"
  proof (rule spec_file)
    fix s os assume p: "?P s"
    let ?t = "within_directory i (\<lambda>d. d\<lparr>archive_file := None\<rparr>) (s\<lparr>outcomes := os\<rparr>)"
    have "fits h upload_chunk_bytes ?t"
    proof (rule fits_within)
      show "fits h upload_chunk_bytes (s\<lparr>outcomes := os\<rparr>)" using p by simp
      show "directory_ok h i (d\<lparr>archive_file := None\<rparr>) \<and>
        directory_bytes (d\<lparr>archive_file := None\<rparr>) + upload_chunk_bytes \<le> directory_bytes d + upload_chunk_bytes"
        if "directory_ok h i d" for d
        using that by (auto simp: directory_ok_def directory_bytes_def record_ok_less)
    qed simp
    moreover have "record_of i ?t = Some r" using p by (simp add: keeps_record)
    moreover have "archive_of i ?t = None" by (auto simp: archive_of_def within_get bind_map_option comp_def bind_eq_None_conv)
    moreover have "chunk_file i k ?t = chunk_file i k s" for k
      by (auto simp: chunk_file_def within_get split: option.splits)
    ultimately show "?P ?t \<and> archive_of i ?t = None" using p by (simp add: good_part_def)
  qed (auto intro: fits_less)
  have opened: "act_spec (\<lambda>s. ?P s \<and> archive_of i s = None) (file_operation (\<lambda>n s. s) (extend_archive i []))
      (\<lambda>_. joining h i r ?ks []) (fits h 0)"
  proof (rule spec_file)
    fix s os assume p: "?P s \<and> archive_of i s = None"
    let ?t = "s\<lparr>outcomes := os\<rparr>"
    have b: "fits h upload_chunk_bytes ?t" "record_of i ?t = Some r" using p by simp_all
    then have d: "dict_get (directories ?t) i \<noteq> None" by (auto simp: record_of_def bind_eq_Some_conv)
    have "fits h upload_chunk_bytes (extend_archive i [] ?t)" by (rule open_archive_fits [OF b nc]) simp
    then show "joining h i r ?ks [] (extend_archive i [] ?t)"
      using p extended_fields(3) [OF d, of "[]"] by (auto simp: joining_def extended_fields good_part_def expected_total [OF v])
  qed (auto intro: fits_less)
  have flushed: "act_spec (joining h i r [] data) (file_operation (\<lambda>n s. s) id) (\<lambda>_. joining h i r [] data) (fits h 0)" for data
    by (rule spec_file) (auto simp: joining_def intro: fits_less)
  have "act_spec (\<lambda>s. joining h i r [] data s \<and> pre = take archive_prefix_bytes data)
      (act_bind (file_operation (\<lambda>n s. s) id) (\<lambda>_. act_return (content_digest h data, pre))) (assembled h i r) (fits h 0)" for data pre
    by (rule spec_bind [where R = "\<lambda>_ s. joining h i r [] data s \<and> pre = take archive_prefix_bytes data"], rule spec_file)
      (auto simp: joining_def assembled_def intro: fits_less intro!: spec_intros)
  then have last: "act_spec (case p of (data, pre) \<Rightarrow> \<lambda>s. joining h i r [] data s \<and> pre = take archive_prefix_bytes data)
      (case p of (joined, prefix) \<Rightarrow> act_bind (file_operation (\<lambda>n s. s) id) (\<lambda>_. act_return (content_digest h joined, prefix)))
      (assembled h i r) (fits h 0)" for p
    by (cases p) (simp del: act_bind_run)
  show ?thesis
    unfolding assemble_def
    by (rule spec_bind [OF clear], rule spec_bind [OF opened], rule spec_bind [OF assemble_parts_fit [OF nc]])
      (use last in \<open>simp_all add: case_prod_beta del: act_bind_run\<close>)
qed

lemma remove_chunks_fits: "act_spec (fits h n) (remove_chunks i) (\<lambda>_. fits h n) (fits h n)"
  unfolding remove_chunks_def
proof (rule spec_file)
  fix s os and k :: nat assume f: "fits h n s"
  have "fits h n (within_directory i (\<lambda>d. d\<lparr>chunk_files := g (chunk_files d)\<rparr>) (s\<lparr>outcomes := os\<rparr>))"
    if g: "\<And>c j p. dict_get (g c) j = Some p \<Longrightarrow> dict_get c j = Some p"
      "\<And>c. sum_list (map (length \<circ> snd) (g c)) \<le> sum_list (map (length \<circ> snd) c)" for g
  proof (rule fits_within)
    show f': "fits h n (s\<lparr>outcomes := os\<rparr>)" using f by simp
    show "directory_ok h i (d\<lparr>chunk_files := g (chunk_files d)\<rparr>) \<and>
        directory_bytes (d\<lparr>chunk_files := g (chunk_files d)\<rparr>) + n \<le> directory_bytes d + n" if "directory_ok h i d" for d
      by (rule chunks_within [OF f' _ _ that]) (use g(1) in blast, use g(2) [of "chunk_files d"] in simp)
  qed simp
  note kept = this [of "\<lambda>_. []"] this [of "filter (\<lambda>(j, _). bit k j)"]
  show "fits h n (within_directory i (\<lambda>d. d\<lparr>chunk_files := []\<rparr>) (s\<lparr>outcomes := os\<rparr>))"
    and "fits h n (within_directory i (\<lambda>d. d\<lparr>chunk_files := filter (\<lambda>(j, _). bit k j) (chunk_files d)\<rparr>) (s\<lparr>outcomes := os\<rparr>))"
    by (rule kept(1), simp, simp) (rule kept(2), auto simp: get_filter sum_filter split: if_splits)
qed

lemma saved_session_fits:
  assumes "\<And>s. P s \<Longrightarrow> fits h n s" and "\<And>s. P s \<Longrightarrow> upload_session_valid x \<Longrightarrow> record_ok h i (r\<lparr>stored_session := x\<rparr>) (archive_of i s)"
    and "upload_name x = i" and "\<And>y. act_spec (fits h n) (f y) Q (fits h 0)"
  shows "act_spec P (act_bind (updated x) (\<lambda>y. act_bind (save_record (r\<lparr>stored_session := y\<rparr>)) (\<lambda>_. f y))) Q (fits h 0)"
proof (rule spec_bind [OF updated_spec])
  show "fits h 0 s" if "P s" for s using assms(1) [OF that] by (rule fits_less) simp
  fix y
  have "act_spec (\<lambda>s. P s \<and> y = x \<and> upload_session_valid x) (save_record (r\<lparr>stored_session := y\<rparr>)) (\<lambda>_. fits h n) (fits h 0)"
  proof (rule spec_assume, elim conjE)
    fix s assume s: "P s" "y = x" "upload_session_valid x"
    have "act_spec (\<lambda>s. fits h n s \<and> record_ok h i (r\<lparr>stored_session := x\<rparr>) (archive_of i s))
        (save_record (r\<lparr>stored_session := y\<rparr>)) (\<lambda>_. fits h n) (fits h n)"
      unfolding s(2) by (rule save_record_fits) (simp add: assms(3))
    then show "act_spec ((=) s) (save_record (r\<lparr>stored_session := y\<rparr>)) (\<lambda>_. fits h n) (fits h 0)"
      by (rule spec_weaken) (use s assms in \<open>auto intro: fits_less\<close>)
  qed
  then show "act_spec (\<lambda>s. P s \<and> y = x \<and> upload_session_valid x) (act_bind (save_record (r\<lparr>stored_session := y\<rparr>)) (\<lambda>_. f y)) Q (fits h 0)"
    by (rule spec_bind) (rule assms(4))
qed


lemma discarded_fits: "(\<And>s. P s \<Longrightarrow> fits h 0 s) \<Longrightarrow>
    act_spec P (act_bind (remove_session i c) (\<lambda>_. act_raise e)) Q (fits h 0)"
  by (rule spec_weaken [OF spec_bind [OF remove_session_fits]]) (auto intro: spec_intros)

lemma publish_fits:
  assumes v: "upload_session_valid (stored_session r)" and name: "upload_name (stored_session r) = i"
    and nc: "\<not> upload_complete (stored_session r)"
  shows "act_spec (\<lambda>s. (fits h 0 s \<and> record_of i s = Some r) \<and>
      (\<forall>k < chunk_count (stored_session r). good_part i (stored_session r) s k))
    (publish_archive h usage i r) (\<lambda>_. fits h 0) (fits h 0)"
proof -
  let ?x = "stored_session r"
  let ?G = "\<lambda>s. \<forall>k < chunk_count ?x. good_part i ?x s k"
  have b: "chunk_bytes ?x = upload_chunk_bytes" using v by (simp add: upload_session_valid_def)
  have cap: "act_spec (\<lambda>s. (fits h 0 s \<and> record_of i s = Some r) \<and> ?G s) (check_upload_capacity (chunk_bytes ?x))
      (\<lambda>_ s. (fits h upload_chunk_bytes s \<and> record_of i s = Some r) \<and> ?G s) (fits h 0)"
    unfolding check_upload_capacity_def used_bytes_def
    by (rule spec_bind [OF spec_read]) (auto simp: stable_def fits_def b intro!: spec_intros)
  have zero: "fits h 0 s" if "assembled h i r p s" for p s
    using that by (auto simp: assembled_def intro: fits_less)
  let ?y = "\<lambda>digest. ?x\<lparr>upload_complete := True, upload_sha256 := Some digest\<rparr>"
  have save: "act_spec (assembled h i r (digest, pre)) (act_bind (updated (?y digest)) (\<lambda>done.
        act_bind (save_record (r\<lparr>stored_session := done\<rparr>)) (\<lambda>_. act_bind (remove_chunks i) (\<lambda>_. act_return done))))
      (\<lambda>_. fits h 0) (fits h 0)"
    if "stored_expected r \<in> {None, Some digest}" "is_archive_prefix pre" for digest pre
  proof (rule saved_session_fits [where n = 0])
    show "record_ok h i (r\<lparr>stored_session := ?y digest\<rparr>) (archive_of i s)"
      if "assembled h i r (digest, pre) s" "upload_session_valid (?y digest)" for s
      using that name \<open>stored_expected r \<in> _\<close> \<open>is_archive_prefix pre\<close>
      by (auto simp: assembled_def record_ok_def archive_verified_def)
    show "act_spec (fits h 0) (act_bind (remove_chunks i) (\<lambda>_. act_return z)) (\<lambda>_. fits h 0) (fits h 0)" for z :: upload_session
      by (rule spec_bind [OF remove_chunks_fits]) (rule spec_basic)
  qed (use zero name in auto)
  have rest: "act_spec (assembled h i r p) (case p of (digest, prefix) \<Rightarrow>
      if stored_expected r \<notin> {None, Some digest} then
        act_bind (remove_session i (Some (stored_client r))) (\<lambda>_. act_raise (upload_failure ''upload_checksum_mismatch''))
      else if \<not> is_archive_prefix prefix then
        act_bind (remove_session i (Some (stored_client r))) (\<lambda>_. act_raise (upload_failure ''upload_not_archive''))
      else act_bind (updated (?y digest)) (\<lambda>done. act_bind (save_record (r\<lparr>stored_session := done\<rparr>)) (\<lambda>_.
        act_bind (remove_chunks i) (\<lambda>_. act_return done)))) (\<lambda>_. fits h 0) (fits h 0)" for p
    by (cases p, simp only: prod.case, intro spec_if discarded_fits zero save) auto
  show ?thesis
    unfolding publish_archive_def Let_def
  proof (rule spec_bind [OF cap], rule spec_bind [OF spec_lift], goal_cases)
    case 1
    then show ?case by (auto intro: fits_less)
  next
    case 2
    show ?case by (rule spec_weaken [OF spec_bind [OF assemble_fits [OF nc v] rest]]) auto
  qed
qed

definition join_upload :: "upload_hashing \<Rightarrow> disk_usage option \<Rightarrow> string \<Rightarrow> stored_upload \<Rightarrow> nat list \<Rightarrow> (upload_tree, upload_session) action" where
  "join_upload h usage i r present =
     (if length present \<noteq> chunk_count (stored_session r) then
         act_bind (updated ((stored_session r)\<lparr>received_chunks := present\<rparr>)) (\<lambda>changed.
         act_bind (save_record (r\<lparr>stored_session := changed\<rparr>)) (\<lambda>_.
         act_raise (upload_failure ''upload_incomplete'')))
       else publish_archive h usage i r)"

lemma join_fits:
  assumes nc: "\<not> upload_complete (stored_session r)" and v: "upload_session_valid (stored_session r)"
    and name: "upload_name (stored_session r) = i"
  shows "act_spec (\<lambda>s. fits h 0 s \<and> record_of i s = Some r)
    (act_bind (verified_parts i (stored_session r) (received_chunks (stored_session r))) (join_upload h usage i r))
    (\<lambda>_. fits h 0) (fits h 0)"
proof -
  let ?P = "\<lambda>s. fits h 0 s \<and> record_of i s = Some r"
  let ?x = "stored_session r" and ?ks = "received_chunks (stored_session r)"
  have ks: "distinct ?ks" "set ?ks \<subseteq> {..<chunk_count ?x}"
    using v unfolding upload_session_valid_def parts_valid_def list_all_iff
    by (metis distinct_remdups distinct_sort, blast)
  have full: "set ?ks = {..<chunk_count ?x}" if "length ?ks = chunk_count ?x"
    using ks that by (metis card_lessThan card_subset_eq distinct_card finite_lessThan)
  have "act_spec ?P (verified_parts i ?x ?ks) (\<lambda>present s. ?P s \<and> (\<forall>k \<in> set present. good_part i ?x s k) \<and>
      length present \<le> length ?ks \<and> (length present = length ?ks \<longrightarrow> present = ?ks)) (fits h 0)"
    by (rule spec_weaken [OF verified_parts_fit [OF ks(1), of "{}" h 0 i "Some r"]]) auto
  moreover have "act_spec (\<lambda>s. ?P s \<and> (\<forall>k \<in> set present. good_part i ?x s k) \<and>
      length present \<le> length ?ks \<and> (length present = length ?ks \<longrightarrow> present = ?ks))
    (join_upload h usage i r present) (\<lambda>_. fits h 0) (fits h 0)" (is "act_spec ?R _ _ _") for present
    unfolding join_upload_def
  proof (rule spec_if)
    show "act_spec ?R (act_bind (updated (?x\<lparr>received_chunks := present\<rparr>)) (\<lambda>changed.
       act_bind (save_record (r\<lparr>stored_session := changed\<rparr>)) (\<lambda>_. act_raise (upload_failure ''upload_incomplete''))))
      (\<lambda>_. fits h 0) (fits h 0)"
      by (rule saved_session_fits [where n = 0]) (use nc name in \<open>auto simp: record_ok_def intro: spec_basic\<close>)
    assume "\<not> length present \<noteq> chunk_count ?x"
    then have all: "length present = chunk_count ?x" by simp
    have "length ?ks \<le> chunk_count ?x"
      using ks by (metis card_lessThan card_mono distinct_card finite_lessThan)
    then have "set present = {..<chunk_count ?x}" if "length present \<le> length ?ks" "length present = length ?ks \<longrightarrow> present = ?ks"
      using that all full by auto
    then show "act_spec ?R (publish_archive h usage i r) (\<lambda>_. fits h 0) (fits h 0)"
      by (intro spec_weaken [OF publish_fits [OF v name nc]]) auto
  qed
  ultimately show ?thesis by (rule spec_bind)
qed

lemma complete_fits: "act_spec (fits h 0) (complete_upload h now usage i) (\<lambda>_. fits h 0) (fits h 0)"
proof -
  have again: "act_spec (fits h 0) (act_bind (remove_chunks i) (\<lambda>_. act_return x)) (\<lambda>_. fits h 0) (fits h 0)"
    for x :: upload_session
    by (rule spec_bind [OF remove_chunks_fits]) (rule spec_basic)
  have "act_spec (\<lambda>s. fits h 0 s \<and> record_of i s = Some r)
     (if upload_complete (stored_session r) then act_bind (remove_chunks i) (\<lambda>_. act_return (stored_session r))
      else act_bind (verified_parts i (stored_session r) (received_chunks (stored_session r))) (join_upload h usage i r))
     (\<lambda>_. fits h 0) (fits h 0)" (is "act_spec ?P ?m _ _") for r
  proof (rule spec_assume)
    fix s assume p: "?P s"
    have v: "upload_session_valid (stored_session r)" "upload_name (stored_session r) = i"
      using stored_record_ok [of h 0 s i r] p by (simp_all add: record_ok_def)
    show "act_spec ((=) s) ?m (\<lambda>_. fits h 0) (fits h 0)"
    proof (rule spec_if)
      show "act_spec ((=) s) (act_bind (remove_chunks i) (\<lambda>_. act_return (stored_session r))) (\<lambda>_. fits h 0) (fits h 0)"
        by (rule spec_weaken [OF again]) (use p in auto)
      assume "\<not> upload_complete (stored_session r)"
      from join_fits [OF this v]
      show "act_spec ((=) s) (act_bind (verified_parts i (stored_session r) (received_chunks (stored_session r)))
          (join_upload h usage i r)) (\<lambda>_. fits h 0) (fits h 0)"
        by (rule spec_weaken) (use p in auto)
    qed
  qed
  then show ?thesis
    unfolding complete_upload_def Let_def join_upload_def
    by (intro locked_spec [OF stable_fits(1)] spec_bind [OF load_fits]) simp_all
qed

section \<open>The remaining operations\<close>

lemma read_upload_fits: "act_spec (fits h 0) (read_upload now i) (\<lambda>_. fits h 0) (fits h 0)"
  unfolding read_upload_def
  by (rule locked_spec [OF stable_fits(1)], assumption, rule spec_bind [OF load_fits]) (auto intro: spec_basic)

lemma archive_path_fits: "act_spec (fits h 0) (archive_path now i) (\<lambda>_. fits h 0) (fits h 0)"
  unfolding archive_path_def
  by (rule locked_spec [OF stable_fits(1)], assumption, rule spec_bind [OF load_fits]) (auto intro: spec_intros)

lemma forget_fits: "act_spec (\<lambda>s. fits h n s \<and> b s) (act_bind (remove_session i c) f) Q (fits h n)"
  if "act_spec (fits h n) (f True) Q (fits h n)" "act_spec (fits h n) (f False) Q (fits h n)"
proof -
  have "act_spec (fits h n) (f x) Q (fits h n)" for x using that by (cases x) simp_all
  then show ?thesis by (intro spec_weaken [OF spec_bind [OF remove_session_fits]]) auto
qed

lemma discard_fits: "act_spec (fits h 0) (discard_upload i) (\<lambda>_. fits h 0) (fits h 0)"
  unfolding discard_upload_def
  by (rule locked_spec [OF stable_fits(1)], assumption, rule spec_if, rule spec_basic, assumption,
      rule spec_bind [OF read_record_fits], rule forget_fits) (auto intro: spec_basic)

lemma sweep_sessions_fit: "act_spec (fits h 0) (sweep_sessions now names) (\<lambda>_. fits h 0) (fits h 0)"
proof (induction names)
  case Nil
  show ?case unfolding sweep_sessions.simps by (rule spec_basic)
next
  case (Cons i names)
  have counted: "act_spec (fits h 0) (act_bind (sweep_sessions now names) (\<lambda>n. act_return (Suc n))) (\<lambda>_. fits h 0) (fits h 0)"
    by (rule spec_bind [OF Cons.IH]) (rule spec_basic)
  show ?case unfolding sweep_sessions.simps
    by (rule spec_bind [OF read_record_fits], rule spec_if, rule forget_fits [OF counted counted])
      (rule spec_weaken [OF Cons.IH], auto)
qed

lemma sweep_fits: "act_spec (fits h 0) (sweep_uploads now) (\<lambda>_. fits h 0) (fits h 0)"
proof -
  have "act_spec (fits h 0) (act_bind remove_stale_requests (\<lambda>_. act_return n)) (\<lambda>_. fits h 0) (fits h 0)" for n :: nat
    by (rule spec_bind [OF remove_stale_requests_fits]) (rule spec_basic)
  then have "act_spec (fits h 0) (act_bind (sweep_sessions now names) (\<lambda>n. act_bind remove_stale_requests (\<lambda>_. act_return n)))
      (\<lambda>_. fits h 0) (fits h 0)" for names
    by (rule spec_bind [OF sweep_sessions_fit])
  then show ?thesis unfolding sweep_uploads_def
    by (intro locked_spec [OF stable_fits(1)] spec_bind [OF spec_read [OF stable_fits(1)]])
      (assumption | rule spec_weaken, assumption, simp)+
qed

lemma usage_fits: "act_spec (fits h 0) upload_usage (\<lambda>_. fits h 0) (fits h 0)"
  unfolding upload_usage_def used_bytes_def
  by (rule locked_spec [OF stable_fits(1)], assumption, rule spec_weaken [OF spec_read [OF stable_fits(1)]]) auto

end
