(* ===== verification/UploadProperties.thy ===== *)
theory UploadProperties
  imports UploadSafety
begin

text \<open>
  The claims about chunked uploads, over every run of the operations of \<open>UploadSessions\<close> in
  any order with any file failures, and the round trip of an archive sent in parts.
\<close>

section \<open>Runs\<close>

inductive upload_step :: "upload_hashing \<Rightarrow> upload_tree \<Rightarrow> upload_tree \<Rightarrow> bool" for h where
  creates: "create_upload h now uuid q s = (t, a) \<Longrightarrow> upload_step h s t"
| reads: "read_upload now i s = (t, b) \<Longrightarrow> upload_step h s t"
| receives: "receive_chunk h now usage i index data s = (t, c) \<Longrightarrow> upload_step h s t"
| completes: "complete_upload h now usage i s = (t, d) \<Longrightarrow> upload_step h s t"
| discards: "discard_upload i s = (t, e) \<Longrightarrow> upload_step h s t"
| locates: "archive_path now i s = (t, f) \<Longrightarrow> upload_step h s t"
| sweeps: "sweep_uploads now s = (t, g) \<Longrightarrow> upload_step h s t"
| measures: "upload_usage s = (t, u) \<Longrightarrow> upload_step h s t"
| changes_outcomes: "upload_step h s (s\<lparr>outcomes := os\<rparr>)"

definition empty_tree :: upload_tree where
  "empty_tree = \<lparr>directories = [], request_files = [], outcomes = []\<rparr>"

lemma spec_step: "act_spec (fits h 0) m (\<lambda>_. fits h 0) (fits h 0) \<Longrightarrow> fits h 0 s \<Longrightarrow> m s = (t, r) \<Longrightarrow> fits h 0 t"
  by (cases r) (auto dest: act_specD)

lemmas operation_fits = create_fits [THEN spec_step] read_upload_fits [THEN spec_step] receive_fits [THEN spec_step]
  complete_fits [THEN spec_step] discard_fits [THEN spec_step] archive_path_fits [THEN spec_step]
  sweep_fits [THEN spec_step] usage_fits [THEN spec_step]

lemma upload_step_fits: "upload_step h s t \<Longrightarrow> fits h 0 s \<Longrightarrow> fits h 0 t"
proof (induction rule: upload_step.induct)
  case changes_outcomes
  then show ?case by simp
qed (auto dest: operation_fits)

interpretation uploads: guarded_system "upload_step h" "fits h 0" for h
  by unfold_locales (rule upload_step_fits)

lemma empty_tree_fits: "fits h 0 empty_tree"
  by (simp add: fits_def empty_tree_def stored_bytes_def)

lemmas reachable_fits = uploads.run_keeps [OF _ empty_tree_fits]


text \<open>
  C29: The bytes in stored parts and joined archives never exceed the storage cap of six GiB,
  after any sequence of upload operations from an empty store, for any requests, parts and
  clocks, and whatever file operations fail on the way and leave partial effects.
\<close>

theorem uploads_within_cap: "(upload_step h)\<^sup>*\<^sup>* empty_tree s \<Longrightarrow> stored_bytes s \<le> maximum_upload_storage"
  using reachable_fits [of h s] by (simp add: fits_def)

text \<open>
  C30: An archive that a complete session offers is the verified one: in every reachable
  store, when the record of a session says complete and its archive exists, the archive has
  the announced length, the recorded digest, the digest that the client expected if it gave
  one, and a known archive prefix.
\<close>

theorem offered_archive_verified:
  "(upload_step h)\<^sup>*\<^sup>* empty_tree s \<Longrightarrow> record_of i s = Some r \<Longrightarrow> upload_complete (stored_session r) \<Longrightarrow>
     archive_of i s = Some data \<Longrightarrow> archive_verified h r data"
  using stored_record_ok [OF reachable_fits] by (auto simp: record_ok_def)

section \<open>An archive sent in parts\<close>

definition part_of :: "byte list \<Rightarrow> nat \<Rightarrow> byte list" where
  "part_of data k = take upload_chunk_bytes (drop (k * upload_chunk_bytes) data)"

fun receive_all :: "upload_hashing \<Rightarrow> disk_usage option \<Rightarrow> string \<Rightarrow> byte list \<Rightarrow> (int \<times> nat) list \<Rightarrow> (upload_tree, unit) action" where
  "receive_all h usage i data [] = act_return ()"
| "receive_all h usage i data ((now, k) # ks) =
     act_bind (receive_chunk h now usage i (int k) (part_of data k)) (\<lambda>_. receive_all h usage i data ks)"

lemma join_take: "concat (map (\<lambda>k. take c (drop (k * c) xs)) [0..<n]) = take (n * c) xs"
  by (induction n) (simp_all add: take_add [symmetric] add.commute)

definition counted_bytes :: "upload_tree \<Rightarrow> nat" where
  "counted_bytes s = stored_bytes s + sum_list (map (length \<circ> snd)
     (filter (\<lambda>(c, _). ends_with c ''.part'' \<or> ends_with c ''archive.bin'') (request_files s)))"

lemma counted_within: "dict_get (directories s) i = Some d \<Longrightarrow>
    counted_bytes (within_directory i f s) + directory_bytes d = counted_bytes s + directory_bytes (f d)"
  using stored_within [of s i d f] by (simp add: counted_bytes_def within_directory_def)

lemma calm_file [simp]: "outcomes s = [] \<Longrightarrow> file_operation p w s = (w s, Inr ())"
  by (simp add: file_operation_def)

lemma calm_read [simp]: "outcomes s = [] \<Longrightarrow> file_read f s = (s, Inr (f s))"
  by (simp add: file_read_def)

lemma calm_locked: "outcomes s = [] \<Longrightarrow> m s = (t, Inr x) \<Longrightarrow> upload_locked m s = (t, Inr x)"
  by (simp add: upload_locked_def)

lemma calm_load: "outcomes s = [] \<Longrightarrow> upload_pattern i \<Longrightarrow> record_of i s = Some r \<Longrightarrow>
    now < upload_expires_at (stored_session r) \<Longrightarrow> load_upload now i s = (s, Inr r)"
  by (auto simp: load_upload_def read_record_def record_of_def bind_eq_Some_conv)

lemma calm_capacity: "outcomes s = [] \<Longrightarrow> counted_bytes s + n \<le> maximum_upload_storage \<Longrightarrow>
    check_upload_capacity n s = (s, Inr ())"
  by (simp add: check_upload_capacity_def used_bytes_def counted_bytes_def)

lemma within_kept [simp]:
  "outcomes (within_directory i f s) = outcomes s" "request_files (within_directory i f s) = request_files s"
  by (simp_all add: within_directory_def split: option.splits)


lemma made_kept [simp]: "outcomes (make_directory i s) = outcomes s" "request_files (make_directory i s) = request_files s"
  by (simp_all add: make_directory_def split: option.splits)

text \<open>A request that the store can accept and an archive that it announces.\<close>

definition sendable :: "upload_hashing \<Rightarrow> disk_usage option \<Rightarrow> string \<Rightarrow> upload_request \<Rightarrow> byte list \<Rightarrow> bool" where
  "sendable h usage uuid q data \<longleftrightarrow> upload_request_valid q \<and> upload_pattern (''upload_'' @ uuid) \<and>
     request_total_bytes q = length data \<and> request_sha256 q \<in> {None, Some (content_digest h data)} \<and>
     is_sha256 (content_digest h data) \<and> is_archive_prefix (take archive_prefix_bytes data) \<and>
     ensure_disk_reserve usage (int upload_chunk_bytes) = Inr ()"

definition open_record :: "upload_hashing \<Rightarrow> int \<Rightarrow> string \<Rightarrow> upload_request \<Rightarrow> nat set \<Rightarrow> stored_upload" where
  "open_record h now uuid q K = \<lparr>stored_session = (new_session now uuid q)\<lparr>received_chunks := sorted_list_of_set K\<rparr>,
     stored_client = upload_client q, stored_fingerprint = request_digest h q, stored_expected = request_sha256 q\<rparr>"

definition progress :: "upload_hashing \<Rightarrow> int \<Rightarrow> string \<Rightarrow> upload_request \<Rightarrow> byte list \<Rightarrow> nat \<Rightarrow> nat set \<Rightarrow> upload_tree \<Rightarrow> bool" where
  "progress h now uuid q data used K s \<longleftrightarrow> outcomes s = [] \<and> finite K \<and> K \<subseteq> {..<chunk_count (new_session now uuid q)} \<and>
     record_of (''upload_'' @ uuid) s = Some (open_record h now uuid q K) \<and>
     (\<forall>k. chunk_file (''upload_'' @ uuid) k s = (if k \<in> K then Some (part_of data k) else None)) \<and>
     counted_bytes s \<le> used + (\<Sum>k \<in> K. length (part_of data k))"

lemma chunk_arith:
  assumes "1 \<le> n" and "c = (n + upload_chunk_bytes - 1) div upload_chunk_bytes"
  shows "n \<le> c * upload_chunk_bytes" "(c - 1) * upload_chunk_bytes < n" "1 \<le> c"
proof -
  have p: "0 < upload_chunk_bytes" by (simp add: upload_chunk_bytes_def)
  have "n + upload_chunk_bytes - 1 < (c + 1) * upload_chunk_bytes"
    unfolding assms(2) using p by (metis Suc_eq_plus1 dividend_less_div_times mult.commute mult_Suc add.commute)
  then show a: "n \<le> c * upload_chunk_bytes" by simp
  show c: "1 \<le> c" using a assms(1) by (cases c) auto
  have "c * upload_chunk_bytes \<le> n + upload_chunk_bytes - 1" unfolding assms(2) by (rule div_times_less_eq_dividend)
  moreover have "c * upload_chunk_bytes = (c - 1) * upload_chunk_bytes + upload_chunk_bytes" using c by (cases c) auto
  ultimately show "(c - 1) * upload_chunk_bytes < n" using assms(1) p by linarith
qed

lemma count_bound: "n \<le> maximum_upload_bytes \<Longrightarrow> (n + upload_chunk_bytes - 1) div upload_chunk_bytes \<le> maximum_upload_chunks"
proof -
  assume "n \<le> maximum_upload_bytes"
  then have "(n + upload_chunk_bytes - 1) div upload_chunk_bytes \<le> (maximum_upload_bytes + upload_chunk_bytes - 1) div upload_chunk_bytes"
    by (intro div_le_mono) simp
  then show ?thesis by (simp add: maximum_upload_bytes_def upload_chunk_bytes_def maximum_upload_chunks_def)
qed

lemma open_valid:
  assumes "sendable h usage uuid q data" and "K \<subseteq> {..<chunk_count (new_session now uuid q)}"
  shows "upload_session_valid ((new_session now uuid q)\<lparr>received_chunks := sorted_list_of_set K\<rparr>)"
    and "K = {..<chunk_count (new_session now uuid q)} \<Longrightarrow> upload_session_valid ((new_session now uuid q)
      \<lparr>received_chunks := sorted_list_of_set K, upload_complete := True, upload_sha256 := Some (content_digest h data)\<rparr>)"
proof -
  let ?x = "new_session now uuid q"
  have q: "upload_request_valid q" using assms(1) by (simp add: sendable_def)
  have fin: "finite K" using assms(2) finite_subset by blast
  have c: "1 \<le> chunk_count ?x" "chunk_count ?x \<le> maximum_upload_chunks"
    using q chunk_arith(3) [of "request_total_bytes q"] count_bound
    by (simp_all add: upload_request_valid_def new_session_def)
  have "card K \<le> chunk_count ?x" using card_mono [OF finite_lessThan assms(2)] by simp
  then have l: "length (sorted_list_of_set K) \<le> maximum_upload_chunks" using c(2) by simp
  have s: "sort (remdups (sorted_list_of_set K)) = sorted_list_of_set K"
    by (simp add: distinct_remdups_id sorted_sort_id)
  have i: "list_all (\<lambda>i. i < chunk_count ?x) (sorted_list_of_set K)" using assms(2) fin by (auto simp: list_all_iff)
  show "upload_session_valid (?x\<lparr>received_chunks := sorted_list_of_set K\<rparr>)"
    using q assms(1) c l s i by (simp add: upload_session_valid_def parts_valid_def new_session_def sendable_def upload_request_valid_def)
  assume "K = {..<chunk_count ?x}"
  then show "upload_session_valid (?x\<lparr>received_chunks := sorted_list_of_set K, upload_complete := True,
      upload_sha256 := Some (content_digest h data)\<rparr>)"
    using q assms(1) c l s i by (simp add: upload_session_valid_def parts_valid_def new_session_def sendable_def upload_request_valid_def)
qed

lemma part_length:
  assumes "length data = upload_total_bytes x" "chunk_bytes x = upload_chunk_bytes" "k < chunk_count x" "1 \<le> length data"
    "chunk_count x = (length data + upload_chunk_bytes - 1) div upload_chunk_bytes"
  shows "length (part_of data k) = expected_chunk_bytes x k" "length (part_of data k) \<le> upload_chunk_bytes"
proof -
  note a = chunk_arith [OF assms(4,5)]
  show "length (part_of data k) = expected_chunk_bytes x k"
  proof (cases "k + 1 = chunk_count x")
    case True
    then have "chunk_count x = Suc k" by simp
    then have "length data - k * upload_chunk_bytes \<le> upload_chunk_bytes" using a(1) by simp
    with True assms(1,2) show ?thesis by (simp add: part_of_def expected_chunk_bytes_def)
  next
    case False
    then have "(k + 1) * upload_chunk_bytes \<le> (chunk_count x - 1) * upload_chunk_bytes" using assms(3) by (intro mult_right_mono) auto
    then have "upload_chunk_bytes \<le> length data - k * upload_chunk_bytes" using a(2) by simp
    with False assms(1,2) show ?thesis by (simp add: part_of_def expected_chunk_bytes_def)
  qed
qed (simp add: part_of_def)

lemma whole_parts: "length data \<le> n * upload_chunk_bytes \<Longrightarrow> concat (map (part_of data) [0..<n]) = data"
  using join_take [of upload_chunk_bytes data n] by (simp add: part_of_def [abs_def])


lemma sum_parts: "K \<subseteq> {..<n} \<Longrightarrow> (\<Sum>k \<in> K. length (part_of data k)) \<le> length data"
proof -
  assume "K \<subseteq> {..<n}"
  then have "(\<Sum>k \<in> K. length (part_of data k)) \<le> (\<Sum>k \<in> set [0..<n]. length (part_of data k))"
    by (intro sum_mono2) auto
  also have "\<dots> = length (concat (map (part_of data) [0..<n]))"
    by (subst sum.distinct_set_conv_list) (simp_all add: length_concat comp_def)
  also have "\<dots> \<le> length data" using join_take [of upload_chunk_bytes data n] by (simp add: part_of_def [abs_def])
  finally show ?thesis .
qed

lemma reserve_less: "ensure_disk_reserve usage (int n) = Inr () \<Longrightarrow> m \<le> n \<Longrightarrow> ensure_disk_reserve usage (int m) = Inr ()"
  by (auto simp: ensure_disk_reserve_def split: option.splits if_splits)

lemma made_already: "record_of i s = Some r \<Longrightarrow> make_directory i s = s"
  by (auto simp: make_directory_def record_of_def bind_eq_Some_conv split: option.splits)

lemma calm_store:
  assumes "outcomes s = []" and "record_of i s = Some r" and "chunk_file i k s \<in> {None, Some data}"
    and "chunk_file i k s = None \<Longrightarrow> counted_bytes s + length data \<le> maximum_upload_storage" and "ensure_disk_reserve usage (int (length data)) = Inr ()"
  shows "\<exists>t. store_part h usage i k data s = (t, Inr ()) \<and> outcomes t = [] \<and> record_of i t = record_of i s \<and>
     (\<forall>j. chunk_file i j t = (if j = k then Some data else chunk_file i j s)) \<and>
     counted_bytes t \<le> counted_bytes s + (if chunk_file i k s = None then length data else 0)"
proof (cases "chunk_file i k s")
  case (Some p)
  then have "store_part h usage i k data s = (s, Inr ())"
    using assms(1,3) by (simp add: store_part_def chunk_size_def chunk_digest_def)
  with Some assms(1,3) show ?thesis by (intro exI [of _ s]) auto
next
  case None
  obtain d where d: "dict_get (directories s) i = Some d" using assms(2) by (auto simp: record_of_def bind_eq_Some_conv)
  let ?t = "within_directory i (\<lambda>d. d\<lparr>chunk_files := AList.update k data (chunk_files d)\<rparr>) s"
  have "store_part h usage i k data s = (?t, Inr ())"
    using None assms(1,4,5) by (simp add: store_part_def chunk_size_def calm_capacity write_chunk_def made_already [OF assms(2)])
  moreover have "counted_bytes ?t \<le> counted_bytes s + length data"
    using counted_within [OF d, of "\<lambda>d. d\<lparr>chunk_files := AList.update k data (chunk_files d)\<rparr>"]
      written_sum [of k data "chunk_files d"] by (simp add: directory_bytes_def)
  moreover have "chunk_file i j ?t = (if j = k then Some data else chunk_file i j s)" for j
    using d by (simp add: within_get chunk_file_def)
  ultimately show ?thesis using None assms(1) by (intro exI [of _ ?t]) (simp add: keeps_record)
qed

lemma calm_save:
  assumes "outcomes s = []" and "record_of i s = Some q" and "upload_name (stored_session r) = i"
  shows "\<exists>t. save_record r s = (t, Inr ()) \<and> outcomes t = [] \<and> record_of i t = Some r \<and>
     (\<forall>j. chunk_file i j t = chunk_file i j s) \<and> counted_bytes t = counted_bytes s \<and> archive_of i t = archive_of i s"
proof -
  obtain d where d: "dict_get (directories s) i = Some d" using assms(2) by (auto simp: record_of_def bind_eq_Some_conv)
  let ?t = "within_directory i (\<lambda>d. d\<lparr>session_record := Some r\<rparr>) s"
  have "save_record r s = (?t, Inr ())"
    using assms by (simp add: save_record_def made_already [OF assms(2)])
  moreover have "counted_bytes ?t = counted_bytes s"
    using counted_within [OF d, of "\<lambda>d. d\<lparr>session_record := Some r\<rparr>"] by (simp add: directory_bytes_def)
  ultimately show ?thesis using assms(1) d
    by (intro exI [of _ ?t]) (simp add: within_fields, simp add: chunk_file_def archive_of_def)
qed

lemma sorted_insert: "finite K \<Longrightarrow> k \<notin> K \<Longrightarrow> sort (sorted_list_of_set K @ [k]) = sorted_list_of_set (insert k K)"
  using sorted_list_of_set_sort_remdups [of "sorted_list_of_set K @ [k]"]
  by (simp add: distinct_remdups_id)


lemma request_size: "sendable h usage uuid q data \<Longrightarrow>
    upload_total_bytes (new_session now uuid q) = length data \<and> chunk_bytes (new_session now uuid q) = upload_chunk_bytes \<and>
    1 \<le> length data \<and> chunk_count (new_session now uuid q) = (length data + upload_chunk_bytes - 1) div upload_chunk_bytes"
  by (simp add: new_session_def sendable_def upload_request_valid_def)

lemma record_progress:
  assumes ok: "sendable h usage uuid q data" and s: "progress h now uuid q data used K s" and k: "k < chunk_count (new_session now uuid q)"
    and t: "outcomes t = []" "record_of (''upload_'' @ uuid) t = record_of (''upload_'' @ uuid) s"
      "\<And>j. chunk_file (''upload_'' @ uuid) j t = (if j = k then Some (part_of data k) else chunk_file (''upload_'' @ uuid) j s)"
      "counted_bytes t \<le> counted_bytes s + (if chunk_file (''upload_'' @ uuid) k s = None then length (part_of data k) else 0)"
  shows "\<exists>u x. record_part (open_record h now uuid q K) k t = (u, Inr x) \<and> progress h now uuid q data used (insert k K) u"
proof (cases "k \<in> K")
  case True
  then have "record_part (open_record h now uuid q K) k t = (t, Inr (stored_session (open_record h now uuid q K)))"
    using s by (simp add: record_part_def open_record_def progress_def)
  moreover have "progress h now uuid q data used (insert k K) t"
    using s t True by (auto simp: progress_def insert_absorb)
  ultimately show ?thesis by blast
next
  case False
  have fin: "finite K" and sub: "K \<subseteq> {..<chunk_count (new_session now uuid q)}" using s by (simp_all add: progress_def)
  let ?r = "open_record h now uuid q (insert k K)"
  have v: "upload_session_valid (stored_session ?r)"
    using open_valid(1) [OF ok, of "insert k K"] sub k by (simp add: open_record_def)
  have "record_of (''upload_'' @ uuid) t = Some (open_record h now uuid q K)" using s t(2) by (simp add: progress_def)
  from calm_save [OF t(1) this, of ?r] obtain u where
    u: "save_record ?r t = (u, Inr ())" "outcomes u = []" "record_of (''upload_'' @ uuid) u = Some ?r"
      "\<And>j. chunk_file (''upload_'' @ uuid) j u = chunk_file (''upload_'' @ uuid) j t" "counted_bytes u = counted_bytes t"
    by (auto simp: open_record_def new_session_def)
  have "record_part (open_record h now uuid q K) k t = (u, Inr (stored_session ?r))"
    using v u(1) False fin sorted_insert [OF fin False]
    by (simp add: record_part_def open_record_def updated_def del: sorted_list_of_set_insert)
  moreover have "progress h now uuid q data used (insert k K) u"
    using s t(4) u(2-5) t(3) k fin False by (auto simp: progress_def)
  ultimately show ?thesis by blast
qed

lemma receive_progress:
  assumes ok: "sendable h usage uuid q data" and s: "progress h now uuid q data used K s" and k: "k < chunk_count (new_session now uuid q)"
    and later: "later < upload_expires_at (new_session now uuid q)" and room: "used + length data \<le> maximum_upload_storage"
  shows "\<exists>t r. receive_chunk h later usage (''upload_'' @ uuid) (int k) (part_of data k) s = (t, Inr r) \<and>
    progress h now uuid q data used (insert k K) t"
proof -
  let ?i = "''upload_'' @ uuid" and ?x = "new_session now uuid q" and ?r = "open_record h now uuid q K"
  have size: "upload_total_bytes ?x = length data" "chunk_bytes ?x = upload_chunk_bytes" "1 \<le> length data"
    "chunk_count ?x = (length data + upload_chunk_bytes - 1) div upload_chunk_bytes" using request_size [OF ok] by auto
  note len = part_length [OF size(1) [symmetric] size(2) k size(3,4)]
  have o: "outcomes s = []" "record_of ?i s = Some ?r" "chunk_file ?i k s \<in> {None, Some (part_of data k)}"
    using s by (auto simp: progress_def)
  have cap: "counted_bytes s + length (part_of data k) \<le> maximum_upload_storage" if "chunk_file ?i k s = None"
  proof -
    have "k \<notin> K" "finite K" "insert k K \<subseteq> {..<chunk_count ?x}" using that s k by (auto simp: progress_def)
    then have "(\<Sum>j \<in> K. length (part_of data j)) + length (part_of data k) \<le> length data"
      using sum_parts [of "insert k K" "chunk_count ?x" data] by simp
    then show ?thesis using s room by (simp add: progress_def)
  qed
  have res: "ensure_disk_reserve usage (int (length (part_of data k))) = Inr ()"
    using ok len(2) by (auto simp: sendable_def intro: reserve_less)
  obtain t where t: "store_part h usage ?i k (part_of data k) s = (t, Inr ())" "outcomes t = []" "record_of ?i t = record_of ?i s"
    "\<And>j. chunk_file ?i j t = (if j = k then Some (part_of data k) else chunk_file ?i j s)"
    "counted_bytes t \<le> counted_bytes s + (if chunk_file ?i k s = None then length (part_of data k) else 0)"
    using calm_store [OF o cap res, of h] by blast
  obtain u x where u: "record_part ?r k t = (u, Inr x)" "progress h now uuid q data used (insert k K) u"
    using record_progress [OF ok s k t(2-5)] by blast
  have load: "load_upload later ?i s = (s, Inr ?r)"
    using ok later by (intro calm_load o) (simp_all add: sendable_def open_record_def)
  have "\<not> upload_complete (stored_session ?r)" "chunk_count (stored_session ?r) = chunk_count ?x"
    "expected_chunk_bytes (stored_session ?r) k = expected_chunk_bytes ?x k"
    by (simp_all add: open_record_def new_session_def expected_chunk_bytes_def)
  with t(1) u load k len(1) show ?thesis
    unfolding receive_chunk_def by (intro exI conjI calm_locked o) simp_all
qed


lemma calm_verified: "outcomes s = [] \<Longrightarrow> \<forall>k \<in> set ks. good_part i x s k \<Longrightarrow> verified_parts i x ks s = (s, Inr ks)"
  by (induction ks) (auto simp: chunk_size_def good_part_def)

lemma calm_parts:
  assumes "outcomes s = []" and "record_of i s = Some r" and "archive_of i s = Some joined"
    and "distinct ks" and "\<forall>k \<in> set ks. chunk_file i k s = Some (f k)" and "prefix = take archive_prefix_bytes joined"
  shows "\<exists>t. assemble_parts i ks joined prefix s =
      (t, Inr (joined @ concat (map f ks), take archive_prefix_bytes (joined @ concat (map f ks)))) \<and>
    outcomes t = [] \<and> record_of i t = Some r \<and> archive_of i t = Some (joined @ concat (map f ks))"
  using assms
proof (induction ks arbitrary: s joined prefix)
  case (Cons k ks)
  have d: "dict_get (directories s) i \<noteq> None" using Cons.prems(2) by (auto simp: record_of_def bind_eq_Some_conv)
  let ?s = "extend_archive i (f k) s"
  let ?t = "within_directory i (\<lambda>d. d\<lparr>chunk_files := AList.delete k (chunk_files d)\<rparr>) ?s"
  have o: "outcomes ?s = []" "outcomes ?t = []" using Cons.prems(1) by (simp_all add: extend_archive_def)
  have pre: "prefix @ take (archive_prefix_bytes - length prefix) (f k) = take archive_prefix_bytes (joined @ f k)"
    using Cons.prems(6) by (simp add: min_def)
  have "assemble_parts i (k # ks) joined prefix s = assemble_parts i ks (joined @ f k) (take archive_prefix_bytes (joined @ f k)) ?t"
    using Cons.prems(1,5) o by (simp add: unlink_chunk_def pre)
  moreover have "record_of i ?t = Some r" using Cons.prems(2) by (simp add: keeps_record extended_fields)
  moreover have "archive_of i ?t = Some (joined @ f k)"
    using extended_fields(3) [OF d] Cons.prems(3) by (auto simp: within_get archive_of_def bind_map_option comp_def)
  moreover have "\<forall>j \<in> set ks. chunk_file i j ?t = Some (f j)"
    using Cons.prems(4,5) by (auto simp: deleted_chunk_file extended_fields)
  ultimately show ?case
    using Cons.IH [of ?t "joined @ f k" "take archive_prefix_bytes (joined @ f k)"] Cons.prems(4) o(2) by simp
qed simp

lemma calm_assemble:
  assumes "outcomes s = []" and r: "record_of i s = Some r" and "\<forall>k < n. chunk_file i k s = Some (f k)"
  shows "\<exists>t. assemble sha i n s = (t, Inr (sha (concat (map f [0..<n])), take archive_prefix_bytes (concat (map f [0..<n])))) \<and>
    outcomes t = [] \<and> record_of i t = Some r \<and> archive_of i t = Some (concat (map f [0..<n]))"
proof -
  let ?s = "within_directory i (\<lambda>d. d\<lparr>archive_file := None\<rparr>) s"
  let ?t = "extend_archive i [] ?s"
  have d: "dict_get (directories ?s) i \<noteq> None" using r by (auto simp: record_of_def within_get bind_eq_Some_conv)
  have o: "outcomes ?s = []" "outcomes ?t = []" using assms(1) by (simp_all add: extend_archive_def)
  have "archive_of i ?s = None" by (auto simp: archive_of_def within_get bind_map_option comp_def bind_eq_None_conv)
  then have a: "archive_of i ?t = Some []" using extended_fields(3) [OF d, of "[]"] by simp
  have b: "record_of i ?t = Some r" using r by (simp add: extended_fields keeps_record)
  have c: "\<forall>k \<in> set [0..<n]. chunk_file i k ?t = Some (f k)"
    using assms(3) by (auto simp: extended_fields, auto simp: chunk_file_def within_get split: option.splits)
  from calm_parts [OF o(2) b a _ c, of "[]"] assms(1) o show ?thesis
    by (auto simp: assemble_def)
qed

lemma calm_cleanup:
  assumes "outcomes s = []"
  shows "\<exists>t. remove_chunks i s = (t, Inr ()) \<and> archive_of i t = archive_of i s \<and> record_of i t = record_of i s"
  using assms by (intro exI [of _ "within_directory i (\<lambda>d. d\<lparr>chunk_files := []\<rparr>) s"])
    (auto simp: remove_chunks_def keeps_record, auto simp: archive_of_def within_get bind_map_option comp_def)

lemma complete_progress:
  assumes ok: "sendable h usage uuid q data" and s: "progress h now uuid q data used {..<chunk_count (new_session now uuid q)} s"
    and later: "later < upload_expires_at (new_session now uuid q)"
    and room: "used + length data + upload_chunk_bytes \<le> maximum_upload_storage"
  shows "\<exists>t x. complete_upload h later usage (''upload_'' @ uuid) s = (t, Inr x) \<and> upload_complete x \<and> upload_name x = ''upload_'' @ uuid \<and>
    upload_sha256 x = Some (content_digest h data) \<and> archive_of (''upload_'' @ uuid) t = Some data \<and>
    record_of (''upload_'' @ uuid) t = Some ((open_record h now uuid q {})\<lparr>stored_session := x\<rparr>)"
proof -
  let ?i = "''upload_'' @ uuid" and ?x = "new_session now uuid q"
  let ?K = "{..<chunk_count ?x}"
  let ?r = "open_record h now uuid q ?K"
  have size: "upload_total_bytes ?x = length data" "chunk_bytes ?x = upload_chunk_bytes" "1 \<le> length data"
    "chunk_count ?x = (length data + upload_chunk_bytes - 1) div upload_chunk_bytes" using request_size [OF ok] by auto
  have o: "outcomes s = []" "record_of ?i s = Some ?r" and parts: "\<forall>k < chunk_count ?x. chunk_file ?i k s = Some (part_of data k)"
    using s by (auto simp: progress_def)
  have whole: "concat (map (part_of data) [0..<chunk_count ?x]) = data"
    by (rule whole_parts) (rule chunk_arith(1) [OF size(3,4)])
  have load: "load_upload later ?i s = (s, Inr ?r)"
    using ok later by (intro calm_load o) (simp_all add: sendable_def open_record_def)
  have "\<forall>k \<in> set (received_chunks (stored_session ?r)). good_part ?i (stored_session ?r) s k"
    using parts part_length(1) [OF size(1) [symmetric] size(2) _ size(3,4)]
    by (auto simp: good_part_def open_record_def expected_chunk_bytes_def new_session_def)
  note verified = calm_verified [OF o(1) this]
  have "counted_bytes s + upload_chunk_bytes \<le> maximum_upload_storage"
    using s room sum_parts [of ?K "chunk_count ?x" data] by (simp add: progress_def)
  note cap = calm_capacity [OF o(1) this]
  obtain t where t: "assemble (content_digest h) ?i (chunk_count ?x) s = (t, Inr (content_digest h data, take archive_prefix_bytes data))"
    "outcomes t = []" "record_of ?i t = Some ?r" "archive_of ?i t = Some data"
    using calm_assemble [OF o parts, of "content_digest h"] whole by auto
  let ?y = "(stored_session ?r)\<lparr>upload_complete := True, upload_sha256 := Some (content_digest h data)\<rparr>"
  have y: "upload_session_valid ?y" using open_valid(2) [OF ok, of ?K now] by (simp add: open_record_def)
  obtain u where u: "save_record (?r\<lparr>stored_session := ?y\<rparr>) t = (u, Inr ())" "outcomes u = []" "archive_of ?i u = Some data"
    "record_of ?i u = Some (?r\<lparr>stored_session := ?y\<rparr>)"
    using calm_save [OF t(2,3), of "?r\<lparr>stored_session := ?y\<rparr>"] t(4) by (auto simp: open_record_def new_session_def)
  obtain v where v: "remove_chunks ?i u = (v, Inr ())" "archive_of ?i v = Some data"
    "record_of ?i v = Some (?r\<lparr>stored_session := ?y\<rparr>)" using calm_cleanup [OF u(2)] u(3,4) by metis
  have f: "chunk_bytes (stored_session ?r) = upload_chunk_bytes" "chunk_count (stored_session ?r) = chunk_count ?x"
    "length (received_chunks (stored_session ?r)) = chunk_count ?x" "\<not> upload_complete (stored_session ?r)"
    "stored_expected ?r = request_sha256 q"
    by (simp_all add: open_record_def new_session_def)
  have "publish_archive h usage ?i ?r s = (v, Inr ?y)"
    using cap ok t(1) y u(1) v(1) by (auto simp add: publish_archive_def Let_def f sendable_def updated_def)
  then have "complete_upload h later usage ?i s = (v, Inr ?y)"
    unfolding complete_upload_def using load verified by (intro calm_locked o(1)) (simp add: f Let_def)
  with v(2,3) show ?thesis by (auto simp: open_record_def new_session_def)
qed


lemma filtered_update:
  "sum_list (map (length \<circ> snd) (filter P (AList.update c v d))) \<le> sum_list (map (length \<circ> snd) (filter P d)) + length v"
  by (induction d) auto

lemma filtered_delete:
  "sum_list (map (length \<circ> snd) (filter P (AList.delete c d))) \<le> sum_list (map (length \<circ> snd) (filter P d))"
  by (induction d) auto

lemma create_progress:
  assumes ok: "sendable h usage uuid q data" and o: "outcomes s = []"
    and fresh: "dict_get (request_files s) (upload_client q) = None" "dict_get (directories s) (''upload_'' @ uuid) = None"
    and room: "counted_bytes s + length data \<le> maximum_upload_storage"
  shows "\<exists>t. create_upload h now uuid q s = (t, Inr (new_session now uuid q)) \<and>
    progress h now uuid q data (counted_bytes s + 39) {} t"
proof -
  let ?i = "''upload_'' @ uuid" and ?r = "open_record h now uuid q {}"
  have size: "request_total_bytes q = length data" using ok by (simp add: sendable_def)
  have same: "(new_session now uuid q)\<lparr>received_chunks := []\<rparr> = new_session now uuid q" by (simp add: new_session_def)
  have v: "upload_session_valid (new_session now uuid q)" using open_valid(1) [OF ok, of "{}" now] same by simp
  let ?t = "within_directory ?i (\<lambda>d. d\<lparr>session_record := Some ?r\<rparr>) (make_directory ?i s)"
  let ?u = "?t\<lparr>request_files := AList.update (upload_client q) ?i (AList.delete (pending (upload_client q)) (request_files ?t))\<rparr>"
  have t: "save_record ?r s = (?t, Inr ())" "outcomes ?t = []" "request_files ?t = request_files s"
    using o by (simp_all add: save_record_def Let_def open_record_def new_session_def)
  have made: "dict_get (directories (make_directory ?i s)) ?i = Some empty_directory"
    using fresh(2) by (simp add: make_directory_def)
  have "stored_bytes (make_directory ?i s) = stored_bytes s"
    using sum_update [of directory_bytes ?i empty_directory "directories s"] fresh(2)
    by (simp add: make_directory_def stored_bytes_def directory_bytes_def empty_directory_def)
  then have "stored_bytes ?t = stored_bytes s"
    using stored_within [OF made, of "\<lambda>d. d\<lparr>session_record := Some ?r\<rparr>"]
    by (simp add: directory_bytes_def)
  moreover have "length ?i = 39" using ok by (simp add: sendable_def upload_pattern_def)
  ultimately have "counted_bytes ?u \<le> counted_bytes s + 39"
    using filtered_update [of _ "upload_client q" ?i "AList.delete (pending (upload_client q)) (request_files s)"]
      filtered_delete [of _ "pending (upload_client q)" "request_files s"] t(3)
    by (simp add: counted_bytes_def stored_bytes_def) (meson add_le_mono le_trans order_refl)
  moreover have "record_of ?i ?u = Some ?r" "\<And>k. chunk_file ?i k ?u = None"
    using made by (simp add: within_fields, simp add: chunk_file_def within_get empty_directory_def)
  ultimately have "progress h now uuid q data (counted_bytes s + 39) {} ?u"
    using t(2) by (simp add: progress_def)
  moreover have "create_upload h now uuid q s = (?u, Inr (new_session now uuid q))"
    unfolding create_upload_def
  proof (rule calm_locked [OF o])
    have literal: "\<lparr>stored_session = new_session now uuid q, stored_client = upload_client q,
        stored_fingerprint = request_digest h q, stored_expected = request_sha256 q\<rparr> = ?r"
      by (simp add: open_record_def same)
    have name: "upload_name (new_session now uuid q) = ''upload_'' @ uuid" by (simp add: new_session_def)
    show "act_bind (replayed_upload now (upload_client q)) (\<lambda>existing. case existing of
       Some r \<Rightarrow> if stored_fingerprint r \<noteq> request_digest h q then act_raise (upload_failure ''request_identifier_conflict'')
         else act_return (stored_session r)
     | None \<Rightarrow> act_bind (check_upload_capacity (request_total_bytes q)) (\<lambda>_.
         act_bind (updated (new_session now uuid q)) (\<lambda>session.
         act_bind (save_record \<lparr>stored_session = session, stored_client = upload_client q,
             stored_fingerprint = request_digest h q, stored_expected = request_sha256 q\<rparr>) (\<lambda>_.
         act_bind (write_request (upload_client q) (upload_name session)) (\<lambda>_. act_return session))))) s
      = (?u, Inr (new_session now uuid q))"
      using t(1) fresh(1) o v t(2) room size
      by (simp add: replayed_upload_def read_request_def calm_capacity updated_def write_request_def name literal Let_def)
  qed
  ultimately show ?thesis by blast
qed

lemma receive_all_progress:
  assumes ok: "sendable h usage uuid q data" and room: "used + length data \<le> maximum_upload_storage"
  shows "progress h now uuid q data used K s \<Longrightarrow>
    \<forall>(later, k) \<in> set ks. later < upload_expires_at (new_session now uuid q) \<and> k < chunk_count (new_session now uuid q) \<Longrightarrow>
    \<exists>t. receive_all h usage (''upload_'' @ uuid) data ks s = (t, Inr ()) \<and>
      progress h now uuid q data used (K \<union> snd ` set ks) t"
proof (induction ks arbitrary: K s)
  case (Cons e ks)
  obtain later k where e: "e = (later, k)" by fastforce
  from receive_progress [OF ok Cons.prems(1) _ _ room, of k later] Cons.prems(2) e
  obtain t r where t: "receive_chunk h later usage (''upload_'' @ uuid) (int k) (part_of data k) s = (t, Inr r)"
    "progress h now uuid q data used (insert k K) t" by auto
  from Cons.IH [OF t(2)] Cons.prems(2) t(1) e show ?case by auto
qed simp

lemma sent_archive:
  assumes "sendable h usage uuid q data" and "outcomes s = []"
    and "dict_get (request_files s) (upload_client q) = None" and "dict_get (directories s) (''upload_'' @ uuid) = None"
    and "counted_bytes s + 39 + length data + upload_chunk_bytes \<le> maximum_upload_storage"
    and "snd ` set ks = {..<chunk_count (new_session now uuid q)}"
    and "\<forall>(later, k) \<in> set ((finish, 0) # ks). later < upload_expires_at (new_session now uuid q)"
  shows "\<exists>a b c x. create_upload h now uuid q s = (a, Inr (new_session now uuid q)) \<and>
    receive_all h usage (''upload_'' @ uuid) data ks a = (b, Inr ()) \<and>
    complete_upload h finish usage (''upload_'' @ uuid) b = (c, Inr x) \<and> upload_complete x \<and>
    upload_name x = ''upload_'' @ uuid \<and> upload_sha256 x = Some (content_digest h data) \<and>
    archive_of (''upload_'' @ uuid) c = Some data \<and>
    record_of (''upload_'' @ uuid) c = Some ((open_record h now uuid q {})\<lparr>stored_session := x\<rparr>)"
proof -
  obtain a where a: "create_upload h now uuid q s = (a, Inr (new_session now uuid q))"
    "progress h now uuid q data (counted_bytes s + 39) {} a"
    using create_progress [OF assms(1-4)] assms(5) by auto
  have "\<forall>(later, k) \<in> set ks. later < upload_expires_at (new_session now uuid q) \<and> k < chunk_count (new_session now uuid q)"
  proof safe
    fix later k assume m: "(later, k) \<in> set ks"
    then have "k \<in> snd ` set ks" by force
    with assms(6) show "k < chunk_count (new_session now uuid q)" by simp
    show "later < upload_expires_at (new_session now uuid q)" using m assms(7) by auto
  qed
  from receive_all_progress [OF assms(1) _ a(2) this] assms(5,6) obtain b where
    b: "receive_all h usage (''upload_'' @ uuid) data ks a = (b, Inr ())"
      "progress h now uuid q data (counted_bytes s + 39) {..<chunk_count (new_session now uuid q)} b" by auto
  from complete_progress [OF assms(1) b(2), of finish] assms(5,7) a(1) b(1) show ?thesis by auto
qed

text \<open>
  C31: Parts may arrive in any order and more than once. After a fresh request is accepted,
  sending every part of the announced archive, in any order, with repetitions and at any
  times before the expiry, and then completing the session succeeds when no file operation
  fails and the storage cap and the disk reserve leave room; the archive offered then is the
  archive that was cut into the parts, under its digest.
\<close>

theorem archive_round_trip:
  assumes "sendable h usage uuid q data" and "outcomes s = []"
    and "dict_get (request_files s) (upload_client q) = None" and "dict_get (directories s) (''upload_'' @ uuid) = None"
    and "counted_bytes s + 39 + length data + upload_chunk_bytes \<le> maximum_upload_storage"
    and "snd ` set ks = {..<chunk_count (new_session now uuid q)}"
    and "\<forall>(later, k) \<in> set ((finish, 0) # ks). later < upload_expires_at (new_session now uuid q)"
  shows "\<exists>t x. act_bind (create_upload h now uuid q) (\<lambda>y.
      act_bind (receive_all h usage (upload_name y) data ks) (\<lambda>_. complete_upload h finish usage (upload_name y))) s
        = (t, Inr x) \<and> upload_complete x \<and> upload_sha256 x = Some (content_digest h data) \<and>
    archive_of (upload_name x) t = Some data"
proof -
  have "upload_name (new_session now uuid q) = ''upload_'' @ uuid" by (simp add: new_session_def)
  with sent_archive [OF assms] show ?thesis by fastforce
qed

text \<open>A small archive, sent twice as its single part.\<close>

definition demo_hashing :: upload_hashing where
  "demo_hashing = \<lparr>content_digest = \<lambda>data. replicate 64 (CHR ''a''), request_digest = upload_client\<rparr>"

definition demo_request :: upload_request where
  "demo_request = \<lparr>upload_client = ''me'', request_file_name = ''a.zip'', request_total_bytes = 6, request_sha256 = None\<rparr>"

abbreviation demo_uuid :: string where "demo_uuid \<equiv> replicate 32 (CHR ''7'')"
abbreviation demo_archive :: "byte list" where "demo_archive \<equiv> [0x50, 0x4B, 3, 4, 0, 9]"
abbreviation demo_disk :: "disk_usage option" where
  "demo_disk \<equiv> Some \<lparr>total_bytes = 100000000000, free_bytes = 90000000000\<rparr>"

lemma demo_sendable: "sendable demo_hashing demo_disk demo_uuid demo_request demo_archive"
proof -
  have "file_name_pattern ''a.zip''" by code_simp
  then have "upload_request_valid demo_request"
    by (simp add: upload_request_valid_def demo_request_def maximum_upload_bytes_def)
  moreover have "upload_pattern (''upload_'' @ demo_uuid)" by code_simp
  moreover have "is_sha256 (replicate 64 (CHR ''a''))" by code_simp
  moreover have "is_archive_prefix (take archive_prefix_bytes demo_archive)"
    by (simp add: is_archive_prefix_def archive_prefix_bytes_def)
  moreover have "ensure_disk_reserve demo_disk (int upload_chunk_bytes) = Inr ()"
    by (simp add: ensure_disk_reserve_def upload_chunk_bytes_def minimum_reserve_bytes_def)
  ultimately show ?thesis by (simp add: sendable_def demo_hashing_def demo_request_def)
qed

lemma demo_count: "{..<chunk_count (new_session now demo_uuid demo_request)} = {0}"
  by (auto simp: new_session_def demo_request_def upload_chunk_bytes_def)

lemma demo_expiry: "upload_expires_at (new_session 5 demo_uuid demo_request) = 86400000005"
  by (simp add: new_session_def upload_retention_seconds_def)

lemma demo_room: "counted_bytes empty_tree + 39 + length demo_archive + upload_chunk_bytes \<le> maximum_upload_storage"
  by (simp add: counted_bytes_def stored_bytes_def empty_tree_def upload_chunk_bytes_def maximum_upload_storage_def)

theorem archive_round_trip_witness:
  "\<exists>t x. act_bind (create_upload demo_hashing 5 demo_uuid demo_request) (\<lambda>y.
      act_bind (receive_all demo_hashing demo_disk (upload_name y) demo_archive [(6, 0), (7, 0)])
        (\<lambda>_. complete_upload demo_hashing 8 demo_disk (upload_name y))) empty_tree = (t, Inr x) \<and> upload_complete x \<and>
     upload_sha256 x = Some (content_digest demo_hashing demo_archive) \<and> archive_of (upload_name x) t = Some demo_archive"
  by (rule archive_round_trip [OF demo_sendable _ _ _ demo_room])
    (auto simp: empty_tree_def demo_count demo_expiry)

lemma receive_all_steps: "receive_all h usage i data ks s = (t, r) \<Longrightarrow> (upload_step h)\<^sup>*\<^sup>* s t"
proof (induction ks arbitrary: s)
  case (Cons e ks)
  obtain now k where e: "e = (now, k)" by fastforce
  obtain u c where u: "receive_chunk h now usage i (int k) (part_of data k) s = (u, c)" by fastforce
  then have "upload_step h s u" by (rule receives)
  with u Cons e show ?case
    by (cases c) (auto intro: converse_rtranclp_into_rtranclp)
qed simp

lemma demo_upload_reachable:
  "\<exists>s x. (upload_step demo_hashing)\<^sup>*\<^sup>* empty_tree s \<and> upload_complete x \<and>
     archive_of (''upload_'' @ demo_uuid) s = Some demo_archive \<and>
     record_of (''upload_'' @ demo_uuid) s = Some ((open_record demo_hashing 5 demo_uuid demo_request {})\<lparr>stored_session := x\<rparr>)"
proof -
  have "snd ` set [(6 :: int, 0)] = {..<chunk_count (new_session 5 demo_uuid demo_request)}" by (simp add: demo_count)
  from sent_archive [OF demo_sendable _ _ _ demo_room this, of 7] obtain a b c x where run:
    "create_upload demo_hashing 5 demo_uuid demo_request empty_tree = (a, Inr (new_session 5 demo_uuid demo_request))"
    "receive_all demo_hashing demo_disk (''upload_'' @ demo_uuid) demo_archive [(6, 0)] a = (b, Inr ())"
    "complete_upload demo_hashing 7 demo_disk (''upload_'' @ demo_uuid) b = (c, Inr x)" "upload_complete x"
    "archive_of (''upload_'' @ demo_uuid) c = Some demo_archive"
    "record_of (''upload_'' @ demo_uuid) c = Some ((open_record demo_hashing 5 demo_uuid demo_request {})\<lparr>stored_session := x\<rparr>)"
    by (auto simp: empty_tree_def demo_expiry)
  have "(upload_step demo_hashing)\<^sup>*\<^sup>* empty_tree c"
    using creates [OF run(1)] receive_all_steps [OF run(2)] completes [OF run(3)]
    by (meson converse_rtranclp_into_rtranclp rtranclp.rtrancl_into_rtrancl)
  with run(4-6) show ?thesis by blast
qed

theorem uploads_within_cap_witness:
  "\<exists>s. archive_of (''upload_'' @ demo_uuid) s = Some demo_archive \<and> stored_bytes s \<le> maximum_upload_storage"
  using demo_upload_reachable uploads_within_cap [of demo_hashing] by meson

theorem offered_archive_verified_witness:
  "\<exists>s r. archive_of (''upload_'' @ demo_uuid) s = Some demo_archive \<and> archive_verified demo_hashing r demo_archive"
proof -
  obtain s x where s: "(upload_step demo_hashing)\<^sup>*\<^sup>* empty_tree s" "upload_complete x"
    "archive_of (''upload_'' @ demo_uuid) s = Some demo_archive"
    "record_of (''upload_'' @ demo_uuid) s = Some ((open_record demo_hashing 5 demo_uuid demo_request {})\<lparr>stored_session := x\<rparr>)"
    using demo_upload_reachable by blast
  have "archive_verified demo_hashing ((open_record demo_hashing 5 demo_uuid demo_request {})\<lparr>stored_session := x\<rparr>) demo_archive"
    by (rule offered_archive_verified [OF s(1,4) _ s(3)]) (use s(2) in simp)
  with s(3) show ?thesis by blast
qed


text \<open>
  The sibling of a request file is itself a possible request file: client identifiers may
  contain dots. Accepting a request of client \<open>c\<close> removes the request file of the client
  \<open>c.pending\<close>, whose retry then opens a second session.
\<close>

lemma pending_request_lost:
  "outcomes s = [] \<Longrightarrow> \<exists>t. write_request c i s = (t, Inr ()) \<and> dict_get (request_files t) (pending c) = None"
  by (simp add: write_request_def Let_def pending_def)

end
