(* ===== verification/StageWriter.thy ===== *)
theory StageWriter
  imports Files Specifications
begin

text \<open>
  The stage of one dataset run, \<^verbatim>\<open>DatasetWriter\<close> of \<^verbatim>\<open>backend_service/dataset_storage.py\<close>:
  a byte allowance charged before every write, exclusive creation of files under checked
  relative paths, and one publication that never replaces a revision. A file operation takes
  the next entry of a list of outcomes; each check of the free space takes the next reading of
  the disk. SHA-256 is a parameter.
\<close>

type_synonym file_table = "(pystr \<times> byte list) list"

record stage_writer =
  stage_files :: file_table
  revisions :: "(pystr \<times> file_table) list"
  prepared_limit :: int
  authorized :: int
  lock_held :: bool
  stage_published :: bool
  disk_readings :: "disk_usage option list"
  write_outcomes :: "nat option list"

type_synonym ('x, 'a) stage_action = "('x stage_writer_scheme, 'a) action"

definition stage_operation ::
  "(nat \<Rightarrow> 'x stage_writer_scheme \<Rightarrow> 'x stage_writer_scheme) \<Rightarrow> ('x stage_writer_scheme \<Rightarrow> 'x stage_writer_scheme)
    \<Rightarrow> ('x, unit) stage_action" where
  "stage_operation partial whole s =
     (case write_outcomes s of
        [] \<Rightarrow> (whole s, Inr ())
      | None # rest \<Rightarrow> (whole (s\<lparr>write_outcomes := rest\<rparr>), Inr ())
      | Some n # rest \<Rightarrow> (partial n (s\<lparr>write_outcomes := rest\<rparr>), Inl OS_Error))"

definition check_free_space :: "int \<Rightarrow> ('x, unit) stage_action" where
  "check_free_space next_bytes s =
     (s\<lparr>disk_readings := tl (disk_readings s)\<rparr>,
      ensure_disk_reserve (case disk_readings s of [] \<Rightarrow> None | usage # _ \<Rightarrow> usage) next_bytes)"

definition check_estimated_space :: "int \<Rightarrow> ('x, unit) stage_action" where
  "check_estimated_space estimated = act_bind act_get (\<lambda>s.
     if estimated < 0 \<or> prepared_limit s < authorized s + estimated then act_raise (dataset_failure ''dataset_space'')
     else check_free_space estimated)"

definition reserve_write :: "nat \<Rightarrow> ('x, unit) stage_action" where
  "reserve_write amount = act_bind act_get (\<lambda>s.
     if \<not> lock_held s \<or> stage_published s then act_raise (dataset_failure ''dataset_storage'')
     else act_bind (check_estimated_space (int amount)) (\<lambda>_.
       act_modify (\<lambda>t. t\<lparr>authorized := authorized t + int amount\<rparr>)))"

text \<open>
  An error of the system inside an open directory becomes the access failure, before the
  handler of the operation around it sees it.
\<close>

definition renamed :: "exn \<Rightarrow> ('s, 'a) action \<Rightarrow> ('s, 'a) action" where
  "renamed failure m s = (case m s of
     (t, Inl OS_Error) \<Rightarrow> (t, Inl failure) | (t, r) \<Rightarrow> (t, r))"

definition in_directory :: "('s, 'a) action \<Rightarrow> ('s, 'a) action" where
  "in_directory m = renamed (dataset_failure ''dataset_access'') m"

definition storing :: "('s, 'a) action \<Rightarrow> ('s, 'a) action" where
  "storing m = renamed (dataset_failure ''dataset_storage'') m"

definition create_file :: "pystr \<Rightarrow> ('x, unit) stage_action" where
  "create_file path = act_bind act_get (\<lambda>s.
     if dict_get (stage_files s) path \<noteq> None then act_raise OS_Error
     else stage_operation (\<lambda>n s. s) (\<lambda>s. s\<lparr>stage_files := AList.update path [] (stage_files s)\<rparr>))"

definition extend_file :: "pystr \<Rightarrow> byte list \<Rightarrow> 'x stage_writer_scheme \<Rightarrow> 'x stage_writer_scheme" where
  "extend_file path data s = (case dict_get (stage_files s) path of
     None \<Rightarrow> s | Some old \<Rightarrow> s\<lparr>stage_files := AList.update path (old @ data) (stage_files s)\<rparr>)"

definition append_chunk :: "pystr \<Rightarrow> byte list \<Rightarrow> ('x, unit) stage_action" where
  "append_chunk path chunk = stage_operation (\<lambda>n. extend_file path (take n chunk)) (extend_file path chunk)"

definition flush_file :: "('x, unit) stage_action" where
  "flush_file = stage_operation (\<lambda>n s. s) id"

definition write_piece_bytes :: nat where "write_piece_bytes = 1024 ^ 2"

function write_pieces :: "pystr \<Rightarrow> byte list \<Rightarrow> ('x, unit) stage_action" where
  "write_pieces path data =
     (if data = [] then act_return ()
      else act_bind (reserve_write (length (take write_piece_bytes data))) (\<lambda>_.
        act_bind (append_chunk path (take write_piece_bytes data)) (\<lambda>_.
        write_pieces path (drop write_piece_bytes data))))"
  by pat_completeness auto
termination by (relation "measure (length \<circ> snd)") (auto simp: write_piece_bytes_def)

declare write_pieces.simps [simp del]

definition write_file :: "pystr \<Rightarrow> byte list \<Rightarrow> ('x, pystr) stage_action" where
  "write_file path data = act_bind (act_lift (relative_parts path)) (\<lambda>_.
     act_bind (storing (in_directory (
       act_bind (create_file path) (\<lambda>_.
       act_bind (write_pieces path data) (\<lambda>_.
       act_bind flush_file (\<lambda>_. flush_file)))))) (\<lambda>_. act_return path))"

text \<open>
  The chunks of a stream come from an iterator. Here it is the iterator of an archive member:
  the bytes already sniffed, then the answers of the reads, one ahead of the chunk at hand,
  until a read returns nothing; between two chunks it runs a check of its caller.
\<close>

fun take_read :: "(byte list result) list \<Rightarrow> byte list result \<times> (byte list result) list" where
  "take_read [] = (Inr [], [])"
| "take_read (r # rs) = (r, rs)"

definition put_chunk :: "pystr \<Rightarrow> int \<Rightarrow> nat \<Rightarrow> byte list \<Rightarrow> ('x, unit) stage_action" where
  "put_chunk path maximum_bytes so_far chunk =
     (if maximum_bytes < int (so_far + length chunk) then act_raise (dataset_failure ''dataset_limits'')
      else act_bind (reserve_write (length chunk)) (\<lambda>_. append_chunk path chunk))"

fun put_chunks :: "('x, unit) stage_action \<Rightarrow> pystr \<Rightarrow> int \<Rightarrow> byte list \<Rightarrow> byte list \<Rightarrow> (byte list result) list
    \<Rightarrow> ('x, byte list) stage_action" where
  "put_chunks check path maximum_bytes written chunk [] =
     (if chunk = [] then act_return written
      else act_bind (put_chunk path maximum_bytes (length written) chunk) (\<lambda>_. act_return (written @ chunk)))"
| "put_chunks check path maximum_bytes written chunk (following # reads) =
     (if chunk = [] then act_return written
      else act_bind (act_lift following) (\<lambda>next_chunk.
        act_bind (put_chunk path maximum_bytes (length written) chunk) (\<lambda>_.
        if next_chunk = [] then act_return (written @ chunk)
        else act_bind check (\<lambda>_. put_chunks check path maximum_bytes (written @ chunk) next_chunk reads))))"

definition write_stream :: "(byte list \<Rightarrow> string) \<Rightarrow> ('x, unit) stage_action \<Rightarrow> pystr \<Rightarrow> byte list \<Rightarrow> (byte list result) list
    \<Rightarrow> int \<Rightarrow> ('x, string \<times> nat) stage_action" where
  "write_stream sha check path sniffed reads maximum_bytes = act_bind (act_lift (relative_parts path)) (\<lambda>_.
     storing (in_directory (
       act_bind (create_file path) (\<lambda>_.
       act_bind (put_chunk path maximum_bytes 0 sniffed) (\<lambda>_.
       act_bind (act_lift (fst (take_read reads))) (\<lambda>chunk.
       act_bind (put_chunks check path maximum_bytes sniffed chunk (snd (take_read reads))) (\<lambda>written.
       act_bind flush_file (\<lambda>_.
       act_bind flush_file (\<lambda>_.
       act_return (sha written, length written))))))))))"

definition record_external_write :: "pystr \<Rightarrow> int \<Rightarrow> ('x, unit) stage_action" where
  "record_external_write path amount = act_bind (act_lift (relative_parts path)) (\<lambda>_.
     storing (act_bind act_get (\<lambda>s. case dict_get (stage_files s) path of
       None \<Rightarrow> act_raise OS_Error
     | Some data \<Rightarrow> if int (length data) \<noteq> amount \<or> authorized s < amount then act_raise (dataset_failure ''dataset_storage'')
         else act_return ())))"

definition reuse_path :: "pystr \<Rightarrow> ('x, pystr option) stage_action" where
  "reuse_path directory = act_bind (act_lift (relative_parts directory)) (\<lambda>_.
     act_bind act_get (\<lambda>s. if dict_get (revisions s) directory = None then act_return None
       else in_directory (act_bind flush_file (\<lambda>_. act_return (Some directory)))))"

text \<open>The rename that publishes refuses an existing name; after it only flushing can fail.\<close>

definition publish_directory :: "pystr \<Rightarrow> ('x, unit) stage_action" where
  "publish_directory directory = act_bind act_get (\<lambda>s.
     if dict_get (revisions s) directory \<noteq> None then act_raise (dataset_failure ''dataset_exists'')
     else act_bind (renamed (dataset_failure ''dataset_storage'') (stage_operation (\<lambda>n s. s)
        (\<lambda>s. s\<lparr>revisions := AList.update directory (stage_files s) (revisions s), stage_files := []\<rparr>))) (\<lambda>_. act_return ()))"

definition publish :: "pystr \<Rightarrow> ('x, pystr) stage_action" where
  "publish directory = act_bind act_get (\<lambda>s.
     if \<not> lock_held s \<or> stage_published s then act_raise (dataset_failure ''dataset_storage'')
     else act_bind (act_lift (relative_parts directory)) (\<lambda>_.
       storing (act_bind (in_directory (
         act_bind (check_estimated_space 0) (\<lambda>_.
         act_bind flush_file (\<lambda>_.
         act_bind (publish_directory directory) (\<lambda>_.
         act_bind (act_modify (\<lambda>s. s\<lparr>stage_published := True\<rparr>)) (\<lambda>_. flush_file)))))) (\<lambda>_.
       act_bind flush_file (\<lambda>_. act_return directory)))))"

end
