(* ===== verification/ArchiveMembers.thy ===== *)
theory ArchiveMembers
  imports StageWriter
begin

text \<open>
  Which members of an archive may be extracted:
  \<^verbatim>\<open>backend_service/dataset_sources/archive_members.py\<close> and \<^theory_text>\<open>relative_path\<close> of
  \<^verbatim>\<open>schemas/dataset_common.py\<close>. Names are lists of code points. Only the letters A to Z are
  lowered: no other character lowers to a letter of a known extension.
\<close>

definition archive_failure :: "string \<Rightarrow> exn" where
  "archive_failure code = Application_Failure code (if code = ''archive_limits'' then 400 else 422)"

definition relative_path :: "pystr \<Rightarrow> pystr result" where
  "relative_path s =
     (if s = [] \<or> 4096 < length s \<or> posix_root s \<noteq> []
        \<or> list_ex (\<lambda>p. p = [] \<or> p = [46] \<or> p = [46, 46]) (split_on slash s)
        \<or> backslash \<in> set s \<or> colon \<in> set s \<or> list_ex (\<lambda>ch. ch < 32 \<or> ch = 127) s
      then Inl Value_Error else Inr s)"

section \<open>Kinds and limits\<close>

datatype member_kind = Image_Member | Text_Member | Rejected_Member

record member_policy =
  allowed_kinds :: "member_kind list"
  maximum_members :: nat
  maximum_total_bytes :: int
  maximum_image_bytes :: int
  maximum_text_bytes :: int

definition default_policy :: member_policy where
  "default_policy = \<lparr>allowed_kinds = [Image_Member, Text_Member], maximum_members = 200000,
     maximum_total_bytes = 100 * 1024 ^ 3, maximum_image_bytes = 50 * 1024 ^ 2, maximum_text_bytes = 256 * 1024 ^ 2\<rparr>"

definition maximum_bytes_for :: "member_policy \<Rightarrow> member_kind \<Rightarrow> int" where
  "maximum_bytes_for p kind = (if kind = Image_Member then maximum_image_bytes p else maximum_text_bytes p)"

record member_decision =
  decision_kind :: member_kind
  decision_reason :: "string option"

record member_record =
  member_path :: pystr
  member_kind :: member_kind
  member_size :: nat
  member_sha256 :: string
  member_split :: "string option"

record member_rejection =
  rejection_path :: pystr
  rejection_reason :: string
  rejection_bytes :: int

record extraction_report =
  report_members :: "member_record list"
  report_rejected :: "member_rejection list"
  report_bytes :: nat

section \<open>The end of a zip file\<close>

definition zip_magic :: "byte list" where "zip_magic = [0x50, 0x4B, 0x03, 0x04]"
definition gzip_magic :: "byte list" where "gzip_magic = [0x1F, 0x8B]"
definition tar_magic :: "byte list" where "tar_magic = [0x75, 0x73, 0x74, 0x61, 0x72]"
definition png_magic :: "byte list" where "png_magic = [0x89, 0x50, 0x4E, 0x47]"
definition jpeg_magic :: "byte list" where "jpeg_magic = [0xFF, 0xD8]"

definition starts_with :: "'a list \<Rightarrow> 'a list \<Rightarrow> bool" where
  "starts_with s p \<longleftrightarrow> take (length p) s = p"

definition looks_like_archive :: "byte list \<Rightarrow> bool" where
  "looks_like_archive s \<longleftrightarrow> starts_with s zip_magic \<or> starts_with s gzip_magic \<or> take 5 (drop 257 s) = tar_magic"

record zip_directory =
  directory_entries :: nat
  directory_size :: nat

definition end_signature :: "byte list" where "end_signature = [0x50, 0x4B, 0x05, 0x06]"
definition locator_signature :: "byte list" where "locator_signature = [0x50, 0x4B, 0x06, 0x07]"
definition zip64_signature :: "byte list" where "zip64_signature = [0x50, 0x4B, 0x06, 0x06]"
definition end_record_bytes :: nat where "end_record_bytes = 22"
definition maximum_comment_bytes :: nat where "maximum_comment_bytes = 65535"
definition zip64_locator_bytes :: nat where "zip64_locator_bytes = 20"
definition zip64_record_bytes :: nat where "zip64_record_bytes = 56"
definition maximum_directory_bytes :: nat where "maximum_directory_bytes = 64 * 1024 ^ 2"

definition find_last :: "'a list \<Rightarrow> 'a list \<Rightarrow> nat option" where
  "find_last s p = find (\<lambda>i. starts_with (drop i s) p) (rev [0..<Suc (length s)])"

definition little_endian :: "byte list \<Rightarrow> nat" where
  "little_endian bs = foldr (\<lambda>b n. unat b + 256 * n) bs 0"

definition field_at :: "byte list \<Rightarrow> nat \<Rightarrow> nat \<Rightarrow> nat" where
  "field_at s offset count = little_endian (take count (drop offset s))"

text \<open>A position beyond the range of a file offset is refused by the stream, with \<^theory_text>\<open>ValueError\<close>.\<close>

definition seek_to :: "byte list \<Rightarrow> nat \<Rightarrow> byte list result" where
  "seek_to content offset = (if 2 ^ 63 \<le> offset then Inl Value_Error else Inr (drop offset content))"

definition read_zip64_directory :: "byte list \<Rightarrow> byte list \<Rightarrow> zip_directory result" where
  "read_zip64_directory content locator =
     andThen (seek_to content (field_at locator 8 8)) (\<lambda>rest.
       let record64 = take zip64_record_bytes rest in
       if length record64 \<noteq> zip64_record_bytes \<or> \<not> starts_with record64 zip64_signature
       then Inl (archive_failure ''archive_unreadable'')
       else Inr \<lparr>directory_entries = field_at record64 32 8, directory_size = field_at record64 40 8\<rparr>)"

definition read_zip_directory :: "byte list \<Rightarrow> zip_directory result" where
  "read_zip_directory content =
     (let tail = drop (length content - end_record_bytes - maximum_comment_bytes) content in
      case find_last tail end_signature of
        None \<Rightarrow> Inl (archive_failure ''archive_unreadable'')
      | Some position \<Rightarrow>
          if length tail - position < end_record_bytes then Inl (archive_failure ''archive_unreadable'')
          else
            let end_record = drop position tail; entries = field_at end_record 10 2; bytes = field_at end_record 12 4 in
            if (entries \<noteq> 0xFFFF \<and> bytes \<noteq> 0xFFFFFFFF) \<or> position < zip64_locator_bytes
              \<or> \<not> starts_with (drop (position - zip64_locator_bytes) tail) locator_signature
            then Inr \<lparr>directory_entries = entries, directory_size = bytes\<rparr>
            else read_zip64_directory content (take zip64_locator_bytes (drop (position - zip64_locator_bytes) tail)))"

definition check_zip_directory :: "member_policy \<Rightarrow> byte list \<Rightarrow> zip_directory result" where
  "check_zip_directory policy content = andThen (read_zip_directory content) (\<lambda>directory.
     if maximum_members policy < directory_entries directory \<or> maximum_directory_bytes < directory_size directory
     then Inl (archive_failure ''archive_limits'') else Inr directory)"

section \<open>Names and contents\<close>

definition text_points :: "string \<Rightarrow> pystr" where
  "text_points s = List.map of_char s"

definition full_stop :: nat where "full_stop = 46"

definition is_metadata :: "pystr \<Rightarrow> bool" where
  "is_metadata name \<longleftrightarrow> hd (split_on slash name) = text_points ''__MACOSX'' \<or>
     list_ex (\<lambda>part. starts_with part [full_stop]) (split_on slash name)"

definition lowered :: "nat \<Rightarrow> nat" where
  "lowered ch = (if 65 \<le> ch \<and> ch \<le> 90 then ch + 32 else ch)"

definition extension_of :: "pystr \<Rightarrow> pystr" where
  "extension_of name = (let basename = last (split_on slash name) in
     if full_stop \<in> set basename then List.map lowered (last (split_on full_stop basename)) else [])"

definition image_magic :: "pystr \<Rightarrow> byte list option" where
  "image_magic extension =
     (if extension = text_points ''png'' then Some png_magic
      else if extension \<in> {text_points ''jpg'', text_points ''jpeg''} then Some jpeg_magic else None)"

definition is_rejected :: "string \<Rightarrow> member_decision" where
  "is_rejected reason = \<lparr>decision_kind = Rejected_Member, decision_reason = Some reason\<rparr>"

definition classify_member :: "pystr \<Rightarrow> byte list \<Rightarrow> member_policy \<Rightarrow> member_decision" where
  "classify_member name sniffed policy =
     (case relative_path name of
        Inl _ \<Rightarrow> is_rejected ''unsafe_path''
      | Inr _ \<Rightarrow>
          if is_metadata name then is_rejected ''unsupported_file_type''
          else if looks_like_archive sniffed then is_rejected ''nested_archive''
          else
            let magic = image_magic (extension_of name);
                kind = (if magic \<noteq> None then Image_Member
                        else if extension_of name = text_points ''txt'' then Text_Member else Rejected_Member) in
            if kind = Rejected_Member \<or> kind \<notin> set (allowed_kinds policy) then is_rejected ''unsupported_file_type''
            else if kind = Image_Member \<and> \<not> starts_with sniffed (the magic) then is_rejected ''content_mismatch''
            else if kind = Text_Member \<and> 0 \<in> set sniffed then is_rejected ''content_mismatch''
            else \<lparr>decision_kind = kind, decision_reason = None\<rparr>)"

section \<open>Properties\<close>

text \<open>The two path rules of the repository accept the same strings.\<close>

lemma relative_path_iff: "(\<exists>t. relative_path s = Inr t) \<longleftrightarrow> (\<exists>ps. relative_parts s = Inr ps)"
proof
  let ?ps = "split_on slash s"
  assume "\<exists>t. relative_path s = Inr t"
  then have a: "length s \<le> 4096" "backslash \<notin> set s" "colon \<notin> set s"
    "\<not> list_ex (\<lambda>p. p = [] \<or> p = [46] \<or> p = [46, 46]) ?ps" "\<not> list_ex (\<lambda>ch. ch < 32 \<or> ch = 127) s"
    unfolding relative_path_def if_Inl_Inr by (auto simp: not_less)
  have "plain_component p" if p: "p \<in> set ?ps" for p
  proof -
    have "32 \<le> ch \<and> ch \<noteq> 127 \<and> ch \<noteq> slash \<and> ch \<noteq> backslash \<and> ch \<noteq> colon" if "ch \<in> set p" for ch
      using that a(2,3,5) set_split_on [OF p] split_on_no_sep [OF p] unfolding list_ex_iff by (metis not_less subsetD)
    with a(4) p show ?thesis by (auto simp: plain_component_def list_ex_iff list_all_iff)
  qed
  then have "relative_parts s = Inr ?ps"
    using a(1) by (simp add: relative_parts_accepts join_split_on list_all_iff)
  then show "\<exists>ps. relative_parts s = Inr ps" by blast
next
  assume "\<exists>ps. relative_parts s = Inr ps"
  then obtain ps where s: "s = join_with slash ps" "ps \<noteq> []" "length s \<le> 4096" and plain: "list_all plain_component ps"
    by (auto simp: relative_parts_accepts)
  have split: "split_on slash s = ps"
    using s(2) plain unfolding s(1) by (intro split_join) (auto simp: plain_component_def list_all_iff)
  have chars: "32 \<le> ch \<and> ch \<noteq> 127 \<and> ch \<noteq> backslash \<and> ch \<noteq> colon" if "ch \<in> set s" for ch
    using that set_join_with [of slash ps] plain unfolding s(1) by (fastforce simp: plain_component_def list_all_iff)
  have "s \<noteq> []" using split plain by (auto simp: plain_component_def)
  moreover have "posix_root s = []" unfolding s(1) using s(2) plain by (rule posix_root_join)
  moreover have "\<not> list_ex (\<lambda>p. p = [] \<or> p = [46] \<or> p = [46, 46]) (split_on slash s)"
    using plain unfolding split by (auto simp: plain_component_def list_all_iff list_ex_iff)
  moreover have "\<not> list_ex (\<lambda>ch. ch < 32 \<or> ch = 127) s" "backslash \<notin> set s" "colon \<notin> set s"
    using chars by (force simp: list_ex_iff)+
  ultimately show "\<exists>t. relative_path s = Inr t" using s(3) by (simp add: relative_path_def)
qed

text \<open>What a member must be to be kept.\<close>

definition keepable :: "member_policy \<Rightarrow> pystr \<Rightarrow> byte list \<Rightarrow> member_kind \<Rightarrow> bool" where
  "keepable policy name sniffed kind \<longleftrightarrow> (\<exists>ps. relative_parts name = Inr ps) \<and> kind \<in> set (allowed_kinds policy) \<and>
     \<not> looks_like_archive sniffed \<and>
     (kind = Image_Member \<and> (\<exists>magic. image_magic (extension_of name) = Some magic \<and> starts_with sniffed magic) \<or>
      kind = Text_Member \<and> extension_of name = text_points ''txt'' \<and> 0 \<notin> set sniffed)"

lemma classified_keepable:
  "decision_reason (classify_member name sniffed policy) = None \<Longrightarrow>
     keepable policy name sniffed (decision_kind (classify_member name sniffed policy))"
  using relative_path_iff [of name]
  by (auto simp: classify_member_def keepable_def is_rejected_def Let_def split: sum.splits if_splits option.splits)


text \<open>A locator beyond the range of a file offset is not answered by an archive failure.\<close>

lemma huge_locator_escapes:
  "2 ^ 63 \<le> field_at locator 8 8 \<Longrightarrow> read_zip64_directory content locator = Inl Value_Error"
  by (simp add: read_zip64_directory_def seek_to_def)

end
