(* ===== verification/ArchiveExtraction.thy ===== *)
theory ArchiveExtraction
  imports ArchiveMembers
begin

text \<open>
  The extraction of an archive into a stage,
  \<^verbatim>\<open>backend_service/dataset_sources/archive_extraction.py\<close>. What the standard library finds in the
  bytes of an archive is a parameter: the entries of a zip, or the entries of a tar up to a
  possible error; every entry has the answers of opening it and of reading from it, and no
  relation between them is assumed. \<open>Library_Error\<close> stands for the errors of the two
  archive modules and of the decompressor.
\<close>

record zip_entry =
  zip_name :: pystr
  zip_size :: int
  zip_is_dir :: bool
  external_attributes :: nat
  flag_bits :: nat
  zip_opened :: "(byte list result) list result"

record tar_entry =
  tar_name :: pystr
  tar_size :: int
  tar_is_dir :: bool
  tar_is_regular :: bool
  tar_opened :: "(byte list result) list option result"

record archive_library =
  zip_entries :: "byte list \<Rightarrow> zip_entry list result"
  tar_entries :: "bool \<Rightarrow> byte list \<Rightarrow> tar_entry list \<times> exn option"

record archive_member =
  entry_name :: pystr
  declared_bytes :: int
  special_entry :: bool
  encrypted_entry :: bool
  opened :: "(byte list result) list result"
  streamed_entry :: bool

record extraction = stage_writer +
  stop_answers :: "bool list"
  seen_names :: "pystr list"
  kept_members :: "member_record list"
  rejections :: "member_rejection list"
  kept_bytes :: nat
  streamed_bytes :: int
  entry_count :: nat
  total_declared :: "int option"
  progress_calls :: "(nat \<times> int option) list"

type_synonym 'a extracting = "(extraction, 'a) action"

definition sniff_bytes :: nat where "sniff_bytes = 512"
definition symlink_mode :: nat where "symlink_mode = 0xA000"

definition check_stop :: "unit extracting" where
  "check_stop s = (case stop_answers s of
     True # answers \<Rightarrow> (s\<lparr>stop_answers := answers\<rparr>, Inl Download_Stopped)
   | _ \<Rightarrow> (s\<lparr>stop_answers := tl (stop_answers s)\<rparr>, Inr ()))"

definition reject :: "archive_member \<Rightarrow> string \<Rightarrow> unit extracting" where
  "reject m reason = act_modify (\<lambda>s. s\<lparr>rejections := rejections s @
     [\<lparr>rejection_path = entry_name m, rejection_reason = reason, rejection_bytes = max (declared_bytes m) 0\<rparr>]\<rparr>)"

definition check_streamed :: "member_policy \<Rightarrow> archive_member \<Rightarrow> unit extracting" where
  "check_streamed policy m =
     (if \<not> streamed_entry m then act_return ()
      else act_bind (act_modify (\<lambda>s. s\<lparr>streamed_bytes := streamed_bytes s + max (declared_bytes m) 0\<rparr>)) (\<lambda>_.
        act_bind act_get (\<lambda>s.
        if max (maximum_image_bytes policy) (maximum_text_bytes policy) < declared_bytes m
          \<or> maximum_total_bytes policy < streamed_bytes s
        then act_raise (archive_failure ''archive_limits'') else act_return ())))"

definition insist_on_size :: "archive_member \<Rightarrow> string \<Rightarrow> int \<Rightarrow> (string \<times> nat) extracting" where
  "insist_on_size m digest count =
     (if count \<noteq> declared_bytes m
      then act_bind (reject m ''size_mismatch'') (\<lambda>_. act_raise (archive_failure ''archive_member_size''))
      else act_return (digest, nat count))"

definition stream_member :: "(byte list \<Rightarrow> string) \<Rightarrow> archive_member \<Rightarrow> byte list \<Rightarrow> (byte list result) list
    \<Rightarrow> (string \<times> nat) extracting" where
  "stream_member sha m sniffed reads s =
     (case write_stream sha check_stop (entry_name m) sniffed reads (declared_bytes m) s of
        (t, Inr (digest, count)) \<Rightarrow> insist_on_size m digest (int count) t
      | (t, Inl e) \<Rightarrow>
          if is_application_failure e then
            (if failure_code e = ''dataset_limits'' then insist_on_size m '''' (declared_bytes m + 1) t else (t, Inl e))
          else if e \<in> {OS_Error, Library_Error} then (t, Inl (archive_failure ''archive_unreadable''))
          else (t, Inl e))"

definition keep_member :: "(pystr \<Rightarrow> string option) \<Rightarrow> archive_member \<Rightarrow> member_kind \<Rightarrow> string \<Rightarrow> nat \<Rightarrow> unit extracting" where
  "keep_member split m kind digest count = act_modify (\<lambda>s. s\<lparr>
     kept_bytes := kept_bytes s + count,
     kept_members := kept_members s @ [\<lparr>member_path = entry_name m, member_kind = kind, member_size = count,
       member_sha256 = digest, member_split = split (entry_name m)\<rparr>],
     progress_calls := progress_calls s @ [(kept_bytes s + count, total_declared s)]\<rparr>)"

definition handle_opened :: "(byte list \<Rightarrow> string) \<Rightarrow> (pystr \<Rightarrow> string option) \<Rightarrow> member_policy \<Rightarrow> archive_member \<Rightarrow> unit extracting" where
  "handle_opened sha split policy m =
     act_bind (act_lift (opened m)) (\<lambda>reads.
     act_bind (act_lift (fst (take_read reads))) (\<lambda>sniffed.
     let decision = classify_member (entry_name m) sniffed policy in
     case decision_reason decision of
       Some reason \<Rightarrow> reject m reason
     | None \<Rightarrow>
         if maximum_bytes_for policy (decision_kind decision) < declared_bytes m then reject m ''member_size_limit''
         else act_bind act_get (\<lambda>s.
           if maximum_total_bytes policy < int (kept_bytes s) + declared_bytes m
           then act_raise (archive_failure ''archive_limits'')
           else act_bind (stream_member sha m sniffed (snd (take_read reads))) (\<lambda>(digest, count).
             keep_member split m (decision_kind decision) digest count))))"

definition handle_member :: "(byte list \<Rightarrow> string) \<Rightarrow> (pystr \<Rightarrow> string option) \<Rightarrow> member_policy \<Rightarrow> archive_member \<Rightarrow> unit extracting" where
  "handle_member sha split policy m =
     act_bind check_stop (\<lambda>_.
     act_bind (act_modify (\<lambda>s. s\<lparr>entry_count := entry_count s + 1\<rparr>)) (\<lambda>_.
     act_bind act_get (\<lambda>s.
     if maximum_members policy < entry_count s then act_raise (archive_failure ''archive_limits'')
     else act_bind (check_streamed policy m) (\<lambda>_.
       if special_entry m then reject m ''special_member''
       else if encrypted_entry m then reject m ''encrypted_member''
       else if entry_name m \<in> set (seen_names s) then reject m ''duplicate_member''
       else act_bind (act_modify (\<lambda>s. s\<lparr>seen_names := entry_name m # seen_names s\<rparr>)) (\<lambda>_.
         handle_opened sha split policy m)))))"

fun handle_all :: "(byte list \<Rightarrow> string) \<Rightarrow> (pystr \<Rightarrow> string option) \<Rightarrow> member_policy \<Rightarrow> archive_member list \<Rightarrow> unit extracting" where
  "handle_all sha split policy [] = act_return ()"
| "handle_all sha split policy (m # ms) =
     act_bind (handle_member sha split policy m) (\<lambda>_. handle_all sha split policy ms)"

definition zip_member :: "zip_entry \<Rightarrow> archive_member" where
  "zip_member e = \<lparr>entry_name = zip_name e, declared_bytes = zip_size e,
     special_entry = and (drop_bit 16 (external_attributes e)) 0xF000 = symlink_mode,
     encrypted_entry = odd (flag_bits e), opened = zip_opened e, streamed_entry = False\<rparr>"

definition tar_member :: "tar_entry \<Rightarrow> archive_member" where
  "tar_member e = \<lparr>entry_name = tar_name e, declared_bytes = tar_size e, special_entry = \<not> tar_is_regular e,
     encrypted_entry = False,
     opened = andThen (tar_opened e) (\<lambda>stream. case stream of
       None \<Rightarrow> Inl (archive_failure ''archive_unreadable'') | Some reads \<Rightarrow> Inr reads),
     streamed_entry = True\<rparr>"

definition extract_zip :: "archive_library \<Rightarrow> (byte list \<Rightarrow> string) \<Rightarrow> (pystr \<Rightarrow> string option) \<Rightarrow> member_policy
    \<Rightarrow> byte list \<Rightarrow> unit extracting" where
  "extract_zip lib sha split policy content =
     act_bind (act_lift (check_zip_directory policy content)) (\<lambda>_.
     act_bind (act_lift (zip_entries lib content)) (\<lambda>entries.
     let infos = filter (\<lambda>e. \<not> zip_is_dir e) entries in
     if maximum_members policy < length infos then act_raise (archive_failure ''archive_limits'')
     else act_bind (act_modify (\<lambda>s. s\<lparr>total_declared := Some (sum_list (map zip_size infos))\<rparr>)) (\<lambda>_.
       handle_all sha split policy (map zip_member infos))))"

definition extract_tar :: "archive_library \<Rightarrow> (byte list \<Rightarrow> string) \<Rightarrow> (pystr \<Rightarrow> string option) \<Rightarrow> member_policy
    \<Rightarrow> byte list \<Rightarrow> unit extracting" where
  "extract_tar lib sha split policy content =
     (case tar_entries lib (starts_with (take sniff_bytes content) gzip_magic) content of
        (entries, problem) \<Rightarrow>
          act_bind (handle_all sha split policy (map tar_member (filter (\<lambda>e. \<not> tar_is_dir e) entries))) (\<lambda>_.
          case problem of None \<Rightarrow> act_return () | Some e \<Rightarrow> act_raise e))"

definition open_archive :: "byte list option \<Rightarrow> byte list result" where
  "open_archive file = (case file of None \<Rightarrow> Inl (archive_failure ''archive_unreadable'') | Some content \<Rightarrow> Inr content)"

definition unreadable :: "'a extracting \<Rightarrow> 'a extracting" where
  "unreadable m s = (case m s of
     (t, Inl e) \<Rightarrow> (t, Inl (if e \<in> {OS_Error, Library_Error} then archive_failure ''archive_unreadable'' else e))
   | (t, Inr x) \<Rightarrow> (t, Inr x))"

definition extract_archive :: "archive_library \<Rightarrow> (byte list \<Rightarrow> string) \<Rightarrow> (pystr \<Rightarrow> string option) \<Rightarrow> member_policy
    \<Rightarrow> byte list option \<Rightarrow> extraction_report extracting" where
  "extract_archive lib sha split policy file =
     act_bind (unreadable (
       act_bind (act_lift (open_archive file)) (\<lambda>content.
       if \<not> looks_like_archive (take sniff_bytes content) then act_raise (archive_failure ''archive_unreadable'')
       else if starts_with (take sniff_bytes content) zip_magic then extract_zip lib sha split policy content
       else extract_tar lib sha split policy content))) (\<lambda>_.
     act_bind act_get (\<lambda>s. act_return \<lparr>report_members = kept_members s, report_rejected = rejections s,
       report_bytes = kept_bytes s\<rparr>))"

definition start_extraction :: "stage_writer \<Rightarrow> bool list \<Rightarrow> extraction" where
  "start_extraction w stops = stage_writer.extend w (extraction.fields stops [] [] [] 0 0 0 None [])"

end
