(* ===== verification/ExtractionProperties.thy ===== *)
theory ExtractionProperties
  imports ArchiveExtraction
begin

text \<open>
  What an extraction may leave in its stage, whatever the archive says and contains, whichever
  file operation fails and whenever it is stopped.
\<close>

section \<open>The stage while one file is written\<close>

definition staged_bytes :: "file_table \<Rightarrow> nat" where
  "staged_bytes files = sum_list (map (length \<circ> snd) files)"

type_synonym extraction_books = "member_record list \<times> member_rejection list \<times> nat \<times> pystr list \<times> nat"

definition books :: "extraction \<Rightarrow> extraction_books" where
  "books s = (kept_members s, rejections s, kept_bytes s, seen_names s, entry_count s)"

definition allowance :: "extraction \<Rightarrow> nat \<Rightarrow> bool" where
  "allowance s n \<longleftrightarrow> int n \<le> authorized s \<and> authorized s \<le> prepared_limit s"

definition holds :: "extraction_books \<Rightarrow> file_table \<Rightarrow> nat \<Rightarrow> extraction \<Rightarrow> bool" where
  "holds B files spare s \<longleftrightarrow> stage_files s = files \<and> books s = B \<and> allowance s (staged_bytes files + spare)"

lemma holds_ignores [simp]:
  "holds B files n (s\<lparr>write_outcomes := os\<rparr>) = holds B files n s"
  "holds B files n (s\<lparr>disk_readings := rs\<rparr>) = holds B files n s"
  "holds B files n (s\<lparr>stop_answers := bs\<rparr>) = holds B files n s"
  "holds B files n (s\<lparr>streamed_bytes := k\<rparr>) = holds B files n s"
  "holds B files n (s\<lparr>total_declared := l\<rparr>) = holds B files n s"
  by (simp_all add: holds_def books_def allowance_def)

lemma holds_less: "holds B files n s \<Longrightarrow> m \<le> n \<Longrightarrow> holds B files m s"
  by (auto simp: holds_def allowance_def)

lemma update_fresh: "name \<notin> fst ` set base \<Longrightarrow> AList.update name v base = base @ [(name, v)]"
  by (induction base) auto

lemma update_last: "name \<notin> fst ` set base \<Longrightarrow> AList.update name v (base @ [(name, d)]) = base @ [(name, v)]"
  by (induction base) auto

lemma get_last: "name \<notin> fst ` set base \<Longrightarrow> dict_get (base @ [(name, d)]) name = Some d"
  by (induction base) auto

lemma get_absent: "name \<notin> fst ` set base \<Longrightarrow> dict_get base name = None"
  by (induction base) auto

lemma spec_stage:
  assumes "\<And>s os. P s \<Longrightarrow> Q () (whole (s\<lparr>write_outcomes := os\<rparr>))"
    and "\<And>s os n. P s \<Longrightarrow> E (partial n (s\<lparr>write_outcomes := os\<rparr>))"
  shows "act_spec P (stage_operation partial whole) Q E"
proof -
  have "Q () (whole s)" if "P s" for s using assms(1) [OF that, of "write_outcomes s"] by simp
  with assms show ?thesis
    by (auto simp: act_spec_def stage_operation_def split: list.splits option.splits)
qed

lemma spec_modify: "(\<And>s. P s \<Longrightarrow> Q () (f s)) \<Longrightarrow> act_spec P (act_modify f) Q E"
  by (auto simp: act_spec_def)

lemma check_stop_holds: "act_spec (holds B files n) check_stop (\<lambda>_. holds B files n) (holds B files n)"
  by (auto simp: act_spec_def check_stop_def split: list.splits bool.splits)

lemma reserve_holds:
  "act_spec (holds B files 0) (reserve_write n) (\<lambda>_. holds B files n) (holds B files 0)"
  unfolding act_spec_def
  by (auto simp: reserve_write_def check_estimated_space_def check_free_space_def act_bind_Inr act_bind_Inl holds_def
      books_def allowance_def split: if_splits sum.splits)

lemma append_holds:
  assumes "name \<notin> fst ` set base"
  shows "act_spec (holds B (base @ [(name, data)]) (length chunk)) (append_chunk name chunk)
    (\<lambda>_. holds B (base @ [(name, data @ chunk)]) 0) (\<lambda>s. \<exists>n. holds B (base @ [(name, data @ take n chunk)]) 0 s)"
proof -
  have "holds B (base @ [(name, data @ take n chunk)]) 0 (extend_file name (take n chunk) s)"
    if "holds B (base @ [(name, data)]) (length chunk) s" for n s
  proof -
    have f: "stage_files s = base @ [(name, data)]" using that by (simp add: holds_def)
    have "extend_file name (take n chunk) s = s\<lparr>stage_files := base @ [(name, data @ take n chunk)]\<rparr>"
      using assms by (simp add: extend_file_def f get_last update_last del: map_of_append)
    with that show ?thesis by (auto simp: holds_def books_def allowance_def staged_bytes_def)
  qed
  note part = this
  show ?thesis
    unfolding append_chunk_def
  proof (rule spec_stage)
    fix s os n assume "holds B (base @ [(name, data)]) (length chunk) s"
    then have h: "holds B (base @ [(name, data)]) (length chunk) (s\<lparr>write_outcomes := os\<rparr>)" by simp
    from part [OF h, of "length chunk"]
    show "holds B (base @ [(name, data @ chunk)]) 0 (extend_file name chunk (s\<lparr>write_outcomes := os\<rparr>))" by simp
    from part [OF h, of n]
    show "\<exists>n'. holds B (base @ [(name, data @ take n' chunk)]) 0 (extend_file name (take n chunk) (s\<lparr>write_outcomes := os\<rparr>))"
      by blast
  qed
qed

text \<open>A file under construction has not yet outgrown its declared size.\<close>

definition partial_file :: "extraction_books \<Rightarrow> file_table \<Rightarrow> pystr \<Rightarrow> int \<Rightarrow> extraction \<Rightarrow> bool" where
  "partial_file B base name bound s \<longleftrightarrow> holds B base 0 s \<or>
     (\<exists>data. holds B (base @ [(name, data)]) 0 s \<and> (data = [] \<or> int (length data) \<le> bound))"

lemma put_chunk_holds:
  assumes "name \<notin> fst ` set base"
  shows "act_spec (\<lambda>s. holds B (base @ [(name, data)]) 0 s \<and> (data = [] \<or> int (length data) \<le> bound))
    (put_chunk name bound (length data) chunk)
    (\<lambda>_ s. holds B (base @ [(name, data @ chunk)]) 0 s \<and> int (length (data @ chunk)) \<le> bound)
    (partial_file B base name bound)"
proof (cases "bound < int (length data + length chunk)")
  case True
  then show ?thesis by (auto simp: put_chunk_def act_spec_def partial_file_def)
next
  case False
  have "act_spec (\<lambda>s. holds B (base @ [(name, data)]) 0 s \<and> (data = [] \<or> int (length data) \<le> bound))
      (act_bind (reserve_write (length chunk)) (\<lambda>_. append_chunk name chunk))
      (\<lambda>_ s. holds B (base @ [(name, data @ chunk)]) 0 s \<and> int (length (data @ chunk)) \<le> bound)
      (partial_file B base name bound)"
  proof (rule spec_bind)
    show "act_spec (\<lambda>s. holds B (base @ [(name, data)]) 0 s \<and> (data = [] \<or> int (length data) \<le> bound))
        (reserve_write (length chunk)) (\<lambda>_. holds B (base @ [(name, data)]) (length chunk)) (partial_file B base name bound)"
      by (rule spec_assume, rule spec_weaken [OF reserve_holds]) (use False in \<open>auto simp: partial_file_def\<close>)
    have "int (length (data @ take n chunk)) \<le> bound" for n using False by (simp add: min_def)
    then show "act_spec (holds B (base @ [(name, data)]) (length chunk)) (append_chunk name chunk)
        (\<lambda>_ s. holds B (base @ [(name, data @ chunk)]) 0 s \<and> int (length (data @ chunk)) \<le> bound) (partial_file B base name bound)" for u :: unit
      using False by (intro spec_weaken [OF append_holds [OF assms]]) (auto simp: partial_file_def)
  qed
  with False show ?thesis by (simp add: put_chunk_def)
qed


lemma put_chunks_hold:
  assumes fresh: "name \<notin> fst ` set base"
  shows "act_spec (\<lambda>s. holds B (base @ [(name, data)]) 0 s \<and> (data = [] \<or> int (length data) \<le> bound))
    (put_chunks check_stop name bound data chunk reads)
    (\<lambda>written s. holds B (base @ [(name, written)]) 0 s \<and> (written = [] \<or> int (length written) \<le> bound) \<and>
       (\<exists>rest. written = data @ rest))
    (partial_file B base name bound)"
proof (induction reads arbitrary: data chunk)
  case Nil
  show ?case
    unfolding put_chunks.simps
    by (rule spec_if, rule spec_basic, simp, rule spec_bind [OF put_chunk_holds [OF fresh]], rule spec_basic) auto
next
  case (Cons following reads)
  let ?P = "\<lambda>data s. holds B (base @ [(name, data)]) 0 s \<and> (data = [] \<or> int (length data) \<le> bound)"
  let ?Q = "\<lambda>data written s. holds B (base @ [(name, written)]) 0 s \<and> (written = [] \<or> int (length written) \<le> bound) \<and>
       (\<exists>rest. written = data @ rest)"
  have stop: "act_spec (\<lambda>s. holds B (base @ [(name, data @ chunk)]) 0 s \<and> int (length (data @ chunk)) \<le> bound) check_stop
      (\<lambda>_. ?P (data @ chunk)) (partial_file B base name bound)"
    by (rule spec_assume, rule spec_weaken [OF check_stop_holds]) (auto simp: partial_file_def)
  have later: "act_spec (?P (data @ chunk)) (put_chunks check_stop name bound (data @ chunk) more reads) (?Q data)
      (partial_file B base name bound)" for more
    by (rule spec_weaken [OF Cons.IH]) auto
  have rest: "act_spec (?P data) (act_bind (put_chunk name bound (length data) chunk) (\<lambda>_.
        if more = [] then act_return (data @ chunk)
        else act_bind check_stop (\<lambda>_. put_chunks check_stop name bound (data @ chunk) more reads))) (?Q data)
      (partial_file B base name bound)" for more
    by (rule spec_bind [OF put_chunk_holds [OF fresh]], rule spec_if, rule spec_basic, simp, rule spec_bind [OF stop later])
  show ?case
    unfolding put_chunks.simps
    by (rule spec_if, rule spec_basic, simp, rule spec_bind [OF spec_lift], force simp: partial_file_def)
      (rule spec_weaken [OF rest], auto)
qed

lemma renamed_cases: "renamed e m s = m s \<or> (\<exists>t e'. m s = (t, Inl e') \<and> renamed e m s = (t, Inl e))"
  by (auto simp: renamed_def split: prod.splits sum.splits exn.splits)

lemma renamed_spec:
  assumes m: "act_spec P m Q E"
  shows "act_spec P (renamed e m) Q E"
  unfolding act_spec_def
proof (intro allI impI)
  fix s t r assume "P s" "renamed e m s = (t, r)"
  with act_specD [OF m] renamed_cases [of e m s] show "case r of Inl e \<Rightarrow> E t | Inr x \<Rightarrow> Q x t"
    by (cases r) fastforce+
qed

lemma flush_holds: "act_spec (\<lambda>s. holds B files n s \<and> b) flush_file (\<lambda>_ s. holds B files n s \<and> b) (holds B files n)"
  unfolding flush_file_def by (rule spec_stage) auto

lemma write_stream_holds:
  assumes fresh: "name \<notin> fst ` set base"
  shows "act_spec (holds B base 0) (write_stream sha check_stop name sniffed reads bound)
    (\<lambda>(digest, count) s. \<exists>data. holds B (base @ [(name, data)]) 0 s \<and> digest = sha data \<and> count = length data \<and>
       (data = [] \<or> int (length data) \<le> bound) \<and> (\<exists>rest. data = sniffed @ rest))
    (partial_file B base name bound)"
proof -
  let ?E = "partial_file B base name bound"
  let ?R = "\<lambda>data s. holds B (base @ [(name, data)]) 0 s \<and> ((data = [] \<or> int (length data) \<le> bound) \<and> (\<exists>rest. data = sniffed @ rest))"
  have create: "act_spec (holds B base 0) (create_file name) (\<lambda>_ s. holds B (base @ [(name, [])]) 0 s \<and> ([] = [] \<or> int (length []) \<le> bound)) ?E"
    unfolding create_file_def
  proof (rule spec_bind [OF spec_get], rule spec_if)
    fix x :: extraction
    show "act_spec (\<lambda>s. holds B base 0 s \<and> x = s) (stage_operation (\<lambda>n s. s) (\<lambda>s. s\<lparr>stage_files := AList.update name [] (stage_files s)\<rparr>))
        (\<lambda>_ s. holds B (base @ [(name, [])]) 0 s \<and> ([] = [] \<or> int (length []) \<le> bound)) ?E"
      by (rule spec_stage)
        (auto simp: holds_def books_def allowance_def staged_bytes_def update_fresh [OF fresh] partial_file_def)
  qed (auto simp: partial_file_def intro: spec_basic)
  have first: "act_spec (\<lambda>s. holds B (base @ [(name, [])]) 0 s \<and> ([] = [] \<or> int (length []) \<le> bound)) (put_chunk name bound 0 sniffed)
      (\<lambda>_ s. holds B (base @ [(name, sniffed)]) 0 s \<and> int (length sniffed) \<le> bound) ?E"
    using put_chunk_holds [OF fresh, of B "[]" bound sniffed] by simp
  have rest: "act_spec (\<lambda>s. (holds B (base @ [(name, sniffed)]) 0 s \<and> int (length sniffed) \<le> bound) \<and> r = Inr chunk)
      (put_chunks check_stop name bound sniffed chunk rs) ?R ?E" for chunk rs and r :: "byte list result"
    by (rule spec_weaken [OF put_chunks_hold [OF fresh]]) auto
  have flush: "act_spec (?R data) flush_file (\<lambda>_. ?R data) ?E" for data
    by (rule spec_assume, rule spec_weaken [OF flush_holds]) (auto simp: partial_file_def)
  have "act_spec (holds B base 0) (act_bind (create_file name) (\<lambda>_. act_bind (put_chunk name bound 0 sniffed) (\<lambda>_.
       act_bind (act_lift (fst (take_read reads))) (\<lambda>chunk.
       act_bind (put_chunks check_stop name bound sniffed chunk (snd (take_read reads))) (\<lambda>written.
       act_bind flush_file (\<lambda>_. act_bind flush_file (\<lambda>_. act_return (sha written, length written)))))))) 
    (\<lambda>(digest, count) s. \<exists>data. holds B (base @ [(name, data)]) 0 s \<and> digest = sha data \<and> count = length data \<and>
       (data = [] \<or> int (length data) \<le> bound) \<and> (\<exists>rest. data = sniffed @ rest)) ?E"
    by (rule spec_bind [OF create], rule spec_bind [OF first], rule spec_bind [OF spec_lift], force simp: partial_file_def,
        rule spec_bind [OF rest], rule spec_bind [OF flush], rule spec_bind [OF flush], rule spec_basic) auto
  then show ?thesis
    unfolding write_stream_def storing_def in_directory_def
    by (intro spec_bind [OF spec_lift] renamed_spec) (auto simp: partial_file_def elim: spec_weaken)
qed


section \<open>Order in the stage\<close>

definition kept_ok :: "(byte list \<Rightarrow> string) \<Rightarrow> (pystr \<Rightarrow> string option) \<Rightarrow> member_policy \<Rightarrow> member_record \<Rightarrow> pystr \<times> byte list \<Rightarrow> bool" where
  "kept_ok sha split policy r f \<longleftrightarrow> member_path r = fst f \<and> member_size r = length (snd f) \<and> member_sha256 r = sha (snd f) \<and>
     member_split r = split (fst f) \<and> int (length (snd f)) \<le> maximum_bytes_for policy (member_kind r) \<and>
     (\<exists>n. keepable policy (fst f) (take n (snd f)) (member_kind r))"

definition orderly :: "(byte list \<Rightarrow> string) \<Rightarrow> (pystr \<Rightarrow> string option) \<Rightarrow> member_policy \<Rightarrow> nat \<Rightarrow> extraction \<Rightarrow> bool" where
  "orderly sha split policy spare s \<longleftrightarrow> list_all2 (kept_ok sha split policy) (kept_members s) (stage_files s) \<and>
     kept_bytes s = staged_bytes (stage_files s) \<and> int (kept_bytes s) \<le> maximum_total_bytes policy \<and>
     distinct (map fst (stage_files s)) \<and> fst ` set (stage_files s) \<subseteq> set (seen_names s) \<and>
     length (kept_members s) + length (rejections s) + spare \<le> entry_count s \<and> entry_count s \<le> maximum_members policy \<and>
     allowance s (staged_bytes (stage_files s))"

definition stage_contained :: "member_policy \<Rightarrow> extraction \<Rightarrow> bool" where
  "stage_contained policy s \<longleftrightarrow> distinct (map fst (stage_files s)) \<and> length (stage_files s) \<le> maximum_members policy \<and>
     (\<forall>path \<in> fst ` set (stage_files s). \<exists>ps. relative_parts path = Inr ps) \<and>
     int (staged_bytes (stage_files s)) \<le> maximum_total_bytes policy \<and>
     int (staged_bytes (stage_files s)) \<le> prepared_limit s"

lemma kept_plain: "list_all2 (kept_ok sha split policy) rs fs \<Longrightarrow> path \<in> fst ` set fs \<Longrightarrow> \<exists>ps. relative_parts path = Inr ps"
  by (induction rule: list_all2_induct) (auto simp: kept_ok_def keepable_def)

lemma orderly_contained: "orderly sha split policy n s \<Longrightarrow> stage_contained policy s"
  using list_all2_lengthD [of "kept_ok sha split policy" "kept_members s" "stage_files s"] kept_plain
  by (fastforce simp: orderly_def stage_contained_def allowance_def)

lemma orderly_ignores [simp]:
  "orderly sha split policy n (s\<lparr>stop_answers := bs\<rparr>) = orderly sha split policy n s"
  "orderly sha split policy n (s\<lparr>streamed_bytes := k\<rparr>) = orderly sha split policy n s"
  "orderly sha split policy n (s\<lparr>total_declared := l\<rparr>) = orderly sha split policy n s"
  by (simp_all add: orderly_def allowance_def)

lemma reject_orderly: "orderly sha split policy 1 s \<Longrightarrow> orderly sha split policy 0
    (s\<lparr>rejections := rejections s @ [r]\<rparr>)"
  by (auto simp: orderly_def allowance_def)

lemma stream_holds:
  assumes fresh: "entry_name m \<notin> fst ` set base"
  shows "act_spec (holds B base 0) (stream_member sha m sniffed reads)
    (\<lambda>(digest, count) s. \<exists>data rest. holds B (base @ [(entry_name m, data)]) 0 s \<and> digest = sha data \<and> count = length data \<and>
       int (length data) = declared_bytes m \<and> data = sniffed @ rest)
    (\<lambda>s. \<exists>C. partial_file C base (entry_name m) (declared_bytes m) s)"
  unfolding act_spec_def
proof (intro allI impI)
  fix s t r assume s: "holds B base 0 s" and run: "stream_member sha m sniffed reads s = (t, r)"
  let ?w = "write_stream sha check_stop (entry_name m) sniffed reads (declared_bytes m)"
  let ?goal = "case r of Inl e \<Rightarrow> \<exists>C. partial_file C base (entry_name m) (declared_bytes m) t
    | Inr x \<Rightarrow> (case x of (digest, count) \<Rightarrow> \<lambda>s. \<exists>data rest. holds B (base @ [(entry_name m, data)]) 0 s \<and> digest = sha data \<and>
        count = length data \<and> int (length data) = declared_bytes m \<and> data = sniffed @ rest) t"
  have rejected: "\<exists>C. partial_file C base (entry_name m) (declared_bytes m) (u\<lparr>rejections := js\<rparr>)"
    if "partial_file B base (entry_name m) (declared_bytes m) u" for u js
    using that by (fastforce simp: partial_file_def holds_def books_def allowance_def)
  obtain u q where w: "?w s = (u, q)" by fastforce
  note written = act_specD [OF write_stream_holds [OF fresh, of B sha sniffed reads "declared_bytes m"] s]
  show ?goal
  proof (cases q)
    case (Inl e)
    then have p: "partial_file B base (entry_name m) (declared_bytes m) u" using written(2) w by simp
    then have "\<exists>C. partial_file C base (entry_name m) (declared_bytes m) u" by blast
    with run w Inl rejected [OF p] show ?thesis
      by (auto simp: stream_member_def insist_on_size_def reject_def split: if_splits simp del: split_paired_Ex)
  next
    case (Inr x)
    then obtain digest count where x: "q = Inr (digest, count)" by (cases x) auto
    from written(1) [OF w [unfolded x]] obtain data rest where d: "holds B (base @ [(entry_name m, data)]) 0 u"
      "digest = sha data" "count = length data" "data = [] \<or> int (length data) \<le> declared_bytes m" "data = sniffed @ rest" by auto
    then have p: "partial_file B base (entry_name m) (declared_bytes m) u" by (auto simp: partial_file_def)
    show ?thesis
    proof (cases "int count = declared_bytes m")
      case True
      have r: "r = Inr (digest, count)" "t = u" using run w x True by (auto simp: stream_member_def insist_on_size_def)
      from d(3) True have "int (length data) = declared_bytes m" by simp
      with d(1-3,5) show ?thesis unfolding r sum.case prod.case by blast
    next
      case False
      with run w x rejected [OF p] show ?thesis
        by (auto simp: stream_member_def insist_on_size_def reject_def simp del: split_paired_Ex)
    qed
  qed
qed


lemma partial_contained:
  assumes s: "orderly sha split policy 1 s" and p: "partial_file C (stage_files s) name bound t" "name \<notin> fst ` set (stage_files s)"
    and room: "int (kept_bytes s) + bound \<le> maximum_total_bytes policy" and plain: "relative_parts name = Inr ps"
  shows "stage_contained policy t"
proof -
  have "length (stage_files s) = length (kept_members s)" using s list_all2_lengthD by (fastforce simp: orderly_def)
  then have n: "length (stage_files s) + 1 \<le> maximum_members policy" using s by (auto simp: orderly_def)
  have old: "distinct (map fst (stage_files s))" "int (staged_bytes (stage_files s)) \<le> maximum_total_bytes policy"
    "kept_bytes s = staged_bytes (stage_files s)" using s by (simp_all add: orderly_def)
  have paths: "\<exists>ps. relative_parts path = Inr ps" if "path \<in> fst ` set (stage_files s)" for path
    using kept_plain [OF _ that] s by (auto simp: orderly_def)
  from p(1) show ?thesis
    unfolding partial_file_def
  proof (elim disjE exE conjE)
    assume "holds C (stage_files s) 0 t"
    then show ?thesis using n old paths by (auto simp: stage_contained_def holds_def allowance_def)
  next
    fix data assume h: "holds C (stage_files s @ [(name, data)]) 0 t" "data = []"
    then show ?thesis using n old paths p(2) plain by (auto simp: stage_contained_def holds_def allowance_def staged_bytes_def)
  next
    fix data assume h: "holds C (stage_files s @ [(name, data)]) 0 t" "int (length data) \<le> bound"
    then show ?thesis using n old paths p(2) plain room by (auto simp: stage_contained_def holds_def allowance_def staged_bytes_def)
  qed
qed

lemma keep_orderly:
  assumes s: "orderly sha split policy 1 s" "entry_name m \<in> set (seen_names s)" "entry_name m \<notin> fst ` set (stage_files s)"
    and t: "holds (books s) (stage_files s @ [(entry_name m, data)]) 0 t" "int (length data) = declared_bytes m" "data = sniffed @ rest"
    and ok: "keepable policy (entry_name m) sniffed kind" "declared_bytes m \<le> maximum_bytes_for policy kind"
      "int (kept_bytes s) + declared_bytes m \<le> maximum_total_bytes policy"
  shows "orderly sha split policy 0 (fst (keep_member split m kind (sha data) (length data) t))"
proof -
  have "keepable policy (entry_name m) (take (length sniffed) data) kind" using ok(1) t(3) by simp
  then have k: "kept_ok sha split policy \<lparr>member_path = entry_name m, member_kind = kind, member_size = length data,
      member_sha256 = sha data, member_split = split (entry_name m)\<rparr> (entry_name m, data)"
    using ok(2) t(2) by (auto simp: kept_ok_def)
  have b: "kept_members t = kept_members s" "rejections t = rejections s" "kept_bytes t = kept_bytes s"
    "seen_names t = seen_names s" "entry_count t = entry_count s" "stage_files t = stage_files s @ [(entry_name m, data)]"
    "allowance t (staged_bytes (stage_files t))"
    using t(1) by (auto simp: holds_def books_def)
  show ?thesis
    using s k ok(3) t(2) b(7)
    by (auto simp: orderly_def keep_member_def b(1-6) list_all2_appendI staged_bytes_def allowance_def)
qed

lemma handle_opened_orderly:
  "act_spec (\<lambda>s. orderly sha split policy 1 s \<and> entry_name m \<in> set (seen_names s) \<and> entry_name m \<notin> fst ` set (stage_files s))
     (handle_opened sha split policy m) (\<lambda>_. orderly sha split policy 0) (stage_contained policy)" (is "act_spec ?P _ _ _")
proof -
  have p: "stage_contained policy s" if "?P s" for s using that orderly_contained by blast
  have rej: "act_spec ?P (reject m reason) (\<lambda>_. orderly sha split policy 0) (stage_contained policy)" for reason
    unfolding reject_def by (rule spec_modify) (simp add: reject_orderly)
  have body: "act_spec ?P (let decision = classify_member (entry_name m) sniffed policy in
     case decision_reason decision of
       Some reason \<Rightarrow> reject m reason
     | None \<Rightarrow> if maximum_bytes_for policy (decision_kind decision) < declared_bytes m then reject m ''member_size_limit''
         else act_bind act_get (\<lambda>s.
           if maximum_total_bytes policy < int (kept_bytes s) + declared_bytes m
           then act_raise (archive_failure ''archive_limits'')
           else act_bind (stream_member sha m sniffed reads) (\<lambda>(digest, count).
             keep_member split m (decision_kind decision) digest count))) (\<lambda>_. orderly sha split policy 0) (stage_contained policy)"
    for sniffed reads
    unfolding Let_def
  proof (rule spec_option, rule spec_if [OF rej], rule spec_bind [OF spec_get], rule spec_if)
    fix x
    let ?d = "classify_member (entry_name m) sniffed policy"
    assume d: "decision_reason ?d = None" and small: "\<not> maximum_bytes_for policy (decision_kind ?d) < declared_bytes m"
    show "act_spec (\<lambda>s. ?P s \<and> x = s) (act_raise (archive_failure ''archive_limits'')) (\<lambda>_. orderly sha split policy 0) (stage_contained policy)"
      by (rule spec_basic) (use p in blast)
    assume room: "\<not> maximum_total_bytes policy < int (kept_bytes x) + declared_bytes m"
    have k: "keepable policy (entry_name m) sniffed (decision_kind ?d)" using d by (rule classified_keepable)
    then obtain ps where plain: "relative_parts (entry_name m) = Inr ps" by (auto simp: keepable_def)
    show "act_spec (\<lambda>s. ?P s \<and> x = s) (act_bind (stream_member sha m sniffed reads) (\<lambda>(digest, count).
        keep_member split m (decision_kind ?d) digest count)) (\<lambda>_. orderly sha split policy 0) (stage_contained policy)"
    proof (rule spec_assume, elim conjE)
      fix s assume s: "orderly sha split policy 1 s" "entry_name m \<in> set (seen_names s)" "entry_name m \<notin> fst ` set (stage_files s)" "x = s"
      have start: "holds (books s) (stage_files s) 0 s" using s(1) by (simp add: holds_def orderly_def)
      have "act_spec ((=) s) (stream_member sha m sniffed reads)
        (\<lambda>(digest, count) t. \<exists>data rest. holds (books s) (stage_files s @ [(entry_name m, data)]) 0 t \<and> digest = sha data \<and>
           count = length data \<and> int (length data) = declared_bytes m \<and> data = sniffed @ rest) (stage_contained policy)"
        by (rule spec_weaken [OF stream_holds [OF s(3)]])
          (use start partial_contained [OF s(1) _ s(3) _ plain] room s(4) in \<open>auto simp: not_less\<close>)
      moreover have "act_spec (\<lambda>t. \<exists>data rest. holds (books s) (stage_files s @ [(entry_name m, data)]) 0 t \<and> digest = sha data \<and>
           count = length data \<and> int (length data) = declared_bytes m \<and> data = sniffed @ rest)
          (keep_member split m (decision_kind ?d) digest count) (\<lambda>_. orderly sha split policy 0) (stage_contained policy)" for digest count
        using keep_orderly [OF s(1-3) _ _ _ k] small room s(4)
        by (auto simp: act_spec_def keep_member_def not_less)
      ultimately show "act_spec ((=) s) (act_bind (stream_member sha m sniffed reads) (\<lambda>(digest, count).
        keep_member split m (decision_kind ?d) digest count)) (\<lambda>_. orderly sha split policy 0) (stage_contained policy)"
        by (intro spec_bind) auto
    qed
  next
    show "act_spec ?P (reject m reason) (\<lambda>_. orderly sha split policy 0) (stage_contained policy)" for reason by (rule rej)
  qed
  show ?thesis
    unfolding handle_opened_def
    by (intro spec_bind [OF spec_lift] p, assumption, simp, rule spec_weaken [OF body]) auto
qed


lemma check_streamed_orderly:
  "act_spec (\<lambda>s. orderly sha split policy n s \<and> seen_names s = N) (check_streamed policy m)
     (\<lambda>_ s. orderly sha split policy n s \<and> seen_names s = N) (stage_contained policy)"
  unfolding check_streamed_def
  by (rule spec_if, rule spec_basic, assumption,
      rule spec_bind [where R = "\<lambda>_ s. orderly sha split policy n s \<and> seen_names s = N"],
      rule spec_modify, simp, rule spec_bind [OF spec_get])
    (auto intro!: spec_intros dest: orderly_contained)

lemma handle_member_orderly:
  "act_spec (orderly sha split policy 0) (handle_member sha split policy m) (\<lambda>_. orderly sha split policy 0) (stage_contained policy)"
proof -
  let ?O = "orderly sha split policy"
  let ?P = "\<lambda>s. stage_contained policy s \<and> (entry_count s \<le> maximum_members policy \<longrightarrow> ?O 1 s)"
  have stop: "act_spec (?O 0) check_stop (\<lambda>_. ?O 0) (stage_contained policy)"
    using orderly_contained [of sha split policy 0]
    by (auto simp: act_spec_def check_stop_def split: list.splits bool.splits)
  have counted: "?P (s\<lparr>entry_count := entry_count s + 1\<rparr>)" if "?O 0 s" for s
    using that orderly_contained [OF that] by (auto simp: orderly_def allowance_def stage_contained_def)
  have rej: "act_spec (\<lambda>s. ?O 1 s \<and> seen_names s = N) (reject m reason) (\<lambda>_. ?O 0) (stage_contained policy)" for N reason
    unfolding reject_def by (rule spec_modify) (simp add: reject_orderly)
  have new: "act_spec (\<lambda>s. ?O 1 s \<and> seen_names s = N) (act_bind (act_modify (\<lambda>s. s\<lparr>seen_names := entry_name m # seen_names s\<rparr>))
      (\<lambda>_. handle_opened sha split policy m)) (\<lambda>_. ?O 0) (stage_contained policy)" if "entry_name m \<notin> set N" for N
    by (rule spec_bind [OF _ handle_opened_orderly], rule spec_modify)
      (use that in \<open>auto simp: orderly_def allowance_def\<close>)
  have decided: "act_spec (\<lambda>s. ?O 1 s \<and> seen_names s = N) (if special_entry m then reject m ''special_member''
       else if encrypted_entry m then reject m ''encrypted_member''
       else if entry_name m \<in> set N then reject m ''duplicate_member''
       else act_bind (act_modify (\<lambda>s. s\<lparr>seen_names := entry_name m # seen_names s\<rparr>)) (\<lambda>_.
         handle_opened sha split policy m)) (\<lambda>_. ?O 0) (stage_contained policy)" for N
    by (intro spec_if rej new)
  have rest: "act_spec (\<lambda>s. ?P s \<and> x = s) (if maximum_members policy < entry_count x then act_raise (archive_failure ''archive_limits'')
     else act_bind (check_streamed policy m) (\<lambda>_.
       if special_entry m then reject m ''special_member''
       else if encrypted_entry m then reject m ''encrypted_member''
       else if entry_name m \<in> set (seen_names x) then reject m ''duplicate_member''
       else act_bind (act_modify (\<lambda>s. s\<lparr>seen_names := entry_name m # seen_names s\<rparr>)) (\<lambda>_.
         handle_opened sha split policy m))) (\<lambda>_. ?O 0) (stage_contained policy)" for x
  proof (rule spec_if)
    assume "\<not> maximum_members policy < entry_count x"
    then have start: "?O 1 s \<and> seen_names s = seen_names x" if "?P s \<and> x = s" for s using that by auto
    show "act_spec (\<lambda>s. ?P s \<and> x = s) (act_bind (check_streamed policy m) (\<lambda>_.
       if special_entry m then reject m ''special_member''
       else if encrypted_entry m then reject m ''encrypted_member''
       else if entry_name m \<in> set (seen_names x) then reject m ''duplicate_member''
       else act_bind (act_modify (\<lambda>s. s\<lparr>seen_names := entry_name m # seen_names s\<rparr>)) (\<lambda>_.
         handle_opened sha split policy m))) (\<lambda>_. ?O 0) (stage_contained policy)"
      by (rule spec_weaken [OF spec_bind [OF check_streamed_orderly [where N = "seen_names x"] decided], OF start])
  qed (auto intro: spec_basic)
  show ?thesis
    unfolding handle_member_def
    by (rule spec_bind [OF stop], rule spec_bind [OF spec_modify], erule counted, rule spec_bind [OF spec_get], rule rest)
qed

lemma handle_all_orderly:
  "act_spec (orderly sha split policy 0) (handle_all sha split policy ms) (\<lambda>_. orderly sha split policy 0) (stage_contained policy)"
proof (induction ms)
  case Nil
  show ?case unfolding handle_all.simps by (rule spec_basic)
next
  case (Cons m ms)
  show ?case unfolding handle_all.simps by (rule spec_bind [OF handle_member_orderly Cons.IH])
qed

lemma extract_orderly:
  "act_spec (orderly sha split policy 0) (extract_archive lib sha split policy file)
     (\<lambda>report s. orderly sha split policy 0 s \<and> report_members report = kept_members s \<and>
        report_rejected report = rejections s \<and> report_bytes report = kept_bytes s) (stage_contained policy)"
proof -
  let ?O = "orderly sha split policy 0"
  have zip: "act_spec (\<lambda>s. ?O s \<and> b s) (extract_zip lib sha split policy content) (\<lambda>_. ?O) (stage_contained policy)" for b content
    unfolding extract_zip_def Let_def
    by (rule spec_bind [OF spec_lift], blast dest: orderly_contained, rule spec_bind [OF spec_lift], blast dest: orderly_contained,
        rule spec_if, rule spec_basic, blast dest: orderly_contained, rule spec_bind [OF spec_modify handle_all_orderly]) simp
  have tar: "act_spec (\<lambda>s. ?O s \<and> b s) (extract_tar lib sha split policy content) (\<lambda>_. ?O) (stage_contained policy)" for b content
    unfolding extract_tar_def case_prod_beta
    by (rule spec_weaken [OF spec_bind [OF handle_all_orderly]], rule spec_option) (auto intro!: spec_basic dest: orderly_contained)
  have unread: "act_spec P m Q E \<Longrightarrow> act_spec P (unreadable m) Q E" for P Q E and m :: "unit extracting"
    unfolding act_spec_def unreadable_def by (fastforce split: prod.splits sum.splits)
  show ?thesis
    unfolding extract_archive_def
    by (rule spec_bind [OF unread], rule spec_bind [OF spec_lift], erule orderly_contained,
        rule spec_if, rule spec_basic, blast dest: orderly_contained, rule spec_if, rule zip, rule tar,
        rule spec_bind [OF spec_get], rule spec_basic) auto
qed

section \<open>The claim\<close>

definition empty_stage :: "stage_writer \<Rightarrow> bool" where
  "empty_stage w \<longleftrightarrow> stage_files w = [] \<and> 0 \<le> authorized w \<and> authorized w \<le> prepared_limit w"

text \<open>
  C32: An archive cannot write outside its stage or beyond its limits. For any bytes and any
  entries the archive modules may find in them, any answers of opening and reading the
  members, and whatever file operation fails or whenever the run is stopped, the stage only
  ever holds files under checked relative paths, each once, within the limits of the policy
  on their number and bytes and within the allowance of the stage. When the extraction
  succeeds its report lists exactly the files of the stage, in order, with their true sizes
  and digests, and each of them is an allowed image or text whose first bytes agree with the
  extension of its name.
\<close>

theorem extraction_contained:
  assumes "empty_stage w" and "0 \<le> maximum_total_bytes policy"
    and "extract_archive lib sha split policy file (start_extraction w stops) = (s, r)"
  shows "stage_contained policy s \<and>
    (\<forall>report. r = Inr report \<longrightarrow> list_all2 (kept_ok sha split policy) (report_members report) (stage_files s) \<and>
       report_bytes report = staged_bytes (stage_files s) \<and>
       length (report_members report) + length (report_rejected report) \<le> maximum_members policy)"
proof -
  have "orderly sha split policy 0 (start_extraction w stops)"
    using assms(1,2)
    by (simp add: empty_stage_def orderly_def start_extraction_def stage_writer.defs extraction.defs allowance_def staged_bytes_def)
  note ends = act_specD [OF extract_orderly this]
  show ?thesis
  proof (cases r)
    case (Inl e)
    with ends(2) assms(3) show ?thesis by simp
  next
    case (Inr report)
    with ends(1) assms(3) have o: "orderly sha split policy 0 s" and "report_members report = kept_members s"
      "report_rejected report = rejections s" "report_bytes report = kept_bytes s" by simp_all
    with Inr orderly_contained [OF o] show ?thesis by (simp add: orderly_def)
  qed
qed


text \<open>A gzip tar with a text, a name that climbs out of the stage and a link.\<close>

definition demo_library :: archive_library where
  "demo_library = \<lparr>zip_entries = \<lambda>_. Inl Library_Error, tar_entries = \<lambda>_ _.
     ([\<lparr>tar_name = text_points ''a.txt'', tar_size = 7, tar_is_dir = False, tar_is_regular = True,
         tar_opened = Inr (Some [Inr [65, 66, 67, 68], Inr [69, 70], Inr [71]])\<rparr>,
       \<lparr>tar_name = text_points ''../b.txt'', tar_size = 7, tar_is_dir = False, tar_is_regular = True,
         tar_opened = Inr (Some [Inr [65]])\<rparr>,
       \<lparr>tar_name = text_points ''c.txt'', tar_size = 0, tar_is_dir = False, tar_is_regular = False,
         tar_opened = Inr None\<rparr>], None)\<rparr>"

definition demo_policy :: member_policy where
  "demo_policy = \<lparr>allowed_kinds = [Image_Member, Text_Member], maximum_members = 5,
     maximum_total_bytes = 50, maximum_image_bytes = 20, maximum_text_bytes = 20\<rparr>"

definition demo_stage :: stage_writer where
  "demo_stage = \<lparr>stage_files = [], revisions = [], prepared_limit = 100, authorized = 0, lock_held = True,
     stage_published = False,
     disk_readings = replicate 5 (Some \<lparr>total_bytes = 100000000000, free_bytes = 90000000000\<rparr>), write_outcomes = []\<rparr>"

definition demo_extraction :: "extraction \<times> extraction_report result" where
  "demo_extraction = extract_archive demo_library (\<lambda>_. ''digest'') (\<lambda>_. None) demo_policy (Some [0x1F, 0x8B])
     (start_extraction demo_stage [])"

lemma demo_extracted:
  "case demo_extraction of (s, r) \<Rightarrow> stage_files s = [(text_points ''a.txt'', [65, 66, 67, 68, 69, 70, 71])] \<and>
     (case r of Inl e \<Rightarrow> False | Inr report \<Rightarrow>
       map rejection_reason (report_rejected report) = [''unsafe_path'', ''special_member''])"
  by code_simp


theorem extraction_contained_witness:
  "\<exists>s report. demo_extraction = (s, Inr report) \<and> stage_contained demo_policy s \<and>
     length (report_members report) + length (report_rejected report) \<le> 5 \<and>
     list_all2 (kept_ok (\<lambda>_. ''digest'') (\<lambda>_. None) demo_policy) (report_members report)
       [(text_points ''a.txt'', [65, 66, 67, 68, 69, 70, 71])]"
proof -
  obtain s report where run: "demo_extraction = (s, Inr report)"
    and files: "stage_files s = [(text_points ''a.txt'', [65, 66, 67, 68, 69, 70, 71])]"
    using demo_extracted by (auto split: prod.splits sum.splits)
  have "empty_stage demo_stage" "0 \<le> maximum_total_bytes demo_policy"
    by (simp_all add: empty_stage_def demo_stage_def demo_policy_def)
  from extraction_contained [OF this run [unfolded demo_extraction_def]] run files show ?thesis
    by (auto simp: demo_policy_def)
qed

end
