(* ===== verification/Checkpoints.thy ===== *)
theory Checkpoints
  imports Files Specifications "HOL-Library.Product_Lexorder" "HOL-Library.List_Lexorder" "HOL-Library.Char_ord"
begin

text \<open>
  Full-state checkpoints: \<^verbatim>\<open>schemas/checkpoints.py\<close>, \<^verbatim>\<open>backend_service/training_checkpoints.py\<close>,
  the writer with a reserve of \<^verbatim>\<open>backend_service/training_checkpoint_files.py\<close> and the checks of
  \<^verbatim>\<open>backend_service/training_checkpoint_state.py\<close>. Torch and SHA-256 are parameters: the
  chunks that saving writes, the value that safe loading returns, and whether it fits the live
  models. Each file operation takes the next entry of a list of outcomes. A pending stage is
  invisible to every reader and is not part of the state.
\<close>

section \<open>Records\<close>

record checkpoint_metrics =
  exact_recovery :: real
  median_psnr :: real
  median_ssim :: real

record 'c checkpoint_summary =
  checkpoint_identifier :: string
  checkpoint_step :: nat
  checkpoint_created :: string
  configuration_checksum :: string
  state_checksum :: string
  state_bytes :: nat
  checkpoint_configuration :: 'c
  checkpoint_identities :: "(string \<times> string) list"
  checkpoint_metrics :: "checkpoint_metrics option"
  pinned :: bool

definition maximum_state_bytes :: nat where "maximum_state_bytes = 1024 ^ 3"

definition checkpoint_pattern :: "string \<Rightarrow> bool" where
  "checkpoint_pattern s \<longleftrightarrow> take 11 s = ''checkpoint_'' \<and>
     (let rest = drop 11 s; digits = takeWhile is_digit_char rest; tail = drop (length digits) rest in
      digits \<noteq> [] \<and> length tail = 33 \<and> hd tail = CHR ''_'' \<and> list_all is_hex_char (tl tail))"

definition metrics_valid :: "checkpoint_metrics \<Rightarrow> bool" where
  "metrics_valid m \<longleftrightarrow> 0 \<le> exact_recovery m \<and> exact_recovery m \<le> 1 \<and> -1 \<le> median_ssim m \<and> median_ssim m \<le> 1"

definition summary_valid :: "'c checkpoint_summary \<Rightarrow> bool" where
  "summary_valid x \<longleftrightarrow> checkpoint_pattern (checkpoint_identifier x) \<and>
     1 \<le> length (checkpoint_created x) \<and> length (checkpoint_created x) \<le> 64 \<and>
     is_sha256 (configuration_checksum x) \<and> is_sha256 (state_checksum x) \<and>
     0 < state_bytes x \<and> state_bytes x \<le> maximum_state_bytes \<and> checkpoint_identities x \<noteq> [] \<and>
     (case checkpoint_metrics x of None \<Rightarrow> True | Some m \<Rightarrow> metrics_valid m)"

record 'c checkpoint_index =
  latest_identifier :: "string option"
  index_checkpoints :: "'c checkpoint_summary list"

definition index_valid :: "'c checkpoint_index \<Rightarrow> bool" where
  "index_valid x \<longleftrightarrow> list_all summary_valid (index_checkpoints x) \<and>
     (let names = map checkpoint_identifier (index_checkpoints x) in
      distinct names \<and> (case latest_identifier x of None \<Rightarrow> index_checkpoints x = [] | Some i \<Rightarrow> i \<in> set names))"

definition empty_index :: "'c checkpoint_index" where
  "empty_index = \<lparr>latest_identifier = None, index_checkpoints = []\<rparr>"

section \<open>Training state\<close>

datatype state_value =
    Scalar
  | Tensor_Value
  | Sequence_Value "state_value list"
  | Mapping_Value "(bool \<times> state_value) list"
  | Other_Value

text \<open>A key counts by whether it is a string or an integer.\<close>

fun safe_state :: "state_value \<Rightarrow> bool" where
  "safe_state Scalar = True"
| "safe_state Tensor_Value = True"
| "safe_state (Sequence_Value vs) = list_all safe_state vs"
| "safe_state (Mapping_Value es) = (list_all fst es \<and> list_all (\<lambda>e. safe_state (snd e)) es)"
| "safe_state Other_Value = False"

record ('c, 't) training_state =
  global_step :: nat
  state_configuration :: 'c
  state_identities :: "(string \<times> string) list"
  state_tensors :: 't
  state_auxiliary :: "'t option"

text \<open>What safe loading of a file answers: the fields of the dictionary and their types.\<close>

record ('c, 't) loaded_value =
  loaded_is_dict :: bool
  loaded_version :: "int option"
  loaded_fields :: "string list"
  loaded_step :: "int option"
  loaded_mappings :: bool
  loaded_shape :: state_value
  loaded_state :: "('c, 't) training_state"

definition state_fields :: "int \<Rightarrow> string set" where
  "state_fields version = {''schema_version'', ''encoder'', ''decoder'', ''optimizer'', ''random_state'', ''global_step'',
     ''sampler_state'', ''configuration'', ''identities''} \<union> (if version = 2 then {''auxiliary''} else {})"

definition load_state :: "('c, 't) loaded_value \<Rightarrow> ('c, 't) training_state result" where
  "load_state v =
     (if \<not> loaded_is_dict v then Inl Value_Error
      else if loaded_version v \<notin> {Some 1, Some 2} then Inl Value_Error
      else if set (loaded_fields v) \<noteq> state_fields (the (loaded_version v)) then Inl Value_Error
      else if (case loaded_step v of None \<Rightarrow> True | Some n \<Rightarrow> n < 0) then Inl Value_Error
      else if \<not> loaded_mappings v then Inl Value_Error
      else if \<not> safe_state (loaded_shape v) then Inl Value_Error
      else Inr (loaded_state v))"

record ('c, 't) torch =
  save_chunks :: "('c, 't) training_state \<Rightarrow> byte list list"
  load_bytes :: "byte list \<Rightarrow> ('c, 't) loaded_value result"
  state_shape :: "('c, 't) training_state \<Rightarrow> state_value"
  restorable :: "('c, 't) training_state \<Rightarrow> bool"
  digest_of :: "byte list \<Rightarrow> string"
  frozen_checksum :: "'c \<Rightarrow> string"

section \<open>Files\<close>

record 'c stored_checkpoint =
  stored_summary :: "'c checkpoint_summary option"
  stored_state :: "byte list option"

record 'c checkpoint_directory =
  completed :: "(string \<times> 'c stored_checkpoint) list"
  published_index :: "'c checkpoint_index option"
  file_outcomes :: "nat option list"

type_synonym ('c, 'a) saving = "('c checkpoint_directory, 'a) action"

definition checkpoint_operation ::
  "(nat \<Rightarrow> 'c checkpoint_directory \<Rightarrow> 'c checkpoint_directory) \<Rightarrow> ('c checkpoint_directory \<Rightarrow> 'c checkpoint_directory)
    \<Rightarrow> ('c, unit) saving" where
  "checkpoint_operation partial whole s =
     (case file_outcomes s of
        [] \<Rightarrow> (whole s, Inr ())
      | None # rest \<Rightarrow> (whole (s\<lparr>file_outcomes := rest\<rparr>), Inr ())
      | Some n # rest \<Rightarrow> (partial n (s\<lparr>file_outcomes := rest\<rparr>), Inl OS_Error))"

definition invisible_operation :: "('c, unit) saving" where
  "invisible_operation = checkpoint_operation (\<lambda>n s. s) id"

definition checkpoint_file_checksum :: "(byte list \<Rightarrow> string) \<Rightarrow> byte list option \<Rightarrow> string result" where
  "checkpoint_file_checksum sha file = (case file of
     None \<Rightarrow> Inl Value_Error
   | Some bytes \<Rightarrow> if maximum_state_bytes < length bytes then Inl Value_Error else Inr (sha bytes))"

text \<open>Torch writes the state in chunks, and each one is bounded and keeps the disk reserve.\<close>

fun reserved_write :: "disk_usage list \<Rightarrow> nat \<Rightarrow> byte list list \<Rightarrow> nat result" where
  "reserved_write usages written [] = Inr written"
| "reserved_write usages written (chunk # chunks) =
     (if maximum_state_bytes < written + length chunk then Inl checkpoint_failure
      else case usages of
        [] \<Rightarrow> Inl OS_Error
      | usage # rest \<Rightarrow> andThen (require_space usage (int (length chunk))) (\<lambda>_.
          reserved_write rest (written + length chunk) chunks))"

definition read_index :: "('c, 'c checkpoint_index) saving" where
  "read_index = act_bind invisible_operation (\<lambda>_. act_bind act_get (\<lambda>s.
     case published_index s of
       None \<Rightarrow> act_return empty_index
     | Some x \<Rightarrow> if index_valid x then act_return x else act_raise Value_Error))"

text \<open>Equality of dictionaries does not depend on the order of their entries.\<close>

definition same_entries :: "('k \<times> 'v) list \<Rightarrow> ('k \<times> 'v) list \<Rightarrow> bool" where
  "same_entries a b \<longleftrightarrow> set a = set b"

section \<open>Retention\<close>

definition measured :: "'c checkpoint_summary list \<Rightarrow> 'c checkpoint_summary list" where
  "measured xs = filter (\<lambda>x. checkpoint_metrics x \<noteq> None) xs"

definition rank :: "'c checkpoint_summary \<Rightarrow> real \<times> real \<times> real \<times> nat \<times> string" where
  "rank x = (case checkpoint_metrics x of
     None \<Rightarrow> (0, 0, 0, 0, [])
   | Some m \<Rightarrow> (exact_recovery m, median_psnr m, median_ssim m, checkpoint_step x, checkpoint_identifier x))"

definition last_three :: "'a list \<Rightarrow> 'a list" where
  "last_three xs = drop (length xs - 3) xs"

definition best_identifiers :: "'c checkpoint_summary list \<Rightarrow> string set" where
  "best_identifiers candidates = checkpoint_identifier ` set (last_three (sort_key rank (measured candidates)))"

definition retained :: "'c checkpoint_index \<Rightarrow> 'c checkpoint_summary \<Rightarrow> 'c checkpoint_index" where
  "retained index latest =
     (let candidates = index_checkpoints index @ [latest];
          best = insert (checkpoint_identifier latest) (best_identifiers candidates) in
      \<lparr>latest_identifier = Some (checkpoint_identifier latest),
       index_checkpoints = filter (\<lambda>x. pinned x \<or> checkpoint_identifier x \<in> best) candidates\<rparr>)"

section \<open>Saving and loading\<close>

definition checked_checkpoint :: "('c, 't) torch \<Rightarrow> string \<Rightarrow> 'c stored_checkpoint option
    \<Rightarrow> ('c checkpoint_summary \<times> ('c, 't) training_state) result" where
  "checked_checkpoint torch name found =
     (case found of None \<Rightarrow> Inl Value_Error | Some stored \<Rightarrow>
      case stored_summary stored of None \<Rightarrow> Inl Value_Error | Some summary \<Rightarrow>
      if \<not> summary_valid summary \<or> name \<noteq> checkpoint_identifier summary then Inl Value_Error
      else andThen (checkpoint_file_checksum (digest_of torch) (stored_state stored)) (\<lambda>digest.
        if digest \<noteq> state_checksum summary then Inl Value_Error
        else if length (the (stored_state stored)) \<noteq> state_bytes summary then Inl Value_Error
        else andThen (load_bytes torch (the (stored_state stored))) (\<lambda>v. andThen (load_state v) (\<lambda>state.
          if global_step state \<noteq> checkpoint_step summary \<or> \<not> same_entries (state_identities state) (checkpoint_identities summary)
            \<or> state_configuration state \<noteq> checkpoint_configuration summary
            \<or> frozen_checksum torch (state_configuration state) \<noteq> configuration_checksum summary
          then Inl Value_Error else Inr (summary, state)))))"

definition read_checkpoint :: "('c, 't) torch \<Rightarrow> string \<Rightarrow> ('c, 'c checkpoint_summary \<times> ('c, 't) training_state) saving" where
  "read_checkpoint torch name = act_bind invisible_operation (\<lambda>_. act_bind act_get (\<lambda>s.
     act_lift (checked_checkpoint torch name (dict_get (completed s) name))))"

definition fixed_failure :: "('s, 'a) action \<Rightarrow> ('s, 'a) action" where
  "fixed_failure m s = (case m s of (t, Inl e) \<Rightarrow> (t, Inl checkpoint_failure) | (t, Inr x) \<Rightarrow> (t, Inr x))"

definition read_checkpoint_state :: "('c, 't) torch \<Rightarrow> string \<Rightarrow> ('c, ('c, 't) training_state) saving" where
  "read_checkpoint_state torch name = fixed_failure (act_bind (read_checkpoint torch name) (\<lambda>(summary, state). act_return state))"

definition inspect_checkpoint :: "('c, 't) torch \<Rightarrow> string \<Rightarrow> ('c, 'c checkpoint_summary) saving" where
  "inspect_checkpoint torch name = fixed_failure (act_bind (read_checkpoint torch name) (\<lambda>(summary, state). act_return summary))"

record save_context =
  checkpoint_uuid :: string
  save_time :: string
  chunk_usages :: "disk_usage list"
  metadata_write :: write_call
  index_write :: write_call

definition checkpoint_name :: "nat \<Rightarrow> string \<Rightarrow> string" where
  "checkpoint_name step uuid = ''checkpoint_'' @ decimal step @ ''_'' @ uuid"

definition new_summary :: "('c, 't) torch \<Rightarrow> save_context \<Rightarrow> string \<Rightarrow> ('c, 't) training_state \<Rightarrow> byte list
    \<Rightarrow> checkpoint_metrics option \<Rightarrow> bool \<Rightarrow> 'c checkpoint_summary" where
  "new_summary torch env name state bytes metrics pin =
     \<lparr>checkpoint_identifier = name, checkpoint_step = global_step state, checkpoint_created = save_time env,
      configuration_checksum = frozen_checksum torch (state_configuration state),
      state_checksum = digest_of torch bytes, state_bytes = length bytes,
      checkpoint_configuration = state_configuration state, checkpoint_identities = state_identities state,
      checkpoint_metrics = metrics, pinned = pin\<rparr>"

definition publish_stage :: "string \<Rightarrow> 'c stored_checkpoint \<Rightarrow> ('c, unit) saving" where
  "publish_stage name stored = act_bind act_get (\<lambda>s.
     if dict_get (completed s) name \<noteq> None then act_raise OS_Error
     else let whole = (\<lambda>s. s\<lparr>completed := AList.update name stored (completed s)\<rparr>) in
       act_bind (checkpoint_operation (\<lambda>n s. s) whole) (\<lambda>_. invisible_operation))"

definition write_index :: "write_call \<Rightarrow> 'c checkpoint_index \<Rightarrow> ('c, unit) saving" where
  "write_index call index s =
     (let (new, r) = atomic_json call index (published_index s) in (s\<lparr>published_index := new\<rparr>, r))"

text \<open>A removal that fails may have deleted the summary, the state, both or neither.\<close>

definition partly_deleted :: "nat \<Rightarrow> string \<Rightarrow> 'c checkpoint_directory \<Rightarrow> 'c checkpoint_directory" where
  "partly_deleted n name s = (case dict_get (completed s) name of None \<Rightarrow> s | Some stored \<Rightarrow>
     s\<lparr>completed := AList.update name \<lparr>stored_summary = (if bit n 0 then stored_summary stored else None),
       stored_state = (if bit n 1 then stored_state stored else None)\<rparr> (completed s)\<rparr>)"

fun prune :: "string set \<Rightarrow> 'c checkpoint_summary list \<Rightarrow> ('c, unit) saving" where
  "prune kept [] = act_return ()"
| "prune kept (x # xs) =
     act_bind (if checkpoint_identifier x \<in> kept then act_return ()
               else act_bind act_get (\<lambda>s. if dict_get (completed s) (checkpoint_identifier x) = None then act_raise OS_Error
                 else checkpoint_operation (\<lambda>n. partly_deleted n (checkpoint_identifier x))
                   (\<lambda>s. s\<lparr>completed := AList.delete (checkpoint_identifier x) (completed s)\<rparr>))) (\<lambda>_. prune kept xs)"

definition publish_state :: "('c, 't) torch \<Rightarrow> save_context \<Rightarrow> ('c, 't) training_state
    \<Rightarrow> checkpoint_metrics option \<Rightarrow> bool \<Rightarrow> ('c, 'c checkpoint_summary) saving" where
  "publish_state torch env state metrics pin =
     (let name = checkpoint_name (global_step state) (checkpoint_uuid env);
          bytes = concat (save_chunks torch state);
          summary = new_summary torch env name state bytes metrics pin in
     act_bind invisible_operation (\<lambda>_.
     act_bind (act_lift (ensure (safe_state (state_shape torch state)) Value_Error)) (\<lambda>_.
     act_bind (act_lift (reserved_write (chunk_usages env) 0 (save_chunks torch state))) (\<lambda>_.
     act_bind invisible_operation (\<lambda>_.
     act_bind (act_lift (andThen (load_bytes torch bytes) load_state)) (\<lambda>checked.
     act_bind (act_lift (ensure (restorable torch checked \<and> summary_valid summary) Value_Error)) (\<lambda>_.
     act_bind (act_lift (snd (atomic_json (metadata_write env) summary None))) (\<lambda>_.
     act_bind (publish_stage name \<lparr>stored_summary = Some summary, stored_state = Some bytes\<rparr>) (\<lambda>_.
     act_bind (read_checkpoint torch name) (\<lambda>_. act_return summary))))))))))"

definition record_save :: "save_context \<Rightarrow> 'c checkpoint_index \<Rightarrow> 'c checkpoint_summary \<Rightarrow> ('c, 'c checkpoint_summary) saving" where
  "record_save env previous summary =
     (let index = retained previous summary in
     act_bind (act_lift (ensure (index_valid index) Value_Error)) (\<lambda>_.
     act_bind (write_index (index_write env) index) (\<lambda>_.
     act_bind (prune (checkpoint_identifier ` set (index_checkpoints index)) (index_checkpoints previous)) (\<lambda>_.
     act_return summary))))"

definition save_locked :: "('c, 't) torch \<Rightarrow> save_context \<Rightarrow> ('c, 't) training_state
    \<Rightarrow> checkpoint_metrics option \<Rightarrow> bool \<Rightarrow> ('c, 'c checkpoint_summary) saving" where
  "save_locked torch env state metrics pin =
     act_bind read_index (\<lambda>previous.
     act_bind (publish_state torch env state metrics pin) (\<lambda>summary.
     record_save env previous summary))"

definition save_checkpoint :: "('c, 't) torch \<Rightarrow> save_context \<Rightarrow> ('c, 't) training_state
    \<Rightarrow> checkpoint_metrics option \<Rightarrow> bool \<Rightarrow> ('c, 'c checkpoint_summary) saving" where
  "save_checkpoint torch env state metrics pin =
     fixed_failure (act_bind invisible_operation (\<lambda>_. save_locked torch env state metrics pin))"

definition load_checkpoint :: "('c, 't) torch \<Rightarrow> string \<Rightarrow> (string \<times> string) list \<Rightarrow> 'c option
    \<Rightarrow> ('c, 'c checkpoint_summary \<times> ('c, 't) training_state) saving" where
  "load_checkpoint torch name identities configuration = fixed_failure (
     act_bind (read_checkpoint torch name) (\<lambda>(summary, state).
     if \<not> same_entries (checkpoint_identities summary) identities then act_raise Value_Error
     else if configuration \<noteq> None \<and> configuration \<noteq> Some (checkpoint_configuration summary) then act_raise Value_Error
     else if \<not> restorable torch state then act_raise Value_Error
     else act_return (summary, state)))"

end
