(* ===== verification/CheckpointProperties.thy ===== *)
theory CheckpointProperties
  imports Checkpoints Interfaces
begin

text \<open>
  The index of a checkpoint directory over every sequence of saves, with any failures: it
  names only whole checkpoints, and the best three of all the saves it ever recorded.
\<close>

section \<open>The best three\<close>

definition best_of :: "('a \<Rightarrow> 'k :: linorder) \<Rightarrow> 'a set \<Rightarrow> 'a set" where
  "best_of f S = {x \<in> S. card {y \<in> S. f x < f y} < 3}"

lemma last_three_best:
  assumes "distinct xs" and "inj_on f (set xs)"
  shows "set (last_three (sort_key f xs)) = best_of f (set xs)"
proof -
  let ?l = "sort_key f xs"
  have d: "distinct ?l" "set ?l = set xs" "sorted (map f ?l)" using assms(1) by simp_all
  have strict: "f (?l ! i) < f (?l ! j)" if "i < j" "j < length ?l" for i j
  proof -
    have "f (?l ! i) \<le> f (?l ! j)" using sorted_nth_mono [OF d(3)] that by simp
    moreover have "f (?l ! i) \<noteq> f (?l ! j)"
      using assms(2) d(1,2) that by (metis inj_onD less_imp_neq less_trans nth_eq_iff_index_eq nth_mem)
    ultimately show ?thesis by simp
  qed
  have above: "{y \<in> set xs. f (?l ! i) < f y} = (!) ?l ` {i<..<length ?l}" if "i < length ?l" for i
  proof (intro set_eqI iffI)
    fix y assume y: "y \<in> {y \<in> set xs. f (?l ! i) < f y}"
    then obtain j where j: "j < length ?l" "y = ?l ! j" using d(2) by (metis (mono_tags) in_set_conv_nth mem_Collect_eq)
    with y strict [of j i] that have "i < j" by (metis (mono_tags) linorder_neqE_nat mem_Collect_eq order_less_asym order_less_irrefl)
    with j show "y \<in> (!) ?l ` {i<..<length ?l}" by simp
  next
    fix y assume "y \<in> (!) ?l ` {i<..<length ?l}"
    then show "y \<in> {y \<in> set xs. f (?l ! i) < f y}" using strict d(2) by (auto intro: nth_mem [of _ ?l, unfolded d(2)])
  qed
  have count: "card {y \<in> set xs. f (?l ! i) < f y} = length ?l - i - 1" if "i < length ?l" for i
    unfolding above [OF that] using d(1)
    by (subst card_image) (auto simp: inj_on_def nth_eq_iff_index_eq)
  have "last_three ?l = map ((!) ?l) [length ?l - 3..<length ?l]"
    unfolding last_three_def by (rule nth_equalityI) auto
  then have l: "set (last_three ?l) = (!) ?l ` {length ?l - 3..<length ?l}" by simp
  have b: "?l ! i \<in> best_of f (set xs) \<longleftrightarrow> length ?l - 3 \<le> i" if "i < length ?l" for i
    using that count [OF that] d(2) nth_mem [OF that] by (auto simp: best_of_def)
  have i: "best_of f (set xs) \<subseteq> (!) ?l ` {..<length ?l}"
  proof
    fix x assume "x \<in> best_of f (set xs)"
    then have "x \<in> set ?l" using d(2) by (simp add: best_of_def)
    then show "x \<in> (!) ?l ` {..<length ?l}" by (metis image_eqI in_set_conv_nth lessThan_iff)
  qed
  show ?thesis
  proof (intro set_eqI iffI)
    fix x assume "x \<in> set (last_three ?l)"
    then obtain i where "x = ?l ! i" "length ?l - 3 \<le> i" "i < length ?l" unfolding l by fastforce
    with b [of i] show "x \<in> best_of f (set xs)" by simp
  next
    fix x assume x: "x \<in> best_of f (set xs)"
    with i obtain j where "x = ?l ! j" "j < length ?l" by blast
    with b [of j] x show "x \<in> set (last_three ?l)" unfolding l by (intro image_eqI [of _ _ j]) simp_all
  qed
qed

lemma best_of_large:
  assumes "finite S" and "inj_on f S" and "3 \<le> card S"
  shows "card (best_of f S) = 3"
proof -
  obtain xs where xs: "set xs = S" "distinct xs" using finite_distinct_list [OF assms(1)] by blast
  have "distinct (last_three (sort_key f xs))" using xs(2) by (simp add: last_three_def)
  moreover have "length xs = card S" using xs distinct_card by fastforce
  ultimately have "card (set (last_three (sort_key f xs))) = 3"
    using assms(3) by (simp add: distinct_card) (simp add: last_three_def)
  with last_three_best [OF xs(2), of f] assms(2) xs(1) show ?thesis by simp
qed

text \<open>What lies between a set and its best three has the same best three.\<close>

lemma best_of_between:
  assumes "finite S" and "inj_on f S" and "best_of f S \<subseteq> R" and "R \<subseteq> S"
  shows "best_of f R = best_of f S"
proof (intro set_eqI iffI)
  fix x assume x: "x \<in> best_of f S"
  have "card {y \<in> R. f x < f y} \<le> card {y \<in> S. f x < f y}"
    using assms(1,4) by (intro card_mono) auto
  with x assms(3) show "x \<in> best_of f R" by (auto simp: best_of_def)
next
  fix x assume x: "x \<in> best_of f R"
  show "x \<in> best_of f S"
  proof (rule ccontr)
    assume n: "x \<notin> best_of f S"
    have xS: "x \<in> S" using x assms(4) by (auto simp: best_of_def)
    with n have many: "3 \<le> card {y \<in> S. f x < f y}" by (simp add: best_of_def)
    moreover have "card {y \<in> S. f x < f y} \<le> card S" using assms(1) by (intro card_mono) auto
    ultimately have three: "card (best_of f S) = 3" by (intro best_of_large assms) simp
    have "f x < f y" if y: "y \<in> best_of f S" for y
    proof (rule ccontr)
      assume "\<not> f x < f y"
      then have "{z \<in> S. f x < f z} \<subseteq> {z \<in> S. f y < f z}" by auto
      then have "card {z \<in> S. f x < f z} \<le> card {z \<in> S. f y < f z}" using assms(1) by (intro card_mono) auto
      with many y show False by (simp add: best_of_def)
    qed
    then have "best_of f S \<subseteq> {y \<in> R. f x < f y}" using assms(3) by auto
    then have "3 \<le> card {y \<in> R. f x < f y}"
      using three assms(1,4) by (metis (no_types, lifting) card_mono finite_subset mem_Collect_eq subsetI)
    with x show False by (simp add: best_of_def)
  qed
qed


section \<open>The index and its history\<close>

definition whole :: "('c, 't) torch \<Rightarrow> 'c checkpoint_directory \<Rightarrow> 'c checkpoint_summary \<Rightarrow> bool" where
  "whole torch d x \<longleftrightarrow> (\<exists>state. checked_checkpoint torch (checkpoint_identifier x)
     (dict_get (completed d) (checkpoint_identifier x)) = Inr (x, state))"

text \<open>The history lists the saves that an index recorded, in order.\<close>

definition kept_set :: "'c checkpoint_summary list \<Rightarrow> 'c checkpoint_summary set" where
  "kept_set h = {last h} \<union> {x \<in> set h. pinned x} \<union> best_of rank (set (measured h))"

definition records :: "('c, 't) torch \<Rightarrow> 'c checkpoint_summary list \<Rightarrow> 'c checkpoint_directory \<Rightarrow> bool" where
  "records torch h d \<longleftrightarrow> distinct (map checkpoint_identifier h) \<and>
     (case published_index d of None \<Rightarrow> h = []
      | Some x \<Rightarrow> h \<noteq> [] \<and> latest_identifier x = Some (checkpoint_identifier (last h)) \<and>
          set (index_checkpoints x) = kept_set h \<and> last (index_checkpoints x) = last h \<and>
          distinct (index_checkpoints x) \<and>
          list_all (whole torch d) (index_checkpoints x))"

lemma whole_ignores [simp]: "whole torch (d\<lparr>file_outcomes := os\<rparr>) = whole torch d"
  by (simp add: whole_def fun_eq_iff)

lemma records_ignores [simp]: "records torch h (d\<lparr>file_outcomes := os\<rparr>) = records torch h d"
  by (simp add: records_def split: option.split)

lemma measured_set: "set (measured xs) = {x \<in> set xs. checkpoint_metrics x \<noteq> None}"
  by (auto simp: measured_def)

lemma rank_inj: "distinct (map checkpoint_identifier h) \<Longrightarrow> S \<subseteq> set (measured h) \<Longrightarrow> inj_on rank S"
proof (rule inj_onI)
  fix x y assume "distinct (map checkpoint_identifier h)" "S \<subseteq> set (measured h)" "x \<in> S" "y \<in> S" "rank x = rank y"
  then have "x \<in> set h" "y \<in> set h" "checkpoint_identifier x = checkpoint_identifier y" "distinct (map checkpoint_identifier h)"
    by (auto simp: rank_def measured_set split: option.splits)
  then show "x = y" by (simp add: distinct_map inj_on_def)
qed

text \<open>Ranking what an index still holds ranks the whole history.\<close>

lemma best_of_history:
  assumes h: "distinct (map checkpoint_identifier (h @ [n]))" and c: "C = set c" "C \<subseteq> set h" "best_of rank (set (measured h)) \<subseteq> C"
  shows "best_of rank (set (measured (c @ [n]))) = best_of rank (set (measured (h @ [n])))"
proof (rule best_of_between)
  show "inj_on rank (set (measured (h @ [n])))" using h by (rule rank_inj) simp
  have "card {y \<in> set (measured h). rank x < rank y} \<le> card {y \<in> set (measured (h @ [n])). rank x < rank y}" for x
    by (intro card_mono) (auto simp: measured_set)
  then have "best_of rank (set (measured (h @ [n]))) \<subseteq> insert n (best_of rank (set (measured h)))"
    by (auto simp: best_of_def measured_set intro: le_less_trans)
  then show "best_of rank (set (measured (h @ [n]))) \<subseteq> set (measured (c @ [n]))"
    using c(1,3) by (auto simp: best_of_def measured_set)
  show "set (measured (c @ [n])) \<subseteq> set (measured (h @ [n]))" using c(1,2) by (auto simp: measured_set)
qed simp

lemma kept_subset: "h \<noteq> [] \<Longrightarrow> kept_set h \<subseteq> set h"
  by (auto simp: kept_set_def best_of_def measured_set)

definition index_now :: "'c checkpoint_directory \<Rightarrow> 'c checkpoint_index" where
  "index_now d = (case published_index d of None \<Rightarrow> empty_index | Some x \<Rightarrow> x)"

lemma recorded_index:
  "records torch h d \<Longrightarrow> set (index_checkpoints (index_now d)) = (if h = [] then {} else kept_set h)"
  "records torch h d \<Longrightarrow> distinct (index_checkpoints (index_now d))"
  by (auto simp: records_def index_now_def empty_index_def split: option.splits)

lemma retained_kept:
  assumes r: "records torch h d" and n: "distinct (map checkpoint_identifier (h @ [n]))"
  shows "set (index_checkpoints (retained (index_now d) n)) = kept_set (h @ [n])"
    and "last (index_checkpoints (retained (index_now d) n)) = n"
    and "distinct (index_checkpoints (retained (index_now d) n))"
proof -
  let ?c = "index_checkpoints (index_now d)"
  have c: "set ?c = (if h = [] then {} else kept_set h)" using r by (rule recorded_index(1))
  have sub: "set ?c \<subseteq> set h" using c kept_subset by auto
  have best: "best_of rank (set (measured (?c @ [n]))) = best_of rank (set (measured (h @ [n])))"
    by (rule best_of_history [OF n refl sub]) (auto simp: c kept_set_def measured_def best_of_def)
  let ?B = "best_of rank (set (measured (h @ [n])))"
  have dist: "distinct (map checkpoint_identifier (?c @ [n]))"
    using recorded_index(2) [OF r] n sub unfolding distinct_map by (auto simp: inj_on_def subset_iff)
  then have "distinct (?c @ [n])" using distinct_map by blast
  then show "distinct (index_checkpoints (retained (index_now d) n))"
    by (auto simp: retained_def Let_def)
  show "last (index_checkpoints (retained (index_now d) n)) = n" by (simp add: retained_def Let_def)
  have id_eq: "checkpoint_identifier x \<in> checkpoint_identifier ` T \<longleftrightarrow> x \<in> T"
    if "x \<in> set (h @ [n])" "T \<subseteq> set (h @ [n])" for x T
  proof (rule inj_on_image_mem_iff [OF _ that])
    show "inj_on checkpoint_identifier (set (h @ [n]))" using n distinct_map by blast
  qed
  have Bsub: "?B \<subseteq> set (h @ [n])" by (auto simp: best_of_def measured_set)
  have "set (last_three (sort_key rank (measured (?c @ [n])))) = ?B"
    unfolding best [symmetric]
  proof (rule last_three_best)
    have "distinct (?c @ [n])" using dist distinct_map by blast
    then show "distinct (measured (?c @ [n]))" by (simp add: measured_def del: filter_append)
    show "inj_on rank (set (measured (?c @ [n])))" using dist by (rule rank_inj) simp
  qed
  then have ids: "best_identifiers (?c @ [n]) = checkpoint_identifier ` ?B" by (simp add: best_identifiers_def)
  have key: "checkpoint_identifier x \<in> insert (checkpoint_identifier n) (checkpoint_identifier ` ?B) \<longleftrightarrow> x = n \<or> x \<in> ?B"
    if "x \<in> set (?c @ [n])" for x
  proof -
    have "x \<in> set (h @ [n])" "insert n ?B \<subseteq> set (h @ [n])" using that sub Bsub by auto
    from id_eq [OF this] show ?thesis by (simp only: image_insert insert_iff)
  qed
  have eq: "index_checkpoints (retained (index_now d) n) =
      filter (\<lambda>x. pinned x \<or> checkpoint_identifier x \<in> insert (checkpoint_identifier n) (checkpoint_identifier ` ?B)) (?c @ [n])"
    unfolding retained_def Let_def ids by (simp only: checkpoint_index.select_convs)
  have "set (index_checkpoints (retained (index_now d) n)) = {x \<in> set (?c @ [n]). pinned x \<or> x = n \<or> x \<in> ?B}"
    unfolding eq set_filter by (rule Collect_cong, rule conj_cong [OF refl]) (simp only: key)
  moreover have "{x \<in> set (h @ [n]). pinned x} \<subseteq> set (?c @ [n])" using c by (auto simp: kept_set_def)
  moreover have "?B \<subseteq> set (?c @ [n])" unfolding best [symmetric] by (auto simp: best_of_def measured_set)
  ultimately show "set (index_checkpoints (retained (index_now d) n)) = kept_set (h @ [n])"
    using sub by (auto simp: kept_set_def)
qed


section \<open>One save\<close>

text \<open>After an attempt the index is the old one, or the new save is recorded.\<close>

definition attempted :: "('c, 't) torch \<Rightarrow> 'c checkpoint_directory \<Rightarrow> 'c checkpoint_summary list \<Rightarrow> 'c checkpoint_directory \<Rightarrow> bool" where
  "attempted torch d h e \<longleftrightarrow> published_index e = published_index d \<and> records torch h e \<or>
     published_index e \<noteq> published_index d \<and> records torch (h @ [last (index_checkpoints (index_now e))]) e"

definition unchanged :: "('c, 't) torch \<Rightarrow> 'c checkpoint_directory \<Rightarrow> 'c checkpoint_summary list \<Rightarrow> 'c checkpoint_directory \<Rightarrow> bool" where
  "unchanged torch d h e \<longleftrightarrow> published_index e = published_index d \<and> records torch h e"

lemma unchanged_attempted: "unchanged torch d h e \<Longrightarrow> attempted torch d h e"
  by (simp add: unchanged_def attempted_def)

lemma unchanged_ignores [simp]:
  "unchanged torch d h (e\<lparr>file_outcomes := os\<rparr>) = unchanged torch d h e"
  "attempted torch d h (e\<lparr>file_outcomes := os\<rparr>) = attempted torch d h e"
  by (simp_all add: unchanged_def attempted_def index_now_def)

lemma spec_checkpoint:
  assumes "\<And>s os. P s \<Longrightarrow> Q () (good (s\<lparr>file_outcomes := os\<rparr>))" and "\<And>s os n. P s \<Longrightarrow> E (partial n (s\<lparr>file_outcomes := os\<rparr>))"
  shows "act_spec P (checkpoint_operation partial good) Q E"
proof -
  have "Q () (good s)" if "P s" for s using assms(1) [OF that, of "file_outcomes s"] by simp
  with assms show ?thesis
    by (auto simp: act_spec_def checkpoint_operation_def split: list.splits option.splits)
qed

definition steady_files :: "('c checkpoint_directory \<Rightarrow> bool) \<Rightarrow> bool" where
  "steady_files P \<longleftrightarrow> (\<forall>s os. P s \<longrightarrow> P (s\<lparr>file_outcomes := os\<rparr>))"

lemma spec_invisible: "steady_files P \<Longrightarrow> (\<And>s. P s \<Longrightarrow> E s) \<Longrightarrow> act_spec P invisible_operation (\<lambda>_. P) E"
  unfolding invisible_operation_def by (rule spec_checkpoint) (auto simp: steady_files_def)

lemma spec_ensure: "(\<And>s. P s \<Longrightarrow> E s) \<Longrightarrow> act_spec P (act_lift (ensure b e)) (\<lambda>_ s. P s \<and> b) E"
  by (auto simp: act_spec_def ensure_def)

lemma read_index_spec:
  "act_spec (unchanged torch d h) read_index (\<lambda>x s. unchanged torch d h s \<and> x = index_now d) (attempted torch d h)"
  unfolding read_index_def
  by (rule spec_bind [OF spec_invisible], simp add: steady_files_def, erule unchanged_attempted, rule spec_bind [OF spec_get])
    (auto intro!: spec_intros simp: unchanged_def index_now_def attempted_def)

lemma fixed_failure_spec: "act_spec P m Q E \<Longrightarrow> act_spec P (fixed_failure m) Q E"
  unfolding act_spec_def fixed_failure_def by (fastforce split: prod.splits sum.splits)

lemma added_records:
  assumes "records torch h e" and "dict_get (completed e) name = None"
  shows "records torch h (e\<lparr>completed := AList.update name stored (completed e)\<rparr>)"
proof -
  have "whole torch (e\<lparr>completed := AList.update name stored (completed e)\<rparr>) x" if "whole torch e x" for x
  proof -
    have "checkpoint_identifier x \<noteq> name" using that assms(2) by (auto simp: whole_def checked_checkpoint_def)
    with that show ?thesis by (simp add: whole_def)
  qed
  with assms(1) show ?thesis by (auto simp: records_def list_all_iff split: option.splits)
qed

definition added :: "('c, 't) torch \<Rightarrow> 'c checkpoint_directory \<Rightarrow> 'c checkpoint_summary list \<Rightarrow> string \<Rightarrow> 'c stored_checkpoint
    \<Rightarrow> 'c checkpoint_directory \<Rightarrow> bool" where
  "added torch d h name stored e \<longleftrightarrow> unchanged torch d h e \<and> dict_get (completed e) name = Some stored"

lemma publish_stage_spec:
  "act_spec (unchanged torch d h) (publish_stage name stored) (\<lambda>_. added torch d h name stored) (attempted torch d h)"
proof -
  have flush: "act_spec (added torch d h name stored) invisible_operation (\<lambda>_. added torch d h name stored) (attempted torch d h)"
    by (rule spec_invisible) (auto simp: steady_files_def added_def unchanged_attempted)
  have "act_spec (\<lambda>s. unchanged torch d h s \<and> x = s) (checkpoint_operation (\<lambda>n s. s)
      (\<lambda>s. s\<lparr>completed := AList.update name stored (completed s)\<rparr>)) (\<lambda>_. added torch d h name stored) (attempted torch d h)"
    if "dict_get (completed x) name = None" for x
    by (rule spec_checkpoint)
      (use that added_records [of torch h "x\<lparr>file_outcomes := os\<rparr>" name stored for os] in
        \<open>auto simp: added_def unchanged_def attempted_def\<close>)
  then show ?thesis
    unfolding publish_stage_def Let_def
    by (intro spec_bind [OF spec_get] spec_if spec_bind [OF _ flush]) (auto intro!: spec_basic unchanged_attempted)
qed

lemma checked_summary:
  "checked_checkpoint torch name (Some stored) = Inr (a, b) \<Longrightarrow> stored_summary stored = Some x \<Longrightarrow>
     a = x \<and> checkpoint_identifier x = name"
  by (auto simp: checked_checkpoint_def andThen_eq_Inr split: if_splits)

lemma read_checkpoint_spec:
  assumes "stored_summary stored = Some x"
  shows "act_spec (added torch d h name stored) (read_checkpoint torch name)
    (\<lambda>_ e. unchanged torch d h e \<and> checkpoint_identifier x = name \<and> whole torch e x) (attempted torch d h)"
  unfolding read_checkpoint_def
proof (rule spec_bind [OF spec_invisible], simp add: steady_files_def added_def, simp add: added_def unchanged_attempted,
    rule spec_bind [OF spec_get])
  fix s
  show "act_spec (\<lambda>e. added torch d h name stored e \<and> s = e) (act_lift (checked_checkpoint torch name (dict_get (completed s) name)))
    (\<lambda>_ e. unchanged torch d h e \<and> checkpoint_identifier x = name \<and> whole torch e x) (attempted torch d h)"
    using assms
    by (auto simp: act_spec_def added_def unchanged_attempted whole_def split: sum.splits dest: checked_summary)
      (metis checked_summary)
qed


lemma write_index_spec:
  assumes "name \<notin> checkpoint_identifier ` set h" and name: "checkpoint_identifier x = name"
  shows "act_spec (\<lambda>e. unchanged torch d h e \<and> whole torch e x) (write_index call (retained (index_now d) x))
    (\<lambda>_ e. published_index e = Some (retained (index_now d) x) \<and> published_index e \<noteq> published_index d \<and> records torch (h @ [x]) e)
    (attempted torch d h)"
proof -
  let ?new = "retained (index_now d) x"
  have fresh: "published_index d \<noteq> Some ?new \<and> records torch (h @ [x]) (e\<lparr>published_index := Some ?new\<rparr>)"
    if "unchanged torch d h e" "whole torch e x" for e
  proof
    have r: "records torch h e" and p: "published_index e = published_index d" using that by (simp_all add: unchanged_def)
    then have rd: "index_now e = index_now d" by (simp add: index_now_def)
    have "distinct (map checkpoint_identifier (h @ [x]))" using r assms by (simp add: records_def)
    note kept = retained_kept [OF r this, unfolded rd]
    have "latest_identifier ?new = Some (checkpoint_identifier x)" by (simp add: retained_def Let_def)
    with r p assms show "published_index d \<noteq> Some ?new" by (auto simp: records_def)
    have old: "whole torch e y" if "y \<in> set (index_checkpoints (index_now d))" for y
      using that r p by (auto simp: records_def index_now_def empty_index_def list_all_iff split: option.splits)
    have "list_all (whole torch e) (index_checkpoints ?new)"
      using old \<open>whole torch e x\<close> by (auto simp: retained_def Let_def list_all_iff)
    moreover have "whole torch (e\<lparr>published_index := Some ?new\<rparr>) = whole torch e" by (simp add: whole_def fun_eq_iff)
    moreover have "latest_identifier ?new = Some (checkpoint_identifier x)" by (simp add: retained_def Let_def)
    ultimately show "records torch (h @ [x]) (e\<lparr>published_index := Some ?new\<rparr>)"
      using \<open>distinct (map checkpoint_identifier (h @ [x]))\<close> kept by (simp add: records_def)
  qed
  have "attempted torch d h (e\<lparr>published_index := Some ?new\<rparr>)" if "unchanged torch d h e" "whole torch e x" for e
    using fresh [OF that] by (auto simp: attempted_def index_now_def retained_def Let_def)
  note late = this
  show ?thesis
    unfolding act_spec_def
  proof (intro allI impI, elim conjE)
    fix s t r assume s: "unchanged torch d h s" "whole torch s x" and run: "write_index call ?new s = (t, r)"
    consider (old) e where "atomic_json call ?new (published_index s) = (published_index s, Inl e)"
      | (new) q where "atomic_json call ?new (published_index s) = (Some ?new, q)"
      using atomic_json_cases by metis
    then show "case r of Inl e \<Rightarrow> attempted torch d h t
      | Inr u \<Rightarrow> published_index t = Some ?new \<and> published_index t \<noteq> published_index d \<and> records torch (h @ [x]) t"
    proof cases
      case old
      then have "t = s" "r = Inl e" using run by (simp_all add: write_index_def)
      then show ?thesis using s by (simp add: unchanged_attempted)
    next
      case new
      then have "t = s\<lparr>published_index := Some ?new\<rparr>" using run by (simp add: write_index_def)
      then show ?thesis using late [OF s] fresh [OF s] by (auto split: sum.split)
    qed
  qed
qed


definition recorded :: "('c, 't) torch \<Rightarrow> 'c checkpoint_index \<Rightarrow> 'c checkpoint_summary list \<Rightarrow> 'c checkpoint_directory \<Rightarrow> bool" where
  "recorded torch x h e \<longleftrightarrow> published_index e = Some x \<and> records torch h e"

lemma recorded_ignores [simp]: "recorded torch x h (e\<lparr>file_outcomes := os\<rparr>) = recorded torch x h e"
  by (simp add: recorded_def)

lemma pruned_records:
  assumes "recorded torch x h e" and "name \<notin> checkpoint_identifier ` set (index_checkpoints x)"
    and "\<And>j. j \<noteq> name \<Longrightarrow> dict_get files j = dict_get (completed e) j"
  shows "recorded torch x h (e\<lparr>completed := files\<rparr>)"
proof -
  have "whole torch (e\<lparr>completed := files\<rparr>) y = whole torch e y" if "y \<in> set (index_checkpoints x)" for y
  proof -
    have "checkpoint_identifier y \<noteq> name" using that assms(2) by auto
    then show ?thesis using assms(3) by (simp add: whole_def)
  qed
  with assms(1) show ?thesis by (auto simp: recorded_def records_def list_all_iff)
qed

lemma prune_spec:
  "act_spec (recorded torch x h) (prune (checkpoint_identifier ` set (index_checkpoints x)) items)
     (\<lambda>_. recorded torch x h) (recorded torch x h)"
proof (induction items)
  case Nil
  show ?case unfolding prune.simps by (rule spec_basic)
next
  case (Cons item items)
  let ?i = "checkpoint_identifier item"
  have "act_spec (\<lambda>s. recorded torch x h s \<and> y = s) (checkpoint_operation (\<lambda>n. partly_deleted n ?i)
      (\<lambda>s. s\<lparr>completed := AList.delete ?i (completed s)\<rparr>)) (\<lambda>_. recorded torch x h) (recorded torch x h)"
    if "?i \<notin> checkpoint_identifier ` set (index_checkpoints x)" for y
  proof (rule spec_checkpoint)
    fix s os assume s: "recorded torch x h s \<and> y = s"
    then have s': "recorded torch x h (s\<lparr>file_outcomes := os\<rparr>)" by simp
    from pruned_records [OF s' that, of "AList.delete ?i (completed s)"]
    show "recorded torch x h (s\<lparr>file_outcomes := os, completed := AList.delete ?i (completed (s\<lparr>file_outcomes := os\<rparr>))\<rparr>)"
      by simp
    fix n
    show "recorded torch x h (partly_deleted n ?i (s\<lparr>file_outcomes := os\<rparr>))"
      using s' pruned_records [OF s' that] by (auto simp: partly_deleted_def split: option.split)
  qed
  then show ?case
    unfolding prune.simps
    by (intro spec_bind [OF _ Cons.IH] spec_if spec_bind [OF spec_get]) (auto intro: spec_basic)
qed

lemma publish_state_spec:
  fixes torch :: "('c, 't) torch"
  defines "name \<equiv> \<lambda>env state. checkpoint_name (global_step state) (checkpoint_uuid env)"
  shows "act_spec (unchanged torch d h) (publish_state torch env state metrics pin)
    (\<lambda>x e. unchanged torch d h e \<and> checkpoint_identifier x = name env state \<and> whole torch e x) (attempted torch d h)"
proof -
  let ?U = "unchanged torch d h" and ?A = "attempted torch d h"
  have quiet: "act_spec ?U invisible_operation (\<lambda>_. ?U) ?A"
    by (rule spec_invisible) (auto simp: steady_files_def unchanged_attempted)
  have lift: "act_spec ?U (act_lift q) (\<lambda>_. ?U) ?A" for q :: "'z result"
    by (auto simp: act_spec_def unchanged_attempted split: sum.splits)
  have stored: "stored_summary \<lparr>stored_summary = Some x, stored_state = b\<rparr> = Some x" for x :: "'c checkpoint_summary" and b
    by simp
  show ?thesis
    unfolding publish_state_def Let_def name_def
    by (intro spec_bind [OF quiet] spec_bind [OF lift] spec_bind [OF publish_stage_spec] spec_bind [OF read_checkpoint_spec [OF stored]]
        spec_basic) auto
qed

lemma record_save_spec:
  assumes "checkpoint_identifier x \<notin> checkpoint_identifier ` set h"
  shows "act_spec (\<lambda>e. unchanged torch d h e \<and> whole torch e x) (record_save env (index_now d) x)
    (\<lambda>_. attempted torch d h) (attempted torch d h)"
proof -
  let ?new = "retained (index_now d) x"
  let ?R = "\<lambda>e. recorded torch ?new (h @ [x]) e \<and> published_index d \<noteq> Some ?new"
  have late: "attempted torch d h e" if "?R e" for e
    using that by (auto simp: attempted_def recorded_def index_now_def retained_def Let_def)
  have "act_spec (\<lambda>e. (unchanged torch d h e \<and> whole torch e x) \<and> index_valid ?new) (write_index (index_write env) ?new)
      (\<lambda>_. ?R) (attempted torch d h)"
    by (rule spec_weaken [OF write_index_spec [OF assms refl]]) (auto simp: recorded_def)
  moreover have "act_spec ?R (act_bind (prune (checkpoint_identifier ` set (index_checkpoints ?new)) (index_checkpoints (index_now d)))
      (\<lambda>_. act_return x)) (\<lambda>_. attempted torch d h) (attempted torch d h)"
  proof (rule spec_assume, elim conjE)
    fix s assume "recorded torch ?new (h @ [x]) s" "published_index d \<noteq> Some ?new"
    then show "act_spec ((=) s) (act_bind (prune (checkpoint_identifier ` set (index_checkpoints ?new)) (index_checkpoints (index_now d)))
        (\<lambda>_. act_return x)) (\<lambda>_. attempted torch d h) (attempted torch d h)"
      by (intro spec_weaken [OF spec_bind [OF prune_spec spec_basic(1)]]) (use late in auto)
  qed
  ultimately have "act_spec (\<lambda>e. (unchanged torch d h e \<and> whole torch e x) \<and> index_valid ?new)
      (act_bind (write_index (index_write env) ?new) (\<lambda>_.
       act_bind (prune (checkpoint_identifier ` set (index_checkpoints ?new)) (index_checkpoints (index_now d)))
        (\<lambda>_. act_return x))) (\<lambda>_. attempted torch d h) (attempted torch d h)"
    by (rule spec_bind)
  then show ?thesis
    unfolding record_save_def Let_def
    by (rule spec_bind [OF spec_ensure, rotated]) (simp add: unchanged_attempted)
qed

lemma save_spec:
  assumes r: "records torch h d"
    and fresh: "checkpoint_name (global_step state) (checkpoint_uuid env) \<notin> checkpoint_identifier ` set h"
  shows "act_spec ((=) d) (save_checkpoint torch env state metrics pin) (\<lambda>_. attempted torch d h) (attempted torch d h)"
proof -
  let ?U = "unchanged torch d h" and ?A = "attempted torch d h"
  have quiet: "act_spec ?U invisible_operation (\<lambda>_. ?U) ?A"
    by (rule spec_invisible) (auto simp: steady_files_def unchanged_attempted)
  have recording: "act_spec (\<lambda>e. ?U e \<and> checkpoint_identifier x = checkpoint_name (global_step state) (checkpoint_uuid env) \<and>
      whole torch e x) (record_save env (index_now d) x) (\<lambda>_. ?A) ?A" for x
    by (rule spec_assume, elim conjE, rule spec_weaken [OF record_save_spec]) (use fresh in auto)
  have "act_spec (\<lambda>s. ?U s \<and> previous = index_now d) (act_bind (publish_state torch env state metrics pin) (record_save env previous))
      (\<lambda>_. ?A) ?A" for previous
  proof (rule spec_assume, elim conjE)
    fix s assume s: "?U s" and p: "previous = index_now d"
    show "act_spec ((=) s) (act_bind (publish_state torch env state metrics pin) (record_save env previous)) (\<lambda>_. ?A) ?A"
      unfolding p by (rule spec_weaken [OF spec_bind [OF publish_state_spec recording]]) (use s in auto)
  qed
  then have "act_spec ?U (save_locked torch env state metrics pin) (\<lambda>_. ?A) ?A"
    unfolding save_locked_def by (rule spec_bind [OF read_index_spec])
  then have "act_spec ?U (save_checkpoint torch env state metrics pin) (\<lambda>_. ?A) ?A"
    unfolding save_checkpoint_def by (intro fixed_failure_spec spec_bind [OF quiet])
  then show ?thesis by (rule spec_weaken) (use r in \<open>auto simp: unchanged_def\<close>)
qed


section \<open>Runs\<close>

text \<open>
  Any sequence of saves, loads and inspections. A fresh uuid does not repeat the name of a
  recorded save. The history grows when the index changes, by the checkpoint it lists last.
\<close>

inductive checkpoint_step :: "('c, 't) torch \<Rightarrow> 'c checkpoint_directory \<times> 'c checkpoint_summary list
    \<Rightarrow> 'c checkpoint_directory \<times> 'c checkpoint_summary list \<Rightarrow> bool" for torch where
  saves: "save_checkpoint torch env state metrics pin d = (e, r) \<Longrightarrow>
     checkpoint_name (global_step state) (checkpoint_uuid env) \<notin> checkpoint_identifier ` set h \<Longrightarrow>
     checkpoint_step torch (d, h)
       (e, if published_index e = published_index d then h else h @ [last (index_checkpoints (index_now e))])"
| loads: "load_checkpoint torch name identities configuration d = (e, q) \<Longrightarrow> checkpoint_step torch (d, h) (e, h)"
| inspects: "inspect_checkpoint torch name d = (e, i) \<Longrightarrow> checkpoint_step torch (d, h) (e, h)"
| reads: "read_checkpoint_state torch name d = (e, s) \<Longrightarrow> checkpoint_step torch (d, h) (e, h)"
| changes: "checkpoint_step torch (d, h) (d\<lparr>file_outcomes := os\<rparr>, h)"

definition empty_checkpoints :: "'c checkpoint_directory" where
  "empty_checkpoints = \<lparr>completed = [], published_index = None, file_outcomes = []\<rparr>"

lemma reading_spec: "act_spec (records torch h) (read_checkpoint torch name) (\<lambda>_. records torch h) (records torch h)"
  unfolding read_checkpoint_def
  by (rule spec_bind [OF spec_invisible], simp add: steady_files_def, assumption, rule spec_bind [OF spec_get])
    (auto simp: act_spec_def split: sum.splits)

lemma readers_spec:
  "act_spec (records torch h) (load_checkpoint torch name identities configuration) (\<lambda>_. records torch h) (records torch h)"
  "act_spec (records torch h) (inspect_checkpoint torch name) (\<lambda>_. records torch h) (records torch h)"
  "act_spec (records torch h) (read_checkpoint_state torch name) (\<lambda>_. records torch h) (records torch h)"
  unfolding load_checkpoint_def inspect_checkpoint_def read_checkpoint_state_def
  by (rule fixed_failure_spec, rule spec_bind [OF reading_spec], auto intro!: spec_intros split: prod.split)+

lemma spec_keeps: "act_spec P m (\<lambda>_. P) P \<Longrightarrow> P s \<Longrightarrow> m s = (t, r) \<Longrightarrow> P t"
  by (cases r) (auto dest: act_specD)

interpretation checkpoints: guarded_system "checkpoint_step torch" "\<lambda>(d, h). records torch h d" for torch
proof unfold_locales
  fix p q assume "case p of (d, h) \<Rightarrow> records torch h d" and "checkpoint_step torch p q"
  from this(2,1) show "case q of (d, h) \<Rightarrow> records torch h d"
  proof (induction rule: checkpoint_step.induct)
    case (saves env state metrics pin d e r h)
    then have "attempted torch d h e"
      using act_specD [OF save_spec [of torch h d state env metrics pin]] by (cases r) auto
    then show ?case by (auto simp: attempted_def)
  qed (auto dest: readers_spec [THEN spec_keeps])
qed

lemma empty_records: "records torch [] empty_checkpoints"
  by (simp add: records_def empty_checkpoints_def)

text \<open>
  C33: Retention is exact and safe. After any sequence of saves, loads and inspections of a
  checkpoint directory, with any failures that leave any part of a write or of a removal,
  the published index lists exactly the latest recorded save, the pinned ones and the best
  three of all the measured saves it ever recorded, in the order of recovery, image error,
  structure, step and name; and each listed checkpoint is whole on disk: its metadata,
  size and digest agree with its state, and the state can be loaded.
\<close>

theorem index_keeps_the_best:
  assumes "(checkpoint_step torch)\<^sup>*\<^sup>* (empty_checkpoints, []) (d, h)"
  shows "case published_index d of
      None \<Rightarrow> h = []
    | Some x \<Rightarrow> h \<noteq> [] \<and> latest_identifier x = Some (checkpoint_identifier (last h)) \<and>
        set (index_checkpoints x) = {last h} \<union> {y \<in> set h. pinned y} \<union> best_of rank {y \<in> set h. checkpoint_metrics y \<noteq> None} \<and>
        (\<forall>y \<in> set (index_checkpoints x). whole torch d y)"
proof -
  have "records torch h d" using checkpoints.run_keeps [OF assms] empty_records [of torch] by simp
  then show ?thesis by (auto simp: records_def kept_set_def measured_set list_all_iff split: option.split)
qed

section \<open>A first save\<close>

definition demo_training :: "(nat, nat) training_state" where
  "demo_training = \<lparr>global_step = 7, state_configuration = 5, state_identities = [(''data'', ''d'')], state_tensors = 6,
     state_auxiliary = None\<rparr>"

definition demo_torch :: "(nat, nat) torch" where
  "demo_torch = \<lparr>save_chunks = \<lambda>s. [[80, 84], [6]],
     load_bytes = \<lambda>bytes. Inr \<lparr>loaded_is_dict = True, loaded_version = Some 1,
       loaded_fields = [''schema_version'', ''encoder'', ''decoder'', ''optimizer'', ''random_state'', ''global_step'',
         ''sampler_state'', ''configuration'', ''identities''], loaded_step = Some 7, loaded_mappings = True,
       loaded_shape = Mapping_Value [(True, Tensor_Value)], loaded_state = demo_training\<rparr>,
     state_shape = \<lambda>s. Mapping_Value [(True, Tensor_Value)], restorable = \<lambda>s. True,
     digest_of = \<lambda>bytes. replicate 64 (CHR ''b''), frozen_checksum = \<lambda>c. replicate 64 (CHR ''c'')\<rparr>"

abbreviation demo_roomy :: disk_usage where "demo_roomy \<equiv> \<lparr>total_bytes = 100000000000, free_bytes = 90000000000\<rparr>"

definition demo_save :: save_context where
  "demo_save = \<lparr>checkpoint_uuid = replicate 32 (CHR ''a''), save_time = ''today'', chunk_usages = [demo_roomy, demo_roomy],
     metadata_write = \<lparr>usage_then = demo_roomy, data_bytes = 100, fault = No_Fault\<rparr>,
     index_write = \<lparr>usage_then = demo_roomy, data_bytes = 100, fault = No_Fault\<rparr>\<rparr>"

definition demo_name :: string where
  "demo_name = checkpoint_name 7 (replicate 32 (CHR ''a''))"

definition demo_summary :: "nat checkpoint_summary" where
  "demo_summary = new_summary demo_torch demo_save demo_name demo_training [80, 84, 6] None False"

lemma demo_valid: "summary_valid demo_summary"
proof -
  have "checkpoint_pattern demo_name" by code_simp
  moreover have "is_sha256 (replicate 64 (CHR ''b''))" "is_sha256 (replicate 64 (CHR ''c''))" by code_simp+
  ultimately show ?thesis
    by (simp add: summary_valid_def demo_summary_def new_summary_def demo_torch_def demo_save_def demo_training_def maximum_state_bytes_def)
qed

lemma demo_steps:
  "safe_state (state_shape demo_torch demo_training)"
  "reserved_write (chunk_usages demo_save) 0 (save_chunks demo_torch demo_training) = Inr 3"
  "andThen (load_bytes demo_torch [80, 84, 6]) load_state = Inr demo_training"
  "atomic_json (metadata_write demo_save) x y = (Some x, Inr ())" "atomic_json (index_write demo_save) v w = (Some v, Inr ())"
  "concat (save_chunks demo_torch demo_training) = [80, 84, 6]" "restorable demo_torch s"
  "checkpoint_name (global_step demo_training) (checkpoint_uuid demo_save) = demo_name"
  "new_summary demo_torch demo_save demo_name demo_training [80, 84, 6] None False = demo_summary"
  by (simp_all add: demo_torch_def demo_save_def demo_training_def require_space_def maximum_state_bytes_def load_state_def
      state_fields_def atomic_json_def demo_name_def demo_summary_def insert_commute)

lemma demo_checked:
  "checked_checkpoint demo_torch demo_name (Some \<lparr>stored_summary = Some demo_summary, stored_state = Some [80, 84, 6]\<rparr>)
     = Inr (demo_summary, demo_training)"
proof -
  obtain v where v: "load_bytes demo_torch [80, 84, 6] = Inr v" "load_state v = Inr demo_training"
    using demo_steps(3) by (auto simp: andThen_eq_Inr)
  show ?thesis
    using demo_valid v
    by (simp add: checked_checkpoint_def checkpoint_file_checksum_def maximum_state_bytes_def)
      (simp add: demo_summary_def new_summary_def demo_torch_def demo_training_def same_entries_def)
qed

lemma demo_retained: "retained empty_index demo_summary = \<lparr>latest_identifier = Some demo_name, index_checkpoints = [demo_summary]\<rparr>"
  by (simp add: retained_def empty_index_def demo_summary_def new_summary_def)

lemma demo_saved:
  "\<exists>d. save_checkpoint demo_torch demo_save demo_training None False empty_checkpoints = (d, Inr demo_summary) \<and>
     published_index d = Some \<lparr>latest_identifier = Some demo_name, index_checkpoints = [demo_summary]\<rparr>"
proof -
  have calm: "checkpoint_operation p w s = (w s, Inr ())" if "file_outcomes s = []" for p w and s :: "nat checkpoint_directory"
    using that by (simp add: checkpoint_operation_def)
  have "checkpoint_identifier demo_summary = demo_name" by (simp add: demo_summary_def new_summary_def)
  then have "index_valid (retained empty_index demo_summary)"
    using demo_valid by (simp add: demo_retained index_valid_def)
  then show ?thesis
    by (simp add: save_checkpoint_def fixed_failure_def save_locked_def read_index_def invisible_operation_def calm empty_checkpoints_def
        publish_state_def Let_def demo_steps demo_valid publish_stage_def read_checkpoint_def demo_checked record_save_def write_index_def
        demo_retained, simp add: empty_index_def)
qed

theorem index_keeps_the_best_witness:
  "\<exists>d x. published_index d = Some x \<and> set (index_checkpoints x) = {demo_summary} \<and> whole demo_torch d demo_summary"
proof -
  obtain d where d: "save_checkpoint demo_torch demo_save demo_training None False empty_checkpoints = (d, Inr demo_summary)"
    "published_index d = Some \<lparr>latest_identifier = Some demo_name, index_checkpoints = [demo_summary]\<rparr>"
    using demo_saved by blast
  have "checkpoint_step demo_torch (empty_checkpoints, []) (d, [demo_summary])"
    using saves [OF d(1), of "[]"] d(2) by (simp add: empty_checkpoints_def index_now_def)
  then have "(checkpoint_step demo_torch)\<^sup>*\<^sup>* (empty_checkpoints, []) (d, [demo_summary])" by blast
  from index_keeps_the_best [OF this] d(2) have "whole demo_torch d demo_summary" by auto
  with d(2) show ?thesis by (intro exI [of _ d] exI conjI) auto
qed

end
