(* ===== verification/WorkerExecution.thy ===== *)
theory WorkerExecution
  imports Utf8 Specifications
begin

text \<open>
  One worker process: \<^verbatim>\<open>backend_service/workflow_execution.py\<close>. The polling loop reads a
  sequence of observations of the process, of its files and of the clock, one for each
  iteration, and what it does to the process is the sequence of its events. Parsing the JSON of
  progress records and of reports is a parameter; the bounds on a position are those of
  \<^verbatim>\<open>schemas/training.py\<close> and \<^verbatim>\<open>schemas/dataset_fetch.py\<close>.
\<close>

section \<open>Progress files\<close>

record log_file =
  run_folder :: string
  log_name :: string
  log_link :: bool
  log_bytes :: "byte list option"

record 'r progress =
  progress_position :: int
  progress_phase :: "string option"
  progress_body :: 'r

record ('r, 'o) worker_models =
  training_step_json :: "byte list \<Rightarrow> 'r progress option"
  fetch_progress_json :: "byte list \<Rightarrow> 'r progress option"
  report_json :: "string \<Rightarrow> byte list \<Rightarrow> 'o option"

definition maximum_progress_bytes :: nat where "maximum_progress_bytes = 1048576"
definition maximum_output_bytes :: nat where "maximum_output_bytes = 2097152"
definition maximum_error_bytes :: nat where "maximum_error_bytes = 65536"
definition poll_interval :: real where "poll_interval = 1 / 10"

definition time_limit :: "string \<Rightarrow> real" where
  "time_limit command = (if command = ''fetch_dataset'' then 86400 else 7500)"

definition stall_limit :: "string \<Rightarrow> real option" where
  "stall_limit command = (if command = ''fetch_dataset'' then Some 1800 else None)"

definition stall_phases :: "string set" where "stall_phases = {''resolving'', ''downloading''}"

definition result_models :: "string set" where
  "result_models = {''train'', ''evaluate'', ''export_models'', ''prepare_dataset'', ''fetch_dataset''}"

definition execution_failure :: "string \<Rightarrow> exn" where
  "execution_failure code = Application_Failure code 503"

text \<open>Byte lines end with a line feed, a carriage return or both.\<close>

definition skip_line_feed :: "byte list \<Rightarrow> byte list" where
  "skip_line_feed bs = (if bs \<noteq> [] \<and> hd bs = 10 then tl bs else bs)"

lemma length_skip_line_feed [termination_simp]: "length (skip_line_feed bs) \<le> length bs"
  by (simp add: skip_line_feed_def)

fun byte_lines :: "byte list \<Rightarrow> byte list \<Rightarrow> byte list list" where
  "byte_lines line [] = (if line = [] then [] else [line])"
| "byte_lines line (b # bs) =
     (if b = 10 then line # byte_lines [] bs
      else if b = 13 then line # byte_lines [] (skip_line_feed bs)
      else byte_lines (line @ [b]) bs)"

definition read_training_step :: "(byte list \<Rightarrow> 'r progress option) \<Rightarrow> byte list \<Rightarrow> 'r progress result" where
  "read_training_step json data =
     (case byte_lines [] data of
        [] \<Rightarrow> Inl Value_Error
      | line # lines \<Rightarrow> (case json (last (line # lines)) of
          None \<Rightarrow> Inl Value_Error
        | Some r \<Rightarrow> if 1 \<le> progress_position r \<and> progress_position r \<le> 1000 then Inr r else Inl Value_Error))"

definition read_fetch_progress :: "(byte list \<Rightarrow> 'r progress option) \<Rightarrow> byte list \<Rightarrow> 'r progress result" where
  "read_fetch_progress json data = (case json data of
     None \<Rightarrow> Inl Value_Error
   | Some r \<Rightarrow> if 0 \<le> progress_position r then Inr r else Inl Value_Error)"

record 'r progress_reader =
  file_name :: string
  label_field :: string
  parse :: "byte list \<Rightarrow> 'r progress result"

definition progress_readers :: "('r, 'o) worker_models \<Rightarrow> string \<Rightarrow> 'r progress_reader option" where
  "progress_readers models command =
     (if command = ''train'' then
        Some \<lparr>file_name = ''steps.jsonl'', label_field = ''experiment_identifier'', parse = read_training_step (training_step_json models)\<rparr>
      else if command = ''fetch_dataset'' then
        Some \<lparr>file_name = ''fetch_progress.json'', label_field = ''run_label'', parse = read_fetch_progress (fetch_progress_json models)\<rparr>
      else None)"

definition reader_label :: "'r progress_reader \<Rightarrow> (string \<times> string) list \<Rightarrow> string" where
  "reader_label reader document = (case dict_get document (label_field reader) of None \<Rightarrow> [] | Some v \<Rightarrow> v)"

definition occurs_in :: "string \<Rightarrow> string \<Rightarrow> bool" where
  "occurs_in part s \<longleftrightarrow> list_ex (\<lambda>i. take (length part) (drop i s) = part) [0..<Suc (length s)]"

definition log_path :: "log_file \<Rightarrow> string \<times> string" where
  "log_path f = (run_folder f, log_name f)"

definition candidates :: "'r progress_reader \<Rightarrow> string \<Rightarrow> log_file list \<Rightarrow> log_file list" where
  "candidates reader label files =
     filter (\<lambda>f. log_name f = file_name reader \<and> occurs_in (''_'' @ label @ ''_'') (run_folder f)) files"

definition read_candidate :: "'r progress_reader \<Rightarrow> log_file \<Rightarrow> 'r progress option" where
  "read_candidate reader f =
     (case log_bytes f of
        None \<Rightarrow> None
      | Some data \<Rightarrow>
          if log_link f \<or> maximum_progress_bytes < length data then None
          else case parse reader data of Inl e \<Rightarrow> None | Inr r \<Rightarrow> Some r)"

definition more_advanced :: "'r progress option \<Rightarrow> 'r progress option \<Rightarrow> 'r progress option" where
  "more_advanced latest candidate =
     (case candidate of
        None \<Rightarrow> latest
      | Some c \<Rightarrow> (case latest of None \<Rightarrow> Some c
                   | Some l \<Rightarrow> if progress_position l < progress_position c then Some c else Some l))"

definition latest_progress :: "'r progress_reader \<Rightarrow> string \<Rightarrow> (string \<times> string) list \<Rightarrow> log_file list \<Rightarrow> 'r progress option" where
  "latest_progress reader label before files =
     foldl more_advanced None
       (map (read_candidate reader) (filter (\<lambda>f. log_path f \<notin> set before) (candidates reader label files)))"

definition stall_applies :: "'r progress option \<Rightarrow> bool" where
  "stall_applies r = (case r of None \<Rightarrow> True
     | Some p \<Rightarrow> (case progress_phase p of None \<Rightarrow> False | Some phase \<Rightarrow> phase \<in> stall_phases))"

section \<open>The polling loop\<close>

text \<open>What one iteration sees; \<open>publish_fault\<close> is what the progress callback raises, if it does.\<close>

record poll =
  exit_code :: "int option"
  clock :: real
  output_size :: nat
  error_size :: nat
  log_files :: "log_file list"
  stop_now :: bool
  publish_fault :: "exn option"

datatype 'r worker_event =
    Started
  | Published "'r progress" real
  | Stop_Sent
  | Ended
  | Terminate_Sent
  | Kill_Sent
  | Cleared

record 'r worker_state =
  stop_sent :: bool
  previous_position :: int
  published :: "'r progress option"
  advanced :: real
  events :: "'r worker_event list"

type_synonym ('r, 'a) polling = "('r worker_state, 'a) action"

definition emit :: "'r worker_event \<Rightarrow> ('r, unit) polling" where
  "emit e = act_modify (\<lambda>s. s\<lparr>events := events s @ [e]\<rparr>)"

definition within_allowance :: "string \<Rightarrow> real \<Rightarrow> poll \<Rightarrow> bool" where
  "within_allowance command started p \<longleftrightarrow>
     output_size p \<le> maximum_output_bytes \<and> error_size p \<le> maximum_error_bytes \<and> clock p - started \<le> time_limit command"

definition publish_latest :: "poll \<Rightarrow> 'r progress \<Rightarrow> ('r, unit) polling" where
  "publish_latest p r = act_bind act_get (\<lambda>s.
     if progress_position r = previous_position s then act_return ()
     else case publish_fault p of
       Some e \<Rightarrow> act_raise e
     | None \<Rightarrow> act_bind (emit (Published r (clock p))) (\<lambda>_.
         act_modify (\<lambda>s. s\<lparr>previous_position := progress_position r, published := Some r, advanced := clock p\<rparr>)))"

definition forward_stop :: "poll \<Rightarrow> ('r, unit) polling" where
  "forward_stop p = act_bind act_get (\<lambda>s.
     act_when (stop_now p \<and> \<not> stop_sent s)
       (act_bind (emit Stop_Sent) (\<lambda>_. act_modify (\<lambda>s. s\<lparr>stop_sent := True\<rparr>))))"

definition check_stall :: "string \<Rightarrow> poll \<Rightarrow> ('r, unit) polling" where
  "check_stall command p = act_bind act_get (\<lambda>s.
     case stall_limit command of
       None \<Rightarrow> act_return ()
     | Some limit \<Rightarrow>
         if stall_applies (published s) \<and> limit < clock p - advanced s then act_raise (execution_failure ''workflow_stalled'')
         else act_return ())"

definition poll_step :: "('r, 'o) worker_models \<Rightarrow> string \<Rightarrow> (string \<times> string) list \<Rightarrow> (string \<times> string) list \<Rightarrow> real \<Rightarrow> poll
    \<Rightarrow> ('r, unit) polling" where
  "poll_step models command document before started p =
     act_bind (act_lift (ensure (within_allowance command started p) Value_Error)) (\<lambda>_.
     act_bind (case progress_readers models command of
         None \<Rightarrow> act_return ()
       | Some reader \<Rightarrow> (case latest_progress reader (reader_label reader document) before (log_files p) of
           None \<Rightarrow> act_return ()
         | Some r \<Rightarrow> act_bind (publish_latest p r) (\<lambda>_. forward_stop p))) (\<lambda>_.
     check_stall command p))"

text \<open>A loop that need not end: no result is \<open>None\<close>. Otherwise it is the number of completed polls, the state and the outcome.\<close>

partial_function (option) poll_loop ::
  "(poll \<Rightarrow> ('r, unit) polling) \<Rightarrow> (nat \<Rightarrow> poll) \<Rightarrow> nat \<Rightarrow> 'r worker_state \<Rightarrow> (nat \<times> 'r worker_state \<times> int result) option" where
  "poll_loop body polls n s =
     (case exit_code (polls n) of
        Some code \<Rightarrow> Some (n, s, Inr code)
      | None \<Rightarrow> (case body (polls n) s of
          (t, Inl e) \<Rightarrow> Some (n, t, Inl e)
        | (t, Inr u) \<Rightarrow> poll_loop body polls (Suc n) t))"

section \<open>The whole run\<close>

record worker_world =
  spawned :: bool
  earlier_files :: "log_file list"
  document_written :: bool
  start_clock :: real
  observed :: "nat \<Rightarrow> poll"
  already_ended :: bool
  ends_in_time :: bool
  final_output :: "byte list"

definition validate_result :: "('r, 'o) worker_models \<Rightarrow> string \<Rightarrow> byte list \<Rightarrow> 'o result" where
  "validate_result models command output =
     (if maximum_output_bytes < length output then Inl Value_Error
      else if command \<notin> result_models then Inl Key_Error
      else case report_json models command output of None \<Rightarrow> Inl Value_Error | Some r \<Rightarrow> Inr r)"

definition worker_failure :: "exn \<Rightarrow> exn" where
  "worker_failure e = (if e \<in> {OS_Error, Value_Error} then execution_failure ''workflow_failed'' else e)"

text \<open>The \<^verbatim>\<open>finally\<close> block: a process that still runs is asked to end, and killed after thirty seconds.\<close>

definition end_process :: "worker_world \<Rightarrow> bool \<Rightarrow> 'r worker_event list" where
  "end_process w exited =
     (if exited \<or> already_ended w then [Ended]
      else if ends_in_time w then [Terminate_Sent, Ended]
      else [Terminate_Sent, Kill_Sent, Ended]) @ [Cleared]"

definition initial_state :: "real \<Rightarrow> 'r worker_state" where
  "initial_state now = \<lparr>stop_sent = False, previous_position = -1, published = None, advanced = now, events = [Started]\<rparr>"

definition paths_before :: "('r, 'o) worker_models \<Rightarrow> string \<Rightarrow> (string \<times> string) list \<Rightarrow> log_file list \<Rightarrow> (string \<times> string) list" where
  "paths_before models command document files =
     (case progress_readers models command of None \<Rightarrow> []
      | Some reader \<Rightarrow> map log_path (candidates reader (reader_label reader document) files))"

definition execute_command :: "('r, 'o) worker_models \<Rightarrow> worker_world \<Rightarrow> string \<Rightarrow> (string \<times> string) list
    \<Rightarrow> (nat \<times> 'r worker_event list \<times> (int \<times> 'o) result) option" where
  "execute_command models w command document =
     (if \<not> spawned w then Some (0, [], Inl OS_Error)
      else if \<not> document_written w then
        Some (0, [Started] @ end_process w False, Inl (worker_failure OS_Error))
      else case poll_loop (poll_step models command document (paths_before models command document (earlier_files w)) (start_clock w))
                 (observed w) 0 (initial_state (start_clock w)) of
        None \<Rightarrow> None
      | Some (n, s, Inl e) \<Rightarrow> Some (n, events s @ end_process w False, Inl (worker_failure e))
      | Some (n, s, Inr code) \<Rightarrow>
          Some (n, events s @ end_process w True,
            case validate_result models command (take (maximum_output_bytes + 1) (final_output w)) of
              Inl e \<Rightarrow> Inl (worker_failure e)
            | Inr r \<Rightarrow> Inr (code, r)))"

end
