(* ===== verification/WorkerProperties.thy ===== *)
theory WorkerProperties
  imports WorkerExecution
begin

text \<open>
  A worker run always ends, leaves no process behind and touches its process only for a reason.
  The rule for the polling loop takes an invariant over the number of polls and the state.
\<close>

section \<open>The loop\<close>

lemma poll_loop_rule:
  assumes "poll_loop body polls n s = Some y" and "I n s"
    and "\<And>k u v. I k u \<Longrightarrow> exit_code (polls k) = None \<Longrightarrow> body (polls k) u = (v, Inr ()) \<Longrightarrow> I (Suc k) v"
  shows "case snd (snd y) of Inr code \<Rightarrow> I (fst y) (fst (snd y)) \<and> exit_code (polls (fst y)) = Some code
      | Inl e \<Rightarrow> \<exists>u. I (fst y) u \<and> exit_code (polls (fst y)) = None \<and> body (polls (fst y)) u = (fst (snd y), Inl e)"
  using assms
proof (induction body polls n s y rule: poll_loop.raw_induct [rotated, consumes 1, case_names 1])
  case (1 loop body polls n s y)
  show ?case
  proof (cases "exit_code (polls n)")
    case (Some code)
    with 1(2,3) show ?thesis by auto
  next
    case None
    obtain t r where b: "body (polls n) s = (t, r)" by (cases "body (polls n) s")
    show ?thesis
    proof (cases r)
      case (Inl e)
      with 1(2,3) None b show ?thesis by auto
    next
      case (Inr u)
      with 1(2) None b have "loop body polls (Suc n) t = Some y" by simp
      then show ?thesis using 1(1) [of body polls "Suc n" t y] 1(4) [of n s t] 1(3,4) None b Inr by simp
    qed
  qed
qed

lemma poll_loop_returns:
  assumes stops: "\<And>k u. K \<le> k \<Longrightarrow> exit_code (polls k) = None \<Longrightarrow> \<exists>v e. body (polls k) u = (v, Inl e)"
    and "n \<le> K"
  shows "\<exists>m t r. poll_loop body polls n s = Some (m, t, r) \<and> m \<le> K"
  using assms(2)
proof (induction "K - n" arbitrary: n s)
  case 0
  then show ?case using stops [of n s]
    by (subst poll_loop.simps) (auto split: option.splits prod.splits sum.splits)
next
  case (Suc d)
  then have "\<exists>m t r. poll_loop body polls (Suc n) v = Some (m, t, r) \<and> m \<le> K" for v
    by (intro Suc.hyps(1)) auto
  with Suc.prems show ?case
    by (subst poll_loop.simps) (auto split: option.splits prod.splits sum.splits)
qed

section \<open>What the events explain\<close>

definition publications :: "'r worker_event list \<Rightarrow> ('r progress \<times> real) list" where
  "publications evs = concat (map (\<lambda>e. case e of Published r t \<Rightarrow> [(r, t)] | _ \<Rightarrow> []) evs)"

lemma publications_simps [simp]:
  "publications [] = []"
  "publications (a @ b) = publications a @ publications b"
  "publications (Published r t # a) = (r, t) # publications a"
  "publications (Started # a) = publications a"
  "publications (Stop_Sent # a) = publications a"
  "publications (Ended # a) = publications a"
  "publications (Terminate_Sent # a) = publications a"
  "publications (Kill_Sent # a) = publications a"
  "publications (Cleared # a) = publications a"
  by (simp_all add: publications_def)

text \<open>The state of the loop is what its events say, and each event has its reason.\<close>

definition last_advance :: "real \<Rightarrow> 'r worker_event list \<Rightarrow> real" where
  "last_advance start evs = (if publications evs = [] then start else snd (last (publications evs)))"

definition stops_follow_progress :: "'r worker_event list \<Rightarrow> bool" where
  "stops_follow_progress evs \<longleftrightarrow> (\<forall>pre post. evs = pre @ Stop_Sent # post \<longrightarrow> publications pre \<noteq> [])"

definition fresh_publications :: "'r worker_event list \<Rightarrow> bool" where
  "fresh_publications evs \<longleftrightarrow>
     successively (\<lambda>a b. progress_position (fst a) \<noteq> progress_position (fst b)) (publications evs)"

definition loop_events :: "'r worker_event list \<Rightarrow> bool" where
  "loop_events evs \<longleftrightarrow> (\<exists>rest. evs = Started # rest \<and> set rest \<inter> {Started, Ended, Terminate_Sent, Kill_Sent, Cleared} = {})"

definition explained :: "worker_world \<Rightarrow> nat \<Rightarrow> 'r worker_state \<Rightarrow> bool" where
  "explained w n s \<longleftrightarrow>
     count_list (events s) Stop_Sent = (if stop_sent s then 1 else 0) \<and>
     (stop_sent s \<longrightarrow> (\<exists>k < n. stop_now (observed w k))) \<and>
     stops_follow_progress (events s) \<and> fresh_publications (events s) \<and>
     advanced s = last_advance (start_clock w) (events s) \<and>
     (case published s of
        None \<Rightarrow> publications (events s) = [] \<and> previous_position s = -1
      | Some r \<Rightarrow> publications (events s) \<noteq> [] \<and> fst (last (publications (events s))) = r \<and>
          previous_position s = progress_position r) \<and>
     loop_events (events s)"

lemma stops_follow_snoc:
  "stops_follow_progress (evs @ [e]) \<longleftrightarrow> stops_follow_progress evs \<and> (e = Stop_Sent \<longrightarrow> publications evs \<noteq> [])"
proof -
  have "evs @ [e] = pre @ Stop_Sent # post \<longleftrightarrow>
      post = [] \<and> pre = evs \<and> e = Stop_Sent \<or> (\<exists>mid. post = mid @ [e] \<and> evs = pre @ Stop_Sent # mid)" for pre post
    by (cases post rule: rev_cases) auto
  then show ?thesis unfolding stops_follow_progress_def by metis
qed

lemma fresh_publications_snoc:
  "fresh_publications (evs @ [Published r now]) \<longleftrightarrow> fresh_publications evs \<and>
     (publications evs \<noteq> [] \<longrightarrow> progress_position (fst (last (publications evs))) \<noteq> progress_position r)"
  "fresh_publications (evs @ [Stop_Sent]) \<longleftrightarrow> fresh_publications evs"
  by (auto simp: fresh_publications_def successively_append_iff)

lemma last_advance_snoc:
  "last_advance start (evs @ [Published r now]) = now"
  "last_advance start (evs @ [Stop_Sent]) = last_advance start evs"
  by (auto simp: last_advance_def)

lemma loop_events_snoc:
  "loop_events evs \<Longrightarrow> loop_events (evs @ [Published r now])"
  "loop_events evs \<Longrightarrow> loop_events (evs @ [Stop_Sent])"
  by (auto simp: loop_events_def)

lemmas snoc_simps = stops_follow_snoc fresh_publications_snoc last_advance_snoc loop_events_snoc

lemma explained_initial: "explained w 0 (initial_state (start_clock w))"
  by (simp add: explained_def initial_state_def stops_follow_progress_def fresh_publications_def
      last_advance_def loop_events_def Cons_eq_append_conv)

lemma explained_later: "explained w n s \<Longrightarrow> n \<le> m \<Longrightarrow> explained w m s"
  unfolding explained_def by (meson order_less_le_trans)

lemma publish_explained:
  assumes "explained w n s" and "publish_latest p r s = (t, q)"
  shows "explained w n t" and "q = Inr () \<Longrightarrow> 0 \<le> progress_position r \<Longrightarrow> published t \<noteq> None"
proof -
  have "explained w n t \<and> (q = Inr () \<and> 0 \<le> progress_position r \<longrightarrow> published t \<noteq> None)"
  proof (cases "progress_position r = previous_position s")
    case True
    with assms show ?thesis by (cases "published s") (auto simp: publish_latest_def explained_def)
  next
    case False
    show ?thesis
    proof (cases "publish_fault p")
      case None
      with assms False show ?thesis
        by (cases "published s") (auto simp: publish_latest_def emit_def explained_def snoc_simps)
    qed (use assms False in \<open>auto simp: publish_latest_def\<close>)
  qed
  then show "explained w n t" and "q = Inr () \<Longrightarrow> 0 \<le> progress_position r \<Longrightarrow> published t \<noteq> None" by auto
qed

lemma forward_explained:
  assumes "explained w n s" and "published s \<noteq> None" and "forward_stop (observed w n) s = (t, q)"
  shows "explained w (Suc n) t"
proof (cases "stop_now (observed w n) \<and> \<not> stop_sent s")
  case True
  with assms show ?thesis
    by (auto simp: forward_stop_def act_when_def emit_def explained_def snoc_simps)
next
  case False
  with assms have "t = s" by (auto simp: forward_stop_def act_when_def)
  with assms(1) show ?thesis using explained_later by (metis le_add1 plus_1_eq_Suc add.commute)
qed

section \<open>One poll\<close>

lemma candidate_position:
  assumes "progress_readers models command = Some reader" and "read_candidate reader f = Some r"
  shows "0 \<le> progress_position r"
  using assms
  by (auto simp: progress_readers_def read_candidate_def read_training_step_def read_fetch_progress_def
      split: if_splits option.splits list.splits sum.splits)

lemma latest_position:
  assumes "progress_readers models command = Some reader" and "latest_progress reader label before files = Some r"
  shows "0 \<le> progress_position r"
proof -
  have "foldl more_advanced a cs = Some r \<Longrightarrow> (\<And>c. a = Some c \<Longrightarrow> 0 \<le> progress_position c) \<Longrightarrow>
      (\<And>c. Some c \<in> set cs \<Longrightarrow> 0 \<le> progress_position c) \<Longrightarrow> 0 \<le> progress_position r" for a cs
    by (induction cs arbitrary: a) (auto simp: more_advanced_def split: option.splits if_splits)
  from this [OF assms(2) [unfolded latest_progress_def]] show ?thesis
    using candidate_position [OF assms(1)] by fastforce
qed

lemma poll_step_explained:
  assumes "explained w n s" and "poll_step models command document before (start_clock w) (observed w n) s = (t, q)"
  shows "explained w (Suc n) t"
proof -
  have stall: "check_stall command p u = (v, q) \<Longrightarrow> v = u" for p u v q
    by (auto simp: check_stall_def split: option.splits if_splits)
  note later = explained_later [OF _ le_SucI [OF order_refl], of w n]
  show ?thesis
  proof (cases "within_allowance command (start_clock w) (observed w n)")
    case False
    with assms later show ?thesis by (auto simp: poll_step_def ensure_def)
  next
    case True
    show ?thesis
    proof (cases "\<exists>reader r. progress_readers models command = Some reader \<and>
        latest_progress reader (reader_label reader document) before (log_files (observed w n)) = Some r")
      case False
      with True assms later show ?thesis
        by (auto simp: poll_step_def ensure_def dest!: stall split: option.splits)
    next
      case found: True
      then obtain reader r where r: "progress_readers models command = Some reader"
        "latest_progress reader (reader_label reader document) before (log_files (observed w n)) = Some r" by auto
      obtain u q1 where u: "publish_latest (observed w n) r s = (u, q1)" by fastforce
      note explained_u = publish_explained [OF assms(1) u]
      obtain v q2 where v: "forward_stop (observed w n) u = (v, q2)" by fastforce
      show ?thesis
      proof (cases q1)
        case (Inl e)
        then have "t = u" using True assms(2) r u by (simp add: poll_step_def ensure_def)
        with explained_u(1) later show ?thesis by simp
      next
        case (Inr x)
        then have "explained w (Suc n) v"
          using explained_u latest_position [OF r] v by (intro forward_explained) auto
        moreover have "t = v" using True assms(2) r u v Inr
          by (cases q2) (auto simp: poll_step_def ensure_def dest!: stall)
        ultimately show ?thesis by simp
      qed
    qed
  qed
qed

lemma poll_step_failure:
  assumes "poll_step models command document before start p s = (t, Inl e)"
  shows "e = Value_Error \<or> publish_fault p = Some e \<or>
    e = execution_failure ''workflow_stalled'' \<and> command = ''fetch_dataset'' \<and>
      stall_applies (published t) \<and> 1800 < clock p - advanced t"
proof -
  have stall: "check_stall command p u = (v, Inl e) \<Longrightarrow> e = execution_failure ''workflow_stalled'' \<and>
      command = ''fetch_dataset'' \<and> stall_applies (published v) \<and> 1800 < clock p - advanced v" for u v
    by (auto simp: check_stall_def stall_limit_def split: option.splits if_splits)
  have publish: "publish_latest p r u = (v, Inl e) \<Longrightarrow> publish_fault p = Some e" for r u v
    by (auto simp: publish_latest_def emit_def split: option.splits if_splits)
  have forward: "forward_stop p u \<noteq> (v, Inl e)" for u v
    by (auto simp: forward_stop_def act_when_def emit_def)
  show ?thesis using assms
    by (auto simp del: act_bind_run simp: poll_step_def act_bind_Inl act_bind_Inr forward split: option.splits
        dest!: stall publish)
qed

lemma poll_step_late:
  assumes "time_limit command < clock p - start"
  shows "poll_step models command document before start p s = (s, Inl Value_Error)"
  using assms by (simp add: poll_step_def within_allowance_def ensure_def)

section \<open>The whole run\<close>

lemma poll_loop_explained:
  assumes "poll_loop (poll_step models command document before (start_clock w)) (observed w) 0 (initial_state (start_clock w))
      = Some (n, t, q)"
  shows "explained w (Suc n) t"
    and "q = Inr code \<Longrightarrow> exit_code (observed w n) = Some code"
    and "q = Inl e \<Longrightarrow> \<exists>s. poll_step models command document before (start_clock w) (observed w n) s = (t, Inl e)"
proof -
  have rule: "case snd (snd (n, t, q)) of Inr code \<Rightarrow> explained w (fst (n, t, q)) (fst (snd (n, t, q))) \<and>
        exit_code (observed w (fst (n, t, q))) = Some code
      | Inl e \<Rightarrow> \<exists>u. explained w (fst (n, t, q)) u \<and> exit_code (observed w (fst (n, t, q))) = None \<and>
        poll_step models command document before (start_clock w) (observed w (fst (n, t, q))) u = (fst (snd (n, t, q)), Inl e)"
    by (rule poll_loop_rule [where I = "explained w", OF assms explained_initial]) (rule poll_step_explained)
  show "explained w (Suc n) t"
    using rule poll_step_explained explained_later [of w n t "Suc n"] by (cases q) fastforce+
  show "exit_code (observed w n) = Some code" if "q = Inr code"
    using rule that by simp
  show "\<exists>s. poll_step models command document before (start_clock w) (observed w n) s = (t, Inl e)" if "q = Inl e"
    using rule that by auto
qed

lemma poll_loop_ends:
  assumes "\<And>n. clock (observed w n) + poll_interval \<le> clock (observed w (Suc n))"
    and "start_clock w \<le> clock (observed w 0)" and "10 * time_limit command < real K"
  shows "\<exists>n t q. poll_loop (poll_step models command document before (start_clock w)) (observed w) 0 s = Some (n, t, q) \<and>
    n \<le> K"
proof (rule poll_loop_returns)
  have advances: "start_clock w + n / 10 \<le> clock (observed w n)" for n
  proof (induction n)
    case 0
    with assms(2) show ?case by simp
  next
    case (Suc n)
    with assms(1) [of n] show ?case by (simp add: poll_interval_def add_divide_distrib)
  qed
  fix k u
  assume "K \<le> k"
  then have "real K / 10 \<le> real k / 10" by simp
  with advances [of k] assms(3) have "time_limit command < clock (observed w k) - start_clock w" by linarith
  then show "\<exists>v e. poll_step models command document before (start_clock w) (observed w k) u = (v, Inl e)"
    using poll_step_late by blast
qed simp

text \<open>The events of a run that started its process: the loop, what it took to end it, and the clearing.\<close>

lemma run_events:
  assumes "execute_command models w command document = Some (n, evs, r)" and "spawned w"
  obtains t exited where "explained w (Suc n) t" and "evs = events t @ end_process w exited"
    and "exited \<Longrightarrow> \<exists>code. exit_code (observed w n) = Some code"
    and "\<And>code out. r = Inr (code, out) \<Longrightarrow> exited \<and> exit_code (observed w n) = Some code \<and>
      report_json models command (final_output w) = Some out \<and> length (final_output w) \<le> maximum_output_bytes"
    and "r = Inl (execution_failure ''workflow_stalled'') \<Longrightarrow> publish_fault (observed w n) \<noteq> Some (execution_failure ''workflow_stalled'')
      \<Longrightarrow> command = ''fetch_dataset'' \<and> stall_applies (published t) \<and> 1800 < clock (observed w n) - advanced t"
proof (cases "document_written w")
  case False
  show ?thesis
    by (rule that [of "initial_state (start_clock w)" False])
      (use assms False explained_later [OF explained_initial] in
        \<open>auto simp: execute_command_def initial_state_def worker_failure_def execution_failure_def\<close>)
next
  case True
  let ?loop = "poll_loop (poll_step models command document (paths_before models command document (earlier_files w)) (start_clock w))
      (observed w) 0 (initial_state (start_clock w))"
  from assms True obtain t q where loop: "?loop = Some (n, t, q)"
    by (auto simp: execute_command_def split: option.splits sum.splits)
  note facts = poll_loop_explained [OF loop]
  show ?thesis
  proof (cases q)
    case (Inl e)
    with loop assms True have "evs = events t @ end_process w False" "r = Inl (worker_failure e)"
      by (simp_all add: execute_command_def)
    then show ?thesis using facts(1) facts(3) [OF Inl] poll_step_failure
      by (intro that [of t False]) (auto simp: worker_failure_def execution_failure_def split: if_splits; blast)+
  next
    case (Inr code)
    with loop assms True show ?thesis using facts(1) facts(2) [OF Inr]
      by (intro that [of t True])
        (auto simp: execute_command_def validate_result_def worker_failure_def execution_failure_def
          split: if_splits option.splits)
  qed
qed

lemma end_process_shape:
  obtains asked where "end_process w exited = asked @ [Ended, Cleared]" "set asked \<subseteq> {Terminate_Sent, Kill_Sent}"
    "exited \<Longrightarrow> asked = []"
proof
  let ?asked = "if exited \<or> already_ended w then [] else if ends_in_time w then [Terminate_Sent] else [Terminate_Sent, Kill_Sent]"
  show "end_process w exited = ?asked @ [Ended, Cleared]" "set ?asked \<subseteq> {Terminate_Sent, Kill_Sent}"
    "exited \<Longrightarrow> ?asked = []" by (simp_all add: end_process_def)
qed

lemma loop_then_end:
  assumes "loop_events (evs :: 'a worker_event list)"
  shows "\<exists>mid. evs @ end_process w exited = Started # mid @ [Ended, Cleared] \<and> Started \<notin> set mid \<and> Ended \<notin> set mid \<and> Cleared \<notin> set mid"
proof -
  obtain rest where "evs = Started # rest" "set rest \<inter> {Started, Ended, Terminate_Sent, Kill_Sent, Cleared} = {}"
    using assms by (auto simp: loop_events_def)
  moreover obtain asked :: "'a worker_event list"
    where "end_process w exited = asked @ [Ended, Cleared]" "set asked \<subseteq> {Terminate_Sent, Kill_Sent}"
    by (rule end_process_shape)
  ultimately show ?thesis by (intro exI [of _ "rest @ asked"]) auto
qed

lemma split_before_end: "a @ b = pre @ x # post \<Longrightarrow> x \<notin> set b \<Longrightarrow> \<exists>mid. a = pre @ x # mid"
  by (auto simp: append_eq_append_conv2 append_eq_Cons_conv Cons_eq_append_conv)

definition poll_bound :: "string \<Rightarrow> nat" where
  "poll_bound command = (if command = ''fetch_dataset'' then 864001 else 75001)"

section \<open>Properties\<close>

text \<open>
  C34: a worker run always ends. When a pause of the loop takes at least its interval on the
  clock, \<^verbatim>\<open>execute_command\<close> returns or raises after a bounded number of polls. If it started a
  process, that process has ended before it returns, and the caller was told last of all that
  there is no process any more.
\<close>

theorem worker_always_reaped:
  assumes "\<And>n. clock (observed w n) + poll_interval \<le> clock (observed w (Suc n))" and "start_clock w \<le> clock (observed w 0)"
  shows "\<exists>n evs r. execute_command models w command document = Some (n, evs, r) \<and> n \<le> poll_bound command \<and>
    (if spawned w
     then \<exists>mid. evs = Started # mid @ [Ended, Cleared] \<and> Started \<notin> set mid \<and> Ended \<notin> set mid \<and> Cleared \<notin> set mid
     else evs = [] \<and> r = Inl OS_Error)"
proof -
  have "10 * time_limit command < real (poll_bound command)"
    by (simp add: time_limit_def poll_bound_def)
  from poll_loop_ends [OF assms this, where models = models and document = document
      and before = "paths_before models command document (earlier_files w)" and s = "initial_state (start_clock w)"]
  have "\<exists>n evs r. execute_command models w command document = Some (n, evs, r) \<and> n \<le> poll_bound command"
    by (cases "spawned w"; cases "document_written w") (auto simp: execute_command_def split: sum.split)
  then obtain n evs r where run: "execute_command models w command document = Some (n, evs, r)" "n \<le> poll_bound command"
    by blast
  show ?thesis
  proof (cases "spawned w")
    case True
    from run(1) True obtain t exited where "explained w (Suc n) t" "evs = events t @ end_process w exited"
      by (rule run_events)
    then show ?thesis using run True loop_then_end [of "events t" w exited] by (auto simp: explained_def)
  qed (use run in \<open>auto simp: execute_command_def\<close>)
qed

text \<open>
  C35: a worker run touches its process only for a reason. The safe-stop signal goes out at most
  once, after a progress record was published and because a stop was asked for; no record is
  published twice in a row. A result is the report of a process that ended by itself with that
  exit code, within the output bound, and that was never told to end. A stall is reported only
  for a fetch that, in a network phase or before its first record, published nothing for more
  than half an hour.
\<close>

theorem worker_interventions_justified:
  assumes "execute_command models w command document = Some (n, evs, r)"
  shows "count_list evs Stop_Sent \<le> 1 \<and>
    (\<forall>pre post. evs = pre @ Stop_Sent # post \<longrightarrow> publications pre \<noteq> [] \<and> (\<exists>k \<le> n. stop_now (observed w k))) \<and>
    successively (\<lambda>a b. progress_position (fst a) \<noteq> progress_position (fst b)) (publications evs) \<and>
    (\<forall>code out. r = Inr (code, out) \<longrightarrow> Terminate_Sent \<notin> set evs \<and> Kill_Sent \<notin> set evs \<and>
       exit_code (observed w n) = Some code \<and> report_json models command (final_output w) = Some out \<and>
       length (final_output w) \<le> maximum_output_bytes) \<and>
    (r = Inl (execution_failure ''workflow_stalled'') \<and> publish_fault (observed w n) \<noteq> Some (execution_failure ''workflow_stalled'') \<longrightarrow>
       command = ''fetch_dataset'' \<and> 1800 < clock (observed w n) - last_advance (start_clock w) evs \<and>
       (publications evs \<noteq> [] \<longrightarrow> progress_phase (fst (last (publications evs))) \<in> Some ` stall_phases))"
proof (cases "spawned w")
  case False
  then show ?thesis using assms
    by (auto simp: execute_command_def execution_failure_def)
next
  case True
  obtain t exited where run: "explained w (Suc n) t" "evs = events t @ end_process w exited"
    "\<And>code out. r = Inr (code, out) \<Longrightarrow> exited \<and> exit_code (observed w n) = Some code \<and>
      report_json models command (final_output w) = Some out \<and> length (final_output w) \<le> maximum_output_bytes"
    "r = Inl (execution_failure ''workflow_stalled'') \<Longrightarrow> publish_fault (observed w n) \<noteq> Some (execution_failure ''workflow_stalled'')
      \<Longrightarrow> command = ''fetch_dataset'' \<and> stall_applies (published t) \<and> 1800 < clock (observed w n) - advanced t"
    using run_events [OF assms True] by metis
  have quiet: "publications (end_process w exited) = []" "Stop_Sent \<notin> set (end_process w exited)"
    by (simp_all add: end_process_def)
  have stops: "publications pre \<noteq> [] \<and> Stop_Sent \<in> set (events t)" if "evs = pre @ Stop_Sent # post" for pre post
  proof -
    have follow: "stops_follow_progress (events t)" using run(1) by (simp add: explained_def)
    have "events t @ end_process w exited = pre @ Stop_Sent # post" using that run(2) by simp
    then obtain mid where mid: "events t = pre @ Stop_Sent # mid"
      using split_before_end [OF _ quiet(2)] by blast
    have "publications pre \<noteq> []" by (rule follow [unfolded stops_follow_progress_def, rule_format, OF mid])
    moreover have "Stop_Sent \<in> set (events t)" unfolding mid by simp
    ultimately show ?thesis by simp
  qed
  have events: "count_list (events t) Stop_Sent = (if stop_sent t then 1 else 0)"
      "stop_sent t \<Longrightarrow> \<exists>k < Suc n. stop_now (observed w k)" "fresh_publications (events t)"
      "advanced t = last_advance (start_clock w) (events t)" "loop_events (events t)"
      "published t = None \<Longrightarrow> publications (events t) = []"
      "\<And>r. published t = Some r \<Longrightarrow> fst (last (publications (events t))) = r"
    using run(1) unfolding explained_def by (auto split: option.splits)
  have same: "publications evs = publications (events t)" "count_list evs Stop_Sent = count_list (events t) Stop_Sent"
    using run(2) quiet by (auto simp: count_list_0_iff)
  have asked_for: "\<exists>k \<le> n. stop_now (observed w k)" if "Stop_Sent \<in> set (events t)"
    using that events(1,2) by (metis count_list_0_iff less_Suc_eq_le)
  have report: "Terminate_Sent \<notin> set evs \<and> Kill_Sent \<notin> set evs" if "r = Inr (code, out)" for code out
    using run(3) [OF that] events(5) run(2) by (auto simp: loop_events_def end_process_def)
  have stalled: "progress_phase (fst (last (publications evs))) \<in> Some ` stall_phases"
    if "stall_applies (published t)" "publications evs \<noteq> []"
    using that events(6,7) same(1) by (cases "published t") (auto simp: stall_applies_def split: option.splits)
  have since: "last_advance (start_clock w) evs = advanced t"
    using events(4) same(1) by (simp add: last_advance_def)
  show ?thesis
    using events(1) same stops asked_for report run(3) stalled run(4) since events(3)
    unfolding fresh_publications_def [symmetric] by (simp add: fresh_publications_def; blast)
qed

section \<open>A concrete run\<close>

text \<open>A fetch that reports progress at its second poll, is asked to stop at the third and ends at the fourth.\<close>

definition example_models :: "(unit, unit) worker_models" where
  "example_models = \<lparr>training_step_json = (\<lambda>_. None),
     fetch_progress_json = (\<lambda>b. Some \<lparr>progress_position = int (length b), progress_phase = Some ''downloading'', progress_body = ()\<rparr>),
     report_json = (\<lambda>c b. Some ())\<rparr>"

definition example_poll :: "nat \<Rightarrow> poll" where
  "example_poll n = \<lparr>exit_code = (if n = 3 then Some 0 else None), clock = real n, output_size = 0, error_size = 0,
     log_files = (if n = 0 then [] else [\<lparr>run_folder = ''1_a_x'', log_name = ''fetch_progress.json'', log_link = False, log_bytes = Some [0]\<rparr>]),
     stop_now = (n = 2), publish_fault = None\<rparr>"

definition example_world :: worker_world where
  "example_world = \<lparr>spawned = True, earlier_files = [], document_written = True, start_clock = 0, observed = example_poll,
     already_ended = False, ends_in_time = True, final_output = [0]\<rparr>"

definition example_progress :: "unit progress" where
  "example_progress = \<lparr>progress_position = 1, progress_phase = Some ''downloading'', progress_body = ()\<rparr>"

lemma example_poll_simps:
  "exit_code (example_poll n) = (if n = 3 then Some 0 else None)" "clock (example_poll n) = real n"
  "output_size (example_poll n) = 0" "error_size (example_poll n) = 0" "stop_now (example_poll n) = (n = 2)"
  "publish_fault (example_poll n) = None"
  by (simp_all add: example_poll_def)

lemma example_latest:
  "latest_progress \<lparr>file_name = ''fetch_progress.json'', label_field = ''run_label'',
     parse = read_fetch_progress (fetch_progress_json example_models)\<rparr> ''a'' [] (log_files (example_poll n)) =
   (if n = 0 then None else Some example_progress)"
  by (simp add: latest_progress_def candidates_def example_poll_def log_path_def read_candidate_def read_fetch_progress_def
      example_models_def maximum_progress_bytes_def more_advanced_def occurs_in_def example_progress_def upt_rec)

lemma example_step:
  "poll_step example_models ''fetch_dataset'' [(''run_label'', ''a'')] [] 0 (example_poll n) s =
     (if \<not> within_allowance ''fetch_dataset'' 0 (example_poll n) then (s, Inl Value_Error)
      else act_bind (if n = 0 then act_return () else act_bind (publish_latest (example_poll n) example_progress)
        (\<lambda>_. forward_stop (example_poll n))) (\<lambda>_. check_stall ''fetch_dataset'' (example_poll n)) s)"
  using example_latest [of n]
  by (simp add: poll_step_def progress_readers_def reader_label_def ensure_def)

lemma example_run:
  "execute_command example_models example_world ''fetch_dataset'' [(''run_label'', ''a'')] =
     Some (3, [Started, Published example_progress 1, Stop_Sent, Ended, Cleared], Inr (0, ()))"
proof -
  note body = example_step within_allowance_def check_stall_def publish_latest_def forward_stop_def act_when_def emit_def
    stall_limit_def time_limit_def maximum_output_bytes_def maximum_error_bytes_def
  have progress_fields: "progress_position example_progress = 1" "progress_phase example_progress = Some ''downloading''"
    by (simp_all add: example_progress_def)
  have "poll_loop (poll_step example_models ''fetch_dataset'' [(''run_label'', ''a'')] [] 0) example_poll 0 (initial_state 0) =
    Some (3, \<lparr>stop_sent = True, previous_position = 1, published = Some example_progress, advanced = 1,
      events = [Started, Published example_progress 1, Stop_Sent]\<rparr>, Inr 0)"
    apply (subst poll_loop.simps)
    apply (simp add: body example_poll_simps initial_state_def stall_applies_def)
    apply (subst poll_loop.simps)
    apply (simp add: body example_poll_simps stall_applies_def stall_phases_def progress_fields)
    apply (subst poll_loop.simps)
    apply (simp add: body example_poll_simps stall_applies_def stall_phases_def progress_fields)
    apply (subst poll_loop.simps)
    apply (simp add: example_poll_simps numeral_3_eq_3)
    done
  then show ?thesis
    by (simp add: execute_command_def example_world_def paths_before_def progress_readers_def candidates_def
        end_process_def validate_result_def result_models_def maximum_output_bytes_def example_models_def)
qed

theorem worker_always_reaped_witness:
  "\<exists>n evs r. execute_command example_models example_world ''fetch_dataset'' [(''run_label'', ''a'')] = Some (n, evs, r) \<and>
    n \<le> 864001 \<and> (\<exists>mid. evs = Started # mid @ [Ended, Cleared])"
  using worker_always_reaped [of example_world example_models "''fetch_dataset''" "[(''run_label'', ''a'')]"]
  by (fastforce simp: example_world_def example_poll_def poll_interval_def poll_bound_def)

theorem worker_interventions_justified_witness:
  "count_list [Started, Published example_progress 1, Stop_Sent, Ended, Cleared] Stop_Sent \<le> 1 \<and>
   (\<exists>k \<le> 3. stop_now (observed example_world k)) \<and> exit_code (observed example_world 3) = Some 0"
  using worker_interventions_justified [OF example_run] by (fastforce simp: append_eq_Cons_conv Cons_eq_append_conv)

end
