(* ===== verification/AddressPolicy.thy ===== *)
theory AddressPolicy
  imports Files
begin

text \<open>
  The address rules of downloads: \<^verbatim>\<open>backend_service/dataset_sources/address_policy.py\<close>, with the
  parts of the standard library it decides with: \<^verbatim>\<open>ipaddress\<close> (text and classes of addresses)
  and \<^verbatim>\<open>urllib.parse.urlsplit\<close>, both of Python 3.12. A URL is a string of bytes; every other
  character is refused like the bytes outside printable ASCII.
\<close>

unbundle bit_operations_syntax

section \<open>Addresses and networks\<close>

datatype ip_address = IPv4 "32 word" | IPv6 "128 word"

type_synonym 'a network = "'a word \<times> nat"

definition in_network :: "'a :: len word \<Rightarrow> 'a network \<Rightarrow> bool" where
  "in_network a net = (let (base, prefix) = net; host = size a - prefix in drop_bit host a = drop_bit host base)"

definition v4 :: "nat \<Rightarrow> nat \<Rightarrow> nat \<Rightarrow> nat \<Rightarrow> 32 word" where
  "v4 a b c d = of_nat (((a * 256 + b) * 256 + c) * 256 + d)"

definition v6_prefix :: "nat \<Rightarrow> nat \<Rightarrow> nat \<Rightarrow> 128 word" where
  "v6_prefix a b c = push_bit 80 (of_nat ((a * 65536 + b) * 65536 + c))"

definition v4_private :: "32 network list" where
  "v4_private = [(v4 0 0 0 0, 8), (v4 10 0 0 0, 8), (v4 127 0 0 0, 8), (v4 169 254 0 0, 16), (v4 172 16 0 0, 12),
     (v4 192 0 0 0, 24), (v4 192 0 0 170, 31), (v4 192 0 2 0, 24), (v4 192 168 0 0, 16), (v4 198 18 0 0, 15),
     (v4 198 51 100 0, 24), (v4 203 0 113 0, 24), (v4 240 0 0 0, 4), (v4 255 255 255 255, 32)]"

definition v4_private_exceptions :: "32 network list" where
  "v4_private_exceptions = [(v4 192 0 0 9, 32), (v4 192 0 0 10, 32)]"

definition shared_address_space :: "32 network" where
  "shared_address_space = (v4 100 64 0 0, 10)"

definition v6_private :: "128 network list" where
  "v6_private = [(1, 128), (0, 128), (push_bit 32 0xFFFF, 96), (v6_prefix 0x64 0xFF9B 1, 48), (v6_prefix 0x100 0 0, 64),
     (v6_prefix 0x2001 0 0, 23), (v6_prefix 0x2001 0xDB8 0, 32), (v6_prefix 0x2002 0 0, 16), (v6_prefix 0xFC00 0 0, 7),
     (v6_prefix 0xFE80 0 0, 10)]"

definition v6_private_exceptions :: "128 network list" where
  "v6_private_exceptions = [(v6_prefix 0x2001 1 0 OR 1, 128), (v6_prefix 0x2001 1 0 OR 2, 128), (v6_prefix 0x2001 3 0, 32),
     (v6_prefix 0x2001 4 0x112, 48), (v6_prefix 0x2001 0x20 0, 28), (v6_prefix 0x2001 0x30 0, 28)]"

definition v6_reserved :: "128 network list" where
  "v6_reserved = [(0, 8), (v6_prefix 0x100 0 0, 8), (v6_prefix 0x200 0 0, 7), (v6_prefix 0x400 0 0, 6), (v6_prefix 0x800 0 0, 5),
     (v6_prefix 0x1000 0 0, 4), (v6_prefix 0x4000 0 0, 3), (v6_prefix 0x6000 0 0, 3), (v6_prefix 0x8000 0 0, 3),
     (v6_prefix 0xA000 0 0, 3), (v6_prefix 0xC000 0 0, 3), (v6_prefix 0xE000 0 0, 4), (v6_prefix 0xF000 0 0, 5),
     (v6_prefix 0xF800 0 0, 6), (v6_prefix 0xFE00 0 0, 9)]"

definition ipv4_mapped :: "128 word \<Rightarrow> 32 word option" where
  "ipv4_mapped a = (if drop_bit 32 a = 0xFFFF then Some (ucast a) else None)"

definition sixtofour :: "128 word \<Rightarrow> 32 word option" where
  "sixtofour a = (if drop_bit 112 a = 0x2002 then Some (ucast (drop_bit 80 a)) else None)"

definition teredo_client :: "128 word \<Rightarrow> 32 word option" where
  "teredo_client a = (if drop_bit 96 a = 0x20010000 then Some (ucast (NOT a)) else None)"

definition v4_is_private :: "32 word \<Rightarrow> bool" where
  "v4_is_private a \<longleftrightarrow> list_ex (in_network a) v4_private \<and> \<not> list_ex (in_network a) v4_private_exceptions"

fun is_private :: "ip_address \<Rightarrow> bool" where
  "is_private (IPv4 a) = v4_is_private a"
| "is_private (IPv6 a) = (case ipv4_mapped a of
     Some v \<Rightarrow> v4_is_private v
   | None \<Rightarrow> list_ex (in_network a) v6_private \<and> \<not> list_ex (in_network a) v6_private_exceptions)"

fun is_global :: "ip_address \<Rightarrow> bool" where
  "is_global (IPv4 a) = (\<not> in_network a (v4 100 64 0 0, 10) \<and> \<not> is_private (IPv4 a))"
| "is_global (IPv6 a) = (\<not> is_private (IPv6 a))"

fun is_loopback :: "ip_address \<Rightarrow> bool" where
  "is_loopback (IPv4 a) = in_network a (v4 127 0 0 0, 8)"
| "is_loopback (IPv6 a) = (a = 1)"

fun is_multicast :: "ip_address \<Rightarrow> bool" where
  "is_multicast (IPv4 a) = in_network a (v4 224 0 0 0, 4)"
| "is_multicast (IPv6 a) = in_network a (v6_prefix 0xFF00 0 0, 8)"

fun is_reserved :: "ip_address \<Rightarrow> bool" where
  "is_reserved (IPv4 a) = in_network a (v4 240 0 0 0, 4)"
| "is_reserved (IPv6 a) = list_ex (in_network a) v6_reserved"

fun is_unspecified :: "ip_address \<Rightarrow> bool" where
  "is_unspecified (IPv4 a) = (a = 0)"
| "is_unspecified (IPv6 a) = (a = 0)"

fun is_link_local :: "ip_address \<Rightarrow> bool" where
  "is_link_local (IPv4 a) = in_network a (v4 169 254 0 0, 16)"
| "is_link_local (IPv6 a) = in_network a (v6_prefix 0xFE80 0 0, 10)"

section \<open>Checking an address\<close>

record address_policy =
  allow_loopback :: bool
  allowed_ports :: "nat set"

definition production_policy :: address_policy where
  "production_policy = \<lparr>allow_loopback = False, allowed_ports = {443}\<rparr>"

definition address_failure :: "string \<Rightarrow> exn" where
  "address_failure code = Application_Failure code 400"

fun embedded_ipv4 :: "ip_address \<Rightarrow> ip_address" where
  "embedded_ipv4 (IPv4 a) = IPv4 a"
| "embedded_ipv4 (IPv6 a) =
     (case ipv4_mapped a of Some v \<Rightarrow> IPv4 v
      | None \<Rightarrow> (case sixtofour a of Some v \<Rightarrow> IPv4 v
      | None \<Rightarrow> (case teredo_client a of Some v \<Rightarrow> IPv4 v | None \<Rightarrow> IPv6 a)))"

definition address_blocked :: "ip_address \<Rightarrow> bool" where
  "address_blocked c \<longleftrightarrow>
     is_multicast c \<or> is_reserved c \<or> is_unspecified c \<or> is_link_local c \<or> is_private c \<or>
     (case c of IPv4 a \<Rightarrow> in_network a shared_address_space | IPv6 a \<Rightarrow> False)"

definition check_address :: "ip_address \<Rightarrow> address_policy \<Rightarrow> unit result" where
  "check_address address policy =
     (let candidate = embedded_ipv4 address in
      if is_loopback candidate then
        (if allow_loopback policy then Inr () else Inl (address_failure ''download_address_blocked''))
      else if address_blocked candidate \<or> \<not> is_global candidate then Inl (address_failure ''download_address_blocked'')
      else Inr ())"

section \<open>Address literals\<close>

definition digits_value :: "nat \<Rightarrow> nat list \<Rightarrow> nat" where
  "digits_value base ds = foldl (\<lambda>n d. n * base + d) 0 ds"

definition hex_digit :: "char \<Rightarrow> nat option" where
  "hex_digit c = (if is_digit_char c then Some (of_char c - 48)
     else if char_between (CHR ''a'') (CHR ''f'') c then Some (of_char c - 87)
     else if char_between (CHR ''A'') (CHR ''F'') c then Some (of_char c - 55) else None)"

definition decimal_value :: "string \<Rightarrow> nat" where
  "decimal_value s = digits_value 10 (map (\<lambda>c. of_char c - 48) s)"

definition all_digits :: "string \<Rightarrow> bool" where
  "all_digits s \<longleftrightarrow> s \<noteq> [] \<and> list_all is_digit_char s"

definition parse_octet :: "string \<Rightarrow> nat option" where
  "parse_octet s = (if \<not> all_digits s \<or> 3 < length s \<or> (s \<noteq> ''0'' \<and> hd s = CHR ''0'') \<or> 255 < decimal_value s
     then None else Some (decimal_value s))"

definition parse_ipv4 :: "string \<Rightarrow> nat option" where
  "parse_ipv4 s = (case map parse_octet (split_on (CHR ''.'') s) of
     [Some a, Some b, Some c, Some d] \<Rightarrow> Some (digits_value 256 [a, b, c, d])
   | _ \<Rightarrow> None)"

definition parse_hextet :: "string \<Rightarrow> nat option" where
  "parse_hextet s = (if s = [] \<or> 4 < length s \<or> None \<in> set (map hex_digit s) then None
     else Some (digits_value 16 (map (\<lambda>c. the (hex_digit c)) s)))"

text \<open>
  A part is \<open>None\<close> when its text is empty; the inner option is the value of a hextet. \<open>his\<close> and
  \<open>los\<close> stand before and after a run of \<open>skipped\<close> zeros.
\<close>

definition hextet_parts :: "string \<Rightarrow> nat option option list option" where
  "hextet_parts s =
     (let texts = split_on (CHR '':'') s; part = (\<lambda>t. if t = [] then None else Some (parse_hextet t)) in
      if length texts < 3 then None
      else if CHR ''.'' \<in> set (last texts) then
        map_option (\<lambda>v. map part (butlast texts) @ [Some (Some (v div 65536)), Some (Some (v mod 65536))]) (parse_ipv4 (last texts))
      else Some (map part texts))"

definition join_hextets :: "nat option option list \<Rightarrow> nat \<Rightarrow> nat option option list \<Rightarrow> nat option" where
  "join_hextets his skipped los =
     (let parts = his @ replicate skipped (Some (Some 0)) @ los in
      if list_all (\<lambda>p. p \<noteq> None \<and> p \<noteq> Some None) parts then Some (digits_value 65536 (map (\<lambda>p. the (the p)) parts)) else None)"

definition parse_hextets :: "nat option option list \<Rightarrow> nat option" where
  "parse_hextets parts =
     (let n = length parts in
      if 9 < n then None
      else case filter (\<lambda>i. parts ! i = None) [1..<n - 1] of
        [] \<Rightarrow> if n \<noteq> 8 then None else join_hextets parts 0 []
      | [i] \<Rightarrow>
          (let hi = (if hd parts = None then i - 1 else i); lo = (if last parts = None then n - i - 2 else n - i - 1) in
           if (hd parts = None \<and> hi \<noteq> 0) \<or> (last parts = None \<and> lo \<noteq> 0) \<or> 8 < hi + lo + 1 then None
           else join_hextets (take hi parts) (8 - (hi + lo)) (drop (n - lo) parts))
      | _ \<Rightarrow> None)"

definition scope_free :: "string \<Rightarrow> string option" where
  "scope_free s = (case split_on (CHR ''%'') s of [a] \<Rightarrow> Some a | [a, z] \<Rightarrow> if z = [] then None else Some a | _ \<Rightarrow> None)"

definition parse_ipv6 :: "string \<Rightarrow> nat option" where
  "parse_ipv6 s = (if CHR ''/'' \<in> set s then None else
     case scope_free s of None \<Rightarrow> None | Some a \<Rightarrow> (case hextet_parts a of None \<Rightarrow> None | Some parts \<Rightarrow> parse_hextets parts))"

definition parse_address :: "string \<Rightarrow> ip_address option" where
  "parse_address s = (case parse_ipv4 s of
     Some n \<Rightarrow> Some (IPv4 (of_nat n))
   | None \<Rightarrow> map_option (\<lambda>n. IPv6 (of_nat n)) (parse_ipv6 s))"

definition parse_literal :: "string \<Rightarrow> string \<Rightarrow> ip_address result" where
  "parse_literal code s = (case parse_address s of None \<Rightarrow> Inl (address_failure code) | Some a \<Rightarrow> Inr a)"

section \<open>URLs\<close>

record url_parts =
  scheme :: string
  netloc :: string
  url_path :: string
  url_query :: string

definition lower_char :: "char \<Rightarrow> char" where
  "lower_char c = (if is_upper_char c then char_of (of_char c + 32 :: nat) else c)"

definition lower_text :: "string \<Rightarrow> string" where
  "lower_text s = map lower_char s"

definition scheme_char :: "char \<Rightarrow> bool" where
  "scheme_char c \<longleftrightarrow> is_lower_char c \<or> is_upper_char c \<or> is_digit_char c \<or> c \<in> set ''+-.''"

text \<open>\<^verbatim>\<open>str.partition\<close>: before and after the first separator, if there is one.\<close>

definition cut_at :: "char \<Rightarrow> string \<Rightarrow> string \<times> string option" where
  "cut_at c s = (let a = takeWhile (\<lambda>x. x \<noteq> c) s; rest = drop (length a) s in (a, if rest = [] then None else Some (tl rest)))"

definition split_scheme :: "string \<Rightarrow> string \<times> string" where
  "split_scheme url = (case cut_at (CHR '':'') url of
     (a, Some rest) \<Rightarrow> if a \<noteq> [] \<and> (is_lower_char (hd a) \<or> is_upper_char (hd a)) \<and> list_all scheme_char a
                     then (lower_text a, rest) else ([], url)
   | (a, None) \<Rightarrow> ([], url))"

definition host_and_port :: "string \<Rightarrow> string \<times> string option" where
  "host_and_port loc =
     (let info = last (split_on (CHR ''@'') loc) in
      case cut_at (CHR ''['') info of
        (front, Some bracketed) \<Rightarrow>
          (let (host, after) = cut_at (CHR '']'') bracketed; port = snd (cut_at (CHR '':'') (case after of None \<Rightarrow> [] | Some p \<Rightarrow> p))
           in (host, if port = Some [] then None else port))
      | (_, None) \<Rightarrow> (let (host, port) = cut_at (CHR '':'') info in (host, if port = Some [] then None else port)))"

text \<open>
  The checks of a bracketed host: nothing before the bracket, a port or nothing after it, and an
  IPv6 literal inside. A future address \<^verbatim>\<open>[v...]\<close> passes \<^verbatim>\<open>urlsplit\<close> and is refused as a literal.
\<close>

definition brackets_valid :: "string \<Rightarrow> bool" where
  "brackets_valid loc \<longleftrightarrow>
     (if CHR ''['' \<notin> set loc \<and> CHR '']'' \<notin> set loc then True
      else if CHR ''['' \<notin> set loc \<or> CHR '']'' \<notin> set loc then False
      else case cut_at (CHR ''['') (last (split_on (CHR ''@'') loc)) of
        (front, None) \<Rightarrow> False
      | (front, Some bracketed) \<Rightarrow>
          (let (host, after) = cut_at (CHR '']'') bracketed; rest = (case after of None \<Rightarrow> [] | Some p \<Rightarrow> p) in
           front = [] \<and> (rest = [] \<or> hd rest = CHR '':'') \<and> parse_ipv4 host = None \<and> parse_ipv6 host \<noteq> None))"

definition split_url :: "string \<Rightarrow> url_parts option" where
  "split_url url =
     (let (sch, rest) = split_scheme url;
          (loc, rest') = (if take 2 rest = ''//'' then
             let l = takeWhile (\<lambda>c. c \<notin> set ''/?#'') (drop 2 rest) in (l, drop (2 + length l) rest) else ([], rest));
          (path, query) = cut_at (CHR ''?'') rest' in
      if brackets_valid loc
      then Some \<lparr>scheme = sch, netloc = loc, url_path = path, url_query = (case query of None \<Rightarrow> [] | Some q \<Rightarrow> q)\<rparr>
      else None)"

definition url_hostname :: "url_parts \<Rightarrow> string" where
  "url_hostname u = (case cut_at (CHR ''%'') (fst (host_and_port (netloc u))) of
     (a, None) \<Rightarrow> lower_text a | (a, Some zone) \<Rightarrow> lower_text a @ CHR ''%'' # zone)"

definition url_port :: "url_parts \<Rightarrow> nat option option" where
  "url_port u = (case snd (host_and_port (netloc u)) of
     None \<Rightarrow> Some None
   | Some p \<Rightarrow> if all_digits p \<and> decimal_value p \<le> 65535 then Some (Some (decimal_value p)) else None)"

record valid_url =
  full_url :: string
  url_host :: string
  checked_port :: nat
  path_and_query :: string

definition host_character :: "char \<Rightarrow> bool" where
  "host_character c \<longleftrightarrow> is_lower_char c \<or> is_upper_char c \<or> is_digit_char c \<or> c = CHR ''.'' \<or> c = CHR ''-''"

definition validate_url :: "string \<Rightarrow> address_policy \<Rightarrow> valid_url result" where
  "validate_url url policy =
     (let refuse = Inl (address_failure ''download_address'') in
      if 4096 < length url \<or> CHR ''#'' \<in> set url then refuse
      else if list_ex (\<lambda>c. \<not> char_between (CHR ''!'') (CHR ''~'') c) url then refuse
      else case split_url url of None \<Rightarrow> refuse | Some u \<Rightarrow> (case url_port u of None \<Rightarrow> refuse | Some explicit \<Rightarrow>
        (let host = url_hostname u in
         if scheme u \<noteq> ''https'' \<or> host = [] \<or> CHR ''@'' \<in> set (netloc u) then refuse
         else andThen (if take 1 (netloc u) = ''['' then andThen (parse_literal ''download_address'' host) (\<lambda>_. Inr ())
                       else ensure (list_all host_character host) (address_failure ''download_address'')) (\<lambda>_.
           let port = (case explicit of None \<Rightarrow> 443 | Some p \<Rightarrow> p) in
           if port \<notin> allowed_ports policy then refuse
           else Inr \<lparr>full_url = url, url_host = host, checked_port = port,
             path_and_query = (if url_path u = [] then ''/'' else url_path u) @ (if url_query u = [] then [] else CHR ''?'' # url_query u)\<rparr>))))"

section \<open>Resolving a host\<close>

text \<open>
  \<open>resolver\<close> answers the texts of the records of \<^verbatim>\<open>getaddrinfo\<close>, or fails. The checked addresses
  are kept as the addresses their texts denote.
\<close>

fun check_records :: "address_policy \<Rightarrow> (string \<times> ip_address) list \<Rightarrow> string list \<Rightarrow> (string \<times> ip_address) list result" where
  "check_records policy found [] = Inr found"
| "check_records policy found (t # ts) =
     andThen (parse_literal ''download_address_blocked'' t) (\<lambda>a.
     andThen (check_address a policy) (\<lambda>_.
     check_records policy (if t \<in> fst ` set found then found else found @ [(t, a)]) ts))"

definition resolve_and_check :: "(string \<Rightarrow> string list option) \<Rightarrow> string \<Rightarrow> address_policy \<Rightarrow> ip_address list result" where
  "resolve_and_check resolver host policy =
     (case parse_address host of
        Some a \<Rightarrow> andThen (check_address a policy) (\<lambda>_. Inr [a])
      | None \<Rightarrow> (case resolver host of
          None \<Rightarrow> Inl (address_failure ''download_address_unresolved'')
        | Some records \<Rightarrow> andThen (check_records policy [] records) (\<lambda>found.
            if found = [] then Inl (address_failure ''download_address_unresolved'') else Inr (map snd found))))"

end
