(* ===== verification/Transport.thy ===== *)
theory Transport
  imports AddressPolicy
begin

text \<open>
  The download transport, \<^verbatim>\<open>backend_service/dataset_sources/transport.py\<close>: every request goes to
  a checked address, redirects are followed one by one, and each hop is validated anew. The
  state is the list of requests put on the wire; name resolution and replies may change with
  every request. Joining a redirect to its base URL (\<^verbatim>\<open>urllib.parse.urljoin\<close>) is a parameter,
  as its result is validated like any other URL.
\<close>

record http_request =
  target_address :: ip_address
  target_host :: string
  target_port :: nat
  http_method :: string
  http_path :: string
  http_headers :: "(string \<times> string) list"

record 'b http_reply =
  reply_status :: nat
  reply_headers :: "(string \<times> string) list"
  reply_body :: 'b

record 'b internet =
  name_service :: "nat \<Rightarrow> string \<Rightarrow> string list option"
  respond :: "nat \<Rightarrow> http_request \<Rightarrow> 'b http_reply option"
  url_join :: "string \<Rightarrow> string \<Rightarrow> string"

type_synonym 'a wired = "(http_request list, 'a) action"

definition transport_failure :: "string \<Rightarrow> exn" where
  "transport_failure code = Application_Failure code 502"

definition redirect_statuses :: "nat set" where "redirect_statuses = {301, 302, 303, 307, 308}"
definition maximum_location_length :: nat where "maximum_location_length = 4096"
definition maximum_redirects :: nat where "maximum_redirects = 5"
definition user_agent :: string where "user_agent = ''stegolab-dataset-fetch/0.1''"

definition reserved_headers :: "string set" where
  "reserved_headers = {''host'', ''authorization'', ''user-agent'', ''accept-encoding'', ''range'', ''if-range''}"

definition host_header :: "valid_url \<Rightarrow> string" where
  "host_header target =
     (let host = (if CHR '':'' \<in> set (url_host target) then CHR ''['' # url_host target @ [CHR '']''] else url_host target) in
      if checked_port target = 443 then host else host @ CHR '':'' # decimal (checked_port target))"

record transport_options =
  extra_headers :: "(string \<times> string) list"
  byte_range :: "(nat \<times> nat option) option"
  if_range :: "string option"

definition range_header :: "nat \<times> nat option \<Rightarrow> string" where
  "range_header r = ''bytes='' @ decimal (fst r) @ CHR ''-'' # (case snd r of None \<Rightarrow> [] | Some e \<Rightarrow> decimal e)"

definition set_header :: "string \<Rightarrow> string option \<Rightarrow> (string \<times> string) list \<Rightarrow> (string \<times> string) list" where
  "set_header name content headers = (case content of None \<Rightarrow> headers | Some v \<Rightarrow> AList.update name v headers)"

definition request_headers :: "(string \<times> string) list \<Rightarrow> transport_options \<Rightarrow> valid_url \<Rightarrow> (string \<times> string) list" where
  "request_headers authorization options target =
     set_header ''Authorization'' (dict_get authorization (url_host target))
    (set_header ''If-Range'' (if_range options)
    (set_header ''Range'' (map_option range_header (byte_range options))
    (AList.update ''Accept-Encoding'' ''identity''
    (AList.update ''User-Agent'' user_agent
    (AList.update ''Host'' (host_header target)
      (filter (\<lambda>(name, v). lower_text name \<notin> reserved_headers) (extra_headers options)))))))"

definition send :: "'b internet \<Rightarrow> (string \<times> string) list \<Rightarrow> string \<Rightarrow> transport_options \<Rightarrow> valid_url \<Rightarrow> ip_address
    \<Rightarrow> 'b http_reply wired" where
  "send net authorization verb options target address =
     (let request = \<lparr>target_address = address, target_host = url_host target, target_port = checked_port target,
        http_method = verb, http_path = path_and_query target,
        http_headers = request_headers authorization options target\<rparr> in
      act_bind act_get (\<lambda>sent. act_bind (act_modify (\<lambda>w. w @ [request])) (\<lambda>_.
        case respond net (length sent) request of
          None \<Rightarrow> act_raise (transport_failure ''download_connection'')
        | Some reply \<Rightarrow> act_return reply)))"

text \<open>\<^verbatim>\<open>getheader\<close> joins repeated headers, the dictionary of a response keeps the last of them.\<close>

fun join_texts :: "string list \<Rightarrow> string" where
  "join_texts [] = []"
| "join_texts [s] = s"
| "join_texts (s # t # ts) = s @ '', '' @ join_texts (t # ts)"

definition get_header :: "string \<Rightarrow> (string \<times> string) list \<Rightarrow> string option" where
  "get_header name headers = (case map snd (filter (\<lambda>(n, v). lower_text n = name) headers) of
     [] \<Rightarrow> None | v # vs \<Rightarrow> Some (join_texts (v # vs)))"

record 'b transport_response =
  response_status :: nat
  response_headers :: "(string \<times> string) list"
  final_url :: string
  response_body :: 'b

definition response_of :: "string \<Rightarrow> 'b http_reply \<Rightarrow> 'b transport_response" where
  "response_of url reply = \<lparr>response_status = reply_status reply,
     response_headers = fold (\<lambda>(n, v). AList.update (lower_text n) v) (reply_headers reply) [],
     final_url = url, response_body = reply_body reply\<rparr>"

fun open_hops :: "nat \<Rightarrow> 'b internet \<Rightarrow> address_policy \<Rightarrow> (string \<times> string) list \<Rightarrow> string \<Rightarrow> transport_options \<Rightarrow> string
    \<Rightarrow> 'b transport_response wired" where
  "open_hops 0 net policy authorization verb options url = act_raise (transport_failure ''download_redirect_limit'')"
| "open_hops (Suc hops) net policy authorization verb options url =
     act_bind (act_lift (validate_url url policy)) (\<lambda>target.
     act_bind act_get (\<lambda>sent.
     act_bind (act_lift (resolve_and_check (name_service net (length sent)) (url_host target) policy)) (\<lambda>addresses.
     act_bind (send net authorization verb options target (hd addresses)) (\<lambda>reply.
     if reply_status reply \<notin> redirect_statuses then act_return (response_of url reply)
     else case get_header ''location'' (reply_headers reply) of
       None \<Rightarrow> act_raise (address_failure ''download_address'')
     | Some location \<Rightarrow>
         if location = [] \<or> maximum_location_length < length location then act_raise (address_failure ''download_address'')
         else open_hops hops net policy authorization verb options (url_join net url location)))))"

definition transport_open :: "'b internet \<Rightarrow> address_policy \<Rightarrow> (string \<times> string) list \<Rightarrow> string \<Rightarrow> transport_options \<Rightarrow> string
    \<Rightarrow> 'b transport_response wired" where
  "transport_open net policy authorization verb options url =
     open_hops (maximum_redirects + 1) net policy authorization verb options url"

end
