(* ===== verification/Downloads.thy ===== *)
theory Downloads
  imports Transport Specifications
begin

text \<open>
  One resumable download, \<^verbatim>\<open>backend_service/dataset_sources/transfer.py\<close>, over the transport of
  \<open>Transport\<close>. The state is the partial file, the requests sent and the progress reports made.
  SHA-256 is a parameter; a fault of each file operation, the clock and the answers of the stop
  check are inputs.
\<close>

definition stream_chunk_bytes :: nat where "stream_chunk_bytes = 1048576"
definition progress_interval_bytes :: nat where "progress_interval_bytes = 4 * 1048576"
definition progress_interval_seconds :: real where "progress_interval_seconds = 1 / 2"

definition transfer_failure :: "string \<Rightarrow> exn" where
  "transfer_failure code = Application_Failure code (if code = ''download_too_large'' then 400 else 502)"

record remote_asset =
  asset_url :: string
  expected_size :: "nat option"
  expected_sha256 :: "string option"
  etag :: "string option"
  resumable :: bool

record download_outcome =
  outcome_size :: nat
  outcome_sha256 :: string
  resumed_from :: nat

datatype body_end = Body_Complete | Body_Timeout | Body_Broken

type_synonym body = "byte list list \<times> body_end"

record download_state =
  part_file :: "byte list option"
  wire :: "http_request list"
  progress_reports :: "(nat \<times> nat option) list"

type_synonym 'a downloading = "(download_state, 'a) action"

text \<open>\<open>chunk_fault n\<close> is the number of bytes of chunk \<open>n\<close> written before the write fails.\<close>

record download_context =
  open_fault :: bool
  truncate_fault :: bool
  read_fault :: bool
  chunk_fault :: "nat \<Rightarrow> nat option"
  close_fault :: bool
  reports_progress :: bool
  start_time :: real
  chunk_time :: "nat \<Rightarrow> real"
  stop_after :: "nat \<Rightarrow> bool"

section \<open>The partial file\<close>

definition part_size :: "download_state \<Rightarrow> nat" where
  "part_size s = (case part_file s of None \<Rightarrow> 0 | Some b \<Rightarrow> length b)"

definition open_for_append :: "download_context \<Rightarrow> nat downloading" where
  "open_for_append env = (if open_fault env then act_raise OS_Error
     else act_bind (act_modify (\<lambda>s. s\<lparr>part_file := Some (case part_file s of None \<Rightarrow> [] | Some b \<Rightarrow> b)\<rparr>)) (\<lambda>_.
       act_bind act_get (\<lambda>s. act_return (part_size s))))"

definition append_part :: "nat option \<Rightarrow> byte list \<Rightarrow> unit downloading" where
  "append_part short chunk =
     (let put = (\<lambda>bytes. act_modify (\<lambda>s. s\<lparr>part_file := map_option (\<lambda>b. b @ bytes) (part_file s)\<rparr>)) in
      case short of
        None \<Rightarrow> put chunk
      | Some n \<Rightarrow> act_bind (put (take n chunk)) (\<lambda>_. act_raise OS_Error))"

definition truncate_part :: "download_context \<Rightarrow> unit downloading" where
  "truncate_part env = (if truncate_fault env then act_raise OS_Error
     else act_modify (\<lambda>s. s\<lparr>part_file := Some []\<rparr>))"

text \<open>\<open>limit\<close> bytes in pieces of at most one chunk, from position \<open>at\<close> on.\<close>

function read_pieces :: "nat \<Rightarrow> nat \<Rightarrow> byte list \<Rightarrow> byte list list" where
  "read_pieces limit pos content =
     (if limit \<le> pos then []
      else let piece = take (min stream_chunk_bytes (limit - pos)) (drop pos content) in
        piece # read_pieces limit (pos + stream_chunk_bytes) content)"
  by pat_completeness auto
termination by (relation "measure (\<lambda>(limit, pos, content). limit - pos)") (auto simp: stream_chunk_bytes_def)

declare read_pieces.simps [simp del]

definition iter_existing :: "download_context \<Rightarrow> nat \<Rightarrow> byte list list downloading" where
  "iter_existing env limit = act_bind act_get (\<lambda>s.
     if read_fault env then act_raise OS_Error
     else act_return (read_pieces limit 0 (case part_file s of None \<Rightarrow> [] | Some b \<Rightarrow> b)))"

definition close_after :: "download_context \<Rightarrow> 'a downloading \<Rightarrow> 'a downloading" where
  "close_after env m s = (case m s of (t, r) \<Rightarrow> (t, if close_fault env then Inl OS_Error else r))"

section \<open>The response\<close>

text \<open>Python converts at most 4300 digits to an integer, and raises \<^verbatim>\<open>ValueError\<close> beyond.\<close>

definition int_of_digits :: "string \<Rightarrow> nat result" where
  "int_of_digits s = (if 4300 < length s then Inl Value_Error else Inr (decimal_value s))"

definition is_space :: "char \<Rightarrow> bool" where
  "is_space c \<longleftrightarrow> c \<in> {CHR '' '', CHR 0x09, CHR 0x0A, CHR 0x0B, CHR 0x0C, CHR 0x0D, CHR 0x1C, CHR 0x1D, CHR 0x1E, CHR 0x1F, CHR 0x85, CHR 0xA0}"

definition strip_text :: "string \<Rightarrow> string" where
  "strip_text s = rev (dropWhile is_space (rev (dropWhile is_space s)))"

definition header_text :: "string \<Rightarrow> body transport_response \<Rightarrow> string" where
  "header_text name response = (case dict_get (response_headers response) name of None \<Rightarrow> [] | Some v \<Rightarrow> v)"

definition range_start :: "body transport_response \<Rightarrow> nat option result" where
  "range_start response =
     (let (unit, span) = cut_at (CHR '' '') (header_text ''content-range'' response);
          start = fst (cut_at (CHR ''-'') (case span of None \<Rightarrow> [] | Some t \<Rightarrow> t)) in
      if unit = ''bytes'' \<and> all_digits start then andThen (int_of_digits start) (\<lambda>n. Inr (Some n)) else Inr None)"

definition accept_response :: "download_context \<Rightarrow> body transport_response \<Rightarrow> nat \<Rightarrow> nat downloading" where
  "accept_response env response offset =
     (if response_status response = 206 \<and> offset \<noteq> 0 then
        act_bind (act_lift (range_start response)) (\<lambda>start.
          if start = Some offset then act_return offset else act_raise (transfer_failure ''download_status''))
      else if response_status response = 200 then
        act_bind (act_when (offset \<noteq> 0) (truncate_part env)) (\<lambda>_. act_return 0)
      else act_raise (transfer_failure ''download_status''))"

definition content_total :: "remote_asset \<Rightarrow> body transport_response \<Rightarrow> nat \<Rightarrow> nat option result" where
  "content_total asset response offset =
     (let text = strip_text (header_text ''content-length'' response) in
      if all_digits text then andThen (int_of_digits text) (\<lambda>n. Inr (Some (n + offset))) else Inr (expected_size asset))"

section \<open>Receiving\<close>

record reception =
  received :: nat
  hashed :: "byte list"
  reported_bytes :: nat
  reported_time :: real

definition report_progress :: "nat \<Rightarrow> nat option \<Rightarrow> unit downloading" where
  "report_progress bytes whole_size = act_modify (\<lambda>s. s\<lparr>progress_reports := progress_reports s @ [(bytes, whole_size)]\<rparr>)"

definition progress_due :: "download_context \<Rightarrow> nat \<Rightarrow> reception \<Rightarrow> bool" where
  "progress_due env n g \<longleftrightarrow> reports_progress env \<and>
     (progress_interval_bytes \<le> received g - reported_bytes g \<or> progress_interval_seconds \<le> chunk_time env n - reported_time g)"

fun receive_chunks :: "download_context \<Rightarrow> nat \<Rightarrow> nat option \<Rightarrow> body_end \<Rightarrow> nat \<Rightarrow> byte list list \<Rightarrow> reception \<Rightarrow> reception downloading" where
  "receive_chunks env maximum whole_size final n [] g =
     (case final of
        Body_Complete \<Rightarrow> act_return g
      | Body_Timeout \<Rightarrow> act_raise (transport_failure ''download_stalled'')
      | Body_Broken \<Rightarrow> act_raise (transport_failure ''download_connection''))"
| "receive_chunks env maximum whole_size final n (chunk # chunks) g =
     (if chunk = [] then act_return g
      else let g1 = g\<lparr>received := received g + length chunk\<rparr> in
        if maximum < received g1 then act_raise (transfer_failure ''download_too_large'')
        else let g2 = g1\<lparr>hashed := hashed g @ chunk\<rparr> in
          act_bind (append_part (chunk_fault env n) chunk) (\<lambda>_.
          act_bind (act_when (progress_due env n g2) (report_progress (received g2) whole_size)) (\<lambda>_.
          if stop_after env n then act_raise Download_Stopped
          else receive_chunks env maximum whole_size final (Suc n) chunks
            (if progress_due env n g2 then g2\<lparr>reported_bytes := received g2, reported_time := chunk_time env n\<rparr> else g2))))"

definition on_wire :: "(http_request list, 'a) action \<Rightarrow> 'a downloading" where
  "on_wire m s = (case m (wire s) of (w, r) \<Rightarrow> (s\<lparr>wire := w\<rparr>, r))"

definition start_offset :: "download_context \<Rightarrow> remote_asset \<Rightarrow> nat \<Rightarrow> nat downloading" where
  "start_offset env asset offset =
     (if offset \<noteq> 0 \<and> \<not> resumable asset then act_bind (truncate_part env) (\<lambda>_. act_return 0) else act_return offset)"

definition resume_options :: "remote_asset \<Rightarrow> nat \<Rightarrow> transport_options" where
  "resume_options asset offset = \<lparr>extra_headers = [], byte_range = (if offset \<noteq> 0 then Some (offset, None) else None),
     if_range = (if offset \<noteq> 0 then etag asset else None)\<rparr>"

record transfer_setting =
  digest :: "byte list \<Rightarrow> string"
  network :: "body internet"
  policy :: address_policy
  credentials :: "(string \<times> string) list"
  maximum_bytes :: nat

definition stream_body :: "download_context \<Rightarrow> transfer_setting \<Rightarrow> remote_asset \<Rightarrow> nat
    \<Rightarrow> (nat \<times> nat option \<times> reception) downloading" where
  "stream_body env setting asset offset0 =
     act_bind (start_offset env asset offset0) (\<lambda>offset1.
     act_bind (on_wire (transport_open (network setting) (policy setting) (credentials setting) ''GET''
        (resume_options asset offset1) (asset_url asset))) (\<lambda>response.
     act_bind (accept_response env response offset1) (\<lambda>offset.
     act_bind (iter_existing env offset) (\<lambda>pieces.
     act_bind (act_lift (content_total asset response offset)) (\<lambda>whole_size.
     act_bind (act_lift (ensure (case whole_size of None \<Rightarrow> True | Some t \<Rightarrow> t \<le> maximum_bytes setting)
        (transfer_failure ''download_too_large''))) (\<lambda>_.
     act_bind (receive_chunks env (maximum_bytes setting) whole_size (snd (response_body response)) 0 (fst (response_body response))
        \<lparr>received = offset, hashed = concat pieces, reported_bytes = offset, reported_time = start_time env\<rparr>) (\<lambda>g.
     act_bind (act_when (reports_progress env \<and> received g \<noteq> reported_bytes g) (report_progress (received g) whole_size)) (\<lambda>_.
     act_return (offset, whole_size, g)))))))))"

definition verify_download :: "transfer_setting \<Rightarrow> remote_asset \<Rightarrow> nat \<times> nat option \<times> reception \<Rightarrow> download_outcome result" where
  "verify_download setting asset result =
     (let (offset, whole_size, g) = result; checksum = digest setting (hashed g) in
      if (\<exists>n \<in> set_option whole_size \<union> set_option (expected_size asset). n \<noteq> received g)
        then Inl (transfer_failure ''download_size_mismatch'')
      else if (case expected_sha256 asset of None \<Rightarrow> False | Some h \<Rightarrow> checksum \<noteq> lower_text h)
        then Inl (transfer_failure ''download_checksum_mismatch'')
      else Inr \<lparr>outcome_size = received g, outcome_sha256 = checksum, resumed_from = offset\<rparr>)"

definition download_asset :: "download_context \<Rightarrow> transfer_setting \<Rightarrow> remote_asset \<Rightarrow> download_outcome downloading" where
  "download_asset env setting asset =
     act_bind (open_for_append env) (\<lambda>offset.
     act_bind (close_after env (stream_body env setting asset offset)) (\<lambda>result.
     act_lift (verify_download setting asset result)))"

end
