(* ===== verification/AddressRanges.thy ===== *)
theory AddressRanges
  imports AddressPolicy
begin

text \<open>
  The address rules in numbers: a network is an interval, an accepted IPv4 address lies outside
  the intervals listed below, and an accepted IPv6 address carries such an IPv4 address, lies in
  \<^verbatim>\<open>2000::/3\<close> or is a site-local one.
\<close>

named_theorems network_intervals

definition in_range :: "nat \<Rightarrow> nat \<times> nat \<Rightarrow> bool" where
  "in_range n r \<longleftrightarrow> fst r \<le> n \<and> n < snd r"

lemma div_interval: "0 < d \<Longrightarrow> x div d = m \<longleftrightarrow> m * d \<le> x \<and> x < m * d + d" for x d m :: nat
  by (metis add.commute div_nat_eqI dividend_less_div_times mult.commute mult_Suc_right times_div_less_eq_dividend)

lemma in_network_interval:
  fixes a base :: "'a :: len word"
  assumes "2 ^ (LENGTH('a) - p) dvd unat base"
  shows "in_network a (base, p) \<longleftrightarrow> unat base \<le> unat a \<and> unat a < unat base + 2 ^ (LENGTH('a) - p)"
proof -
  let ?k = "LENGTH('a) - p"
  obtain m where m: "unat base = 2 ^ ?k * m" using assms by blast
  have div: "unat (drop_bit ?k w) = unat w div 2 ^ ?k" for w :: "'a word"
    unfolding unat_drop_bit_eq by (rule drop_bit_eq_div)
  have "in_network a (base, p) \<longleftrightarrow> unat (drop_bit ?k a) = unat (drop_bit ?k base)"
    by (simp only: in_network_def Let_def case_prod_conv word_size word_unat_eq_iff)
  also have "\<dots> \<longleftrightarrow> unat a div 2 ^ ?k = m"
    unfolding div m by simp
  also have "\<dots> \<longleftrightarrow> m * 2 ^ ?k \<le> unat a \<and> unat a < m * 2 ^ ?k + 2 ^ ?k"
    by (rule div_interval) simp
  finally show ?thesis using m by (simp add: mult.commute)
qed

lemma network_all: "in_network a (base, 0) \<longleftrightarrow> True" if "base = 0"
  using that by (simp add: in_network_def word_size drop_bit_eq_div)

lemma v4_networks [network_intervals]:
  "in_network a (v4 0 0 0 0, 8) \<longleftrightarrow> in_range (unat a) (0, 16777216)"
  "in_network a (v4 10 0 0 0, 8) \<longleftrightarrow> in_range (unat a) (167772160, 184549376)"
  "in_network a (v4 127 0 0 0, 8) \<longleftrightarrow> in_range (unat a) (2130706432, 2147483648)"
  "in_network a (v4 169 254 0 0, 16) \<longleftrightarrow> in_range (unat a) (2851995648, 2852061184)"
  "in_network a (v4 172 16 0 0, 12) \<longleftrightarrow> in_range (unat a) (2886729728, 2887778304)"
  "in_network a (v4 192 0 0 0, 24) \<longleftrightarrow> in_range (unat a) (3221225472, 3221225728)"
  "in_network a (v4 192 0 0 170, 31) \<longleftrightarrow> in_range (unat a) (3221225642, 3221225644)"
  "in_network a (v4 192 0 2 0, 24) \<longleftrightarrow> in_range (unat a) (3221225984, 3221226240)"
  "in_network a (v4 192 168 0 0, 16) \<longleftrightarrow> in_range (unat a) (3232235520, 3232301056)"
  "in_network a (v4 198 18 0 0, 15) \<longleftrightarrow> in_range (unat a) (3323068416, 3323199488)"
  "in_network a (v4 198 51 100 0, 24) \<longleftrightarrow> in_range (unat a) (3325256704, 3325256960)"
  "in_network a (v4 203 0 113 0, 24) \<longleftrightarrow> in_range (unat a) (3405803776, 3405804032)"
  "in_network a (v4 240 0 0 0, 4) \<longleftrightarrow> in_range (unat a) (4026531840, 4294967296)"
  "in_network a (v4 100 64 0 0, 10) \<longleftrightarrow> in_range (unat a) (1681915904, 1686110208)"
  "in_network a (v4 224 0 0 0, 4) \<longleftrightarrow> in_range (unat a) (3758096384, 4026531840)"
  by (subst in_network_interval; simp add: v4_def unsigned_of_nat take_bit_eq_mod in_range_def)+

lemma v4_hosts [network_intervals]:
  "in_network a (v4 255 255 255 255, 32) \<longleftrightarrow> unat a = 4294967295"
  "in_network a (v4 192 0 0 9, 32) \<longleftrightarrow> unat a = 3221225481"
  "in_network a (v4 192 0 0 10, 32) \<longleftrightarrow> unat a = 3221225482"
  by (subst in_network_interval; simp add: v4_def unsigned_of_nat take_bit_eq_mod; arith)+

section \<open>Accepted IPv4 addresses\<close>

text \<open>
  This host, private, shared, loopback, link-local, protocol, documentation and benchmark
  ranges, and from \<^verbatim>\<open>224.0.0.0\<close> on multicast and reserved addresses. The two anycast
  addresses \<^verbatim>\<open>192.0.0.9\<close> and \<^verbatim>\<open>192.0.0.10\<close> are public.
\<close>

definition special_ranges :: "(nat \<times> nat) list" where
  "special_ranges = [(0, 16777216), (167772160, 184549376), (1681915904, 1686110208), (2130706432, 2147483648),
     (2851995648, 2852061184), (2886729728, 2887778304), (3221225472, 3221225481), (3221225483, 3221225728),
     (3221225984, 3221226240), (3232235520, 3232301056), (3323068416, 3323199488), (3325256704, 3325256960),
     (3405803776, 3405804032), (3758096384, 4294967296)]"

definition public_ipv4 :: "32 word \<Rightarrow> bool" where
  "public_ipv4 a \<longleftrightarrow> \<not> list_ex (in_range (unat a)) special_ranges"

lemma unat32_less: "unat (a :: 32 word) < 4294967296"
  using unsigned_less [of a] by simp

lemma v4_is_private_iff:
  "v4_is_private a \<longleftrightarrow> list_ex (in_range (unat a)) [(0, 16777216), (167772160, 184549376), (2130706432, 2147483648),
     (2851995648, 2852061184), (2886729728, 2887778304), (3221225472, 3221225481), (3221225483, 3221225728),
     (3221225984, 3221226240), (3232235520, 3232301056), (3323068416, 3323199488), (3325256704, 3325256960),
     (3405803776, 3405804032), (4026531840, 4294967296)]"
proof -
  let ?n = "unat a"
  have split: "in_range n (3221225472, 3221225728) \<and> n \<noteq> 3221225481 \<and> n \<noteq> 3221225482 \<longleftrightarrow>
      in_range n (3221225472, 3221225481) \<or> in_range n (3221225483, 3221225728)" for n
    unfolding in_range_def fst_conv snd_conv by arith
  have parts: "in_range n (3221225642, 3221225644) \<Longrightarrow> in_range n (3221225483, 3221225728)"
    "n = 4294967295 \<Longrightarrow> in_range n (4026531840, 4294967296)" for n
    by (auto simp: in_range_def)
  show ?thesis
  proof (cases "?n = 3221225481 \<or> ?n = 3221225482")
    case True
    then show ?thesis
      by (elim disjE) (simp_all add: v4_is_private_def v4_private_exceptions_def network_intervals in_range_def)
  next
    case False
    then show ?thesis using split [of ?n] parts [of ?n]
      unfolding v4_is_private_def v4_private_def v4_private_exceptions_def list_ex_Nil_iff list_ex_Cons_iff network_intervals
      by blast
  qed
qed

lemma check_production:
  "check_address a production_policy = Inr () \<longleftrightarrow>
     (let c = embedded_ipv4 a in \<not> is_loopback c \<and> \<not> address_blocked c \<and> is_global c)"
  by (simp add: check_address_def production_policy_def Let_def)

lemma check_ipv4: "check_address (IPv4 a) production_policy = Inr () \<longleftrightarrow> public_ipv4 a"
proof -
  let ?n = "unat a"
  have zero: "a = 0 \<Longrightarrow> in_range ?n (0, 16777216)" by (simp add: in_range_def)
  have top: "in_range n (3758096384, 4294967296) \<longleftrightarrow> in_range n (3758096384, 4026531840) \<or> in_range n (4026531840, 4294967296)" for n
    by (auto simp: in_range_def)
  show ?thesis
    unfolding check_production Let_def address_blocked_def shared_address_space_def public_ipv4_def special_ranges_def
      embedded_ipv4.simps is_loopback.simps is_multicast.simps is_reserved.simps is_unspecified.simps is_global.simps
      is_link_local.simps is_private.simps ip_address.case v4_is_private_iff list_ex_Nil_iff list_ex_Cons_iff network_intervals
    using zero top [of ?n] by blast
qed

section \<open>Accepted IPv6 addresses\<close>

lemma v6_prefix_eq: "v6_prefix a 0 0 = of_nat (a * 5192296858534827628530496329220096)"
  by (simp add: v6_prefix_def push_bit_eq_mult)

lemma v6_networks [network_intervals]:
  "in_network a (0, 8) \<longleftrightarrow> in_range (unat a) (0, 1329227995784915872903807060280344576)"
  "in_network a (v6_prefix 0x100 0 0, 8) \<longleftrightarrow> in_range (unat a) (1329227995784915872903807060280344576, 2658455991569831745807614120560689152)"
  "in_network a (v6_prefix 0x200 0 0, 7) \<longleftrightarrow> in_range (unat a) (2658455991569831745807614120560689152, 5316911983139663491615228241121378304)"
  "in_network a (v6_prefix 0x400 0 0, 6) \<longleftrightarrow> in_range (unat a) (5316911983139663491615228241121378304, 10633823966279326983230456482242756608)"
  "in_network a (v6_prefix 0x800 0 0, 5) \<longleftrightarrow> in_range (unat a) (10633823966279326983230456482242756608, 21267647932558653966460912964485513216)"
  "in_network a (v6_prefix 0x1000 0 0, 4) \<longleftrightarrow> in_range (unat a) (21267647932558653966460912964485513216, 42535295865117307932921825928971026432)"
  "in_network a (v6_prefix 0x4000 0 0, 3) \<longleftrightarrow> in_range (unat a) (85070591730234615865843651857942052864, 127605887595351923798765477786913079296)"
  "in_network a (v6_prefix 0x6000 0 0, 3) \<longleftrightarrow> in_range (unat a) (127605887595351923798765477786913079296, 170141183460469231731687303715884105728)"
  "in_network a (v6_prefix 0x8000 0 0, 3) \<longleftrightarrow> in_range (unat a) (170141183460469231731687303715884105728, 212676479325586539664609129644855132160)"
  "in_network a (v6_prefix 0xA000 0 0, 3) \<longleftrightarrow> in_range (unat a) (212676479325586539664609129644855132160, 255211775190703847597530955573826158592)"
  "in_network a (v6_prefix 0xC000 0 0, 3) \<longleftrightarrow> in_range (unat a) (255211775190703847597530955573826158592, 297747071055821155530452781502797185024)"
  "in_network a (v6_prefix 0xE000 0 0, 4) \<longleftrightarrow> in_range (unat a) (297747071055821155530452781502797185024, 319014718988379809496913694467282698240)"
  "in_network a (v6_prefix 0xF000 0 0, 5) \<longleftrightarrow> in_range (unat a) (319014718988379809496913694467282698240, 329648542954659136480144150949525454848)"
  "in_network a (v6_prefix 0xF800 0 0, 6) \<longleftrightarrow> in_range (unat a) (329648542954659136480144150949525454848, 334965454937798799971759379190646833152)"
  "in_network a (v6_prefix 0xFE00 0 0, 9) \<longleftrightarrow> in_range (unat a) (337623910929368631717566993311207522304, 338288524927261089654018896841347694592)"
  "in_network a (v6_prefix 0xFC00 0 0, 7) \<longleftrightarrow> in_range (unat a) (334965454937798799971759379190646833152, 337623910929368631717566993311207522304)"
  "in_network a (v6_prefix 0xFE80 0 0, 10) \<longleftrightarrow> in_range (unat a) (338288524927261089654018896841347694592, 338620831926207318622244848606417780736)"
  "in_network a (v6_prefix 0xFF00 0 0, 8) \<longleftrightarrow> in_range (unat a) (338953138925153547590470800371487866880, 340282366920938463463374607431768211456)"
  "in_network a (v6_prefix 0xFEC0 0 0, 10) \<longleftrightarrow> in_range (unat a) (338620831926207318622244848606417780736, 338953138925153547590470800371487866880)"
  by (subst in_network_interval; simp add: v6_prefix_eq unsigned_of_nat take_bit_eq_mod in_range_def del: of_nat_mult)+

text \<open>A wide word put together from a high and a low part.\<close>

lemma high_part:
  assumes "LENGTH('l) \<le> k" and "k \<le> 128"
  shows "drop_bit k (push_bit k h OR ucast (l :: 'l :: len word)) = take_bit (128 - k) (h :: 128 word)"
  using assms by (intro bit_word_eqI) (auto simp: bit_simps dest: bit_imp_le_length)

lemma low_part:
  assumes "LENGTH('l) \<le> k" and "LENGTH('l) \<le> 128"
  shows "ucast (push_bit k (h :: 128 word) OR ucast l) = (l :: 'l :: len word)"
  using assms by (intro bit_word_eqI) (auto simp: bit_simps dest: bit_imp_le_length)

lemma ucast_take: "LENGTH('l) \<le> k \<Longrightarrow> (ucast (take_bit k (w :: 128 word)) :: 'l :: len word) = ucast w"
  by (intro bit_word_eqI) (auto simp: bit_simps dest: bit_imp_le_length)

lemma ucast_complement: "LENGTH('l) \<le> 128 \<Longrightarrow> (ucast (NOT (w :: 128 word)) :: 'l :: len word) = NOT (ucast w)"
  by (intro bit_word_eqI) (auto simp: bit_simps dest: bit_imp_le_length)

text \<open>The three transition forms that carry an IPv4 address.\<close>

definition mapped_address :: "32 word \<Rightarrow> 128 word" where
  "mapped_address v = push_bit 32 0xFFFF OR ucast v"

definition sixtofour_address :: "32 word \<Rightarrow> 80 word \<Rightarrow> 128 word" where
  "sixtofour_address v rest = push_bit 80 (push_bit 32 0x2002 OR ucast v) OR ucast rest"

definition teredo_address :: "64 word \<Rightarrow> 32 word \<Rightarrow> 128 word" where
  "teredo_address middle v = push_bit 32 (push_bit 64 0x20010000 OR ucast middle) OR ucast (NOT v)"

lemma mapped_carries: "embedded_ipv4 (IPv6 (mapped_address v)) = IPv4 v"
proof -
  have "drop_bit 32 (mapped_address v) = 0xFFFF"
    unfolding mapped_address_def by (subst high_part) (simp_all add: take_bit_eq_mask mask_eq_exp_minus_1)
  moreover have "ucast (mapped_address v) = v"
    unfolding mapped_address_def by (rule low_part) simp_all
  ultimately show ?thesis by (simp add: ipv4_mapped_def)
qed

lemma not_mapped:
  assumes "drop_bit 96 a \<noteq> 0"
  shows "ipv4_mapped a = None"
proof -
  have shift: "drop_bit 96 a = drop_bit 64 (drop_bit 32 a)" unfolding drop_bit_drop_bit by simp
  have "drop_bit 32 a \<noteq> 0xFFFF"
  proof
    assume "drop_bit 32 a = 0xFFFF"
    with shift have "drop_bit 96 a = 0" by simp
    with assms show False by simp
  qed
  then show ?thesis by (simp add: ipv4_mapped_def)
qed

lemma sixtofour_carries: "embedded_ipv4 (IPv6 (sixtofour_address v rest)) = IPv4 v"
proof -
  let ?a = "sixtofour_address v rest" and ?h = "push_bit 32 0x2002 OR ucast v :: 128 word"
  have upper: "drop_bit 80 ?a = take_bit 48 ?h"
    unfolding sixtofour_address_def by (subst high_part) simp_all
  have "drop_bit 112 ?a = drop_bit 32 (drop_bit 80 ?a)" unfolding drop_bit_drop_bit by simp
  also have "\<dots> = take_bit 16 (take_bit 96 0x2002)"
    unfolding upper drop_bit_take_bit by (subst high_part) simp_all
  finally have high: "drop_bit 112 ?a = 0x2002" by (simp add: take_bit_eq_mask mask_eq_exp_minus_1)
  have shift: "drop_bit 112 ?a = drop_bit 16 (drop_bit 96 ?a)" unfolding drop_bit_drop_bit by simp
  have "drop_bit 96 ?a \<noteq> 0"
  proof
    assume "drop_bit 96 ?a = 0"
    then have "drop_bit 112 ?a = 0" unfolding shift by simp
    with high show False by simp
  qed
  then have "ipv4_mapped ?a = None" by (rule not_mapped)
  moreover have "ucast (drop_bit 80 ?a) = v"
    unfolding upper by (subst ucast_take) (simp, subst low_part, simp_all)
  ultimately show ?thesis using high by (simp add: sixtofour_def)
qed

lemma teredo_carries: "embedded_ipv4 (IPv6 (teredo_address middle v)) = IPv4 v"
proof -
  let ?a = "teredo_address middle v" and ?h = "push_bit 64 0x20010000 OR ucast middle :: 128 word"
  have upper: "drop_bit 32 ?a = take_bit 96 ?h"
    unfolding teredo_address_def by (subst high_part) simp_all
  have "drop_bit 96 ?a = drop_bit 64 (drop_bit 32 ?a)" unfolding drop_bit_drop_bit by simp
  also have "\<dots> = take_bit 32 (take_bit 64 0x20010000)"
    unfolding upper drop_bit_take_bit by (subst high_part) simp_all
  finally have high: "drop_bit 96 ?a = 0x20010000" by (simp add: take_bit_eq_mask mask_eq_exp_minus_1)
  then have "ipv4_mapped ?a = None" by (intro not_mapped) simp
  moreover have "drop_bit 112 ?a = drop_bit 16 (drop_bit 96 ?a)" unfolding drop_bit_drop_bit by simp
  then have "drop_bit 112 ?a \<noteq> 0x2002" unfolding high by simp
  moreover have "ucast (NOT ?a) = v"
    unfolding teredo_address_def by (subst ucast_complement) (simp, subst low_part, simp_all)
  ultimately show ?thesis using high by (simp add: sixtofour_def teredo_client_def)
qed

text \<open>Wrapping a refused IPv4 address does not help it.\<close>

lemma check_embedded: "embedded_ipv4 a = IPv4 v \<Longrightarrow> check_address a policy = check_address (IPv4 v) policy"
  by (simp add: check_address_def)

lemmas check_wrapped = check_embedded [OF mapped_carries] check_embedded [OF sixtofour_carries] check_embedded [OF teredo_carries]

definition site_local :: "128 word \<Rightarrow> bool" where
  "site_local a \<longleftrightarrow> in_network a (v6_prefix 0xFEC0 0 0, 10)"

definition unicast_block :: "128 word \<Rightarrow> bool" where
  "unicast_block a \<longleftrightarrow> in_range (unat a) (42535295865117307932921825928971026432, 85070591730234615865843651857942052864)"

lemma v6_exception_networks [network_intervals]:
  "in_network a (v6_prefix 0x2001 1 0 OR 1, 128) \<longleftrightarrow> in_range (unat a) (42540488241204005274814694018844196865, 42540488241204005274814694018844196866)"
  "in_network a (v6_prefix 0x2001 1 0 OR 2, 128) \<longleftrightarrow> in_range (unat a) (42540488241204005274814694018844196866, 42540488241204005274814694018844196867)"
  "in_network a (v6_prefix 0x2001 3 0, 32) \<longleftrightarrow> in_range (unat a) (42540488399660330303343369205932097536, 42540488478888492817607706799476047872)"
  "in_network a (v6_prefix 0x2001 4 0x112, 48) \<longleftrightarrow> in_range (unat a) (42540488479219738492182115193345540096, 42540488479220947418001729822520246272)"
  "in_network a (v6_prefix 0x2001 0x20 0, 28) \<longleftrightarrow> in_range (unat a) (42540490697277043217009159418706657280, 42540491964927643445238560915409862656)"
  "in_network a (v6_prefix 0x2001 0x30 0, 28) \<longleftrightarrow> in_range (unat a) (42540491964927643445238560915409862656, 42540493232578243673467962412113068032)"
  by (subst in_network_interval; simp add: v6_prefix_def push_bit_eq_mult in_range_def)+

lemma excepted_unicast: "list_ex (in_network a) v6_private_exceptions \<Longrightarrow> unicast_block a"
  unfolding v6_private_exceptions_def list_ex_Nil_iff list_ex_Cons_iff network_intervals
  by (auto simp: unicast_block_def in_range_def)

text \<open>Walking past an interval that does not hold the number.\<close>

lemma range_below: "\<not> in_range n (a, b) \<Longrightarrow> n < b \<Longrightarrow> n < a"
  and range_above: "\<not> in_range n (a, b) \<Longrightarrow> a \<le> n \<Longrightarrow> b \<le> n"
  by (auto simp: in_range_def)

lemma accepted_ipv6_region:
  assumes "check_address (IPv6 a) production_policy = Inr ()" and "embedded_ipv4 (IPv6 a) = IPv6 a"
  shows "unicast_block a \<or> site_local a"
proof (rule ccontr)
  assume none: "\<not> (unicast_block a \<or> site_local a)"
  have "ipv4_mapped a = None" using assms(2) by (cases "ipv4_mapped a") simp_all
  then have "\<not> list_ex (in_network a) v6_private"
    using assms none excepted_unicast by (auto simp: check_production address_blocked_def)
  then have inside: "\<not> in_network a (v6_prefix 0xFC00 0 0, 7)" by (simp add: v6_private_def)
  have reserved: "\<not> list_ex (in_network a) v6_reserved" and others: "\<not> in_network a (v6_prefix 0xFF00 0 0, 8)"
      "\<not> in_network a (v6_prefix 0xFE80 0 0, 10)"
    using assms by (simp_all add: check_production address_blocked_def)
  note gaps = reserved [unfolded v6_reserved_def list_ex_Nil_iff list_ex_Cons_iff de_Morgan_disj network_intervals]
    inside [unfolded network_intervals] others [unfolded network_intervals]
    none [unfolded de_Morgan_disj unicast_block_def site_local_def network_intervals]
  have low: "\<not> in_range (unat a) (0, 1329227995784915872903807060280344576)"
    "\<not> in_range (unat a) (1329227995784915872903807060280344576, 2658455991569831745807614120560689152)"
    "\<not> in_range (unat a) (2658455991569831745807614120560689152, 5316911983139663491615228241121378304)"
    "\<not> in_range (unat a) (5316911983139663491615228241121378304, 10633823966279326983230456482242756608)"
    "\<not> in_range (unat a) (10633823966279326983230456482242756608, 21267647932558653966460912964485513216)"
    "\<not> in_range (unat a) (21267647932558653966460912964485513216, 42535295865117307932921825928971026432)"
    using gaps by simp_all
  have high: "\<not> in_range (unat a) (85070591730234615865843651857942052864, 127605887595351923798765477786913079296)"
    "\<not> in_range (unat a) (127605887595351923798765477786913079296, 170141183460469231731687303715884105728)"
    "\<not> in_range (unat a) (170141183460469231731687303715884105728, 212676479325586539664609129644855132160)"
    "\<not> in_range (unat a) (212676479325586539664609129644855132160, 255211775190703847597530955573826158592)"
    "\<not> in_range (unat a) (255211775190703847597530955573826158592, 297747071055821155530452781502797185024)"
    "\<not> in_range (unat a) (297747071055821155530452781502797185024, 319014718988379809496913694467282698240)"
    "\<not> in_range (unat a) (319014718988379809496913694467282698240, 329648542954659136480144150949525454848)"
    "\<not> in_range (unat a) (329648542954659136480144150949525454848, 334965454937798799971759379190646833152)"
    "\<not> in_range (unat a) (334965454937798799971759379190646833152, 337623910929368631717566993311207522304)"
    "\<not> in_range (unat a) (337623910929368631717566993311207522304, 338288524927261089654018896841347694592)"
    "\<not> in_range (unat a) (338288524927261089654018896841347694592, 338620831926207318622244848606417780736)"
    "\<not> in_range (unat a) (338620831926207318622244848606417780736, 338953138925153547590470800371487866880)"
    "\<not> in_range (unat a) (338953138925153547590470800371487866880, 340282366920938463463374607431768211456)"
    using gaps by simp_all
  have middle: "\<not> in_range (unat a) (42535295865117307932921825928971026432, 85070591730234615865843651857942052864)" using gaps by simp
  have "\<not> unat a < 42535295865117307932921825928971026432"
  proof
    assume that: "unat a < 42535295865117307932921825928971026432"
    show False using range_below [OF low(1) range_below [OF low(2) range_below [OF low(3) range_below [OF low(4) range_below [OF low(5) range_below [OF low(6) that]]]]]] by simp
  qed
  then have above: "85070591730234615865843651857942052864 \<le> unat a" using range_above [OF middle] by linarith
  have "unat a < 2 ^ LENGTH(128)" by (rule unsigned_less)
  then have "unat a < 340282366920938463463374607431768211456" by simp
  with range_above [OF high(13) range_above [OF high(12) range_above [OF high(11) range_above [OF high(10) range_above [OF high(9) range_above [OF high(8) range_above [OF high(7) range_above [OF high(6) range_above [OF high(5) range_above [OF high(4) range_above [OF high(3) range_above [OF high(2) range_above [OF high(1) above]]]]]]]]]]]]] show False by simp
qed

text \<open>A deprecated kind of local address passes the rules: \<^verbatim>\<open>fec0::1\<close>.\<close>

lemma site_local_accepted: "site_local (v6_prefix 0xFEC0 0 0 OR 1) \<and> check_address (IPv6 (v6_prefix 0xFEC0 0 0 OR 1)) production_policy = Inr ()"
  by (simp add: site_local_def in_network_def word_size v6_prefix_def check_production address_blocked_def ipv4_mapped_def
      sixtofour_def teredo_client_def v6_reserved_def v6_private_def drop_bit_eq_div push_bit_eq_mult)

end
