(* ===== verification/TransportProperties.thy ===== *)
theory TransportProperties
  imports Transport AddressRanges
begin

text \<open>
  Where the download transport connects to, and what it says there, whatever the network answers.
\<close>

section \<open>One request\<close>

definition proper_request :: "address_policy \<Rightarrow> (string \<times> string) list \<Rightarrow> http_request \<Rightarrow> bool" where
  "proper_request policy authorization q \<longleftrightarrow>
     target_port q \<in> allowed_ports policy \<and> check_address (target_address q) policy = Inr () \<and> target_host q \<noteq> [] \<and>
     dict_get (http_headers q) ''Authorization'' = dict_get authorization (target_host q) \<and>
     dict_get (http_headers q) ''Accept-Encoding'' = Some ''identity''"

lemma validate_url_sound:
  assumes "validate_url url policy = Inr u"
  shows "checked_port u \<in> allowed_ports policy" and "url_host u \<noteq> []" and "full_url u = url"
  using assms
  by (auto simp: validate_url_def Let_def outcome_simps split: if_splits option.splits)

lemma check_records_sound:
  assumes "check_records policy found records = Inr result" and "\<And>p. p \<in> set found \<Longrightarrow> check_address (snd p) policy = Inr ()"
    and "p \<in> set result"
  shows "check_address (snd p) policy = Inr ()"
  using assms
proof (induction records arbitrary: found)
  case (Cons t ts)
  then obtain a where a: "check_address a policy = Inr ()"
    "check_records policy (if t \<in> fst ` set found then found else found @ [(t, a)]) ts = Inr result"
    by (auto simp: outcome_simps)
  show ?case
    by (rule Cons.IH [OF a(2)]) (use a(1) Cons.prems in \<open>auto split: if_splits\<close>)
qed simp

lemma resolve_sound:
  assumes "resolve_and_check resolver host policy = Inr addresses"
  shows "addresses \<noteq> []" and "\<forall>a \<in> set addresses. check_address a policy = Inr ()"
proof -
  show "addresses \<noteq> []"
    using assms by (auto simp: resolve_and_check_def outcome_simps split: option.splits if_splits)
  show "\<forall>a \<in> set addresses. check_address a policy = Inr ()"
  proof (cases "parse_address host")
    case None
    with assms obtain records found where "check_records policy [] records = Inr found" "addresses = map snd found"
      by (auto simp: resolve_and_check_def outcome_simps split: option.splits if_splits)
    with check_records_sound [of policy "[]" records found] show ?thesis by fastforce
  next
    case (Some a)
    with assms show ?thesis by (auto simp: resolve_and_check_def outcome_simps)
  qed
qed

lemma lower_text_lowered:
  "lower_text ''Authorization'' = ''authorization''" "lower_text ''If-Range'' = ''if-range''" "lower_text ''Range'' = ''range''"
  by code_simp+

lemma authorization_header:
  "dict_get (request_headers authorization options target) ''Authorization'' = dict_get authorization (url_host target)"
proof -
  have "map_of (filter (\<lambda>(name, v). lower_text name \<notin> reserved_headers) hs) ''Authorization'' = None" for hs :: "(string \<times> string) list"
    by (auto simp: map_of_eq_None_iff lower_text_lowered reserved_headers_def)
  then show ?thesis
    by (auto simp: request_headers_def set_header_def split: option.split)
qed

lemma encoding_header:
  "dict_get (request_headers authorization options target) ''Accept-Encoding'' = Some ''identity''"
  by (auto simp: request_headers_def set_header_def split: option.split)

section \<open>Following redirects\<close>

lemma open_hops_requests:
  assumes "open_hops n net policy authorization verb options url w = (w', r)"
  shows "\<exists>new. w' = w @ new \<and> length new \<le> n \<and> (\<forall>q \<in> set new. proper_request policy authorization q) \<and>
    (new \<noteq> [] \<longrightarrow> (\<exists>u. validate_url url policy = Inr u \<and> target_host (hd new) = url_host u)) \<and>
    (\<forall>response. r = Inr response \<longrightarrow> new \<noteq> [] \<and> response_status response \<notin> redirect_statuses)"
  using assms
proof (induction n arbitrary: url w)
  case 0
  then show ?case by auto
next
  case (Suc n)
  show ?case
  proof (cases "validate_url url policy")
    case (Inl e)
    with Suc.prems show ?thesis by auto
  next
    case url: (Inr u)
    let ?found = "resolve_and_check (name_service net (length w)) (url_host u) policy"
    show ?thesis
    proof (cases ?found)
      case (Inl e)
      with url Suc.prems show ?thesis by auto
    next
      case found: (Inr addresses)
      let ?q = "\<lparr>target_address = hd addresses, target_host = url_host u, target_port = checked_port u,
        http_method = verb, http_path = path_and_query u, http_headers = request_headers authorization options u\<rparr>"
      have proper: "proper_request policy authorization ?q"
        using validate_url_sound [OF url] resolve_sound [OF found]
        by (simp add: proper_request_def authorization_header encoding_header)
      show ?thesis
      proof (cases "respond net (length w) ?q")
        case None
        with Suc.prems url found have "w' = w @ [?q]" "\<exists>e. r = Inl e" by (auto simp: send_def Let_def)
        with proper url show ?thesis by auto
      next
        case (Some reply)
        show ?thesis
        proof (cases "reply_status reply \<in> redirect_statuses \<and> (\<exists>location. get_header ''location'' (reply_headers reply) = Some location \<and>
            location \<noteq> [] \<and> length location \<le> maximum_location_length)")
          case True
          then obtain location where "open_hops n net policy authorization verb options (url_join net url location) (w @ [?q]) = (w', r)"
            using Suc.prems url found Some by (auto simp: send_def Let_def)
          from Suc.IH [OF this] obtain new where "w' = w @ ?q # new" "length new \<le> n"
            "\<forall>q \<in> set new. proper_request policy authorization q"
            "\<forall>response. r = Inr response \<longrightarrow> response_status response \<notin> redirect_statuses" by auto
          with proper url show ?thesis by (intro exI [of _ "?q # new"]) auto
        next
          case False
          with Suc.prems url found Some have "w' = w @ [?q]"
            "\<forall>response. r = Inr response \<longrightarrow> response_status response \<notin> redirect_statuses"
            by (auto simp: send_def Let_def response_of_def split: if_splits option.splits)
          with proper url show ?thesis by auto
        qed
      qed
    qed
  qed
qed

section \<open>Properties\<close>

text \<open>
  An address on the public network: an IPv4 address outside the special ranges, also when an IPv6
  address carries it, and any other IPv6 address in \<^verbatim>\<open>2000::/3\<close> outside its special parts: the
  protocol block \<^verbatim>\<open>2001::/23\<close> but for the assignments in it that are public, and the documentation
  blocks \<^verbatim>\<open>2001:db8::/32\<close> and \<^verbatim>\<open>3fff::/20\<close>. Site-local addresses are not public.
\<close>

definition documentation_block :: "128 word \<Rightarrow> bool" where
  "documentation_block b \<longleftrightarrow> in_network b (v6_prefix 0x2001 0xDB8 0, 32) \<or> in_network b (v6_prefix 0x3FFF 0 0, 20)"

definition protocol_block :: "128 word \<Rightarrow> bool" where
  "protocol_block b \<longleftrightarrow> in_network b (v6_prefix 0x2001 0 0, 23) \<and> \<not> list_ex (in_network b) v6_private_exceptions"

definition publicly_reachable :: "ip_address \<Rightarrow> bool" where
  "publicly_reachable a \<longleftrightarrow> (case embedded_ipv4 a of
     IPv4 v \<Rightarrow> public_ipv4 v
   | IPv6 b \<Rightarrow> unicast_block b \<and> \<not> documentation_block b \<and> \<not> protocol_block b)"

text \<open>
  The two blocks without public addresses that the rules of the code let through. The second one
  is missing from the tables of the standard library that the model has; later ones list it.
\<close>

definition overlooked :: "ip_address \<Rightarrow> bool" where
  "overlooked a \<longleftrightarrow> (case a of IPv4 v \<Rightarrow> False | IPv6 b \<Rightarrow> site_local b \<or> in_network b (v6_prefix 0x3FFF 0 0, 20))"

lemma reachable_plain: "publicly_reachable (IPv4 v) \<longleftrightarrow> public_ipv4 v"
  by (simp add: publicly_reachable_def)

lemma reachable_wrapped:
  "publicly_reachable (IPv6 (mapped_address v)) \<longleftrightarrow> public_ipv4 v"
  "publicly_reachable (IPv6 (sixtofour_address v rest)) \<longleftrightarrow> public_ipv4 v"
  "publicly_reachable (IPv6 (teredo_address middle v)) \<longleftrightarrow> public_ipv4 v"
  by (simp_all only: publicly_reachable_def mapped_carries sixtofour_carries teredo_carries ip_address.case)

lemma embedded_idem: "embedded_ipv4 a = IPv6 b \<Longrightarrow> a = IPv6 b"
  by (cases a) (auto split: option.splits)

lemma documentation_networks [network_intervals]:
  "in_network a (v6_prefix 0x2001 0xDB8 0, 32) \<longleftrightarrow> in_range (unat a) (42540766411282592856903984951653826560, 42540766490510755371168322545197776896)"
  by (subst in_network_interval; simp add: v6_prefix_def push_bit_eq_mult in_range_def)

lemma documentation_not_excepted:
  "in_network b (v6_prefix 0x2001 0xDB8 0, 32) \<Longrightarrow> \<not> list_ex (in_network b) v6_private_exceptions"
  unfolding v6_private_exceptions_def list_ex_Nil_iff list_ex_Cons_iff network_intervals
  by (auto simp: in_range_def)

lemma accepted_not_special:
  assumes "check_address (IPv6 b) production_policy = Inr ()" and "embedded_ipv4 (IPv6 b) = IPv6 b"
  shows "\<not> protocol_block b" and "documentation_block b \<Longrightarrow> overlooked (IPv6 b)"
proof -
  have "ipv4_mapped b = None" using assms(2) by (cases "ipv4_mapped b") simp_all
  then have public: "\<not> list_ex (in_network b) v6_private \<or> list_ex (in_network b) v6_private_exceptions"
    using assms by (auto simp: check_production address_blocked_def)
  then show "\<not> protocol_block b" by (auto simp: protocol_block_def v6_private_def)
  from public documentation_not_excepted have "\<not> in_network b (v6_prefix 0x2001 0xDB8 0, 32)" by (auto simp: v6_private_def)
  then show "documentation_block b \<Longrightarrow> overlooked (IPv6 b)" by (simp add: documentation_block_def overlooked_def)
qed

lemma checked_reachable: "check_address a production_policy = Inr () \<Longrightarrow> publicly_reachable a \<or> overlooked a"
proof (cases "embedded_ipv4 a")
  case (IPv4 v)
  assume "check_address a production_policy = Inr ()"
  with IPv4 show ?thesis
    using check_embedded [OF IPv4, of production_policy] check_ipv4 [of v] by (simp add: publicly_reachable_def)
next
  case (IPv6 b)
  assume ok: "check_address a production_policy = Inr ()"
  have a: "a = IPv6 b" by (rule embedded_idem [OF IPv6])
  note b = ok [unfolded a] IPv6 [unfolded a]
  have "publicly_reachable a \<longleftrightarrow> unicast_block b \<and> \<not> documentation_block b \<and> \<not> protocol_block b"
    unfolding a publicly_reachable_def b(2) by simp
  moreover have "site_local b \<Longrightarrow> overlooked a" by (simp add: a overlooked_def)
  ultimately show ?thesis using accepted_ipv6_region [OF b] accepted_not_special [OF b] unfolding a by blast
qed

lemma overlooked_not_public: "overlooked a \<Longrightarrow> embedded_ipv4 a = a \<Longrightarrow> \<not> publicly_reachable a"
  by (cases a) (auto simp: overlooked_def publicly_reachable_def documentation_block_def site_local_def unicast_block_def
    network_intervals in_range_def)

text \<open>
  C36: a download connects to public hosts only. Whatever names resolve to and wherever servers
  redirect, each request of the production transport goes to port 443 of an address that is
  publicly reachable, where an IPv4 address wrapped in an IPv6 one counts as itself, or that lies
  in one of the two blocks that the rules of the code overlook, the site-local addresses
  \<^verbatim>\<open>fec0::/10\<close> and the documentation block \<^verbatim>\<open>3fff::/20\<close>; it carries a
  credential exactly when one is configured for that very host, so a redirect takes no token along;
  there are at most six requests; the first one goes to the host of the given URL; and a response
  is never a redirect.
\<close>

theorem transport_connects_publicly:
  assumes "transport_open net production_policy authorization verb options url w = (w', r)"
  shows "\<exists>new. w' = w @ new \<and> length new \<le> 6 \<and>
    (\<forall>q \<in> set new. target_port q = 443 \<and> (publicly_reachable (target_address q) \<or> overlooked (target_address q)) \<and>
       dict_get (http_headers q) ''Authorization'' = dict_get authorization (target_host q)) \<and>
    (new \<noteq> [] \<longrightarrow> (\<exists>u. validate_url url production_policy = Inr u \<and> target_host (hd new) = url_host u)) \<and>
    (\<forall>response. r = Inr response \<longrightarrow> new \<noteq> [] \<and> response_status response \<notin> {301, 302, 303, 307, 308})"
proof -
  from open_hops_requests [OF assms [unfolded transport_open_def]] obtain new where
    "w' = w @ new" "length new \<le> maximum_redirects + 1"
    and proper: "\<forall>q \<in> set new. proper_request production_policy authorization q"
    and rest: "new \<noteq> [] \<longrightarrow> (\<exists>u. validate_url url production_policy = Inr u \<and> target_host (hd new) = url_host u)"
      "\<forall>response. r = Inr response \<longrightarrow> new \<noteq> [] \<and> response_status response \<notin> redirect_statuses"
    by blast
  moreover have "target_port q = 443 \<and> (publicly_reachable (target_address q) \<or> overlooked (target_address q)) \<and>
      dict_get (http_headers q) ''Authorization'' = dict_get authorization (target_host q)" if "q \<in> set new" for q
    using that proper checked_reachable by (auto simp: proper_request_def production_policy_def)
  ultimately show ?thesis
    by (intro exI [of _ new]) (simp add: maximum_redirects_def redirect_statuses_def)
qed

text \<open>A server that redirects to the loopback interface: the first request is the last.\<close>

definition luring_net :: "unit internet" where
  "luring_net = \<lparr>name_service = (\<lambda>n host. Some [if host = ''a.org'' then ''93.184.216.34'' else ''127.0.0.1'']),
     respond = (\<lambda>n q. Some \<lparr>reply_status = 302, reply_headers = [(''Location'', ''https://b.org/'')], reply_body = ()\<rparr>),
     url_join = (\<lambda>base location. location)\<rparr>"

definition lured_request :: http_request where
  "lured_request = \<lparr>target_address = IPv4 1572395042, target_host = ''a.org'', target_port = 443, http_method = ''GET'',
     http_path = ''/x'', http_headers = [(''Host'', ''a.org''), (''User-Agent'', ''stegolab-dataset-fetch/0.1''),
       (''Accept-Encoding'', ''identity''), (''Authorization'', ''token'')]\<rparr>"

lemma example_urls:
  "validate_url ''https://a.org/x'' production_policy =
     Inr \<lparr>full_url = ''https://a.org/x'', url_host = ''a.org'', checked_port = 443, path_and_query = ''/x''\<rparr>"
  "validate_url ''https://b.org/'' production_policy =
     Inr \<lparr>full_url = ''https://b.org/'', url_host = ''b.org'', checked_port = 443, path_and_query = ''/''\<rparr>"
  "parse_address ''a.org'' = None" "parse_address ''b.org'' = None"
  "lower_text ''Location'' = ''location''"
  by code_simp+

lemma example_literals:
  "parse_address ''93.184.216.34'' = Some (IPv4 1572395042)" "parse_address ''127.0.0.1'' = Some (IPv4 2130706433)"
  by (simp_all add: parse_address_def parse_ipv4_def parse_octet_def all_digits_def decimal_value_def digits_value_def
      is_digit_char_def char_between_def)

lemma example_checks:
  "check_address (IPv4 1572395042) production_policy = Inr ()"
  "check_address (IPv4 2130706433) production_policy = Inl (address_failure ''download_address_blocked'')"
  unfolding check_ipv4
  by (simp_all add: public_ipv4_def special_ranges_def in_range_def check_address_def production_policy_def network_intervals)

lemma luring_run:
  "transport_open luring_net production_policy [(''a.org'', ''token'')] ''GET'' \<lparr>extra_headers = [], byte_range = None, if_range = None\<rparr>
     ''https://a.org/x'' [] = ([lured_request], Inl (address_failure ''download_address_blocked''))"
  by (simp add: transport_open_def maximum_redirects_def numeral_eq_Suc example_urls resolve_and_check_def luring_net_def
      parse_literal_def example_literals example_checks send_def Let_def request_headers_def set_header_def host_header_def
      redirect_statuses_def get_header_def
      maximum_location_length_def lured_request_def user_agent_def)

theorem transport_connects_publicly_witness:
  "publicly_reachable (target_address lured_request) \<and>
   dict_get (http_headers lured_request) ''Authorization'' = dict_get [(''a.org'', ''token'')] (target_host lured_request)"
  using transport_connects_publicly [OF luring_run] by (auto simp: overlooked_def lured_request_def)

end
