(* ===== verification/DownloadProperties.thy ===== *)
theory DownloadProperties
  imports Downloads TransportProperties "HOL-Library.Sublist"
begin

text \<open>
  What a download leaves in its partial file, over any sequence of interrupted attempts, and
  what the outcome of a completed one says of it.
\<close>

section \<open>Receiving a body\<close>

lemma concat_read_pieces: "concat (read_pieces limit pos content) = take (limit - pos) (drop pos content)"
proof (induction limit pos content rule: read_pieces.induct)
  case (1 limit pos content)
  show ?case
  proof (cases "limit \<le> pos")
    case False
    let ?c = stream_chunk_bytes
    have "concat (read_pieces limit pos content)
        = take (min ?c (limit - pos)) (drop pos content) @ take (limit - (pos + ?c)) (drop (pos + ?c) content)"
      using False 1 [OF False refl] by (subst read_pieces.simps) (simp add: Let_def)
    also have "\<dots> = take (limit - pos) (drop pos content)"
    proof (cases "?c \<le> limit - pos")
      case True
      have "take (?c + (limit - (pos + ?c))) (drop pos content)
          = take ?c (drop pos content) @ take (limit - (pos + ?c)) (drop (pos + ?c) content)"
        by (simp only: take_add drop_drop add.commute)
      moreover have "?c + (limit - (pos + ?c)) = limit - pos" using True by simp
      ultimately show ?thesis using True by (simp add: min_def)
    qed simp
    finally show ?thesis .
  qed (simp add: read_pieces.simps)
qed

definition body_bytes :: "body \<Rightarrow> byte list" where
  "body_bytes b = concat (takeWhile (\<lambda>c. c \<noteq> []) (fst b))"

definition file_hashed :: "reception \<Rightarrow> download_state \<Rightarrow> bool" where
  "file_hashed g s \<longleftrightarrow> part_file s = Some (hashed g) \<and> received g = length (hashed g)"

lemma receive_effect:
  assumes "receive_chunks env maximum whole final n chunks g s = (t, r)"
    and "file_hashed g s"
  shows "\<exists>added. part_file t = Some (hashed g @ added) \<and> length (hashed g @ added) \<le> max maximum (received g) \<and> wire t = wire s \<and>
    prefix added (concat (takeWhile (\<lambda>c. c \<noteq> []) chunks)) \<and>
    (\<forall>g'. r = Inr g' \<longrightarrow> file_hashed g' t \<and> hashed g' = hashed g @ added)"
  using assms
proof (induction chunks arbitrary: n g s)
  case Nil
  then show ?case by (auto simp: file_hashed_def split: body_end.splits)
next
  case (Cons chunk chunks)
  note pre = Cons.prems(2) [unfolded file_hashed_def]
  let ?g1 = "g\<lparr>received := received g + length chunk\<rparr>"
  let ?g2 = "?g1\<lparr>hashed := hashed g @ chunk\<rparr>"
  let ?due = "progress_due env n ?g2"
  let ?g3 = "if ?due then ?g2\<lparr>reported_bytes := received ?g2, reported_time := chunk_time env n\<rparr> else ?g2"
  let ?s2 = "s\<lparr>part_file := Some (hashed g @ chunk)\<rparr>"
  let ?s3 = "if ?due then ?s2\<lparr>progress_reports := progress_reports s @ [(received ?g2, whole)]\<rparr> else ?s2"
  consider "chunk = []" | "chunk \<noteq> []" "maximum < received ?g1"
    | k where "chunk \<noteq> []" "received ?g1 \<le> maximum" "chunk_fault env n = Some k"
    | "chunk \<noteq> []" "received ?g1 \<le> maximum" "chunk_fault env n = None" by (cases "chunk_fault env n") force+
  then show ?case
  proof cases
    case 1
    with Cons.prems pre show ?thesis by (auto simp: file_hashed_def)
  next
    case 2
    with Cons.prems pre show ?thesis by (auto simp: Let_def)
  next
    case (3 k)
    with Cons.prems pre have "part_file t = Some (hashed g @ take k chunk)" "\<exists>e. r = Inl e" "wire t = wire s"
      by (auto simp: Let_def append_part_def)
    moreover have "prefix (take k chunk) (concat (takeWhile (\<lambda>c. c \<noteq> []) (chunk # chunks)))"
      using 3(1) by (simp add: take_is_prefix prefix_prefix)
    ultimately show ?thesis using 3 pre by (intro exI [of _ "take k chunk"]) auto
  next
    case 4
    have run: "(if stop_after env n then (?s3, Inl Download_Stopped)
        else receive_chunks env maximum whole final (Suc n) chunks ?g3 ?s3) = (t, r)"
      using Cons.prems(1) pre 4 by (auto simp: Let_def append_part_def act_when_def report_progress_def)
    have g3: "hashed ?g3 = hashed g @ chunk" "received ?g3 = received ?g1" by simp_all
    show ?thesis
    proof (cases "stop_after env n")
      case True
      with run have "t = ?s3" "r = Inl Download_Stopped" by auto
      with 4 pre show ?thesis by (intro exI [of _ chunk]) auto
    next
      case False
      have "file_hashed ?g3 ?s3" using pre g3 by (simp add: file_hashed_def)
      from Cons.IH [OF _ this] run False g3 4(2) obtain added where
        "part_file t = Some ((hashed g @ chunk) @ added)" "length ((hashed g @ chunk) @ added) \<le> max maximum (received g)" "wire t = wire s"
        "prefix added (concat (takeWhile (\<lambda>c. c \<noteq> []) chunks))"
        "\<forall>g'. r = Inr g' \<longrightarrow> file_hashed g' t \<and> hashed g' = (hashed g @ chunk) @ added"
        by (auto split: if_splits)
      with 4(1) show ?thesis by (intro exI [of _ "chunk @ added"]) auto
    qed
  qed
qed

section \<open>One attempt\<close>

text \<open>What the response adds to the file: the bytes after \<open>base\<close>, or all of them.\<close>

definition continues :: "byte list \<Rightarrow> byte list \<Rightarrow> body transport_response \<Rightarrow> bool" where
  "continues base added response \<longleftrightarrow> prefix added (body_bytes (response_body response)) \<and>
     (if response_status response = 206 then base \<noteq> [] \<and> range_start response = Inr (Some (length base))
      else response_status response = 200 \<and> base = [])"

definition obtained :: "transfer_setting \<Rightarrow> remote_asset \<Rightarrow> body transport_response \<Rightarrow> bool" where
  "obtained setting asset response \<longleftrightarrow> (\<exists>options w w'.
     transport_open (network setting) (policy setting) (credentials setting) ''GET'' options (asset_url asset) w = (w', Inr response))"

lemma response_effect:
  assumes "accept_response env response offset s = (t, r)" and "part_file s = Some b" and "offset = length b"
  shows "part_file t \<in> {Some b, Some []}"
    and "r = Inr k \<Longrightarrow> \<exists>base. part_file t = Some base \<and> k = length base \<and>
      (if response_status response = 206 then base = b \<and> b \<noteq> [] \<and> range_start response = Inr (Some (length b))
       else response_status response = 200 \<and> base = [])"
  using assms
  by (auto simp: accept_response_def truncate_part_def act_when_def act_bind_def split: if_splits sum.splits prod.splits)

lemma stream_effect:
  assumes "stream_body env setting asset offset0 s = (t, r)" and b: "part_file s = Some b" "offset0 = length b"
  shows "\<exists>base added. part_file t = Some (base @ added) \<and> base \<in> {b, []} \<and>
    length (base @ added) \<le> max (maximum_bytes setting) (length b) \<and>
    (added = [] \<or> (\<exists>response. obtained setting asset response \<and> continues base added response)) \<and>
    (\<forall>offset whole g. r = Inr (offset, whole, g) \<longrightarrow> file_hashed g t \<and> offset = length base)"
proof -
  let ?keep = "\<exists>base. base \<in> {b, []} \<and> part_file t = Some base \<and> (\<exists>e. r = Inl e)"
  have kept: ?thesis if ?keep
    using that by (elim exE conjE) (intro exI [of _ "the (part_file t)"] exI [of _ "[]"], auto)
  note run = assms(1) [unfolded stream_body_def]
  obtain s1 r1 where start: "start_offset env asset offset0 s = (s1, r1)" by fastforce
  obtain b1 where b1: "part_file s1 = Some b1" "b1 \<in> {b, []}" "\<And>k. r1 = Inr k \<Longrightarrow> k = length b1"
    using start b by (auto simp: start_offset_def truncate_part_def act_bind_def split: if_splits)
  show ?thesis
  proof (cases r1)
    case (Inl e)
    with run start have "t = s1" "r = Inl e" by (simp_all add: act_bind_def)
    with b1 kept show ?thesis by auto
  next
    case (Inr offset1)
    obtain w' r2 where open_r: "transport_open (network setting) (policy setting) (credentials setting) ''GET''
        (resume_options asset offset1) (asset_url asset) (wire s1) = (w', r2)" by fastforce
    let ?s2 = "s1\<lparr>wire := w'\<rparr>"
    have wire: "on_wire (transport_open (network setting) (policy setting) (credentials setting) ''GET''
        (resume_options asset offset1) (asset_url asset)) s1 = (?s2, r2)"
      by (simp add: on_wire_def open_r)
    show ?thesis
    proof (cases r2)
      case (Inl e)
      with run start wire \<open>r1 = Inr offset1\<close> have "t = ?s2" "r = Inl e" by (simp_all add: act_bind_def)
      with b1 kept show ?thesis by auto
    next
      case response: (Inr response)
      then have got: "obtained setting asset response" using open_r unfolding obtained_def by blast
      obtain s3 r3 where accept: "accept_response env response offset1 ?s2 = (s3, r3)" by fastforce
      have part2: "part_file ?s2 = Some b1" "offset1 = length b1" using b1 \<open>r1 = Inr offset1\<close> by auto
      note accepted = response_effect [OF accept part2]
      show ?thesis
      proof (cases r3)
        case (Inl e)
        with run start wire accept \<open>r1 = Inr offset1\<close> response have "t = s3" "r = Inl e" by (simp_all add: act_bind_def)
        with b1 accepted(1) kept show ?thesis by auto
      next
        case offset: (Inr offset)
        from accepted(2) [OF this] obtain base where base: "part_file s3 = Some base" "offset = length base"
          "if response_status response = 206 then base = b1 \<and> b1 \<noteq> [] \<and> range_start response = Inr (Some (length b1))
           else response_status response = 200 \<and> base = []" by blast
        have base_b: "base \<in> {b, []}" using base(3) b1(2) by (auto split: if_splits)
        let ?pieces = "read_pieces offset 0 base"
        have pieces: "concat ?pieces = base" using base(2) by (simp add: concat_read_pieces)
        let ?go = "\<lambda>whole. act_bind (receive_chunks env (maximum_bytes setting) whole (snd (response_body response)) 0
            (fst (response_body response)) \<lparr>received = offset, hashed = base, reported_bytes = offset, reported_time = start_time env\<rparr>)
          (\<lambda>g. act_bind (act_when (reports_progress env \<and> received g \<noteq> reported_bytes g) (report_progress (received g) whole))
          (\<lambda>_. act_return (offset, whole, g))) s3"
        have "(t, r) = (if read_fault env then (s3, Inl OS_Error) else case content_total asset response offset of
            Inl e \<Rightarrow> (s3, Inl e)
          | Inr whole \<Rightarrow> if (case whole of None \<Rightarrow> True | Some k \<Rightarrow> k \<le> maximum_bytes setting) then ?go whole
              else (s3, Inl (transfer_failure ''download_too_large'')))"
          using run start wire accept \<open>r1 = Inr offset1\<close> response offset base(1) pieces
          by (cases "read_fault env"; cases "content_total asset response offset")
            (auto simp: iter_existing_def ensure_def)
        then have rest: "t = s3 \<and> (\<exists>e. r = Inl e) \<or> (\<exists>whole. (t, r) = ?go whole)"
          by (auto split: if_splits sum.splits simp del: act_bind_run)
        show ?thesis
        proof (cases "t = s3 \<and> (\<exists>e. r = Inl e)")
          case True
          with base base_b kept show ?thesis by auto
        next
          case False
          with rest obtain whole where go: "?go whole = (t, r)" by fastforce
          obtain s4 r4 where recv: "receive_chunks env (maximum_bytes setting) whole (snd (response_body response)) 0
            (fst (response_body response)) \<lparr>received = offset, hashed = base, reported_bytes = offset, reported_time = start_time env\<rparr> s3
            = (s4, r4)" by fastforce
          have "length base \<le> length b" using base_b by auto
          then obtain added where added: "part_file s4 = Some (base @ added)"
            "length (base @ added) \<le> max (maximum_bytes setting) (length b)"
            "prefix added (body_bytes (response_body response))"
            "\<forall>g'. r4 = Inr g' \<longrightarrow> file_hashed g' s4 \<and> hashed g' = base @ added"
            using receive_effect [OF recv] base by (auto simp: file_hashed_def body_bytes_def)
          have goes_on: "continues base added response" using base(3) added(3) by (auto simp: continues_def split: if_splits)
          have final: "part_file t = part_file s4" "\<And>o' w' g. r = Inr (o', w', g) \<Longrightarrow> r4 = Inr g \<and> o' = offset"
            using go recv by (cases r4; auto simp: act_bind_def act_when_def report_progress_def split: if_splits)+
          have "file_hashed g t \<and> o' = length base" if "r = Inr (o', w', g)" for o' w' g
            using final(2) [OF that] added(4) final(1) base(2) by (simp add: file_hashed_def)
          with added(1,2) final(1) goes_on got base_b show ?thesis
            by - (rule exI [of _ base], rule exI [of _ added], auto)
        qed
      qed
    qed
  qed
qed

text \<open>The total that an attempt checks its count against comes from the response that it accepted.\<close>

lemma accept_position:
  assumes "accept_response env response offset s = (t, Inr k)"
  shows "if response_status response = 206 then range_start response = Inr (Some k) else response_status response = 200 \<and> k = 0"
  using assms
  by (auto simp: accept_response_def truncate_part_def act_when_def act_bind_def split: if_splits sum.splits prod.splits)

lemma stream_total:
  assumes "stream_body env setting asset offset0 s = (t, Inr (offset, whole, g))"
  shows "\<exists>response. obtained setting asset response \<and> content_total asset response offset = Inr whole \<and>
    (if response_status response = 206 then range_start response = Inr (Some offset) else response_status response = 200 \<and> offset = 0)"
proof -
  from assms obtain offset1 s1 response s2 s3 where
    opened: "on_wire (transport_open (network setting) (policy setting) (credentials setting) ''GET''
      (resume_options asset offset1) (asset_url asset)) s1 = (s2, Inr response)"
    and accepted: "accept_response env response offset1 s2 = (s3, Inr offset)"
    and whole: "content_total asset response offset = Inr whole"
    unfolding stream_body_def act_bind_Inr by (auto simp: act_bind_Inr act_lift_def)
  from opened have "obtained setting asset response"
    by (auto simp: on_wire_def obtained_def split: prod.splits)
  with whole accept_position [OF accepted] show ?thesis by blast
qed

definition stored :: "download_state \<Rightarrow> byte list" where
  "stored s = (case part_file s of None \<Rightarrow> [] | Some b \<Rightarrow> b)"

lemma part_size_stored: "part_size s = length (stored s)"
  by (simp add: part_size_def stored_def split: option.split)

lemma download_effect:
  assumes "download_asset env setting asset s = (t, r)"
  shows "\<exists>base added. stored t = base @ added \<and> base \<in> {stored s, []} \<and>
    length (base @ added) \<le> max (maximum_bytes setting) (part_size s) \<and>
    (added = [] \<or> (\<exists>response. obtained setting asset response \<and> continues base added response)) \<and>
    (\<forall>out. r = Inr out \<longrightarrow> part_file t = Some (stored t) \<and> outcome_size out = length (stored t) \<and>
       outcome_sha256 out = digest setting (stored t) \<and> resumed_from out = length base \<and>
       (\<forall>n. expected_size asset = Some n \<longrightarrow> n = length (stored t)) \<and>
       (\<forall>h. expected_sha256 asset = Some h \<longrightarrow> digest setting (stored t) = lower_text h))"
proof (cases "open_fault env")
  case True
  with assms have "t = s" "r = Inl OS_Error" by (auto simp: download_asset_def open_for_append_def)
  then show ?thesis
    by - (rule exI [of _ "stored s"], rule exI [of _ "[]"], simp add: part_size_stored)
next
  case False
  let ?s = "s\<lparr>part_file := Some (stored s)\<rparr>"
  have opened: "open_for_append env s = (?s, Inr (length (stored s)))"
    using False by (simp add: open_for_append_def part_size_def stored_def)
  obtain u q where stream: "stream_body env setting asset (length (stored s)) ?s = (u, q)" by fastforce
  from stream_effect [OF stream _ refl] obtain base added where eff: "part_file u = Some (base @ added)" "base \<in> {stored s, []}"
    "length (base @ added) \<le> max (maximum_bytes setting) (part_size s)"
    "added = [] \<or> (\<exists>response. obtained setting asset response \<and> continues base added response)"
    "\<And>o' w g. q = Inr (o', w, g) \<Longrightarrow> file_hashed g u \<and> o' = length base" by (auto simp: part_size_stored)
  have closed: "close_after env (stream_body env setting asset (length (stored s))) ?s = (u, if close_fault env then Inl OS_Error else q)"
    by (simp add: close_after_def stream)
  have run: "t = u \<and> r = andThen (if close_fault env then Inl OS_Error else q) (verify_download setting asset)"
    using assms(1) by (cases "close_fault env"; cases q) (simp_all add: download_asset_def opened closed)
  then have t: "t = u" by simp
  have out: "part_file t = Some (stored t) \<and> outcome_size out = length (stored t) \<and>
       outcome_sha256 out = digest setting (stored t) \<and> resumed_from out = length base \<and>
       (\<forall>n. expected_size asset = Some n \<longrightarrow> n = length (stored t)) \<and>
       (\<forall>h. expected_sha256 asset = Some h \<longrightarrow> digest setting (stored t) = lower_text h)" if res: "r = Inr out" for out
  proof -
    obtain o' w g where q: "q = Inr (o', w, g)" "verify_download setting asset (o', w, g) = Inr out"
      using run res by (cases q) (auto split: if_splits)
    moreover have "file_hashed g u \<and> o' = length base" using eff(5) q by blast
    ultimately show ?thesis unfolding t
      by (auto simp: verify_download_def Let_def file_hashed_def stored_def split: if_splits option.splits)
  qed
  have whole: "stored t = base @ added" using eff(1) t by (simp add: stored_def)
  show ?thesis
    by (rule exI [of _ base], rule exI [of _ added], intro conjI whole eff(2-4) allI impI out) auto
qed

lemma download_outcome_facts:
  assumes "download_asset env setting asset s = (t, Inr out)"
  shows "part_file t = Some (stored t)" and "outcome_size out = length (stored t)"
    and "outcome_sha256 out = digest setting (stored t)"
    and "expected_size asset = Some n \<Longrightarrow> n = length (stored t)"
    and "expected_sha256 asset = Some h \<Longrightarrow> digest setting (stored t) = lower_text h"
proof -
  from download_effect [OF assms]
  have facts: "part_file t = Some (stored t) \<and> outcome_size out = length (stored t) \<and> outcome_sha256 out = digest setting (stored t) \<and>
      (\<forall>n. expected_size asset = Some n \<longrightarrow> n = length (stored t)) \<and>
      (\<forall>h. expected_sha256 asset = Some h \<longrightarrow> digest setting (stored t) = lower_text h)"
    by (elim exE conjE) (simp only: sum.inject, blast)
  from facts show "part_file t = Some (stored t)" by blast
  from facts show "outcome_size out = length (stored t)" by blast
  from facts show "outcome_sha256 out = digest setting (stored t)" by blast
  from facts show "n = length (stored t)" if "expected_size asset = Some n" using that by blast
  from facts show "digest setting (stored t) = lower_text h" if "expected_sha256 asset = Some h" using that by blast
qed

lemma download_total:
  assumes "download_asset env setting asset s = (t, Inr out)"
  shows "\<exists>response offset whole. obtained setting asset response \<and> content_total asset response offset = Inr whole \<and>
    (if response_status response = 206 then range_start response = Inr (Some offset) else response_status response = 200 \<and> offset = 0) \<and>
    (\<forall>n. whole = Some n \<longrightarrow> outcome_size out = n)"
proof -
  from assms obtain offset0 s1 q where close: "close_after env (stream_body env setting asset offset0) s1 = (t, Inr q)"
    and verify: "verify_download setting asset q = Inr out"
    unfolding download_asset_def act_bind_Inr by (auto simp: act_lift_def)
  obtain offset whole g where q: "q = (offset, whole, g)" by (cases q)
  have stream: "stream_body env setting asset offset0 s1 = (t, Inr (offset, whole, g))"
    using close unfolding q by (auto simp: close_after_def split: prod.splits if_splits)
  have "\<forall>n. whole = Some n \<longrightarrow> outcome_size out = n"
    using verify unfolding q by (auto simp: verify_download_def Let_def split: if_splits)
  with stream_total [OF stream] show ?thesis by blast
qed

lemma download_fits:
  assumes "download_asset env setting asset s = (t, r)" and "part_size s \<le> maximum_bytes setting"
  shows "part_size t \<le> maximum_bytes setting"
  using download_effect [OF assms(1)] assms(2) by (elim exE conjE) (simp only: part_size_stored max_absorb1)

lemma obtained_reply:
  assumes "obtained setting asset response"
  shows "\<exists>n q reply url. respond (network setting) n q = Some reply \<and> response = response_of url reply"
proof -
  have "open_hops k net pol auth verb options url w = (w', Inr response) \<Longrightarrow>
      \<exists>n q reply url. respond net n q = Some reply \<and> response = response_of url reply"
    for k net pol auth verb options url w w' and response :: "'b transport_response"
  proof (induction k arbitrary: url w)
    case (Suc k)
    then show ?case
      by (auto simp del: act_bind_run simp: act_bind_Inr act_lift_def act_get_def act_modify_def act_raise_def act_return_def send_def Let_def
          split: if_splits option.splits)
  qed simp
  with assms show ?thesis unfolding obtained_def transport_open_def by blast
qed

section \<open>Attempts against one origin\<close>

text \<open>
  An origin that serves one file: a complete answer carries the file, or as much of it as arrives,
  and a partial answer the file from the position it names.
\<close>

definition serves :: "byte list \<Rightarrow> body internet \<Rightarrow> bool" where
  "serves content net \<longleftrightarrow> (\<forall>n q reply url. respond net n q = Some reply \<longrightarrow>
     (reply_status reply = 200 \<longrightarrow> prefix (body_bytes (reply_body reply)) content) \<and>
     (\<forall>k. reply_status reply = 206 \<and> range_start (response_of url reply) = Inr (Some k) \<longrightarrow>
        prefix (body_bytes (reply_body reply)) (drop k content)))"

text \<open>The origin also says how long its file is: the length of an answer counts the bytes from its position to the end.\<close>

definition announces :: "byte list \<Rightarrow> body internet \<Rightarrow> bool" where
  "announces content net \<longleftrightarrow> (\<forall>n q reply url k. respond net n q = Some reply \<and>
     (if reply_status reply = 206 then range_start (response_of url reply) = Inr (Some k) else reply_status reply = 200 \<and> k = 0) \<longrightarrow>
     (let text = strip_text (header_text ''content-length'' (response_of url reply)) in
      all_digits text \<and> int_of_digits text = Inr (length content - k) \<and> k \<le> length content))"

lemma announced_total:
  assumes "announces content (network setting)" and "obtained setting asset response"
    and "if response_status response = 206 then range_start response = Inr (Some k) else response_status response = 200 \<and> k = 0"
  shows "content_total asset response k = Inr (Some (length content))"
proof -
  obtain n q reply url where reply: "respond (network setting) n q = Some reply" and response: "response = response_of url reply"
    using obtained_reply [OF assms(2)] by blast
  have same: "response_status (response_of url reply) = reply_status reply" by (simp add: response_of_def)
  have "let text = strip_text (header_text ''content-length'' (response_of url reply)) in
      all_digits text \<and> int_of_digits text = Inr (length content - k) \<and> k \<le> length content"
    by (rule assms(1) [unfolded announces_def, rule_format, OF conjI [OF reply assms(3) [unfolded response same]]])
  then show ?thesis by (simp add: content_total_def response Let_def)
qed

fun attempts :: "remote_asset \<Rightarrow> (download_context \<times> transfer_setting) list \<Rightarrow> download_state \<Rightarrow> download_state" where
  "attempts asset [] s = s"
| "attempts asset ((env, setting) # rest) s = attempts asset rest (fst (download_asset env setting asset s))"

lemma continues_content:
  assumes "serves content (network setting)" and "obtained setting asset response" and "continues base added response"
    and "prefix base content"
  shows "prefix (base @ added) content"
proof -
  obtain n q reply url where reply: "respond (network setting) n q = Some reply" "response = response_of url reply"
    using obtained_reply [OF assms(2)] by blast
  then have same: "response_status response = reply_status reply" "response_body response = reply_body reply"
    by (simp_all add: response_of_def)
  obtain rest where rest: "content = base @ rest" using assms(4) by (auto simp: prefix_def)
  show ?thesis
  proof (cases "response_status response = 206")
    case True
    then have "prefix (body_bytes (reply_body reply)) (drop (length base) content)"
      using assms(1,3) reply same unfolding serves_def continues_def by fastforce
    with assms(3) same rest show ?thesis by (auto simp: continues_def intro: prefix_order.trans)
  next
    case False
    then have "prefix (body_bytes (reply_body reply)) content" "base = []"
      using assms(1,3) reply same unfolding serves_def continues_def by fastforce+
    with assms(3) same show ?thesis by (auto simp: continues_def intro: prefix_order.trans)
  qed
qed

lemma download_keeps_prefix:
  assumes "serves content (network setting)" and "prefix (stored s) content" and "part_size s \<le> maximum_bytes setting"
    and "download_asset env setting asset s = (t, r)"
  shows "prefix (stored t) content" and "part_size t \<le> maximum_bytes setting"
proof -
  obtain base added where eff: "stored t = base @ added" "base \<in> {stored s, []}"
    "added = [] \<or> (\<exists>response. obtained setting asset response \<and> continues base added response)"
    using download_effect [OF assms(4)] by (elim exE conjE) rule
  have "prefix base content" using eff(2) assms(2) by auto
  then show "prefix (stored t) content" using eff(1,3) continues_content [OF assms(1)] by fastforce
  show "part_size t \<le> maximum_bytes setting" by (rule download_fits [OF assms(4,3)])
qed

lemma attempts_keep_prefix:
  assumes "\<And>env setting. (env, setting) \<in> set past \<Longrightarrow> serves content (network setting) \<and> maximum_bytes setting = limit"
    and "prefix (stored s) content" and "part_size s \<le> limit"
  shows "prefix (stored (attempts asset past s)) content \<and> part_size (attempts asset past s) \<le> limit"
  using assms
proof (induction past arbitrary: s)
  case (Cons p past)
  obtain env setting where p: "p = (env, setting)" by force
  then have h: "serves content (network setting)" "maximum_bytes setting = limit" using Cons.prems(1) by auto
  obtain t r where run: "download_asset env setting asset s = (t, r)" by fastforce
  from download_keeps_prefix [OF h(1) Cons.prems(2) _ run] h(2) Cons.prems(3)
  have "prefix (stored t) content" "part_size t \<le> limit" by auto
  with Cons.IH [of t] Cons.prems(1) show ?case using p run by auto
qed simp

section \<open>Properties\<close>

text \<open>
  C37: a download is bounded and its outcome is true. Whatever the network sends and whichever
  file operation fails, the partial file never grows beyond the allowed size; and when
  \<^verbatim>\<open>download_asset\<close> returns, its outcome states the size and the digest of exactly the bytes that
  are now in the file, which are the expected ones where a size or a checksum is expected.
\<close>

theorem download_bounded_and_verified:
  assumes "download_asset env setting asset s = (t, r)" and "part_size s \<le> maximum_bytes setting"
  shows "part_size t \<le> maximum_bytes setting \<and>
    (\<forall>out. r = Inr out \<longrightarrow> (\<exists>data. part_file t = Some data \<and> outcome_size out = length data \<and>
       outcome_sha256 out = digest setting data \<and>
       (\<forall>n. expected_size asset = Some n \<longrightarrow> length data = n) \<and>
       (\<forall>h. expected_sha256 asset = Some h \<longrightarrow> digest setting data = lower_text h)))"
proof (intro conjI allI impI)
  show "part_size t \<le> maximum_bytes setting" by (rule download_fits [OF assms])
  fix out
  assume "r = Inr out"
  note facts = download_outcome_facts [OF assms(1) [unfolded this]]
  show "\<exists>data. part_file t = Some data \<and> outcome_size out = length data \<and> outcome_sha256 out = digest setting data \<and>
       (\<forall>n. expected_size asset = Some n \<longrightarrow> length data = n) \<and>
       (\<forall>h. expected_sha256 asset = Some h \<longrightarrow> digest setting data = lower_text h)"
    by (rule exI [of _ "stored t"], intro conjI allI impI facts(1-3) facts(4) [symmetric] facts(5))
qed

text \<open>
  C38: an interrupted download resumes to the same file. Against an origin that serves one file
  and after any number of attempts that were stopped, cut off or failed at any point, an attempt
  that returns leaves a prefix of the served file, with its true size and digest in the outcome,
  whether it resumed or started again. It is the whole file if its size is known, either because
  the asset expects it or because the origin announces it in the length of its answers. Without
  either a body that ends early cannot be told from a whole one (\<open>short_body_accepted\<close> below).
\<close>

theorem resumed_download_whole:
  assumes "\<And>env setting. (env, setting) \<in> set ((env0, setting0) # past) \<Longrightarrow>
      serves content (network setting) \<and> maximum_bytes setting = limit"
    and "part_file s = None"
    and "download_asset env0 setting0 asset (attempts asset past s) = (t, Inr out)"
  shows "\<exists>data. part_file t = Some data \<and> prefix data content \<and> outcome_size out = length data \<and> outcome_sha256 out = digest setting0 data \<and>
    (expected_size asset = Some (length content) \<or> announces content (network setting0) \<longrightarrow> data = content)"
proof -
  have h: "serves content (network setting0)" "maximum_bytes setting0 = limit" using assms(1) by auto
  have "prefix (stored (attempts asset past s)) content \<and> part_size (attempts asset past s) \<le> limit"
    using assms(1,2) by (intro attempts_keep_prefix) (auto simp: stored_def part_size_stored)
  then have p: "prefix (stored (attempts asset past s)) content" "part_size (attempts asset past s) \<le> maximum_bytes setting0"
    using h(2) by auto
  have pre: "prefix (stored t) content" by (rule download_keeps_prefix [OF h(1) p assms(3)])
  note out = download_outcome_facts [OF assms(3)]
  have "length content = length (stored t)" if "expected_size asset = Some (length content) \<or> announces content (network setting0)"
    using that
  proof
    assume "expected_size asset = Some (length content)"
    then show ?thesis by (rule out(4))
  next
    assume known: "announces content (network setting0)"
    from download_total [OF assms(3)] announced_total [OF known] have "outcome_size out = length content" by fastforce
    then show ?thesis using out(2) by simp
  qed
  with pre have "expected_size asset = Some (length content) \<or> announces content (network setting0) \<Longrightarrow> stored t = content"
    by (auto simp: prefix_def)
  with pre out(1-3) show ?thesis by blast
qed

section \<open>A concrete origin\<close>

text \<open>It sends three bytes in two chunks; the first attempt stops after two of them, and the second resumes.\<close>

definition example_reply :: "nat \<Rightarrow> body http_reply" where
  "example_reply n = (if n = 0 then \<lparr>reply_status = 200, reply_headers = [], reply_body = ([[1, 2], [3]], Body_Complete)\<rparr>
     else \<lparr>reply_status = 206, reply_headers = [(''Content-Range'', ''bytes 2-2/3'')], reply_body = ([[3]], Body_Complete)\<rparr>)"

definition example_net :: "body internet" where
  "example_net = \<lparr>name_service = (\<lambda>n host. Some [''93.184.216.34'']), respond = (\<lambda>n q. Some (example_reply n)),
     url_join = (\<lambda>base location. location)\<rparr>"

definition example_setting :: transfer_setting where
  "example_setting = \<lparr>digest = (\<lambda>b. replicate (length b) (CHR ''a'')), network = example_net, policy = production_policy,
     credentials = [], maximum_bytes = 10\<rparr>"

definition example_env :: "bool \<Rightarrow> download_context" where
  "example_env stops = \<lparr>open_fault = False, truncate_fault = False, read_fault = False, chunk_fault = (\<lambda>n. None),
     close_fault = False, reports_progress = False, start_time = 0, chunk_time = (\<lambda>n. 0), stop_after = (\<lambda>n. stops)\<rparr>"

definition example_asset :: remote_asset where
  "example_asset = \<lparr>asset_url = ''https://a.org/x'', expected_size = Some 3, expected_sha256 = None, etag = None, resumable = True\<rparr>"

definition no_download :: download_state where
  "no_download = \<lparr>part_file = None, wire = [], progress_reports = []\<rparr>"

lemma example_open:
  "transport_open example_net production_policy [] ''GET'' options ''https://a.org/x'' w =
     (w @ [\<lparr>target_address = IPv4 1572395042, target_host = ''a.org'', target_port = 443, http_method = ''GET'', http_path = ''/x'',
        http_headers = request_headers [] options
          \<lparr>full_url = ''https://a.org/x'', url_host = ''a.org'', checked_port = 443, path_and_query = ''/x''\<rparr>\<rparr>],
      Inr (response_of ''https://a.org/x'' (example_reply (length w))))"
  by (simp add: transport_open_def maximum_redirects_def numeral_eq_Suc example_urls resolve_and_check_def example_net_def
      parse_literal_def example_literals example_checks send_def Let_def redirect_statuses_def example_reply_def)

lemma example_range:
  "range_start (response_of url \<lparr>reply_status = 206, reply_headers = [(''Content-Range'', ''bytes 2-2/3'')], reply_body = b\<rparr>) = Inr (Some 2)"
proof -
  have "lower_text ''Content-Range'' = ''content-range''" by code_simp
  then show ?thesis
    by (simp add: range_start_def response_of_def header_text_def cut_at_def Let_def all_digits_def is_digit_char_def
        char_between_def int_of_digits_def decimal_value_def digits_value_def)
qed

lemma example_serves: "serves [1, 2, 3] example_net"
  by (auto simp: serves_def example_net_def example_reply_def body_bytes_def example_range prefix_def)

lemma example_length:
  "content_total example_asset (response_of url (example_reply n)) offset = Inr (Some 3)"
proof -
  have "lower_text ''Content-Range'' = ''content-range''" by code_simp
  then show ?thesis
    by (simp add: content_total_def header_text_def response_of_def example_reply_def strip_text_def all_digits_def example_asset_def)
qed

lemma asset_url_of: "asset_url example_asset = ''https://a.org/x''" "resumable example_asset"
    "expected_size example_asset = Some 3" "expected_sha256 example_asset = None"
  by (simp_all add: example_asset_def)

lemma example_length_first: "content_total example_asset (response_of url (example_reply 0)) offset = Inr (Some 3)"
  and example_length_later: "content_total example_asset (response_of url (example_reply (Suc 0))) offset = Inr (Some 3)"
  by (rule example_length)+

lemmas example_download_simps = download_asset_def open_for_append_def part_size_def stream_body_def start_offset_def on_wire_def
  example_open accept_response_def iter_existing_def close_after_def act_when_def append_part_def progress_due_def
  example_length_first example_length_later example_range

lemma example_first:
  "\<exists>q. download_asset (example_env True) example_setting example_asset no_download =
     (\<lparr>part_file = Some [1, 2], wire = [q], progress_reports = []\<rparr>, Inl Download_Stopped)"
proof -
  have "response_status (response_of url (example_reply 0)) = 200"
    "response_body (response_of url (example_reply 0)) = ([[1, 2], [3]], Body_Complete)" for url
    by (simp_all add: response_of_def example_reply_def)
  moreover have "read_pieces 0 0 b = []" for b by (simp add: read_pieces.simps)
  ultimately show ?thesis
    by (simp add: example_download_simps example_env_def example_setting_def no_download_def Let_def
        ensure_def asset_url_of)
qed

lemma example_second:
  "\<exists>t. download_asset (example_env False) example_setting example_asset \<lparr>part_file = Some [1, 2], wire = [q], progress_reports = []\<rparr> =
     (t, Inr \<lparr>outcome_size = 3, outcome_sha256 = ''aaa'', resumed_from = 2\<rparr>)"
proof -
  have "response_status (response_of url (example_reply (Suc 0))) = 206"
    "response_body (response_of url (example_reply (Suc 0))) = ([[3]], Body_Complete)" for url
    by (simp_all add: response_of_def example_reply_def)
  moreover have "range_start (response_of url (example_reply (Suc 0))) = Inr (Some (Suc (Suc 0)))" for url
    unfolding example_reply_def using example_range [of url] by (simp add: numeral_2_eq_2)
  moreover have "read_pieces (Suc (Suc 0)) 0 [1, 2] = [[1, 2 :: byte]]"
    by (simp add: read_pieces.simps stream_chunk_bytes_def)
  ultimately show ?thesis
    by (simp add: example_download_simps example_env_def example_setting_def Let_def
        ensure_def asset_url_of verify_download_def numeral_3_eq_3 numeral_2_eq_2)
qed

theorem resumed_download_whole_witness:
  "\<exists>t out. download_asset (example_env False) example_setting example_asset
       (attempts example_asset [(example_env True, example_setting)] no_download) = (t, Inr out) \<and>
     part_file t = Some [1, 2, 3] \<and> resumed_from out = 2"
proof -
  obtain q where first: "download_asset (example_env True) example_setting example_asset no_download =
     (\<lparr>part_file = Some [1, 2], wire = [q], progress_reports = []\<rparr>, Inl Download_Stopped)" using example_first by blast
  obtain t where second: "download_asset (example_env False) example_setting example_asset
     (attempts example_asset [(example_env True, example_setting)] no_download) =
     (t, Inr \<lparr>outcome_size = 3, outcome_sha256 = ''aaa'', resumed_from = 2\<rparr>)"
    using example_second [of q] first by auto
  have "serves [1, 2, 3] (network setting) \<and> maximum_bytes setting = 10"
    if "(env, setting) \<in> set ((example_env False, example_setting) # [(example_env True, example_setting)])" for env setting
    using that example_serves by (auto simp: example_setting_def)
  from resumed_download_whole [OF this _ second] have "part_file t = Some [1, 2, 3]"
    by (simp add: no_download_def example_asset_def)
  with second show ?thesis by auto
qed

theorem download_bounded_and_verified_witness:
  "\<exists>t. part_size t \<le> maximum_bytes example_setting \<and> part_file t = Some [1, 2] \<and>
     fst (download_asset (example_env True) example_setting example_asset no_download) = t"
proof -
  obtain q where first: "download_asset (example_env True) example_setting example_asset no_download =
     (\<lparr>part_file = Some [1, 2], wire = [q], progress_reports = []\<rparr>, Inl Download_Stopped)" using example_first by blast
  from download_bounded_and_verified [OF first] first show ?thesis by (simp add: no_download_def part_size_def)
qed

section \<open>What the code leaves open\<close>

text \<open>
  If neither the asset nor the answer gives a size, a body that ends before the end of the file is
  taken for the file: the answer of this origin has no length and stops after two of three bytes.
\<close>

definition short_reply :: "body http_reply" where
  "short_reply = \<lparr>reply_status = 200, reply_headers = [], reply_body = ([[1, 2]], Body_Complete)\<rparr>"

definition short_net :: "body internet" where
  "short_net = example_net\<lparr>respond := (\<lambda>n q. Some short_reply)\<rparr>"

lemma short_open:
  "\<exists>w'. transport_open short_net production_policy [] ''GET'' options ''https://a.org/x'' w = (w', Inr (response_of ''https://a.org/x'' short_reply))"
  by (simp add: transport_open_def maximum_redirects_def numeral_eq_Suc example_urls resolve_and_check_def short_net_def example_net_def
      parse_literal_def example_literals example_checks send_def Let_def redirect_statuses_def short_reply_def)

lemma short_body_accepted:
  "serves [1, 2, 3] short_net \<and>
   (\<exists>t out. download_asset (example_env False) (example_setting\<lparr>network := short_net\<rparr>) (example_asset\<lparr>expected_size := None\<rparr>) no_download =
      (t, Inr out) \<and> part_file t = Some [1, 2] \<and> outcome_size out = 2)"
proof
  show "serves [1, 2, 3] short_net"
    by (auto simp: serves_def short_net_def short_reply_def body_bytes_def prefix_def)
  obtain w' where run: "transport_open short_net production_policy [] ''GET'' \<lparr>extra_headers = [], byte_range = None, if_range = None\<rparr>
      ''https://a.org/x'' [] = (w', Inr (response_of ''https://a.org/x'' short_reply))"
    using short_open by blast
  have response: "response_status (response_of url short_reply) = 200" "response_headers (response_of url short_reply) = []"
    "response_body (response_of url short_reply) = ([[1, 2]], Body_Complete)" for url
    by (simp_all add: response_of_def short_reply_def)
  have "read_pieces 0 0 b = []" for b by (simp add: read_pieces.simps)
  with response show "\<exists>t out. download_asset (example_env False) (example_setting\<lparr>network := short_net\<rparr>) (example_asset\<lparr>expected_size := None\<rparr>)
      no_download = (t, Inr out) \<and> part_file t = Some [1, 2] \<and> outcome_size out = 2"
    by (simp add: download_asset_def open_for_append_def part_size_def stream_body_def start_offset_def on_wire_def run resume_options_def
        accept_response_def iter_existing_def close_after_def act_when_def append_part_def progress_due_def content_total_def header_text_def
        strip_text_def all_digits_def ensure_def verify_download_def Let_def example_env_def example_setting_def
        example_asset_def no_download_def)
qed

text \<open>
  A stop that is noticed after the last chunk keeps a complete partial file. Resuming it asks for
  the bytes after its end, which a server answers with status 416, and the attempt fails with the
  file unchanged; so does every later one.
\<close>

lemma complete_partial_refused:
  assumes "\<And>options w. \<exists>w' response. transport_open (network setting) (policy setting) (credentials setting) ''GET'' options (asset_url asset) w
      = (w', Inr response) \<and> response_status response = 416"
    and "part_file s = Some content" and "content \<noteq> []" and "resumable asset" and "\<not> open_fault env" and "\<not> close_fault env"
  shows "\<exists>t. download_asset env setting asset s = (t, Inl (transfer_failure ''download_status'')) \<and> part_file t = Some content"
proof -
  obtain w' response where "transport_open (network setting) (policy setting) (credentials setting) ''GET''
      (resume_options asset (length content)) (asset_url asset) (wire s) = (w', Inr response)" "response_status response = 416"
    using assms(1) by blast
  with assms(2-6) show ?thesis
    by (simp add: download_asset_def open_for_append_def part_size_def stream_body_def start_offset_def on_wire_def
        accept_response_def close_after_def)
qed

text \<open>A length of more than 4300 digits is no plain number for \<^verbatim>\<open>int\<close>: its error is not one of the download's own.\<close>

lemma long_content_length_escapes:
  assumes "4300 < length digits" and "list_all is_digit_char digits" and "header_text ''content-length'' response = digits"
  shows "content_total asset response offset = Inl Value_Error"
proof -
  have plain: "\<not> is_space c" if "c \<in> set digits" for c
    using that assms(2) by (auto simp: list_all_iff is_space_def is_digit_char_def char_between_def)
  have "digits \<noteq> []" using assms(1) by auto
  then have "strip_text digits = digits"
    using plain dropWhile_eq_self_iff [of is_space digits] dropWhile_eq_self_iff [of is_space "rev digits"]
    by (simp add: strip_text_def hd_rev)
  with assms \<open>digits \<noteq> []\<close> show ?thesis by (simp add: content_total_def all_digits_def int_of_digits_def)
qed

end
