(* ===== verification/CacheFiles.thy ===== *)
theory CacheFiles
  imports ArchiveMembers Specifications "HOL-Library.Char_ord" "HOL-Library.List_Lexorder"
begin

text \<open>
  The records of the download cache and its small durable file helpers,
  \<^verbatim>\<open>schemas/dataset_cache.py\<close> and \<^verbatim>\<open>backend_service/dataset_sources/cache_records.py\<close>. The cache root
  holds one folder per source kind, which is taken to be a real directory, and in it one node per
  asset, under its identity or, while unfinished, under the identity with an ending. Every file
  operation, disk query and time stamp asks the world at the next tick. SHA-256 and the JSON
  form of the two records are parameters.
\<close>

section \<open>Names\<close>

definition manifest_name :: string where "manifest_name = ''cache_manifest.json''"
definition partial_name :: string where "partial_name = ''partial.json''"
definition lock_name :: string where "lock_name = ''.cache.lock''"
definition partial_ending :: string where "partial_ending = ''.partial''"
definition part_suffix :: string where "part_suffix = ''.part''"
definition maximum_record_bytes :: nat where "maximum_record_bytes = 64 * 1024"
definition reserved_prefix :: string where "reserved_prefix = ''asset_''"
definition cache_kinds :: "string list" where "cache_kinds = [''hugging_face'', ''https_archive'', ''upload'']"
definition maximum_download_bytes :: nat where "maximum_download_bytes = 100 * 1024 ^ 3"

definition cache_failure :: "string \<Rightarrow> exn" where
  "cache_failure code = Application_Failure code (if code = ''cache_too_large'' then 400 else 502)"

definition cache_kind :: "string \<Rightarrow> string result" where
  "cache_kind k = (if k \<in> set cache_kinds then Inr k else Inl (cache_failure ''cache_key''))"

definition is_reserved_name :: "string \<Rightarrow> bool" where
  "is_reserved_name s \<longleftrightarrow> s \<in> {manifest_name, partial_name, lock_name} \<or>
     starts_with s manifest_name \<or> starts_with s partial_name"

definition is_word_char :: "char \<Rightarrow> bool" where
  "is_word_char c \<longleftrightarrow> is_lower_char c \<or> is_upper_char c \<or> is_digit_char c"

definition is_name_char :: "char \<Rightarrow> bool" where
  "is_name_char c \<longleftrightarrow> is_word_char c \<or> c \<in> {CHR ''.'', CHR ''_'', CHR ''-''}"

text \<open>A code point that the pattern keeps is ASCII, so it is the character of the same number.\<close>

definition name_char_of :: "nat \<Rightarrow> char" where
  "name_char_of p = (if p < 128 \<and> is_name_char (char_of p) then char_of p else CHR ''_'')"

definition cache_basename :: "pystr \<Rightarrow> string" where
  "cache_basename path =
     (let simplified = dropWhile (\<lambda>c. c \<in> {CHR ''.'', CHR ''_'', CHR ''-''}) (map name_char_of (last (split_on slash path)));
          short = take 255 (if simplified = [] then ''asset'' else simplified) in
      if is_reserved_name short then take 255 (reserved_prefix @ short) else short)"

definition cache_directory :: "string \<Rightarrow> string \<Rightarrow> bool \<Rightarrow> (string \<times> string) result" where
  "cache_directory kind identity partial =
     (if \<not> is_sha256 identity then Inl (cache_failure ''cache_key'')
      else andThen (cache_kind kind) (\<lambda>k. Inr (k, identity @ (if partial then partial_ending else []))))"

section \<open>Records\<close>

record cache_manifest =
  manifest_kind :: string
  manifest_identity :: string
  manifest_reference :: pystr
  manifest_revision :: string
  manifest_path :: pystr
  manifest_basename :: string
  manifest_size :: nat
  manifest_sha256 :: string
  manifest_etag :: "string option"
  manifest_terms :: pystr
  manifest_created_at :: string

definition text_between :: "nat \<Rightarrow> nat \<Rightarrow> 'a list \<Rightarrow> bool" where
  "text_between lo hi s \<longleftrightarrow> lo \<le> length s \<and> length s \<le> hi"

definition basename_pattern :: "string \<Rightarrow> bool" where
  "basename_pattern s \<longleftrightarrow> s \<noteq> [] \<and> is_word_char (hd s) \<and> list_all is_name_char (tl s) \<and> length (tl s) \<le> 254"

definition manifest_valid :: "cache_manifest \<Rightarrow> bool" where
  "manifest_valid m \<longleftrightarrow> manifest_kind m \<in> set cache_kinds \<and> is_sha256 (manifest_identity m) \<and>
     text_between 1 4096 (manifest_reference m) \<and> text_between 1 128 (manifest_revision m) \<and>
     relative_path (manifest_path m) = Inr (manifest_path m) \<and> basename_pattern (manifest_basename m) \<and>
     manifest_size m \<le> maximum_download_bytes \<and> is_sha256 (manifest_sha256 m) \<and>
     (case manifest_etag m of None \<Rightarrow> True | Some tag \<Rightarrow> length tag \<le> 256) \<and>
     text_between 1 4096 (manifest_terms m) \<and> text_between 1 64 (manifest_created_at m)"

record partial_record =
  partial_owner :: string
  partial_received :: nat
  partial_size :: "nat option"
  partial_sha256 :: "string option"
  partial_etag :: "string option"
  partial_updated_at :: string

definition partial_valid :: "partial_record \<Rightarrow> bool" where
  "partial_valid r \<longleftrightarrow> text_between 1 64 (partial_owner r) \<and>
     list_all (\<lambda>c. is_lower_char c \<or> is_digit_char c \<or> c = CHR ''_'') (partial_owner r) \<and>
     partial_received r \<le> maximum_download_bytes \<and>
     (case partial_size r of None \<Rightarrow> True | Some n \<Rightarrow> n \<le> maximum_download_bytes) \<and>
     (case partial_sha256 r of None \<Rightarrow> True | Some h \<Rightarrow> is_sha256 h) \<and>
     (case partial_etag r of None \<Rightarrow> True | Some tag \<Rightarrow> length tag \<le> 256) \<and>
     text_between 1 64 (partial_updated_at r)"

section \<open>The tree and the world\<close>

datatype cache_item = Regular "byte list" | Symlink | Subdirectory

datatype cache_node = Folder "(string \<times> cache_item) list" | Link | Stray_File

record cache_tree =
  nodes :: "((string \<times> string) \<times> cache_node) list"
  ticks :: nat

datatype local_source = Missing_File | Special_File | Local_File "byte list"

record cache_world =
  fault_at :: "nat \<Rightarrow> nat option"
  usage_at :: "nat \<Rightarrow> disk_usage option"
  stamp_at :: "nat \<Rightarrow> string"
  local_files :: "string \<Rightarrow> local_source"
  content_sha :: "byte list \<Rightarrow> string"
  manifest_json :: "cache_manifest \<Rightarrow> byte list"
  manifest_of_json :: "byte list \<Rightarrow> cache_manifest option"
  partial_json :: "partial_record \<Rightarrow> byte list"
  partial_of_json :: "byte list \<Rightarrow> partial_record option"

type_synonym 'a caching = "(cache_tree, 'a) action"
type_synonym place = "string \<times> string"

definition folder_items :: "place \<Rightarrow> cache_tree \<Rightarrow> (string \<times> cache_item) list option" where
  "folder_items k s = (case dict_get (nodes s) k of Some (Folder items) \<Rightarrow> Some items | _ \<Rightarrow> None)"

definition item_at :: "place \<Rightarrow> string \<Rightarrow> cache_tree \<Rightarrow> cache_item option" where
  "item_at k name s = (case folder_items k s of None \<Rightarrow> None | Some items \<Rightarrow> dict_get items name)"

definition bytes_at :: "place \<Rightarrow> string \<Rightarrow> cache_tree \<Rightarrow> byte list option" where
  "bytes_at k name s = (case item_at k name s of Some (Regular b) \<Rightarrow> Some b | _ \<Rightarrow> None)"

definition change_items :: "place \<Rightarrow> ((string \<times> cache_item) list \<Rightarrow> (string \<times> cache_item) list) \<Rightarrow> cache_tree \<Rightarrow> cache_tree" where
  "change_items k f s = (case folder_items k s of None \<Rightarrow> s
     | Some items \<Rightarrow> s\<lparr>nodes := AList.update k (Folder (f items)) (nodes s)\<rparr>)"

abbreviation set_item :: "place \<Rightarrow> string \<Rightarrow> cache_item \<Rightarrow> cache_tree \<Rightarrow> cache_tree" where
  "set_item k name item \<equiv> change_items k (AList.update name item)"

abbreviation drop_item :: "place \<Rightarrow> string \<Rightarrow> cache_tree \<Rightarrow> cache_tree" where
  "drop_item k name \<equiv> change_items k (AList.delete name)"

text \<open>An operation that fails leaves a part of its effect; a probe answers \<open>fallback\<close> instead.\<close>

definition cache_operation :: "cache_world \<Rightarrow> (nat \<Rightarrow> cache_tree \<Rightarrow> cache_tree) \<Rightarrow> (cache_tree \<Rightarrow> cache_tree) \<Rightarrow> unit caching" where
  "cache_operation w partial whole s =
     (let s' = s\<lparr>ticks := Suc (ticks s)\<rparr> in
      case fault_at w (ticks s) of None \<Rightarrow> (whole s', Inr ()) | Some n \<Rightarrow> (partial n s', Inl OS_Error))"

definition cache_probe :: "cache_world \<Rightarrow> 'a \<Rightarrow> (cache_tree \<Rightarrow> 'a) \<Rightarrow> 'a caching" where
  "cache_probe w fallback f s =
     (s\<lparr>ticks := Suc (ticks s)\<rparr>, Inr (case fault_at w (ticks s) of None \<Rightarrow> f s | Some n \<Rightarrow> fallback))"

definition failing_as :: "exn \<Rightarrow> 'a caching \<Rightarrow> 'a caching" where
  "failing_as e m s = (case m s of (t, Inl OS_Error) \<Rightarrow> (t, Inl e) | outcome \<Rightarrow> outcome)"

text \<open>
  \<^verbatim>\<open>directory_descriptor\<close> turns an \<^verbatim>\<open>OSError\<close> of the block that it guards into its own failure, before
  any handler around the block sees it.
\<close>

definition inside_folder :: "cache_world \<Rightarrow> place \<Rightarrow> 'a caching \<Rightarrow> 'a caching" where
  "inside_folder w k body = failing_as (dataset_failure ''dataset_access'')
     (act_bind (cache_operation w (\<lambda>n s. s) id) (\<lambda>_. act_bind act_get (\<lambda>s.
      if folder_items k s = None then act_raise OS_Error else body)))"

definition cache_lock :: "cache_world \<Rightarrow> unit caching" where
  "cache_lock w s = (s\<lparr>ticks := Suc (ticks s)\<rparr>,
     case fault_at w (ticks s) of None \<Rightarrow> Inr ()
     | Some n \<Rightarrow> Inl (if n = 0 then dataset_failure ''dataset_access'' else if n = 1 then cache_failure ''cache_storage'' else OS_Error))"

section \<open>Reading and writing records\<close>

definition read_bounded :: "place \<Rightarrow> string \<Rightarrow> nat \<Rightarrow> cache_tree \<Rightarrow> byte list option" where
  "read_bounded k name limit s = (case bytes_at k name s of None \<Rightarrow> None | Some b \<Rightarrow> if limit < length b then None else Some b)"

definition read_manifest :: "cache_world \<Rightarrow> place \<Rightarrow> cache_manifest option caching" where
  "read_manifest w k = cache_probe w None (\<lambda>s.
     case read_bounded k manifest_name maximum_record_bytes s of None \<Rightarrow> None | Some b \<Rightarrow> manifest_of_json w b)"

definition read_partial_record :: "cache_world \<Rightarrow> place \<Rightarrow> partial_record option caching" where
  "read_partial_record w k = cache_probe w None (\<lambda>s.
     case read_bounded k partial_name maximum_record_bytes s of None \<Rightarrow> None | Some b \<Rightarrow> partial_of_json w b)"

definition put_item :: "cache_world \<Rightarrow> place \<Rightarrow> string \<Rightarrow> byte list \<Rightarrow> unit caching" where
  "put_item w k name data = cache_operation w
     (\<lambda>n. if n = 0 then id else set_item k name (Regular (take (n - 1) data))) (set_item k name (Regular data))"

definition write_cache_record :: "cache_world \<Rightarrow> place \<Rightarrow> string \<Rightarrow> byte list \<Rightarrow> bool \<Rightarrow> unit caching" where
  "write_cache_record w k name data replacing =
     (let target = (if replacing then name @ ''.tmp'' else name) in
      failing_as (cache_failure ''cache_storage'') (inside_folder w k (act_bind act_get (\<lambda>s.
        if (if replacing then item_at k target s \<in> {Some Symlink, Some Subdirectory} else item_at k target s \<noteq> None)
        then act_raise OS_Error
        else act_bind (put_item w k target data) (\<lambda>_.
          act_bind (act_when replacing (act_bind act_get (\<lambda>s.
            if item_at k name s = Some Subdirectory then act_raise OS_Error
            else cache_operation w (\<lambda>n s. s) (\<lambda>s. set_item k name (Regular data) (drop_item k target s))))) (\<lambda>_.
          cache_operation w (\<lambda>n s. s) id))))))"

definition write_manifest_file :: "cache_world \<Rightarrow> place \<Rightarrow> cache_manifest \<Rightarrow> unit caching" where
  "write_manifest_file w k m = write_cache_record w k manifest_name (manifest_json w m) False"

definition write_partial_record :: "cache_world \<Rightarrow> place \<Rightarrow> partial_record \<Rightarrow> unit caching" where
  "write_partial_record w k r = write_cache_record w k partial_name (partial_json w r) True"

definition some_items :: "nat \<Rightarrow> (string \<times> cache_item) list \<Rightarrow> (string \<times> cache_item) list" where
  "some_items n items = map snd (filter (\<lambda>(i, _). bit n i) (enumerate 0 items))"

definition remove_node :: "cache_world \<Rightarrow> place \<Rightarrow> unit caching" where
  "remove_node w k = failing_as (cache_failure ''cache_storage'') (act_bind act_get (\<lambda>s.
     case dict_get (nodes s) k of
       Some Link \<Rightarrow> cache_operation w (\<lambda>n s. s) (\<lambda>s. s\<lparr>nodes := AList.delete k (nodes s)\<rparr>)
     | Some (Folder items) \<Rightarrow> cache_operation w (\<lambda>n. change_items k (some_items n)) (\<lambda>s. s\<lparr>nodes := AList.delete k (nodes s)\<rparr>)
     | _ \<Rightarrow> act_return ()))"

definition is_regular :: "cache_world \<Rightarrow> place \<Rightarrow> string \<Rightarrow> bool caching" where
  "is_regular w k name = cache_probe w False (\<lambda>s. bytes_at k name s \<noteq> None \<and> length name \<le> 255)"

section \<open>Entries\<close>

record cache_entry =
  entry_kind :: string
  entry_identity :: string
  entry_directory :: place
  entry_file :: string
  entry_manifest :: cache_manifest

definition entry_bytes_valid :: "cache_world \<Rightarrow> place \<Rightarrow> cache_manifest \<Rightarrow> bool \<Rightarrow> bool caching" where
  "entry_bytes_valid w k m verify_bytes =
     act_bind (is_regular w k (manifest_basename m)) (\<lambda>regular.
     if \<not> regular then act_return False else
     act_bind (cache_probe w False (\<lambda>s. case bytes_at k (manifest_basename m) s of
        None \<Rightarrow> False | Some b \<Rightarrow> length b = manifest_size m)) (\<lambda>valid.
     if \<not> (valid \<and> verify_bytes) then act_return valid else
     cache_probe w False (\<lambda>s. case bytes_at k (manifest_basename m) s of
        None \<Rightarrow> False | Some b \<Rightarrow> length b \<le> manifest_size m \<and> content_sha w b = manifest_sha256 m)))"

definition load_entry :: "cache_world \<Rightarrow> place \<Rightarrow> string \<Rightarrow> string \<Rightarrow> bool \<Rightarrow> cache_entry option caching" where
  "load_entry w k kind identity verify_bytes = act_bind act_get (\<lambda>s.
     if folder_items k s = None then act_return None
     else act_bind (read_manifest w k) (\<lambda>found.
       case found of
         None \<Rightarrow> act_return None
       | Some m \<Rightarrow>
           if (manifest_kind m, manifest_identity m) \<noteq> (kind, identity) then act_return None
           else act_bind (entry_bytes_valid w k m verify_bytes) (\<lambda>valid.
             act_return (if valid then Some \<lparr>entry_kind = kind, entry_identity = identity, entry_directory = k,
                entry_file = manifest_basename m, entry_manifest = m\<rparr> else None))))"

section \<open>Walking the cache\<close>

definition ends_in :: "string \<Rightarrow> string \<Rightarrow> bool" where
  "ends_in s e \<longleftrightarrow> length e \<le> length s \<and> drop (length s - length e) s = e"

record scanned_node =
  scanned_kind :: string
  scanned_name :: string
  scanned_partial :: bool

abbreviation scanned_place :: "scanned_node \<Rightarrow> place" where
  "scanned_place n \<equiv> (scanned_kind n, scanned_name n)"

definition kind_listing :: "string \<Rightarrow> cache_tree \<Rightarrow> scanned_node list" where
  "kind_listing kind s =
     map (\<lambda>name. \<lparr>scanned_kind = kind, scanned_name = name, scanned_partial = ends_in name partial_ending\<rparr>)
       (filter (\<lambda>name. folder_items (kind, name) s \<noteq> None \<and>
            is_sha256 (if ends_in name partial_ending then take (length name - length partial_ending) name else name))
          (sort (map (\<lambda>(k, _). snd k) (filter (\<lambda>(k, _). fst k = kind) (nodes s)))))"

fun scan_kinds :: "cache_world \<Rightarrow> string list \<Rightarrow> scanned_node list caching" where
  "scan_kinds w [] = act_return []"
| "scan_kinds w (kind # kinds) =
     act_bind (cache_operation w (\<lambda>n s. s) id) (\<lambda>_. act_bind act_get (\<lambda>s.
     act_bind (scan_kinds w kinds) (\<lambda>rest. act_return (kind_listing kind s @ rest))))"

definition scan_cache :: "cache_world \<Rightarrow> scanned_node list caching" where
  "scan_cache w = scan_kinds w cache_kinds"

end
