(* ===== verification/FetchPlans.thy ===== *)
theory FetchPlans
  imports CacheFiles JobRequests AddressPolicy
begin

text \<open>
  What a fetch plans before any bytes move: \<^verbatim>\<open>backend_service/dataset_sources/plans.py\<close>, the reuse
  of an earlier raw folder in \<^verbatim>\<open>backend_service/dataset_sources/fetch_reuse.py\<close> and the state of a
  raw folder in \<^verbatim>\<open>backend_service/dataset_sources/source_marker.py\<close>. Python's \<^verbatim>\<open>str.lower\<close>, the canonical
  JSON of the fields of an identity and SHA-256 are parameters.
\<close>

section \<open>Records\<close>

record planned_asset =
  planned_url :: "string option"
  planned_path :: pystr
  planned_size :: "nat option"
  planned_sha256 :: "string option"
  planned_etag :: "string option"
  planned_resumable :: bool
  authorization_host :: "string option"
  local_file :: "string option"

definition planned_basename :: "planned_asset \<Rightarrow> pystr" where
  "planned_basename a = last (split_on slash (planned_path a))"

record resolved_source =
  resolved_kind :: string
  resolved_reference :: pystr
  requested_revision :: "string option"
  resolved_revision :: string
  resolved_access :: string
  resolved_guidance :: "string option"
  resolved_content :: source_content
  resolved_assets :: "planned_asset list"
  pausable :: bool
  declares_splits :: bool
  split_mapping :: "(pystr \<times> dataset_split) list"
  member_split_labels :: "(pystr \<times> pystr) list"
  resolved_warnings :: "string list"
  resolved_terms :: pystr
  resolved_text_column :: "string option"
  resolved_image_column :: "string option"

record materialization_plan =
  plan_resolved :: resolved_source
  plan_source_name :: string
  plan_identity :: string
  plan_maximum_images :: nat
  plan_training :: bool

section \<open>Identities\<close>

text \<open>The fields that the source serializes, and the selection that is a part of them.\<close>

datatype source_selection =
    Hub_Selection "(pystr \<times> dataset_split) list option" source_content "pystr list option" "string option"
      nat "pystr option" "upstream_split option" "string option"
  | Archive_Selection "(pystr \<times> dataset_split) list option" "string option"
  | Upload_Selection "(pystr \<times> dataset_split) list option"

datatype identity_fields =
    Asset_Fields string pystr string pystr "string option"
  | Materialization_Fields string pystr string source_selection nat nat

record naming =
  fields_json :: "identity_fields \<Rightarrow> byte list"
  sha_of :: "byte list \<Rightarrow> string"
  lowered :: "pystr \<Rightarrow> pystr"

definition asset_identity :: "naming \<Rightarrow> string \<Rightarrow> pystr \<Rightarrow> string \<Rightarrow> pystr \<Rightarrow> string option \<Rightarrow> string" where
  "asset_identity n kind reference version path expected =
     sha_of n (fields_json n (Asset_Fields kind reference version path expected))"

definition spec_splits :: "dataset_source \<Rightarrow> (pystr \<times> dataset_split) list option" where
  "spec_splits spec = (case spec of Hugging_Face h \<Rightarrow> archive_splits h | Https_Archive a \<Rightarrow> archive_splits a | Upload_Archive u \<Rightarrow> archive_splits u)"

definition selection_fields :: "dataset_source \<Rightarrow> source_selection" where
  "selection_fields spec = (case spec of
     Hugging_Face h \<Rightarrow> Hub_Selection (archive_splits h) (content h) (file_names h) (image_column h) (maximum_files h) (path_prefix h) (upstream h) (text_column h)
   | Https_Archive a \<Rightarrow> Archive_Selection (archive_splits a) (expected_sha256 a)
   | Upload_Archive u \<Rightarrow> Upload_Selection (archive_splits u))"

definition member_policy_version :: nat where "member_policy_version = 1"

definition materialization_identity :: "naming \<Rightarrow> dataset_source \<Rightarrow> resolved_source \<Rightarrow> nat \<Rightarrow> string" where
  "materialization_identity n spec resolved images = sha_of n (fields_json n
     (Materialization_Fields (resolved_kind resolved) (resolved_reference resolved) (resolved_revision resolved)
        (selection_fields spec) images member_policy_version))"

section \<open>Labels and names\<close>

definition maximum_label_length :: nat where "maximum_label_length = 64"

definition lower_point :: "nat \<Rightarrow> bool" where "lower_point p \<longleftrightarrow> 97 \<le> p \<and> p \<le> 122"
definition digit_point :: "nat \<Rightarrow> bool" where "digit_point p \<longleftrightarrow> 48 \<le> p \<and> p \<le> 57"
definition underscore :: nat where "underscore = 95"
definition dash :: nat where "dash = 45"

definition upstream_label :: "naming \<Rightarrow> pystr \<Rightarrow> pystr" where
  "upstream_label n name =
     (let simplified = map (\<lambda>p. if lower_point p \<or> digit_point p \<or> p = underscore then p else underscore) (lowered n name) in
      take maximum_label_length
        (if simplified = [] \<or> \<not> lower_point (hd simplified) then text_points ''label_'' @ simplified else simplified))"

fun merge_splits :: "naming \<Rightarrow> (pystr \<times> dataset_split) list \<Rightarrow> (pystr \<times> dataset_split) list \<times> (pystr \<times> pystr) list
    \<Rightarrow> ((pystr \<times> dataset_split) list \<times> (pystr \<times> pystr) list) result" where
  "merge_splits n [] (mapping, labels) = Inr (mapping, labels)"
| "merge_splits n ((folder, assigned) # rest) (mapping, labels) =
     (let label = upstream_label n folder in
      if (case dict_get mapping label of None \<Rightarrow> assigned | Some d \<Rightarrow> d) \<noteq> assigned
      then Inl (Application_Failure ''source_split_labels'' 422)
      else merge_splits n rest (AList.update label assigned mapping, AList.update folder label labels))"

definition split_labels :: "naming \<Rightarrow> dataset_source \<Rightarrow> resolved_source \<Rightarrow> ((pystr \<times> dataset_split) list \<times> (pystr \<times> pystr) list) result" where
  "split_labels n spec resolved =
     merge_splits n (case spec_splits spec of None \<Rightarrow> [] | Some d \<Rightarrow> d) (split_mapping resolved, member_split_labels resolved)"

definition plan_for :: "naming \<Rightarrow> dataset_source \<Rightarrow> resolved_source \<Rightarrow> string \<Rightarrow> nat \<Rightarrow> bool \<Rightarrow> materialization_plan result" where
  "plan_for n spec resolved name images training =
     andThen (split_labels n spec resolved) (\<lambda>(mapping, labels).
       Inr \<lparr>plan_resolved = resolved\<lparr>split_mapping := mapping, member_split_labels := labels, declares_splits := mapping \<noteq> []\<rparr>,
         plan_source_name = name, plan_identity = materialization_identity n spec resolved images,
         plan_maximum_images = images, plan_training = training\<rparr>)"

text \<open>\<open>before_text mark s\<close> is \<^verbatim>\<open>s.split(mark, 1)[0]\<close>.\<close>

fun before_text :: "'a list \<Rightarrow> 'a list \<Rightarrow> 'a list" where
  "before_text mark [] = []"
| "before_text mark (x # xs) = (if take (length mark) (x # xs) = mark then [] else x # before_text mark xs)"

definition after_first :: "'a \<Rightarrow> 'a list \<Rightarrow> 'a list" where
  "after_first c s = (if c \<in> set s then tl (dropWhile (\<lambda>x. x \<noteq> c) s) else s)"

definition suggested_source_name :: "naming \<Rightarrow> resolved_source \<Rightarrow> pystr" where
  "suggested_source_name n resolved =
     (let reference = rev (dropWhile (\<lambda>p. p = slash) (rev (resolved_reference resolved)));
          stem = last (split_on slash (if resolved_kind resolved = ''hugging_face''
            then before_text (text_points ''/tree/'') reference else after_first colon reference));
          simplified = map (\<lambda>p. if lower_point p \<or> digit_point p \<or> p \<in> {underscore, dash} then p else underscore)
            (lowered n (before_text [46] stem));
          stripped = dropWhile (\<lambda>p. digit_point p \<or> p \<in> {underscore, dash}) simplified in
      take maximum_label_length (if stripped = [] then text_points ''source'' else stripped))"

section \<open>Raw folders\<close>

record marked_asset =
  marked_path :: pystr
  marked_size :: "nat option"
  marked_sha256 :: "string option"

record source_marker =
  marker_kind :: string
  marker_source_name :: string
  marker_reference :: pystr
  marker_url :: pystr
  marker_terms :: pystr
  marker_revision :: string
  marker_identity :: string
  marker_content :: source_content
  marker_assets :: "marked_asset list"
  marker_members :: nat
  marker_rejected :: nat
  marker_splits :: "(pystr \<times> dataset_split) list"
  marker_declared :: bool
  marker_created_at :: string
  marker_completed :: bool

text \<open>What \<^verbatim>\<open>lstat\<close> and the reading of the marker find at a folder of the data root.\<close>

datatype raw_folder = Nothing_There | Unreadable_There | Not_A_Folder | Folder_There "source_marker option result"

datatype folder_state = Available | Reusable | Conflict

definition raw_folder_state :: "pystr \<Rightarrow> string \<Rightarrow> raw_folder \<Rightarrow> folder_state" where
  "raw_folder_state name identity found =
     (case relative_parts name of
        Inl e \<Rightarrow> Conflict
      | Inr parts \<Rightarrow>
          if length parts \<noteq> 1 then Conflict
          else case found of
            Nothing_There \<Rightarrow> Available
          | Folder_There (Inr (Some m)) \<Rightarrow> if marker_completed m \<and> marker_identity m = identity then Reusable else Conflict
          | _ \<Rightarrow> Conflict)"

definition find_materialized :: "pystr \<Rightarrow> string \<Rightarrow> raw_folder \<Rightarrow> source_marker option result" where
  "find_materialized name identity found =
     (case raw_folder_state name identity found of
        Available \<Rightarrow> Inr None
      | Conflict \<Rightarrow> Inl (Application_Failure ''source_folder_occupied'' 409)
      | Reusable \<Rightarrow> (case found of Folder_There (Inr (Some m)) \<Rightarrow> Inr (Some m)
                      | _ \<Rightarrow> Inl (Application_Failure ''source_folder_occupied'' 409)))"

section \<open>Reuse without the network\<close>

definition commit_sha :: "string \<Rightarrow> bool" where
  "commit_sha s \<longleftrightarrow> length s = 40 \<and> list_all is_hex_char s"

definition reuse_warning :: string where
  "reuse_warning = ''The raw folder from an earlier fetch of this source was reused without asking the server whether the source changed. Inspect the source to check for a newer version.''"

text \<open>\<open>reference_of\<close> is the address without its query and fragment.\<close>

definition reference_matches :: "(pystr \<Rightarrow> pystr) \<Rightarrow> dataset_source \<Rightarrow> source_marker \<Rightarrow> bool" where
  "reference_matches reference_of spec m =
     (case spec of
        Https_Archive a \<Rightarrow> marker_reference m = reference_of (url a)
      | Hugging_Face h \<Rightarrow>
          marker_reference m = text_points (''https://huggingface.co/datasets/'' @ repository h @ ''/tree/'' @ marker_revision m)
            \<and> (\<not> commit_sha (revision h) \<or> revision h = marker_revision m)
      | Upload_Archive u \<Rightarrow> False)"

definition offline_source :: "source_marker \<Rightarrow> resolved_source" where
  "offline_source m = \<lparr>resolved_kind = marker_kind m, resolved_reference = marker_reference m, requested_revision = None,
     resolved_revision = marker_revision m, resolved_access = ''available'', resolved_guidance = None,
     resolved_content = marker_content m, resolved_assets = [], pausable = False, declares_splits = marker_declared m,
     split_mapping = marker_splits m, member_split_labels = [], resolved_warnings = [reuse_warning],
     resolved_terms = marker_terms m, resolved_text_column = None, resolved_image_column = None\<rparr>"

definition spec_kind :: "dataset_source \<Rightarrow> string" where
  "spec_kind spec = (case spec of Hugging_Face h \<Rightarrow> ''hugging_face'' | Https_Archive a \<Rightarrow> ''https_archive'' | Upload_Archive u \<Rightarrow> ''upload'')"

definition reusable_source :: "naming \<Rightarrow> (pystr \<Rightarrow> pystr) \<Rightarrow> dataset_source \<Rightarrow> source_marker option result \<Rightarrow> nat \<Rightarrow> resolved_source option" where
  "reusable_source n reference_of spec found images =
     (case found of
        Inr (Some m) \<Rightarrow>
          if \<not> marker_completed m \<or> marker_kind m \<noteq> spec_kind spec \<or> \<not> reference_matches reference_of spec m then None
          else if materialization_identity n spec (offline_source m) images \<noteq> marker_identity m then None
          else Some (offline_source m)
      | _ \<Rightarrow> None)"

end
