(* ===== verification/DownloadCache.thy ===== *)
theory DownloadCache
  imports FetchPlans Downloads
begin

text \<open>
  The operations of the download cache, \<^verbatim>\<open>backend_service/dataset_sources/cache.py\<close> with
  \<^verbatim>\<open>cache_listing.py\<close>, and what a cleanup counts as used,
  \<^verbatim>\<open>backend_service/dataset_source_service.py\<close>. A section that the code runs under the cache lock is
  one action; the lock itself may fail.
\<close>

section \<open>Partial downloads\<close>

record cache_partial =
  part_kind :: string
  part_identity :: string
  part_directory :: place
  part_name :: string
  part_record :: partial_record
  part_path :: pystr

definition time_stamp :: "cache_world \<Rightarrow> string caching" where
  "time_stamp w s = (s\<lparr>ticks := Suc (ticks s)\<rparr>, Inr (stamp_at w (ticks s)))"

definition reserve_for :: "cache_world \<Rightarrow> int \<Rightarrow> unit caching" where
  "reserve_for w n s = (s\<lparr>ticks := Suc (ticks s)\<rparr>, ensure_disk_reserve (usage_at w (ticks s)) n)"

text \<open>\<^verbatim>\<open>lstat\<close> of the part file; a name that is too long for the file system fails.\<close>

definition part_status :: "cache_world \<Rightarrow> place \<Rightarrow> string \<Rightarrow> nat caching" where
  "part_status w k name = act_bind (cache_operation w (\<lambda>n s. s) id) (\<lambda>_. act_bind act_get (\<lambda>s.
     case bytes_at k name s of None \<Rightarrow> act_raise OS_Error | Some b \<Rightarrow> act_return (length b)))"

definition same_expectations :: "partial_record \<Rightarrow> planned_asset \<Rightarrow> bool" where
  "same_expectations r a \<longleftrightarrow> partial_sha256 r = planned_sha256 a \<and> partial_size r = planned_size a \<and> partial_etag r = planned_etag a"

definition make_folder :: "cache_world \<Rightarrow> place \<Rightarrow> unit caching" where
  "make_folder w k =
     (let make = (\<lambda>s. if dict_get (nodes s) k = None then s\<lparr>nodes := AList.update k (Folder []) (nodes s)\<rparr> else s) in
      failing_as (dataset_failure ''dataset_access'') (act_bind (cache_operation w (\<lambda>n. if n = 0 then id else make) make) (\<lambda>_.
        act_bind act_get (\<lambda>s. if folder_items k s = None then act_raise OS_Error else act_return ()))))"

definition checked_record :: "partial_record \<Rightarrow> partial_record caching" where
  "checked_record r = (if partial_valid r then act_return r else act_raise Value_Error)"

definition adoptable_part :: "cache_world \<Rightarrow> place \<Rightarrow> string \<Rightarrow> planned_asset \<Rightarrow> bool caching" where
  "adoptable_part w k name a = act_bind (read_partial_record w k) (\<lambda>existing.
     case existing of
       None \<Rightarrow> act_return False
     | Some r \<Rightarrow> act_bind (is_regular w k name) (\<lambda>regular. act_return (regular \<and> same_expectations r a)))"

definition open_partial :: "cache_world \<Rightarrow> string \<Rightarrow> string \<Rightarrow> planned_asset \<Rightarrow> string \<Rightarrow> cache_partial caching" where
  "open_partial w kind identity a owner =
     act_bind (act_lift (cache_directory kind identity True)) (\<lambda>k.
     let name = cache_basename (planned_path a) @ part_suffix in
     act_bind (cache_lock w) (\<lambda>_.
     act_bind (adoptable_part w k name a) (\<lambda>adoptable.
     act_bind (act_when (\<not> adoptable) (remove_node w k)) (\<lambda>_.
     act_bind (if adoptable then part_status w k name else act_return 0) (\<lambda>received.
     act_bind (reserve_for w (max (int (case planned_size a of None \<Rightarrow> 0 | Some n \<Rightarrow> n) - int received) 0)) (\<lambda>_.
     act_bind (make_folder w k) (\<lambda>_.
     act_bind (time_stamp w) (\<lambda>now.
     act_bind (checked_record \<lparr>partial_owner = owner, partial_received = received, partial_size = planned_size a,
        partial_sha256 = planned_sha256 a, partial_etag = planned_etag a, partial_updated_at = now\<rparr>) (\<lambda>r.
     act_bind (write_partial_record w k r) (\<lambda>_.
     act_return \<lparr>part_kind = kind, part_identity = identity, part_directory = k, part_name = name,
        part_record = r, part_path = planned_path a\<rparr>))))))))))"

definition update_partial :: "cache_world \<Rightarrow> cache_partial \<Rightarrow> nat \<Rightarrow> cache_partial caching" where
  "update_partial w p bytes =
     act_bind (time_stamp w) (\<lambda>now.
     act_bind (checked_record ((part_record p)\<lparr>partial_received := bytes, partial_updated_at := now\<rparr>)) (\<lambda>r.
     act_bind (cache_lock w) (\<lambda>_.
     act_bind (write_partial_record w (part_directory p) r) (\<lambda>_.
     act_return (p\<lparr>part_record := r\<rparr>)))))"

definition discard_partial :: "cache_world \<Rightarrow> cache_partial \<Rightarrow> string \<Rightarrow> 'a caching" where
  "discard_partial w p code = act_bind (cache_lock w) (\<lambda>_.
     act_bind (remove_node w (part_directory p)) (\<lambda>_. act_raise (cache_failure code)))"

definition remove_partial :: "cache_world \<Rightarrow> string \<Rightarrow> string \<Rightarrow> string \<Rightarrow> bool caching" where
  "remove_partial w kind identity owner =
     act_bind (act_lift (cache_directory kind identity True)) (\<lambda>k.
     act_bind (cache_lock w) (\<lambda>_.
     act_bind (read_partial_record w k) (\<lambda>found.
     if (case found of None \<Rightarrow> True | Some r \<Rightarrow> partial_owner r \<noteq> owner) then act_return False
     else act_bind (remove_node w k) (\<lambda>_. act_return True))))"

section \<open>Publishing an entry\<close>

definition find_complete :: "cache_world \<Rightarrow> string \<Rightarrow> string \<Rightarrow> bool \<Rightarrow> cache_entry option caching" where
  "find_complete w kind identity verify_bytes =
     act_bind (act_lift (cache_directory kind identity False)) (\<lambda>k. load_entry w k kind identity verify_bytes)"

definition adopt_existing :: "cache_world \<Rightarrow> string \<Rightarrow> string \<Rightarrow> cache_entry option caching" where
  "adopt_existing w kind identity =
     act_bind (act_lift (cache_directory kind identity False)) (\<lambda>k. act_bind act_get (\<lambda>s.
     if dict_get (nodes s) k = None then act_return None
     else act_bind (load_entry w k kind identity True) (\<lambda>found.
       case found of None \<Rightarrow> act_raise (cache_failure ''cache_entry_corrupt'') | Some e \<Rightarrow> act_return (Some e))))"

text \<open>A rename, the removal of the record and a flush, each of which may fail.\<close>

definition seal_partial :: "cache_world \<Rightarrow> cache_partial \<Rightarrow> string \<Rightarrow> unit caching" where
  "seal_partial w p basename =
     (let k = part_directory p in
      failing_as (cache_failure ''cache_storage'') (inside_folder w k (act_bind act_get (\<lambda>s.
        case item_at k (part_name p) s of
          None \<Rightarrow> act_raise OS_Error
        | Some item \<Rightarrow>
            if item_at k basename s = Some Subdirectory then act_raise OS_Error
            else act_bind (cache_operation w (\<lambda>n s. s) (\<lambda>s. set_item k basename item (drop_item k (part_name p) s))) (\<lambda>_.
              act_bind act_get (\<lambda>s.
              if item_at k partial_name s \<in> {None, Some Subdirectory} then act_raise OS_Error
              else act_bind (cache_operation w (\<lambda>n s. s) (drop_item k partial_name)) (\<lambda>_.
                cache_operation w (\<lambda>n s. s) id)))))))"

text \<open>The rename that never replaces (\<^verbatim>\<open>publish_directory\<close> of \<^verbatim>\<open>dataset_storage_ops.py\<close>).\<close>

definition publish_node :: "cache_world \<Rightarrow> place \<Rightarrow> place \<Rightarrow> unit caching" where
  "publish_node w k target s =
     (let s' = s\<lparr>ticks := Suc (ticks s)\<rparr> in
      case fault_at w (ticks s) of
        Some n \<Rightarrow> (s', Inl (dataset_failure (if n = 0 then ''dataset_access'' else ''dataset_storage'')))
      | None \<Rightarrow>
          if dict_get (nodes s) target \<noteq> None then (s', Inl (dataset_failure ''dataset_exists''))
          else case dict_get (nodes s) k of
            None \<Rightarrow> (s', Inl (dataset_failure ''dataset_storage''))
          | Some node \<Rightarrow> (s'\<lparr>nodes := AList.update target node (AList.delete k (nodes s))\<rparr>, Inr ()))"

record provenance =
  cited_reference :: pystr
  cited_revision :: string
  cited_terms :: pystr
  cited_at :: string

definition part_basename :: "cache_partial \<Rightarrow> string" where
  "part_basename p = take (length (part_name p) - length part_suffix) (part_name p)"

definition manifest_for :: "cache_partial \<Rightarrow> download_outcome \<Rightarrow> provenance \<Rightarrow> cache_manifest result" where
  "manifest_for p out origin = andThen (cache_kind (part_kind p)) (\<lambda>kind.
     let m = \<lparr>manifest_kind = kind, manifest_identity = part_identity p, manifest_reference = cited_reference origin,
       manifest_revision = cited_revision origin,
       manifest_path = (if part_path p = [] then text_points (part_basename p) else part_path p),
       manifest_basename = part_basename p, manifest_size = outcome_size out, manifest_sha256 = outcome_sha256 out,
       manifest_etag = partial_etag (part_record p), manifest_terms = cited_terms origin, manifest_created_at = cited_at origin\<rparr> in
     if manifest_valid m then Inr m else Inl Value_Error)"

definition publish_entry :: "cache_world \<Rightarrow> cache_partial \<Rightarrow> cache_manifest \<Rightarrow> place \<Rightarrow> cache_entry option caching" where
  "publish_entry w p m target =
     act_bind (seal_partial w p (manifest_basename m)) (\<lambda>_.
     act_bind (write_manifest_file w (part_directory p) m) (\<lambda>_. \<lambda>s.
     case publish_node w (part_directory p) target s of
       (t, Inr u) \<Rightarrow> (t, Inr None)
     | (t, Inl e) \<Rightarrow> if failure_code e = ''dataset_exists'' then adopt_existing w (part_kind p) (part_identity p) t else (t, Inl e)))"

definition complete_partial :: "cache_world \<Rightarrow> cache_partial \<Rightarrow> download_outcome \<Rightarrow> provenance \<Rightarrow> cache_entry caching" where
  "complete_partial w p out origin =
     (let r = part_record p in
      if (case partial_sha256 r of None \<Rightarrow> False | Some h \<Rightarrow> h \<noteq> [] \<and> outcome_sha256 out \<noteq> lower_text h)
        then discard_partial w p ''cache_checksum_mismatch''
      else if (case partial_size r of None \<Rightarrow> False | Some n \<Rightarrow> outcome_size out \<noteq> n)
        then discard_partial w p ''cache_size_mismatch''
      else act_bind (is_regular w (part_directory p) (part_name p)) (\<lambda>regular.
        if \<not> regular then act_raise (cache_failure ''cache_storage'')
        else act_bind (part_status w (part_directory p) (part_name p)) (\<lambda>size.
        if size \<noteq> outcome_size out then act_raise (cache_failure ''cache_storage'')
        else if is_reserved_name (part_basename p) then act_raise (cache_failure ''cache_key'')
        else act_bind (act_lift (manifest_for p out origin)) (\<lambda>m.
        act_bind (act_lift (cache_directory (part_kind p) (part_identity p) False)) (\<lambda>target.
        act_bind (cache_lock w) (\<lambda>_.
        act_bind (adopt_existing w (part_kind p) (part_identity p)) (\<lambda>existing.
        act_bind (if existing = None then publish_entry w p m target else act_return existing) (\<lambda>found.
        case found of
          Some e \<Rightarrow> act_bind (remove_node w (part_directory p)) (\<lambda>_. act_return e)
        | None \<Rightarrow> act_return \<lparr>entry_kind = part_kind p, entry_identity = part_identity p, entry_directory = target,
            entry_file = part_basename p, entry_manifest = m\<rparr>))))))))"

section \<open>Importing a local file\<close>

definition maximum_import_bytes :: nat where "maximum_import_bytes = 2 * 1024 ^ 3"
definition copy_chunk_bytes :: nat where "copy_chunk_bytes = 1024 ^ 2"

function chunks_of :: "nat \<Rightarrow> 'a list \<Rightarrow> 'a list list" where
  "chunks_of n xs = (if n = 0 \<or> xs = [] then [] else take n xs # chunks_of n (drop n xs))"
  by pat_completeness auto
termination by (relation "measure (length \<circ> snd)") auto

declare chunks_of.simps [simp del]

definition extend_part :: "place \<Rightarrow> string \<Rightarrow> byte list \<Rightarrow> cache_tree \<Rightarrow> cache_tree" where
  "extend_part k name data s = (case bytes_at k name s of None \<Rightarrow> s | Some b \<Rightarrow> set_item k name (Regular (b @ data)) s)"

definition open_part :: "cache_world \<Rightarrow> cache_partial \<Rightarrow> unit caching" where
  "open_part w p = act_bind (cache_operation w (\<lambda>n s. s) id) (\<lambda>_. act_bind act_get (\<lambda>s.
     case item_at (part_directory p) (part_name p) s of
       None \<Rightarrow> if folder_items (part_directory p) s = None \<or> 255 < length (part_name p) then act_raise OS_Error
               else act_modify (set_item (part_directory p) (part_name p) (Regular []))
     | Some (Regular b) \<Rightarrow> act_return ()
     | Some _ \<Rightarrow> act_raise OS_Error))"

fun copy_chunks :: "cache_world \<Rightarrow> cache_partial \<Rightarrow> nat \<Rightarrow> byte list list \<Rightarrow> byte list \<Rightarrow> byte list caching" where
  "copy_chunks w p limit [] copied = act_return copied"
| "copy_chunks w p limit (chunk # rest) copied =
     act_bind (cache_operation w (\<lambda>n s. s) id) (\<lambda>_.
     if limit < length copied + length chunk then act_raise (cache_failure ''cache_too_large'')
     else act_bind (cache_operation w (\<lambda>n. extend_part (part_directory p) (part_name p) (take n chunk))
            (extend_part (part_directory p) (part_name p) chunk)) (\<lambda>_.
       copy_chunks w p limit rest (copied @ chunk)))"

definition copy_source :: "cache_world \<Rightarrow> cache_partial \<Rightarrow> nat \<Rightarrow> string \<Rightarrow> byte list caching" where
  "copy_source w p limit file =
     act_bind (cache_operation w (\<lambda>n s. s) (set_item (part_directory p) (part_name p) (Regular []))) (\<lambda>_.
     case local_files w file of
       Missing_File \<Rightarrow> act_raise OS_Error
     | Special_File \<Rightarrow> act_raise (cache_failure ''cache_storage'')
     | Local_File data \<Rightarrow> copy_chunks w p limit (chunks_of copy_chunk_bytes data) [])"

definition close_part :: "cache_world \<Rightarrow> unit caching" where
  "close_part w = cache_operation w (\<lambda>n s. s) id"

definition import_copy :: "cache_world \<Rightarrow> cache_partial \<Rightarrow> nat \<Rightarrow> string \<Rightarrow> byte list caching" where
  "import_copy w p limit file s =
     (case open_part w p s of
        (t, Inl e) \<Rightarrow> discard_partial w p ''cache_storage'' t
      | (t, Inr _) \<Rightarrow>
          (case copy_source w p limit file t of
             (u, Inr copied) \<Rightarrow> act_bind (close_part w) (\<lambda>_. act_return copied) u
           | (u, Inl e) \<Rightarrow> act_bind (close_part w) (\<lambda>_.
               discard_partial w p (if e = OS_Error then ''cache_storage'' else failure_code e)) u))"

definition import_file :: "cache_world \<Rightarrow> string \<Rightarrow> string \<Rightarrow> planned_asset \<Rightarrow> string \<Rightarrow> string \<Rightarrow> provenance \<Rightarrow> cache_entry caching" where
  "import_file w kind identity a file owner origin =
     act_bind (open_partial w kind identity a owner) (\<lambda>p.
     act_bind (import_copy w p (case planned_size a of None \<Rightarrow> maximum_import_bytes | Some n \<Rightarrow> n) file) (\<lambda>copied.
     complete_partial w p \<lparr>outcome_size = length copied, outcome_sha256 = content_sha w copied, resumed_from = 0\<rparr> origin))"

section \<open>Listing and cleaning\<close>

type_synonym users = "(string \<times> string list) list"

definition users_of :: "users \<Rightarrow> string \<Rightarrow> string list" where
  "users_of in_use identity = (case dict_get in_use identity of None \<Rightarrow> [] | Some u \<Rightarrow> u)"

definition maximum_partial_directories :: nat where "maximum_partial_directories = 8"
definition maximum_summary_entries :: nat where "maximum_summary_entries = 1000"
definition maximum_users_per_entry :: nat where "maximum_users_per_entry = 200"

fun owned_partials :: "cache_world \<Rightarrow> string \<Rightarrow> scanned_node list \<Rightarrow> string list \<Rightarrow> string list caching" where
  "owned_partials w owner [] found = act_return found"
| "owned_partials w owner (n # rest) found =
     act_bind (if scanned_partial n then read_partial_record w (scanned_place n) else act_return None) (\<lambda>r.
     let found' = (if (case r of None \<Rightarrow> False | Some r \<Rightarrow> partial_owner r = owner)
       then found @ [scanned_kind n @ ''/'' @ scanned_name n] else found) in
     if maximum_partial_directories \<le> length found' then act_return found' else owned_partials w owner rest found')"

definition partial_directories_of :: "cache_world \<Rightarrow> string \<Rightarrow> string list caching" where
  "partial_directories_of w owner = act_bind (scan_cache w) (\<lambda>found. owned_partials w owner found [])"

definition part_bytes :: "place \<Rightarrow> cache_tree \<Rightarrow> nat" where
  "part_bytes k s = sum_list (map (\<lambda>(name, item). case item of Regular b \<Rightarrow> if ends_in name part_suffix then length b else 0 | _ \<Rightarrow> 0)
     (case folder_items k s of None \<Rightarrow> [] | Some items \<Rightarrow> items))"

record cache_summary =
  listed_entries :: "(cache_manifest \<times> string list) list"
  unlisted_entries :: nat
  total_cached :: nat
  unused_cached :: nat
  unused_entries :: nat
  partial_cached :: nat
  partial_entries :: nat

definition empty_summary :: cache_summary where
  "empty_summary = \<lparr>listed_entries = [], unlisted_entries = 0, total_cached = 0, unused_cached = 0, unused_entries = 0,
     partial_cached = 0, partial_entries = 0\<rparr>"

definition summarize_entry :: "users \<Rightarrow> cache_manifest \<Rightarrow> cache_summary \<Rightarrow> cache_summary result" where
  "summarize_entry in_use m y =
     (let users = users_of in_use (manifest_identity m);
          listed = length (listed_entries y) < maximum_summary_entries in
      if listed \<and> maximum_users_per_entry < length users then Inl Value_Error
      else Inr (y\<lparr>listed_entries := (if listed then listed_entries y @ [(m, users)] else listed_entries y),
        unlisted_entries := (if listed then unlisted_entries y else unlisted_entries y + 1),
        total_cached := total_cached y + manifest_size m,
        unused_cached := unused_cached y + (if users = [] then manifest_size m else 0),
        unused_entries := unused_entries y + (if users = [] then 1 else 0)\<rparr>))"

fun summarize_nodes :: "cache_world \<Rightarrow> users \<Rightarrow> scanned_node list \<Rightarrow> cache_summary \<Rightarrow> cache_summary caching" where
  "summarize_nodes w in_use [] y = act_return y"
| "summarize_nodes w in_use (n # rest) y =
     (if scanned_partial n then
        act_bind (cache_operation w (\<lambda>n s. s) id) (\<lambda>_. act_bind act_get (\<lambda>s.
        summarize_nodes w in_use rest (y\<lparr>partial_entries := partial_entries y + 1,
          partial_cached := partial_cached y + part_bytes (scanned_place n) s\<rparr>)))
      else act_bind (read_manifest w (scanned_place n)) (\<lambda>found.
        case found of
          None \<Rightarrow> summarize_nodes w in_use rest y
        | Some m \<Rightarrow> act_bind (act_lift (summarize_entry in_use m y)) (summarize_nodes w in_use rest)))"

definition summarize_cache :: "cache_world \<Rightarrow> users \<Rightarrow> cache_summary caching" where
  "summarize_cache w in_use = act_bind (scan_cache w) (\<lambda>found. summarize_nodes w in_use found empty_summary)"

definition clear_node :: "cache_world \<Rightarrow> users \<Rightarrow> string set \<Rightarrow> scanned_node \<Rightarrow> unit caching" where
  "clear_node w in_use owners n =
     (if scanned_partial n then
        act_bind (read_partial_record w (scanned_place n)) (\<lambda>found.
        act_when (case found of None \<Rightarrow> True | Some r \<Rightarrow> partial_owner r \<notin> owners) (remove_node w (scanned_place n)))
      else act_bind (read_manifest w (scanned_place n)) (\<lambda>found.
        let identity = (case found of None \<Rightarrow> scanned_name n | Some m \<Rightarrow> manifest_identity m) in
        act_when (users_of in_use identity = []) (remove_node w (scanned_place n))))"

fun clear_nodes :: "cache_world \<Rightarrow> users \<Rightarrow> string set \<Rightarrow> scanned_node list \<Rightarrow> unit caching" where
  "clear_nodes w in_use owners [] = act_return ()"
| "clear_nodes w in_use owners (n # rest) = act_bind (clear_node w in_use owners n) (\<lambda>_. clear_nodes w in_use owners rest)"

definition clear_unused :: "cache_world \<Rightarrow> users \<Rightarrow> string set \<Rightarrow> cache_summary caching" where
  "clear_unused w in_use owners =
     act_bind (cache_lock w) (\<lambda>_.
     act_bind (scan_cache w) (\<lambda>found.
     act_bind (clear_nodes w in_use owners found) (\<lambda>_.
     summarize_cache w in_use)))"

section \<open>What raw folders use\<close>

definition claim_label :: "string list \<Rightarrow> string list \<Rightarrow> string list" where
  "claim_label labels entry = take maximum_users_per_entry (foldl (\<lambda>found l. if l \<in> set found then found else found @ [l]) entry labels)"

definition claim_identity :: "string list \<Rightarrow> string \<Rightarrow> users \<Rightarrow> users" where
  "claim_identity labels identity in_use = AList.update identity (claim_label labels (users_of in_use identity)) in_use"

text \<open>The Python set of the two digests has no fixed order; one entry does not affect another.\<close>

definition claim_asset :: "naming \<Rightarrow> source_marker \<Rightarrow> string list \<Rightarrow> marked_asset \<Rightarrow> users \<Rightarrow> users" where
  "claim_asset n m labels a in_use =
     fold (\<lambda>expected. claim_identity labels (asset_identity n (marker_kind m) (marker_reference m) (marker_revision m) (marked_path a) expected))
       (remdups [marked_sha256 a, None]) in_use"

definition in_use_by :: "naming \<Rightarrow> (string \<times> string list) list \<Rightarrow> (string \<times> source_marker) list \<Rightarrow> users" where
  "in_use_by n prepared markers =
     fold (\<lambda>(name, m). fold (claim_asset n m ((''data/'' @ name) # (case dict_get prepared (marker_identity m) of None \<Rightarrow> [] | Some r \<Rightarrow> r)))
       (marker_assets m)) markers []"

end
