(* ===== verification/FetchDownloads.thy ===== *)
theory FetchDownloads
  imports DownloadCache
begin

text \<open>
  Bringing every planned asset into the cache, \<^verbatim>\<open>backend_service/dataset_sources/fetch_downloads.py\<close>,
  and the inspection of a source (\<^verbatim>\<open>inspection_for\<close> of \<^verbatim>\<open>plans.py\<close>). A download runs on the part file of
  the cache. The faults of its file operations, the answers of the stop check and the token of the
  hub are inputs; the progress sink accepts every update; a signal that interrupts the process
  between two operations is not modelled.
\<close>

section \<open>The run\<close>

datatype progress_update =
    Download_Phase nat "nat option" bool
  | Bytes_On_Disk nat
  | Assets_Done nat

record fetch_state =
  cache_side :: cache_tree
  fetch_wire :: "http_request list"
  transports :: "(string option \<times> (string \<times> string) list) list"
  progress_updates :: "progress_update list"
  report_entries :: "(string \<times> cache_entry) list"
  report_received :: nat
  report_total :: "nat option"
  report_present :: nat
  report_completed :: nat

type_synonym 'a fetch_action = "(fetch_state, 'a) action"

record download_run =
  run_plan :: materialization_plan
  run_owner :: string
  run_maximum :: nat
  run_resume :: bool
  run_created_at :: string
  run_internet :: "body internet"
  run_context :: "nat \<Rightarrow> download_context"
  run_stop :: "nat \<Rightarrow> bool"
  hub_token :: "string option"

abbreviation run_resolved :: "download_run \<Rightarrow> resolved_source" where
  "run_resolved run \<equiv> plan_resolved (run_plan run)"

definition on_cache :: "'a caching \<Rightarrow> 'a fetch_action" where
  "on_cache m s = (case m (cache_side s) of (t, r) \<Rightarrow> (s\<lparr>cache_side := t\<rparr>, r))"

text \<open>\<open>on_part\<close> runs a download on the part file of a partial and forwards its progress, offset by
  the bytes that are already present.\<close>

definition put_part :: "cache_partial \<Rightarrow> byte list option \<Rightarrow> cache_tree \<Rightarrow> cache_tree" where
  "put_part p found s = (case found of None \<Rightarrow> s | Some b \<Rightarrow> set_item (part_directory p) (part_name p) (Regular b) s)"

definition on_part :: "cache_partial \<Rightarrow> 'a downloading \<Rightarrow> 'a fetch_action" where
  "on_part p m s =
     (case m \<lparr>part_file = bytes_at (part_directory p) (part_name p) (cache_side s), wire = fetch_wire s, progress_reports = []\<rparr> of
        (t, r) \<Rightarrow> (s\<lparr>cache_side := put_part p (part_file t) (cache_side s), fetch_wire := wire t,
          progress_updates := progress_updates s @ map (\<lambda>(n, whole). Bytes_On_Disk (report_present s + n)) (progress_reports t)\<rparr>, r))"

definition part_present :: "cache_partial \<Rightarrow> nat fetch_action" where
  "part_present p s = (s, Inr (case bytes_at (part_directory p) (part_name p) (cache_side s) of None \<Rightarrow> 0 | Some b \<Rightarrow> length b))"

text \<open>A part file that is no plain file, or whose name is too long, cannot be opened.\<close>

definition openable_part :: "cache_partial \<Rightarrow> cache_tree \<Rightarrow> bool" where
  "openable_part p s \<longleftrightarrow> folder_items (part_directory p) s \<noteq> None \<and> length (part_name p) \<le> 255 \<and>
     item_at (part_directory p) (part_name p) s \<notin> {Some Symlink, Some Subdirectory}"

definition part_context :: "download_run \<Rightarrow> cache_partial \<Rightarrow> fetch_state \<Rightarrow> download_context" where
  "part_context run p s = (let env = run_context run (ticks (cache_side s)) in
     env\<lparr>open_fault := open_fault env \<or> \<not> openable_part p (cache_side s), reports_progress := True\<rparr>)"

definition with_context :: "download_run \<Rightarrow> cache_partial \<Rightarrow> (download_context \<Rightarrow> 'a downloading) \<Rightarrow> 'a fetch_action" where
  "with_context run p m = act_bind act_get (\<lambda>s. on_part p (m (part_context run p s)))"

definition run_stops :: "download_run \<Rightarrow> bool fetch_action" where
  "run_stops run = act_bind act_get (\<lambda>s. act_bind (act_modify (\<lambda>s. s\<lparr>cache_side := (cache_side s)\<lparr>ticks := Suc (ticks (cache_side s))\<rparr>\<rparr>))
     (\<lambda>_. act_return (run_stop run (ticks (cache_side s)))))"

definition update_progress :: "progress_update \<Rightarrow> unit fetch_action" where
  "update_progress u = act_modify (\<lambda>s. s\<lparr>progress_updates := progress_updates s @ [u]\<rparr>)"

definition transport_for :: "download_run \<Rightarrow> planned_asset \<Rightarrow> (string \<times> string) list fetch_action" where
  "transport_for run a = act_bind act_get (\<lambda>s.
     let host = authorization_host a;
         authorization = (case (host, hub_token run) of (Some h, Some token) \<Rightarrow> [(h, ''Bearer '' @ token)] | _ \<Rightarrow> []) in
     case dict_get (transports s) host of
       Some t \<Rightarrow> act_return t
     | None \<Rightarrow> act_bind (act_modify (\<lambda>s. s\<lparr>transports := AList.update host authorization (transports s)\<rparr>)) (\<lambda>_. act_return authorization))"

definition run_provenance :: "download_run \<Rightarrow> provenance" where
  "run_provenance run = \<lparr>cited_reference = resolved_reference (run_resolved run), cited_revision = resolved_revision (run_resolved run),
     cited_terms = resolved_terms (run_resolved run), cited_at = run_created_at run\<rparr>"

section \<open>Needs\<close>

record asset_need =
  need_asset :: planned_asset
  need_identity :: string
  need_entry :: "cache_entry option"

definition identity_in :: "naming \<Rightarrow> resolved_source \<Rightarrow> planned_asset \<Rightarrow> string" where
  "identity_in n resolved a = asset_identity n (resolved_kind resolved) (resolved_reference resolved) (resolved_revision resolved)
     (planned_path a) (planned_sha256 a)"

fun asset_needs :: "naming \<Rightarrow> cache_world \<Rightarrow> resolved_source \<Rightarrow> planned_asset list \<Rightarrow> asset_need list caching" where
  "asset_needs n w resolved [] = act_return []"
| "asset_needs n w resolved (a # rest) =
     act_bind (find_complete w (resolved_kind resolved) (identity_in n resolved a) True) (\<lambda>found.
     act_bind (asset_needs n w resolved rest) (\<lambda>needs.
     act_return (\<lparr>need_asset = a, need_identity = identity_in n resolved a, need_entry = found\<rparr> # needs)))"

fun remaining_bytes :: "asset_need list \<Rightarrow> nat option" where
  "remaining_bytes [] = Some 0"
| "remaining_bytes (need # needs) =
     (if need_entry need \<noteq> None \<or> local_file (need_asset need) \<noteq> None then remaining_bytes needs
      else case planned_size (need_asset need) of
        None \<Rightarrow> None
      | Some k \<Rightarrow> map_option (\<lambda>rest. k + rest) (remaining_bytes needs))"

text \<open>The growth of an archive is \<^verbatim>\<open>int(total * 1.1)\<close>; below 10^14 bytes its rounding does not show.\<close>

definition archive_growth :: "string \<Rightarrow> nat \<Rightarrow> nat" where
  "archive_growth kind total_size = (if kind = ''hugging_face'' then total_size else total_size * 11 div 10)"

definition known_sizes :: "planned_asset list \<Rightarrow> nat list option" where
  "known_sizes assets = (if list_all (\<lambda>a. planned_size a \<noteq> None) assets
     then Some (map (\<lambda>a. the (planned_size a)) assets) else None)"

definition check_space :: "cache_world \<Rightarrow> download_run \<Rightarrow> asset_need list \<Rightarrow> unit caching" where
  "check_space w run needs =
     act_bind (case remaining_bytes needs of
         None \<Rightarrow> act_return ()
       | Some n \<Rightarrow> if run_maximum run < n then act_raise (transfer_failure ''download_too_large'') else reserve_for w (int n)) (\<lambda>_.
     case known_sizes (resolved_assets (run_resolved run)) of
       None \<Rightarrow> act_return ()
     | Some sizes \<Rightarrow> reserve_for w (int (archive_growth (resolved_kind (run_resolved run)) (sum_list sizes))))"

section \<open>One asset\<close>

definition import_asset :: "cache_world \<Rightarrow> download_run \<Rightarrow> asset_need \<Rightarrow> string \<Rightarrow> cache_entry fetch_action" where
  "import_asset w run need file = on_cache (import_file w (resolved_kind (run_resolved run)) (need_identity need) (need_asset need) file
     (run_owner run) (run_provenance run))"

definition discard_part_bytes :: "cache_world \<Rightarrow> download_run \<Rightarrow> cache_partial \<Rightarrow> cache_partial fetch_action" where
  "discard_part_bytes w run p =
     act_bind (with_context run p (\<lambda>env. act_bind (open_for_append env) (\<lambda>_. close_after env (truncate_part env)))) (\<lambda>_.
     on_cache (update_partial w p 0))"

definition remote_for :: "planned_asset \<Rightarrow> string \<Rightarrow> remote_asset" where
  "remote_for a address = \<lparr>asset_url = address, expected_size = planned_size a, expected_sha256 = planned_sha256 a,
     etag = planned_etag a, resumable = planned_resumable a\<rparr>"

definition setting_for :: "cache_world \<Rightarrow> download_run \<Rightarrow> (string \<times> string) list \<Rightarrow> transfer_setting" where
  "setting_for w run authorization = \<lparr>digest = content_sha w, network = run_internet run, policy = production_policy,
     credentials = authorization, maximum_bytes = run_maximum run\<rparr>"

definition unusable_partial_codes :: "string list" where
  "unusable_partial_codes = [''download_checksum_mismatch'', ''download_size_mismatch'']"

definition receive_asset :: "cache_world \<Rightarrow> download_run \<Rightarrow> asset_need \<Rightarrow> string \<Rightarrow> cache_partial \<Rightarrow> download_outcome fetch_action" where
  "receive_asset w run need address p = act_bind (transport_for run (need_asset need)) (\<lambda>authorization.
     with_context run p (\<lambda>env. download_asset env (setting_for w run authorization) (remote_for (need_asset need) address)))"

definition after_failure :: "cache_world \<Rightarrow> download_run \<Rightarrow> asset_need \<Rightarrow> cache_partial \<Rightarrow> nat \<Rightarrow> exn \<Rightarrow> 'a fetch_action" where
  "after_failure w run need p started e =
     (if e = Download_Stopped then
        act_bind (part_present p) (\<lambda>n.
        act_bind (on_cache (update_partial w p n)) (\<lambda>_.
        act_bind (act_modify (\<lambda>s. s\<lparr>report_received := report_received s + (n - started)\<rparr>)) (\<lambda>_. act_raise e)))
      else act_bind (act_when (failure_code e \<in> set unusable_partial_codes)
          (act_bind (on_cache (remove_partial w (resolved_kind (run_resolved run)) (need_identity need) (run_owner run))) (\<lambda>_. act_return ())))
        (\<lambda>_. act_raise e))"

definition prepare_part :: "cache_world \<Rightarrow> download_run \<Rightarrow> asset_need \<Rightarrow> cache_partial fetch_action" where
  "prepare_part w run need =
     act_bind (on_cache (open_partial w (resolved_kind (run_resolved run)) (need_identity need) (need_asset need) (run_owner run))) (\<lambda>p.
     act_bind (part_present p) (\<lambda>present.
     if \<not> run_resume run \<and> present \<noteq> 0 then discard_part_bytes w run p else act_return p))"

definition download_need :: "cache_world \<Rightarrow> download_run \<Rightarrow> asset_need \<Rightarrow> string \<Rightarrow> cache_entry fetch_action" where
  "download_need w run need address =
     act_bind (prepare_part w run need) (\<lambda>p.
     act_bind (part_present p) (\<lambda>started. \<lambda>s.
     case receive_asset w run need address p s of
       (t, Inl e) \<Rightarrow> after_failure w run need p started e t
     | (t, Inr out) \<Rightarrow>
         act_bind (act_modify (\<lambda>s. s\<lparr>report_received := report_received s + (outcome_size out - resumed_from out),
            report_present := report_present s + outcome_size out\<rparr>)) (\<lambda>_.
         on_cache (complete_partial w p out (run_provenance run))) t))"

definition provide_asset :: "cache_world \<Rightarrow> download_run \<Rightarrow> asset_need \<Rightarrow> cache_entry fetch_action" where
  "provide_asset w run need =
     (case need_entry need of
        Some e \<Rightarrow> act_return e
      | None \<Rightarrow>
          (case local_file (need_asset need) of
             Some file \<Rightarrow> import_asset w run need file
           | None \<Rightarrow>
               (case planned_url (need_asset need) of
                  Some address \<Rightarrow> download_need w run need address
                | None \<Rightarrow> act_raise (Application_Failure ''source_asset_unreachable'' 502))))"

section \<open>All assets\<close>

fun provide_assets :: "cache_world \<Rightarrow> download_run \<Rightarrow> asset_need list \<Rightarrow> unit fetch_action" where
  "provide_assets w run [] = act_return ()"
| "provide_assets w run (need # needs) =
     act_bind (run_stops run) (\<lambda>stops.
     if stops then act_raise Download_Stopped
     else act_bind (provide_asset w run need) (\<lambda>e.
       act_bind (act_modify (\<lambda>s. s\<lparr>report_entries := AList.update (need_identity need) e (report_entries s),
          report_completed := report_completed s + 1\<rparr>)) (\<lambda>_.
       act_bind act_get (\<lambda>s.
       act_bind (update_progress (Assets_Done (report_completed s))) (\<lambda>_.
       provide_assets w run needs)))))"

definition ensure_assets :: "cache_world \<Rightarrow> download_run \<Rightarrow> asset_need list \<Rightarrow> unit fetch_action" where
  "ensure_assets w run needs =
     act_bind (act_modify (\<lambda>s. s\<lparr>report_total := remaining_bytes needs\<rparr>)) (\<lambda>_.
     act_bind (update_progress (Download_Phase (length needs) (remaining_bytes needs) (pausable (run_resolved run)))) (\<lambda>_.
     provide_assets w run needs))"

definition download_assets :: "naming \<Rightarrow> cache_world \<Rightarrow> download_run \<Rightarrow> unit fetch_action" where
  "download_assets n w run =
     act_bind (on_cache (asset_needs n w (run_resolved run) (resolved_assets (run_resolved run)))) (\<lambda>needs.
     act_bind (on_cache (check_space w run needs)) (\<lambda>_.
     ensure_assets w run needs))"

section \<open>Inspection\<close>

record dataset_inspection =
  inspected_name :: pystr
  asset_count :: nat
  inspected_download :: "nat option"
  inspected_materialized :: "nat option"
  inspected_cached :: nat
  inspected_splits :: bool
  inspected_identity :: string
  inspected_folder :: folder_state
  inspected_free :: int
  inspected_required :: "int option"
  disk_sufficient :: "bool option"

definition maximum_listed_assets :: nat where "maximum_listed_assets = 200"

fun cached_bytes :: "naming \<Rightarrow> cache_world \<Rightarrow> resolved_source \<Rightarrow> planned_asset list \<Rightarrow> nat caching" where
  "cached_bytes n w resolved [] = act_return 0"
| "cached_bytes n w resolved (a # rest) =
     act_bind (find_complete w (resolved_kind resolved) (identity_in n resolved a) False) (\<lambda>found.
     act_bind (cached_bytes n w resolved rest) (\<lambda>bytes.
     act_return ((case found of None \<Rightarrow> 0 | Some e \<Rightarrow> manifest_size (entry_manifest e)) + bytes)))"

definition query_usage :: "cache_world \<Rightarrow> (disk_usage option \<Rightarrow> 'a result) \<Rightarrow> 'a caching" where
  "query_usage w f s = (s\<lparr>ticks := Suc (ticks s)\<rparr>, f (usage_at w (ticks s)))"

definition inspection_for :: "naming \<Rightarrow> cache_world \<Rightarrow> dataset_source \<Rightarrow> resolved_source \<Rightarrow> pystr option
    \<Rightarrow> (pystr \<Rightarrow> raw_folder) \<Rightarrow> nat \<Rightarrow> dataset_inspection caching" where
  "inspection_for n w spec resolved name folder images =
     (let identity = materialization_identity n spec resolved images;
          chosen = (case name of None \<Rightarrow> suggested_source_name n resolved | Some given \<Rightarrow> if given = [] then suggested_source_name n resolved else given) in
      act_bind (cached_bytes n w resolved (resolved_assets resolved)) (\<lambda>cached.
      let download = map_option sum_list (known_sizes (resolved_assets resolved)) in
      act_bind (query_usage w free_disk_bytes) (\<lambda>free.
      act_bind (case download of
          None \<Rightarrow> act_return None
        | Some d \<Rightarrow> act_bind (query_usage w minimum_free_bytes) (\<lambda>reserve.
            act_return (Some (int (d - cached) + int (archive_growth (resolved_kind resolved) d) + reserve)))) (\<lambda>required.
      let result = \<lparr>inspected_name = chosen, asset_count = length (resolved_assets resolved), inspected_download = download,
            inspected_materialized = map_option (archive_growth (resolved_kind resolved)) download, inspected_cached = cached,
            inspected_splits = (declares_splits resolved \<or> (case spec_splits spec of None \<Rightarrow> False | Some d \<Rightarrow> d \<noteq> [])),
            inspected_identity = identity, inspected_folder = raw_folder_state chosen identity (folder chosen),
            inspected_free = free, inspected_required = required, disk_sufficient = map_option (\<lambda>r. r \<le> free) required\<rparr> in
      if asset_count result \<le> 10000 \<and> (case download of None \<Rightarrow> True | Some d \<Rightarrow> d \<le> maximum_download_bytes)
        \<and> length (resolved_warnings resolved) \<le> 64
      then act_return result else act_raise Value_Error))))"

end
