(* ===== verification/CacheSafety.thy ===== *)
theory CacheSafety
  imports FetchDownloads
begin

text \<open>
  Where the operations of the cache write: everything but the publication of an entry and the
  cleanup stays inside the partial node it works on, so complete entries are immutable.
\<close>

section \<open>Operations that stay in one node\<close>

definition confined :: "place \<Rightarrow> 'a caching \<Rightarrow> bool" where
  "confined k m \<longleftrightarrow> (\<forall>s k'. k' \<noteq> k \<longrightarrow> dict_get (nodes (fst (m s))) k' = dict_get (nodes s) k')"

definition node_free :: "'a caching \<Rightarrow> bool" where
  "node_free m \<longleftrightarrow> (\<forall>s. nodes (fst (m s)) = nodes s)"

named_theorems frame_intros
named_theorems idle_intros

lemma idle_confined: "node_free m \<Longrightarrow> confined k m"
  by (simp add: node_free_def confined_def)

lemma confined_bind [frame_intros]:
  "confined k m \<Longrightarrow> (\<And>x. confined k (f x)) \<Longrightarrow> confined k (act_bind m f)"
  unfolding confined_def by (auto simp: act_bind_def split: prod.splits sum.splits) (metis fst_conv)+

lemma idle_bind [idle_intros]: "node_free m \<Longrightarrow> (\<And>x. node_free (f x)) \<Longrightarrow> node_free (act_bind m f)"
  unfolding node_free_def by (auto simp: act_bind_def split: prod.splits sum.splits) (metis fst_conv)+

lemma idle_basic [idle_intros]:
  "node_free (act_return x)" "node_free (act_raise e)" "node_free act_get" "node_free (act_lift q)"
  by (simp_all add: node_free_def)

lemmas idle_basic_confined [frame_intros] = idle_basic [THEN idle_confined]

lemma confined_if [frame_intros]:
  "(b \<Longrightarrow> confined k m) \<Longrightarrow> (\<not> b \<Longrightarrow> confined k m') \<Longrightarrow> confined k (if b then m else m')"
  by simp

lemma idle_if [idle_intros]: "(b \<Longrightarrow> node_free m) \<Longrightarrow> (\<not> b \<Longrightarrow> node_free m') \<Longrightarrow> node_free (if b then m else m')"
  by simp

lemma confined_when [frame_intros]: "confined k m \<Longrightarrow> confined k (act_when b m)"
  by (simp add: act_when_def frame_intros)

lemma confined_option [frame_intros]:
  "(x = None \<Longrightarrow> confined k m) \<Longrightarrow> (\<And>y. x = Some y \<Longrightarrow> confined k (f y)) \<Longrightarrow> confined k (case x of None \<Rightarrow> m | Some y \<Rightarrow> f y)"
  by (simp split: option.split)

lemma idle_option [idle_intros]:
  "(x = None \<Longrightarrow> node_free m) \<Longrightarrow> (\<And>y. x = Some y \<Longrightarrow> node_free (f y)) \<Longrightarrow> node_free (case x of None \<Rightarrow> m | Some y \<Rightarrow> f y)"
  by (simp split: option.split)

lemma change_items_elsewhere: "k' \<noteq> k \<Longrightarrow> dict_get (nodes (change_items k f s)) k' = dict_get (nodes s) k'"
  by (simp add: change_items_def split: option.split)

lemma operation_idle [idle_intros]: "node_free (cache_operation w (\<lambda>n s. s) id)"
  by (simp add: node_free_def cache_operation_def Let_def split: option.split)

lemmas operation_idle_confined [frame_intros] = operation_idle [THEN idle_confined]

lemma probe_idle [idle_intros]: "node_free (cache_probe w d f)"
  by (simp add: node_free_def cache_probe_def)

lemmas probe_idle_confined [frame_intros] = probe_idle [THEN idle_confined]

lemma lock_idle [idle_intros]: "node_free (cache_lock w)"
  by (simp add: node_free_def cache_lock_def)

lemmas lock_idle_confined [frame_intros] = lock_idle [THEN idle_confined]

lemma stamp_idle [idle_intros]: "node_free (time_stamp w)" "node_free (reserve_for w n)"
  by (simp_all add: node_free_def time_stamp_def reserve_for_def)

lemmas stamp_idle_confined [frame_intros] = stamp_idle [THEN idle_confined]

lemma operation_confined:
  assumes "\<And>n s k'. k' \<noteq> k \<Longrightarrow> dict_get (nodes (partial n s)) k' = dict_get (nodes s) k'"
    and "\<And>s k'. k' \<noteq> k \<Longrightarrow> dict_get (nodes (whole s)) k' = dict_get (nodes s) k'"
  shows "confined k (cache_operation w partial whole)"
  using assms by (simp add: confined_def cache_operation_def Let_def split: option.split)

lemma failing_as_state: "fst (failing_as e m s) = fst (m s)"
  by (auto simp: failing_as_def split: prod.split sum.split exn.split)

lemma confined_failing_as [frame_intros]: "confined k m \<Longrightarrow> confined k (failing_as e m)"
  by (simp add: confined_def failing_as_state)

lemma confined_inside_folder [frame_intros]: "confined k m \<Longrightarrow> confined k (inside_folder w k m)"
  unfolding inside_folder_def by (intro frame_intros)

lemma records_idle [idle_intros]:
  "node_free (read_manifest w k)" "node_free (read_partial_record w k)" "node_free (is_regular w k name)"
  "node_free (part_status w k name)" "node_free (entry_bytes_valid w k m v)" "node_free (load_entry w k kind identity v)"
  "node_free (adopt_existing w kind identity)" "node_free (find_complete w kind identity v)"
  "node_free (adoptable_part w k name a)" "node_free (checked_record q)"
  unfolding read_manifest_def read_partial_record_def is_regular_def part_status_def load_entry_def adopt_existing_def
    find_complete_def adoptable_part_def checked_record_def entry_bytes_valid_def
  by (intro idle_intros)+

lemmas records_idle_confined [frame_intros] = records_idle [THEN idle_confined]

lemma put_item_confined [frame_intros]: "confined k (put_item w k name data)"
  unfolding put_item_def by (rule operation_confined) (simp_all add: change_items_elsewhere)

lemma write_record_confined [frame_intros]: "confined k (write_cache_record w k name data replacing)"
  unfolding write_cache_record_def Let_def
  by (intro frame_intros operation_confined) (simp_all add: change_items_elsewhere)

lemma write_records_confined [frame_intros]:
  "confined k (write_manifest_file w k m)" "confined k (write_partial_record w k q)"
  unfolding write_manifest_file_def write_partial_record_def by (intro frame_intros)+

lemma remove_node_confined [frame_intros]: "confined k (remove_node w k)"
proof -
  have "confined k (case dict_get (nodes s) k of
       Some Link \<Rightarrow> cache_operation w (\<lambda>n s. s) (\<lambda>s. s\<lparr>nodes := AList.delete k (nodes s)\<rparr>)
     | Some (Folder items) \<Rightarrow> cache_operation w (\<lambda>n. change_items k (some_items n)) (\<lambda>s. s\<lparr>nodes := AList.delete k (nodes s)\<rparr>)
     | _ \<Rightarrow> act_return ())" for s
    by (auto split: option.split cache_node.split intro!: operation_confined frame_intros simp: change_items_elsewhere)
  then show ?thesis unfolding remove_node_def by (intro confined_failing_as confined_bind idle_basic_confined)
qed

lemma make_folder_confined [frame_intros]: "confined k (make_folder w k)"
  unfolding make_folder_def Let_def by (intro frame_intros operation_confined) simp_all


section \<open>Operations on a partial\<close>

definition partial_place :: "place \<Rightarrow> bool" where
  "partial_place k \<longleftrightarrow> (\<exists>identity. is_sha256 identity \<and> snd k = identity @ partial_ending)"

lemma partial_place_other: "partial_place k \<Longrightarrow> \<not> is_sha256 (snd k)"
  by (auto simp: partial_place_def is_sha256_def partial_ending_def)

lemma cache_directory_cases:
  "cache_directory kind identity b = Inr k \<longleftrightarrow>
     is_sha256 identity \<and> kind \<in> set cache_kinds \<and> k = (kind, identity @ (if b then partial_ending else []))"
  by (auto simp: cache_directory_def cache_kind_def)

lemma cache_directory_partial: "cache_directory kind identity True = Inr k \<Longrightarrow> partial_place k"
  by (auto simp: cache_directory_cases partial_place_def)

definition stays_partial :: "'a caching \<Rightarrow> bool" where
  "stays_partial m \<longleftrightarrow> (\<forall>s k. is_sha256 (snd k) \<longrightarrow> dict_get (nodes (fst (m s))) k = dict_get (nodes s) k)"

lemma confined_stays: "confined k m \<Longrightarrow> partial_place k \<Longrightarrow> stays_partial m"
  unfolding confined_def stays_partial_def using partial_place_other by metis

lemma stays_bind: "stays_partial m \<Longrightarrow> (\<And>x. stays_partial (f x)) \<Longrightarrow> stays_partial (act_bind m f)"
  unfolding stays_partial_def by (auto simp: act_bind_def split: prod.splits sum.splits) (metis fst_conv)+

lemma stays_bind_lift: "(\<And>x. q = Inr x \<Longrightarrow> stays_partial (f x)) \<Longrightarrow> stays_partial (act_bind (act_lift q) f)"
  by (cases q) (simp_all add: stays_partial_def)

lemma idle_stays: "node_free m \<Longrightarrow> stays_partial m"
  by (simp add: node_free_def stays_partial_def)

lemma open_partial_stays: "stays_partial (open_partial w kind identity a owner)"
  unfolding open_partial_def Let_def
  apply (rule stays_bind_lift)
  subgoal for k by (rule confined_stays [of k]) (intro frame_intros, rule cache_directory_partial)
  done

lemma update_partial_confined: "confined (part_directory p) (update_partial w p n)"
  unfolding update_partial_def by (intro frame_intros)

lemma discard_partial_confined: "confined (part_directory p) (discard_partial w p code)"
  unfolding discard_partial_def by (intro frame_intros)

lemma remove_partial_stays: "stays_partial (remove_partial w kind identity owner)"
  unfolding remove_partial_def
  apply (rule stays_bind_lift)
  subgoal for k by (rule confined_stays [of k]) (intro frame_intros, rule cache_directory_partial)
  done

lemma seal_partial_confined: "confined (part_directory p) (seal_partial w p basename)"
  unfolding seal_partial_def Let_def
  by (intro frame_intros operation_confined) (simp_all add: change_items_elsewhere)

lemma extend_part_elsewhere: "k' \<noteq> k \<Longrightarrow> dict_get (nodes (extend_part k name data s)) k' = dict_get (nodes s) k'"
  by (simp add: extend_part_def change_items_elsewhere split: option.split)

lemma copy_chunks_confined: "confined (part_directory p) (copy_chunks w p limit chunks copied)"
  by (induction chunks arbitrary: copied)
    (auto intro!: frame_intros operation_confined simp: extend_part_elsewhere)

lemma open_part_confined: "confined (part_directory p) (open_part w p)"
proof -
  have "confined (part_directory p) (act_modify (set_item (part_directory p) (part_name p) (Regular [])))"
    by (simp add: confined_def change_items_elsewhere)
  then show ?thesis unfolding open_part_def
    by (intro confined_bind operation_idle_confined idle_basic_confined)
      (auto intro!: frame_intros split: option.split cache_item.split)
qed

lemma copy_source_confined: "confined (part_directory p) (copy_source w p limit file)"
  unfolding copy_source_def
  by (intro confined_bind operation_confined)
    (auto simp: change_items_elsewhere intro: copy_chunks_confined frame_intros split: local_source.split)

lemma close_part_idle [idle_intros]: "node_free (close_part w)"
  unfolding close_part_def by (intro idle_intros)

lemma import_copy_confined: "confined (part_directory p) (import_copy w p limit file)"
proof -
  let ?k = "part_directory p"
  have last: "confined ?k (act_bind (close_part w) (\<lambda>_. act_return x))" for x :: "byte list"
    by (intro idle_confined idle_intros)
  have thrown: "confined ?k (act_bind (close_part w) (\<lambda>_. discard_partial w p code :: byte list caching))" for code
    by (intro confined_bind idle_confined [OF close_part_idle] discard_partial_confined)
  have "dict_get (nodes (fst (import_copy w p limit file s))) k' = dict_get (nodes s) k'" if "k' \<noteq> ?k" for s k'
  proof -
    have one: "dict_get (nodes (fst (m u))) k' = dict_get (nodes u) k'" if "confined ?k m" for u and m :: "byte list caching"
      using that \<open>k' \<noteq> ?k\<close> unfolding confined_def by metis
    obtain t r where 1: "open_part w p s = (t, r)" by fastforce
    obtain u q where 2: "copy_source w p limit file t = (u, q)" by fastforce
    have "dict_get (nodes t) k' = dict_get (nodes s) k'"
      using open_part_confined [where p = p] 1 \<open>k' \<noteq> ?k\<close> by (metis confined_def fst_conv)
    moreover have "dict_get (nodes u) k' = dict_get (nodes t) k'"
      using copy_source_confined [where p = p] 2 \<open>k' \<noteq> ?k\<close> by (metis confined_def fst_conv)
    ultimately show ?thesis
      by (cases r; cases q) (simp_all add: import_copy_def 1 2 one [OF last] one [OF thrown] one [OF discard_partial_confined])
  qed
  then show ?thesis by (simp add: confined_def)
qed


section \<open>Contents of a node\<close>

lemma ticks_irrelevant [simp]:
  "folder_items k (s\<lparr>ticks := n\<rparr>) = folder_items k s" "item_at k name (s\<lparr>ticks := n\<rparr>) = item_at k name s"
  "bytes_at k name (s\<lparr>ticks := n\<rparr>) = bytes_at k name s"
  by (simp_all add: folder_items_def item_at_def bytes_at_def)

lemma same_nodes:
  assumes "nodes t = nodes s"
  shows "folder_items k t = folder_items k s" and "item_at k name t = item_at k name s" and "bytes_at k name t = bytes_at k name s"
  using assms by (simp_all add: folder_items_def item_at_def bytes_at_def)

lemma same_node:
  assumes "dict_get (nodes t) k = dict_get (nodes s) k"
  shows "folder_items k t = folder_items k s" and "item_at k name t = item_at k name s" and "bytes_at k name t = bytes_at k name s"
  using assms by (simp_all add: folder_items_def item_at_def bytes_at_def)

lemma folder_change [simp]: "folder_items k (change_items k f s) = map_option f (folder_items k s)"
  by (simp add: change_items_def folder_items_def split: option.split cache_node.split)

lemma item_set: "folder_items k s \<noteq> None \<Longrightarrow> item_at k n (set_item k name item s) = (if n = name then Some item else item_at k n s)"
  by (auto simp: item_at_def)

lemma item_drop: "item_at k n (drop_item k name s) = (if n = name then None else item_at k n s)"
  by (auto simp: item_at_def split: option.split)

lemma folder_of_item: "item_at k n s = Some item \<Longrightarrow> folder_items k s \<noteq> None"
  by (auto simp: item_at_def split: option.splits)

lemma failing_as_Inr [simp]: "failing_as e m s = (t, Inr x) \<longleftrightarrow> m s = (t, Inr x)"
  by (auto simp: failing_as_def split: prod.splits sum.splits exn.splits)

lemma operation_Inr: "cache_operation w f g s = (t, Inr u) \<Longrightarrow> t = g (s\<lparr>ticks := Suc (ticks s)\<rparr>)"
  by (auto simp: cache_operation_def Let_def split: option.splits)

lemma inside_folder_Inr:
  assumes "inside_folder w k body s = (t, Inr x)"
  shows "\<exists>u. nodes u = nodes s \<and> folder_items k u \<noteq> None \<and> body u = (t, Inr x)"
proof -
  from assms obtain u where u: "cache_operation w (\<lambda>n s. s) id s = (u, Inr ())"
    "(if folder_items k u = None then act_raise OS_Error else body) u = (t, Inr x)"
    by (auto simp: inside_folder_def act_bind_Inr)
  have "u = s\<lparr>ticks := Suc (ticks s)\<rparr>" using operation_Inr [OF u(1)] by simp
  then show ?thesis using u(2) by (intro exI [of _ u]) (auto split: if_splits)
qed

lemma seal_partial_Inr:
  assumes "seal_partial w p basename s = (t, Inr u)" and "basename \<noteq> partial_name"
  shows "\<exists>item. item_at (part_directory p) (part_name p) s = Some item \<and> item_at (part_directory p) basename t = Some item"
proof -
  let ?k = "part_directory p"
  from assms(1) obtain v where v: "nodes v = nodes s" "folder_items ?k v \<noteq> None"
    and run: "(act_bind act_get (\<lambda>s. case item_at ?k (part_name p) s of
          None \<Rightarrow> act_raise OS_Error
        | Some item \<Rightarrow>
            if item_at ?k basename s = Some Subdirectory then act_raise OS_Error
            else act_bind (cache_operation w (\<lambda>n s. s) (\<lambda>s. set_item ?k basename item (drop_item ?k (part_name p) s))) (\<lambda>_.
              act_bind act_get (\<lambda>s.
              if item_at ?k partial_name s \<in> {None, Some Subdirectory} then act_raise OS_Error
              else act_bind (cache_operation w (\<lambda>n s. s) (drop_item ?k partial_name)) (\<lambda>_.
                cache_operation w (\<lambda>n s. s) id))))) v = (t, Inr u)"
    unfolding seal_partial_def Let_def by (auto simp del: act_bind_run dest!: inside_folder_Inr)
  obtain item where item: "item_at ?k (part_name p) v = Some item" using run by (auto split: option.splits)
  then obtain v1 v2 where steps:
      "cache_operation w (\<lambda>n s. s) (\<lambda>s. set_item ?k basename item (drop_item ?k (part_name p) s)) v = (v1, Inr ())"
      "cache_operation w (\<lambda>n s. s) (drop_item ?k partial_name) v1 = (v2, Inr ())" "cache_operation w (\<lambda>n s. s) id v2 = (t, Inr u)"
    using run by (auto simp: act_bind_Inr split: if_splits)
  have "item_at ?k basename v1 = Some item"
    using operation_Inr [OF steps(1)] v(2) by (simp add: item_set)
  then have "item_at ?k basename t = Some item"
    using operation_Inr [OF steps(2)] operation_Inr [OF steps(3)] assms(2) by (simp add: item_drop)
  with item show ?thesis using same_nodes(2) [OF v(1)] by auto
qed

lemma write_manifest_Inr:
  assumes "write_manifest_file w k m s = (t, Inr u)"
  shows "item_at k n t = (if n = manifest_name then Some (Regular (manifest_json w m)) else item_at k n s)"
proof -
  from assms obtain v where v: "nodes v = nodes s" "folder_items k v \<noteq> None"
    and run: "act_bind act_get (\<lambda>s. if item_at k manifest_name s \<noteq> None then act_raise OS_Error
        else act_bind (put_item w k manifest_name (manifest_json w m)) (\<lambda>_. act_bind (act_return ()) (\<lambda>_.
          cache_operation w (\<lambda>n s. s) id))) v = (t, Inr u)"
    unfolding write_manifest_file_def write_cache_record_def Let_def act_when_def if_False failing_as_Inr
    by (blast dest: inside_folder_Inr)
  then obtain v1 where steps: "put_item w k manifest_name (manifest_json w m) v = (v1, Inr ())"
      "cache_operation w (\<lambda>n s. s) id v1 = (t, Inr u)"
    by (auto simp: act_bind_Inr split: if_splits)
  show ?thesis
    using operation_Inr [OF steps(1) [unfolded put_item_def]] operation_Inr [OF steps(2)] v(2) same_nodes(2) [OF v(1)]
    by (simp add: item_set)
qed

end
