(* ===== verification/CacheProperties.thy ===== *)
theory CacheProperties
  imports CacheSafety DownloadProperties
begin

text \<open>
  What the download cache promises: a complete entry always holds the bytes its manifest
  describes and is never changed by a fetch, and every operation of the cache that answers with an
  entry answers with such an entry.
\<close>

section \<open>Sound entries\<close>

definition entry_holds :: "cache_world \<Rightarrow> place \<Rightarrow> cache_manifest \<Rightarrow> cache_tree \<Rightarrow> bool" where
  "entry_holds w k m s \<longleftrightarrow> item_at k manifest_name s = Some (Regular (manifest_json w m)) \<and>
     (\<exists>b. bytes_at k (manifest_basename m) s = Some b \<and> length b = manifest_size m \<and> content_sha w b = manifest_sha256 m)"

text \<open>\<open>pins\<close> is the checksum that an identity was derived from.\<close>

definition entry_sound :: "cache_world \<Rightarrow> (string \<Rightarrow> string option) \<Rightarrow> place \<Rightarrow> cache_tree \<Rightarrow> bool" where
  "entry_sound w pins k s \<longleftrightarrow> (\<exists>m. manifest_valid m \<and> manifest_kind m = fst k \<and> manifest_identity m = snd k \<and>
     entry_holds w k m s \<and> (\<forall>h. pins (snd k) = Some h \<longrightarrow> manifest_sha256 m = h))"

definition cache_sound :: "cache_world \<Rightarrow> (string \<Rightarrow> string option) \<Rightarrow> cache_tree \<Rightarrow> bool" where
  "cache_sound w pins s \<longleftrightarrow> (\<forall>k. is_sha256 (snd k) \<and> dict_get (nodes s) k \<noteq> None \<longrightarrow> entry_sound w pins k s)"

definition entries_kept :: "cache_tree \<Rightarrow> cache_tree \<Rightarrow> bool" where
  "entries_kept s t \<longleftrightarrow> (\<forall>k. is_sha256 (snd k) \<and> dict_get (nodes s) k \<noteq> None \<longrightarrow> dict_get (nodes t) k = dict_get (nodes s) k)"

definition codec_documented :: "cache_world \<Rightarrow> bool" where
  "codec_documented w \<longleftrightarrow> (\<forall>m. manifest_valid m \<longrightarrow> manifest_of_json w (manifest_json w m) = Some m)"

definition entry_stands :: "cache_world \<Rightarrow> (string \<Rightarrow> string option) \<Rightarrow> string \<Rightarrow> string \<Rightarrow> cache_tree \<Rightarrow> cache_entry \<Rightarrow> bool" where
  "entry_stands w pins kind identity s e \<longleftrightarrow> entry_kind e = kind \<and> entry_identity e = identity \<and>
     entry_directory e = (kind, identity) \<and> is_sha256 identity \<and> entry_file e = manifest_basename (entry_manifest e) \<and>
     (\<exists>b. bytes_at (kind, identity) (entry_file e) s = Some b \<and> length b = manifest_size (entry_manifest e) \<and>
        content_sha w b = manifest_sha256 (entry_manifest e)) \<and>
     (\<forall>h. pins identity = Some h \<longrightarrow> manifest_sha256 (entry_manifest e) = h)"

lemma entries_kept_refl [simp]: "entries_kept s s"
  by (simp add: entries_kept_def)

lemma entries_kept_trans: "entries_kept s t \<Longrightarrow> entries_kept t u \<Longrightarrow> entries_kept s u"
proof -
  assume st: "entries_kept s t" and tu: "entries_kept t u"
  have "dict_get (nodes u) k = dict_get (nodes s) k" if "is_sha256 (snd k)" "dict_get (nodes s) k \<noteq> None" for k
  proof -
    from st that have t: "dict_get (nodes t) k = dict_get (nodes s) k" unfolding entries_kept_def by blast
    with that(2) have "dict_get (nodes t) k \<noteq> None" by simp
    with tu that(1) have "dict_get (nodes u) k = dict_get (nodes t) k" unfolding entries_kept_def by blast
    with t show ?thesis by simp
  qed
  then show ?thesis unfolding entries_kept_def by blast
qed

lemma same_node_sound:
  assumes "dict_get (nodes t) k = dict_get (nodes s) k"
  shows "entry_sound w pins k t = entry_sound w pins k s"
  unfolding entry_sound_def entry_holds_def by (simp only: same_node [OF assms])

lemma stands_kept:
  assumes "entry_stands w pins kind identity s e" and "entries_kept s t"
  shows "entry_stands w pins kind identity t e"
proof -
  from assms(1) obtain b where "bytes_at (kind, identity) (entry_file e) s = Some b" and id: "is_sha256 identity"
    by (auto simp: entry_stands_def)
  then have "dict_get (nodes s) (kind, identity) \<noteq> None"
    by (auto simp: bytes_at_def item_at_def folder_items_def split: option.splits)
  with assms(2) id have "dict_get (nodes t) (kind, identity) = dict_get (nodes s) (kind, identity)"
    unfolding entries_kept_def by (metis snd_conv)
  from same_node(3) [OF this] have "bytes_at (kind, identity) name t = bytes_at (kind, identity) name s" for name .
  then show ?thesis using assms(1) unfolding entry_stands_def by metis
qed

text \<open>An action advances when it keeps entries and soundness; operations on a partial do.\<close>

definition advanced :: "cache_world \<Rightarrow> (string \<Rightarrow> string option) \<Rightarrow> cache_tree \<Rightarrow> cache_tree \<Rightarrow> bool" where
  "advanced w pins s t \<longleftrightarrow> entries_kept s t \<and> (cache_sound w pins s \<longrightarrow> cache_sound w pins t)"

lemma advanced_refl [simp]: "advanced w pins s s"
  by (simp add: advanced_def)

lemma advanced_trans: "advanced w pins s t \<Longrightarrow> advanced w pins t u \<Longrightarrow> advanced w pins s u"
  unfolding advanced_def using entries_kept_trans by blast

lemma untouched_advanced:
  assumes "\<And>k. is_sha256 (snd k) \<Longrightarrow> dict_get (nodes t) k = dict_get (nodes s) k"
  shows "advanced w pins s t"
  unfolding advanced_def entries_kept_def cache_sound_def using assms same_node_sound by metis

lemma stays_advanced: "stays_partial m \<Longrightarrow> m s = (t, r) \<Longrightarrow> advanced w pins s t"
  by (rule untouched_advanced) (metis stays_partial_def fst_conv)

lemma idle_advanced: "node_free m \<Longrightarrow> m s = (t, r) \<Longrightarrow> advanced w pins s t"
  using idle_stays stays_advanced by blast

section \<open>Loading and publishing\<close>

lemma idle_nodes: "node_free m \<Longrightarrow> m s = (t, r) \<Longrightarrow> nodes t = nodes s"
  by (metis node_free_def fst_conv)

lemma probe_value: "cache_probe w d f s = (t, Inr x) \<Longrightarrow> x = f s \<or> x = d"
  by (auto simp: cache_probe_def split: option.splits)

lemma load_entry_Some:
  assumes "load_entry w k kind identity True s = (t, Inr (Some e))"
  shows "\<exists>m data b. bytes_at k manifest_name s = Some data \<and> manifest_of_json w data = Some m \<and> manifest_kind m = kind \<and>
    manifest_identity m = identity \<and> bytes_at k (manifest_basename m) s = Some b \<and> length b = manifest_size m \<and>
    content_sha w b = manifest_sha256 m \<and>
    e = \<lparr>entry_kind = kind, entry_identity = identity, entry_directory = k, entry_file = manifest_basename m, entry_manifest = m\<rparr>"
proof -
  obtain s1 q where "read_manifest w k s = (s1, q)" by fastforce
  with assms obtain m where manifest: "read_manifest w k s = (s1, Inr (Some m))"
    and rest: "(if (manifest_kind m, manifest_identity m) \<noteq> (kind, identity) then act_return None
      else act_bind (entry_bytes_valid w k m True) (\<lambda>valid. act_return (if valid then Some \<lparr>entry_kind = kind, entry_identity = identity,
        entry_directory = k, entry_file = manifest_basename m, entry_manifest = m\<rparr> else None))) s1 = (t, Inr (Some e))"
    unfolding load_entry_def by (cases q; cases "projr q") (auto split: if_splits)
  from rest have same: "manifest_kind m = kind" "manifest_identity m = identity" by (auto split: if_splits)
  with rest have valid: "entry_bytes_valid w k m True s1 = (t, Inr True)"
    and e: "e = \<lparr>entry_kind = kind, entry_identity = identity, entry_directory = k, entry_file = manifest_basename m, entry_manifest = m\<rparr>"
    by (auto simp: act_bind_Inr split: if_splits)
  have n1: "nodes s1 = nodes s" by (rule idle_nodes [where m = "read_manifest w k", OF _ manifest]) (intro idle_intros)
  obtain data where data: "bytes_at k manifest_name s = Some data" "manifest_of_json w data = Some m"
    using probe_value [OF manifest [unfolded read_manifest_def]] by (auto simp: read_bounded_def split: option.splits if_splits)
  obtain s2 s3 where steps: "is_regular w k (manifest_basename m) s1 = (s2, Inr True)"
    "cache_probe w False (\<lambda>s. case bytes_at k (manifest_basename m) s of None \<Rightarrow> False | Some b \<Rightarrow> length b = manifest_size m) s2 = (s3, Inr True)"
    "cache_probe w False (\<lambda>s. case bytes_at k (manifest_basename m) s of
        None \<Rightarrow> False | Some b \<Rightarrow> length b \<le> manifest_size m \<and> content_sha w b = manifest_sha256 m) s3 = (t, Inr True)"
    using valid unfolding entry_bytes_valid_def by (auto simp: act_bind_Inr split: if_splits)
  have n2: "nodes s2 = nodes s1" by (rule idle_nodes [where m = "is_regular w k (manifest_basename m)", OF _ steps(1)]) (intro idle_intros)
  have n3: "nodes s3 = nodes s2" by (rule idle_nodes [where m = "cache_probe w False _", OF _ steps(2)]) (intro idle_intros)
  have "\<exists>b. bytes_at k (manifest_basename m) s = Some b \<and> length b = manifest_size m \<and> content_sha w b = manifest_sha256 m"
    using probe_value [OF steps(2)] probe_value [OF steps(3)] same_nodes(3) [OF n1] same_nodes(3) [OF n2] same_nodes(3) [OF n3]
    by (auto split: option.splits)
  with data same e show ?thesis by blast
qed

lemma loaded_stands:
  assumes "load_entry w (kind, identity) kind identity True s = (t, Inr (Some e))" and "is_sha256 identity"
    and "cache_sound w pins s" and "codec_documented w"
  shows "entry_stands w pins kind identity t e"
proof -
  from load_entry_Some [OF assms(1)] obtain m data b where l: "bytes_at (kind, identity) manifest_name s = Some data"
    "manifest_of_json w data = Some m" "bytes_at (kind, identity) (manifest_basename m) s = Some b" "length b = manifest_size m"
    "content_sha w b = manifest_sha256 m"
    "e = \<lparr>entry_kind = kind, entry_identity = identity, entry_directory = (kind, identity), entry_file = manifest_basename m, entry_manifest = m\<rparr>"
    by blast
  have "dict_get (nodes s) (kind, identity) \<noteq> None"
    using l(1) by (auto simp: bytes_at_def item_at_def folder_items_def split: option.splits)
  then obtain m' where m': "manifest_valid m'" "item_at (kind, identity) manifest_name s = Some (Regular (manifest_json w m'))"
      "\<forall>h. pins identity = Some h \<longrightarrow> manifest_sha256 m' = h"
    using assms(2,3) unfolding cache_sound_def entry_sound_def entry_holds_def by fastforce
  then have "data = manifest_json w m'" using l(1) by (simp add: bytes_at_def)
  then have "m = m'" using assms(4) l(2) m'(1) by (simp add: codec_documented_def)
  have "nodes t = nodes s" by (rule idle_nodes [where m = "load_entry w (kind, identity) kind identity True", OF _ assms(1)]) (intro idle_intros)
  from same_nodes(3) [OF this] l m' \<open>m = m'\<close> assms(2) show ?thesis by (simp add: entry_stands_def)
qed

lemma adopted_stands:
  assumes "adopt_existing w kind identity s = (t, Inr (Some e))" and "cache_sound w pins s" and "codec_documented w"
  shows "entry_stands w pins kind identity t e"
proof -
  from assms(1) have "load_entry w (kind, identity) kind identity True s = (t, Inr (Some e))" "is_sha256 identity"
    unfolding adopt_existing_def
    by (cases "cache_directory kind identity False"; auto simp: cache_directory_cases act_bind_Inr split: if_splits option.splits)+
  then show ?thesis using loaded_stands assms(2,3) by blast
qed

lemma found_stands:
  assumes "find_complete w kind identity True s = (t, Inr (Some e))" and "cache_sound w pins s" and "codec_documented w"
  shows "entry_stands w pins kind identity t e"
proof -
  from assms(1) have "load_entry w (kind, identity) kind identity True s = (t, Inr (Some e))" "is_sha256 identity"
    unfolding find_complete_def
    by (cases "cache_directory kind identity False"; auto simp: cache_directory_cases)+
  then show ?thesis using loaded_stands assms(2,3) by blast
qed


section \<open>Completing a partial\<close>

definition partial_for :: "cache_partial \<Rightarrow> string \<Rightarrow> string \<Rightarrow> planned_asset \<Rightarrow> bool" where
  "partial_for p kind identity a \<longleftrightarrow> part_kind p = kind \<and> part_identity p = identity \<and> is_sha256 identity \<and> kind \<in> set cache_kinds \<and>
     part_directory p = (kind, identity @ partial_ending) \<and> part_name p = cache_basename (planned_path a) @ part_suffix \<and>
     partial_sha256 (part_record p) = planned_sha256 a \<and> partial_valid (part_record p)"

lemma partial_for_place: "partial_for p kind identity a \<Longrightarrow> partial_place (part_directory p)"
  by (auto simp: partial_for_def partial_place_def)

lemma open_partial_Inr: "open_partial w kind identity a owner s = (t, Inr p) \<Longrightarrow> partial_for p kind identity a"
  unfolding open_partial_def Let_def
  by (cases "cache_directory kind identity True")
    (auto simp: act_bind_Inr checked_record_def partial_for_def cache_directory_cases simp del: act_bind_run(7) split: if_splits)

lemma update_partial_Inr:
  assumes "update_partial w p n s = (t, Inr q)" and "partial_for p kind identity a"
  shows "partial_for q kind identity a"
  using assms unfolding update_partial_def
  by (auto simp: act_bind_Inr checked_record_def partial_for_def split: if_splits)

lemma sha_lower: "is_sha256 h \<Longrightarrow> lower_text h = h"
  unfolding lower_text_def is_sha256_def list_all_iff
  by (rule map_idI) (auto simp: lower_char_def char_class_defs)

lemma publish_node_effect:
  assumes "publish_node w k target s = (t, r)"
  shows "(\<exists>e. r = Inl e \<and> (failure_code e = ''dataset_exists'' \<longrightarrow> dict_get (nodes s) target \<noteq> None)) \<and> nodes t = nodes s \<or>
    r = Inr () \<and> dict_get (nodes s) target = None \<and> (\<exists>node. dict_get (nodes s) k = Some node \<and> nodes t = AList.update target node (AList.delete k (nodes s)))"
  using assms by (auto simp: publish_node_def Let_def failure_code_def dataset_failure_def split: option.splits if_splits)

lemma adopt_existing_None:
  "adopt_existing w kind identity s = (t, Inr None) \<Longrightarrow> dict_get (nodes s) (kind, identity) = None"
  unfolding adopt_existing_def
  by (cases "cache_directory kind identity False"; auto simp: cache_directory_cases act_bind_Inr split: if_splits option.splits)

lemma moved_holds:
  assumes "nodes t = AList.update target node (AList.delete k (nodes s))" and "dict_get (nodes s) k = Some node"
  shows "entry_holds w target m t = entry_holds w k m s"
  using assms by (simp add: entry_holds_def item_at_def bytes_at_def folder_items_def)

lemma publish_entry_effect:
  assumes run: "publish_entry w p m target s = (t, r)" and p: "partial_for p kind identity a" and target: "target = (kind, identity)"
    and b: "bytes_at (part_directory p) (part_name p) s = Some b" "length b = manifest_size m" "content_sha w b = manifest_sha256 m"
    and m: "manifest_valid m" "manifest_kind m = kind" "manifest_identity m = identity" "\<not> is_reserved_name (manifest_basename m)"
    and pins: "\<And>h. pins identity = Some h \<Longrightarrow> manifest_sha256 m = h"
  shows "advanced w pins s t \<and> (r = Inr None \<longrightarrow> entry_holds w target m t) \<and>
    (\<forall>e. r = Inr (Some e) \<and> cache_sound w pins s \<and> codec_documented w \<longrightarrow> entry_stands w pins kind identity t e)"
proof -
  let ?k = "part_directory p"
  have place: "partial_place ?k" by (rule partial_for_place [OF p])
  have id: "is_sha256 identity" and names: "manifest_basename m \<noteq> partial_name" "manifest_basename m \<noteq> manifest_name"
    using p m(4) by (auto simp: partial_for_def is_reserved_name_def)
  obtain s1 r1 where seal: "seal_partial w p (manifest_basename m) s = (s1, r1)" by fastforce
  have a1: "advanced w pins s s1" by (rule stays_advanced [OF confined_stays [OF seal_partial_confined place] seal])
  show ?thesis
  proof (cases r1)
    case (Inl e)
    then show ?thesis using run seal a1 by (auto simp: publish_entry_def)
  next
    case (Inr u)
    with seal have seal': "seal_partial w p (manifest_basename m) s = (s1, Inr u)" by simp
    obtain s2 r2 where manifest: "write_manifest_file w ?k m s1 = (s2, r2)" by fastforce
    have "advanced w pins s1 s2" by (rule stays_advanced [OF confined_stays [OF write_records_confined(1) place] manifest])
    with a1 have a2: "advanced w pins s s2" by (rule advanced_trans)
    show ?thesis
    proof (cases r2)
      case (Inl e)
      then show ?thesis using run seal' manifest a2 by (auto simp: publish_entry_def)
    next
      case ok: (Inr v)
      have "entry_holds w ?k m s2"
        using seal_partial_Inr [OF seal' names(1)] write_manifest_Inr [OF manifest [unfolded ok]] b names(2)
        by (auto simp: entry_holds_def bytes_at_def split: option.splits cache_item.splits)
      obtain s3 r3 where publish: "publish_node w ?k target s2 = (s3, r3)" by fastforce
      have run3: "(t, r) = (case r3 of Inr u \<Rightarrow> (s3, Inr None)
          | Inl e \<Rightarrow> if failure_code e = ''dataset_exists'' then adopt_existing w kind identity s3 else (s3, Inl e))"
        using run seal' manifest ok publish p by (auto simp: publish_entry_def partial_for_def split: sum.splits)
      from publish_node_effect [OF publish] show ?thesis
      proof
        assume failed: "(\<exists>e. r3 = Inl e \<and> (failure_code e = ''dataset_exists'' \<longrightarrow> dict_get (nodes s2) target \<noteq> None)) \<and> nodes s3 = nodes s2"
        then have a3: "advanced w pins s s3"
          using advanced_trans [OF a2] untouched_advanced by metis
        obtain e where e: "r3 = Inl e" "failure_code e = ''dataset_exists'' \<Longrightarrow> dict_get (nodes s3) target \<noteq> None"
          using failed by auto
        show ?thesis
        proof (cases "failure_code e = ''dataset_exists''")
          case True
          with run3 e have adopt: "adopt_existing w kind identity s3 = (t, r)" by simp
          have "advanced w pins s3 t"
            by (rule idle_advanced [where m = "adopt_existing w kind identity", OF _ adopt]) (intro idle_intros)
          with a3 have "advanced w pins s t" by (rule advanced_trans)
          moreover have "r \<noteq> Inr None" using adopt_existing_None [of w kind identity s3 t] adopt e(2) True target by auto
          moreover have "entry_stands w pins kind identity t x"
            if "r = Inr (Some x)" "cache_sound w pins s" "codec_documented w" for x
            using adopted_stands [OF adopt [unfolded that(1)] _ that(3)] that(2) a3 by (simp add: advanced_def)
          ultimately show ?thesis by blast
        next
          case False
          with run3 e a3 show ?thesis by auto
        qed
      next
        assume "r3 = Inr () \<and> dict_get (nodes s2) target = None \<and>
          (\<exists>node. dict_get (nodes s2) ?k = Some node \<and> nodes s3 = AList.update target node (AList.delete ?k (nodes s2)))"
        then obtain node where moved: "r3 = Inr ()" "dict_get (nodes s2) target = None" "dict_get (nodes s2) ?k = Some node"
          "nodes s3 = AList.update target node (AList.delete ?k (nodes s2))" by blast
        have t: "t = s3" "r = Inr None" using run3 moved(1) by simp_all
        have holds: "entry_holds w target m t"
          using moved_holds [OF moved(4,3)] \<open>entry_holds w ?k m s2\<close> t(1) by simp
        have other: "dict_get (nodes t) k = dict_get (nodes s2) k" if "is_sha256 (snd k)" "k \<noteq> target" for k
          using that partial_place_other [OF place] moved(4) t(1) by auto
        have "entry_sound w pins target t" unfolding entry_sound_def using holds m pins target by auto
        then have "advanced w pins s2 t"
          unfolding advanced_def entries_kept_def cache_sound_def using other moved(2) same_node_sound by metis
        with a2 have "advanced w pins s t" by (rule advanced_trans)
        with holds t(2) show ?thesis by simp
      qed
    qed
  qed
qed


lemma spec_idle:
  assumes "node_free m"
  shows "act_spec (\<lambda>u. nodes u = nodes s) m (\<lambda>x u. nodes u = nodes s) (advanced w pins s)"
  unfolding act_spec_def
proof (intro allI impI)
  fix u t r assume "nodes u = nodes s" "m u = (t, r)"
  with idle_nodes [OF assms \<open>m u = (t, r)\<close>] have "nodes t = nodes s" by simp
  then show "case r of Inr x \<Rightarrow> nodes t = nodes s | Inl e \<Rightarrow> advanced w pins s t"
    by (auto intro: untouched_advanced split: sum.split)
qed

lemma spec_idle_value:
  assumes "node_free m" and "\<And>u t x. nodes u = nodes s \<Longrightarrow> m u = (t, Inr x) \<Longrightarrow> R x"
  shows "act_spec (\<lambda>u. nodes u = nodes s) m (\<lambda>x u. nodes u = nodes s \<and> R x) (advanced w pins s)"
  unfolding act_spec_def
proof (intro allI impI)
  fix u t r assume u: "nodes u = nodes s" "m u = (t, r)"
  with idle_nodes [OF assms(1) u(2)] have "nodes t = nodes s" by simp
  then show "case r of Inr x \<Rightarrow> nodes t = nodes s \<and> R x | Inl e \<Rightarrow> advanced w pins s t"
    using assms(2) u by (auto intro: untouched_advanced split: sum.split)
qed

lemma same_advanced: "nodes t = nodes s \<Longrightarrow> advanced w pins s t"
  by (rule untouched_advanced) simp

definition provided :: "cache_world \<Rightarrow> (string \<Rightarrow> string option) \<Rightarrow> string \<Rightarrow> string \<Rightarrow> cache_tree \<Rightarrow> cache_tree \<Rightarrow> cache_entry \<Rightarrow> bool" where
  "provided w pins kind identity s t e \<longleftrightarrow> (cache_sound w pins s \<and> codec_documented w \<longrightarrow> entry_stands w pins kind identity t e)"

lemma provided_kept: "provided w pins kind identity s t e \<Longrightarrow> entries_kept t u \<Longrightarrow> provided w pins kind identity s u e"
  unfolding provided_def using stands_kept by blast

lemma spec_removal:
  assumes "partial_place k"
  shows "act_spec (\<lambda>u. advanced w pins s u \<and> provided w pins kind identity s u e) (act_bind (remove_node w k) (\<lambda>_. act_return e))
    (\<lambda>e u. advanced w pins s u \<and> provided w pins kind identity s u e) (advanced w pins s)"
proof -
  have step: "advanced w pins u t" if "act_bind (remove_node w k) (\<lambda>_. act_return e) u = (t, r)" for u t r
    by (rule stays_advanced [where m = "act_bind (remove_node w k) (\<lambda>_. act_return e)", OF confined_stays [OF _ assms] that])
      (intro frame_intros)
  have same: "x = e" if "act_bind (remove_node w k) (\<lambda>_. act_return e) u = (t, Inr x)" for u t x
    using that by (auto simp: act_bind_Inr)
  show ?thesis unfolding act_spec_def
  proof (intro allI impI)
    fix u t r assume u: "advanced w pins s u \<and> provided w pins kind identity s u e"
      and run: "act_bind (remove_node w k) (\<lambda>_. act_return e) u = (t, r)"
    have "advanced w pins s t" using advanced_trans step [OF run] u by blast
    moreover have "provided w pins kind identity s t e"
      using provided_kept step [OF run] u unfolding advanced_def by blast
    ultimately show "case r of Inr x \<Rightarrow> advanced w pins s t \<and> provided w pins kind identity s t x | Inl e \<Rightarrow> advanced w pins s t"
      using same run by (auto split: sum.split)
  qed
qed

lemma manifest_for_Inr:
  assumes "manifest_for p out origin = Inr m"
  shows "manifest_valid m" "manifest_kind m = part_kind p" "manifest_identity m = part_identity p"
    "manifest_basename m = part_basename p" "manifest_size m = outcome_size out" "manifest_sha256 m = outcome_sha256 out"
  using assms by (auto simp: manifest_for_def Let_def cache_kind_def split: if_splits)

lemma holds_stands:
  assumes "entry_holds w (kind, identity) m s" and "is_sha256 identity" and "\<And>h. pins identity = Some h \<Longrightarrow> manifest_sha256 m = h"
    and "e = \<lparr>entry_kind = kind, entry_identity = identity, entry_directory = (kind, identity), entry_file = manifest_basename m, entry_manifest = m\<rparr>"
  shows "entry_stands w pins kind identity s e"
  using assms by (simp add: entry_stands_def entry_holds_def)

lemma discard_spec:
  fixes Q :: "'a \<Rightarrow> cache_tree \<Rightarrow> bool"
  assumes "partial_place (part_directory p)"
  shows "act_spec ((=) s) (discard_partial w p code) Q (advanced w pins s)"
proof -
  have "advanced w pins s t" "\<exists>e. r = Inl e" if "discard_partial w p code s = (t, r)" for t and r :: "'a result"
    using stays_advanced [OF confined_stays [OF discard_partial_confined assms] that] that
    by (auto simp: discard_partial_def act_bind_def split: prod.splits sum.splits)
  then show ?thesis unfolding act_spec_def by (fastforce split: sum.split)
qed

lemma adopt_spec:
  "act_spec (\<lambda>u. nodes u = nodes s) (adopt_existing w kind identity)
     (\<lambda>x u. nodes u = nodes s \<and> (\<forall>e. x = Some e \<longrightarrow> provided w pins kind identity s u e)) (advanced w pins s)"
  unfolding act_spec_def
proof (intro allI impI)
  fix u t r assume u: "nodes u = nodes s" "adopt_existing w kind identity u = (t, r)"
  have "nodes t = nodes u" by (rule idle_nodes [where m = "adopt_existing w kind identity", OF _ u(2)]) (intro idle_intros)
  then have "advanced w pins s u" "advanced w pins s t" "nodes t = nodes s" using u(1) by (auto intro: same_advanced)
  moreover have "provided w pins kind identity s t e" if "r = Inr (Some e)" for e
    using adopted_stands u(2) that \<open>advanced w pins s u\<close> unfolding provided_def advanced_def by blast
  ultimately show "case r of Inr x \<Rightarrow> nodes t = nodes s \<and> (\<forall>e. x = Some e \<longrightarrow> provided w pins kind identity s t e) | Inl e \<Rightarrow> advanced w pins s t"
    by (auto split: sum.split)
qed

lemma publish_spec:
  assumes p: "partial_for p kind identity a" and m: "manifest_for p out origin = Inr m" "\<not> is_reserved_name (part_basename p)"
    and b: "bytes_at (part_directory p) (part_name p) s = Some b" "length b = outcome_size out" "content_sha w b = outcome_sha256 out"
    and pins: "\<And>h. pins identity = Some h \<Longrightarrow> outcome_sha256 out = h"
  shows "act_spec (\<lambda>u. nodes u = nodes s) (publish_entry w p m (kind, identity))
     (\<lambda>x u. advanced w pins s u \<and> (x = None \<longrightarrow> entry_holds w (kind, identity) m u) \<and>
        (\<forall>e. x = Some e \<longrightarrow> provided w pins kind identity s u e)) (advanced w pins s)"
  unfolding act_spec_def
proof (intro allI impI)
  fix u t r assume u: "nodes u = nodes s" and run: "publish_entry w p m (kind, identity) u = (t, r)"
  note fm = manifest_for_Inr [OF m(1)]
  have au: "advanced w pins s u" using u by (rule same_advanced)
  have bu: "bytes_at (part_directory p) (part_name p) u = Some b" using b(1) same_nodes(3) [OF u] by simp
  have "advanced w pins u t \<and> (r = Inr None \<longrightarrow> entry_holds w (kind, identity) m t) \<and>
      (\<forall>e. r = Inr (Some e) \<and> cache_sound w pins u \<and> codec_documented w \<longrightarrow> entry_stands w pins kind identity t e)"
    by (rule publish_entry_effect [OF run p refl bu]) (use fm b pins m p in \<open>auto simp: partial_for_def\<close>)
  then show "case r of
      Inr x \<Rightarrow> advanced w pins s t \<and> (x = None \<longrightarrow> entry_holds w (kind, identity) m t) \<and> (\<forall>e. x = Some e \<longrightarrow> provided w pins kind identity s t e)
    | Inl e \<Rightarrow> advanced w pins s t"
    using au advanced_trans unfolding provided_def advanced_def by (auto split: sum.split)
qed

lemma spec_pure: "(F \<Longrightarrow> act_spec P m Q E) \<Longrightarrow> act_spec (\<lambda>s. P s \<and> F) m Q E"
  by (auto simp: act_spec_def)

lemma spec_bind_lift:
  "(\<And>x. q = Inr x \<Longrightarrow> act_spec P (f x) Q E) \<Longrightarrow> (\<And>s. P s \<Longrightarrow> E s) \<Longrightarrow> act_spec P (act_bind (act_lift q) f) Q E"
  by (cases q) (auto simp: act_spec_def)

lemma spec_answer: "(\<And>s. P s \<Longrightarrow> Q x s) \<Longrightarrow> act_spec P (act_return x) Q E"
  by (simp add: act_spec_def)

lemma published_spec:
  assumes p: "partial_for p kind identity a" and m: "manifest_for p out origin = Inr m" "\<not> is_reserved_name (part_basename p)"
    and b: "bytes_at (part_directory p) (part_name p) s = Some b" "length b = outcome_size out" "content_sha w b = outcome_sha256 out"
    and pins: "\<And>h. pins identity = Some h \<Longrightarrow> outcome_sha256 out = h"
  shows "act_spec (\<lambda>u. nodes u = nodes s) (act_bind (cache_lock w) (\<lambda>_.
        act_bind (adopt_existing w (part_kind p) (part_identity p)) (\<lambda>existing.
        act_bind (if existing = None then publish_entry w p m (kind, identity) else act_return existing) (\<lambda>found.
        case found of
          Some e \<Rightarrow> act_bind (remove_node w (part_directory p)) (\<lambda>_. act_return e)
        | None \<Rightarrow> act_return \<lparr>entry_kind = part_kind p, entry_identity = part_identity p, entry_directory = (kind, identity),
            entry_file = part_basename p, entry_manifest = m\<rparr>))))
        (\<lambda>e t. advanced w pins s t \<and> provided w pins kind identity s t e) (advanced w pins s)"
proof -
  note fm = manifest_for_Inr [OF m(1)]
  have fields: "part_kind p = kind" "part_identity p = identity" "is_sha256 identity" using p by (auto simp: partial_for_def)
  let ?E = "advanced w pins s"
  let ?F = "\<lambda>x u. advanced w pins s u \<and> (x = None \<longrightarrow> entry_holds w (kind, identity) m u) \<and>
      (\<forall>e. x = Some e \<longrightarrow> provided w pins kind identity s u e)"
  have found: "act_spec (\<lambda>u. nodes u = nodes s \<and> (\<forall>e. existing = Some e \<longrightarrow> provided w pins kind identity s u e))
      (if existing = None then publish_entry w p m (kind, identity) else act_return existing) ?F ?E" for existing
  proof (rule spec_if)
    show "act_spec (\<lambda>u. nodes u = nodes s \<and> (\<forall>e. existing = Some e \<longrightarrow> provided w pins kind identity s u e))
        (publish_entry w p m (kind, identity)) ?F ?E"
      by (rule spec_weaken [OF publish_spec [OF p m b pins]]) auto
    assume "existing \<noteq> None"
    then show "act_spec (\<lambda>u. nodes u = nodes s \<and> (\<forall>e. existing = Some e \<longrightarrow> provided w pins kind identity s u e))
        (act_return existing) ?F ?E" by (intro spec_answer) (auto intro: same_advanced)
  qed
  have last: "act_spec (?F x) (case x of
        None \<Rightarrow> act_return \<lparr>entry_kind = kind, entry_identity = identity, entry_directory = (kind, identity),
            entry_file = part_basename p, entry_manifest = m\<rparr>
      | Some e \<Rightarrow> act_bind (remove_node w (part_directory p)) (\<lambda>_. act_return e))
      (\<lambda>e t. advanced w pins s t \<and> provided w pins kind identity s t e) ?E" for x
  proof (rule spec_option)
    have stands: "entry_stands w pins kind identity u \<lparr>entry_kind = kind, entry_identity = identity, entry_directory = (kind, identity),
            entry_file = part_basename p, entry_manifest = m\<rparr>" if "entry_holds w (kind, identity) m u" for u
      by (rule holds_stands [OF that fields(3)]) (use fm pins in auto)
    assume "x = None"
    then show "act_spec (?F x) (act_return \<lparr>entry_kind = kind, entry_identity = identity, entry_directory = (kind, identity),
            entry_file = part_basename p, entry_manifest = m\<rparr>) (\<lambda>e t. advanced w pins s t \<and> provided w pins kind identity s t e) ?E"
      using stands by (intro spec_answer) (simp add: provided_def)
  next
    fix e assume "x = Some e"
    then show "act_spec (?F x) (act_bind (remove_node w (part_directory p)) (\<lambda>_. act_return e))
        (\<lambda>e t. advanced w pins s t \<and> provided w pins kind identity s t e) ?E"
      by (auto intro: spec_weaken [OF spec_removal [OF partial_for_place [OF p]]])
  qed
  show ?thesis unfolding fields(1,2)
    by (rule spec_bind [OF spec_idle [OF lock_idle]], rule spec_bind [OF adopt_spec], rule spec_bind [OF found last])
qed

lemma complete_spec:
  assumes p: "partial_for p kind identity a" and pins: "pins identity = planned_sha256 a"
    and match: "\<And>b. bytes_at (part_directory p) (part_name p) s = Some b \<Longrightarrow> length b = outcome_size out \<Longrightarrow> content_sha w b = outcome_sha256 out"
  shows "act_spec ((=) s) (complete_partial w p out origin)
    (\<lambda>e t. advanced w pins s t \<and> provided w pins kind identity s t e) (advanced w pins s)"
proof (cases "(case partial_sha256 (part_record p) of None \<Rightarrow> False | Some h \<Rightarrow> h \<noteq> [] \<and> outcome_sha256 out \<noteq> lower_text h) \<or>
      (case partial_size (part_record p) of None \<Rightarrow> False | Some n \<Rightarrow> outcome_size out \<noteq> n)")
  case True
  then show ?thesis using discard_spec [OF partial_for_place [OF p]] unfolding complete_partial_def Let_def by auto
next
  case False
  let ?k = "part_directory p" and ?E = "advanced w pins s"
  have sha: "outcome_sha256 out = h" if "pins identity = Some h" for h
  proof -
    from that pins p have h: "partial_sha256 (part_record p) = Some h" "is_sha256 h" by (auto simp: partial_for_def partial_valid_def)
    then have "h \<noteq> []" by (auto simp: is_sha256_def)
    with False h show ?thesis by (simp add: sha_lower)
  qed
  have size: "act_spec (\<lambda>u. nodes u = nodes s) (part_status w ?k (part_name p))
      (\<lambda>n u. nodes u = nodes s \<and> (\<exists>b. bytes_at ?k (part_name p) s = Some b \<and> length b = n)) ?E"
  proof (rule spec_idle_value)
    fix u t x assume u: "nodes u = nodes s" "part_status w ?k (part_name p) u = (t, Inr x)"
    from u(2) obtain v where v: "cache_operation w (\<lambda>n s. s) id u = (v, Inr ())" "\<exists>b. bytes_at ?k (part_name p) v = Some b \<and> length b = x"
      unfolding part_status_def by (auto simp: act_bind_Inr split: option.splits)
    then show "\<exists>b. bytes_at ?k (part_name p) s = Some b \<and> length b = x"
      using operation_Inr [OF v(1)] same_nodes(3) [OF u(1)] by simp
  qed (intro idle_intros)
  from False have tests: "(case partial_sha256 (part_record p) of None \<Rightarrow> False | Some h \<Rightarrow> h \<noteq> [] \<and> outcome_sha256 out \<noteq> lower_text h) = False"
    "(case partial_size (part_record p) of None \<Rightarrow> False | Some n \<Rightarrow> outcome_size out \<noteq> n) = False" by blast+
  have target: "x = (kind, identity)" if "cache_directory (part_kind p) (part_identity p) False = Inr x" for x
    using that p by (auto simp: cache_directory_cases partial_for_def)
  have raised: "act_spec (\<lambda>u. nodes u = nodes s) (act_raise e) Q ?E" for e and Q :: "cache_entry \<Rightarrow> cache_tree \<Rightarrow> bool"
    by (intro spec_basic same_advanced)
  show ?thesis unfolding complete_partial_def Let_def tests if_False
    apply (rule spec_weaken [where P' = "\<lambda>u. nodes u = nodes s" and E' = ?E
        and Q' = "\<lambda>e t. advanced w pins s t \<and> provided w pins kind identity s t e"])
       apply (rule spec_bind [OF spec_idle [OF records_idle(3)]])
       apply (rule spec_if [OF raised])
       apply (rule spec_bind [OF size], rule spec_pure)
       apply (rule spec_if [OF raised], rule spec_if [OF raised])
       apply (rule spec_bind_lift, rule spec_bind_lift)
    subgoal for regular n m x
      using published_spec [OF p, where out = out and origin = origin and m = m and s = s and w = w and pins = pins]
        target [of x] match sha by auto
    by (auto intro: same_advanced)
qed


section \<open>Importing\<close>

lemma bytes_set: "bytes_at k n (set_item k name (Regular b) s) =
    (if folder_items k s = None then None else if n = name then Some b else bytes_at k n s)"
  by (auto simp: bytes_at_def item_at_def split: option.split)

lemma open_part_Inr:
  assumes "open_part w p s = (t, Inr u)"
  shows "bytes_at (part_directory p) (part_name p) t \<noteq> None"
proof -
  let ?k = "part_directory p" and ?n = "part_name p"
  from assms obtain v where run: "(case item_at ?k ?n v of
       None \<Rightarrow> if folder_items ?k v = None \<or> 255 < length ?n then act_raise OS_Error else act_modify (set_item ?k ?n (Regular []))
     | Some (Regular b) \<Rightarrow> act_return ()
     | Some _ \<Rightarrow> act_raise OS_Error) v = (t, Inr u)"
    unfolding open_part_def act_bind_Inr by auto
  show ?thesis
  proof (cases "item_at ?k ?n v")
    case None
    with run show ?thesis by (auto simp: bytes_set split: if_splits)
  next
    case (Some item)
    with run show ?thesis by (cases item) (auto simp: bytes_at_def)
  qed
qed

lemma folder_of_bytes: "bytes_at k n s \<noteq> None \<Longrightarrow> folder_items k s \<noteq> None"
  by (auto simp: bytes_at_def item_at_def split: option.splits)

lemma extend_part_bytes:
  "bytes_at k n s = Some b \<Longrightarrow> bytes_at k n (extend_part k n data s) = Some (b @ data)"
  using folder_of_bytes [of k n s] by (simp add: extend_part_def bytes_set)

lemma copy_chunks_Inr:
  assumes "copy_chunks w p limit chunks copied s = (t, Inr result)" and "bytes_at (part_directory p) (part_name p) s = Some copied"
  shows "bytes_at (part_directory p) (part_name p) t = Some result"
  using assms
proof (induction chunks arbitrary: copied s)
  case (Cons chunk chunks)
  let ?k = "part_directory p" and ?n = "part_name p"
  from Cons.prems(1) obtain s1 s2 where steps: "cache_operation w (\<lambda>n s. s) id s = (s1, Inr ())"
    "cache_operation w (\<lambda>n. extend_part ?k ?n (take n chunk)) (extend_part ?k ?n chunk) s1 = (s2, Inr ())"
    "copy_chunks w p limit chunks (copied @ chunk) s2 = (t, Inr result)"
    by (auto simp: act_bind_Inr split: if_splits)
  have "bytes_at ?k ?n s2 = Some (copied @ chunk)"
    using operation_Inr [OF steps(1)] operation_Inr [OF steps(2)] Cons.prems(2) by (simp add: extend_part_bytes)
  with Cons.IH steps(3) show ?case by blast
qed simp

lemma copy_source_Inr:
  assumes "copy_source w p limit file s = (t, Inr copied)" and "bytes_at (part_directory p) (part_name p) s \<noteq> None"
  shows "bytes_at (part_directory p) (part_name p) t = Some copied"
proof -
  from assms(1) obtain s1 data where steps:
    "cache_operation w (\<lambda>n s. s) (set_item (part_directory p) (part_name p) (Regular [])) s = (s1, Inr ())"
    "copy_chunks w p limit (chunks_of copy_chunk_bytes data) [] s1 = (t, Inr copied)"
    by (auto simp: copy_source_def act_bind_Inr split: local_source.splits)
  have "bytes_at (part_directory p) (part_name p) s1 = Some []"
    using operation_Inr [OF steps(1)] folder_of_bytes [OF assms(2)] by (simp add: bytes_set)
  with copy_chunks_Inr steps(2) show ?thesis by blast
qed

lemma import_copy_Inr:
  assumes "import_copy w p limit file s = (t, Inr copied)"
  shows "bytes_at (part_directory p) (part_name p) t = Some copied"
proof -
  obtain s1 r1 where opened: "open_part w p s = (s1, r1)" by fastforce
  obtain s2 r2 where copy: "copy_source w p limit file s1 = (s2, r2)" by fastforce
  have refused: "discard_partial w p code u \<noteq> (t, Inr copied)" for code u
    by (auto simp: discard_partial_def act_bind_Inr)
  from assms opened copy refused obtain v where r: "r1 = Inr v" "r2 = Inr copied" "close_part w s2 = (t, Inr ())"
    by (cases r1; cases r2) (auto simp: import_copy_def act_bind_Inr)
  have "bytes_at (part_directory p) (part_name p) s2 = Some copied"
    using copy_source_Inr copy r(2) open_part_Inr [OF opened [unfolded r(1)]] by blast
  then show ?thesis using operation_Inr [OF r(3) [unfolded close_part_def]] by simp
qed

lemma provided_from: "provided w pins kind identity u t e \<Longrightarrow> advanced w pins s u \<Longrightarrow> provided w pins kind identity s t e"
  by (simp add: provided_def advanced_def)

lemma import_file_effect:
  assumes run: "import_file w kind identity a file owner origin s = (t, r)" and pins: "pins identity = planned_sha256 a"
  shows "advanced w pins s t \<and> (\<forall>e. r = Inr e \<longrightarrow> provided w pins kind identity s t e)"
proof -
  let ?limit = "case planned_size a of None \<Rightarrow> maximum_import_bytes | Some n \<Rightarrow> n"
  obtain s1 r1 where opened: "open_partial w kind identity a owner s = (s1, r1)" by fastforce
  have a1: "advanced w pins s s1" by (rule stays_advanced [OF open_partial_stays opened])
  show ?thesis
  proof (cases r1)
    case (Inl e)
    with run opened a1 show ?thesis by (auto simp: import_file_def)
  next
    case (Inr p)
    note p = open_partial_Inr [OF opened [unfolded Inr]]
    obtain s2 r2 where copy: "import_copy w p ?limit file s1 = (s2, r2)" by fastforce
    have "advanced w pins s1 s2"
      by (rule stays_advanced [OF confined_stays [OF import_copy_confined partial_for_place [OF p]] copy])
    with a1 have a2: "advanced w pins s s2" by (rule advanced_trans)
    show ?thesis
    proof (cases r2)
      case (Inl e)
      with run opened copy a2 \<open>r1 = Inr p\<close> show ?thesis by (auto simp: import_file_def)
    next
      case copied: (Inr copied)
      let ?out = "\<lparr>outcome_size = length copied, outcome_sha256 = content_sha w copied, resumed_from = 0\<rparr>"
      have sealed: "complete_partial w p ?out origin s2 = (t, r)"
        using run opened copy copied \<open>r1 = Inr p\<close> by (simp add: import_file_def)
      have "act_spec ((=) s2) (complete_partial w p ?out origin)
          (\<lambda>e t. advanced w pins s2 t \<and> provided w pins kind identity s2 t e) (advanced w pins s2)"
        by (rule complete_spec [where pins = pins and kind = kind, OF p pins]) (simp add: import_copy_Inr [OF copy [unfolded copied]])
      then have "advanced w pins s2 t \<and> (\<forall>e. r = Inr e \<longrightarrow> provided w pins kind identity s2 t e)"
        using sealed unfolding act_spec_def by (auto split: sum.splits)
      then show ?thesis using a2 advanced_trans provided_from by blast
    qed
  qed
qed

end
