(* ===== verification/FetchProperties.thy ===== *)
theory FetchProperties
  imports CacheProperties "HOL-Library.Countable"
begin

text \<open>
  The claims about a fetch: every planned asset ends in a sound entry of the cache, whatever fails
  on the way.
\<close>

section \<open>Downloads into the cache\<close>

text \<open>A step of a fetch before its answer is recorded.\<close>

definition fetch_step :: "cache_world \<Rightarrow> (string \<Rightarrow> string option) \<Rightarrow> fetch_state \<Rightarrow> fetch_state \<Rightarrow> bool" where
  "fetch_step w pins s t \<longleftrightarrow> advanced w pins (cache_side s) (cache_side t) \<and> report_entries t = report_entries s"

lemma fetch_step_refl [simp]: "fetch_step w pins s s"
  by (simp add: fetch_step_def)

lemma fetch_step_trans: "fetch_step w pins s t \<Longrightarrow> fetch_step w pins t u \<Longrightarrow> fetch_step w pins s u"
  using advanced_trans by (auto simp: fetch_step_def)

definition fetch_advances :: "cache_world \<Rightarrow> (string \<Rightarrow> string option) \<Rightarrow> 'a fetch_action \<Rightarrow> bool" where
  "fetch_advances w pins m \<longleftrightarrow> (\<forall>s. fetch_step w pins s (fst (m s)))"

lemma fetch_advances_run: "fetch_advances w pins m \<Longrightarrow> m s = (t, r) \<Longrightarrow> fetch_step w pins s t"
  by (metis fetch_advances_def fst_conv)

named_theorems fetch_intros

lemma fetch_advances_bind [fetch_intros]:
  "fetch_advances w pins m \<Longrightarrow> (\<And>x. fetch_advances w pins (f x)) \<Longrightarrow> fetch_advances w pins (act_bind m f)"
  unfolding fetch_advances_def
  by (auto simp: act_bind_def split: prod.splits sum.splits) (metis fetch_step_trans fst_conv)+

lemma fetch_advances_basic [fetch_intros]:
  "fetch_advances w pins (act_return x)" "fetch_advances w pins (act_raise e)" "fetch_advances w pins act_get"
  "(\<And>s. cache_side (f s) = cache_side s) \<Longrightarrow> (\<And>s. report_entries (f s) = report_entries s) \<Longrightarrow> fetch_advances w pins (act_modify f)"
  by (simp_all add: fetch_advances_def fetch_step_def)

lemma fetch_advances_if [fetch_intros]:
  "fetch_advances w pins m \<Longrightarrow> fetch_advances w pins m' \<Longrightarrow> fetch_advances w pins (if b then m else m')"
  by simp

lemma fetch_advances_when [fetch_intros]: "fetch_advances w pins m \<Longrightarrow> fetch_advances w pins (act_when b m)"
  by (simp add: act_when_def fetch_intros)

lemma on_cache_advances:
  assumes "\<And>s t r. m s = (t, r) \<Longrightarrow> advanced w pins s t"
  shows "fetch_advances w pins (on_cache m)"
  using assms by (auto simp: fetch_advances_def fetch_step_def on_cache_def split: prod.split)

lemma on_cache_stays: "stays_partial m \<Longrightarrow> fetch_advances w pins (on_cache m)"
  by (rule on_cache_advances) (rule stays_advanced)

lemma on_cache_run: "on_cache m s = (t, r) \<Longrightarrow> m (cache_side s) = (cache_side t, r)"
  by (auto simp: on_cache_def split: prod.splits)

lemma put_part_elsewhere: "k \<noteq> part_directory p \<Longrightarrow> dict_get (nodes (put_part p found s)) k = dict_get (nodes s) k"
  by (cases found) (simp_all add: put_part_def change_items_elsewhere)

lemma on_part_advances [fetch_intros]:
  assumes "partial_place (part_directory p)"
  shows "fetch_advances w pins (on_part p m)"
proof -
  have "advanced w pins s (put_part p found s)" for found s
    by (rule untouched_advanced, rule put_part_elsewhere) (use partial_place_other [OF assms] in auto)
  then show ?thesis by (simp add: fetch_advances_def fetch_step_def on_part_def split: prod.split)
qed

lemma with_context_advances [fetch_intros]:
  "partial_place (part_directory p) \<Longrightarrow> fetch_advances w pins (with_context run p m)"
  unfolding with_context_def by (intro fetch_intros)

lemma part_present_advances [fetch_intros]: "fetch_advances w pins (part_present p)"
  by (simp add: fetch_advances_def part_present_def)

lemma transport_for_advances [fetch_intros]: "fetch_advances w pins (transport_for run a)"
  by (auto simp: fetch_advances_def fetch_step_def transport_for_def Let_def split: option.split)

lemma update_partial_advances [fetch_intros]:
  "partial_place (part_directory p) \<Longrightarrow> fetch_advances w pins (on_cache (update_partial w' p n))"
  by (rule on_cache_stays, rule confined_stays [OF update_partial_confined])

lemma after_failure_advances:
  "partial_place (part_directory p) \<Longrightarrow> fetch_advances w pins (after_failure w' run need p started e)"
  unfolding after_failure_def
  by (intro fetch_intros on_cache_stays remove_partial_stays) simp_all

lemma receive_advances:
  "partial_place (part_directory p) \<Longrightarrow> fetch_advances w pins (receive_asset w' run need address p)"
  unfolding receive_asset_def by (intro fetch_intros)

text \<open>The outcome of a download describes the bytes it left in the part file.\<close>

lemma receive_matches:
  assumes "receive_asset w run need address p s = (t, Inr out)"
    and "bytes_at (part_directory p) (part_name p) (cache_side t) = Some b"
  shows "length b = outcome_size out" and "content_sha w b = outcome_sha256 out"
proof -
  from assms(1) obtain s1 auth where run: "with_context run p (\<lambda>env. download_asset env (setting_for w run auth)
      (remote_for (need_asset need) address)) s1 = (t, Inr out)"
    by (auto simp: receive_asset_def act_bind_Inr)
  let ?env = "part_context run p s1"
  let ?d = "\<lparr>part_file = bytes_at (part_directory p) (part_name p) (cache_side s1), wire = fetch_wire s1, progress_reports = []\<rparr>"
  obtain u where got: "download_asset ?env (setting_for w run auth) (remote_for (need_asset need) address) ?d = (u, Inr out)"
    and t: "cache_side t = put_part p (part_file u) (cache_side s1)"
    using run by (auto simp: with_context_def on_part_def split: prod.splits)
  note facts = download_outcome_facts [OF got]
  have "b = stored u" using assms(2) facts(1) t by (simp add: put_part_def bytes_set split: if_splits)
  then show "length b = outcome_size out" "content_sha w b = outcome_sha256 out"
    using facts(2,3) by (simp_all add: setting_for_def)
qed

section \<open>One asset\<close>

abbreviation fetch_provides :: "cache_world \<Rightarrow> (string \<Rightarrow> string option) \<Rightarrow> string \<Rightarrow> string \<Rightarrow> fetch_state \<Rightarrow> fetch_state \<Rightarrow> cache_entry result \<Rightarrow> bool" where
  "fetch_provides w pins kind identity s t r \<equiv> fetch_step w pins s t \<and>
     (\<forall>e. r = Inr e \<longrightarrow> provided w pins kind identity (cache_side s) (cache_side t) e)"

lemma provides_after:
  "fetch_step w pins s u \<Longrightarrow> fetch_provides w pins kind identity u t r \<Longrightarrow> fetch_provides w pins kind identity s t r"
  using fetch_step_trans provided_from unfolding fetch_step_def by blast

lemma failed_provides: "fetch_step w pins s t \<Longrightarrow> fetch_provides w pins kind identity s t (Inl e)"
  by simp

lemma discard_part_bytes_Inr:
  assumes "discard_part_bytes w run p s = (t, Inr q)" and "partial_for p kind identity a"
  shows "partial_for q kind identity a"
proof -
  from assms(1) obtain u where "on_cache (update_partial w p 0) u = (t, Inr q)"
    unfolding discard_part_bytes_def act_bind_Inr by blast
  from on_cache_run [OF this] show ?thesis using update_partial_Inr assms(2) by blast
qed

lemma prepare_part_effect:
  assumes run: "prepare_part w run need s = (t, r)"
  shows "fetch_step w pins s t"
    and "r = Inr p \<Longrightarrow> partial_for p (resolved_kind (run_resolved run)) (need_identity need) (need_asset need)"
proof -
  let ?open = "on_cache (open_partial w (resolved_kind (run_resolved run)) (need_identity need) (need_asset need) (run_owner run))"
  obtain s1 r1 where opened: "?open s = (s1, r1)" by fastforce
  have a1: "fetch_step w pins s s1"
    by (rule fetch_advances_run [OF on_cache_stays [OF open_partial_stays] opened])
  have "fetch_step w pins s t \<and>
      (\<forall>p. r = Inr p \<longrightarrow> partial_for p (resolved_kind (run_resolved run)) (need_identity need) (need_asset need))"
  proof (cases r1)
    case (Inl e)
    with run opened a1 show ?thesis unfolding prepare_part_def by auto
  next
    case (Inr p0)
    then have p0: "partial_for p0 (resolved_kind (run_resolved run)) (need_identity need) (need_asset need)"
      using opened open_partial_Inr by (auto simp: on_cache_def split: prod.splits)
    let ?rest = "act_bind (part_present p0) (\<lambda>present.
        if \<not> run_resume run \<and> present \<noteq> 0 then discard_part_bytes w run p0 else act_return p0)"
    have rest: "?rest s1 = (t, r)" using run opened Inr unfolding prepare_part_def by simp
    have "fetch_advances w pins ?rest" unfolding discard_part_bytes_def by (intro fetch_intros partial_for_place [OF p0])
    from fetch_advances_run [OF this rest] a1 have "fetch_step w pins s t" by (rule fetch_step_trans [rotated])
    moreover have "partial_for p (resolved_kind (run_resolved run)) (need_identity need) (need_asset need)" if "r = Inr p" for p
      using rest that p0 discard_part_bytes_Inr by (auto simp: part_present_def act_bind_Inr split: if_splits)
    ultimately show ?thesis by blast
  qed
  then show "fetch_step w pins s t"
    and "r = Inr p \<Longrightarrow> partial_for p (resolved_kind (run_resolved run)) (need_identity need) (need_asset need)" by blast+
qed

lemma after_failure_fails: "after_failure w run need p n e s = (t, r) \<Longrightarrow> \<exists>e'. r = Inl e'"
  by (auto simp: after_failure_def act_bind_def split: if_splits prod.splits sum.splits)

lemma completed_provides:
  assumes "on_cache (complete_partial w p out origin) s = (t, r)" and "partial_for p kind identity a" and "pins identity = planned_sha256 a"
    and "\<And>b. bytes_at (part_directory p) (part_name p) (cache_side s) = Some b \<Longrightarrow> content_sha w b = outcome_sha256 out"
  shows "fetch_provides w pins kind identity s t r"
proof -
  have "act_spec ((=) (cache_side s)) (complete_partial w p out origin)
      (\<lambda>e t. advanced w pins (cache_side s) t \<and> provided w pins kind identity (cache_side s) t e) (advanced w pins (cache_side s))"
    by (rule complete_spec [where pins = pins and kind = kind, OF assms(2,3)]) (rule assms(4))
  then show ?thesis using assms(1) unfolding act_spec_def by (auto simp: on_cache_def fetch_step_def split: prod.splits sum.splits)
qed

lemma download_need_effect:
  assumes run: "download_need w run need address s = (t, r)" and kind: "kind = resolved_kind (run_resolved run)"
    and pins: "pins (need_identity need) = planned_sha256 (need_asset need)"
  shows "fetch_provides w pins kind (need_identity need) s t r"
proof -
  obtain s1 r1 where prepared: "prepare_part w run need s = (s1, r1)" by fastforce
  note a1 = prepare_part_effect(1) [OF prepared]
  show ?thesis
  proof (cases r1)
    case (Inl e)
    with run prepared a1 show ?thesis unfolding download_need_def by auto
  next
    case (Inr p)
    note p = prepare_part_effect(2) [OF prepared Inr]
    obtain n where n: "part_present p s1 = (s1, Inr n)" by (simp add: part_present_def)
    obtain s2 r2 where got: "receive_asset w run need address p s1 = (s2, r2)" by fastforce
    from fetch_advances_run [OF receive_advances [OF partial_for_place [OF p]] got] a1
    have a2: "fetch_step w pins s s2" by (rule fetch_step_trans [rotated])
    show ?thesis
    proof (cases r2)
      case (Inl e)
      with run prepared n got \<open>r1 = Inr p\<close> have last: "after_failure w run need p n e s2 = (t, r)"
        unfolding download_need_def by simp
      from fetch_advances_run [OF after_failure_advances [OF partial_for_place [OF p]] last] a2
      have "fetch_step w pins s t" by (rule fetch_step_trans [rotated])
      then show ?thesis using after_failure_fails [OF last] by auto
    next
      case out: (Inr out)
      define s3 where "s3 = s2\<lparr>report_received := report_received s2 + (outcome_size out - resumed_from out),
          report_present := report_present s2 + outcome_size out\<rparr>"
      have side: "cache_side s3 = cache_side s2" "fetch_step w pins s s3" using a2 by (simp_all add: s3_def fetch_step_def)
      have last: "on_cache (complete_partial w p out (run_provenance run)) s3 = (t, r)"
        using run prepared n got out \<open>r1 = Inr p\<close> unfolding download_need_def by (simp add: s3_def)
      have "fetch_provides w pins kind (need_identity need) s3 t r"
        by (rule completed_provides [where pins = pins and kind = kind, OF last p [folded kind] pins]) (simp add: side receive_matches [OF got [unfolded out]])
      then show ?thesis using provides_after side(2) by blast
    qed
  qed
qed


section \<open>All assets\<close>

lemma provide_asset_effect:
  assumes run: "provide_asset w run need s = (t, r)" and kind: "kind = resolved_kind (run_resolved run)"
    and pins: "pins (need_identity need) = planned_sha256 (need_asset need)"
    and found: "\<And>e. need_entry need = Some e \<Longrightarrow> provided w pins kind (need_identity need) (cache_side s) (cache_side s) e"
  shows "fetch_provides w pins kind (need_identity need) s t r"
proof (cases "need_entry need")
  case (Some e)
  with run found show ?thesis by (auto simp: provide_asset_def)
next
  case None
  show ?thesis
  proof (cases "local_file (need_asset need)")
    case (Some path)
    with None run have "on_cache (import_file w kind (need_identity need) (need_asset need) path (run_owner run) (run_provenance run)) s = (t, r)"
      by (simp add: provide_asset_def import_asset_def kind)
    from import_file_effect [where pins = pins, OF on_cache_run [OF this] pins] this show ?thesis
      by (auto simp: fetch_step_def on_cache_def split: prod.splits)
  next
    case no_file: None
    show ?thesis
    proof (cases "planned_url (need_asset need)")
      case (Some address)
      with None no_file run have "download_need w run need address s = (t, r)" by (simp add: provide_asset_def)
      from download_need_effect [where pins = pins, OF this kind pins] show ?thesis .
    next
      case none: None
      with None no_file run show ?thesis by (auto simp: provide_asset_def)
    qed
  qed
qed

definition needs_consistent :: "cache_world \<Rightarrow> (string \<Rightarrow> string option) \<Rightarrow> string \<Rightarrow> cache_tree \<Rightarrow> asset_need list \<Rightarrow> bool" where
  "needs_consistent w pins kind c needs \<longleftrightarrow> (\<forall>need \<in> set needs. pins (need_identity need) = planned_sha256 (need_asset need) \<and>
     (\<forall>e. need_entry need = Some e \<longrightarrow> provided w pins kind (need_identity need) c c e))"

definition reported :: "cache_world \<Rightarrow> (string \<Rightarrow> string option) \<Rightarrow> string \<Rightarrow> fetch_state \<Rightarrow> asset_need \<Rightarrow> bool" where
  "reported w pins kind s need \<longleftrightarrow> (\<exists>e. dict_get (report_entries s) (need_identity need) = Some e \<and>
     entry_stands w pins kind (need_identity need) (cache_side s) e)"

lemma provided_advanced:
  "provided w pins kind identity c c e \<Longrightarrow> cache_sound w pins c \<Longrightarrow> advanced w pins c d \<Longrightarrow> provided w pins kind identity d d e"
  unfolding provided_def advanced_def using stands_kept by blast

lemma reported_step:
  assumes "reported w pins kind s need" and "advanced w pins (cache_side s) (cache_side t)"
    and "report_entries t = AList.update i e (report_entries s)" and "entry_stands w pins kind i (cache_side t) e"
  shows "reported w pins kind t need"
proof (cases "need_identity need = i")
  case True
  with assms(3,4) show ?thesis by (simp add: reported_def)
next
  case False
  from assms(1) obtain x where "dict_get (report_entries s) (need_identity need) = Some x"
    "entry_stands w pins kind (need_identity need) (cache_side s) x" by (auto simp: reported_def)
  with False assms(2,3) stands_kept show ?thesis by (auto simp: reported_def advanced_def)
qed

lemma provide_assets_effect:
  assumes "provide_assets w run needs s = (t, r)" and "kind = resolved_kind (run_resolved run)"
    and "needs_consistent w pins kind (cache_side s) needs" and "cache_sound w pins (cache_side s)" and "codec_documented w"
    and "\<And>need. need \<in> set done_already \<Longrightarrow> reported w pins kind s need"
  shows "advanced w pins (cache_side s) (cache_side t) \<and>
    (r = Inr () \<longrightarrow> (\<forall>need \<in> set done_already \<union> set needs. reported w pins kind t need))"
  using assms
proof (induction needs arbitrary: s done_already)
  case Nil
  then show ?case by auto
next
  case (Cons need needs)
  define s0 where "s0 = s\<lparr>cache_side := (cache_side s)\<lparr>ticks := Suc (ticks (cache_side s))\<rparr>\<rparr>"
  have a0: "advanced w pins (cache_side s) (cache_side s0)" by (rule same_advanced) (simp add: s0_def)
  let ?stop = "run_stop run (ticks (cache_side s))"
  have stops: "run_stops run s = (s0, Inr ?stop)" by (simp add: run_stops_def s0_def)
  obtain s1 r1 where step: "provide_asset w run need s0 = (s1, r1)" by fastforce
  have sound0: "cache_sound w pins (cache_side s0)" using a0 Cons.prems(4) by (simp add: advanced_def)
  have consistent: "pins (need_identity need) = planned_sha256 (need_asset need)"
    "\<And>e. need_entry need = Some e \<Longrightarrow> provided w pins kind (need_identity need) (cache_side s0) (cache_side s0) e"
    using Cons.prems(3,4) a0 provided_advanced unfolding needs_consistent_def by (simp, fastforce)
  note effect = provide_asset_effect [where pins = pins, OF step Cons.prems(2) consistent]
  have a1: "advanced w pins (cache_side s) (cache_side s1)" using a0 effect advanced_trans unfolding fetch_step_def by blast
  consider "?stop" | "\<not> ?stop" "\<exists>e. r1 = Inl e" | e where "\<not> ?stop" "r1 = Inr e" by (cases r1) auto
  then show ?case
  proof cases
    case 1
    with Cons.prems(1) stops a0 show ?thesis by auto
  next
    case 2
    with Cons.prems(1) stops step a1 show ?thesis by auto
  next
    case (3 e)
    define s2 where "s2 = s1\<lparr>report_entries := AList.update (need_identity need) e (report_entries s1),
        report_completed := report_completed s1 + 1, progress_updates := progress_updates s1 @ [Assets_Done (report_completed s1 + 1)]\<rparr>"
    have rest: "provide_assets w run needs s2 = (t, r)"
      using Cons.prems(1) stops step 3 by (simp add: update_progress_def s2_def)
    have side: "cache_side s2 = cache_side s1" by (simp add: s2_def)
    have stands: "entry_stands w pins kind (need_identity need) (cache_side s2) e"
      using effect 3(2) sound0 Cons.prems(5) unfolding provided_def side by blast
    have a2: "advanced w pins (cache_side s) (cache_side s2)" using a1 side by simp
    have sound2: "cache_sound w pins (cache_side s2)" using a2 Cons.prems(4) by (simp add: advanced_def)
    have "needs_consistent w pins kind (cache_side s2) needs"
      using Cons.prems(3,4) a2 provided_advanced unfolding needs_consistent_def by fastforce
    moreover have "reported w pins kind s2 x" if "x \<in> set (need # done_already)" for x
    proof (cases "x = need")
      case True
      with stands show ?thesis by (simp add: reported_def s2_def)
    next
      case False
      with that have "reported w pins kind s x" using Cons.prems(6) by simp
      moreover have "report_entries s2 = AList.update (need_identity need) e (report_entries s)"
        using effect by (simp add: s2_def fetch_step_def s0_def)
      ultimately show ?thesis using reported_step a2 stands by blast
    qed
    ultimately have "advanced w pins (cache_side s2) (cache_side t) \<and>
        (r = Inr () \<longrightarrow> (\<forall>x \<in> set (need # done_already) \<union> set needs. reported w pins kind t x))"
      by (intro Cons.IH [OF rest Cons.prems(2) _ sound2 Cons.prems(5)])
    then show ?thesis using a2 advanced_trans by auto
  qed
qed


lemma asset_needs_effect:
  assumes "asset_needs n w resolved assets s = (t, r)"
  shows "nodes t = nodes s" and "r = Inr needs \<Longrightarrow> map need_asset needs = assets \<and>
    (\<forall>need \<in> set needs. need_identity need = identity_in n resolved (need_asset need) \<and>
      (\<forall>e. need_entry need = Some e \<longrightarrow> provided w pins (resolved_kind resolved) (need_identity need) s s e))"
proof -
  have "node_free (asset_needs n w resolved assets)" by (induction assets) (simp_all only: asset_needs.simps, intro idle_intros, intro idle_intros, assumption)
  from idle_nodes [OF this assms] show "nodes t = nodes s" .
  show "r = Inr needs \<Longrightarrow> map need_asset needs = assets \<and>
    (\<forall>need \<in> set needs. need_identity need = identity_in n resolved (need_asset need) \<and>
      (\<forall>e. need_entry need = Some e \<longrightarrow> provided w pins (resolved_kind resolved) (need_identity need) s s e))"
    using assms
  proof (induction assets arbitrary: s r needs)
    case (Cons a assets)
    let ?find = "find_complete w (resolved_kind resolved) (identity_in n resolved a) True"
    from Cons.prems obtain s1 found rest where steps: "?find s = (s1, Inr found)"
      "asset_needs n w resolved assets s1 = (t, Inr rest)"
      "needs = \<lparr>need_asset = a, need_identity = identity_in n resolved a, need_entry = found\<rparr> # rest"
      by (auto simp: act_bind_Inr)
    have "nodes s1 = nodes s" by (rule idle_nodes [where m = ?find, OF _ steps(1)]) (intro idle_intros)
    then have same: "advanced w pins s s1" "advanced w pins s1 s" by (auto intro: same_advanced)
    have earlier: "provided w pins kind i s s e" if "provided w pins kind i s1 s1 e" for kind i e
      using that same stands_kept unfolding provided_def advanced_def by blast
    have "provided w pins (resolved_kind resolved) (identity_in n resolved a) s s e" if "found = Some e" for e
      using found_stands steps(1) that same stands_kept unfolding provided_def advanced_def by blast
    then show ?case using Cons.IH [OF refl steps(2)] steps(3) earlier by auto
  qed simp
qed

lemma plan_consistent:
  assumes "asset_needs n w resolved assets c = (c', Inr needs)" and "\<And>a. a \<in> set assets \<Longrightarrow> pins (identity_in n resolved a) = planned_sha256 a"
  shows "needs_consistent w pins (resolved_kind resolved) c needs"
proof -
  note facts = asset_needs_effect(2) [OF assms(1) refl, of pins]
  have "need_asset need \<in> set assets" if "need \<in> set needs" for need
    using facts that by (metis image_eqI list.set_map)
  then show ?thesis using facts assms(2) unfolding needs_consistent_def by metis
qed

lemma download_assets_effect:
  assumes run: "download_assets n w run s = (t, r)" and sound: "cache_sound w pins (cache_side s)" and codec: "codec_documented w"
    and pins: "\<And>a. a \<in> set (resolved_assets (run_resolved run)) \<Longrightarrow> pins (identity_in n (run_resolved run) a) = planned_sha256 a"
  shows "advanced w pins (cache_side s) (cache_side t) \<and>
    (r = Inr () \<longrightarrow> (\<exists>needs. map need_asset needs = resolved_assets (run_resolved run) \<and>
      (\<forall>need \<in> set needs. need_identity need = identity_in n (run_resolved run) (need_asset need) \<and>
         reported w pins (resolved_kind (run_resolved run)) t need)))"
proof -
  let ?src = "run_resolved run"
  obtain c1 q1 where needs: "asset_needs n w ?src (resolved_assets ?src) (cache_side s) = (c1, q1)" by fastforce
  have same1: "nodes c1 = nodes (cache_side s)" by (rule asset_needs_effect(1) [OF needs])
  show ?thesis
  proof (cases q1)
    case (Inl e)
    with run needs have "cache_side t = c1" "r = Inl e" by (auto simp: download_assets_def on_cache_def)
    with same1 show ?thesis by (simp add: same_advanced)
  next
    case (Inr ns)
    obtain c2 q2 where space: "check_space w run ns c1 = (c2, q2)" by fastforce
    have "node_free (check_space w run ns)" unfolding check_space_def by (intro idle_intros)
    from idle_nodes [OF this space] same1 have a2: "advanced w pins (cache_side s) c2" by (intro same_advanced) simp
    show ?thesis
    proof (cases q2)
      case (Inl e)
      with run needs space \<open>q1 = Inr ns\<close> have "cache_side t = c2" "r = Inl e"
        by (auto simp: download_assets_def on_cache_def)
      with a2 show ?thesis by simp
    next
      case q2: (Inr u)
      define s2 where "s2 = s\<lparr>cache_side := c2, report_total := remaining_bytes ns,
        progress_updates := progress_updates s @ [Download_Phase (length ns) (remaining_bytes ns) (pausable ?src)]\<rparr>"
      have side: "cache_side s2 = c2" by (simp add: s2_def)
      have rest: "provide_assets w run ns s2 = (t, r)"
        using run needs space \<open>q1 = Inr ns\<close> q2
        by (simp add: download_assets_def on_cache_def ensure_assets_def update_progress_def s2_def)
      have "needs_consistent w pins (resolved_kind ?src) (cache_side s) ns"
        by (rule plan_consistent [where pins = pins, OF needs [unfolded Inr] pins])
      then have "needs_consistent w pins (resolved_kind ?src) (cache_side s2) ns"
        using provided_advanced sound a2 unfolding needs_consistent_def side by fastforce
      moreover have "cache_sound w pins (cache_side s2)" using a2 sound by (simp add: side advanced_def)
      ultimately have "advanced w pins (cache_side s2) (cache_side t) \<and>
          (r = Inr () \<longrightarrow> (\<forall>need \<in> set [] \<union> set ns. reported w pins (resolved_kind ?src) t need))"
        using provide_assets_effect [OF rest refl _ _ codec, of pins "[]"] by auto
      then show ?thesis using asset_needs_effect(2) [OF needs Inr, of pins] a2 advanced_trans unfolding side by auto
    qed
  qed
qed

text \<open>
  C39: the download phase of a fetch over the cache. Start from any sound cache and let file
  operations, the disk, the network, name resolution and the stop check behave in any way. Then the
  cache stays sound, that is, every complete entry is a directory whose manifest names its place and
  describes exactly the bytes it holds, and no complete entry that was there is changed. When the
  phase succeeds, every planned asset has an entry in the report, under its identity; the entry is
  in the cache, its bytes have the recorded size and checksum, and they have the checksum that the
  plan expects, whether the entry was reused, imported or downloaded.
\<close>

theorem fetched_assets_verified:
  assumes run: "download_assets n w run s = (t, r)" and sound: "cache_sound w pins (cache_side s)" and codec: "codec_documented w"
    and pins: "\<And>a. a \<in> set (resolved_assets (run_resolved run)) \<Longrightarrow> pins (identity_in n (run_resolved run) a) = planned_sha256 a"
  shows "cache_sound w pins (cache_side t) \<and> entries_kept (cache_side s) (cache_side t) \<and>
    (r = Inr () \<longrightarrow> (\<forall>a \<in> set (resolved_assets (run_resolved run)). \<exists>e.
       dict_get (report_entries t) (identity_in n (run_resolved run) a) = Some e \<and>
       entry_stands w pins (resolved_kind (run_resolved run)) (identity_in n (run_resolved run) a) (cache_side t) e \<and>
       (\<forall>h. planned_sha256 a = Some h \<longrightarrow> manifest_sha256 (entry_manifest e) = h)))"
proof -
  note effect = download_assets_effect [OF run sound codec pins]
  have "\<exists>e. dict_get (report_entries t) (identity_in n (run_resolved run) a) = Some e \<and>
       entry_stands w pins (resolved_kind (run_resolved run)) (identity_in n (run_resolved run) a) (cache_side t) e \<and>
       (\<forall>h. planned_sha256 a = Some h \<longrightarrow> manifest_sha256 (entry_manifest e) = h)"
    if "r = Inr ()" and a: "a \<in> set (resolved_assets (run_resolved run))" for a
  proof -
    from effect \<open>r = Inr ()\<close> obtain needs where list: "map need_asset needs = resolved_assets (run_resolved run)"
      "\<And>need. need \<in> set needs \<Longrightarrow> need_identity need = identity_in n (run_resolved run) (need_asset need) \<and>
         reported w pins (resolved_kind (run_resolved run)) t need" by blast
    from a obtain need where need: "need \<in> set needs" "need_asset need = a"
      unfolding list(1) [symmetric] by auto
    from list(2) [OF need(1)] obtain e where "dict_get (report_entries t) (identity_in n (run_resolved run) a) = Some e"
      "entry_stands w pins (resolved_kind (run_resolved run)) (identity_in n (run_resolved run) a) (cache_side t) e"
      by (auto simp: reported_def need(2))
    then show ?thesis using pins [OF a] by (auto simp: entry_stands_def)
  qed
  with effect sound show ?thesis unfolding advanced_def by blast
qed

section \<open>A fetch of one uploaded archive\<close>

type_synonym manifest_tuple =
  "string \<times> string \<times> pystr \<times> string \<times> pystr \<times> string \<times> nat \<times> string \<times> string option \<times> pystr \<times> string"

definition manifest_fields :: "cache_manifest \<Rightarrow> manifest_tuple" where
  "manifest_fields m = (manifest_kind m, manifest_identity m, manifest_reference m, manifest_revision m, manifest_path m,
     manifest_basename m, manifest_size m, manifest_sha256 m, manifest_etag m, manifest_terms m, manifest_created_at m)"

definition manifest_of_fields :: "manifest_tuple \<Rightarrow> cache_manifest" where
  "manifest_of_fields v = (case v of (k, i, r, n, p, b, s, h, t, c, d) \<Rightarrow>
     \<lparr>manifest_kind = k, manifest_identity = i, manifest_reference = r, manifest_revision = n, manifest_path = p,
      manifest_basename = b, manifest_size = s, manifest_sha256 = h, manifest_etag = t, manifest_terms = c, manifest_created_at = d\<rparr>)"

definition sha_a :: string where "sha_a = replicate 64 (CHR ''a'')"
definition sha_b :: string where "sha_b = replicate 64 (CHR ''b'')"

definition example_world :: cache_world where
  "example_world = \<lparr>fault_at = (\<lambda>n. None), usage_at = (\<lambda>n. Some \<lparr>total_bytes = 0, free_bytes = 10 ^ 12\<rparr>), stamp_at = (\<lambda>n. ''now''),
     local_files = (\<lambda>f. Local_File [1, 2, 3]), content_sha = (\<lambda>b. sha_a),
     manifest_json = (\<lambda>m. replicate (to_nat (manifest_fields m)) 0),
     manifest_of_json = (\<lambda>b. Some (manifest_of_fields (from_nat (length b)))),
     partial_json = (\<lambda>r. []), partial_of_json = (\<lambda>b. None)\<rparr>"

lemma example_codec: "codec_documented example_world"
  by (simp add: codec_documented_def example_world_def manifest_of_fields_def manifest_fields_def)

definition example_naming :: naming where
  "example_naming = \<lparr>fields_json = (\<lambda>f. []), sha_of = (\<lambda>b. sha_b), lowered = id\<rparr>"

definition example_upload :: planned_asset where
  "example_upload = \<lparr>planned_url = None, planned_path = text_points ''a.zip'', planned_size = Some 3, planned_sha256 = Some sha_a,
     planned_etag = None, planned_resumable = False, authorization_host = None, local_file = Some ''archive.bin''\<rparr>"

definition example_source :: resolved_source where
  "example_source = \<lparr>resolved_kind = ''upload'', resolved_reference = text_points ''upload:a.zip'', requested_revision = None,
     resolved_revision = ''r'', resolved_access = ''available'', resolved_guidance = None, resolved_content = Images,
     resolved_assets = [example_upload], pausable = False, declares_splits = False, split_mapping = [], member_split_labels = [],
     resolved_warnings = [], resolved_terms = text_points ''not_reviewed'', resolved_text_column = None, resolved_image_column = None\<rparr>"

definition example_run :: download_run where
  "example_run = \<lparr>run_plan = \<lparr>plan_resolved = example_source, plan_source_name = ''a'', plan_identity = sha_a, plan_maximum_images = 1,
       plan_training = True\<rparr>, run_owner = ''job'', run_maximum = 10, run_resume = True, run_created_at = ''now'',
     run_internet = example_net, run_context = (\<lambda>n. example_env False), run_stop = (\<lambda>n. False), hub_token = None\<rparr>"

definition example_start :: fetch_state where
  "example_start = \<lparr>cache_side = \<lparr>nodes = [], ticks = 0\<rparr>, fetch_wire = [], transports = [], progress_updates = [], report_entries = [],
     report_received = 0, report_total = None, report_present = 0, report_completed = 0\<rparr>"

lemma example_shas [simp]: "is_sha256 sha_a" "is_sha256 sha_b" "length sha_a = 64" "length sha_b = 64" "sha_a \<noteq> []" "sha_b \<noteq> []" "lower_text sha_a = sha_a"
proof -
  show "is_sha256 sha_a" "is_sha256 sha_b" by (simp_all add: is_sha256_def sha_a_def sha_b_def list_all_iff char_class_defs)
  then show "lower_text sha_a = sha_a" using sha_lower by blast
qed (simp_all add: sha_a_def sha_b_def)

lemma example_basename: "cache_basename (text_points ''a.zip'') = ''a.zip''"
  by code_simp

lemma example_world_simps [simp]: "fault_at example_world n = None" "usage_at example_world n = Some \<lparr>total_bytes = 0, free_bytes = 10 ^ 12\<rparr>"
  "stamp_at example_world n = ''now''" "local_files example_world f = Local_File [1, 2, 3]" "content_sha example_world b = sha_a"
  "partial_of_json example_world b = None"
  by (simp_all add: example_world_def)

lemma example_operation [simp]: "cache_operation example_world f g s = (g (s\<lparr>ticks := Suc (ticks s)\<rparr>), Inr ())"
  "cache_probe example_world d h s = (s\<lparr>ticks := Suc (ticks s)\<rparr>, Inr (h s))" "cache_lock example_world s = (s\<lparr>ticks := Suc (ticks s)\<rparr>, Inr ())"
  "time_stamp example_world s = (s\<lparr>ticks := Suc (ticks s)\<rparr>, Inr ''now'')"
  by (simp_all add: cache_operation_def cache_probe_def cache_lock_def time_stamp_def)

lemma example_reserve: "n \<le> 3 \<Longrightarrow> 0 \<le> n \<Longrightarrow> reserve_for example_world n s = (s\<lparr>ticks := Suc (ticks s)\<rparr>, Inr ())"
  by (simp add: reserve_for_def ensure_disk_reserve_def minimum_reserve_bytes_def)

definition example_place :: place where "example_place = (''upload'', sha_b @ partial_ending)"

definition example_partial :: cache_partial where
  "example_partial = \<lparr>part_kind = ''upload'', part_identity = sha_b, part_directory = example_place, part_name = ''a.zip.part'',
     part_record = \<lparr>partial_owner = ''job'', partial_received = 0, partial_size = Some 3, partial_sha256 = Some sha_a, partial_etag = None,
       partial_updated_at = ''now''\<rparr>, part_path = text_points ''a.zip''\<rparr>"

lemma example_opened:
  "\<exists>n. open_partial example_world ''upload'' sha_b example_upload ''job'' \<lparr>nodes = [], ticks = k\<rparr> =
     (\<lparr>nodes = [(example_place, Folder [(partial_name, Regular [])])], ticks = n\<rparr>, Inr example_partial)"
proof -
  have valid: "partial_valid \<lparr>partial_owner = ''job'', partial_received = 0, partial_size = Some 3, partial_sha256 = Some sha_a, partial_etag = None,
       partial_updated_at = ''now''\<rparr>"
    by (simp add: partial_valid_def text_between_def maximum_download_bytes_def char_class_defs)
  have dir: "cache_directory ''upload'' sha_b True = Inr example_place"
    by (simp add: cache_directory_def cache_kind_def cache_kinds_def example_place_def)
  have json: "partial_json example_world r = []" for r by (simp add: example_world_def)
  show ?thesis
    by (simp add: open_partial_def Let_def dir adoptable_part_def read_partial_record_def read_bounded_def bytes_at_def item_at_def folder_items_def
        act_when_def remove_node_def failing_as_def example_upload_def example_reserve make_folder_def checked_record_def valid
        write_partial_record_def write_cache_record_def inside_folder_def put_item_def json change_items_def example_basename part_suffix_def
        example_partial_def partial_name_def)
qed

lemma example_copied:
  "\<exists>n. import_copy example_world example_partial 3 ''archive.bin'' \<lparr>nodes = [(example_place, Folder [(partial_name, Regular [])])], ticks = k\<rparr> =
     (\<lparr>nodes = [(example_place, Folder [(partial_name, Regular []), (''a.zip.part'', Regular [1, 2, 3])])], ticks = n\<rparr>, Inr [1, 2, 3])"
proof -
  have chunks: "chunks_of copy_chunk_bytes [1, 2, 3] = [[1, 2, 3 :: byte]]"
    by (simp add: chunks_of.simps copy_chunk_bytes_def)
  show ?thesis
    by (simp add: import_copy_def open_part_def copy_source_def chunks close_part_def item_at_def folder_items_def example_partial_def
        partial_name_def change_items_def extend_part_def bytes_at_def)
qed

lemma example_manifest:
  "\<exists>m. manifest_for example_partial \<lparr>outcome_size = 3, outcome_sha256 = sha_a, resumed_from = 0\<rparr> (run_provenance example_run) = Inr m \<and>
     manifest_basename m = ''a.zip'' \<and> manifest_sha256 m = sha_a"
proof -
  have base: "part_basename example_partial = ''a.zip''"
    by (simp add: part_basename_def example_partial_def part_suffix_def)
  have path: "relative_path (text_points ''a.zip'') = Inr (text_points ''a.zip'')" by code_simp
  have pattern: "basename_pattern ''a.zip''" by code_simp
  have texts: "length (text_points s) = length s" for s by (simp add: text_points_def)
  have provenance: "run_provenance example_run = \<lparr>cited_reference = text_points ''upload:a.zip'', cited_revision = ''r'',
      cited_terms = text_points ''not_reviewed'', cited_at = ''now''\<rparr>"
    by (simp add: run_provenance_def example_run_def example_source_def)
  have some: "text_points ''a.zip'' \<noteq> []" by (simp add: text_points_def)
  show ?thesis unfolding manifest_for_def base provenance
    by (simp add: Let_def example_partial_def cache_kind_def cache_kinds_def manifest_valid_def text_between_def texts path pattern some
        maximum_download_bytes_def)
qed

lemma example_completed:
  "\<exists>t e. complete_partial example_world example_partial \<lparr>outcome_size = 3, outcome_sha256 = sha_a, resumed_from = 0\<rparr> (run_provenance example_run)
     \<lparr>nodes = [(example_place, Folder [(partial_name, Regular []), (''a.zip.part'', Regular [1, 2, 3])])], ticks = k\<rparr> = (t, Inr e)"
proof -
  obtain m where m: "manifest_for example_partial \<lparr>outcome_size = 3, outcome_sha256 = sha_a, resumed_from = 0\<rparr> (run_provenance example_run) = Inr m"
    "manifest_basename m = ''a.zip''" using example_manifest by blast
  have fields: "part_directory example_partial = example_place" "part_name example_partial = ''a.zip.part''" "part_kind example_partial = ''upload''"
    "part_identity example_partial = sha_b" "partial_sha256 (part_record example_partial) = Some sha_a"
    "partial_size (part_record example_partial) = Some 3" "part_basename example_partial = ''a.zip''"
    by (simp_all add: example_partial_def part_basename_def part_suffix_def)
  have reserved: "\<not> is_reserved_name ''a.zip''" by code_simp
  have dir: "cache_directory ''upload'' sha_b False = Inr (''upload'', sha_b)"
    by (simp add: cache_directory_def cache_kind_def cache_kinds_def)
  have other: "(''upload'', sha_b) \<noteq> example_place" by (simp add: example_place_def partial_ending_def)
  show ?thesis using other
    by (simp add: complete_partial_def fields m reserved dir is_regular_def part_status_def bytes_at_def item_at_def folder_items_def
        adopt_existing_def publish_entry_def seal_partial_def inside_folder_def failing_as_def change_items_def partial_name_def Let_def
        write_manifest_file_def write_cache_record_def manifest_name_def put_item_def act_when_def publish_node_def)
qed

lemma example_downloads: "\<exists>t. download_assets example_naming example_world example_run example_start = (t, Inr ())"
proof -
  have source: "run_resolved example_run = example_source" by (simp add: example_run_def)
  have fields: "resolved_kind example_source = ''upload''" "resolved_assets example_source = [example_upload]"
    "local_file example_upload = Some ''archive.bin''" "planned_size example_upload = Some 3" "run_owner example_run = ''job''"
    "run_maximum example_run = 10" "\<And>n. run_stop example_run n = False" "planned_url example_upload = None"
    by (simp_all add: example_source_def example_upload_def example_run_def)
  have identity: "identity_in example_naming example_source example_upload = sha_b"
    by (simp add: identity_in_def asset_identity_def example_naming_def)
  have dir: "cache_directory ''upload'' sha_b False = Inr (''upload'', sha_b)"
    by (simp add: cache_directory_def cache_kind_def cache_kinds_def)
  have absent: "find_complete example_world ''upload'' sha_b True \<lparr>nodes = [], ticks = k\<rparr> = (\<lparr>nodes = [], ticks = k\<rparr>, Inr None)" for k
    by (simp add: find_complete_def dir load_entry_def folder_items_def)
  have growth: "archive_growth ''upload'' 3 = 3" by (simp add: archive_growth_def)
  obtain n where opened: "open_partial example_world ''upload'' sha_b example_upload ''job'' \<lparr>nodes = [], ticks = 3\<rparr> =
     (\<lparr>nodes = [(example_place, Folder [(partial_name, Regular [])])], ticks = n\<rparr>, Inr example_partial)" using example_opened by blast
  obtain n' where copied: "import_copy example_world example_partial 3 ''archive.bin'' \<lparr>nodes = [(example_place, Folder [(partial_name, Regular [])])], ticks = n\<rparr> =
     (\<lparr>nodes = [(example_place, Folder [(partial_name, Regular []), (''a.zip.part'', Regular [1, 2, 3])])], ticks = n'\<rparr>, Inr [1, 2, 3])"
    using example_copied by blast
  obtain t e where completed: "complete_partial example_world example_partial \<lparr>outcome_size = 3, outcome_sha256 = sha_a, resumed_from = 0\<rparr> (run_provenance example_run)
     \<lparr>nodes = [(example_place, Folder [(partial_name, Regular []), (''a.zip.part'', Regular [1, 2, 3])])], ticks = n'\<rparr> = (t, Inr e)"
    using example_completed by blast
  have imported: "import_file example_world ''upload'' sha_b example_upload ''archive.bin'' ''job'' (run_provenance example_run) \<lparr>nodes = [], ticks = 3\<rparr> = (t, Inr e)"
    using opened copied completed by (simp add: import_file_def fields numeral_3_eq_3)
  show ?thesis
    by (simp add: download_assets_def source fields on_cache_def identity example_start_def absent check_space_def known_sizes_def
        growth example_reserve ensure_assets_def update_progress_def run_stops_def provide_asset_def import_asset_def imported numeral_3_eq_3 [symmetric] numeral_2_eq_2 [symmetric])
qed

theorem fetched_assets_verified_witness:
  "\<exists>t e. download_assets example_naming example_world example_run example_start = (t, Inr ()) \<and>
     dict_get (report_entries t) sha_b = Some e \<and> manifest_sha256 (entry_manifest e) = sha_a \<and>
     (\<exists>b. bytes_at (''upload'', sha_b) (entry_file e) (cache_side t) = Some b)"
proof -
  obtain t where run: "download_assets example_naming example_world example_run example_start = (t, Inr ())" using example_downloads by blast
  have source: "run_resolved example_run = example_source" "resolved_assets example_source = [example_upload]"
    "planned_sha256 example_upload = Some sha_a" "resolved_kind example_source = ''upload''"
    by (simp_all add: example_run_def example_source_def example_upload_def)
  have identity: "identity_in example_naming example_source example_upload = sha_b"
    by (simp add: identity_in_def asset_identity_def example_naming_def)
  have sound: "cache_sound example_world (\<lambda>i. Some sha_a) (cache_side example_start)" by (simp add: cache_sound_def example_start_def)
  from fetched_assets_verified [OF run sound example_codec] have "\<exists>e. dict_get (report_entries t) sha_b = Some e \<and>
      entry_stands example_world (\<lambda>i. Some sha_a) ''upload'' sha_b (cache_side t) e \<and> manifest_sha256 (entry_manifest e) = sha_a"
    by (simp add: source identity)
  with run show ?thesis by (auto simp: entry_stands_def)
qed

end
