(* ===== verification/CacheCleanup.thy ===== *)
theory CacheCleanup
  imports FetchProperties
begin

text \<open>
  The cleanup of the cache removes exactly what no raw folder uses and no running job holds.
\<close>

section \<open>Scanning\<close>


lemma sha_no_partial: "is_sha256 name \<Longrightarrow> \<not> ends_in name partial_ending"
proof
  assume sha: "is_sha256 name" and ends: "ends_in name partial_ending"
  then have "set (drop (length name - length partial_ending) name) \<subseteq> set name" by (simp add: set_drop_subset)
  with ends have "CHR ''.'' \<in> set name" by (auto simp: ends_in_def partial_ending_def)
  with sha show False by (auto simp: is_sha256_def list_all_iff char_class_defs)
qed




section \<open>Clearing\<close>




















section \<open>What is in use\<close>








section \<open>The summary after a cleanup\<close>





section \<open>What a cleanup leaves\<close>








section \<open>Partial downloads of running jobs\<close>





section \<open>Only marked assets are in use\<close>




section \<open>The claim\<close>


section \<open>A cleanup of a cache with a used and an unused folder and the partial folders of a running and a finished job\<close>

definition kept_manifest :: cache_manifest where
  "kept_manifest = \<lparr>manifest_kind = ''upload'', manifest_identity = sha_b, manifest_reference = text_points ''upload:a.zip'',
     manifest_revision = ''r'', manifest_path = text_points ''a.zip'', manifest_basename = ''a.zip'', manifest_size = 3,
     manifest_sha256 = sha_a, manifest_etag = None, manifest_terms = text_points ''not_reviewed'', manifest_created_at = ''now''\<rparr>"

definition stale_manifest :: cache_manifest where
  "stale_manifest = kept_manifest\<lparr>manifest_kind := ''https_archive'', manifest_identity := sha_a\<rparr>"

definition owned_record :: "string \<Rightarrow> partial_record" where
  "owned_record owner = \<lparr>partial_owner = owner, partial_received = 0, partial_size = None, partial_sha256 = None, partial_etag = None,
     partial_updated_at = ''now''\<rparr>"

text \<open>Two short manifests and a code for every other one, and the records of two jobs.\<close>

definition cleanup_world :: cache_world where
  "cleanup_world = example_world\<lparr>
     manifest_json := (\<lambda>m. if m = kept_manifest then [1] else if m = stale_manifest then [2] else 0 # replicate (to_nat (manifest_fields m)) 0),
     manifest_of_json := (\<lambda>b. if b = [1] then Some kept_manifest else if b = [2] then Some stale_manifest
       else Some (manifest_of_fields (from_nat (length b - 1)))),
     partial_of_json := (\<lambda>b. if b = [3] then Some (owned_record ''job_a'') else if b = [4] then Some (owned_record ''job_b'') else None)\<rparr>"






lemma cleanup_names [simp]: "partial_ending \<noteq> []" "\<not> ends_in sha_a partial_ending" "\<not> ends_in sha_b partial_ending"
  "ends_in (h @ partial_ending) partial_ending" "partial_name \<noteq> manifest_name" "manifest_name \<noteq> partial_name"
  "partial_name \<noteq> ''a.zip''" "manifest_name \<noteq> ''a.zip''" "''a.zip'' \<noteq> manifest_name"
proof -
  show "\<not> ends_in sha_a partial_ending" "\<not> ends_in sha_b partial_ending" using sha_no_partial by simp_all
qed (simp_all add: partial_ending_def ends_in_def partial_name_def manifest_name_def)


lemma cleanup_steps [simp]: "cache_operation cleanup_world f g s = (g (s\<lparr>ticks := Suc (ticks s)\<rparr>), Inr ())"
  "cache_probe cleanup_world d h s = (s\<lparr>ticks := Suc (ticks s)\<rparr>, Inr (h s))" "cache_lock cleanup_world s = (s\<lparr>ticks := Suc (ticks s)\<rparr>, Inr ())"
  by (simp_all add: cache_operation_def cache_probe_def cache_lock_def cleanup_world_def)










end
