(* ===== verification/DerivedNames.thy ===== *)
theory DerivedNames
  imports FetchPlans
begin

text \<open>
  The names that a fetch derives from text it does not control (a path of an asset, a folder of an
  archive, the reference of a source) always have the form that the records of
  \<^verbatim>\<open>schemas/dataset_cache.py\<close> and \<^verbatim>\<open>schemas/dataset_common.py\<close> demand.
\<close>

section \<open>File names in the cache\<close>

lemma name_char_of_name: "is_name_char (name_char_of p)"
  by (simp add: name_char_of_def is_name_char_def)

lemma basename_pattern_take:
  assumes "list_all is_name_char s" and "s \<noteq> []" and "is_word_char (hd s)"
  shows "basename_pattern (take 255 s)"
proof -
  obtain c t where s: "s = c # t" using assms(2) by (cases s) auto
  have "take 255 s = c # take 254 t" by (simp add: s take_Cons')
  with assms show ?thesis by (auto simp: s basename_pattern_def list_all_iff dest: in_set_takeD)
qed

lemma stripped_starts_with_word:
  assumes "list_all is_name_char s" and "dropWhile (\<lambda>c. c \<in> {CHR ''.'', CHR ''_'', CHR ''-''}) s \<noteq> []"
  shows "is_word_char (hd (dropWhile (\<lambda>c. c \<in> {CHR ''.'', CHR ''_'', CHR ''-''}) s))"
proof -
  let ?d = "dropWhile (\<lambda>c. c \<in> {CHR ''.'', CHR ''_'', CHR ''-''}) s"
  have "hd ?d \<in> set s" by (rule set_dropWhileD) (rule hd_in_set [OF assms(2)])
  with assms(1) have "is_name_char (hd ?d)" by (simp add: list_all_iff)
  moreover have "hd ?d \<notin> {CHR ''.'', CHR ''_'', CHR ''-''}" by (rule hd_dropWhile [OF assms(2)])
  ultimately show ?thesis by (auto simp: is_name_char_def)
qed

lemma prefixed_not_reserved: "\<not> is_reserved_name (take 255 (reserved_prefix @ s))"
  by (simp add: is_reserved_name_def starts_with_def reserved_prefix_def manifest_name_def partial_name_def lock_name_def)

lemma cache_basename_admissible: "basename_pattern (cache_basename p) \<and> \<not> is_reserved_name (cache_basename p)"
proof -
  define raw where "raw = map name_char_of (last (split_on slash p))"
  define simplified where "simplified = dropWhile (\<lambda>c. c \<in> {CHR ''.'', CHR ''_'', CHR ''-''}) raw"
  define chosen where "chosen = (if simplified = [] then ''asset'' else simplified)"
  have names: "list_all is_name_char raw" by (simp add: raw_def list_all_iff name_char_of_name)
  then have "list_all is_name_char simplified" by (auto simp: simplified_def list_all_iff dest: set_dropWhileD)
  moreover have "list_all is_name_char ''asset'' \<and> is_word_char (hd ''asset'')" by code_simp
  ultimately have chosen: "list_all is_name_char chosen" "chosen \<noteq> []" "is_word_char (hd chosen)"
    using stripped_starts_with_word [OF names] by (auto simp: chosen_def simplified_def)
  have prefix: "list_all is_name_char reserved_prefix \<and> is_word_char (hd reserved_prefix) \<and> reserved_prefix \<noteq> []" by code_simp
  have prefixed: "basename_pattern (take 255 (reserved_prefix @ take 255 chosen))"
    using prefix chosen(1) by (intro basename_pattern_take) (auto simp: list_all_iff dest: in_set_takeD)
  have form: "cache_basename p = (if is_reserved_name (take 255 chosen) then take 255 (reserved_prefix @ take 255 chosen) else take 255 chosen)"
    by (simp only: cache_basename_def chosen_def simplified_def raw_def Let_def)
  show ?thesis unfolding form using prefixed prefixed_not_reserved basename_pattern_take [OF chosen] by auto
qed

section \<open>Labels and folder names\<close>

definition label_point :: "nat \<Rightarrow> bool" where "label_point c \<longleftrightarrow> lower_point c \<or> digit_point c \<or> c = underscore"
definition folder_point :: "nat \<Rightarrow> bool" where "folder_point c \<longleftrightarrow> label_point c \<or> c = dash"

lemma take_head:
  assumes "s \<noteq> []" and "list_all P s" and "lower_point (hd s)"
  shows "take maximum_label_length s \<noteq> [] \<and> lower_point (hd (take maximum_label_length s)) \<and> list_all P (take maximum_label_length s)
    \<and> length (take maximum_label_length s) \<le> 64"
  using assms by (auto simp: maximum_label_length_def hd_take list_all_iff dest: in_set_takeD)

lemma upstream_label_admissible:
  "upstream_label n s \<noteq> [] \<and> lower_point (hd (upstream_label n s)) \<and> list_all label_point (upstream_label n s) \<and>
     length (upstream_label n s) \<le> 64"
proof -
  define simplified where "simplified = map (\<lambda>p. if lower_point p \<or> digit_point p \<or> p = underscore then p else underscore) (lowered n s)"
  define whole where "whole = (if simplified = [] \<or> \<not> lower_point (hd simplified) then text_points ''label_'' @ simplified else simplified)"
  have simple: "list_all label_point simplified" by (auto simp: simplified_def list_all_iff label_point_def)
  have prefix: "list_all label_point (text_points ''label_'') \<and> lower_point (hd (text_points ''label_'')) \<and> text_points ''label_'' \<noteq> []" by code_simp
  have "whole \<noteq> []" "list_all label_point whole" "lower_point (hd whole)" using simple prefix by (auto simp: whole_def)
  note taken = take_head [OF this(1) this(2) this(3)]
  have "upstream_label n s = take maximum_label_length whole"
    by (simp only: upstream_label_def whole_def simplified_def Let_def)
  with taken show ?thesis by (simp only: simp_thms)
qed

lemma suggested_source_name_admissible:
  "suggested_source_name n r \<noteq> [] \<and> lower_point (hd (suggested_source_name n r)) \<and> list_all folder_point (suggested_source_name n r) \<and>
     length (suggested_source_name n r) \<le> 64"
proof -
  have name: "take maximum_label_length s \<noteq> [] \<and> lower_point (hd (take maximum_label_length s)) \<and>
      list_all folder_point (take maximum_label_length s) \<and> length (take maximum_label_length s) \<le> 64"
    if s: "s = (if t = [] then text_points ''source'' else t)"
      and t: "t = dropWhile (\<lambda>p. digit_point p \<or> p \<in> {underscore, dash})
        (map (\<lambda>p. if lower_point p \<or> digit_point p \<or> p \<in> {underscore, dash} then p else underscore) raw)" for s t raw
  proof -
    have all: "list_all folder_point (map (\<lambda>p. if lower_point p \<or> digit_point p \<or> p \<in> {underscore, dash} then p else underscore) raw)"
      by (auto simp: list_all_iff folder_point_def label_point_def)
    then have points: "list_all folder_point t" by (auto simp: t list_all_iff dest: set_dropWhileD)
    have "lower_point (hd t)" if "t \<noteq> []"
    proof -
      have "folder_point (hd t)" using points hd_in_set [OF that] by (simp add: list_all_iff)
      moreover have "\<not> (digit_point (hd t) \<or> hd t \<in> {underscore, dash})"
        unfolding t by (rule hd_dropWhile) (use that t in simp)
      ultimately show ?thesis by (auto simp: folder_point_def label_point_def)
    qed
    moreover have "list_all folder_point (text_points ''source'') \<and> lower_point (hd (text_points ''source'')) \<and> text_points ''source'' \<noteq> []"
      by code_simp
    ultimately show ?thesis using points by (intro take_head) (auto simp: s)
  qed
  show ?thesis unfolding suggested_source_name_def Let_def by (rule name) (rule refl)+
qed

text \<open>
  The names that a fetch derives are always admissible, whatever the text they come from and whatever
  lower-casing does. A file name in the cache has the form that its manifest demands and is none of the names of the
  cache's own records; the label of a split folder and the suggested folder name have between one and 64 characters,
  start with a letter, and hold letters, digits and underscores only (the folder name also dashes).
\<close>

lemma derived_names_admissible:
  "basename_pattern (cache_basename p) \<and> \<not> is_reserved_name (cache_basename p) \<and>
   (upstream_label n s \<noteq> [] \<and> lower_point (hd (upstream_label n s)) \<and> list_all label_point (upstream_label n s) \<and>
     length (upstream_label n s) \<le> 64) \<and>
   (suggested_source_name n r \<noteq> [] \<and> lower_point (hd (suggested_source_name n r)) \<and>
     list_all folder_point (suggested_source_name n r) \<and> length (suggested_source_name n r) \<le> 64)"
  using cache_basename_admissible upstream_label_admissible suggested_source_name_admissible by blast

end
