(* ===== verification/Spec2Isabelle.thy ===== *)
theory Spec2Isabelle
  imports Message ProofBudget PilotGuard JobProperties GroupProperties UploadProperties ExtractionProperties CheckpointProperties WorkerProperties DownloadProperties FetchProperties CacheCleanup DerivedNames
begin

text \<open>
  A verification development for the backend of StegoLab, a workspace that hides authenticated
  messages in images, prepares image datasets, trains models within a fixed time budget and runs
  all of that as jobs of a local web service. File names below are relative to \<^verbatim>\<open>src/\<close>, and
  \<^verbatim>\<open>sources/\<close> stands for \<^verbatim>\<open>backend_service/dataset_sources/\<close>.

  \<^bold>\<open>How the parts of the program interact.\<close>
  A client asks the HTTP service for a job. The admission rules check the request, the job store
  records it with its event, and the supervisor's single scheduler thread takes the oldest job and
  either runs an encode or decode request itself or starts a worker process whose progress files it
  polls. A fetch job brings the files of a dataset into the download cache, over a transport that
  connects to public addresses only, or imports an archive that was uploaded in parts; archives are
  extracted into a stage; the images are grouped so that no group spans two splits. Training saves
  verified checkpoints and spends from a proof budget or, on a rented host, from a pilot budget whose
  guard saves and powers the host off in time. Encoding passes a message through framing,
  encryption, error correction and the payload map; decoding goes back.

  \<^bold>\<open>Conventions.\<close>
  A failure is a value of \<open>exn\<close> (code and status of an \<^verbatim>\<open>ApplicationFailure\<close>; the fixed sentence of a
  code is left out) and a fallible function returns a \<open>result\<close>. An operation that changes state in
  place is an \<open>action\<close>: it returns the new state also when it fails. Dictionaries are association lists in
  insertion order, Python integers are \<open>int\<close> or, where they cannot be negative, \<open>nat\<close>, bytes are
  8-bit words, addresses 32- and 128-bit words, floating-point times and metrics are \<open>real\<close>, text with
  arbitrary code points is a list of code points (\<open>pystr\<close>), and identifiers are \<open>string\<close>. What is not
  under \<^verbatim>\<open>src/\<close> is a parameter: password hashing and authenticated encryption, the Reed-Solomon codec,
  numpy, torch serialization, SHA-256, the JSON form of records, zip and tar readers, the database,
  the clock, fresh identifiers, name resolution and the network. Documented behaviour of these that a
  theorem needs is a named predicate (\<open>aead_documented\<close>, \<open>numpy_delivers\<close>, \<dots>), and each theorem with such a
  hypothesis has a witness with a concrete instance.
  Failures of the machine are inputs too: the outcome of each file operation, database statement or
  write is read from a list or a record, and theorems hold for all of them. A process that dies
  between two operations is a separate step where the program must survive it (\<open>ProofBudget\<close>, \<open>JobSystem\<close>).

  \<^bold>\<open>The theories.\<close>
  \<^item> \<open>Prelude\<close>, \<open>Specifications\<close>, \<open>Interfaces\<close>: results, actions and their rules, dictionary lemmas; pre- and
    postconditions for actions; the locales \<open>guarded_system\<close> (a step relation that keeps an invariant),
    \<open>metered_system\<close>, \<open>replayed_request\<close> (a provider that records requests) and \<open>replayed_system\<close> (one
    whose steps forget no record) that the components interpret.
  \<^item> \<open>Utf8\<close>, \<open>Files\<close>: strict UTF-8; atomic replacement of a record, disk reserves and relative paths
    (\<^verbatim>\<open>training_checkpoint_files.py\<close>, \<^verbatim>\<open>disk_reserve.py\<close>, \<^verbatim>\<open>schemas/dataset_common.py\<close>).
  \<^item> \<open>Capacity\<close>, \<open>Frame\<close>, \<open>Correction\<close>, \<open>PayloadMap\<close>, \<open>Message\<close>: the message protocol
    (\<^verbatim>\<open>schemas/protocol.py\<close>, \<^verbatim>\<open>backend_service/message_*.py\<close>, \<^verbatim>\<open>payload_map.py\<close>). Frames are accepted exactly
    when they were created under the same password and context; damage up to 16 bytes per interleaved
    block, or any minority of flipped copies, is undone; the end-to-end theorem composes the stages.
  \<^item> \<open>ProofBudget\<close>: \<^verbatim>\<open>training_budget.py\<close> as a transition system of processes, a lock and a ledger file. No
    interleaving with crashes and failing writes spends more than the allowance or returns a charge,
    and an experiment whose process died stays spent in every later history.
  \<^item> \<open>PilotLedger\<close>, \<open>PilotBudget\<close>, \<open>PilotGuard\<close>: the paid-host budget and its guard
    (\<^verbatim>\<open>schemas/pilot_budget.py\<close>, \<^verbatim>\<open>pilot_budget*.py\<close>, \<^verbatim>\<open>pilot_guard.py\<close>). The guard's loop is a step function
    over observed polls; it saves before it powers off and does both before the deadline.
  \<^item> \<open>JobStore\<close>, \<open>InferenceAdmission\<close>, \<open>JobRequests\<close>, \<open>JobService\<close>, \<open>JobScheduler\<close>: the tables, the admission
    rules, the request schemas, the service and its scheduler thread (\<^verbatim>\<open>workflow_store.py\<close>,
    \<^verbatim>\<open>inference_admission.py\<close>, \<^verbatim>\<open>inference_secrets.py\<close>, \<^verbatim>\<open>schemas/workflows.py\<close>, \<^verbatim>\<open>workspace_jobs.py\<close>,
    \<^verbatim>\<open>workflow_supervision.py\<close>, \<^verbatim>\<open>workflow_runner.py\<close>, \<^verbatim>\<open>workflow_fetch_runner.py\<close>, \<^verbatim>\<open>inference_runner.py\<close>), cut at
    the lock. \<open>JobQueue\<close> is the abstract queue; \<open>JobSections\<close> and \<open>JobAdmission\<close> relate each section to it,
    \<open>JobSystem\<close> interleaves them, \<open>JobRetries\<close> and \<open>JobEvents\<close> add mutation retries and the event stream
    (\<^verbatim>\<open>workflow_routes.py\<close>), and \<open>JobProperties\<close> holds the claims: refinement, final states, bounds, secrets.
    A shutdown waits for the scheduler thread with a timeout and then reconciles the queue, so the
    queue has jobs that are interrupted while they are still worked on, and whose outcome is written later.
  \<^item> \<open>WorkerExecution\<close>, \<open>WorkerProperties\<close>: the worker process of a job (\<^verbatim>\<open>workflow_execution.py\<close>). The polling
    loop is a partial function; its iterations are bounded by the time limit over the poll interval.
  \<^item> \<open>UnionFind\<close>, \<open>DatasetGroups\<close>, \<open>GroupProperties\<close>: leakage groups (\<^verbatim>\<open>dataset_groups.py\<close>). The path-halving
    search is a partial function that is shown to return; groups are the connected components of
    images that share pixels or an upstream identity, whatever their order.
  \<^item> \<open>UploadFiles\<close>, \<open>UploadSessions\<close>, \<open>UploadSafety\<close>, \<open>UploadProperties\<close>: archives uploaded in parts
    (\<^verbatim>\<open>sources/upload_session_files.py\<close>, \<^verbatim>\<open>sources/upload_sessions.py\<close>): the cap on stored bytes, verification
    of what is offered, and the round trip from parts to archive.
  \<^item> \<open>StageWriter\<close>, \<open>ArchiveMembers\<close>, \<open>ArchiveExtraction\<close>, \<open>ExtractionProperties\<close>: the data stage and the
    extraction of archives (\<^verbatim>\<open>dataset_storage.py\<close>, \<^verbatim>\<open>sources/archive_members.py\<close>,
    \<^verbatim>\<open>sources/archive_extraction.py\<close>): every extracted file lies in the stage and within the limits.
  \<^item> \<open>Checkpoints\<close>, \<open>CheckpointProperties\<close>: full-state checkpoints and their retention
    (\<^verbatim>\<open>training_checkpoints.py\<close>, \<^verbatim>\<open>training_checkpoint_state.py\<close>, \<^verbatim>\<open>schemas/checkpoints.py\<close>).
  \<^item> \<open>AddressPolicy\<close>, \<open>AddressRanges\<close>, \<open>Transport\<close>, \<open>TransportProperties\<close>, \<open>Downloads\<close>, \<open>DownloadProperties\<close>:
    the network side of a fetch (\<^verbatim>\<open>sources/address_policy.py\<close>, \<^verbatim>\<open>sources/transport.py\<close>,
    \<^verbatim>\<open>sources/transfer.py\<close>). Redirects and name resolution never lead to a connection with an
    address outside the public ones, apart from two blocks that the check overlooks (the site-local
    addresses and the newest documentation block, \<open>overlooked\<close> in \<open>TransportProperties\<close>); a download stays within its bound
    and ends verified, also when a partial file is resumed, and is whole if its length is known.
  \<^item> \<open>CacheFiles\<close>, \<open>DownloadCache\<close>: the download cache (\<^verbatim>\<open>schemas/dataset_cache.py\<close>,
    \<^verbatim>\<open>sources/cache_records.py\<close>, \<^verbatim>\<open>sources/cache.py\<close>, \<^verbatim>\<open>sources/cache_listing.py\<close> and \<open>in_use\<close> of
    \<^verbatim>\<open>dataset_source_service.py\<close>). The state is a tree of folders, one for each asset identity, and a tick;
    every file operation asks the world at its tick whether it fails, and a failed operation leaves a
    part of its effect.
  \<^item> \<open>FetchPlans\<close>, \<open>DerivedNames\<close>: what a fetch plans (\<^verbatim>\<open>sources/plans.py\<close>, \<^verbatim>\<open>sources/fetch_reuse.py\<close>,
    \<open>raw_folder_state\<close> of \<^verbatim>\<open>sources/source_marker.py\<close>, \<open>find_materialized\<close> of \<^verbatim>\<open>sources/materialization.py\<close>),
    and that the names it derives are admissible.
  \<^item> \<open>FetchDownloads\<close>: the download phase of a fetch (\<^verbatim>\<open>sources/fetch_downloads.py\<close>) over the cache and the
    transport, and the inspection of a source. Signals that interrupt the process between two
    operations and failures of the progress sink are not modelled.
  \<^item> \<open>CacheSafety\<close>, \<open>CacheProperties\<close>, \<open>FetchProperties\<close>, \<open>CacheCleanup\<close>: what each cache operation may change
    (only the folder of its identity), that every complete folder keeps holding the bytes its record
    states after every failure, that a fetch that succeeds ends with a verified entry for every planned
    asset, and that a cleanup removes what no raw folder uses and what no running fetch owns, and nothing else.

  \<^bold>\<open>Bounds and fuel.\<close>
  No loop is cut off by fuel. Loops over given data are structural recursion; the two loops without a
  bound in the source (root search, worker polling) are partial functions with theorems that they
  return, and the read loop of a download and the reading of a file in chunks terminate by the length of what
  is left. Limits of the code (sizes, counts, seconds) are constants with the values of the source.

  \<^bold>\<open>Not modelled.\<close>
  The neural models, their training loops and losses, image decoding and metrics (numeric code of
  torch, Pillow and numpy without a specification of its own); model export, evaluation and
  installation, which drive those packages; the Hugging Face and parquet adapters and the
  materialization of datasets, which translate foreign formats, with the rest of the fetch that drives
  them; the HTTP routing, the command line
  and logging (glue around the modelled services); the frontend, scripts and tests. The manifest
  names the files.
\<close>

end
